(* ===== verification/Prelude.thy ===== *)
theory Prelude
  imports Main "HOL-Library.Word"
begin

text \<open>
  Shared vocabulary of the development: the C++ machine types, the result type of code
  that can fail, checked array accesses, and the generic lemmas the component theories
  use.

  Integers of the source that wrap are words of their width; \<open>unsigned\<close>,
  \<open>uint32_t\<close> and \<open>BUSW\<close> are \<open>u32\<close>, a \<open>char\<close> of a buffer is a byte \<open>u8\<close>.
  An \<open>int\<close> that only counts is a HOL \<open>int\<close> or \<open>nat\<close>.
  A failed \<open>assert\<close>, an \<open>exit\<close>, a thrown exception and an access outside an array are
  values of \<^typ>\<open>'a + 'b\<close> on the left, with the reason.
\<close>

unbundle bit_operations_syntax

subsection \<open>Machine types\<close>

type_synonym u8 = "8 word"
type_synonym u16 = "16 word"
type_synonym u32 = "32 word"
type_synonym u64 = "64 word"

subsection \<open>Failures as values\<close>

datatype cerr =
    OutOfBounds        \<comment> \<open>an array access outside the array: undefined behaviour in C++\<close>
  | AssertFail         \<comment> \<open>a failed \<open>assert\<close>\<close>
  | ExitWith int       \<comment> \<open>\<open>exit(n)\<close>\<close>
  | BusErr u32         \<comment> \<open>\<open>throw BUSERR(addr)\<close>\<close>
  | Thrown string      \<comment> \<open>\<open>throw "text"\<close>\<close>
  | BadShift           \<comment> \<open>a shift by the width of the word or more: undefined behaviour in C++\<close>
  | DivByZero        \<comment> \<open>a division by zero: undefined behaviour in C\<close>
  | NoReturn           \<comment> \<open>the call has not returned within the input that was supplied\<close>

type_synonym 'a res = "cerr + 'a"

definition bindE :: "'e + 'a \<Rightarrow> ('a \<Rightarrow> 'e + 'b) \<Rightarrow> 'e + 'b" where
  "bindE m f = (case m of Inl e \<Rightarrow> Inl e | Inr x \<Rightarrow> f x)"

definition assertE :: "bool \<Rightarrow> unit res" where
  "assertE b = (if b then Inr () else Inl AssertFail)"

lemma bindE_simps [simp]:
  "bindE (Inl e) f = Inl e"
  "bindE (Inr x) f = f x"
  by (simp_all add: bindE_def)

lemma bindE_cong [fundef_cong]:
  "m = m' \<Longrightarrow> (\<And>x. m' = Inr x \<Longrightarrow> f x = f' x) \<Longrightarrow> bindE m f = bindE m' f'"
  by (simp add: bindE_def split: sum.splits)

lemma bindE_Inr_iff: "bindE m f = Inr y \<longleftrightarrow> (\<exists>x. m = Inr x \<and> f x = Inr y)"
  by (cases m) simp_all

lemma bindE_assoc: "bindE (bindE m f) g = bindE m (\<lambda>x. bindE (f x) g)"
  by (cases m) simp_all

lemma assertE_simps [simp]:
  "assertE True = Inr ()"
  "assertE False = Inl AssertFail"
  "assertE b = Inr u \<longleftrightarrow> b"
  "assertE b = Inl e \<longleftrightarrow> \<not> b \<and> e = AssertFail"
  by (auto simp: assertE_def)

subsection \<open>Checked array accesses\<close>

definition aget :: "'a list \<Rightarrow> nat \<Rightarrow> 'a res" where
  "aget xs i = (if i < length xs then Inr (xs ! i) else Inl OutOfBounds)"

definition aset :: "'a list \<Rightarrow> nat \<Rightarrow> 'a \<Rightarrow> 'a list res" where
  "aset xs i v = (if i < length xs then Inr (xs[i := v]) else Inl OutOfBounds)"

lemma aget_in [simp]: "i < length xs \<Longrightarrow> aget xs i = Inr (xs ! i)"
  by (simp add: aget_def)

lemma aset_in [simp]: "i < length xs \<Longrightarrow> aset xs i v = Inr (xs[i := v])"
  by (simp add: aset_def)

lemma aget_out: "length xs \<le> i \<Longrightarrow> aget xs i = Inl OutOfBounds"
  by (simp add: aget_def)

lemma aset_out: "length xs \<le> i \<Longrightarrow> aset xs i v = Inl OutOfBounds"
  by (simp add: aset_def)

lemma aget_Inr_iff: "aget xs i = Inr v \<longleftrightarrow> i < length xs \<and> v = xs ! i"
  by (auto simp: aget_def)

lemma aset_Inr_iff: "aset xs i v = Inr ys \<longleftrightarrow> i < length xs \<and> ys = xs[i := v]"
  by (auto simp: aset_def)

text \<open>Several values stored at consecutive indices, as \<open>sprintf\<close> and \<open>read\<close> do.\<close>

fun put_bytes :: "nat \<Rightarrow> 'a list \<Rightarrow> 'a list \<Rightarrow> 'a list res" where
  "put_bytes i [] buf = Inr buf"
| "put_bytes i (b # bs) buf = bindE (aset buf i b) (\<lambda>buf. put_bytes (Suc i) bs buf)"

lemma put_bytes_in:
  "i + length bs \<le> length buf \<Longrightarrow> put_bytes i bs buf = Inr (take i buf @ bs @ drop (i + length bs) buf)"
proof (induction bs arbitrary: i buf)
  case (Cons b bs)
  then have i: "i < length buf" by simp
  with Cons have "put_bytes i (b # bs) buf =
      Inr (take (Suc i) (buf[i := b]) @ bs @ drop (Suc i + length bs) (buf[i := b]))" by simp
  then show ?case using i by (simp add: take_Suc_conv_app_nth)
qed simp

lemma put_bytes_length: "put_bytes i bs buf = Inr buf' \<Longrightarrow> length buf' = length buf"
  by (induction bs arbitrary: i buf) (auto simp: bindE_Inr_iff aset_Inr_iff)

subsection \<open>Programs that change a state and can throw\<close>

text \<open>
  A method that throws leaves the object as it was at the throw; the handler goes on from
  there. So both outcomes carry the state. \<open>wp m Q E s\<close>: from \<open>s\<close> the program either
  returns with \<open>Q\<close> or throws with \<open>E\<close>; with \<open>E\<close> false it states that the call returns.
\<close>

type_synonym ('s, 'a) prog = "'s \<Rightarrow> (cerr \<times> 's) + ('a \<times> 's)"

definition retS :: "'a \<Rightarrow> ('s, 'a) prog" where
  "retS x s = Inr (x, s)"

definition throwS :: "cerr \<Rightarrow> ('s, 'a) prog" where
  "throwS e s = Inl (e, s)"

definition thenS :: "('s, 'a) prog \<Rightarrow> ('a \<Rightarrow> ('s, 'b) prog) \<Rightarrow> ('s, 'b) prog" where
  "thenS m f s = (case m s of Inl (e, t) \<Rightarrow> Inl (e, t) | Inr (x, t) \<Rightarrow> f x t)"

definition catchS :: "('s, 'a) prog \<Rightarrow> (cerr \<Rightarrow> ('s, 'a) prog) \<Rightarrow> ('s, 'a) prog" where
  "catchS m h s = (case m s of Inl (e, t) \<Rightarrow> h e t | Inr (x, t) \<Rightarrow> Inr (x, t))"

definition getS :: "('s \<Rightarrow> 'a) \<Rightarrow> ('s, 'a) prog" where
  "getS f s = Inr (f s, s)"

definition modS :: "('s \<Rightarrow> 's) \<Rightarrow> ('s, unit) prog" where
  "modS f s = Inr ((), f s)"

definition liftS :: "'a res \<Rightarrow> ('s, 'a) prog" where
  "liftS r s = (case r of Inl e \<Rightarrow> Inl (e, s) | Inr x \<Rightarrow> Inr (x, s))"

definition wp :: "('s, 'a) prog \<Rightarrow> ('a \<Rightarrow> 's \<Rightarrow> bool) \<Rightarrow> (cerr \<Rightarrow> 's \<Rightarrow> bool) \<Rightarrow> 's \<Rightarrow> bool" where
  "wp m Q E s = (case m s of Inl (e, t) \<Rightarrow> E e t | Inr (x, t) \<Rightarrow> Q x t)"

named_theorems wp_simps \<open>the weakest precondition of each construct\<close>

lemma wp_retS [wp_simps]: "wp (retS x) Q E s = Q x s"
  by (simp add: wp_def retS_def)

lemma wp_throwS [wp_simps]: "wp (throwS e) Q E s = E e s"
  by (simp add: wp_def throwS_def)

lemma wp_getS [wp_simps]: "wp (getS g) Q E s = Q (g s) s"
  by (simp add: wp_def getS_def)

lemma wp_modS [wp_simps]: "wp (modS f) Q E s = Q () (f s)"
  by (simp add: wp_def modS_def)

lemma wp_thenS [wp_simps]: "wp (thenS m f) Q E s = wp m (\<lambda>x. wp (f x) Q E) E s"
  by (auto simp: wp_def thenS_def split: sum.splits)

lemma wp_catchS [wp_simps]: "wp (catchS m h) Q E s = wp m Q (\<lambda>e. wp (h e) Q E) s"
  by (auto simp: wp_def catchS_def split: sum.splits)

lemma wp_liftS_Inr [wp_simps]: "wp (liftS (Inr x)) Q E s = Q x s"
  and wp_liftS_Inl [wp_simps]: "wp (liftS (Inl e)) Q E s = E e s"
  by (simp_all add: wp_def liftS_def)

lemma wp_if [wp_simps]: "wp (if b then m else n) Q E s = (if b then wp m Q E s else wp n Q E s)"
  by simp

lemma wp_mono:
  "wp m Q E s \<Longrightarrow> (\<And>x t. Q x t \<Longrightarrow> Q' x t) \<Longrightarrow> (\<And>e t. E e t \<Longrightarrow> E' e t) \<Longrightarrow> wp m Q' E' s"
  by (auto simp: wp_def split: sum.splits)

lemma wp_seq:
  "wp m R E s \<Longrightarrow> (\<And>x t. R x t \<Longrightarrow> wp (f x) Q E t) \<Longrightarrow> wp (thenS m f) Q E s"
  unfolding wp_thenS by (erule wp_mono) simp_all

lemma wp_catch:
  "wp m Q F s \<Longrightarrow> (\<And>e t. F e t \<Longrightarrow> wp (h e) Q E t) \<Longrightarrow> wp (catchS m h) Q E s"
  unfolding wp_catchS by (erule wp_mono) simp_all

lemma wp_catch_none: "wp m Q (\<lambda>_ _. False) s \<Longrightarrow> wp (catchS m h) Q E s"
  unfolding wp_catchS by (erule wp_mono) simp_all

lemma thenS_assoc: "thenS (thenS m f) g = thenS m (\<lambda>x. thenS (f x) g)"
  by (rule ext) (auto simp: thenS_def split: sum.splits)

lemma thenS_retS [simp]: "thenS (retS x) f = f x"
  by (rule ext) (simp add: thenS_def retS_def)

lemma liftS_Inr: "liftS (Inr x) = retS x"
  by (rule ext) (simp add: liftS_def retS_def)

lemmas wp_thenS_fun = ext [OF wp_thenS]

lemma wp_InrI: "m s = Inr (x, t) \<Longrightarrow> Q x t \<Longrightarrow> wp m Q E s"
  by (simp add: wp_def)

lemma thenS_cong [fundef_cong]:
  "m s = m' s' \<Longrightarrow> (\<And>x t. m' s' = Inr (x, t) \<Longrightarrow> f x t = f' x t) \<Longrightarrow> thenS m f s = thenS m' f' s'"
  by (auto simp: thenS_def split: sum.splits)

subsection \<open>Masks\<close>

lemma ff_mask: "(0xff :: 'a::len word) = mask 8"
  by (simp add: mask_eq_exp_minus_1)

lemma ffff_mask: "(0xffff :: 'a::len word) = mask 16"
  by (simp add: mask_eq_exp_minus_1)

lemmas mask_numerals = ff_mask ffff_mask

text \<open>The constructors of the simulated memories size an array to a power of two.\<close>

lemma unat_mask_eq: "k \<le> LENGTH('a) \<Longrightarrow> unat (mask k :: 'a::len word) = 2 ^ k - 1"
proof -
  assume "k \<le> LENGTH('a)"
  then have "unat (mask k :: 'a word) = mask k"
    by (auto simp: bit_eq_iff bit_simps)
  then show ?thesis by (simp add: mask_eq_exp_minus_1)
qed

lemma unat_pow2_u32: "k < 32 \<Longrightarrow> unat (2 ^ k :: u32) = 2 ^ k"
proof -
  assume k: "k < 32"
  then have "(2::nat) ^ k < 2 ^ 32" by (rule power_strict_increasing) simp
  then have "unat (of_nat (2 ^ k) :: u32) = 2 ^ k"
    by (simp only: unsigned_of_nat) (simp add: take_bit_nat_eq_self k)
  then show ?thesis by simp
qed

lemma unat_and_mask_less: "k < LENGTH('a) \<Longrightarrow> unat (w AND mask k :: 'a::len word) < 2 ^ k"
  by (simp flip: take_bit_eq_mask add: unsigned_take_bit_eq)

text \<open>Positions in a circular buffer of \<open>2 ^ d\<close> entries: the wrap-around of the word
  and the mask together are arithmetic modulo \<open>2 ^ d\<close>.\<close>

lemma unat_diff_and_mask:
  fixes a b :: u32
  assumes "d \<le> 32"
  shows "unat ((a - b) AND mask d) = nat ((uint a - uint b) mod 2 ^ d)"
proof -
  have "uint ((a - b) AND mask d) = take_bit d (uint (a - b))"
    by (simp flip: take_bit_eq_mask add: unsigned_take_bit_eq)
  also have "\<dots> = take_bit d (uint a - uint b)"
  proof -
    have "(2::int) ^ d dvd 4294967296"
      using le_imp_power_dvd [OF assms, of "2 :: int"] by simp
    then show ?thesis by (simp add: uint_word_ariths take_bit_eq_mod mod_mod_cancel)
  qed
  finally show ?thesis
    by (metis nat_uint_eq take_bit_eq_mod)
qed

lemma uint_and_mask:
  fixes a :: u32
  shows "uint (a AND mask d) = uint a mod 2 ^ d"
  by (simp only: take_bit_eq_mask [symmetric] unsigned_take_bit_eq) (simp add: take_bit_eq_mod)

lemma u8_bit_beyond: "8 \<le> n \<Longrightarrow> \<not> bit (a :: u8) n"
  using bit_imp_le_length [of a n] by auto

lemma u32_bit_beyond: "32 \<le> n \<Longrightarrow> \<not> bit (a :: u32) n"
  using bit_imp_le_length [of a n] by auto

subsection \<open>Running a clocked machine over a list of inputs\<close>

text \<open>
  Every simulated device is called once per clock tick with the values on its pins and
  returns the values it drives. \<open>run_machine step\<close> is that loop; it stops at the first
  failure.
\<close>

fun run_machine :: "('s \<Rightarrow> 'i \<Rightarrow> ('s \<times> 'o) res) \<Rightarrow> 's \<Rightarrow> 'i list \<Rightarrow> ('s \<times> 'o list) res" where
  "run_machine step s [] = Inr (s, [])"
| "run_machine step s (i # is) =
     bindE (step s i) (\<lambda>(s', out). bindE (run_machine step s' is) (\<lambda>(s'', outs). Inr (s'', out # outs)))"

lemma run_machine_append:
  "run_machine step s (is @ js) =
     bindE (run_machine step s is) (\<lambda>(s', outs).
       bindE (run_machine step s' js) (\<lambda>(s'', outs'). Inr (s'', outs @ outs')))"
proof (induction "is" arbitrary: s)
  case Nil
  show ?case by (cases "run_machine step s js") auto
next
  case (Cons i "is")
  show ?case
  proof (cases "step s i")
    case (Inr p)
    then show ?thesis
      by (cases p) (auto simp: Cons.IH bindE_assoc bindE_def split: sum.splits)
  qed simp
qed

text \<open>
  A clocked machine with an invariant: from a state that satisfies it, a tick whose input
  is admissible succeeds and keeps it.
\<close>

locale clocked_machine =
  fixes step :: "'s \<Rightarrow> 'i \<Rightarrow> ('s \<times> 'o) res"
    and inv :: "'s \<Rightarrow> bool"
    and admissible :: "'i \<Rightarrow> bool"
  assumes step_safe: "inv s \<Longrightarrow> admissible i \<Longrightarrow> \<exists>s' out. step s i = Inr (s', out) \<and> inv s'"
begin

lemma run_safe:
  "inv s \<Longrightarrow> list_all admissible is \<Longrightarrow>
     \<exists>s' outs. run_machine step s is = Inr (s', outs) \<and> inv s' \<and> length outs = length is"
proof (induction "is" arbitrary: s)
  case Nil
  then show ?case by simp
next
  case (Cons i "is")
  then obtain s1 out where "step s i = Inr (s1, out)" "inv s1"
    using step_safe by fastforce
  with Cons.IH [of s1] Cons.prems show ?case by fastforce
qed

lemma run_inv:
  "inv s \<Longrightarrow> list_all admissible is \<Longrightarrow> run_machine step s is = Inr (s', outs) \<Longrightarrow> inv s'"
  using run_safe by fastforce

end

end
