(* ===== verification/ByteSwap.thy ===== *)
theory ByteSwap
  imports Prelude
begin

text \<open>
  \<open>sim/verilated/byteswap.cpp\<close>, its copy \<open>sw/host/byteswap.cpp\<close> and
  \<open>sim/verilated/twoc.cpp\<close>: the endianness conversions between the words of the
  (big endian) ZipCPU and the bytes of the host, and the bit-field extractors. The
  statements of each C function are kept one by one, each assignment a \<open>let\<close>.
\<close>

subsection \<open>Definitions\<close>

definition byteswap :: "u32 \<Rightarrow> u32" where
  "byteswap v =
     (let r = v AND 0xff;
          r = push_bit 8 r; v = drop_bit 8 v;
          r = r OR (v AND 0xff);
          r = push_bit 8 r; v = drop_bit 8 v;
          r = r OR (v AND 0xff);
          r = push_bit 8 r; v = drop_bit 8 v;
          r = r OR (v AND 0xff)
      in r)"

text \<open>The loop \<open>for(i=0; i<ln; i++) buf[i] = byteswap(buf[i])\<close>, from index \<open>i\<close> on.\<close>

function byteswapbuf_from :: "nat \<Rightarrow> nat \<Rightarrow> u32 list \<Rightarrow> u32 list res" where
  "byteswapbuf_from i ln buf =
     (if i < ln
      then bindE (aget buf i) (\<lambda>v. bindE (aset buf i (byteswap v)) (\<lambda>buf. byteswapbuf_from (Suc i) ln buf))
      else Inr buf)"
  by pat_completeness auto
termination
  by (relation "measure (\<lambda>(i, ln, buf). ln - i)") auto

definition byteswapbuf :: "nat \<Rightarrow> u32 list \<Rightarrow> u32 list res" where
  "byteswapbuf ln buf = byteswapbuf_from 0 ln buf"

text \<open>\<open>p\<close> is the list of the bytes from the pointer on; the four reads are in range only
  when it holds four of them.\<close>

definition buildword :: "u8 list \<Rightarrow> u32 res" where
  "buildword p =
     bindE (aget p 0) (\<lambda>p0. bindE (aget p 1) (\<lambda>p1. bindE (aget p 2) (\<lambda>p2. bindE (aget p 3) (\<lambda>p3.
       let r = (ucast p0 :: u32); r = push_bit 8 r;
           r = r OR ucast p1; r = push_bit 8 r;
           r = r OR ucast p2; r = push_bit 8 r;
           r = r OR ucast p3
       in Inr r))))"

definition buildswap :: "u8 list \<Rightarrow> u32 res" where
  "buildswap p =
     bindE (aget p 3) (\<lambda>p3. bindE (aget p 2) (\<lambda>p2. bindE (aget p 1) (\<lambda>p1. bindE (aget p 0) (\<lambda>p0.
       let r = (ucast p3 :: u32); r = push_bit 8 r;
           r = r OR ucast p2; r = push_bit 8 r;
           r = r OR ucast p1; r = push_bit 8 r;
           r = r OR ucast p0
       in Inr r))))"

subsection \<open>Where each bit goes\<close>

lemma bit_byteswap:
  "n < 32 \<Longrightarrow> bit (byteswap v) n =
     bit v (if n < 8 then n + 24 else if n < 16 then n + 8 else if n < 24 then n - 8 else n - 24)"
  unfolding byteswap_def ff_mask Let_def
  by (auto simp: bit_simps ac_simps)

lemma byteswap_byteswap [simp]: "byteswap (byteswap v) = v"
  by (rule bit_word_eqI) (auto simp: bit_byteswap)

lemma byteswap_inj: "byteswap a = byteswap b \<longleftrightarrow> a = b"
  by (metis byteswap_byteswap)

lemma byteswap_ones: "byteswap (- 1) = - 1"
  by (rule bit_word_eqI) (auto simp: bit_byteswap)

lemma buildword_four:
  "buildword (a # b # c # d # rest) =
     Inr (push_bit 24 (ucast a) OR push_bit 16 (ucast b) OR push_bit 8 (ucast c) OR ucast d)"
  by (simp add: buildword_def push_bit_or ac_simps)

lemma buildswap_four:
  "buildswap (a # b # c # d # rest) =
     Inr (push_bit 24 (ucast d) OR push_bit 16 (ucast c) OR push_bit 8 (ucast b) OR ucast a)"
  by (simp add: buildswap_def push_bit_or ac_simps)

lemma buildswap_eq_byteswap_buildword:
  "buildswap (a # b # c # d # rest) = map_sum id byteswap (buildword (a # b # c # d # rest))"
proof -
  have "push_bit 24 (ucast d) OR push_bit 16 (ucast c) OR push_bit 8 (ucast b) OR ucast a =
    byteswap (push_bit 24 (ucast a) OR push_bit 16 (ucast b) OR push_bit 8 (ucast c) OR ucast d)"
  proof (rule bit_word_eqI)
    fix n assume "n < LENGTH(32)"
    then have n: "n < 32" by simp
    consider "n < 8" | "8 \<le> n" "n < 16" | "16 \<le> n" "n < 24" | "24 \<le> n" "n < 32"
      using n by linarith
    then show "bit (push_bit 24 (ucast d) OR push_bit 16 (ucast c) OR push_bit 8 (ucast b) OR ucast a :: u32) n =
      bit (byteswap (push_bit 24 (ucast a) OR push_bit 16 (ucast b) OR push_bit 8 (ucast c) OR ucast d)) n"
      by cases (simp_all add: bit_byteswap bit_simps u8_bit_beyond, auto)
  qed
  then show ?thesis by (simp add: buildword_four buildswap_four)
qed

subsection \<open>The buffer\<close>

declare byteswapbuf_from.simps [simp del]

lemma byteswapbuf_from_eq:
  "i \<le> ln \<Longrightarrow> ln \<le> length buf \<Longrightarrow>
     byteswapbuf_from i ln buf =
       Inr (take i buf @ map byteswap (take (ln - i) (drop i buf)) @ drop ln buf)"
proof (induction i ln buf rule: byteswapbuf_from.induct)
  case (1 i ln buf)
  show ?case
  proof (cases "i < ln")
    case True
    with "1.prems" have i: "i < length buf" by simp
    have "byteswapbuf_from i ln buf = byteswapbuf_from (Suc i) ln (buf[i := byteswap (buf ! i)])"
      using True i by (simp add: byteswapbuf_from.simps [of i])
    also have "\<dots> = Inr (take (Suc i) (buf[i := byteswap (buf ! i)])
        @ map byteswap (take (ln - Suc i) (drop (Suc i) buf)) @ drop ln buf)"
      using "1.IH" [of "buf ! i" "buf[i := byteswap (buf ! i)]"] True i "1.prems" by simp
    also have "\<dots> = Inr (take i buf @ map byteswap (take (ln - i) (drop i buf)) @ drop ln buf)"
      using True i by (simp add: take_Suc_conv_app_nth Cons_nth_drop_Suc [symmetric] Suc_diff_Suc [symmetric])
    finally show ?thesis .
  next
    case False
    with "1.prems" show ?thesis by (subst byteswapbuf_from.simps) simp
  qed
qed

lemma byteswapbuf_eq:
  "ln \<le> length buf \<Longrightarrow> byteswapbuf ln buf = Inr (map byteswap (take ln buf) @ drop ln buf)"
  by (simp add: byteswapbuf_def byteswapbuf_from_eq)

text \<open>Asking for more words than the buffer has is an access outside it.\<close>

lemma byteswapbuf_from_overrun:
  "i \<le> length buf \<Longrightarrow> length buf < ln \<Longrightarrow> byteswapbuf_from i ln buf = Inl OutOfBounds"
proof (induction i ln buf rule: byteswapbuf_from.induct)
  case (1 i ln buf)
  show ?case
  proof (cases "i < length buf")
    case True
    with "1.prems" show ?thesis
      using "1.IH" [of "buf ! i" "buf[i := byteswap (buf ! i)]"]
      by (simp add: byteswapbuf_from.simps [of i])
  next
    case False
    with "1.prems" show ?thesis
      by (subst byteswapbuf_from.simps) (simp add: aget_out)
  qed
qed

subsection \<open>Properties\<close>

text \<open>Swapping the bytes of a buffer twice restores it: \<open>byteswapbuf\<close> on the first
  \<open>ln\<close> words never leaves the buffer when it holds that many, touches nothing behind
  them, and is its own inverse there.\<close>

theorem byteswapbuf_involutive:
  assumes "ln \<le> length buf"
  shows "bindE (byteswapbuf ln buf) (byteswapbuf ln) = Inr buf"
proof -
  have "byteswapbuf ln (map byteswap (take ln buf) @ drop ln buf) = Inr buf"
    using assms by (simp add: byteswapbuf_eq comp_def)
  with assms show ?thesis by (simp add: byteswapbuf_eq)
qed

theorem byteswapbuf_involutive_witness:
  "(2::nat) \<le> length [0x11223344, 0xdeadbeef, 7 :: u32] \<and>
   bindE (byteswapbuf 2 [0x11223344, 0xdeadbeef, 7]) (byteswapbuf 2) = Inr [0x11223344, 0xdeadbeef, 7]"
proof -
  have h: "(2::nat) \<le> length [0x11223344, 0xdeadbeef, 7 :: u32]" by simp
  show ?thesis using h byteswapbuf_involutive [OF h] by blast
qed

end
