(* ===== verification/MemSim.thy ===== *)
theory MemSim
  imports Prelude
begin

text \<open>
  \<open>sim/verilated/memsim.cpp\<close>: \<open>MEMSIM\<close>, a memory on a pipelined Wishbone bus whose
  answers come \<open>ms_delay\<close> clock ticks after the request. A field \<open>m_x\<close> of the class
  is \<open>ms_x\<close> here. The state keeps the circular
  buffers \<open>ms_fifo_ack\<close> and \<open>ms_fifo_data\<close> the code keeps; the refinement at the end
  shows that together they are a queue of the answers in flight.
\<close>

subsection \<open>The constructor's sizing loop\<close>

text \<open>\<open>for(nxt=1; nxt < nwords; nxt<<=1);\<close> The shift can push the only set bit out of
  the word, after which the loop never ends: \<open>None\<close>.\<close>

partial_function (option) pow2_above :: "u32 \<Rightarrow> u32 \<Rightarrow> u32 option" where
  "pow2_above nxt nwords =
     (if nxt < nwords then pow2_above (push_bit 1 nxt) nwords else Some nxt)"

lemma pow2_above_start:
  assumes "j \<le> k" "k \<le> 31" "unat nwords \<le> 2 ^ k" "\<forall>i<k. 2 ^ i < unat nwords"
  shows "pow2_above (2 ^ j) nwords = Some (2 ^ k)"
  using assms(1)
proof (induction j rule: inc_induct)
  case base
  have "\<not> (2 ^ k :: u32) < nwords"
    using assms(2,3) by (simp add: word_less_nat_alt unat_pow2_u32 not_less)
  then show ?case by (simp add: pow2_above.simps)
next
  case (step n)
  then have "(2 ^ n :: u32) < nwords"
    using assms(2,4) by (simp add: word_less_nat_alt unat_pow2_u32)
  moreover have "push_bit 1 (2 ^ n :: u32) = 2 ^ Suc n"
    by (simp add: push_bit_eq_mult)
  ultimately show ?case
    using step.IH by (subst pow2_above.simps) (simp add: mult.commute)
qed

lemma least_pow2:
  assumes "n \<le> 2 ^ m"
  obtains k where "k \<le> m" "n \<le> 2 ^ k" "\<forall>i<k. (2::nat) ^ i < n"
proof -
  let ?k = "LEAST k. n \<le> 2 ^ k"
  have "?k \<le> m" using assms by (rule Least_le)
  moreover have "n \<le> 2 ^ ?k" using assms by (rule LeastI)
  moreover have "\<forall>i<?k. 2 ^ i < n" using not_less_Least not_le by blast
  ultimately show ?thesis by (rule that)
qed

lemma pow2_above_total:
  assumes "nwords \<le> 2 ^ 31"
  shows "\<exists>k\<le>31. pow2_above 1 nwords = Some (2 ^ k) \<and> unat nwords \<le> 2 ^ k \<and> (\<forall>i<k. 2 ^ i < unat nwords)"
proof -
  have "unat nwords \<le> 2 ^ 31"
    using assms by (simp add: word_le_nat_alt)
  then obtain k where k: "k \<le> 31" "unat nwords \<le> 2 ^ k" "\<forall>i<k. (2::nat) ^ i < unat nwords"
    by (rule least_pow2)
  with pow2_above_start [of 0 k nwords] show ?thesis by auto
qed

subsection \<open>State, request and answer\<close>

record memsim =
  ms_mem :: "u32 list"
  ms_len :: u32
  ms_mask :: u32
  ms_head :: u32
  ms_tail :: u32
  ms_delay_mask :: u32
  ms_delay :: u32
  ms_fifo_ack :: "u32 list"
  ms_fifo_data :: "u32 list"

record wb_req =
  wb_cyc :: u8
  wb_stb :: u8
  wb_we :: u8
  wb_addr :: u32
  wb_data :: u32
  wb_sel :: u8

record wb_ans =
  o_ack :: u8
  o_stall :: u8
  o_data :: u32

subsection \<open>Operations\<close>

text \<open>The constructor. \<open>garbage\<close> is what \<open>new BUSW[...]\<close> finds in memory; the data FIFO is
  not cleared either.\<close>

definition memsim_new :: "(nat \<Rightarrow> u32) \<Rightarrow> u32 \<Rightarrow> u32 \<Rightarrow> memsim option" where
  "memsim_new garbage nwords delay =
     Option.bind (pow2_above 1 nwords) (\<lambda>nxt.
     Option.bind (pow2_above 1 delay) (\<lambda>dmask.
       let mask = dmask - 1 in
       Some \<lparr>ms_mem = map garbage [0..<unat nxt], ms_len = nxt, ms_mask = nxt - 1,
             ms_head = 0, ms_tail = (0 - delay) AND mask, ms_delay_mask = mask, ms_delay = delay,
             ms_fifo_ack = replicate (unat dmask) 0,
             ms_fifo_data = map garbage [0..<unat dmask]\<rparr>))"

definition memsim_sel :: "u8 \<Rightarrow> u32" where
  "memsim_sel selin =
     (let sel = 0;
          sel = (if selin AND 0x8 \<noteq> 0 then sel OR 0xff000000 else sel);
          sel = (if selin AND 0x4 \<noteq> 0 then sel OR 0x00ff0000 else sel);
          sel = (if selin AND 0x2 \<noteq> 0 then sel OR 0x0000ff00 else sel);
          sel = (if selin AND 0x1 \<noteq> 0 then sel OR 0x000000ff else sel)
      in sel)"

text \<open>The write of \<open>apply\<close>: the whole word, or the selected byte lanes of it.\<close>

definition memsim_write :: "u32 list \<Rightarrow> nat \<Rightarrow> u32 \<Rightarrow> u32 \<Rightarrow> u32 list res" where
  "memsim_write mem a sel wdata =
     (if sel = 0xffffffff then aset mem a wdata
      else bindE (aget mem a) (\<lambda>memv.
             let memv = memv AND NOT sel;
                 memv = memv OR (wdata AND sel)
             in aset mem a memv))"

definition memsim_apply :: "memsim \<Rightarrow> wb_req \<Rightarrow> (memsim \<times> wb_ans) res" where
  "memsim_apply s r =
     (let sel = memsim_sel (wb_sel r);
          head = ms_head s + 1;
          tail = (head - ms_delay s) AND ms_delay_mask s;
          head = head AND ms_delay_mask s
      in
      bindE (aget (ms_fifo_ack s) (unat tail)) (\<lambda>ack.
      bindE (aget (ms_fifo_data s) (unat tail)) (\<lambda>odata.
      bindE (aset (ms_fifo_ack s) (unat head) 0) (\<lambda>facks.
      bindE (aset (ms_fifo_data s) (unat head) 0) (\<lambda>fdata.
      let ans = \<lparr>o_ack = ucast ack, o_stall = 0, o_data = odata\<rparr>;
          s = s\<lparr>ms_head := head, ms_tail := tail, ms_fifo_ack := facks, ms_fifo_data := fdata\<rparr>
      in
      if wb_cyc r \<noteq> 0 \<and> wb_stb r \<noteq> 0 then
        bindE (if wb_we r \<noteq> 0
               then memsim_write (ms_mem s) (unat (wb_addr r AND ms_mask s)) sel (wb_data r)
               else Inr (ms_mem s)) (\<lambda>mem.
        bindE (aset (ms_fifo_ack s) (unat head) 1) (\<lambda>facks.
        bindE (aget mem (unat (wb_addr r AND ms_mask s))) (\<lambda>v.
        bindE (aset (ms_fifo_data s) (unat head) v) (\<lambda>fdata.
          Inr (s\<lparr>ms_mem := mem, ms_fifo_ack := facks, ms_fifo_data := fdata\<rparr>, ans)))))
      else Inr (s, ans))))))"

text \<open>\<open>load\<close> from a file: as many words of it as fit, or none when it cannot be opened, and
  zeros after them. \<open>SRAMSIM\<close> has the same code.\<close>

definition words_from_file :: "u32 list option \<Rightarrow> u32 \<Rightarrow> u32 list" where
  "words_from_file file len =
     (let ws = (case file of None \<Rightarrow> [] | Some ws \<Rightarrow> take (unat len) ws) in
      ws @ replicate (unat len - length ws) 0)"

definition memsim_load_file :: "u32 list option \<Rightarrow> memsim \<Rightarrow> memsim" where
  "memsim_load_file file s = s\<lparr>ms_mem := words_from_file file (ms_len s)\<rparr>"

text \<open>\<open>memcpy\<close> of bytes into an array of words, from a word on, on a little endian host.\<close>

fun copy_bytes :: "nat \<Rightarrow> u8 list \<Rightarrow> u32 list \<Rightarrow> u32 list res" where
  "copy_bytes i [] mem = Inr mem"
| "copy_bytes i (b # bs) mem =
     bindE (aget mem (i div 4)) (\<lambda>w.
     let sh = 8 * (i mod 4) in
     bindE (aset mem (i div 4) (w AND NOT (push_bit sh 0xff) OR push_bit sh (ucast b))) (\<lambda>mem.
       copy_bytes (Suc i) bs mem))"

definition memsim_load_buf :: "u32 \<Rightarrow> u8 list \<Rightarrow> memsim \<Rightarrow> memsim res" where
  "memsim_load_buf addr buf s =
     bindE (copy_bytes (4 * unat addr) buf (ms_mem s)) (\<lambda>mem. Inr (s\<lparr>ms_mem := mem\<rparr>))"

text \<open>\<open>operator[]\<close>.\<close>

definition memsim_index :: "memsim \<Rightarrow> u32 \<Rightarrow> u32 res" where
  "memsim_index s addr = aget (ms_mem s) (unat (addr AND ms_mask s))"

subsection \<open>Well-formed states\<close>

definition memsim_inv :: "memsim \<Rightarrow> bool" where
  "memsim_inv s \<longleftrightarrow>
     (\<exists>k\<le>31. ms_mask s = mask k \<and> length (ms_mem s) = 2 ^ k \<and> ms_len s = 2 ^ k) \<and>
     (\<exists>d\<le>31. ms_delay_mask s = mask d \<and> length (ms_fifo_ack s) = 2 ^ d
            \<and> length (ms_fifo_data s) = 2 ^ d \<and> unat (ms_delay s) \<le> 2 ^ d
            \<and> (ms_delay s = 0 \<longrightarrow> d = 0))"

lemma pow2_minus_1_mask: "(2 ^ k :: u32) - 1 = mask k"
  by (simp add: mask_eq_exp_minus_1)

lemma memsim_new_inv:
  assumes "nwords \<le> 2 ^ 31" "delay \<le> 2 ^ 31"
  shows "\<exists>s. memsim_new garbage nwords delay = Some s \<and> memsim_inv s"
proof -
  from pow2_above_total [OF assms(1)] obtain k
    where k: "k \<le> 31" "pow2_above 1 nwords = Some (2 ^ k)" "unat nwords \<le> 2 ^ k" by blast
  from pow2_above_total [OF assms(2)] obtain d
    where d: "d \<le> 31" "pow2_above 1 delay = Some (2 ^ d)" "unat delay \<le> 2 ^ d"
      "\<forall>i<d. 2 ^ i < unat delay" by blast
  have "d = 0" if "delay = 0"
    using d(4) that by (cases d) auto
  with k d show ?thesis
    unfolding memsim_new_def memsim_inv_def
    by (auto simp: pow2_minus_1_mask unat_pow2_u32 Let_def intro!: exI [of _ k] exI [of _ d])
qed

lemma unat_and_mask_in: "d \<le> 31 \<Longrightarrow> unat (w AND mask d :: u32) < 2 ^ d"
  by (rule unat_and_mask_less) simp

text \<open>The entry \<open>j\<close> places behind the head of the circular buffer.\<close>

definition behind :: "u32 \<Rightarrow> nat \<Rightarrow> nat \<Rightarrow> nat" where
  "behind h d j = nat ((uint h - int j) mod 2 ^ d)"

lemma behind_less: "behind h d j < 2 ^ d"
  by (simp add: behind_def nat_less_iff)

lemma behind_0: "behind h d 0 = unat (h AND mask d)"
  by (simp add: behind_def uint_and_mask flip: nat_uint_eq)

lemma behind_inj:
  assumes "j < 2 ^ d" "j' < 2 ^ d" "behind h d j = behind h d j'"
  shows "j = j'"
proof -
  have "(uint h - int j) mod 2 ^ d = (uint h - int j') mod 2 ^ d"
    using assms(3) by (simp add: behind_def eq_nat_nat_iff)
  then have "(2::int) ^ d dvd (uint h - int j) - (uint h - int j')"
    by (simp only: mod_eq_dvd_iff)
  then have "(2::int) ^ d dvd int j' - int j" by simp
  then have "int j' mod 2 ^ d = int j mod 2 ^ d"
    by (simp add: mod_eq_dvd_iff)
  then show ?thesis using assms(1,2) by simp
qed

lemma memsim_write_safe:
  assumes "a < length mem"
  shows "memsim_write mem a sel v = Inr (mem[a := (mem ! a AND NOT sel) OR (v AND sel)])"
proof (cases "sel = 0xffffffff")
  case True
  then have "sel = - 1" by simp
  with assms show ?thesis by (simp add: memsim_write_def)
next
  case False
  with assms show ?thesis by (simp add: memsim_write_def)
qed


subsection \<open>The memory without its pipeline\<close>

text \<open>What one request does to the memory and what it is answered: \<open>(ack, data)\<close>, where a
  write is answered with the word it leaves, and no request with \<open>(0, 0)\<close>.\<close>

definition ideal_mem :: "u32 \<Rightarrow> u32 list \<Rightarrow> wb_req \<Rightarrow> u32 list" where
  "ideal_mem msk mem r =
     (let a = unat (wb_addr r AND msk); sel = memsim_sel (wb_sel r) in
      if wb_cyc r \<noteq> 0 \<and> wb_stb r \<noteq> 0 \<and> wb_we r \<noteq> 0
      then mem[a := (mem ! a AND NOT sel) OR (wb_data r AND sel)] else mem)"

definition ideal_ans :: "u32 \<Rightarrow> u32 list \<Rightarrow> wb_req \<Rightarrow> u32 \<times> u32" where
  "ideal_ans msk mem r =
     (if wb_cyc r \<noteq> 0 \<and> wb_stb r \<noteq> 0
      then (1, ideal_mem msk mem r ! unat (wb_addr r AND msk)) else (0, 0))"

fun ideal_answers :: "u32 \<Rightarrow> u32 list \<Rightarrow> wb_req list \<Rightarrow> (u32 \<times> u32) list" where
  "ideal_answers msk mem [] = []"
| "ideal_answers msk mem (r # rs) =
     ideal_ans msk mem r # ideal_answers msk (ideal_mem msk mem r) rs"

definition answer_of :: "u32 \<times> u32 \<Rightarrow> wb_ans" where
  "answer_of p = \<lparr>o_ack = ucast (fst p), o_stall = 0, o_data = snd p\<rparr>"

lemma length_ideal_mem [simp]: "length (ideal_mem msk mem r) = length mem"
  by (simp add: ideal_mem_def Let_def)

lemma length_ideal_answers [simp]: "length (ideal_answers msk mem rs) = length rs"
  by (induction rs arbitrary: mem) simp_all

subsection \<open>One tick\<close>

lemma memsim_apply_pure:
  assumes "memsim_inv s"
  shows "memsim_apply s r =
    (let head = (ms_head s + 1) AND ms_delay_mask s;
         tail = (ms_head s + 1 - ms_delay s) AND ms_delay_mask s;
         req = ideal_ans (ms_mask s) (ms_mem s) r
     in Inr (s\<lparr>ms_mem := ideal_mem (ms_mask s) (ms_mem s) r, ms_head := head, ms_tail := tail,
               ms_fifo_ack := (ms_fifo_ack s)[unat head := fst req],
               ms_fifo_data := (ms_fifo_data s)[unat head := snd req]\<rparr>,
             answer_of (ms_fifo_ack s ! unat tail, ms_fifo_data s ! unat tail)))"
proof -
  from assms obtain k d where k: "k \<le> 31" "ms_mask s = mask k" "length (ms_mem s) = 2 ^ k"
    and d: "d \<le> 31" "ms_delay_mask s = mask d" "length (ms_fifo_ack s) = 2 ^ d"
      "length (ms_fifo_data s) = 2 ^ d"
    by (auto simp: memsim_inv_def)
  have h: "unat (w AND ms_delay_mask s) < length (ms_fifo_ack s)"
      "unat (w AND ms_delay_mask s) < length (ms_fifo_data s)" for w
    using d by (simp_all add: unat_and_mask_in)
  have a: "unat (wb_addr r AND ms_mask s) < length (ms_mem s)"
    using k by (simp add: unat_and_mask_in)
  show ?thesis
    using h a
    by (simp add: memsim_apply_def Let_def ideal_ans_def ideal_mem_def memsim_write_safe answer_of_def)
qed

text \<open>The invariant is kept.\<close>

lemma memsim_apply_inv:
  assumes "memsim_inv s"
  shows "\<exists>s' out. memsim_apply s r = Inr (s', out) \<and> memsim_inv s'"
  using assms by (simp add: memsim_apply_pure Let_def) (simp add: memsim_inv_def)

interpretation memsim: clocked_machine memsim_apply memsim_inv "\<lambda>_. True"
  by unfold_locales (rule memsim_apply_inv)

subsection \<open>The circular buffers are a queue\<close>

definition latency :: "memsim \<Rightarrow> nat" where
  "latency s = max 1 (unat (ms_delay s))"

text \<open>The answers in flight, oldest first.\<close>

definition in_flight :: "memsim \<Rightarrow> (u32 \<times> u32) list" where
  "in_flight s =
     map (\<lambda>j. let i = nat ((uint (ms_head s) - int j) mod int (length (ms_fifo_ack s)))
              in (ms_fifo_ack s ! i, ms_fifo_data s ! i))
         (rev [0..<latency s])"

lemma uint_plus_1_mod:
  assumes "d \<le> 31"
  shows "(uint (h + 1 :: u32) - x) mod 2 ^ d = (uint h + 1 - x) mod 2 ^ d"
proof -
  have "(2::int) ^ d dvd 4294967296"
    using le_imp_power_dvd [of d 32 "2 :: int"] assms by simp
  then have "uint (h + 1) mod 2 ^ d = (uint h + 1) mod 2 ^ d"
    by (simp add: uint_word_ariths mod_mod_cancel)
  then show ?thesis by (rule mod_diff_cong) simp
qed

lemma behind_and_mask: "behind (h AND mask d) d j = behind h d j"
  by (simp add: behind_def uint_and_mask mod_simps)

lemma behind_plus_1_Suc: "d \<le> 31 \<Longrightarrow> behind (h + 1) d (Suc j) = behind h d j"
  by (simp add: behind_def uint_plus_1_mod)

lemma in_flight_behind:
  assumes "length (ms_fifo_ack s) = 2 ^ d"
  shows "in_flight s =
     map (\<lambda>j. (ms_fifo_ack s ! behind (ms_head s) d j, ms_fifo_data s ! behind (ms_head s) d j))
         (rev [0..<latency s])"
  using assms by (simp add: in_flight_def behind_def Let_def)

lemma rev_upt_shift: "0 < n \<Longrightarrow> rev [0..<n] = map Suc (rev [0..<n - 1]) @ [0]"
  by (cases n) (simp_all add: upt_conv_Cons map_Suc_upt flip: rev_map del: upt_Suc)

lemma tl_map_rev_upt: "0 < n \<Longrightarrow> tl (map f (rev [0..<n])) = map f (rev [0..<n - 1])"
  by (cases n) simp_all

lemma hd_map_rev_upt: "0 < n \<Longrightarrow> hd (map f (rev [0..<n])) = f (n - 1)"
  by (cases n) simp_all

text \<open>One tick pops the oldest answer onto the bus and queues the new one.\<close>

lemma memsim_apply_queue:
  assumes "memsim_inv s"
  shows "\<exists>s'. memsim_apply s r = Inr (s', answer_of (hd (in_flight s)))
       \<and> memsim_inv s' \<and> latency s' = latency s \<and> ms_mask s' = ms_mask s
       \<and> ms_mem s' = ideal_mem (ms_mask s) (ms_mem s) r
       \<and> in_flight s' = tl (in_flight s) @ [ideal_ans (ms_mask s) (ms_mem s) r]"
proof -
  from assms obtain d where d: "d \<le> 31" "ms_delay_mask s = mask d" "length (ms_fifo_ack s) = 2 ^ d"
      "length (ms_fifo_data s) = 2 ^ d" "unat (ms_delay s) \<le> 2 ^ d"
      "ms_delay s = 0 \<Longrightarrow> d = 0"
    by (auto simp: memsim_inv_def)
  define h where "h = ms_head s + 1"
  define req where "req = ideal_ans (ms_mask s) (ms_mem s) r"
  from memsim_apply_inv [OF assms, of r] obtain s' out
    where s': "memsim_apply s r = Inr (s', out)" "memsim_inv s'" by blast
  have head: "unat (h AND mask d) = behind h d 0" by (simp add: behind_0)
  have s'_eq: "ms_head s' = h AND mask d" "ms_delay s' = ms_delay s" "ms_mask s' = ms_mask s"
      "ms_mem s' = ideal_mem (ms_mask s) (ms_mem s) r"
      "ms_fifo_ack s' = (ms_fifo_ack s)[behind h d 0 := fst req]"
      "ms_fifo_data s' = (ms_fifo_data s)[behind h d 0 := snd req]"
    and out: "out = answer_of (ms_fifo_ack s ! unat ((h - ms_delay s) AND mask d),
      ms_fifo_data s ! unat ((h - ms_delay s) AND mask d))"
    using s'(1) memsim_apply_pure [OF assms, of r] d(2)
    by (auto simp: Let_def h_def req_def head [unfolded h_def])
  have lat: "latency s' = latency s" "0 < latency s" "latency s \<le> 2 ^ d"
    using d(5) by (auto simp: latency_def s'_eq)
  let ?q = "\<lambda>j. (ms_fifo_ack s ! behind (ms_head s) d j, ms_fifo_data s ! behind (ms_head s) d j)"
  have old: "(ms_fifo_ack s' ! behind h d (Suc j), ms_fifo_data s' ! behind h d (Suc j)) = ?q j"
    if "j < latency s - 1" for j
  proof -
    have "behind h d 0 \<noteq> behind h d (Suc j)"
      using behind_inj [of 0 d "Suc j" h] that lat(3) by force
    then show ?thesis
      using d(1) by (simp add: s'_eq) (simp add: h_def behind_plus_1_Suc)
  qed
  have new: "(ms_fifo_ack s' ! behind h d 0, ms_fifo_data s' ! behind h d 0) = req"
    using d(3,4) by (simp add: s'_eq behind_less)
  have len': "length (ms_fifo_ack s') = 2 ^ d" using d(3) by (simp add: s'_eq)
  have "in_flight s' = map ?q (rev [0..<latency s - 1]) @ [req]"
    using old new lat(2)
    by (simp add: in_flight_behind [OF len'] lat(1) s'_eq(1) behind_and_mask rev_upt_shift)
  also have "map ?q (rev [0..<latency s - 1]) = tl (in_flight s)"
    using lat(2) by (simp add: in_flight_behind [OF d(3)] tl_map_rev_upt)
  finally have flight: "in_flight s' = tl (in_flight s) @ [req]" .
  have tail: "unat ((h - ms_delay s) AND mask d) = behind (ms_head s) d (latency s - 1)"
  proof (cases "ms_delay s = 0")
    case True
    then show ?thesis using d(6) by (simp add: behind_def)
  next
    case False
    then have "0 < unat (ms_delay s)" by (simp add: unat_gt_0)
    then have "latency s - 1 = unat (ms_delay s) - 1" "int (unat (ms_delay s) - 1) = uint (ms_delay s) - 1"
      by (auto simp: latency_def)
    then show ?thesis
      using d(1) by (simp add: unat_diff_and_mask behind_def h_def uint_plus_1_mod diff_diff_eq2)
  qed
  have "out = answer_of (hd (in_flight s))"
    using lat(2) by (simp add: out tail in_flight_behind [OF d(3)] hd_map_rev_upt)
  with s' s'_eq lat(1) flight show ?thesis by (auto simp: req_def)
qed


subsection \<open>Byte lanes\<close>

lemma bit_memsim_sel:
  "n < 32 \<Longrightarrow> bit (memsim_sel w) n = bit w (n div 8)"
proof -
  assume n: "n < 32"
  have bits: "w AND 0x8 \<noteq> 0 \<longleftrightarrow> bit w 3" "w AND 0x4 \<noteq> 0 \<longleftrightarrow> bit w 2"
      "w AND 0x2 \<noteq> 0 \<longleftrightarrow> bit w 1" "w AND 0x1 \<noteq> 0 \<longleftrightarrow> bit w 0"
    using and_exp_eq_0_iff_not_bit [of w 3] and_exp_eq_0_iff_not_bit [of w 2]
      and_exp_eq_0_iff_not_bit [of w 1] and_exp_eq_0_iff_not_bit [of w 0] by simp_all
  have lanes: "0xff000000 = (push_bit 24 (mask 8) :: u32)" "0x00ff0000 = (push_bit 16 (mask 8) :: u32)"
      "0x0000ff00 = (push_bit 8 (mask 8) :: u32)" "0x000000ff = (mask 8 :: u32)"
    by (simp_all add: mask_eq_exp_minus_1)
  consider "n < 8" "n div 8 = 0" | "8 \<le> n" "n < 16" "n div 8 = 1"
    | "16 \<le> n" "n < 24" "n div 8 = 2" | "24 \<le> n" "n < 32" "n div 8 = 3"
    using n by linarith
  then show ?thesis
    unfolding memsim_sel_def Let_def bits lanes
    by cases (simp_all add: bit_simps, auto)
qed

text \<open>A written word has the new byte in the selected lanes and the old one in the others.\<close>

lemma bit_ideal_mem:
  assumes "wb_cyc r \<noteq> 0" "wb_stb r \<noteq> 0" "wb_we r \<noteq> 0"
    and "unat (wb_addr r AND msk) < length mem" "n < 32"
  shows "bit (ideal_mem msk mem r ! unat (wb_addr r AND msk)) n =
    bit (if bit (wb_sel r) (n div 8) then wb_data r else mem ! unat (wb_addr r AND msk)) n"
  using assms by (simp add: ideal_mem_def Let_def bit_simps bit_memsim_sel)

subsection \<open>Properties\<close>

lemma run_memsim_queue:
  assumes "memsim_inv s"
  shows "\<exists>s'. run_machine memsim_apply s rs =
      Inr (s', map answer_of (take (length rs) (in_flight s @ ideal_answers (ms_mask s) (ms_mem s) rs)))"
  using assms
proof (induction rs arbitrary: s)
  case Nil
  then show ?case by simp
next
  case (Cons r rs)
  from memsim_apply_queue [OF Cons.prems, of r] obtain s1 where s1:
    "memsim_apply s r = Inr (s1, answer_of (hd (in_flight s)))" "memsim_inv s1"
    "latency s1 = latency s" "ms_mask s1 = ms_mask s"
    "ms_mem s1 = ideal_mem (ms_mask s) (ms_mem s) r"
    "in_flight s1 = tl (in_flight s) @ [ideal_ans (ms_mask s) (ms_mem s) r]" by blast
  have "in_flight s \<noteq> []" by (simp add: in_flight_def latency_def)
  then obtain p q where pq: "in_flight s = p # q" by (cases "in_flight s") auto
  from Cons.IH [OF s1(2)] obtain s' where
    "run_machine memsim_apply s1 rs =
      Inr (s', map answer_of (take (length rs) (in_flight s1 @ ideal_answers (ms_mask s1) (ms_mem s1) rs)))"
    by blast
  with s1 pq show ?case by simp
qed

text \<open>C4. A \<open>MEMSIM\<close> is the memory without its pipeline, delayed. A memory just
  constructed with a delay of at least one, run over any list of bus requests, never leaves
  its arrays and returns no acknowledgement for the first \<open>delay\<close> ticks, then exactly the
  answers of the memory without a pipeline, in order: the request of tick \<open>t\<close> is
  acknowledged, with the word as that request left it, at tick \<open>t + delay\<close>.\<close>

theorem memsim_delays_ideal_memory:
  assumes "memsim_new garbage nwords delay = Some s" "nwords \<le> 2 ^ 31" "delay \<le> 2 ^ 31" "0 < delay"
  shows "\<exists>s' outs idle. run_machine memsim_apply s rs = Inr (s', outs)
    \<and> length idle = unat delay \<and> list_all (\<lambda>a. o_ack a = 0) idle
    \<and> outs = take (length rs) (idle @ map answer_of (ideal_answers (ms_mask s) (ms_mem s) rs))"
proof -
  have inv: "memsim_inv s"
    using memsim_new_inv [OF assms(2,3), of garbage] assms(1) by auto
  have zero: "\<forall>x \<in> set (ms_fifo_ack s). x = 0"
    using assms(1) by (auto simp: memsim_new_def Let_def split: bind_splits)
  have pos: "0 < length (ms_fifo_ack s)"
    using inv by (auto simp: memsim_inv_def)
  have fa: "ms_fifo_ack s ! nat (x mod int (length (ms_fifo_ack s))) = 0" for x
    using zero pos by (simp add: nat_less_iff)
  have del: "ms_delay s = delay"
    using assms(1) by (auto simp: memsim_new_def Let_def split: bind_splits)
  have lat: "latency s = unat delay"
    using assms(4) by (simp add: latency_def del unat_gt_0 Suc_le_eq max_absorb2)
  let ?idle = "map answer_of (in_flight s)"
  have "list_all (\<lambda>a. o_ack a = 0) ?idle"
    using fa by (auto simp: in_flight_def Let_def answer_of_def list_all_iff)
  moreover have "length ?idle = unat delay"
    by (simp add: in_flight_def lat)
  moreover obtain s' where "run_machine memsim_apply s rs =
      Inr (s', take (length rs) (?idle @ map answer_of (ideal_answers (ms_mask s) (ms_mem s) rs)))"
    using run_memsim_queue [OF inv, of rs] by (auto simp: take_map)
  ultimately show ?thesis by blast
qed

theorem memsim_delays_ideal_memory_witness:
  "\<exists>s s' outs. memsim_new (\<lambda>_. 0) 4 2 = Some s
    \<and> run_machine memsim_apply s
         [\<lparr>wb_cyc = 1, wb_stb = 1, wb_we = 1, wb_addr = 1, wb_data = 0x11223344, wb_sel = 0xc\<rparr>,
          \<lparr>wb_cyc = 1, wb_stb = 0, wb_we = 0, wb_addr = 0, wb_data = 0, wb_sel = 0\<rparr>,
          \<lparr>wb_cyc = 1, wb_stb = 0, wb_we = 0, wb_addr = 0, wb_data = 0, wb_sel = 0\<rparr>]
         = Inr (s', outs)
    \<and> map o_ack outs = [0, 0, 1] \<and> o_data (outs ! 2) = 0x11220000"
  (is "\<exists>s s' outs. _ \<and> run_machine _ _ ?rs = _ \<and> _")
proof -
  define s where "s = the (memsim_new (\<lambda>_. 0) 4 2)"
  have new: "memsim_new (\<lambda>_. 0) 4 2 = Some s" and mem: "ms_mem s = [0, 0, 0, 0]" "ms_mask s = 3"
    by (simp_all add: s_def memsim_new_def pow2_above.simps Let_def upt_rec)
  from memsim_delays_ideal_memory [OF new, of ?rs] obtain s' outs idle where
    r: "run_machine memsim_apply s ?rs = Inr (s', outs)" "length idle = 2"
      "list_all (\<lambda>a. o_ack a = 0) idle"
      "outs = take 3 (idle @ map answer_of (ideal_answers 3 [0, 0, 0, 0] ?rs))"
    by (auto simp: mem)
  from r(2) obtain a b where "idle = [a, b]"
    by (auto simp: length_Suc_conv numeral_eq_Suc)
  moreover have "ideal_answers 3 [0, 0, 0, 0] ?rs = [(1, 0x11220000), (0, 0), (0, 0)]"
    by (simp add: ideal_ans_def ideal_mem_def memsim_sel_def)
  ultimately have "map o_ack outs = [0, 0, 1] \<and> o_data (outs ! 2) = 0x11220000"
    using r(3,4) by (simp add: answer_of_def)
  with new r(1) show ?thesis by (elim conjE, intro exI conjI)
qed

lemma pow2_above_stuck:
  assumes "pow2_above nxt nwords = Some y"
  shows "(nxt = 0 \<or> (\<exists>j<32. nxt = 2 ^ j)) \<longrightarrow> 2 ^ 31 < nwords \<longrightarrow> False"
proof (rule pow2_above.raw_induct [OF _ assms,
      where P = "\<lambda>nxt nwords y. (nxt = 0 \<or> (\<exists>j<32. nxt = 2 ^ j)) \<longrightarrow> 2 ^ 31 < nwords \<longrightarrow> False"])
  fix f and nxt nwords y :: u32
  assume IH: "\<And>n b y. f n b = Some y \<Longrightarrow>
      (n = 0 \<or> (\<exists>j<32. n = 2 ^ j)) \<longrightarrow> 2 ^ 31 < b \<longrightarrow> False"
    and eq: "(if nxt < nwords then f (push_bit 1 nxt) nwords else Some nxt) = Some y"
  show "(nxt = 0 \<or> (\<exists>j<32. nxt = 2 ^ j)) \<longrightarrow> 2 ^ 31 < nwords \<longrightarrow> False"
  proof (intro impI)
    assume nxt: "nxt = 0 \<or> (\<exists>j<32. nxt = 2 ^ j)" and big: "2 ^ 31 < nwords"
    have shift: "push_bit 1 nxt = 0 \<or> (\<exists>j<32. push_bit 1 nxt = 2 ^ j)"
      using nxt
    proof (elim disjE exE conjE)
      fix j assume j: "j < 32" "nxt = 2 ^ j"
      then have "push_bit 1 nxt = 2 ^ Suc j" by (simp add: push_bit_eq_mult mult.commute)
      moreover have "(2 :: u32) ^ 32 = 0" by simp
      ultimately show ?thesis using j(1) by (metis less_antisym Suc_mono)
    qed simp
    have "nxt < nwords"
      using nxt
    proof (elim disjE exE conjE)
      assume "nxt = 0" then show ?thesis using big by (simp add: word_gt_0) (use word_gt_0 in fastforce)
    next
      fix j assume j: "j < 32" "nxt = 2 ^ j"
      then have "(2::nat) ^ j \<le> 2 ^ 31" by (intro power_increasing) auto
      with j have "unat nxt \<le> 2 ^ 31" by (simp add: unat_pow2_u32)
      then show ?thesis using big by (simp add: word_less_nat_alt)
    qed
    with eq have "f (push_bit 1 nxt) nwords = Some y" by simp
    from IH [OF this] shift big show False by blast
  qed
qed

text \<open>C6. The sizing loop of the constructors stops exactly for sizes up to \<open>2 ^ 31\<close>; then it
  returns the least power of two that is not below the size asked for.\<close>

theorem pow2_above_spec:
  "case pow2_above 1 nwords of
     None \<Rightarrow> 2 ^ 31 < nwords
   | Some y \<Rightarrow> nwords \<le> 2 ^ 31 \<and>
       (\<exists>k\<le>31. y = 2 ^ k \<and> unat nwords \<le> 2 ^ k \<and> (k = 0 \<or> 2 ^ (k - 1) < unat nwords))"
proof (cases "nwords \<le> 2 ^ 31")
  case True
  from pow2_above_total [OF True] obtain k where
    k: "k \<le> 31" "pow2_above 1 nwords = Some (2 ^ k)" "unat nwords \<le> 2 ^ k" "\<forall>i<k. 2 ^ i < unat nwords"
    by blast
  then have "k = 0 \<or> 2 ^ (k - 1) < unat nwords" by (metis diff_less not_gr_zero zero_less_one)
  with True k show ?thesis by auto
next
  case False
  then have big: "2 ^ 31 < nwords" by (simp add: not_le)
  have "pow2_above 1 nwords \<noteq> Some y" for y
    using pow2_above_stuck [of 1 nwords y] big by (metis power_0 zero_less_numeral)
  with big show ?thesis by (cases "pow2_above 1 nwords") auto
qed

end
