(* ===== verification/SramSim.thy ===== *)
theory SramSim
  imports MemSim ByteSwap
begin

text \<open>
  \<open>sim/verilated/sramsim.cpp\<close>: an asynchronous static RAM of 16 bit words, kept as an array of
  32 bit words whose upper half is the even address. \<open>rand()\<close> is an argument; the trace output
  is left out.
\<close>

subsection \<open>The device\<close>

record sramsim =
  sr_mem :: "u32 list"
  sr_len :: u32
  sr_mask :: u32
  sr_nxt_ack :: int

definition sramsim_new :: "(nat \<Rightarrow> u32) \<Rightarrow> u32 \<Rightarrow> sramsim option" where
  "sramsim_new garbage nwords =
     Option.bind (pow2_above 1 nwords) (\<lambda>nxt.
       Some \<lparr>sr_mem = map garbage [0..<unat nxt], sr_len = nxt, sr_mask = nxt - 1, sr_nxt_ack = 0\<rparr>)"

definition sramsim_load_file :: "u32 list option \<Rightarrow> sramsim \<Rightarrow> sramsim" where
  "sramsim_load_file file s = s\<lparr>sr_mem := words_from_file file (sr_len s)\<rparr>"

text \<open>The bytes of a file image are copied and then swapped in place, word by word.\<close>

definition sramsim_load_buf :: "u32 \<Rightarrow> u8 list \<Rightarrow> sramsim \<Rightarrow> sramsim res" where
  "sramsim_load_buf addr buf s =
     bindE (copy_bytes (4 * unat addr) buf (sr_mem s)) (\<lambda>mem.
     bindE (byteswapbuf (length buf div 4) (drop (unat addr) mem)) (\<lambda>swapped.
       Inr (s\<lparr>sr_mem := take (unat addr) mem @ swapped\<rparr>)))"

text \<open>The mask of the byte lanes that \<open>sel\<close> enables, active low.\<close>

definition sramsim_sel :: "u32 \<Rightarrow> u32" where
  "sramsim_sel sel =
     (let selmsk = 0;
          selmsk = (if sel AND 0x2 = 0 then selmsk OR 0xff00 else selmsk);
          selmsk = (if sel AND 0x1 = 0 then selmsk OR 0x00ff else selmsk)
      in selmsk)"

definition sramsim_apply ::
    "u32 \<Rightarrow> u8 \<Rightarrow> u8 \<Rightarrow> u8 \<Rightarrow> u32 \<Rightarrow> u32 \<Rightarrow> u32 \<Rightarrow> sramsim \<Rightarrow> (sramsim \<times> u32) res" where
  "sramsim_apply rnd ce_n oe_n we_n addr wdata sel s =
     (if ce_n \<noteq> 0 then Inr (s, rnd)
      else
        let selmsk = sramsim_sel sel;
            even = (addr AND 1 = 0);
            selmsk = (if even then push_bit 16 selmsk else selmsk);
            lcldata = (if even then push_bit 16 wdata else wdata);
            i = unat (drop_bit 1 addr AND sr_mask s)
        in
        if we_n = 0 then
          bindE (assertE (oe_n \<noteq> 0)) (\<lambda>_.
          bindE (aget (sr_mem s) i) (\<lambda>w.
          bindE (aset (sr_mem s) i (w AND NOT selmsk OR lcldata AND selmsk)) (\<lambda>mem.
            Inr (s\<lparr>sr_mem := mem\<rparr>, wdata))))
        else
          bindE (assertE (oe_n = 0)) (\<lambda>_.
          bindE (aget (sr_mem s) i) (\<lambda>result.
            let result = result AND selmsk OR lcldata AND NOT selmsk in
            Inr (s, if even then drop_bit 16 result else result))))"

definition sramsim_index :: "sramsim \<Rightarrow> u32 \<Rightarrow> u32 res" where
  "sramsim_index s addr = aget (sr_mem s) (unat (addr AND sr_mask s))"

subsection \<open>An array of 16 bit words\<close>

definition sramsim_inv :: "sramsim \<Rightarrow> bool" where
  "sramsim_inv s \<longleftrightarrow> (\<exists>k\<le>31. sr_mask s = mask k \<and> length (sr_mem s) = 2 ^ k \<and> sr_len s = 2 ^ k)"

text \<open>The 16 bit word at an address of the chip.\<close>

definition sram_half :: "sramsim \<Rightarrow> u32 \<Rightarrow> u32" where
  "sram_half s addr =
     (let w = sr_mem s ! unat (drop_bit 1 addr AND sr_mask s) in
      if addr AND 1 = 0 then drop_bit 16 w else w AND 0xffff)"

definition same_half :: "sramsim \<Rightarrow> u32 \<Rightarrow> u32 \<Rightarrow> bool" where
  "same_half s a b \<longleftrightarrow>
     a AND 1 = b AND 1 \<and> drop_bit 1 a AND sr_mask s = drop_bit 1 b AND sr_mask s"

lemma sramsim_sel_bit: "bit (sramsim_sel sel) n \<Longrightarrow> n < 16"
proof -
  have hi: "(0xff00 :: u32) = push_bit 8 (mask 8)" by (simp add: mask_eq_exp_minus_1)
  show "bit (sramsim_sel sel) n \<Longrightarrow> n < 16"
    unfolding sramsim_sel_def Let_def hi ff_mask by (auto simp: bit_simps split: if_splits)
qed

lemma sramsim_index_bound:
  "sramsim_inv s \<Longrightarrow> unat (drop_bit 1 addr AND sr_mask s) < length (sr_mem s)"
  unfolding sramsim_inv_def by (elim exE conjE) (simp add: unat_and_mask_less)

lemma low_bit_cases: "(b :: u32) AND 1 = 0 \<or> b AND 1 = 1"
  by (simp add: and_one_eq mod_2_eq_odd)

definition sram_shift :: "u32 \<Rightarrow> nat" where
  "sram_shift addr = (if addr AND 1 = 0 then 16 else 0)"

lemma sramsim_apply_write:
  assumes "sramsim_inv s"
  shows "sramsim_apply rnd 0 1 0 addr wdata sel s =
    (let i = unat (drop_bit 1 addr AND sr_mask s);
         m = push_bit (sram_shift addr) (sramsim_sel sel)
     in Inr (s\<lparr>sr_mem := (sr_mem s)[i := (sr_mem s ! i) AND NOT m OR push_bit (sram_shift addr) wdata AND m]\<rparr>,
             wdata))"
  using sramsim_index_bound [OF assms, of addr]
  by (simp add: sramsim_apply_def sram_shift_def Let_def)

lemma sramsim_apply_read:
  assumes "sramsim_inv s"
  shows "sramsim_apply rnd 0 0 1 addr wdata sel s =
    (let i = unat (drop_bit 1 addr AND sr_mask s);
         m = push_bit (sram_shift addr) (sramsim_sel sel)
     in Inr (s, drop_bit (sram_shift addr)
                  ((sr_mem s ! i) AND m OR push_bit (sram_shift addr) wdata AND NOT m)))"
  using sramsim_index_bound [OF assms, of addr]
  by (simp add: sramsim_apply_def sram_shift_def Let_def)

lemma bit_sram_half:
  "bit (sram_half s addr) n \<longleftrightarrow>
     n < 16 \<and> bit (sr_mem s ! unat (drop_bit 1 addr AND sr_mask s)) (n + sram_shift addr)"
proof -
  have "bit (sr_mem s ! unat (drop_bit 1 addr AND sr_mask s)) (16 + n) \<Longrightarrow> n < 16"
    using u32_bit_beyond [of "16 + n"] by (cases "n < 16") auto
  then show ?thesis
    unfolding sram_half_def sram_shift_def Let_def ffff_mask
    by (auto simp: bit_simps add.commute [of n])
qed

lemma same_half_shift: "same_half s a b \<Longrightarrow> sram_shift a = sram_shift b"
  by (simp add: same_half_def sram_shift_def)

lemma other_half_shift:
  "\<not> same_half s a b \<Longrightarrow> drop_bit 1 a AND sr_mask s = drop_bit 1 b AND sr_mask s \<Longrightarrow>
     sram_shift a \<noteq> sram_shift b"
  using low_bit_cases [of a] low_bit_cases [of b] by (auto simp: same_half_def sram_shift_def)

lemma sram_half_write:
  fixes s :: sramsim
  assumes "sramsim_inv s"
    and m: "m = push_bit (sram_shift a) (sramsim_sel sel)"
    and s': "s' = s\<lparr>sr_mem := (sr_mem s)[unat (drop_bit 1 a AND sr_mask s) :=
        (sr_mem s ! unat (drop_bit 1 a AND sr_mask s)) AND NOT m OR push_bit (sram_shift a) d AND m]\<rparr>"
  shows "sram_half s' b =
    (if same_half s a b then sram_half s b AND NOT (sramsim_sel sel) OR d AND sramsim_sel sel
     else sram_half s b)"
proof (rule bit_word_eqI)
  fix n assume "n < LENGTH(32)"
  then have n: "n < 32" by simp
  let ?i = "unat (drop_bit 1 a AND sr_mask s)" and ?j = "unat (drop_bit 1 b AND sr_mask s)"
  have i: "?i < length (sr_mem s)" by (rule sramsim_index_bound [OF assms(1)])
  have sh: "sram_shift x = 16 \<or> sram_shift x = 0" for x by (simp add: sram_shift_def)
  have word: "bit (sr_mem s' ! ?j) k \<longleftrightarrow>
      (if ?i = ?j then bit ((sr_mem s ! ?i) AND NOT m OR push_bit (sram_shift a) d AND m) k
       else bit (sr_mem s ! ?j) k)" for k
    using i by (simp add: s' nth_list_update)
  have mask: "sr_mask s' = sr_mask s" by (simp add: s')
  show "bit (sram_half s' b) n = bit (if same_half s a b
      then sram_half s b AND NOT (sramsim_sel sel) OR d AND sramsim_sel sel else sram_half s b) n"
  proof (cases "?i = ?j")
    case False
    then have "\<not> same_half s a b" by (auto simp: same_half_def)
    with False show ?thesis by (simp add: bit_sram_half mask word del: One_nat_def)
  next
    case True
    show ?thesis
    proof (cases "same_half s a b")
      case True
      with True \<open>?i = ?j\<close> n sh [of b] same_half_shift [OF True] show ?thesis
        using sramsim_sel_bit [of sel n]
        by (auto simp: bit_sram_half mask word m bit_simps simp del: One_nat_def)
    next
      case False
      then have "sram_shift a \<noteq> sram_shift b" by (rule other_half_shift [OF _ iffD2 [OF word_unat_eq_iff True]])
      with sh [of a] sh [of b] have "sram_shift a = 16 \<and> sram_shift b = 0 \<or> sram_shift a = 0 \<and> sram_shift b = 16"
        by auto
      with False True n show ?thesis
        using sramsim_sel_bit [of sel "n + 16"] sramsim_sel_bit [of sel "n - 16"]
        by (auto simp: bit_sram_half mask word m bit_simps simp del: One_nat_def)
    qed
  qed
qed

text \<open>C5. The simulated chip is an array of 16 bit words with byte lanes: a write cycle changes, of
  the word addressed, the lanes that \<open>sel\<close> enables and no other word, although two of them
  share one entry of \<open>m_mem\<close>; and a read cycle with both lanes enabled returns the word. No cycle
  leaves the array or fails an assertion as long as the chip is driven one way at a time.\<close>

theorem sramsim_is_halfword_array:
  assumes "sramsim_inv s"
  shows "\<exists>s'. sramsim_apply rnd 0 1 0 a d sel s = Inr (s', d) \<and> sramsim_inv s'
    \<and> sram_half s' b =
        (if same_half s a b then sram_half s b AND NOT (sramsim_sel sel) OR d AND sramsim_sel sel
         else sram_half s b)
    \<and> (\<exists>r. sramsim_apply rnd 0 0 1 b x 0 s' = Inr (s', r) \<and> r AND 0xffff = sram_half s' b)"
proof -
  let ?m = "push_bit (sram_shift a) (sramsim_sel sel)"
  let ?s = "s\<lparr>sr_mem := (sr_mem s)[unat (drop_bit 1 a AND sr_mask s) :=
        (sr_mem s ! unat (drop_bit 1 a AND sr_mask s)) AND NOT ?m OR push_bit (sram_shift a) d AND ?m]\<rparr>"
  have w: "sramsim_apply rnd 0 1 0 a d sel s = Inr (?s, d)"
    by (simp only: sramsim_apply_write [OF assms] Let_def)
  have inv: "sramsim_inv ?s" using assms by (auto simp: sramsim_inv_def)
  let ?i = "unat (drop_bit 1 b AND sr_mask ?s)"
  let ?r = "drop_bit (sram_shift b) ((sr_mem ?s ! ?i) AND push_bit (sram_shift b) (sramsim_sel 0)
      OR push_bit (sram_shift b) x AND NOT (push_bit (sram_shift b) (sramsim_sel 0)))"
  have r: "sramsim_apply rnd 0 0 1 b x 0 ?s = Inr (?s, ?r)"
    by (simp only: sramsim_apply_read [OF inv] Let_def)
  have all: "sramsim_sel 0 = mask 16" by (simp add: sramsim_sel_def mask_eq_exp_minus_1)
  have "?r AND 0xffff = sram_half ?s b"
  proof (rule bit_word_eqI)
    fix n assume "n < LENGTH(32)"
    then have "n < 32" by simp
    moreover have "sram_shift b = 16 \<or> sram_shift b = 0" by (simp add: sram_shift_def)
    ultimately show "bit (?r AND 0xffff) n = bit (sram_half ?s b) n"
      unfolding bit_sram_half all ffff_mask by (auto simp: bit_simps add.commute [of n])
  qed
  with w inv r sram_half_write [OF assms refl refl, of a sel d b] show ?thesis by blast
qed

theorem sramsim_is_halfword_array_witness:
  "\<exists>s s' r. sramsim_new (\<lambda>_. 0x11223344) 4 = Some s \<and> sramsim_apply 0 0 1 0 2 0xabcd 1 s = Inr (s', 0xabcd)
     \<and> sramsim_apply 0 0 0 1 2 0 0 s' = Inr (s', r) \<and> r AND 0xffff = 0xab22
     \<and> sram_half s' 3 = 0x3344"
proof -
  define s where "s = the (sramsim_new (\<lambda>_. 0x11223344) 4)"
  have new: "sramsim_new (\<lambda>_. 0x11223344) 4 = Some s"
    and s: "s = \<lparr>sr_mem = [0x11223344, 0x11223344, 0x11223344, 0x11223344], sr_len = 4, sr_mask = 3, sr_nxt_ack = 0\<rparr>"
    by (simp_all add: s_def sramsim_new_def pow2_above.simps upt_rec)
  have inv: "sramsim_inv s"
    unfolding sramsim_inv_def by (rule exI [of _ 2]) (simp add: s mask_eq_exp_minus_1)
  from sramsim_is_halfword_array [OF inv, of 0 2 "0xabcd" 1 2 0] obtain s' r where
    1: "sramsim_apply 0 0 1 0 2 0xabcd 1 s = Inr (s', 0xabcd)"
      "sramsim_apply 0 0 0 1 2 0 0 s' = Inr (s', r)" "r AND 0xffff = sram_half s' 2"
      "sram_half s' 2 = sram_half s 2 AND NOT (sramsim_sel 1) OR 0xabcd AND sramsim_sel 1"
    by (auto simp: same_half_def)
  have "sram_half s 2 = 0x1122"
    by (simp add: sram_half_def s)
  moreover have "sramsim_sel 1 = 0xff00" by (simp add: sramsim_sel_def)
  ultimately have "r AND 0xffff = 0xab22" using 1(3,4) by simp
  moreover have "sram_half s' 3 = 0x3344"
    using 1(1) by (auto simp: sramsim_apply_def s sram_half_def sramsim_sel_def nth_Cons')
  ultimately show ?thesis using new 1(1,2) by blast
qed

end
