(* ===== verification/LLComms.thy ===== *)
theory LLComms
  imports Prelude
begin

text \<open>
  \<open>sw/host/llcomms.cpp\<close>: the byte transport under every bus. \<open>LLCOMMSI\<close> wraps two file
  descriptors; its subclasses \<open>TTYCOMMS\<close> and \<open>NETCOMMS\<close> open them (not modelled: operating
  system calls only), and \<open>NETCOMMS\<close> closes them in its own way.

  The operating system is a parameter: a record of the calls the code makes, acting on a
  kernel state of any type. What the calls promise is the locale \<open>byte_link\<close>.
\<close>

subsection \<open>The operating system calls\<close>

text \<open>A read returns the number the call returned and the bytes it stored; a poll, whether
  \<open>POLLIN\<close> was reported.\<close>

record 'k os =
  os_read :: "int \<Rightarrow> nat \<Rightarrow> 'k \<Rightarrow> int \<times> u8 list \<times> 'k"
  os_write :: "int \<Rightarrow> u8 list \<Rightarrow> 'k \<Rightarrow> int \<times> 'k"
  os_close :: "int \<Rightarrow> 'k \<Rightarrow> 'k"
  os_poll :: "int \<Rightarrow> u32 \<Rightarrow> 'k \<Rightarrow> bool \<times> 'k"
  os_shutdown :: "int \<Rightarrow> 'k \<Rightarrow> 'k"

subsection \<open>LLCOMMSI\<close>

record llcommsi =
  m_fdw :: int
  m_fdr :: int
  ll_total_nread :: u64
  ll_total_nwrit :: u64

definition llcommsi_new :: llcommsi where
  "llcommsi_new = \<lparr>m_fdw = -1, m_fdr = -1, ll_total_nread = 0, ll_total_nwrit = 0\<rparr>"

text \<open>The results carry the object and the kernel also when the call throws: the caller that
  catches the exception goes on with them.\<close>

type_synonym ('k, 'a) llres = "(cerr \<times> llcommsi \<times> 'k) + ('a \<times> llcommsi \<times> 'k)"

definition llcommsi_write :: "'k os \<Rightarrow> u8 list \<Rightarrow> llcommsi \<Rightarrow> 'k \<Rightarrow> ('k, unit) llres" where
  "llcommsi_write os buf c k =
     (case os_write os (m_fdw c) buf k of (nw, k) \<Rightarrow>
        if nw \<le> 0 then Inl (Thrown ''Write-Failure'', c, k)
        else let c = c\<lparr>ll_total_nwrit := ll_total_nwrit c + word_of_int nw\<rparr> in
          if nw = int (length buf) then Inr ((), c, k)
          else Inl (AssertFail, c, k))"

definition llcommsi_read :: "'k os \<Rightarrow> nat \<Rightarrow> llcommsi \<Rightarrow> 'k \<Rightarrow> ('k, int \<times> u8 list) llres" where
  "llcommsi_read os len c k =
     (case os_read os (m_fdr c) len k of (nr, bytes, k) \<Rightarrow>
        if nr \<le> 0 then Inl (Thrown ''Read-Failure'', c, k)
        else Inr ((nr, bytes), c\<lparr>ll_total_nread := ll_total_nread c + word_of_int nr\<rparr>, k))"

definition llcommsi_close :: "'k os \<Rightarrow> llcommsi \<Rightarrow> 'k \<Rightarrow> llcommsi \<times> 'k" where
  "llcommsi_close os c k =
     (let k = (if m_fdw c \<ge> 0 then os_close os (m_fdw c) k else k);
          k = (if m_fdr c \<ge> 0 \<and> m_fdr c \<noteq> m_fdw c then os_close os (m_fdr c) k else k)
      in (c\<lparr>m_fdw := -1, m_fdr := -1\<rparr>, k))"

definition llcommsi_poll :: "'k os \<Rightarrow> u32 \<Rightarrow> llcommsi \<Rightarrow> 'k \<Rightarrow> bool \<times> llcommsi \<times> 'k" where
  "llcommsi_poll os ms c k =
     (case os_poll os (m_fdr c) ms k of (pollin, k) \<Rightarrow> (pollin, c, k))"

definition llcommsi_available :: "'k os \<Rightarrow> llcommsi \<Rightarrow> 'k \<Rightarrow> int \<times> llcommsi \<times> 'k" where
  "llcommsi_available os c k =
     (case llcommsi_poll os 0 c k of (b, c, k) \<Rightarrow> (if b then 1 else 0, c, k))"

text \<open>\<open>NETCOMMS::close\<close> first tells the peer that nothing more will be written, then reads
  until the peer closes too. A peer that never does keeps it there: fuel.\<close>

fun netcomms_drain :: "nat \<Rightarrow> 'k os \<Rightarrow> int \<Rightarrow> 'k \<Rightarrow> 'k option" where
  "netcomms_drain 0 os fd k = None"
| "netcomms_drain (Suc fuel) os fd k =
     (case os_read os fd 256 k of (nr, _, k) \<Rightarrow>
        if nr \<le> 0 then Some k else netcomms_drain fuel os fd k)"

definition netcomms_close :: "nat \<Rightarrow> 'k os \<Rightarrow> llcommsi \<Rightarrow> 'k \<Rightarrow> (llcommsi \<times> 'k) option" where
  "netcomms_close fuel os c k =
     (let k = os_shutdown os (m_fdw c) k in
      map_option (\<lambda>k. (c, os_close os (m_fdw c) k)) (netcomms_drain fuel os (m_fdr c) k))"

subsection \<open>What an open link promises\<close>

text \<open>
  The contract of an open descriptor, as the manual pages of \<open>read\<close>, \<open>write\<close> and
  \<open>poll\<close> state it: a read returns some of the bytes that have arrived, in order, and at
  least one if there is one; a write is taken whole (the code asserts it); a poll reports
  input exactly if there is some. \<open>arrived k\<close> are the bytes a read can return, \<open>sent k\<close>
  what has been written, and \<open>reply k bs\<close> what the peer answers when \<open>bs\<close> is written.
\<close>

locale byte_link =
  fixes os :: "'k os"
    and fd :: int
    and arrived :: "'k \<Rightarrow> u8 list"
    and sent :: "'k \<Rightarrow> u8 list"
    and reply :: "'k \<Rightarrow> u8 list \<Rightarrow> u8 list"
  assumes read_law:
      "arrived k \<noteq> [] \<Longrightarrow> 0 < n \<Longrightarrow>
         \<exists>m k'. os_read os fd n k = (int m, take m (arrived k), k') \<and> 0 < m \<and> m \<le> n
           \<and> m \<le> length (arrived k) \<and> arrived k' = drop m (arrived k) \<and> sent k' = sent k"
    and write_law:
      "bs \<noteq> [] \<Longrightarrow>
         \<exists>k'. os_write os fd bs k = (int (length bs), k') \<and> sent k' = sent k @ bs
           \<and> arrived k' = arrived k @ reply k bs"
    and poll_law:
      "\<exists>k'. os_poll os fd ms k = (arrived k \<noteq> [], k') \<and> arrived k' = arrived k \<and> sent k' = sent k"

text \<open>
  A link whose peer answers the successive writes from a list of replies: what the peer
  will say, written down in advance. The clients above are analysed against such a peer, for
  every list of replies.
\<close>

locale scripted_link = byte_link os fd arrived sent reply
  for os :: "'k os" and fd arrived sent reply +
  fixes script :: "'k \<Rightarrow> u8 list list"
  assumes reply_script: "reply k bs = (case script k of [] \<Rightarrow> [] | r # rs \<Rightarrow> r)"
    and script_write: "os_write os fd bs k = (n, k') \<Longrightarrow> script k' = tl (script k)"
    and script_read: "os_read os fd m k = (n, got, k') \<Longrightarrow> script k' = script k"
    and script_poll: "os_poll os fd ms k = (b, k') \<Longrightarrow> script k' = script k"
begin

text \<open>The transport is open on the link, with these bytes to read, these sent, and these replies
  to come.\<close>

definition linked :: "u8 list \<Rightarrow> u8 list \<Rightarrow> u8 list list \<Rightarrow> llcommsi \<Rightarrow> 'k \<Rightarrow> bool" where
  "linked inp out scr c k \<longleftrightarrow>
     m_fdr c = fd \<and> m_fdw c = fd \<and> arrived k = inp \<and> sent k = out \<and> script k = scr"

lemma linked_write:
  assumes "linked inp out scr c k" "bs \<noteq> []"
  shows "\<exists>c' k'. llcommsi_write os bs c k = Inr ((), c', k')
    \<and> linked (inp @ (case scr of [] \<Rightarrow> [] | r # rs \<Rightarrow> r)) (out @ bs) (tl scr) c' k'"
proof -
  from write_law [OF assms(2), of k] obtain k' where
    k': "os_write os fd bs k = (int (length bs), k')" "sent k' = sent k @ bs"
      "arrived k' = arrived k @ reply k bs" by blast
  with script_write [OF k'(1)] assms show ?thesis
    by (simp add: linked_def llcommsi_write_def Let_def reply_script)
qed

lemma linked_read:
  assumes "linked (b # inp) out scr c k"
  shows "\<exists>c' k'. llcommsi_read os 1 c k = Inr ((1, [b]), c', k') \<and> linked inp out scr c' k'"
proof -
  from read_law [of k 1] assms obtain m k' where
    m: "os_read os fd 1 k = (int m, take m (arrived k), k')" "0 < m" "m \<le> 1"
      "arrived k' = drop m (arrived k)" "sent k' = sent k" by (auto simp: linked_def)
  then have "m = 1" by simp
  with m assms script_read [OF m(1)] show ?thesis by (simp add: llcommsi_read_def linked_def)
qed

lemma linked_available:
  assumes "linked inp out scr c k"
  shows "\<exists>k'. llcommsi_available os c k = (if inp \<noteq> [] then 1 else 0, c, k')
    \<and> linked inp out scr c k'"
proof -
  from poll_law [of 0 k] obtain k' where
    k': "os_poll os fd 0 k = (arrived k \<noteq> [], k')" "arrived k' = arrived k" "sent k' = sent k" by blast
  with script_poll [OF k'(1)] assms show ?thesis
    by (auto simp: llcommsi_available_def llcommsi_poll_def linked_def)
qed

end

subsection \<open>A socket with a scripted peer\<close>

text \<open>The kernel of the instances: a connected socket whose peer answers each write from a
  script. It discharges the laws above on a computable kernel.\<close>

record sock =
  sk_in :: "u8 list"
  sk_out :: "u8 list"
  sk_script :: "u8 list list"

definition sock_os :: "sock os" where
  "sock_os =
     \<lparr>os_read = (\<lambda>fd n k. let m = min n (length (sk_in k)) in
                  (int m, take m (sk_in k), k\<lparr>sk_in := drop m (sk_in k)\<rparr>)),
      os_write = (\<lambda>fd bs k.
         (int (length bs),
          case sk_script k of
            [] \<Rightarrow> k\<lparr>sk_out := sk_out k @ bs\<rparr>
          | r # rs \<Rightarrow> k\<lparr>sk_out := sk_out k @ bs, sk_in := sk_in k @ r, sk_script := rs\<rparr>)),
      os_close = (\<lambda>fd k. k),
      os_poll = (\<lambda>fd ms k. (sk_in k \<noteq> [], k)),
      os_shutdown = (\<lambda>fd k. k)\<rparr>"

definition sock_reply :: "sock \<Rightarrow> u8 list \<Rightarrow> u8 list" where
  "sock_reply k bs = (case sk_script k of [] \<Rightarrow> [] | r # rs \<Rightarrow> r)"

interpretation sock: scripted_link sock_os fd sk_in sk_out sock_reply sk_script
  by unfold_locales
    (auto simp: sock_os_def sock_reply_def Let_def min_def split: list.splits intro: exI)

end
