(* ===== verification/CText.thy ===== *)
theory CText
  imports Prelude
begin

text \<open>
  The parts of the C library's character and number formatting that the sources use:
  \<open>isdigit\<close>, \<open>isspace\<close>, \<open>isalpha\<close>, \<open>tolower\<close> of the C locale and the conversions
  \<open>%08x\<close> and \<open>%x\<close> of \<open>sprintf\<close>, on bytes. The lemmas are the round trip between the
  printed digits of a word and the shift register the bus code reads them back with.
\<close>

subsection \<open>Character classes\<close>

definition c_isdigit :: "u8 \<Rightarrow> bool" where
  "c_isdigit c \<longleftrightarrow> 48 \<le> c \<and> c \<le> 57"

definition c_isspace :: "u8 \<Rightarrow> bool" where
  "c_isspace c \<longleftrightarrow> c = 32 \<or> 9 \<le> c \<and> c \<le> 13"

definition c_isalpha :: "u8 \<Rightarrow> bool" where
  "c_isalpha c \<longleftrightarrow> 65 \<le> c \<and> c \<le> 90 \<or> 97 \<le> c \<and> c \<le> 122"

definition c_tolower :: "u8 \<Rightarrow> u8" where
  "c_tolower c = (if 65 \<le> c \<and> c \<le> 90 then c + 32 else c)"

text \<open>The lower case letters the bus code takes for hexadecimal digits.\<close>

definition c_ishexalpha :: "u8 \<Rightarrow> bool" where
  "c_ishexalpha c \<longleftrightarrow> 97 \<le> c \<and> c \<le> 102"

definition c_ishex :: "u8 \<Rightarrow> bool" where
  "c_ishex c \<longleftrightarrow> c_isdigit c \<or> c_ishexalpha c"

subsection \<open>Printing words in hexadecimal\<close>

definition hex_char :: "u32 \<Rightarrow> u8" where
  "hex_char n = (if n < 10 then 48 + ucast n else 87 + ucast n)"

definition nibble :: "nat \<Rightarrow> u32 \<Rightarrow> u32" where
  "nibble i w = drop_bit (4 * i) w AND 0xf"

definition fmt_08x :: "u32 \<Rightarrow> u8 list" where
  "fmt_08x w = map (\<lambda>i. hex_char (nibble i w)) [7, 6, 5, 4, 3, 2, 1, 0]"

definition fmt_x :: "u32 \<Rightarrow> u8 list" where
  "fmt_x w = (case dropWhile (\<lambda>c. c = 48) (fmt_08x w) of [] \<Rightarrow> [48] | c # cs \<Rightarrow> c # cs)"

subsection \<open>Reading them back\<close>

text \<open>One digit shifted into the accumulator.\<close>

definition hex_shift :: "u32 \<Rightarrow> u8 \<Rightarrow> u32" where
  "hex_shift word c =
     (if c_isdigit c then push_bit 4 word OR (ucast c AND 0x0f)
      else push_bit 4 word OR ((ucast c - 97 + 10) AND 0x0f))"

lemma f_mask: "(0xf :: u32) = mask 4"
  by (simp add: mask_eq_exp_minus_1)

lemma nibble_less: "nibble i w < 16"
proof -
  have "unat (nibble i w) < 2 ^ 4"
    unfolding nibble_def f_mask by (rule unat_and_mask_less) simp
  then show ?thesis by (simp add: word_less_nat_alt)
qed

lemma u32_less_16_cases:
  assumes "n < (16 :: u32)"
  obtains "n = 0" | "n = 1" | "n = 2" | "n = 3" | "n = 4" | "n = 5" | "n = 6" | "n = 7"
    | "n = 8" | "n = 9" | "n = 10" | "n = 11" | "n = 12" | "n = 13" | "n = 14" | "n = 15"
proof -
  have "n \<le> 15" using assms by (simp add: word_less_nat_alt word_le_nat_alt)
  then have "unat n \<in> {0, 1, 2, 3, 4, 5, 6, 7, 8, 9, 10, 11, 12, 13, 14, 15}"
    unfolding word_le_nat_alt by (simp, presburger)
  moreover have "n = of_nat (unat n)" by simp
  ultimately show ?thesis using that by (elim insertE emptyE) (simp_all only:, simp_all)
qed

lemma hex_shift_hex_char: "n < 16 \<Longrightarrow> hex_shift word (hex_char n) = push_bit 4 word OR n"
  by (erule u32_less_16_cases) (simp_all add: hex_shift_def hex_char_def c_isdigit_def)

lemma c_ishex_hex_char: "n < 16 \<Longrightarrow> c_ishex (hex_char n)"
  by (erule u32_less_16_cases)
    (simp_all add: c_ishex_def c_isdigit_def c_ishexalpha_def hex_char_def)

lemma c_ishex_fmt_08x: "list_all c_ishex (fmt_08x w)"
  by (simp add: fmt_08x_def c_ishex_hex_char nibble_less)

lemma length_fmt_08x [simp]: "length (fmt_08x w) = 8"
  by (simp add: fmt_08x_def)

text \<open>Eight digits push out whatever the accumulator held.\<close>

lemma hex_shift_nibble:
  assumes "x AND mask (28 - 4 * i) = drop_bit (4 * i + 4) w" "i \<le> 7"
  shows "(push_bit 4 x OR nibble i w) AND mask (32 - 4 * i) = drop_bit (4 * i) w"
proof (rule bit_word_eqI)
  fix n assume "n < LENGTH(32)"
  then have n: "n < 32" by simp
  have x: "(bit x (n - 4) \<and> n - 4 < 28 - 4 * i) = bit w (4 * i + 4 + (n - 4))"
    using arg_cong [OF assms(1), of "\<lambda>v. bit v (n - 4)"] n by (auto simp: bit_simps)
  have top: "bit w (4 * i + n) \<Longrightarrow> 4 * i + n < 32" using bit_imp_le_length [of w] by simp
  show "bit ((push_bit 4 x OR nibble i w) AND mask (32 - 4 * i)) n = bit (drop_bit (4 * i) w) n"
  proof (cases "n < 4")
    case True
    then show ?thesis using assms(2) n top by (auto simp: nibble_def f_mask bit_simps)
  next
    case False
    then have "4 * i + 4 + (n - 4) = 4 * i + n" by simp
    with x False n top show ?thesis by (auto simp: nibble_def f_mask bit_simps)
  qed
qed

lemma foldl_hex_shift_08x: "foldl hex_shift acc (fmt_08x w) = w"
proof -
  have "foldl hex_shift acc (fmt_08x w) =
    push_bit 4 (push_bit 4 (push_bit 4 (push_bit 4 (push_bit 4 (push_bit 4 (push_bit 4 (push_bit 4 acc
      OR nibble 7 w) OR nibble 6 w) OR nibble 5 w) OR nibble 4 w) OR nibble 3 w) OR nibble 2 w)
      OR nibble 1 w) OR nibble 0 w"
    by (simp add: fmt_08x_def hex_shift_hex_char nibble_less)
  moreover have "acc AND mask (28 - 4 * 7) = drop_bit (4 * 7 + 4) w"
    by (rule bit_word_eqI) (simp add: bit_simps u32_bit_beyond)
  note 7 = hex_shift_nibble [OF this, simplified]
  note 6 = hex_shift_nibble [of _ 6, simplified, OF 7]
  note 5 = hex_shift_nibble [of _ 5, simplified, OF 6]
  note 4 = hex_shift_nibble [of _ 4, simplified, OF 5]
  note 3 = hex_shift_nibble [of _ 3, simplified, OF 4]
  note 2 = hex_shift_nibble [of _ 2, simplified, OF 3]
  note 1 = hex_shift_nibble [of _ 1, simplified, OF 2]
  note 0 = hex_shift_nibble [of _ 0, simplified, OF 1]
  have "(push_bit 4 (push_bit 4 (push_bit 4 (push_bit 4 (push_bit 4 (push_bit 4 (push_bit 4 (push_bit 4 acc
      OR nibble 7 w) OR nibble 6 w) OR nibble 5 w) OR nibble 4 w) OR nibble 3 w) OR nibble 2 w)
      OR nibble 1 w) OR nibble 0 w) AND mask 32 = w"
    using 0 by simp
  moreover have "v AND mask 32 = v" for v :: u32
    by (rule bit_word_eqI) (simp add: bit_simps)
  ultimately show ?thesis by metis
qed

lemma foldl_hex_shift_zeros: "list_all (\<lambda>c. c = 48) cs \<Longrightarrow> foldl hex_shift 0 cs = 0"
  by (induction cs) (simp_all add: hex_shift_def c_isdigit_def)

lemma foldl_hex_shift_x: "foldl hex_shift 0 (fmt_x w) = w"
proof -
  have split: "takeWhile (\<lambda>c. c = 48) (fmt_08x w) @ dropWhile (\<lambda>c. c = 48) (fmt_08x w) = fmt_08x w"
    by simp
  have zeros: "foldl hex_shift 0 (takeWhile (\<lambda>c. c = 48) (fmt_08x w)) = 0"
    by (rule foldl_hex_shift_zeros) (auto simp: list_all_iff dest: set_takeWhileD)
  have "foldl hex_shift 0 (dropWhile (\<lambda>c. c = 48) (fmt_08x w)) = w"
    using foldl_hex_shift_08x [of 0 w] by (subst (asm) split [symmetric]) (simp only: foldl_append zeros)
  moreover have "foldl hex_shift 0 [48] = 0" by (rule foldl_hex_shift_zeros) simp
  ultimately show ?thesis
    by (cases "dropWhile (\<lambda>c. c = 48) (fmt_08x w)") (simp_all only: fmt_x_def list.case foldl_Nil)
qed

lemma c_ishex_fmt_x: "list_all c_ishex (fmt_x w)"
proof -
  have "list_all c_ishex (dropWhile (\<lambda>c. c = 48) (fmt_08x w))"
    using c_ishex_fmt_08x [of w] by (auto simp: list_all_iff dest: set_dropWhileD)
  then show ?thesis
    by (auto simp: fmt_x_def c_ishex_def c_isdigit_def split: list.split)
qed

lemma length_fmt_x: "0 < length (fmt_x w) \<and> length (fmt_x w) \<le> 8"
  using length_dropWhile_le [of "\<lambda>c. c = 48" "fmt_08x w"]
  by (auto simp: fmt_x_def split: list.split)

lemma c_ishex_not_space: "c_ishex c \<Longrightarrow> \<not> c_isspace c"
  by (auto simp: c_ishex_def c_isdigit_def c_ishexalpha_def c_isspace_def word_le_nat_alt)

subsection \<open>Text as HOL strings\<close>

text \<open>The conversions \<open>%08x\<close> and \<open>%d\<close> where the model keeps text as strings.\<close>

definition str_08x :: "u32 \<Rightarrow> string" where
  "str_08x w = map (\<lambda>b. char_of (unat b)) (fmt_08x w)"

fun dec_digits :: "nat \<Rightarrow> string" where
  "dec_digits n = (if n < 10 then [char_of (48 + n)] else dec_digits (n div 10) @ [char_of (48 + n mod 10)])"

declare dec_digits.simps [simp del]

definition fmt_d :: "int \<Rightarrow> string" where
  "fmt_d i = (if i < 0 then CHR ''-'' # dec_digits (nat (- i)) else dec_digits (nat i))"

lemma length_str_08x [simp]: "length (str_08x w) = 8"
  by (simp add: str_08x_def)

lemma length_dec_digits: "n < 10 ^ Suc k \<Longrightarrow> length (dec_digits n) \<le> Suc k"
proof (induction k arbitrary: n)
  case 0
  then show ?case by (subst dec_digits.simps) simp
next
  case (Suc k)
  then have "n div 10 < 10 ^ Suc k" by (simp add: less_mult_imp_div_less)
  from Suc.IH [OF this] show ?case by (subst dec_digits.simps) simp
qed

lemma length_fmt_d: "- (10 ^ 10) < i \<Longrightarrow> i < 10 ^ 10 \<Longrightarrow> length (fmt_d i) \<le> 11"
  using length_dec_digits [of "nat i" 9] length_dec_digits [of "nat (- i)" 9]
  by (auto simp: fmt_d_def nat_less_iff)

lemma length_fmt_d_sint: "length (fmt_d (sint (w :: u32))) \<le> 11"
  using sint_greater_eq [of w] sint_less [of w] by (intro length_fmt_d) simp_all

end
