(* ===== verification/HexBus.thy ===== *)
theory HexBus
  imports LLComms CText
begin

text \<open>
  \<open>sw/host/hexbus.cpp\<close>: the host's end of the debugging bus. A command is text: \<open>A\<close> and
  eight digits set the address, \<open>W\<close> and digits write a word, \<open>R\<close> reads one. The answers are a
  letter, perhaps followed by digits, and end at the next character that is not a digit.

  The object is the record \<open>hexbus\<close>; a method is a program on the object, the transport
  \<open>llcommsi\<close> and the kernel. \<open>m_lastaddr\<close>, \<open>m_inc\<close> and \<open>m_isspace\<close> are not initialised by the
  constructor, nor is the buffer it allocates: their first values are arguments of
  \<open>hexbus_new\<close>. The trace output is left out. Loops that wait for the peer take fuel.
\<close>

subsection \<open>The object\<close>

record hexbus =
  hb_total_nread :: u64
  hb_interrupt_flag :: bool
  hb_addr_set :: bool
  hb_bus_err :: bool
  hb_lastaddr :: u32
  hb_nacks :: u32
  hb_inc :: bool
  hb_isspace :: bool
  hb_buflen :: int
  hb_buf :: "u8 list"
  hb_cmd :: u8

abbreviation HEXB_ADDR :: u8 where "HEXB_ADDR \<equiv> 0x41"
abbreviation HEXB_READ :: u8 where "HEXB_READ \<equiv> 0x52"
abbreviation HEXB_IDLE :: u8 where "HEXB_IDLE \<equiv> 0x5A"
abbreviation HEXB_ACK :: u8 where "HEXB_ACK \<equiv> 0x4B"
abbreviation HEXB_RESET :: u8 where "HEXB_RESET \<equiv> 0x54"
abbreviation HEXB_INT :: u8 where "HEXB_INT \<equiv> 0x49"
abbreviation HEXB_ERR :: u8 where "HEXB_ERR \<equiv> 0x45"

type_synonym 'k hbw = "hexbus \<times> llcommsi \<times> 'k"

definition hb_get :: "(hexbus \<Rightarrow> 'a) \<Rightarrow> ('k hbw, 'a) prog" where
  "hb_get f = getS (\<lambda>(h, c, k). f h)"

definition hb_mod :: "(hexbus \<Rightarrow> hexbus) \<Rightarrow> ('k hbw, unit) prog" where
  "hb_mod f = modS (\<lambda>(h, c, k). (f h, c, k))"

lemma wp_hb_get [wp_simps]: "wp (hb_get f) Q E (h, c, k) = Q (f h) (h, c, k)"
  by (simp add: hb_get_def wp_simps)

lemma wp_hb_mod [wp_simps]: "wp (hb_mod f) Q E (h, c, k) = Q () (f h, c, k)"
  by (simp add: hb_mod_def wp_simps)

text \<open>A call of the transport.\<close>

definition hb_dev :: "(llcommsi \<Rightarrow> 'k \<Rightarrow> ('k, 'a) llres) \<Rightarrow> ('k hbw, 'a) prog" where
  "hb_dev m = (\<lambda>(h, c, k).
     case m c k of Inl (e, c, k) \<Rightarrow> Inl (e, h, c, k) | Inr (x, c, k) \<Rightarrow> Inr (x, h, c, k))"

text \<open>Bytes stored in \<open>m_buf\<close> from an index on, and the byte at an index.\<close>

definition hb_put :: "nat \<Rightarrow> u8 list \<Rightarrow> ('k hbw, unit) prog" where
  "hb_put i bs = (\<lambda>(h, c, k).
     case put_bytes i bs (hb_buf h) of
       Inl e \<Rightarrow> Inl (e, h, c, k)
     | Inr buf \<Rightarrow> Inr ((), h\<lparr>hb_buf := buf\<rparr>, c, k))"

definition hb_peek :: "nat \<Rightarrow> ('k hbw, u8) prog" where
  "hb_peek i = thenS (hb_get hb_buf) (\<lambda>buf. liftS (aget buf i))"

subsection \<open>Construction\<close>

definition hexbus_bufalloc :: "(nat \<Rightarrow> u8) \<Rightarrow> int \<Rightarrow> hexbus \<Rightarrow> hexbus" where
  "hexbus_bufalloc junk len h =
     (if hb_buf h \<noteq> [] \<and> hb_buflen h \<ge> len then h
      else let n = (len AND -0x3f) + 0x40 in
        h\<lparr>hb_buflen := n, hb_buf := map junk [0..<nat n]\<rparr>)"

definition hexbus_new :: "(nat \<Rightarrow> u8) \<Rightarrow> u32 \<Rightarrow> bool \<Rightarrow> bool \<Rightarrow> hexbus" where
  "hexbus_new junk lastaddr inc isspc =
     hexbus_bufalloc junk 64
       \<lparr>hb_total_nread = 0, hb_interrupt_flag = False, hb_addr_set = False, hb_bus_err = False,
        hb_lastaddr = lastaddr, hb_nacks = 0, hb_inc = inc, hb_isspace = isspc,
        hb_buflen = 0, hb_buf = [], hb_cmd = 0\<rparr>"

subsection \<open>Reading characters\<close>

fun lclreadcode_loop :: "nat \<Rightarrow> nat \<Rightarrow> nat \<Rightarrow> nat \<Rightarrow> u8 list \<Rightarrow> u8 list res" where
  "lclreadcode_loop 0 i sp dp buf = Inr buf"
| "lclreadcode_loop (Suc n) i sp dp buf =
     bindE (aget buf i) (\<lambda>ch.
       if ch AND 0x7f = 0x7f then lclreadcode_loop n (Suc i) (Suc sp) dp buf
       else bindE (aget buf dp) (\<lambda>x. bindE (aset buf sp x) (\<lambda>buf.
         lclreadcode_loop n (Suc i) (Suc sp) (Suc dp) buf)))"

definition lclreadcode :: "'k os \<Rightarrow> nat \<Rightarrow> ('k hbw, int) prog" where
  "lclreadcode os len =
     thenS (hb_dev (llcommsi_read os len)) (\<lambda>(nr, bytes).
     thenS (hb_put 0 bytes) (\<lambda>_.
     thenS (hb_mod (\<lambda>h. h\<lparr>hb_total_nread := hb_total_nread h + word_of_int nr\<rparr>)) (\<lambda>_.
     thenS (hb_get hb_buf) (\<lambda>buf.
     thenS (liftS (lclreadcode_loop (nat nr) 0 0 0 buf)) (\<lambda>buf.
     thenS (hb_mod (hb_buf_update (\<lambda>_. buf))) (\<lambda>_. retS nr))))))"

text \<open>
  What \<open>readword\<close> does with one character: the value of the pending word, the countdown of
  idle reports, and the object. It goes on with \<open>Inr (word, countdown)\<close>, or stops: it returns a
  word or throws.
\<close>

datatype rw_stop = RwDone u32 | RwThrow cerr

definition hb_addr_answer :: "u32 \<Rightarrow> hexbus \<Rightarrow> hexbus" where
  "hb_addr_answer word h =
     h\<lparr>hb_addr_set := True, hb_inc := \<not> bit word 0, hb_lastaddr := word AND -4\<rparr>"

definition hb_step_addr :: "hexbus \<Rightarrow> hexbus" where
  "hb_step_addr h = (if hb_inc h then h\<lparr>hb_lastaddr := hb_lastaddr h + 4\<rparr> else h)"

definition hb_new_cmd :: "u8 \<Rightarrow> hexbus \<Rightarrow> hexbus" where
  "hb_new_cmd ch h =
     (if \<not> c_isspace ch then h\<lparr>hb_cmd := ch, hb_isspace := False\<rparr> else h\<lparr>hb_isspace := True\<rparr>)"

definition readword_char :: "u8 \<Rightarrow> u32 \<times> nat \<Rightarrow> hexbus \<Rightarrow> (rw_stop + u32 \<times> nat) \<times> hexbus" where
  "readword_char ch pending h = (case pending of (word, abort) \<Rightarrow>
     (if c_ishex ch then (Inr (hex_shift word ch, abort), h\<lparr>hb_isspace := False\<rparr>)
      else if hb_isspace h then (Inr (0, abort), hb_new_cmd ch h)
      else if hb_cmd h = HEXB_READ then (Inl (RwDone word), hb_new_cmd ch (hb_step_addr h))
      else if hb_cmd h = HEXB_ACK then
        (Inr (0, abort), hb_new_cmd ch ((hb_step_addr h)\<lparr>hb_nacks := hb_nacks h + 1\<rparr>))
      else if hb_cmd h = HEXB_INT then (Inr (0, abort), hb_new_cmd ch (h\<lparr>hb_interrupt_flag := True\<rparr>))
      else if hb_cmd h = HEXB_ERR then
        (Inl (RwThrow (BusErr (hb_lastaddr h))),
         let h = h\<lparr>hb_bus_err := True, hb_isspace := c_isspace ch\<rparr> in
         if \<not> hb_isspace h then h\<lparr>hb_cmd := ch\<rparr> else h)
      else if hb_cmd h = HEXB_IDLE then
        (if abort = 1 then (Inl (RwThrow (BusErr 0)), h) else (Inr (0, abort - 1), hb_new_cmd ch h))
      else if hb_cmd h = HEXB_ADDR then (Inr (0, abort), hb_new_cmd ch (hb_addr_answer word h))
      else if hb_cmd h = HEXB_RESET then (Inr (0, abort), hb_new_cmd ch (h\<lparr>hb_addr_set := False\<rparr>))
      else (Inr (0, abort), hb_new_cmd ch h)))"

fun readword_loop :: "nat \<Rightarrow> 'k os \<Rightarrow> u32 \<Rightarrow> nat \<Rightarrow> ('k hbw, u32) prog" where
  "readword_loop 0 os word abort = throwS NoReturn"
| "readword_loop (Suc fuel) os word abort =
     thenS (lclreadcode os 1) (\<lambda>nr.
       if nr < 1 then readword_loop fuel os word abort
       else thenS (hb_peek 0) (\<lambda>ch.
         thenS (hb_get (readword_char ch (word, abort))) (\<lambda>(r, h').
         thenS (hb_mod (\<lambda>_. h')) (\<lambda>_.
           case r of
             Inr (word, abort) \<Rightarrow> readword_loop fuel os word abort
           | Inl (RwDone result) \<Rightarrow> retS result
           | Inl (RwThrow e) \<Rightarrow> throwS e))))"

definition readword :: "nat \<Rightarrow> 'k os \<Rightarrow> ('k hbw, u32) prog" where
  "readword fuel os = readword_loop fuel os 0 3"

text \<open>The same for \<open>readidle\<close>, which reads only while there is something to read.\<close>

definition readidle_char :: "u8 \<Rightarrow> u32 \<Rightarrow> hexbus \<Rightarrow> (cerr + u32) \<times> hexbus" where
  "readidle_char ch word h =
     (if c_ishex ch then (Inr (hex_shift word ch), h)
      else if c_isspace ch \<and> hb_isspace h then (Inr word, h)
      else
        let next = (\<lambda>h. (let h = if \<not> c_isspace ch then h\<lparr>hb_cmd := ch\<rparr> else h in
                         h\<lparr>hb_isspace := c_isspace ch\<rparr>)) in
        if hb_isspace h then (Inr 0, next h)
        else if hb_cmd h = HEXB_ADDR then (Inr 0, next (hb_addr_answer word h))
        else if hb_cmd h = HEXB_READ then (Inr 0, next (hb_step_addr h))
        else if hb_cmd h = HEXB_INT then (Inr 0, next (h\<lparr>hb_interrupt_flag := True\<rparr>))
        else if hb_cmd h = HEXB_ACK then
          (Inr 0, next ((hb_step_addr h)\<lparr>hb_nacks := hb_nacks h + 1\<rparr>))
        else if hb_cmd h = HEXB_ERR then (Inl (BusErr (hb_lastaddr h)), h\<lparr>hb_bus_err := True\<rparr>)
        else if hb_cmd h = HEXB_RESET then
          (Inr 0, next (h\<lparr>hb_addr_set := False, hb_bus_err := False\<rparr>))
        else (Inr 0, next h))"

definition hb_available :: "'k os \<Rightarrow> ('k hbw, bool) prog" where
  "hb_available os = (\<lambda>(h, c, k). case llcommsi_available os c k of (n, c, k) \<Rightarrow> Inr (n \<noteq> 0, h, c, k))"

fun readidle_loop :: "nat \<Rightarrow> 'k os \<Rightarrow> u32 \<Rightarrow> ('k hbw, unit) prog" where
  "readidle_loop 0 os word = throwS NoReturn"
| "readidle_loop (Suc fuel) os word =
     thenS (hb_available os) (\<lambda>avail.
       if \<not> avail then retS ()
       else thenS (lclreadcode os 1) (\<lambda>_.
         thenS (hb_peek 0) (\<lambda>ch.
         thenS (hb_get (readidle_char ch word)) (\<lambda>(r, h').
         thenS (hb_mod (\<lambda>_. h')) (\<lambda>_.
           case r of Inl e \<Rightarrow> throwS e | Inr word \<Rightarrow> readidle_loop fuel os word)))))"

definition readidle :: "nat \<Rightarrow> 'k os \<Rightarrow> ('k hbw, unit) prog" where
  "readidle fuel os = readidle_loop fuel os 0"

subsection \<open>Sending commands\<close>

text \<open>The result is the offset in \<open>m_buf\<close> after the address command, 0 when none is needed.\<close>

definition encode_address :: "u32 \<Rightarrow> ('k hbw, nat) prog" where
  "encode_address a =
     thenS (hb_get (\<lambda>h. hb_addr_set h \<and> a = hb_lastaddr h
                        \<and> (if hb_inc h then 1 else 0) = (a AND 1) XOR 1)) (\<lambda>already.
       if already then retS 0
       else thenS (hb_put 0 [HEXB_ADDR]) (\<lambda>_.
         thenS (hb_put 1 (fmt_08x a @ [0])) (\<lambda>_. retS 9)))"

text \<open>The first \<open>n\<close> bytes of \<open>m_buf\<close> go to the device.\<close>

definition hb_send :: "'k os \<Rightarrow> nat \<Rightarrow> ('k hbw, unit) prog" where
  "hb_send os n = thenS (hb_get hb_buf) (\<lambda>buf. hb_dev (llcommsi_write os (take n buf)))"

text \<open>Waiting until \<open>n\<close> acknowledgements have come.\<close>

fun await_acks :: "nat \<Rightarrow> 'k os \<Rightarrow> u32 \<Rightarrow> ('k hbw, unit) prog" where
  "await_acks 0 os n = throwS NoReturn"
| "await_acks (Suc fuel) os n =
     thenS (hb_get hb_nacks) (\<lambda>nacks.
       if nacks < n then thenS (readidle fuel os) (\<lambda>_. await_acks fuel os n) else retS ())"

fun writev_loop :: "nat \<Rightarrow> nat \<Rightarrow> 'k os \<Rightarrow> u32 list \<Rightarrow> u32 \<Rightarrow> nat \<Rightarrow> ('k hbw, unit) prog" where
  "writev_loop 0 fuel os buf nw ptr = retS ()"
| "writev_loop (Suc n) fuel os buf nw ptr =
     thenS (hb_put ptr [0x57, 0]) (\<lambda>_.
     thenS (liftS (aget buf (unat nw))) (\<lambda>v.
     (let text = (if v \<noteq> 0 then fmt_x v @ [10] else [10]) in
      thenS (hb_put (ptr + 1) (text @ [0])) (\<lambda>_.
      thenS (hb_send os (ptr + 1 + length text)) (\<lambda>_.
      thenS (await_acks fuel os nw) (\<lambda>_.
        writev_loop n fuel os buf (nw + 1) 0))))))"

definition hexbus_writev :: "nat \<Rightarrow> 'k os \<Rightarrow> u32 \<Rightarrow> bool \<Rightarrow> int \<Rightarrow> u32 list \<Rightarrow> ('k hbw, unit) prog" where
  "hexbus_writev fuel os a p len buf =
     thenS (encode_address (a OR (if p then 0 else 1))) (\<lambda>ptr.
     thenS (hb_mod (\<lambda>h. h\<lparr>hb_lastaddr := a, hb_addr_set := True, hb_nacks := 0\<rparr>)) (\<lambda>_.
     thenS (writev_loop (unat (word_of_int len :: u32)) fuel os buf 0 ptr) (\<lambda>_.
     thenS (await_acks fuel os (word_of_int len)) (\<lambda>_.
       hb_mod (\<lambda>h. if p then h\<lparr>hb_lastaddr := hb_lastaddr h + push_bit 2 (word_of_int len)\<rparr> else h)))))"

definition hexbus_writeio :: "nat \<Rightarrow> 'k os \<Rightarrow> u32 \<Rightarrow> u32 \<Rightarrow> ('k hbw, unit) prog" where
  "hexbus_writeio fuel os a v =
     thenS (hexbus_writev fuel os a False 1 [v]) (\<lambda>_.
       hb_mod (\<lambda>h. h\<lparr>hb_lastaddr := a, hb_addr_set := True\<rparr>))"

definition hexbus_writez :: "nat \<Rightarrow> 'k os \<Rightarrow> u32 \<Rightarrow> int \<Rightarrow> u32 list \<Rightarrow> ('k hbw, unit) prog" where
  "hexbus_writez fuel os a len buf = hexbus_writev fuel os a False len buf"

definition hexbus_writei :: "nat \<Rightarrow> 'k os \<Rightarrow> u32 \<Rightarrow> int \<Rightarrow> u32 list \<Rightarrow> ('k hbw, unit) prog" where
  "hexbus_writei fuel os a len buf = hexbus_writev fuel os a True len buf"

subsection \<open>Reading words\<close>

text \<open>The handlers of \<open>readv\<close>: a bus error is thrown again with the address of the word that
  was being read; any other exception fails the assertion. What is no exception in C++
  passes through.\<close>

definition readv_handler :: "u32 \<Rightarrow> bool \<Rightarrow> u32 \<Rightarrow> cerr \<Rightarrow> ('s, 'a) prog" where
  "readv_handler a inc nread e =
     (case e of
        BusErr _ \<Rightarrow> throwS (BusErr (a + (if inc then push_bit 2 nread else 0)))
      | Thrown _ \<Rightarrow> throwS AssertFail
      | e \<Rightarrow> throwS e)"

fun readv_loop :: "nat \<Rightarrow> nat \<Rightarrow> 'k os \<Rightarrow> u32 \<Rightarrow> bool \<Rightarrow> u32 \<Rightarrow> nat \<Rightarrow> ('k hbw, u32 list) prog" where
  "readv_loop 0 fuel os a inc nread ptr = retS []"
| "readv_loop (Suc n) fuel os a inc nread ptr =
     thenS (catchS
        (thenS (hb_put ptr [HEXB_READ, 10, 0]) (\<lambda>_.
         thenS (hb_send os (ptr + 2)) (\<lambda>_. readword fuel os)))
        (readv_handler a inc nread)) (\<lambda>w.
     thenS (readv_loop n fuel os a inc (nread + 1) 0) (\<lambda>ws. retS (w # ws)))"

definition hexbus_readv :: "nat \<Rightarrow> 'k os \<Rightarrow> u32 \<Rightarrow> bool \<Rightarrow> int \<Rightarrow> ('k hbw, u32 list) prog" where
  "hexbus_readv fuel os a inc len =
     (if len \<le> 0 then retS []
      else
        let shifted = push_bit 2 (word_of_int len) in
        thenS (encode_address (a OR (if inc then 0 else 1))) (\<lambda>ptr.
        thenS (hb_mod (\<lambda>h. h\<lparr>hb_lastaddr := a, hb_addr_set := True, hb_inc := inc\<rparr>)) (\<lambda>_.
        thenS (readv_loop (nat len) fuel os a inc 0 ptr) (\<lambda>ws.
        thenS (hb_get hb_lastaddr) (\<lambda>lastaddr.
          if lastaddr \<noteq> a + (if inc then shifted else 0) then
            (if lastaddr = (if a + (if inc then 1 else 0) \<noteq> 0 then shifted else 0)
             then throwS (ExitWith 1) else throwS AssertFail)
          else retS ws)))))"

definition hexbus_readio :: "nat \<Rightarrow> 'k os \<Rightarrow> u32 \<Rightarrow> ('k hbw, u32) prog" where
  "hexbus_readio fuel os a =
     thenS (catchS (hexbus_readv fuel os a False 1)
              (\<lambda>e. case e of BusErr _ \<Rightarrow> throwS (BusErr a) | e \<Rightarrow> throwS e)) (\<lambda>v.
     thenS (hb_get hb_lastaddr) (\<lambda>lastaddr.
       if lastaddr \<noteq> a then
         thenS (hb_mod (\<lambda>h. h\<lparr>hb_addr_set := False\<rparr>)) (\<lambda>_. throwS (ExitWith 1))
       else liftS (aget v 0)))"

definition hexbus_readi :: "nat \<Rightarrow> 'k os \<Rightarrow> u32 \<Rightarrow> int \<Rightarrow> ('k hbw, u32 list) prog" where
  "hexbus_readi fuel os a len = hexbus_readv fuel os a True len"

definition hexbus_readz :: "nat \<Rightarrow> 'k os \<Rightarrow> u32 \<Rightarrow> int \<Rightarrow> ('k hbw, u32 list) prog" where
  "hexbus_readz fuel os a len = hexbus_readv fuel os a False len"

subsection \<open>Interrupts, errors, closing\<close>

fun usleep_scan :: "u8 list \<Rightarrow> hexbus \<Rightarrow> hexbus" where
  "usleep_scan [] h = h"
| "usleep_scan (b # bs) h =
     usleep_scan bs
       (if b = HEXB_INT then h\<lparr>hb_interrupt_flag := True\<rparr>
        else if b = HEXB_RESET then h\<lparr>hb_bus_err := False\<rparr>
        else if b = HEXB_ERR then h\<lparr>hb_bus_err := True\<rparr>
        else h)"

definition hexbus_close :: "'k os \<Rightarrow> ('k hbw, unit) prog" where
  "hexbus_close os = modS (\<lambda>(h, c, k). (h, llcommsi_close os c k))"

definition hexbus_usleep :: "'k os \<Rightarrow> u32 \<Rightarrow> ('k hbw, unit) prog" where
  "hexbus_usleep os ms = (\<lambda>(h, c, k).
     case llcommsi_poll os ms c k of (ready, c, k) \<Rightarrow>
       if \<not> ready then Inr ((), h, c, k)
       else
         thenS (hb_dev (llcommsi_read os 16)) (\<lambda>(nr, bytes).
         thenS (hb_put 0 bytes) (\<lambda>_.
         thenS (hb_mod (\<lambda>h. h\<lparr>hb_total_nread := hb_total_nread h + word_of_int nr\<rparr>)) (\<lambda>_.
           if nr = 0 then thenS (hexbus_close os) (\<lambda>_. throwS (ExitWith (-1)))
           else hb_mod (\<lambda>h. usleep_scan (take (nat nr) (hb_buf h)) h)))) (h, c, k))"

fun hexbus_wait :: "nat \<Rightarrow> 'k os \<Rightarrow> ('k hbw, unit) prog" where
  "hexbus_wait 0 os = throwS NoReturn"
| "hexbus_wait (Suc fuel) os =
     thenS (hexbus_usleep os 200) (\<lambda>_.
     thenS (hb_get hb_interrupt_flag) (\<lambda>i. if i then retS () else hexbus_wait fuel os))"

definition hexbus_poll :: "('k hbw, bool) prog" where
  "hexbus_poll = hb_get hb_interrupt_flag"

definition hexbus_bus_err :: "('k hbw, bool) prog" where
  "hexbus_bus_err = hb_get hb_bus_err"

definition hexbus_reset_err :: "('k hbw, unit) prog" where
  "hexbus_reset_err = hb_mod (hb_bus_err_update (\<lambda>_. False))"

definition hexbus_clear :: "('k hbw, unit) prog" where
  "hexbus_clear = hb_mod (hb_interrupt_flag_update (\<lambda>_. False))"

end
