(* ===== verification/HexAnswers.thy ===== *)
theory HexAnswers
  imports HexBus
begin

text \<open>
  The grammar of the answers the FPGA sends over the debugging bus, and what the two decoders
  of \<open>HEXBUS\<close>, \<open>readword\<close> and \<open>readidle\<close>, make of a stream of them. The decoders work
  character by character and act on an answer only when the next one begins; the lemmas state
  their effect answer by answer.
\<close>

subsection \<open>The object without its buffer\<close>

text \<open>No decision depends on the contents of \<open>m_buf\<close> or on the count of bytes read.\<close>

definition hb_core :: "hexbus \<Rightarrow> hexbus" where
  "hb_core h = h\<lparr>hb_total_nread := 0, hb_buf := []\<rparr>"

lemma hb_core_simps [simp]:
  "hb_core (hb_core h) = hb_core h"
  "hb_core (h\<lparr>hb_buf := x\<rparr>) = hb_core h"
  "hb_core (h\<lparr>hb_total_nread := y\<rparr>) = hb_core h"
  "hb_interrupt_flag (hb_core h) = hb_interrupt_flag h"
  "hb_addr_set (hb_core h) = hb_addr_set h"
  "hb_bus_err (hb_core h) = hb_bus_err h"
  "hb_lastaddr (hb_core h) = hb_lastaddr h"
  "hb_nacks (hb_core h) = hb_nacks h"
  "hb_inc (hb_core h) = hb_inc h"
  "hb_isspace (hb_core h) = hb_isspace h"
  "hb_cmd (hb_core h) = hb_cmd h"
  by (simp_all add: hb_core_def)

lemma hb_core_update:
  "hb_core (h\<lparr>hb_interrupt_flag := i\<rparr>) = (hb_core h)\<lparr>hb_interrupt_flag := i\<rparr>"
  "hb_core (h\<lparr>hb_addr_set := s\<rparr>) = (hb_core h)\<lparr>hb_addr_set := s\<rparr>"
  "hb_core (h\<lparr>hb_bus_err := e\<rparr>) = (hb_core h)\<lparr>hb_bus_err := e\<rparr>"
  "hb_core (h\<lparr>hb_lastaddr := a\<rparr>) = (hb_core h)\<lparr>hb_lastaddr := a\<rparr>"
  "hb_core (h\<lparr>hb_nacks := n\<rparr>) = (hb_core h)\<lparr>hb_nacks := n\<rparr>"
  "hb_core (h\<lparr>hb_inc := b\<rparr>) = (hb_core h)\<lparr>hb_inc := b\<rparr>"
  "hb_core (h\<lparr>hb_isspace := p\<rparr>) = (hb_core h)\<lparr>hb_isspace := p\<rparr>"
  "hb_core (h\<lparr>hb_cmd := c\<rparr>) = (hb_core h)\<lparr>hb_cmd := c\<rparr>"
  by (simp_all add: hb_core_def)

lemma hb_core_helpers:
  "hb_core (hb_step_addr h) = hb_step_addr (hb_core h)"
  "hb_core (hb_new_cmd c h) = hb_new_cmd c (hb_core h)"
  "hb_core (hb_addr_answer w h) = hb_addr_answer w (hb_core h)"
  by (simp_all add: hb_step_addr_def hb_new_cmd_def hb_addr_answer_def hb_core_update)

lemma readword_char_core:
  "readword_char ch (word, ab) (hb_core h) = apsnd hb_core (readword_char ch (word, ab) h)"
  by (simp add: readword_char_def Let_def hb_core_update hb_core_helpers)

lemma readidle_char_core:
  "readidle_char ch word (hb_core h) = apsnd hb_core (readidle_char ch word h)"
  by (simp add: readidle_char_def Let_def hb_core_update hb_core_helpers)

lemma hb_buf_helpers:
  "hb_buf (hb_step_addr h) = hb_buf h"
  "hb_buf (hb_new_cmd c h) = hb_buf h"
  "hb_buf (hb_addr_answer w h) = hb_buf h"
  by (simp_all add: hb_step_addr_def hb_new_cmd_def hb_addr_answer_def)

lemma readword_char_buf: "hb_buf (snd (readword_char ch (word, ab) h)) = hb_buf h"
  by (simp add: readword_char_def Let_def hb_buf_helpers)

lemma readidle_char_buf: "hb_buf (snd (readidle_char ch word h)) = hb_buf h"
  by (simp add: readidle_char_def Let_def hb_buf_helpers)

subsection \<open>The decoders as functions on the bytes\<close>

fun ans_scan :: "(u8 \<Rightarrow> 'w \<Rightarrow> hexbus \<Rightarrow> ('r + 'w) \<times> hexbus) \<Rightarrow> 'w \<Rightarrow> hexbus \<Rightarrow> u8 list
    \<Rightarrow> ('r + 'w) \<times> hexbus \<times> u8 list" where
  "ans_scan step w h [] = (Inr w, h, [])"
| "ans_scan step w h (c # cs) =
     (case step c w h of
        (Inr w, h) \<Rightarrow> ans_scan step w h cs
      | (Inl r, h) \<Rightarrow> (Inl r, h, cs))"


subsection \<open>Answers\<close>

datatype hb_answer =
    AnsSpace u8 | AnsAddr u32 | AnsData u32 | AnsAck u32 | AnsInt | AnsErr | AnsReset | AnsIdle

fun ans_letter :: "hb_answer \<Rightarrow> u8" where
  "ans_letter (AnsSpace c) = c"
| "ans_letter (AnsAddr w) = HEXB_ADDR"
| "ans_letter (AnsData w) = HEXB_READ"
| "ans_letter (AnsAck w) = HEXB_ACK"
| "ans_letter AnsInt = HEXB_INT"
| "ans_letter AnsErr = HEXB_ERR"
| "ans_letter AnsReset = HEXB_RESET"
| "ans_letter AnsIdle = HEXB_IDLE"

fun ans_word :: "hb_answer \<Rightarrow> u32 option" where
  "ans_word (AnsAddr w) = Some w"
| "ans_word (AnsData w) = Some w"
| "ans_word (AnsAck w) = Some w"
| "ans_word _ = None"

definition ans_digits :: "hb_answer \<Rightarrow> u8 list" where
  "ans_digits a = (case ans_word a of None \<Rightarrow> [] | Some w \<Rightarrow> fmt_08x w)"

definition ans_encode :: "hb_answer \<Rightarrow> u8 list" where
  "ans_encode a = ans_letter a # ans_digits a"

definition ans_stream :: "hb_answer list \<Rightarrow> u8 list" where
  "ans_stream as = concat (map ans_encode as)"

fun ans_wf :: "hb_answer \<Rightarrow> bool" where
  "ans_wf (AnsSpace c) \<longleftrightarrow> c_isspace c"
| "ans_wf _ \<longleftrightarrow> True"

lemma ans_stream_simps [simp]:
  "ans_stream [] = []"
  "ans_stream (a # as) = ans_letter a # ans_digits a @ ans_stream as"
  by (simp_all add: ans_stream_def ans_encode_def)

lemma ans_digits_hex: "list_all c_ishex (ans_digits a)"
  by (simp add: ans_digits_def c_ishex_fmt_08x split: option.split)

lemma ans_digits_word: "foldl hex_shift 0 (ans_digits a) = (case ans_word a of None \<Rightarrow> 0 | Some w \<Rightarrow> w)"
  by (simp add: ans_digits_def foldl_hex_shift_08x split: option.split)

lemma ans_letter_not_hex: "ans_wf a \<Longrightarrow> \<not> c_ishex (ans_letter a)"
proof (cases a)
  case (AnsSpace c)
  then show "ans_wf a \<Longrightarrow> \<not> c_ishex (ans_letter a)" using c_ishex_not_space by auto
qed (simp_all add: c_ishex_def c_isdigit_def c_ishexalpha_def)

lemma ans_letter_not_space: "(\<forall>c. a \<noteq> AnsSpace c) \<Longrightarrow> \<not> c_isspace (ans_letter a)"
  by (cases a) (auto simp: c_isspace_def)

subsection \<open>What a decoder of answers is\<close>

text \<open>The object without what a decoder keeps for itself between two characters.\<close>

definition hb_view :: "hexbus \<Rightarrow> hexbus" where
  "hb_view h = (hb_core h)\<lparr>hb_cmd := 0, hb_isspace := True\<rparr>"

text \<open>No answer is half read: the last character was white space, or none has come yet.\<close>

definition hb_settled :: "hexbus \<Rightarrow> bool" where
  "hb_settled h \<longleftrightarrow> hb_isspace h \<or> hb_cmd h = 0"

text \<open>The state after a character that is no digit.\<close>

definition hb_started :: "u8 \<Rightarrow> hexbus \<Rightarrow> bool" where
  "hb_started c h \<longleftrightarrow> hb_isspace h = c_isspace c \<and> (\<not> c_isspace c \<longrightarrow> hb_cmd h = c)"

text \<open>
  A decoder keeps a shift register and perhaps more, and may run out of patience: an answer has
  a cost and the decoder a budget. \<open>effect\<close> is what an answer does to the object, \<open>quiet\<close> says
  that it does not end the call.
\<close>

locale answer_decoder =
  fixes step :: "u8 \<Rightarrow> 'w \<Rightarrow> hexbus \<Rightarrow> ('r + 'w) \<times> hexbus"
    and shifted :: "'w \<Rightarrow> u32"
    and budget :: "'w \<Rightarrow> nat"
    and cost :: "hb_answer \<Rightarrow> nat"
    and quiet :: "hb_answer \<Rightarrow> bool"
    and effect :: "hb_answer \<Rightarrow> hexbus \<Rightarrow> hexbus"
  assumes digit: "c_ishex c \<Longrightarrow> \<exists>w' h'. step c w h = (Inr w', h')
        \<and> shifted w' = hex_shift (shifted w) c \<and> budget w' = budget w
        \<and> hb_view h' = hb_view h \<and> hb_cmd h' = hb_cmd h \<and> (\<not> hb_isspace h \<longrightarrow> \<not> hb_isspace h')"
    and fresh: "\<not> c_ishex c \<Longrightarrow> hb_settled h \<Longrightarrow> \<exists>w' h'. step c w h = (Inr w', h')
        \<and> (\<not> c_isspace c \<longrightarrow> shifted w' = 0) \<and> budget w' = budget w
        \<and> hb_view h' = hb_view h \<and> hb_started c h'"
    and pending: "\<not> c_ishex c \<Longrightarrow> \<not> hb_isspace h \<Longrightarrow> hb_cmd h = ans_letter a \<Longrightarrow>
        (\<forall>c. a \<noteq> AnsSpace c) \<Longrightarrow> quiet a \<Longrightarrow> (\<forall>x. ans_word a = Some x \<longrightarrow> shifted w = x) \<Longrightarrow>
        cost a < budget w \<Longrightarrow> \<exists>w' h'. step c w h = (Inr w', h')
        \<and> (\<not> c_isspace c \<longrightarrow> shifted w' = 0) \<and> budget w' = budget w - cost a
        \<and> hb_view h' = effect a (hb_view h) \<and> hb_started c h'"
    and space_law: "quiet (AnsSpace c)" "cost (AnsSpace c) = 0" "effect (AnsSpace c) v = v"
begin

text \<open>The decoder has taken in answers whose effect is \<open>v\<close>, the last of them perhaps not yet
  acted on; \<open>n\<close> is what is left of its budget once it has.\<close>

definition holds :: "'w \<Rightarrow> hexbus \<Rightarrow> hexbus \<Rightarrow> nat \<Rightarrow> bool" where
  "holds w h v n \<longleftrightarrow>
     hb_settled h \<and> hb_view h = v \<and> n = budget w
     \<or> (\<exists>a. \<not> hb_isspace h \<and> hb_cmd h = ans_letter a \<and> (\<forall>c. a \<noteq> AnsSpace c) \<and> quiet a
          \<and> (\<forall>x. ans_word a = Some x \<longrightarrow> shifted w = x) \<and> cost a < budget w
          \<and> effect a (hb_view h) = v \<and> n = budget w - cost a)"

lemma holds_step:
  assumes "holds w h v n" "\<not> c_ishex c"
  shows "\<exists>w' h'. step c w h = (Inr w', h') \<and> (\<not> c_isspace c \<longrightarrow> shifted w' = 0) \<and> budget w' = n
    \<and> hb_view h' = v \<and> hb_started c h'"
  using assms fresh [of c h w] pending [of c h _ w] unfolding holds_def by metis

lemma scan_digits:
  "list_all c_ishex ds \<Longrightarrow> \<not> hb_isspace h \<Longrightarrow> \<exists>w' h'. ans_scan step w h (ds @ cs) = ans_scan step w' h' cs
     \<and> shifted w' = foldl hex_shift (shifted w) ds \<and> budget w' = budget w
     \<and> hb_view h' = hb_view h \<and> hb_cmd h' = hb_cmd h \<and> \<not> hb_isspace h'"
proof (induction ds arbitrary: w h)
  case (Cons d ds)
  then obtain w1 h1 where 1: "step d w h = (Inr w1, h1)"
    "shifted w1 = hex_shift (shifted w) d" "budget w1 = budget w"
    "hb_view h1 = hb_view h" "hb_cmd h1 = hb_cmd h" "\<not> hb_isspace h1"
    using digit [of d w h] by auto
  with Cons.IH [of h1 w1] Cons.prems show ?case by simp
qed auto

lemma scan_letter:
  assumes "holds w h v n" "ans_wf a" "\<forall>c. a \<noteq> AnsSpace c"
  shows "\<exists>w' h'. ans_scan step w h (ans_letter a # ans_digits a @ cs) = ans_scan step w' h' cs
    \<and> (\<forall>x. ans_word a = Some x \<longrightarrow> shifted w' = x) \<and> budget w' = n
    \<and> hb_view h' = v \<and> hb_cmd h' = ans_letter a \<and> \<not> hb_isspace h'"
proof -
  note c = ans_letter_not_hex [OF assms(2)] ans_letter_not_space [OF assms(3)]
  from holds_step [OF assms(1) c(1)] c(2) obtain w1 h1 where
    1: "step (ans_letter a) w h = (Inr w1, h1)" "shifted w1 = 0" "budget w1 = n"
      "hb_view h1 = v" "hb_cmd h1 = ans_letter a" "\<not> hb_isspace h1"
    by (auto simp: hb_started_def)
  from scan_digits [OF ans_digits_hex 1(6), of w1 a cs] obtain w2 h2 where
    2: "ans_scan step w1 h1 (ans_digits a @ cs) = ans_scan step w2 h2 cs"
      "shifted w2 = foldl hex_shift (shifted w1) (ans_digits a)" "budget w2 = budget w1"
      "hb_view h2 = hb_view h1" "hb_cmd h2 = hb_cmd h1" "\<not> hb_isspace h2" by blast
  show ?thesis
    by (rule exI [of _ w2], rule exI [of _ h2]) (use 1 2 in \<open>simp add: ans_digits_word\<close>)
qed

lemma scan_answer:
  assumes "holds w h v n" "ans_wf a" "quiet a" "cost a < n"
  shows "\<exists>w' h'. ans_scan step w h (ans_letter a # ans_digits a @ cs) = ans_scan step w' h' cs
    \<and> holds w' h' (effect a v) (n - cost a)"
proof (cases "\<forall>c. a \<noteq> AnsSpace c")
  case True
  from scan_letter [OF assms(1,2) this, of cs] assms(3,4) True show ?thesis
    unfolding holds_def by metis
next
  case False
  then obtain c where a: "a = AnsSpace c" by auto
  with assms(2) have c: "c_isspace c" "\<not> c_ishex c" using c_ishex_not_space by auto
  from holds_step [OF assms(1) c(2)] c(1) obtain w1 h1 where
    "step c w h = (Inr w1, h1)" "budget w1 = n" "hb_view h1 = v" "hb_isspace h1"
    by (auto simp: hb_started_def)
  then show ?thesis
    by (intro exI [of _ w1] exI [of _ h1])
      (simp add: a holds_def hb_settled_def ans_digits_def space_law)
qed

lemma scan_answers:
  "holds w h v n \<Longrightarrow> list_all ans_wf as \<Longrightarrow> list_all quiet as \<Longrightarrow> sum_list (map cost as) < n \<Longrightarrow>
     \<exists>w' h'. ans_scan step w h (ans_stream as @ cs) = ans_scan step w' h' cs
       \<and> holds w' h' (fold effect as v) (n - sum_list (map cost as))"
proof (induction as arbitrary: w h v n)
  case (Cons a as)
  then have "cost a < n" by simp
  with scan_answer [of w h v n a "ans_stream as @ cs"] Cons.prems obtain w1 h1 where
    1: "ans_scan step w h (ans_letter a # ans_digits a @ ans_stream as @ cs)
          = ans_scan step w1 h1 (ans_stream as @ cs)"
      "holds w1 h1 (effect a v) (n - cost a)" by auto
  with Cons.IH [OF 1(2)] Cons.prems show ?case by (simp add: diff_diff_eq)
qed auto

text \<open>The first answer that ends the call: it has been read when the next character comes.\<close>

lemma scan_to_last:
  assumes "holds w h v n" "list_all ans_wf as" "list_all quiet as" "sum_list (map cost as) < n"
    and "ans_wf a" "\<forall>c. a \<noteq> AnsSpace c"
  shows "\<exists>w' h'. ans_scan step w h (ans_stream (as @ [a]) @ cs) = ans_scan step w' h' cs
    \<and> (\<forall>x. ans_word a = Some x \<longrightarrow> shifted w' = x)
    \<and> hb_view h' = fold effect as v \<and> hb_cmd h' = ans_letter a \<and> \<not> hb_isspace h'"
proof -
  have "ans_stream (as @ [a]) @ cs = ans_stream as @ ans_letter a # ans_digits a @ cs"
    by (simp add: ans_stream_def ans_encode_def)
  moreover from scan_answers [OF assms(1-4), of "ans_letter a # ans_digits a @ cs"] obtain w1 h1 where
    1: "ans_scan step w h (ans_stream as @ ans_letter a # ans_digits a @ cs)
          = ans_scan step w1 h1 (ans_letter a # ans_digits a @ cs)"
      "holds w1 h1 (fold effect as v) (n - sum_list (map cost as))" by auto
  moreover from scan_letter [OF 1(2) assms(5,6), of cs] obtain w2 h2 where
    "ans_scan step w1 h1 (ans_letter a # ans_digits a @ cs) = ans_scan step w2 h2 cs"
    "\<forall>x. ans_word a = Some x \<longrightarrow> shifted w2 = x"
    "hb_view h2 = fold effect as v" "hb_cmd h2 = ans_letter a" "\<not> hb_isspace h2" by auto
  ultimately show ?thesis by metis
qed

end

subsection \<open>The two decoders\<close>

definition hb_ack :: "hexbus \<Rightarrow> hexbus" where
  "hb_ack h = (hb_step_addr h)\<lparr>hb_nacks := hb_nacks h + 1\<rparr>"

fun rw_effect :: "hb_answer \<Rightarrow> hexbus \<Rightarrow> hexbus" where
  "rw_effect (AnsAddr w) h = hb_addr_answer w h"
| "rw_effect (AnsAck w) h = hb_ack h"
| "rw_effect AnsInt h = h\<lparr>hb_interrupt_flag := True\<rparr>"
| "rw_effect AnsReset h = h\<lparr>hb_addr_set := False\<rparr>"
| "rw_effect _ h = h"

fun rw_quiet :: "hb_answer \<Rightarrow> bool" where
  "rw_quiet (AnsData w) \<longleftrightarrow> False"
| "rw_quiet AnsErr \<longleftrightarrow> False"
| "rw_quiet _ \<longleftrightarrow> True"

fun rw_cost :: "hb_answer \<Rightarrow> nat" where
  "rw_cost AnsIdle = 1"
| "rw_cost _ = 0"

fun ri_effect :: "hb_answer \<Rightarrow> hexbus \<Rightarrow> hexbus" where
  "ri_effect (AnsAddr w) h = hb_addr_answer w h"
| "ri_effect (AnsData w) h = hb_step_addr h"
| "ri_effect (AnsAck w) h = hb_ack h"
| "ri_effect AnsInt h = h\<lparr>hb_interrupt_flag := True\<rparr>"
| "ri_effect AnsReset h = h\<lparr>hb_addr_set := False, hb_bus_err := False\<rparr>"
| "ri_effect _ h = h"

fun ri_quiet :: "hb_answer \<Rightarrow> bool" where
  "ri_quiet AnsErr \<longleftrightarrow> False"
| "ri_quiet _ \<longleftrightarrow> True"

lemma hb_view_update:
  "hb_view (h\<lparr>hb_interrupt_flag := i\<rparr>) = (hb_view h)\<lparr>hb_interrupt_flag := i\<rparr>"
  "hb_view (h\<lparr>hb_addr_set := s\<rparr>) = (hb_view h)\<lparr>hb_addr_set := s\<rparr>"
  "hb_view (h\<lparr>hb_bus_err := e\<rparr>) = (hb_view h)\<lparr>hb_bus_err := e\<rparr>"
  "hb_view (h\<lparr>hb_lastaddr := a\<rparr>) = (hb_view h)\<lparr>hb_lastaddr := a\<rparr>"
  "hb_view (h\<lparr>hb_nacks := n\<rparr>) = (hb_view h)\<lparr>hb_nacks := n\<rparr>"
  "hb_view (h\<lparr>hb_inc := b\<rparr>) = (hb_view h)\<lparr>hb_inc := b\<rparr>"
  "hb_view (h\<lparr>hb_isspace := p\<rparr>) = hb_view h"
  "hb_view (h\<lparr>hb_cmd := c\<rparr>) = hb_view h"
  by (simp_all add: hb_view_def hb_core_update)

lemma hb_view_get:
  "hb_interrupt_flag (hb_view h) = hb_interrupt_flag h"
  "hb_addr_set (hb_view h) = hb_addr_set h"
  "hb_bus_err (hb_view h) = hb_bus_err h"
  "hb_lastaddr (hb_view h) = hb_lastaddr h"
  "hb_nacks (hb_view h) = hb_nacks h"
  "hb_inc (hb_view h) = hb_inc h"
  by (simp_all add: hb_view_def)

lemma hb_view_helpers:
  "hb_view (hb_step_addr h) = hb_step_addr (hb_view h)"
  "hb_view (hb_new_cmd c h) = hb_view h"
  "hb_view (hb_addr_answer w h) = hb_addr_answer w (hb_view h)"
  "hb_view (hb_ack h) = hb_ack (hb_view h)"
  by (simp_all add: hb_step_addr_def hb_new_cmd_def hb_addr_answer_def hb_ack_def hb_view_update
      hb_view_get)

lemma hb_started_new_cmd: "hb_started c (hb_new_cmd c h)"
  by (simp add: hb_started_def hb_new_cmd_def)

lemma hb_view_view [simp]: "hb_view (hb_view h) = hb_view h"
  by (simp add: hb_view_def hb_core_def)

lemma hb_view_core [simp]: "hb_view (hb_core h) = hb_view h"
  by (simp add: hb_view_def)

lemmas hb_view_simps = hb_view_update hb_view_get hb_view_helpers hb_started_new_cmd

interpretation rw: answer_decoder readword_char fst snd rw_cost rw_quiet rw_effect
proof
  fix c h and w :: "u32 \<times> nat"
  obtain x n where w: "w = (x, n)" by (cases w)
  show "c_ishex c \<Longrightarrow> \<exists>w' h'. readword_char c w h = (Inr w', h')
        \<and> fst w' = hex_shift (fst w) c \<and> snd w' = snd w
        \<and> hb_view h' = hb_view h \<and> hb_cmd h' = hb_cmd h \<and> (\<not> hb_isspace h \<longrightarrow> \<not> hb_isspace h')"
    by (simp add: w readword_char_def hb_view_simps)
  show "\<not> c_ishex c \<Longrightarrow> hb_settled h \<Longrightarrow> \<exists>w' h'. readword_char c w h = (Inr w', h')
        \<and> (\<not> c_isspace c \<longrightarrow> fst w' = 0) \<and> snd w' = snd w \<and> hb_view h' = hb_view h \<and> hb_started c h'"
    by (auto simp: w readword_char_def hb_settled_def hb_view_simps)
  fix a
  show "\<not> c_ishex c \<Longrightarrow> \<not> hb_isspace h \<Longrightarrow> hb_cmd h = ans_letter a \<Longrightarrow>
        (\<forall>c. a \<noteq> AnsSpace c) \<Longrightarrow> rw_quiet a \<Longrightarrow> (\<forall>x. ans_word a = Some x \<longrightarrow> fst w = x) \<Longrightarrow>
        rw_cost a < snd w \<Longrightarrow> \<exists>w' h'. readword_char c w h = (Inr w', h')
        \<and> (\<not> c_isspace c \<longrightarrow> fst w' = 0) \<and> snd w' = snd w - rw_cost a
        \<and> hb_view h' = rw_effect a (hb_view h) \<and> hb_started c h'"
    by (cases a) (simp_all add: w readword_char_def hb_view_simps flip: hb_ack_def)
qed simp_all

interpretation ri: answer_decoder readidle_char "\<lambda>w. w" "\<lambda>_. 1" "\<lambda>_. 0" ri_quiet ri_effect
proof
  fix c h and w :: u32
  show "c_ishex c \<Longrightarrow> \<exists>w' h'. readidle_char c w h = (Inr w', h')
        \<and> w' = hex_shift w c \<and> (1::nat) = 1
        \<and> hb_view h' = hb_view h \<and> hb_cmd h' = hb_cmd h \<and> (\<not> hb_isspace h \<longrightarrow> \<not> hb_isspace h')"
    by (simp add: readidle_char_def)
  show "\<not> c_ishex c \<Longrightarrow> hb_settled h \<Longrightarrow> \<exists>w' h'. readidle_char c w h = (Inr w', h')
        \<and> (\<not> c_isspace c \<longrightarrow> w' = 0) \<and> (1::nat) = 1 \<and> hb_view h' = hb_view h \<and> hb_started c h'"
    by (auto simp: readidle_char_def hb_settled_def hb_view_simps hb_started_def)
  fix a
  show "\<not> c_ishex c \<Longrightarrow> \<not> hb_isspace h \<Longrightarrow> hb_cmd h = ans_letter a \<Longrightarrow>
        (\<forall>c. a \<noteq> AnsSpace c) \<Longrightarrow> ri_quiet a \<Longrightarrow> (\<forall>x. ans_word a = Some x \<longrightarrow> w = x) \<Longrightarrow>
        (0::nat) < 1 \<Longrightarrow> \<exists>w' h'. readidle_char c w h = (Inr w', h')
        \<and> (\<not> c_isspace c \<longrightarrow> w' = 0) \<and> (1::nat) = 1 - 0
        \<and> hb_view h' = ri_effect a (hb_view h) \<and> hb_started c h'"
    by (cases a)
      (simp_all add: readidle_char_def hb_view_simps Let_def hb_started_def flip: hb_ack_def)
qed simp_all

lemma rw_scan_data:
  assumes "hb_settled h" "list_all ans_wf as" "list_all rw_quiet as" "sum_list (map rw_cost as) < n"
    "\<not> c_ishex c"
  shows "\<exists>h'. ans_scan readword_char (x, n) h (ans_stream (as @ [AnsData w]) @ c # cs)
      = (Inl (RwDone w), h', cs)
    \<and> hb_view h' = hb_step_addr (fold rw_effect as (hb_view h)) \<and> hb_started c h'"
proof -
  have "rw.holds (x, n) h (hb_view h) n" using assms(1) by (simp add: rw.holds_def)
  from rw.scan_to_last [OF this assms(2-4), of "AnsData w" "c # cs"] obtain w' h' where
    1: "ans_scan readword_char (x, n) h (ans_stream (as @ [AnsData w]) @ c # cs)
        = ans_scan readword_char w' h' (c # cs)" "fst w' = w"
      "hb_view h' = fold rw_effect as (hb_view h)" "hb_cmd h' = HEXB_READ" "\<not> hb_isspace h'" by auto
  then have "readword_char c w' h' = (Inl (RwDone w), hb_new_cmd c (hb_step_addr h'))"
    using assms(5) by (auto simp: readword_char_def split: prod.split)
  with 1 show ?thesis by (simp add: hb_view_simps)
qed

lemma rw_scan_error:
  assumes "hb_settled h" "list_all ans_wf as" "list_all rw_quiet as" "sum_list (map rw_cost as) < n"
    "\<not> c_ishex c"
  shows "\<exists>h'. ans_scan readword_char (x, n) h (ans_stream (as @ [AnsErr]) @ c # cs)
      = (Inl (RwThrow (BusErr (hb_lastaddr (fold rw_effect as (hb_view h))))), h', cs)
    \<and> hb_view h' = (fold rw_effect as (hb_view h))\<lparr>hb_bus_err := True\<rparr> \<and> hb_started c h'"
proof -
  have "rw.holds (x, n) h (hb_view h) n" using assms(1) by (simp add: rw.holds_def)
  from rw.scan_to_last [OF this assms(2-4), of "AnsErr" "c # cs"] obtain w' h' where
    1: "ans_scan readword_char (x, n) h (ans_stream (as @ [AnsErr]) @ c # cs)
        = ans_scan readword_char w' h' (c # cs)"
      "hb_view h' = fold rw_effect as (hb_view h)" "hb_cmd h' = HEXB_ERR" "\<not> hb_isspace h'" by auto
  then have "\<exists>h2. readword_char c w' h' = (Inl (RwThrow (BusErr (hb_lastaddr h'))), h2)
      \<and> hb_view h2 = (hb_view h')\<lparr>hb_bus_err := True\<rparr> \<and> hb_started c h2"
    using assms(5) by (auto simp: readword_char_def hb_started_def Let_def hb_view_simps split: prod.split)
  with 1 show ?thesis by (auto simp: hb_view_get simp flip: 1(2))
qed

lemma ri_scan_settles:
  assumes "hb_settled h" "list_all ans_wf as" "list_all ri_quiet as" "c_isspace c"
  shows "\<exists>w' h'. ans_scan readidle_char x h (ans_stream as @ [c]) = (Inr w', h', [])
    \<and> hb_view h' = fold ri_effect as (hb_view h) \<and> hb_isspace h'"
proof -
  have "ri.holds x h (hb_view h) 1" using assms(1) unfolding ri.holds_def by simp
  from ri.scan_answers [OF this assms(2,3), of "[c]"] obtain w1 h1 where
    1: "ans_scan readidle_char x h (ans_stream as @ [c]) = ans_scan readidle_char w1 h1 [c]"
      "ri.holds w1 h1 (fold ri_effect as (hb_view h)) 1" by auto
  have "\<not> c_ishex c" using assms(4) c_ishex_not_space by auto
  from ri.holds_step [OF 1(2) this] 1(1) assms(4) show ?thesis by (auto simp: hb_started_def)
qed

end
