(* ===== verification/HexLink.thy ===== *)
theory HexLink
  imports HexAnswers
begin

text \<open>
  The methods of \<open>HEXBUS\<close> on a link: a call of \<open>readword\<close> or \<open>readidle\<close> is the decoder run over
  the bytes that have arrived, and reads and writes are transactions with a peer that answers
  from a list of replies.
\<close>

text \<open>
  The object between two calls, on a link: its observable part is \<open>v\<close>, no answer is half
  read, \<open>inp\<close> is waiting to be read, \<open>out\<close> has been sent, \<open>scr\<close> are the replies to come.
\<close>

definition hb_ready :: "int \<Rightarrow> ('k \<Rightarrow> u8 list) \<Rightarrow> ('k \<Rightarrow> u8 list) \<Rightarrow> ('k \<Rightarrow> u8 list list)
    \<Rightarrow> hexbus \<Rightarrow> u8 list \<Rightarrow> u8 list \<Rightarrow> u8 list list \<Rightarrow> 'k hbw \<Rightarrow> bool" where
  "hb_ready fd arrived sent script v inp out scr s \<longleftrightarrow>
     (case s of (h, c, k) \<Rightarrow>
        hb_view h = v \<and> hb_settled h \<and> 64 \<le> length (hb_buf h) \<and> m_fdr c = fd \<and> m_fdw c = fd
        \<and> arrived k = inp \<and> sent k = out \<and> script k = scr)"

text \<open>What the peer answers to the read of one word: answers that do not disturb the read, the
  word, and white space after it.\<close>

type_synonym read_reply = "hb_answer list \<times> u32 \<times> u8 list"

definition read_reply_bytes :: "read_reply \<Rightarrow> u8 list" where
  "read_reply_bytes r = (case r of (as, w, sp) \<Rightarrow> ans_stream (as @ [AnsData w]) @ sp)"

definition error_reply_bytes :: "hb_answer list \<Rightarrow> u8 list \<Rightarrow> u8 list" where
  "error_reply_bytes as sp = ans_stream (as @ [AnsErr]) @ sp"

fun benign :: "u32 \<Rightarrow> bool \<Rightarrow> hb_answer \<Rightarrow> bool" where
  "benign cur inc (AnsSpace c) \<longleftrightarrow> c_isspace c"
| "benign cur inc AnsInt \<longleftrightarrow> True"
| "benign cur inc AnsIdle \<longleftrightarrow> True"
| "benign cur inc (AnsAddr b) \<longleftrightarrow> b AND -4 = cur \<and> (\<not> bit b 0) = inc"
| "benign cur inc _ \<longleftrightarrow> False"

fun read_replies :: "u32 \<Rightarrow> bool \<Rightarrow> read_reply list \<Rightarrow> bool" where
  "read_replies cur inc [] \<longleftrightarrow> True"
| "read_replies cur inc ((as, w, sp) # rs) \<longleftrightarrow>
     list_all (benign cur inc) as \<and> sum_list (map rw_cost as) < 3
     \<and> sp \<noteq> [] \<and> list_all c_isspace sp \<and> read_replies (if inc then cur + 4 else cur) inc rs"

definition interrupts_in :: "read_reply list \<Rightarrow> bool" where
  "interrupts_in rs \<longleftrightarrow> list_ex (\<lambda>(as, w, sp). AnsInt \<in> set as) rs"

lemma benign_wf: "benign cur inc a \<Longrightarrow> ans_wf a \<and> rw_quiet a"
  by (cases a) auto

lemma concat_replicate_snoc: "concat (replicate n xs) @ xs = concat (replicate (n + 1) xs)"
  by (induction n) simp_all

lemma case_nonempty: "xs \<noteq> [] \<Longrightarrow> (case xs of [] \<Rightarrow> x | _ # _ \<Rightarrow> y) = y"
  by (cases xs) simp_all

lemma last_reply_length:
  "rs \<noteq> [] \<Longrightarrow> length (snd (snd (last rs))) \<le> length (concat (map read_reply_bytes rs))"
proof (induction rs)
  case (Cons r rs)
  obtain as w sp where r: "r = (as, w, sp)" by (cases r)
  show ?case
  proof (cases "rs = []")
    case True
    then show ?thesis by (simp add: r read_reply_bytes_def)
  next
    case False
    with Cons show ?thesis by simp
  qed
qed simp

lemma read_replies_spaces:
  "read_replies cur inc rs \<Longrightarrow> rs \<noteq> [] \<Longrightarrow> list_all c_isspace (tl (snd (snd (last rs))))"
proof (induction rs arbitrary: cur)
  case (Cons r rs)
  obtain as w sp where r: "r = (as, w, sp)" by (cases r)
  show ?case
  proof (cases "rs = []")
    case True
    with Cons.prems show ?thesis by (cases sp) (simp_all add: r)
  next
    case False
    with Cons show ?thesis by (auto simp: r)
  qed
qed simp

lemma fold_benign:
  "list_all (benign cur inc) as \<Longrightarrow> hb_addr_set v \<Longrightarrow> hb_lastaddr v = cur \<Longrightarrow> hb_inc v = inc \<Longrightarrow>
     fold rw_effect as v = v\<lparr>hb_interrupt_flag := hb_interrupt_flag v \<or> AnsInt \<in> set as\<rparr>"
proof (induction as arbitrary: v)
  case (Cons a as)
  then show ?case by (cases a) (auto simp: hb_addr_answer_def)
qed simp

lemma ans_stream_spaces: "ans_stream (map AnsSpace sp) = sp"
  by (induction sp) (simp_all add: ans_digits_def)

lemma benign_spaces: "list_all c_isspace sp \<Longrightarrow> list_all (benign cur inc) (map AnsSpace sp)"
  and cost_spaces: "sum_list (map rw_cost (map AnsSpace sp)) = 0"
  by (induction sp) simp_all

text \<open>The bytes that set the address: none when the bus is known to stand there already.\<close>

definition address_cmd :: "hexbus \<Rightarrow> u32 \<Rightarrow> u8 list" where
  "address_cmd v a =
     (if hb_addr_set v \<and> a = hb_lastaddr v \<and> hb_inc v = (\<not> bit a 0) then [] else HEXB_ADDR # fmt_08x a)"

lemma length_address_cmd: "length (address_cmd v a) \<le> 9"
  by (simp add: address_cmd_def)

lemma low_bit_flipped: "((a :: u32) AND 1) XOR 1 = (if bit a 0 then 0 else 1)"
  by (rule bit_word_eqI) (auto simp: bit_simps)

lemma hb_readyI:
  "hb_view h = v \<Longrightarrow> hb_settled h \<Longrightarrow> 64 \<le> length (hb_buf h) \<Longrightarrow> m_fdr c = fd \<Longrightarrow> m_fdw c = fd \<Longrightarrow>
     arrived k = inp \<Longrightarrow> sent k = out \<Longrightarrow> script k = scr \<Longrightarrow>
     hb_ready fd arrived sent script v inp out scr (h, c, k)"
  by (simp add: hb_ready_def)

lemma lclreadcode_loop_one: "buf \<noteq> [] \<Longrightarrow> lclreadcode_loop 1 0 0 0 buf = Inr buf"
  by (cases buf) simp_all

context scripted_link
begin

definition hb_linked :: "hexbus \<Rightarrow> u8 list \<Rightarrow> u8 list \<Rightarrow> u8 list list \<Rightarrow> 'k hbw \<Rightarrow> bool" where
  "hb_linked core inp out scr s \<longleftrightarrow>
     (case s of (h, c, k) \<Rightarrow> hb_core h = core \<and> 64 \<le> length (hb_buf h) \<and> linked inp out scr c k)"

lemma hb_put_one:
  "64 \<le> length (hb_buf h) \<Longrightarrow>
     hb_put 0 [b] (h, c, k) = Inr ((), h\<lparr>hb_buf := (hb_buf h)[0 := b]\<rparr>, c, k)"
  by (cases "hb_buf h") (simp_all add: hb_put_def)

lemma wp_lclreadcode:
  assumes "hb_linked core (b # inp) out scr s"
    and "\<And>h c k. hb_core h = core \<Longrightarrow> 64 \<le> length (hb_buf h) \<Longrightarrow> hb_buf h ! 0 = b \<Longrightarrow>
           linked inp out scr c k \<Longrightarrow> Q 1 (h, c, k)"
  shows "wp (lclreadcode os 1) Q E s"
proof -
  obtain h c k where s: "s = (h, c, k)" by (cases s)
  with assms(1) have h: "hb_core h = core" "64 \<le> length (hb_buf h)" "linked (b # inp) out scr c k"
    by (auto simp: hb_linked_def)
  from linked_read [OF h(3)] obtain c' k' where
    r: "llcommsi_read os 1 c k = Inr ((1, [b]), c', k')" "linked inp out scr c' k'" by blast
  let ?buf = "(hb_buf h)[0 := b]"
  have buf: "?buf \<noteq> []" "?buf ! 0 = b" using h(2) by (cases "hb_buf h"; auto)+
  let ?h' = "h\<lparr>hb_buf := ?buf, hb_total_nread := hb_total_nread h + 1\<rparr>"
  have "lclreadcode os 1 s = Inr (1, ?h', c', k')"
    by (simp add: s lclreadcode_def thenS_def hb_dev_def r(1) [simplified] hb_put_one [OF h(2)] hb_mod_def modS_def hb_get_def
        getS_def liftS_def retS_def lclreadcode_loop_one [OF buf(1), simplified])
  then show ?thesis
    by (rule wp_InrI) (rule assms(2), use h buf r in simp_all)
qed

lemma readword_scan:
  assumes "hb_linked core inp out scr s" "ans_scan readword_char (word, ab) core inp = (Inl r, core', rest)"
    "length inp \<le> fuel"
  shows "wp (readword_loop fuel os word ab)
           (\<lambda>w s'. r = RwDone w \<and> hb_linked core' rest out scr s')
           (\<lambda>e s'. r = RwThrow e \<and> hb_linked core' rest out scr s') s"
  using assms
proof (induction inp arbitrary: core word ab s fuel)
  case Nil
  then show ?case by simp
next
  case (Cons b inp)
  from Cons.prems(3) obtain f where f: "fuel = Suc f" "length inp \<le> f" by (cases fuel) auto
  show ?case unfolding f readword_loop.simps wp_thenS
  proof (rule wp_lclreadcode [OF Cons.prems(1)], goal_cases)
    case (1 h c k)
    obtain q h' where q: "readword_char b (word, ab) h = (q, h')" by (cases "readword_char b (word, ab) h")
    have q': "readword_char b (word, ab) core = (q, hb_core h')"
      using readword_char_core [of b word ab h] by (simp add: q 1(1))
    have l: "hb_linked (hb_core h') inp out scr (h', c, k)"
      using readword_char_buf [of b word ab h] 1 by (simp add: q hb_linked_def)
    from 1 have "0 < length (hb_buf h)" by auto
    with 1 show ?case using Cons.prems(2) l Cons.IH [OF l _ f(2)]
      by (cases q; auto split: rw_stop.splits prod.splits simp: hb_peek_def hb_get_def hb_mod_def wp_simps q q')
  qed
qed

lemma wp_hb_available:
  assumes "hb_linked core inp out scr s" "\<And>s'. hb_linked core inp out scr s' \<Longrightarrow> Q (inp \<noteq> []) s'"
  shows "wp (hb_available os) Q E s"
proof -
  obtain h c k where s: "s = (h, c, k)" by (cases s)
  with assms(1) have h: "hb_core h = core" "64 \<le> length (hb_buf h)" "linked inp out scr c k"
    by (auto simp: hb_linked_def)
  from linked_available [OF h(3)] obtain k' where
    "llcommsi_available os c k = (if inp \<noteq> [] then 1 else 0, c, k')" "linked inp out scr c k'" by blast
  then show ?thesis
    using h assms(2) [of "(h, c, k')"]
    by (cases "inp = []") (simp_all add: s wp_def hb_available_def hb_linked_def)
qed

lemma readidle_scan:
  assumes "hb_linked core inp out scr s" "ans_scan readidle_char word core inp = (r, core', rest)"
    "length inp < fuel"
  shows "wp (readidle_loop fuel os word)
           (\<lambda>_ s'. (\<exists>w. r = Inr w) \<and> hb_linked core' rest out scr s')
           (\<lambda>e s'. r = Inl e \<and> hb_linked core' rest out scr s') s"
  using assms
proof (induction inp arbitrary: core word s fuel)
  case Nil
  then obtain f where f: "fuel = Suc f" by (cases fuel) auto
  show ?case unfolding f readidle_loop.simps wp_thenS
    by (rule wp_hb_available [OF Nil.prems(1)]) (use Nil.prems(2) in \<open>auto simp: wp_simps\<close>)
next
  case (Cons b inp)
  from Cons.prems(3) obtain f where f: "fuel = Suc f" "length inp < f" by (cases fuel) auto
  show ?case unfolding f readidle_loop.simps wp_thenS
  proof (rule wp_hb_available [OF Cons.prems(1)], simp add: wp_thenS del: One_nat_def,
      erule wp_lclreadcode, goal_cases)
    case (1 s' h c k)
    obtain q h' where q: "readidle_char b word h = (q, h')" by (cases "readidle_char b word h")
    have q': "readidle_char b word core = (q, hb_core h')"
      using readidle_char_core [of b word h] by (simp add: q 1(1))
    have l: "hb_linked (hb_core h') inp out scr (h', c, k)"
      using readidle_char_buf [of b word h] 1 by (simp add: q hb_linked_def)
    from 1 have "0 < length (hb_buf h)" by auto
    with 1 show ?case using Cons.prems(2) l Cons.IH [OF l _ f(2)]
      by (cases q; auto simp: hb_peek_def hb_get_def hb_mod_def wp_simps q q')
  qed
qed

lemma hb_ready_iff:
  "hb_ready fd arrived sent script v inp out scr s \<longleftrightarrow>
     (\<exists>core. hb_linked core inp out scr s \<and> hb_view core = v \<and> hb_settled core)"
  by (cases s) (auto simp: hb_ready_def hb_linked_def linked_def hb_settled_def)

lemma wp_hb_put:
  assumes "hb_linked core inp out scr (h, c, k)" "i + length bs \<le> 64"
    and "\<And>h'. hb_linked core inp out scr (h', c, k) \<Longrightarrow>
           hb_buf h' = take i (hb_buf h) @ bs @ drop (i + length bs) (hb_buf h) \<Longrightarrow> Q () (h', c, k)"
  shows "wp (hb_put i bs) Q E (h, c, k)"
proof -
  from assms(1,2) have "i + length bs \<le> length (hb_buf h)" by (simp add: hb_linked_def)
  then have "put_bytes i bs (hb_buf h) = Inr (take i (hb_buf h) @ bs @ drop (i + length bs) (hb_buf h))"
    by (rule put_bytes_in)
  then show ?thesis
    using assms(1,2) assms(3) [of "h\<lparr>hb_buf := take i (hb_buf h) @ bs @ drop (i + length bs) (hb_buf h)\<rparr>"]
    by (auto simp: wp_def hb_put_def hb_linked_def)
qed

lemma wp_hb_send:
  assumes "hb_linked core inp out scr (h, c, k)" "0 < n"
    and "\<And>c' k'. hb_linked core (inp @ (case scr of [] \<Rightarrow> [] | r # rs \<Rightarrow> r)) (out @ take n (hb_buf h))
           (tl scr) (h, c', k') \<Longrightarrow> Q () (h, c', k')"
  shows "wp (hb_send os n) Q E (h, c, k)"
proof -
  have h: "hb_core h = core" "64 \<le> length (hb_buf h)" "linked inp out scr c k"
    using assms(1) by (auto simp: hb_linked_def)
  then have "take n (hb_buf h) \<noteq> []" using assms(2) by auto
  from linked_write [OF h(3) this] obtain c' k' where
    "llcommsi_write os (take n (hb_buf h)) c k = Inr ((), c', k')"
    "linked (inp @ (case scr of [] \<Rightarrow> [] | r # rs \<Rightarrow> r)) (out @ take n (hb_buf h)) (tl scr) c' k'" by blast
  then show ?thesis
    using h assms(3) [of c' k']
    by (simp add: wp_def hb_send_def hb_get_def getS_def thenS_def hb_dev_def hb_linked_def)
qed

text \<open>The command for one word goes out after the bytes already in the buffer.\<close>

lemma wp_read_request:
  assumes "hb_linked core inp out (r # scr) s"
    and "take (length cmd) (hb_buf (fst s)) = cmd" "length cmd \<le> 20"
    and "\<And>s'. hb_linked core (inp @ r) (out @ cmd @ [HEXB_READ, 10]) scr s' \<Longrightarrow> wp m Q E s'"
  shows "wp (thenS (hb_put (length cmd) [HEXB_READ, 10, 0])
              (\<lambda>_. thenS (hb_send os (length cmd + 2)) (\<lambda>_. m))) Q E s"
proof -
  obtain h c k where s: "s = (h, c, k)" by (cases s)
  show ?thesis unfolding wp_thenS s
  proof (rule wp_hb_put [OF assms(1) [unfolded s]], use assms(3) in simp, rule wp_hb_send, assumption, simp)
    fix h' c' k'
    assume h': "hb_buf h' = take (length cmd) (hb_buf h) @ [HEXB_READ, 10, 0]
        @ drop (length cmd + length [HEXB_READ, 10, 0]) (hb_buf h)"
      and l: "hb_linked core (inp @ (case r # scr of [] \<Rightarrow> [] | r # rs \<Rightarrow> r))
        (out @ take (length cmd + 2) (hb_buf h')) (tl (r # scr)) (h', c', k')"
    have "take (length cmd + 2) (hb_buf h') = cmd @ [HEXB_READ, 10]"
      using assms(2) by (simp add: h' s)
    with l have "hb_linked core (inp @ r) (out @ cmd @ [HEXB_READ, 10]) scr (h', c', k')" by simp
    then show "wp m Q E (h', c', k')" by (rule assms(4))
  qed
qed

lemma white_space:
  assumes "sp \<noteq> []" "list_all c_isspace sp"
  obtains c cs where "sp = c # cs" "\<not> c_ishex c" "c_isspace c"
  using assms c_ishex_not_space by (cases sp) auto

lemma read_one_word:
  assumes "hb_linked core (ans_stream pre) out (read_reply_bytes (as, w, sp) # scr) s"
    and "take (length cmd) (hb_buf (fst s)) = cmd" "length cmd \<le> 20" "hb_settled core"
    and "list_all ans_wf (pre @ as)" "list_all rw_quiet (pre @ as)"
    and "sum_list (map rw_cost (pre @ as)) < 3" "sp \<noteq> []" "list_all c_isspace sp"
    and "length (ans_stream pre) + length (read_reply_bytes (as, w, sp)) \<le> fuel"
  shows "wp (thenS (hb_put (length cmd) [HEXB_READ, 10, 0])
              (\<lambda>_. thenS (hb_send os (length cmd + 2)) (\<lambda>_. readword fuel os)))
      (\<lambda>x s'. x = w \<and> (\<exists>core'. hb_view core' = hb_step_addr (fold rw_effect (pre @ as) (hb_view core))
         \<and> hb_settled core' \<and> hb_linked core' (tl sp) (out @ cmd @ [HEXB_READ, 10]) scr s'))
      (\<lambda>_ _. False) s"
proof (rule wp_read_request [OF assms(1-3)])
  fix s'
  assume l: "hb_linked core (ans_stream pre @ read_reply_bytes (as, w, sp)) (out @ cmd @ [HEXB_READ, 10]) scr s'"
  from white_space [OF assms(8,9)] obtain c cs where sp: "sp = c # cs" "\<not> c_ishex c" "c_isspace c" .
  have inp: "ans_stream pre @ read_reply_bytes (as, w, sp) = ans_stream ((pre @ as) @ [AnsData w]) @ c # cs"
    by (simp add: read_reply_bytes_def ans_stream_def sp)
  from rw_scan_data [OF assms(4-7) sp(2), of 0 w cs] obtain core' where
    scan: "ans_scan readword_char (0, 3) core (ans_stream pre @ read_reply_bytes (as, w, sp))
        = (Inl (RwDone w), core', cs)"
      "hb_view core' = hb_step_addr (fold rw_effect (pre @ as) (hb_view core))" "hb_started c core'"
    by (auto simp: inp)
  from scan(3) sp(3) have "hb_settled core'" by (simp add: hb_started_def hb_settled_def)
  with scan(2) sp show "wp (readword fuel os)
      (\<lambda>x s'. x = w \<and> (\<exists>core'. hb_view core' = hb_step_addr (fold rw_effect (pre @ as) (hb_view core))
         \<and> hb_settled core' \<and> hb_linked core' (tl sp) (out @ cmd @ [HEXB_READ, 10]) scr s'))
      (\<lambda>_ _. False) s'"
    unfolding readword_def
    by (intro wp_mono [OF readword_scan [OF l scan(1)]]) (use assms(10) in auto)
qed

lemma read_one_error:
  assumes "hb_linked core (ans_stream pre) out (error_reply_bytes as sp # scr) s"
    and "take (length cmd) (hb_buf (fst s)) = cmd" "length cmd \<le> 20" "hb_settled core"
    and "list_all ans_wf (pre @ as)" "list_all rw_quiet (pre @ as)"
    and "sum_list (map rw_cost (pre @ as)) < 3" "sp \<noteq> []" "list_all c_isspace sp"
    and "length (ans_stream pre) + length (error_reply_bytes as sp) \<le> fuel"
  shows "wp (thenS (hb_put (length cmd) [HEXB_READ, 10, 0])
              (\<lambda>_. thenS (hb_send os (length cmd + 2)) (\<lambda>_. readword fuel os)))
      (\<lambda>_ _. False)
      (\<lambda>e s'. (\<exists>a. e = BusErr a)
         \<and> hb_ready fd arrived sent script ((fold rw_effect (pre @ as) (hb_view core))\<lparr>hb_bus_err := True\<rparr>)
             (tl sp) (out @ cmd @ [HEXB_READ, 10]) scr s') s"
proof (rule wp_read_request [OF assms(1-3)])
  fix s'
  assume l: "hb_linked core (ans_stream pre @ error_reply_bytes as sp) (out @ cmd @ [HEXB_READ, 10]) scr s'"
  from white_space [OF assms(8,9)] obtain c cs where sp: "sp = c # cs" "\<not> c_ishex c" "c_isspace c" .
  have inp: "ans_stream pre @ error_reply_bytes as sp = ans_stream ((pre @ as) @ [AnsErr]) @ c # cs"
    by (simp add: error_reply_bytes_def ans_stream_def sp)
  from rw_scan_error [OF assms(4-7) sp(2), of 0 cs] obtain core' a where
    scan: "ans_scan readword_char (0, 3) core (ans_stream pre @ error_reply_bytes as sp)
        = (Inl (RwThrow (BusErr a)), core', cs)"
      "hb_view core' = (fold rw_effect (pre @ as) (hb_view core))\<lparr>hb_bus_err := True\<rparr>" "hb_started c core'"
    by (auto simp: inp)
  from scan(3) sp(3) have "hb_settled core'" by (simp add: hb_started_def hb_settled_def)
  with scan(2) sp show "wp (readword fuel os) (\<lambda>_ _. False)
      (\<lambda>e s'. (\<exists>a. e = BusErr a)
         \<and> hb_ready fd arrived sent script ((fold rw_effect (pre @ as) (hb_view core))\<lparr>hb_bus_err := True\<rparr>)
             (tl sp) (out @ cmd @ [HEXB_READ, 10]) scr s') s'"
    unfolding readword_def
    by (intro wp_mono [OF readword_scan [OF l scan(1)]]) (use assms(10) in \<open>auto simp: hb_ready_iff\<close>)
qed

text \<open>A word read from a peer whose answers do not disturb the read.\<close>

lemma read_one_benign:
  assumes "hb_linked core (ans_stream pre) out (read_reply_bytes (as, w, sp) # scr) s"
    and "take (length cmd) (hb_buf (fst s)) = cmd" "length cmd \<le> 20" "hb_settled core"
    and "hb_addr_set core" "hb_lastaddr core = cur" "hb_inc core = inc"
    and "list_all (benign cur inc) (pre @ as)" "sum_list (map rw_cost (pre @ as)) < 3"
    and "sp \<noteq> []" "list_all c_isspace sp"
    and "length (ans_stream pre) + length (read_reply_bytes (as, w, sp)) \<le> fuel"
  shows "wp (thenS (hb_put (length cmd) [HEXB_READ, 10, 0])
              (\<lambda>_. thenS (hb_send os (length cmd + 2)) (\<lambda>_. readword fuel os)))
      (\<lambda>x s'. x = w \<and> (\<exists>core'. hb_view core' = (hb_view core)
              \<lparr>hb_lastaddr := if inc then cur + 4 else cur,
               hb_interrupt_flag := hb_interrupt_flag core \<or> AnsInt \<in> set (pre @ as)\<rparr>
         \<and> hb_settled core' \<and> hb_linked core' (tl sp) (out @ cmd @ [HEXB_READ, 10]) scr s'))
      (\<lambda>_ _. False) s"
proof -
  obtain h c k where s: "s = (h, c, k)" by (cases s)
  have wf: "list_all ans_wf (pre @ as)" "list_all rw_quiet (pre @ as)"
    using assms(8) benign_wf by (auto simp: list_all_iff)
  have eff: "hb_step_addr (fold rw_effect (pre @ as) (hb_view core)) = (hb_view core)
      \<lparr>hb_lastaddr := if inc then cur + 4 else cur,
       hb_interrupt_flag := hb_interrupt_flag core \<or> AnsInt \<in> set (pre @ as)\<rparr>"
    using fold_benign [OF assms(8), of "hb_view core"] assms(5-7)
    by (simp add: hb_view_get hb_step_addr_def)
  show ?thesis unfolding s eff [symmetric]
    by (rule read_one_word [OF assms(1) [unfolded s] assms(2) [unfolded s] assms(3,4) wf assms(9-12)])
qed

lemma readv_loop_ok:
  assumes "hb_linked core (ans_stream pre) out (map read_reply_bytes rs @ scr) s"
    and "take (length cmd) (hb_buf (fst s)) = cmd" "length cmd \<le> 20" "hb_settled core"
    and "hb_addr_set core" "hb_lastaddr core = cur" "hb_inc core = inc"
    and "list_all (benign cur inc) pre" "rs = [] \<longrightarrow> cmd = []"
    and "read_replies cur inc rs"
    and "case rs of [] \<Rightarrow> True | (as, w, sp) # _ \<Rightarrow> sum_list (map rw_cost (pre @ as)) < 3"
    and "length (ans_stream pre) + length (concat (map read_reply_bytes rs)) \<le> fuel"
  shows "wp (readv_loop (length rs) fuel os a inc n (length cmd))
      (\<lambda>ws s'. ws = map (\<lambda>(as, w, sp). w) rs \<and> (\<exists>core'. hb_view core' = (hb_view core)
              \<lparr>hb_lastaddr := if inc then cur + 4 * of_nat (length rs) else cur,
               hb_interrupt_flag := hb_interrupt_flag core \<or> rs \<noteq> [] \<and> AnsInt \<in> set pre \<or> interrupts_in rs\<rparr>
         \<and> hb_settled core'
         \<and> hb_linked core' (case rs of [] \<Rightarrow> ans_stream pre | _ # _ \<Rightarrow> tl (snd (snd (last rs))))
             (out @ cmd @ concat (replicate (length rs) [HEXB_READ, 10])) scr s'))
      (\<lambda>_ _. False) s"
  using assms
proof (induction rs arbitrary: core pre out s cmd cur n)
  case Nil
  then have "hb_view core = (hb_view core)\<lparr>hb_lastaddr := cur, hb_interrupt_flag := hb_interrupt_flag core\<rparr>"
    by (simp add: hb_view_def hb_core_def)
  with Nil show ?case by (auto simp: wp_simps interrupts_in_def intro!: exI [of _ core])
next
  case (Cons r rs)
  obtain as w sp where r: "r = (as, w, sp)" by (cases r)
  let ?cur = "if inc then cur + 4 else cur"
  let ?pre = "map AnsSpace (tl sp)"
  from Cons.prems(10) have rr: "list_all (benign cur inc) as" "sp \<noteq> []" "list_all c_isspace sp"
    "read_replies ?cur inc rs" by (auto simp: r)
  have sp: "list_all c_isspace (tl sp)" using rr(2,3) by (cases sp) auto
  have one: "wp (thenS (hb_put (length cmd) [HEXB_READ, 10, 0])
              (\<lambda>_. thenS (hb_send os (length cmd + 2)) (\<lambda>_. readword fuel os)))
      (\<lambda>x s'. x = w \<and> (\<exists>core'. hb_view core' = (hb_view core)
              \<lparr>hb_lastaddr := ?cur,
               hb_interrupt_flag := hb_interrupt_flag core \<or> AnsInt \<in> set (pre @ as)\<rparr>
         \<and> hb_settled core' \<and> hb_linked core' (tl sp) (out @ cmd @ [HEXB_READ, 10])
             (map read_reply_bytes rs @ scr) s'))
      (\<lambda>_ _. False) s"
    by (rule read_one_benign [OF _ Cons.prems(2-7)]) (use Cons.prems rr in \<open>simp_all add: r\<close>)
  show ?case
    unfolding r length_Cons readv_loop.simps
  proof (rule wp_seq, rule wp_catch_none [OF one], elim conjE exE, goal_cases)
    case (1 x s' core')
    note word = 1(1) and view = 1(2)
    have core': "hb_addr_set core'" "hb_lastaddr core' = ?cur" "hb_inc core' = inc"
      "hb_interrupt_flag core' = (hb_interrupt_flag core \<or> AnsInt \<in> set (pre @ as))"
      using Cons.prems(5,7) arg_cong [OF 1(2), of hb_addr_set] arg_cong [OF 1(2), of hb_lastaddr]
        arg_cong [OF 1(2), of hb_inc] arg_cong [OF 1(2), of hb_interrupt_flag]
      by (simp_all add: hb_view_get)
    have ih: "wp (readv_loop (length rs) fuel os a inc (n + 1) 0)
      (\<lambda>ws s'. ws = map (\<lambda>(as, w, sp). w) rs \<and> (\<exists>core2. hb_view core2 = (hb_view core')
              \<lparr>hb_lastaddr := if inc then ?cur + 4 * of_nat (length rs) else ?cur,
               hb_interrupt_flag := hb_interrupt_flag core' \<or> rs \<noteq> [] \<and> AnsInt \<in> set ?pre \<or> interrupts_in rs\<rparr>
         \<and> hb_settled core2
         \<and> hb_linked core2 (case rs of [] \<Rightarrow> ans_stream ?pre | _ # _ \<Rightarrow> tl (snd (snd (last rs))))
             ((out @ cmd @ [HEXB_READ, 10]) @ [] @ concat (replicate (length rs) [HEXB_READ, 10])) scr s'))
      (\<lambda>_ _. False) s'"
    proof (rule Cons.IH [where cmd = "[]", unfolded list.size, OF _ _ _ 1(3) core'(1-3)])
      show "hb_linked core' (ans_stream ?pre) (out @ cmd @ [HEXB_READ, 10])
          (map read_reply_bytes rs @ scr) s'" using 1(4) by (simp add: ans_stream_spaces)
      show "list_all (benign ?cur inc) ?pre" using sp by (rule benign_spaces)
      show "read_replies ?cur inc rs" by (rule rr(4))
      show "case rs of [] \<Rightarrow> True | (as, w, sp) # _ \<Rightarrow> sum_list (map rw_cost (?pre @ as)) < 3"
      proof (cases rs)
        case (Cons r' rs')
        then show ?thesis using rr(4) by (cases r') (simp add: cost_spaces del: map_map)
      qed simp
      show "length (ans_stream ?pre) + length (concat (map read_reply_bytes rs)) \<le> fuel"
        using Cons.prems(12) by (simp add: r ans_stream_spaces read_reply_bytes_def [of "(as, w, sp)"])
    qed simp_all
    show ?case
    proof (rule wp_seq [OF ih], unfold wp_retS, elim conjE exE, goal_cases)
      case (1 ws t core2)
      note c = 1
      show ?case
      proof (intro conjI exI [of _ core2], goal_cases)
        case 1
        show ?case using c(1) by (simp add: word)
      next
        case 2
        have "AnsInt \<notin> set ?pre" by auto
        with c(2) view show ?case
          using core'(4) by (auto simp: interrupts_in_def algebra_simps)
      next
        case 4
        show ?case using c(4) by (cases rs) (simp_all add: ans_stream_spaces)
      qed (rule c(3))
    qed
  qed
qed

lemma wp_encode_address:
  assumes "hb_linked core inp out scr s"
    and "\<And>s'. hb_linked core inp out scr s' \<Longrightarrow>
           take (length (address_cmd core a)) (hb_buf (fst s')) = address_cmd core a \<Longrightarrow>
           Q (length (address_cmd core a)) s'"
  shows "wp (encode_address a) Q E s"
proof -
  obtain h c k where s: "s = (h, c, k)" by (cases s)
  with assms(1) have h: "hb_core h = core" by (simp add: hb_linked_def)
  have already: "(hb_addr_set h \<and> a = hb_lastaddr h
      \<and> (if hb_inc h then 1 else 0) = (a AND 1) XOR 1) \<longleftrightarrow> address_cmd core a = []"
    by (auto simp: address_cmd_def low_bit_flipped simp flip: h)
  show ?thesis
  proof (cases "address_cmd core a = []")
    case True
    then show ?thesis using assms(2) [OF assms(1)]
      by (simp add: s encode_address_def hb_get_def wp_simps already)
  next
    case False
    then have cmd: "address_cmd core a = HEXB_ADDR # fmt_08x a" by (simp add: address_cmd_def split: if_splits)
    have "wp (thenS (hb_put 0 [HEXB_ADDR]) (\<lambda>_. thenS (hb_put 1 (fmt_08x a @ [0])) (\<lambda>_. retS 9))) Q E s"
      unfolding wp_thenS s
    proof (rule wp_hb_put [OF assms(1) [unfolded s]], simp, rule wp_hb_put, assumption, simp, unfold wp_retS)
      fix h1 h2
      assume 1: "hb_buf h1 = take 0 (hb_buf h) @ [HEXB_ADDR] @ drop (0 + length [HEXB_ADDR]) (hb_buf h)"
        and 2: "hb_linked core inp out scr (h2, c, k)"
          "hb_buf h2 = take 1 (hb_buf h1) @ (fmt_08x a @ [0]) @ drop (1 + length (fmt_08x a @ [0])) (hb_buf h1)"
      show "Q 9 (h2, c, k)" using assms(2) [OF 2(1)] 1 2(2) by (simp add: cmd)
    qed
    then show ?thesis using False
      by (simp add: s encode_address_def hb_get_def wp_thenS wp_getS already)
  qed
qed

text \<open>\<open>readv\<close> up to its loop: the address command is in the buffer, the object expects \<open>a\<close>.\<close>

lemma wp_readv_start:
  assumes "hb_ready fd arrived sent script v inp out scr s" "0 < len"
    and "\<And>core s'. hb_linked core inp out scr s' \<Longrightarrow>
           hb_view core = v\<lparr>hb_lastaddr := a, hb_addr_set := True, hb_inc := inc\<rparr> \<Longrightarrow> hb_settled core \<Longrightarrow>
           take (length cmd) (hb_buf (fst s')) = cmd \<Longrightarrow> length cmd \<le> 20 \<Longrightarrow>
           wp (thenS (readv_loop (nat len) fuel os a inc 0 (length cmd)) (\<lambda>ws.
                thenS (hb_get hb_lastaddr) (\<lambda>lastaddr.
                  if lastaddr \<noteq> a + (if inc then push_bit 2 (word_of_int len) else 0) then
                    (if lastaddr = (if a + (if inc then 1 else 0) \<noteq> 0 then push_bit 2 (word_of_int len) else 0)
                     then throwS (ExitWith 1) else throwS AssertFail)
                  else retS ws))) Q E s'"
    and cmd: "cmd = address_cmd v (a OR (if inc then 0 else 1))"
  shows "wp (hexbus_readv fuel os a inc len) Q E s"
proof -
  from assms(1) obtain core where core: "hb_linked core inp out scr s" "hb_view core = v" "hb_settled core"
    by (auto simp: hb_ready_iff)
  have cmd': "cmd = address_cmd core (a OR (if inc then 0 else 1))"
    by (simp add: address_cmd_def hb_view_get cmd flip: core(2))
  have len: "\<not> len \<le> 0" using assms(2) by simp
  let ?core = "core\<lparr>hb_lastaddr := a, hb_addr_set := True, hb_inc := inc\<rparr>"
  have 1: "length cmd \<le> 20" unfolding cmd by (rule le_trans [OF length_address_cmd]) simp
  have 2: "hb_settled ?core" "hb_view ?core = v\<lparr>hb_lastaddr := a, hb_addr_set := True, hb_inc := inc\<rparr>"
    using core(2,3) by (simp_all add: hb_settled_def hb_view_simps)
  show ?thesis
    unfolding hexbus_readv_def if_not_P [OF len] Let_def
  proof (rule wp_seq, rule wp_encode_address [OF core(1), where Q = "\<lambda>ptr s'. ptr = length cmd
      \<and> hb_linked core inp out scr s' \<and> take (length cmd) (hb_buf (fst s')) = cmd"],
      simp add: cmd', elim conjE)
    fix ptr s'
    assume s': "ptr = length cmd" "hb_linked core inp out scr s'" "take (length cmd) (hb_buf (fst s')) = cmd"
    obtain h c k where hck: "s' = (h, c, k)" by (cases s')
    let ?s = "(h\<lparr>hb_lastaddr := a, hb_addr_set := True, hb_inc := inc\<rparr>, c, k)"
    have "hb_linked ?core inp out scr ?s" "take (length cmd) (hb_buf (fst ?s)) = cmd"
      using s' by (auto simp: hck hb_linked_def hb_core_update)
    from assms(3) [OF this(1) 2(2,1) this(2) 1]
    show "wp (thenS (hb_mod (\<lambda>h. h\<lparr>hb_lastaddr := a, hb_addr_set := True, hb_inc := inc\<rparr>)) (\<lambda>_.
        thenS (readv_loop (nat len) fuel os a inc 0 ptr) (\<lambda>ws.
        thenS (hb_get hb_lastaddr) (\<lambda>lastaddr.
          if lastaddr \<noteq> a + (if inc then push_bit 2 (word_of_int len) else 0) then
            (if lastaddr = (if a + (if inc then 1 else 0) \<noteq> 0 then push_bit 2 (word_of_int len) else 0)
             then throwS (ExitWith 1) else throwS AssertFail)
          else retS ws)))) Q E s'"
      unfolding hck s'(1) by (subst wp_thenS, subst wp_hb_mod)
  qed
qed

lemma readv_returns:
  assumes "hb_ready fd arrived sent script v (ans_stream pre) out (map read_reply_bytes rs @ scr) s"
    and "rs \<noteq> []" "list_all (benign a inc) pre" "read_replies a inc rs"
    and "sum_list (map rw_cost (pre @ fst (hd rs))) < 3"
    and "length (ans_stream pre) + length (concat (map read_reply_bytes rs)) \<le> fuel"
  shows "wp (hexbus_readv fuel os a inc (int (length rs)))
      (\<lambda>ws s'. ws = map (\<lambda>(as, w, sp). w) rs \<and> hb_ready fd arrived sent script
         (v\<lparr>hb_lastaddr := if inc then a + 4 * of_nat (length rs) else a,
            hb_addr_set := True, hb_inc := inc,
            hb_interrupt_flag := hb_interrupt_flag v \<or> AnsInt \<in> set pre \<or> interrupts_in rs\<rparr>)
         (tl (snd (snd (last rs))))
         (out @ address_cmd v (a OR (if inc then 0 else 1))
            @ concat (replicate (length rs) [HEXB_READ, 10])) scr s')
      (\<lambda>_ _. False) s"
proof (rule wp_readv_start [OF assms(1)], use assms(2) in simp)
  fix core s'
  let ?cmd = "address_cmd v (a OR (if inc then 0 else 1))"
  assume 1: "hb_linked core (ans_stream pre) out (map read_reply_bytes rs @ scr) s'"
    and start: "hb_view core = v\<lparr>hb_lastaddr := a, hb_addr_set := True, hb_inc := inc\<rparr>" "hb_settled core"
    and 3: "take (length ?cmd) (hb_buf (fst s')) = ?cmd" "length ?cmd \<le> 20"
  have core: "hb_addr_set core" "hb_lastaddr core = a" "hb_inc core = inc"
    "hb_interrupt_flag core = hb_interrupt_flag v"
    using arg_cong [OF start(1), of hb_addr_set] arg_cong [OF start(1), of hb_lastaddr]
      arg_cong [OF start(1), of hb_inc] arg_cong [OF start(1), of hb_interrupt_flag]
    by (simp_all add: hb_view_get)
  have hd: "case rs of [] \<Rightarrow> True | (as, w, sp) # _ \<Rightarrow> sum_list (map rw_cost (pre @ as)) < 3"
    using assms(5) by (cases rs) auto
  have len: "nat (int (length rs)) = length rs"
    "push_bit 2 (word_of_int (int (length rs)) :: u32) = 4 * of_nat (length rs)"
    by (simp_all add: push_bit_eq_mult)
  note loop = readv_loop_ok [OF 1 3 start(2) core(1-3) assms(3) _ assms(4) hd assms(6), of a 0]
  show "wp (thenS (readv_loop (nat (int (length rs))) fuel os a inc 0 (length ?cmd)) (\<lambda>ws.
      thenS (hb_get hb_lastaddr) (\<lambda>lastaddr.
        if lastaddr \<noteq> a + (if inc then push_bit 2 (word_of_int (int (length rs))) else 0) then
          (if lastaddr = (if a + (if inc then 1 else 0) \<noteq> 0 then push_bit 2 (word_of_int (int (length rs))) else 0)
           then throwS (ExitWith 1) else throwS AssertFail)
        else retS ws)))
      (\<lambda>ws s'. ws = map (\<lambda>(as, w, sp). w) rs \<and> hb_ready fd arrived sent script
         (v\<lparr>hb_lastaddr := if inc then a + 4 * of_nat (length rs) else a,
            hb_addr_set := True, hb_inc := inc,
            hb_interrupt_flag := hb_interrupt_flag v \<or> AnsInt \<in> set pre \<or> interrupts_in rs\<rparr>)
         (tl (snd (snd (last rs))))
         (out @ ?cmd @ concat (replicate (length rs) [HEXB_READ, 10])) scr s')
      (\<lambda>_ _. False) s'"
    unfolding len
  proof (rule wp_seq [OF loop], goal_cases)
    case (2 ws t)
    then obtain core2 where c2: "ws = map (\<lambda>(as, w, sp). w) rs" "hb_view core2 = (hb_view core)
              \<lparr>hb_lastaddr := if inc then a + 4 * of_nat (length rs) else a,
               hb_interrupt_flag := hb_interrupt_flag core \<or> rs \<noteq> [] \<and> AnsInt \<in> set pre \<or> interrupts_in rs\<rparr>"
      "hb_settled core2" "hb_linked core2 (tl (snd (snd (last rs))))
         (out @ ?cmd @ concat (replicate (length rs) [HEXB_READ, 10])) scr t"
      using assms(2) by (auto split: list.splits)
    have view: "hb_view core2 = v\<lparr>hb_lastaddr := if inc then a + 4 * of_nat (length rs) else a,
        hb_addr_set := True, hb_inc := inc,
        hb_interrupt_flag := hb_interrupt_flag v \<or> AnsInt \<in> set pre \<or> interrupts_in rs\<rparr>"
      using c2(2) assms(2) start(1) core(4) by simp
    obtain h2 c2 k2 where t: "t = (h2, c2, k2)" by (cases t)
    have "hb_lastaddr h2 = hb_lastaddr core2"
      using c2(4) by (auto simp: hb_linked_def t)
    also have "\<dots> = (if inc then a + 4 * of_nat (length rs) else a)"
      using arg_cong [OF view, of hb_lastaddr] by (simp add: hb_view_get)
    finally have la: "hb_lastaddr h2 = \<dots>" .
    have "hb_ready fd arrived sent script (hb_view core2) (tl (snd (snd (last rs))))
        (out @ ?cmd @ concat (replicate (length rs) [HEXB_READ, 10])) scr t"
      using c2 by (auto simp: hb_ready_iff)
    then show ?case using c2(1) view
      by (cases inc) (simp_all add: t wp_simps la)
  qed (use assms(2) in simp_all)
qed (rule refl)

text \<open>Reading \<open>n + m\<close> words is reading \<open>n\<close> and then \<open>m\<close>.\<close>

lemma readv_loop_split:
  "readv_loop (n + m) fuel os a inc k ptr =
     thenS (readv_loop n fuel os a inc k ptr) (\<lambda>ws.
       thenS (readv_loop m fuel os a inc (k + of_nat n) (if n = 0 then ptr else 0)) (\<lambda>ws'. retS (ws @ ws')))"
proof (induction n arbitrary: k ptr)
  case 0
  have "thenS p (\<lambda>ws. retS ws) = p" for p :: "('k hbw, u32 list) prog"
    by (rule ext) (auto simp: thenS_def retS_def split: sum.splits)
  then show ?case by simp
next
  case (Suc n)
  show ?case
    by (simp add: Suc.IH thenS_assoc add.assoc)
qed

lemma readv_loop_error:
  assumes "hb_linked core (ans_stream pre) out (error_reply_bytes as sp # scr) s"
    and "take (length cmd) (hb_buf (fst s)) = cmd" "length cmd \<le> 20" "hb_settled core"
    and "hb_addr_set core" "hb_lastaddr core = cur" "hb_inc core = inc"
    and "list_all (benign cur inc) (pre @ as)" "sum_list (map rw_cost (pre @ as)) < 3"
    and "sp \<noteq> []" "list_all c_isspace sp"
    and "length (ans_stream pre) + length (error_reply_bytes as sp) \<le> fuel" "0 < m"
  shows "wp (readv_loop m fuel os a inc n (length cmd)) (\<lambda>_ _. False)
      (\<lambda>e s'. e = BusErr (a + (if inc then push_bit 2 n else 0))
         \<and> hb_ready fd arrived sent script ((hb_view core)
              \<lparr>hb_interrupt_flag := hb_interrupt_flag core \<or> AnsInt \<in> set (pre @ as), hb_bus_err := True\<rparr>)
             (tl sp) (out @ cmd @ [HEXB_READ, 10]) scr s') s"
proof -
  obtain m' where m: "m = Suc m'" using assms(13) by (cases m) auto
  have wf: "list_all ans_wf (pre @ as)" "list_all rw_quiet (pre @ as)"
    using assms(8) benign_wf by (auto simp: list_all_iff)
  have eff: "fold rw_effect (pre @ as) (hb_view core) = (hb_view core)
      \<lparr>hb_interrupt_flag := hb_interrupt_flag core \<or> AnsInt \<in> set (pre @ as)\<rparr>"
    using fold_benign [OF assms(8), of "hb_view core"] assms(5-7) by (simp add: hb_view_get)
  show ?thesis unfolding m readv_loop.simps
  proof (rule wp_seq, rule wp_catch, rule read_one_error [OF assms(1-4) wf assms(9-12), unfolded eff], goal_cases)
    case (1 e t)
    then show ?case by (auto simp: readv_handler_def wp_simps)
  qed simp
qed

text \<open>The read of a word that the bus does not answer is reported at that word's address.\<close>

lemma readv_reports_error:
  assumes "hb_ready fd arrived sent script v (ans_stream pre) out
             (map read_reply_bytes rs @ error_reply_bytes as sp # scr) s"
    and "int (length rs) < len" "list_all (benign a inc) pre" "read_replies a inc rs"
    and "sum_list (map rw_cost (pre @ (case rs of [] \<Rightarrow> as | r # _ \<Rightarrow> fst r))) < 3"
    and err: "list_all (benign (if inc then a + 4 * of_nat (length rs) else a) inc) as"
      "sum_list (map rw_cost as) < 3" "sp \<noteq> []" "list_all c_isspace sp"
    and "length (ans_stream pre) + length (concat (map read_reply_bytes rs))
         + length (error_reply_bytes as sp) \<le> fuel"
  shows "wp (hexbus_readv fuel os a inc len) (\<lambda>_ _. False)
      (\<lambda>e s'. e = BusErr (a + (if inc then push_bit 2 (of_nat (length rs)) else 0))
         \<and> hb_ready fd arrived sent script
         (v\<lparr>hb_lastaddr := if inc then a + 4 * of_nat (length rs) else a,
            hb_addr_set := True, hb_inc := inc,
            hb_interrupt_flag := hb_interrupt_flag v \<or> AnsInt \<in> set pre \<or> interrupts_in rs \<or> AnsInt \<in> set as,
            hb_bus_err := True\<rparr>)
         (tl sp) (out @ address_cmd v (a OR (if inc then 0 else 1))
            @ concat (replicate (length rs + 1) [HEXB_READ, 10])) scr s') s"
proof (rule wp_readv_start [OF assms(1)], use assms(2) in simp)
  fix core s'
  let ?cmd = "address_cmd v (a OR (if inc then 0 else 1))"
  assume 1: "hb_linked core (ans_stream pre) out (map read_reply_bytes rs @ error_reply_bytes as sp # scr) s'"
    and start: "hb_view core = v\<lparr>hb_lastaddr := a, hb_addr_set := True, hb_inc := inc\<rparr>" "hb_settled core"
    and 3: "take (length ?cmd) (hb_buf (fst s')) = ?cmd" "length ?cmd \<le> 20"
  have core: "hb_addr_set core" "hb_lastaddr core = a" "hb_inc core = inc"
    "hb_interrupt_flag core = hb_interrupt_flag v"
    using arg_cong [OF start(1), of hb_addr_set] arg_cong [OF start(1), of hb_lastaddr]
      arg_cong [OF start(1), of hb_inc] arg_cong [OF start(1), of hb_interrupt_flag]
    by (simp_all add: hb_view_get)
  obtain m where m: "nat len = length rs + m" "0 < m"
    using assms(2) by (metis less_imp_add_positive zless_nat_eq_int_zless)
  let ?E = "\<lambda>e s'. e = BusErr (a + (if inc then push_bit 2 (of_nat (length rs)) else 0))
         \<and> hb_ready fd arrived sent script
         (v\<lparr>hb_lastaddr := if inc then a + 4 * of_nat (length rs) else a,
            hb_addr_set := True, hb_inc := inc,
            hb_interrupt_flag := hb_interrupt_flag v \<or> AnsInt \<in> set pre \<or> interrupts_in rs \<or> AnsInt \<in> set as,
            hb_bus_err := True\<rparr>)
         (tl sp) (out @ ?cmd @ concat (replicate (length rs + 1) [HEXB_READ, 10])) scr s'"
  have loop: "wp (readv_loop (nat len) fuel os a inc 0 (length ?cmd)) (\<lambda>_ _. False) ?E s'"
  proof (cases "rs = []")
    case True
    have "list_all (benign a inc) (pre @ as)" "sum_list (map rw_cost (pre @ as)) < 3"
      using assms(3,5) err(1) [unfolded True] True by (simp_all cong: if_cong)
    from readv_loop_error [OF 1 [unfolded True, simplified] 3 start(2) core(1-3) this err(3,4) _, of fuel m a 0]
    show ?thesis using assms(10) m core(4) start(1)
      by (cases inc) (simp_all add: True interrupts_in_def)
  next
    case False
    have hd: "case rs of [] \<Rightarrow> True | (as, w, sp) # _ \<Rightarrow> sum_list (map rw_cost (pre @ as)) < 3"
      using assms(5) by (cases rs) auto
    have fuel: "length (ans_stream pre) + length (concat (map read_reply_bytes rs)) \<le> fuel"
      "length (error_reply_bytes as sp) \<le> fuel" using assms(10) by simp_all
    note words = readv_loop_ok [OF 1 3 start(2) core(1-3) assms(3) _ assms(4) hd fuel(1), of a 0]
    show ?thesis unfolding m(1) readv_loop_split
    proof (rule wp_seq [OF wp_mono [OF words]], use False in simp, assumption, simp, elim conjE exE, goal_cases)
      case (1 ws t core2)
      let ?cur = "if inc then a + 4 * of_nat (length rs) else a"
      let ?sp = "tl (snd (snd (last rs)))"
      have sp: "list_all c_isspace ?sp" by (rule read_replies_spaces [OF assms(4) False])
      have l: "hb_linked core2 (ans_stream (map AnsSpace ?sp))
          (out @ ?cmd @ concat (replicate (length rs) [HEXB_READ, 10])) (error_reply_bytes as sp # scr) t"
        using 1(4) by (simp add: ans_stream_spaces case_nonempty [OF False])
      have core2: "hb_addr_set core2" "hb_lastaddr core2 = ?cur" "hb_inc core2 = inc"
        "hb_interrupt_flag core2 = (hb_interrupt_flag v \<or> AnsInt \<in> set pre \<or> interrupts_in rs)"
        using arg_cong [OF 1(2), of hb_addr_set] arg_cong [OF 1(2), of hb_lastaddr] core False
          arg_cong [OF 1(2), of hb_inc] arg_cong [OF 1(2), of hb_interrupt_flag]
        by (simp_all add: hb_view_get)
      have ben: "list_all (benign ?cur inc) (map AnsSpace ?sp @ as)"
        "sum_list (map rw_cost (map AnsSpace ?sp @ as)) < 3"
        using benign_spaces [OF sp] err by (simp_all add: cost_spaces del: map_map)
      have here: "wp (readv_loop m fuel os a inc (0 + of_nat (length rs)) (length ([] :: u8 list)))
          (\<lambda>_ _. False) (\<lambda>e s'. e = BusErr (a + (if inc then push_bit 2 (0 + of_nat (length rs)) else 0))
         \<and> hb_ready fd arrived sent script ((hb_view core2)
              \<lparr>hb_interrupt_flag := hb_interrupt_flag core2 \<or> AnsInt \<in> set (map AnsSpace ?sp @ as),
               hb_bus_err := True\<rparr>)
             (tl sp) ((out @ ?cmd @ concat (replicate (length rs) [HEXB_READ, 10])) @ [] @ [HEXB_READ, 10])
             scr s') t"
        by (rule readv_loop_error [OF l _ _ 1(3) core2(1-3) ben err(3,4) _ m(2)])
          (use fuel(2) assms(10) last_reply_length [OF False] in \<open>simp_all add: ans_stream_spaces\<close>)
      have view: "(hb_view core2)
          \<lparr>hb_interrupt_flag := hb_interrupt_flag core2 \<or> AnsInt \<in> set (map AnsSpace ?sp @ as), hb_bus_err := True\<rparr>
        = v\<lparr>hb_lastaddr := if inc then a + 4 * of_nat (length rs) else a,
            hb_addr_set := True, hb_inc := inc,
            hb_interrupt_flag := hb_interrupt_flag v \<or> AnsInt \<in> set pre \<or> interrupts_in rs \<or> AnsInt \<in> set as,
            hb_bus_err := True\<rparr>"
        using 1(2) start(1) core2(4) core(4) by (auto simp: image_iff)
      have out: "(out @ ?cmd @ concat (replicate (length rs) [HEXB_READ, 10])) @ [] @ [HEXB_READ, 10]
          = out @ ?cmd @ concat (replicate (length rs + 1) [HEXB_READ, 10])"
        by (simp only: append_assoc append_Nil concat_replicate_snoc)
      have "wp (readv_loop m fuel os a inc (0 + of_nat (length rs)) 0) (\<lambda>_ _. False) ?E t"
        using here unfolding view out add_0 list.size .
      then show ?case
        unfolding if_not_P [OF False[folded length_0_conv]] by (rule wp_seq) simp
    qed
  qed
  show "wp (thenS (readv_loop (nat len) fuel os a inc 0 (length ?cmd)) (\<lambda>ws.
      thenS (hb_get hb_lastaddr) (\<lambda>lastaddr.
        if lastaddr \<noteq> a + (if inc then push_bit 2 (word_of_int len) else 0) then
          (if lastaddr = (if a + (if inc then 1 else 0) \<noteq> 0 then push_bit 2 (word_of_int len) else 0)
           then throwS (ExitWith 1) else throwS AssertFail)
        else retS ws))) (\<lambda>_ _. False) ?E s'"
    by (rule wp_seq [OF wp_mono [OF loop]]) simp_all
qed (rule refl)

end

end
