(* ===== verification/HexWrite.thy ===== *)
theory HexWrite
  imports HexLink
begin

text \<open>
  Writes over the debugging bus: \<open>HEXBUS::writev\<close> on a link. The writes are pipelined one deep,
  so a reply may still be unread when the next command goes out; the call ends only when every
  write has been acknowledged.
\<close>

subsection \<open>Commands and replies\<close>

definition write_cmd :: "u32 \<Rightarrow> u8 list" where
  "write_cmd v = 0x57 # (if v \<noteq> 0 then fmt_x v @ [10] else [10])"

fun is_ack :: "hb_answer \<Rightarrow> bool" where
  "is_ack (AnsAck w) \<longleftrightarrow> True"
| "is_ack _ \<longleftrightarrow> False"

definition acks :: "hb_answer list \<Rightarrow> nat" where
  "acks as = length (filter is_ack as)"

text \<open>What the peer answers to one write: no error, one acknowledgement, and white space last.\<close>

definition write_reply :: "hb_answer list \<Rightarrow> bool" where
  "write_reply as \<longleftrightarrow> list_all ans_wf as \<and> list_all ri_quiet as \<and> acks as = 1
     \<and> (\<exists>c. as \<noteq> [] \<and> last as = AnsSpace c)"

text \<open>What may be waiting before the first write: anything but errors and acknowledgements.\<close>

definition left_over :: "hb_answer list \<Rightarrow> bool" where
  "left_over q \<longleftrightarrow> list_all ans_wf q \<and> list_all ri_quiet q \<and> acks q = 0"

lemma left_over_Nil [simp]: "left_over []"
  by (simp add: left_over_def acks_def)

lemma acks_append [simp]: "acks (as @ bs) = acks as + acks bs"
  by (simp add: acks_def)

lemma acks_concat: "list_all write_reply rs \<Longrightarrow> acks (concat rs) = length rs"
  by (induction rs) (auto simp: write_reply_def acks_def)

lemma nacks_fold: "hb_nacks (fold ri_effect as v) = hb_nacks v + of_nat (acks as)"
proof (induction as arbitrary: v)
  case (Cons a as)
  then show ?case
    by (cases a) (simp_all add: acks_def hb_ack_def hb_step_addr_def hb_addr_answer_def)
qed (simp add: acks_def)

lemma replies_wf:
  "list_all write_reply rs \<Longrightarrow> list_all ans_wf (concat rs) \<and> list_all ri_quiet (concat rs)"
  by (induction rs) (auto simp: write_reply_def)

lemma replies_last:
  "list_all write_reply rs \<Longrightarrow> rs \<noteq> [] \<Longrightarrow> \<exists>c. concat rs \<noteq> [] \<and> last (concat rs) = AnsSpace c"
proof (induction rs)
  case (Cons r rs)
  then show ?case by (cases "rs = []") (auto simp: write_reply_def)
qed simp

lemma ri_scan_replies:
  assumes "hb_settled h" "left_over q" "list_all write_reply rs" "rs \<noteq> []"
  shows "\<exists>w' h'. ans_scan readidle_char x h (ans_stream (q @ concat rs)) = (Inr w', h', [])
    \<and> hb_view h' = fold ri_effect (q @ concat rs) (hb_view h) \<and> hb_settled h'"
proof -
  let ?as = "q @ concat rs"
  from replies_last [OF assms(3,4)] obtain c where "?as \<noteq> []" "last ?as = AnsSpace c" by auto
  then have split: "?as = butlast ?as @ [AnsSpace c]"
    by (metis append_butlast_last_id)
  have "list_all ans_wf (butlast ?as @ [AnsSpace c])" "list_all ri_quiet (butlast ?as @ [AnsSpace c])"
    using replies_wf [OF assms(3)] assms(2) by (simp_all add: left_over_def flip: split)
  then have wf: "list_all ans_wf (butlast ?as)" "list_all ri_quiet (butlast ?as)" "c_isspace c"
    by simp_all
  have "fold ri_effect ?as v = fold ri_effect (butlast ?as) v" for v
    by (subst split) simp
  moreover have "ans_stream ?as = ans_stream (butlast ?as) @ [c]"
    by (subst split) (simp add: ans_stream_def ans_encode_def ans_digits_def)
  ultimately show ?thesis
    using ri_scan_settles [OF assms(1) wf, of x] by (auto simp: hb_settled_def)
qed

context scripted_link
begin

text \<open>The replies that have been asked for and not yet read: from \<open>(core, q, pend)\<close> the call has
  come to \<open>(core', q', pend')\<close> by reading some of them.\<close>

definition caught_up :: "hexbus \<Rightarrow> hb_answer list \<Rightarrow> hb_answer list list \<Rightarrow> hexbus
    \<Rightarrow> hb_answer list \<Rightarrow> hb_answer list list \<Rightarrow> bool" where
  "caught_up core q pend core' q' pend' \<longleftrightarrow>
     hb_settled core' \<and> left_over q' \<and> list_all write_reply pend'
     \<and> fold ri_effect (q' @ concat pend') (hb_view core') = fold ri_effect (q @ concat pend) (hb_view core)
     \<and> length (ans_stream (q' @ concat pend')) \<le> length (ans_stream (q @ concat pend))
     \<and> unat (hb_nacks core') + length pend' = unat (hb_nacks core) + length pend
     \<and> (0 < unat (hb_nacks core') \<longrightarrow> q' = [])"

lemma readidle_replies:
  assumes "hb_linked core (ans_stream (q @ concat pend)) out scr s" "hb_settled core" "left_over q"
    "list_all write_reply pend" "pend \<noteq> []" "length (ans_stream (q @ concat pend)) < fuel"
  shows "wp (readidle fuel os)
      (\<lambda>_ s'. \<exists>core'. hb_view core' = fold ri_effect (q @ concat pend) (hb_view core) \<and> hb_settled core'
         \<and> hb_linked core' [] out scr s') (\<lambda>_ _. False) s"
proof -
  from ri_scan_replies [OF assms(2-5), of 0] obtain w core' where
    1: "ans_scan readidle_char 0 core (ans_stream (q @ concat pend)) = (Inr w, core', [])"
      "hb_view core' = fold ri_effect (q @ concat pend) (hb_view core)" "hb_settled core'" by blast
  show ?thesis unfolding readidle_def
    by (rule wp_mono [OF readidle_scan [OF assms(1) 1(1) assms(6)]]) (use 1(2,3) in auto)
qed

text \<open>Waiting for \<open>n\<close> acknowledgements, where the unread replies hold at least that many.\<close>

lemma await_replies:
  assumes "hb_linked core (ans_stream (q @ concat pend)) out scr s" "hb_settled core" "left_over q"
    "list_all write_reply pend" "length (ans_stream (q @ concat pend)) + 2 < fuel"
    and "unat (hb_nacks core) + length pend < 2 ^ 32" "unat n \<le> unat (hb_nacks core) + length pend"
    and "0 < unat (hb_nacks core) \<longrightarrow> q = []"
  shows "wp (await_acks fuel os n)
      (\<lambda>_ s'. \<exists>core' q' pend'. caught_up core q pend core' q' pend' \<and> unat n \<le> unat (hb_nacks core')
         \<and> hb_linked core' (ans_stream (q' @ concat pend')) out scr s') (\<lambda>_ _. False) s"
proof -
  define f where "f = fuel - 2"
  have f: "fuel = Suc (Suc f)" "length (ans_stream (q @ concat pend)) < Suc f"
    using assms(5) unfolding f_def by arith+
  obtain h c k where s: "s = (h, c, k)" by (cases s)
  have nacks: "hb_nacks h = hb_nacks core" using assms(1) by (auto simp: s hb_linked_def)
  show ?thesis
  proof (cases "hb_nacks core < n")
    case False
    then have "unat n \<le> unat (hb_nacks core)" by (simp add: word_less_nat_alt)
    moreover have "caught_up core q pend core q pend" using assms by (simp add: caught_up_def)
    ultimately show ?thesis using False assms(1)
      unfolding f await_acks.simps s wp_thenS wp_hb_get nacks if_not_P [OF False] wp_retS by blast
  next
    case True
    then have "pend \<noteq> []" using assms(7) by (auto simp: word_less_nat_alt)
    note idle = readidle_replies [OF assms(1-4) this f(2)]
    have "wp (thenS (readidle (Suc f) os) (\<lambda>_. await_acks (Suc f) os n))
        (\<lambda>_ s'. \<exists>core' q' pend'. caught_up core q pend core' q' pend' \<and> unat n \<le> unat (hb_nacks core')
         \<and> hb_linked core' (ans_stream (q' @ concat pend')) out scr s') (\<lambda>_ _. False) s"
    proof (rule wp_seq [OF idle], elim exE conjE)
      fix t core'
      assume c: "hb_view core' = fold ri_effect (q @ concat pend) (hb_view core)" "hb_settled core'"
        "hb_linked core' [] out scr t"
      obtain h' c' k' where t: "t = (h', c', k')" by (cases t)
      have "hb_nacks core' = hb_nacks core + of_nat (length pend)"
        using arg_cong [OF c(1), of hb_nacks] acks_concat [OF assms(4)] assms(3)
        by (simp only: hb_view_get nacks_fold acks_append left_over_def) simp
      then have n: "unat (hb_nacks core') = unat (hb_nacks core) + length pend"
        using assms(6) by (simp add: unat_word_ariths unsigned_of_nat take_bit_eq_mod)
      have h': "hb_nacks h' = hb_nacks core'" using c(3) by (auto simp: t hb_linked_def)
      have reached: "\<not> hb_nacks core' < n" "unat n \<le> unat (hb_nacks core')"
        using assms(7) n by (simp_all add: word_less_nat_alt)
      have "caught_up core q pend core' [] []" using c n by (simp add: caught_up_def)
      with reached c(3) show "wp (await_acks (Suc f) os n)
        (\<lambda>_ s'. \<exists>core' q' pend'. caught_up core q pend core' q' pend' \<and> unat n \<le> unat (hb_nacks core')
         \<and> hb_linked core' (ans_stream (q' @ concat pend')) out scr s') (\<lambda>_ _. False) t"
        unfolding await_acks.simps t wp_thenS wp_hb_get h' if_not_P [OF reached(1)] wp_retS
        by (intro exI [of _ core'] exI [of _ "[]"]) simp
    qed
    then show ?thesis using True by (simp add: f s nacks wp_thenS wp_hb_get)
  qed
qed

text \<open>The command for one write goes out after the bytes already in the buffer.\<close>

lemma length_write_cmd: "length (write_cmd v) \<le> 10"
  using length_fmt_x [of v] by (simp add: write_cmd_def)

lemma wp_write_request:
  assumes "hb_linked core inp out (r # scr) s"
    and "take (length cmd) (hb_buf (fst s)) = cmd" "length cmd \<le> 20" "unat nw < length buf"
    and "\<And>s'. hb_linked core (inp @ r) (out @ cmd @ write_cmd (buf ! unat nw)) scr s' \<Longrightarrow> wp m Q E s'"
  shows "wp (thenS (hb_put (length cmd) [0x57, 0]) (\<lambda>_.
     thenS (liftS (aget buf (unat nw))) (\<lambda>v.
     (let text = (if v \<noteq> 0 then fmt_x v @ [10] else [10]) in
      thenS (hb_put (length cmd + 1) (text @ [0])) (\<lambda>_.
      thenS (hb_send os (length cmd + 1 + length text)) (\<lambda>_. m)))))) Q E s"
proof -
  obtain h c k where s: "s = (h, c, k)" by (cases s)
  let ?v = "buf ! unat nw"
  let ?text = "if ?v \<noteq> 0 then fmt_x ?v @ [10] else [10]"
  have len: "length cmd + 1 + length (?text @ [0]) \<le> 64" using assms(3) length_fmt_x [of ?v] by auto
  have get: "aget buf (unat nw) = Inr ?v" using assms(4) by simp
  have "wp (hb_put (length cmd) [0x57, 0]) (\<lambda>_. wp (hb_put (length cmd + 1) (?text @ [0]))
      (\<lambda>_. wp (hb_send os (length cmd + 1 + length ?text)) (\<lambda>_. wp m Q E) E) E) E s"
    unfolding s
  proof (rule wp_hb_put [OF assms(1) [unfolded s]], use assms(3) in simp, rule wp_hb_put, assumption,
      rule len, rule wp_hb_send, assumption, simp)
    fix h1 h2 c' k'
    assume 1: "hb_buf h1 = take (length cmd) (hb_buf h) @ [0x57, 0] @ drop (length cmd + length [0x57 :: u8, 0]) (hb_buf h)"
      and 2: "hb_buf h2 = take (length cmd + 1) (hb_buf h1) @ (?text @ [0])
          @ drop (length cmd + 1 + length (?text @ [0])) (hb_buf h1)"
      and l: "hb_linked core (inp @ (case r # scr of [] \<Rightarrow> [] | r # rs \<Rightarrow> r))
        (out @ take (length cmd + 1 + length ?text) (hb_buf h2)) (tl (r # scr)) (h2, c', k')"
    have pre: "take (length cmd) (hb_buf h) = cmd" using assms(2) by (simp add: s)
    have "take (length cmd + 1) (hb_buf h1) = cmd @ [0x57]" by (simp add: 1 pre)
    then have "take (length cmd + 1 + length ?text) (hb_buf h2) = cmd @ write_cmd ?v"
      unfolding 2 by (simp add: write_cmd_def)
    with l have "hb_linked core (inp @ r) (out @ cmd @ write_cmd ?v) scr (h2, c', k')" by simp
    then show "wp m Q E (h2, c', k')" by (rule assms(5))
  qed
  then show ?thesis by (simp only: wp_thenS_fun get liftS_Inr thenS_retS Let_def)
qed

lemma writev_loop_ok:
  assumes "hb_linked core (ans_stream (q @ concat pend)) out (map ans_stream rs @ scr) s"
    and "take (length cmd) (hb_buf (fst s)) = cmd" "length cmd \<le> 20" "hb_settled core" "left_over q"
    and "list_all write_reply pend" "list_all write_reply rs" "rs = [] \<longrightarrow> cmd = []"
    and "unat nw + length rs \<le> length buf" "unat nw + length rs < 2 ^ 32"
    and "unat (hb_nacks core) + length pend = unat nw" "0 < unat (hb_nacks core) \<longrightarrow> q = []"
    and "length (ans_stream (q @ concat (pend @ rs))) + 2 < fuel"
  shows "wp (writev_loop (length rs) fuel os buf nw (length cmd))
      (\<lambda>_ s'. \<exists>core' q' pend'. caught_up core q (pend @ rs) core' q' pend'
         \<and> hb_linked core' (ans_stream (q' @ concat pend'))
             (out @ cmd @ concat (map write_cmd (take (length rs) (drop (unat nw) buf)))) scr s')
      (\<lambda>_ _. False) s"
  using assms
proof (induction rs arbitrary: core q pend out s cmd nw)
  case Nil
  then have "caught_up core q pend core q pend" by (simp add: caught_up_def)
  with Nil show ?case by (auto simp: wp_simps)
next
  case (Cons r rs)
  let ?v = "buf ! unat nw"
  have nw: "unat nw < length buf" "unat (nw + 1) = unat nw + 1"
    using Cons.prems(9,10) by (simp_all add: unat_word_ariths)
  show ?case unfolding length_Cons writev_loop.simps
  proof (rule wp_write_request [OF _ Cons.prems(2,3) nw(1)])
    show "hb_linked core (ans_stream (q @ concat pend)) out (ans_stream r # (map ans_stream rs @ scr)) s"
      using Cons.prems(1) by simp
    fix s1
    assume "hb_linked core (ans_stream (q @ concat pend) @ ans_stream r) (out @ cmd @ write_cmd ?v)
        (map ans_stream rs @ scr) s1"
    then have l: "hb_linked core (ans_stream (q @ concat (pend @ [r]))) (out @ cmd @ write_cmd ?v)
        (map ans_stream rs @ scr) s1" by (simp add: ans_stream_def)
    have rep: "list_all write_reply (pend @ [r])" using Cons.prems(6,7) by simp
    have fuel: "length (ans_stream (q @ concat (pend @ [r]))) + 2 < fuel"
      using Cons.prems(13) by (simp add: ans_stream_def)
    have acks: "unat (hb_nacks core) + length (pend @ [r]) < 2 ^ 32"
      "unat nw \<le> unat (hb_nacks core) + length (pend @ [r])"
      using Cons.prems(10,11) by simp_all
    show "wp (thenS (await_acks fuel os nw) (\<lambda>_. writev_loop (length rs) fuel os buf (nw + 1) 0))
      (\<lambda>_ s'. \<exists>core' q' pend'. caught_up core q (pend @ r # rs) core' q' pend'
         \<and> hb_linked core' (ans_stream (q' @ concat pend'))
             (out @ cmd @ concat (map write_cmd (take (Suc (length rs)) (drop (unat nw) buf)))) scr s')
      (\<lambda>_ _. False) s1"
    proof (rule wp_seq [OF await_replies [OF l Cons.prems(4,5) rep fuel acks Cons.prems(12)]],
        elim exE conjE, goal_cases)
      case (1 u t core1 q1 pend1)
      note c1 = 1(1) [unfolded caught_up_def]
      have len: "length (ans_stream (q1 @ concat (pend1 @ rs))) \<le> length (ans_stream (q @ concat (pend @ r # rs)))"
        using c1 by (simp add: ans_stream_def)
      have ih: "wp (writev_loop (length rs) fuel os buf (nw + 1) (length ([] :: u8 list)))
        (\<lambda>_ s'. \<exists>core' q' pend'. caught_up core1 q1 (pend1 @ rs) core' q' pend'
         \<and> hb_linked core' (ans_stream (q' @ concat pend'))
             ((out @ cmd @ write_cmd ?v) @ [] @ concat (map write_cmd (take (length rs) (drop (unat (nw + 1)) buf))))
             scr s') (\<lambda>_ _. False) t"
        by (rule Cons.IH [OF 1(3)])
          (use Cons.prems(7,9-11,13) nw c1 len in simp_all)
      have out: "(out @ cmd @ write_cmd ?v) @ [] @ concat (map write_cmd (take (length rs) (drop (unat (nw + 1)) buf)))
          = out @ cmd @ concat (map write_cmd (take (Suc (length rs)) (drop (unat nw) buf)))"
        by (simp add: nw Cons_nth_drop_Suc [OF nw(1), symmetric])
      have trans: "caught_up core q (pend @ r # rs) core' q' pend'"
        if "caught_up core1 q1 (pend1 @ rs) core' q' pend'" for core' q' pend'
        using that c1 len by (simp add: caught_up_def)
      show ?case
      proof (rule wp_mono [OF ih [unfolded list.size out]], elim exE conjE, goal_cases)
        case (1 u t core2 q2 pend2)
        then show ?case using trans by blast
      qed simp
    qed
  qed
qed

end

text \<open>The object at the start of a write, and what the write adds to the address it believes in.\<close>

definition writev_start :: "u32 \<Rightarrow> hexbus \<Rightarrow> hexbus" where
  "writev_start a v = v\<lparr>hb_lastaddr := a, hb_addr_set := True, hb_nacks := 0\<rparr>"

definition writev_finish :: "bool \<Rightarrow> u32 \<Rightarrow> hexbus \<Rightarrow> hexbus" where
  "writev_finish p n v = (if p then v\<lparr>hb_lastaddr := hb_lastaddr v + 4 * n\<rparr> else v)"

context scripted_link
begin

lemma writev_returns:
  assumes "hb_ready fd arrived sent script v (ans_stream q) out (map ans_stream rs @ scr) s"
    and "rs \<noteq> []" "left_over q" "list_all write_reply rs"
    and "length rs \<le> length buf" "length rs < 2 ^ 31"
    and "length (ans_stream (q @ concat rs)) + 2 < fuel"
  shows "wp (hexbus_writev fuel os a p (int (length rs)) buf)
      (\<lambda>_ s'. hb_ready fd arrived sent script
         (writev_finish p (of_nat (length rs)) (fold ri_effect (q @ concat rs) (writev_start a v)))
         [] (out @ address_cmd v (a OR (if p then 0 else 1)) @ concat (map write_cmd (take (length rs) buf)))
         scr s')
      (\<lambda>_ _. False) s"
proof -
  from assms(1) obtain core where core: "hb_linked core (ans_stream q) out (map ans_stream rs @ scr) s"
    "hb_view core = v" "hb_settled core" by (auto simp: hb_ready_iff)
  let ?a = "a OR (if p then 0 else 1)"
  let ?cmd = "address_cmd v ?a"
  have cmd: "address_cmd core ?a = ?cmd" by (simp add: address_cmd_def hb_view_get flip: core(2))
  have len: "unat (word_of_int (int (length rs)) :: u32) = length rs"
    "(word_of_int (int (length rs)) :: u32) = of_nat (length rs)"
    "unat (of_nat (length rs) :: u32) = length rs"
    "push_bit 2 (of_nat (length rs) :: u32) = 4 * of_nat (length rs)"
    using assms(6) by (simp_all add: unsigned_of_nat take_bit_nat_eq_self push_bit_eq_mult)
  have cmd20: "length ?cmd \<le> 20" by (rule le_trans [OF length_address_cmd]) simp
  let ?core = "writev_start a core"
  have core': "hb_settled ?core" "hb_view ?core = writev_start a v" "hb_nacks ?core = 0"
    using core(2,3) by (simp_all add: writev_start_def hb_settled_def hb_view_simps)
  have enc: "wp (encode_address ?a) (\<lambda>ptr s'. ptr = length ?cmd
      \<and> hb_linked core (ans_stream q) out (map ans_stream rs @ scr) s'
      \<and> take (length ?cmd) (hb_buf (fst s')) = ?cmd) (\<lambda>_ _. False) s"
    by (rule wp_encode_address [OF core(1)]) (simp_all add: cmd)
  show ?thesis unfolding hexbus_writev_def
  proof (rule wp_seq [OF enc], elim conjE, goal_cases)
    case (1 ptr s1)
    obtain h c k where s1: "s1 = (h, c, k)" by (cases s1)
    let ?s = "(h\<lparr>hb_lastaddr := a, hb_addr_set := True, hb_nacks := 0\<rparr>, c, k)"
    have l: "hb_linked ?core (ans_stream (q @ concat [])) out (map ans_stream rs @ scr) ?s"
      "take (length ?cmd) (hb_buf (fst ?s)) = ?cmd"
      using 1 by (auto simp: s1 hb_linked_def hb_core_update writev_start_def)
    have fuel: "length (ans_stream (q @ concat ([] @ rs))) + 2 < fuel" using assms(7) by simp
    have loop: "wp (writev_loop (length rs) fuel os buf 0 (length ?cmd))
      (\<lambda>_ s'. \<exists>core' q' pend'. caught_up ?core q ([] @ rs) core' q' pend'
         \<and> hb_linked core' (ans_stream (q' @ concat pend'))
             (out @ ?cmd @ concat (map write_cmd (take (length rs) (drop (unat (0::u32)) buf)))) scr s')
      (\<lambda>_ _. False) ?s"
      by (rule writev_loop_ok [OF l cmd20 core'(1) assms(3) _ assms(4)])
        (use assms core'(3) fuel in simp_all)
    have "wp (thenS (writev_loop (length rs) fuel os buf 0 (length ?cmd)) (\<lambda>_.
         thenS (await_acks fuel os (of_nat (length rs))) (\<lambda>_.
         hb_mod (\<lambda>h. if p then h\<lparr>hb_lastaddr := hb_lastaddr h + 4 * of_nat (length rs)\<rparr> else h))))
      (\<lambda>_ s'. hb_ready fd arrived sent script
         (writev_finish p (of_nat (length rs)) (fold ri_effect (q @ concat rs) (writev_start a v)))
         [] (out @ ?cmd @ concat (map write_cmd (take (length rs) buf))) scr s')
      (\<lambda>_ _. False) ?s"
    proof (rule wp_seq [OF loop], elim exE conjE, goal_cases)
      case (1 u t core1 q1 pend1)
      note c1 = 1(1) [unfolded caught_up_def append_Nil core'(2,3)]
      have n: "unat (of_nat (length rs) :: u32) = length rs" using len by simp
      have wait: "wp (await_acks fuel os (of_nat (length rs)))
        (\<lambda>_ s'. \<exists>core2 q2 pend2. caught_up core1 q1 pend1 core2 q2 pend2
           \<and> unat (of_nat (length rs) :: u32) \<le> unat (hb_nacks core2)
           \<and> hb_linked core2 (ans_stream (q2 @ concat pend2))
             (out @ ?cmd @ concat (map write_cmd (take (length rs) (drop (unat (0::u32)) buf)))) scr s')
        (\<lambda>_ _. False) t"
        by (rule await_replies [OF 1(2)]) (use c1 n assms(6) fuel in simp_all)
      show ?case
      proof (rule wp_seq [OF wait], elim exE conjE, goal_cases)
        case (1 u t core2 q2 pend2)
        note c2 = 1(1) [unfolded caught_up_def]
        have "unat (hb_nacks core2) + length pend2 = length rs" using c1 c2 by simp
        moreover have "length rs \<le> unat (hb_nacks core2)" "0 < length rs" using 1(2) n assms(2) by simp_all
        ultimately have "length pend2 = 0" "0 < unat (hb_nacks core2)" by linarith+
        then have fin: "pend2 = []" "q2 = []" using c2 by simp_all
        then have view: "hb_view core2 = fold ri_effect (q @ concat rs) (writev_start a v)"
          using c1 c2 by simp
        obtain h2 c2' k2 where t: "t = (h2, c2', k2)" by (cases t)
        let ?core2 = "writev_finish p (of_nat (length rs)) core2"
        have "hb_linked ?core2 [] (out @ ?cmd @ concat (map write_cmd (take (length rs) buf))) scr
            (if p then h2\<lparr>hb_lastaddr := hb_lastaddr h2 + 4 * of_nat (length rs)\<rparr> else h2, c2', k2)"
          using 1(3) fin by (auto simp: t hb_linked_def writev_finish_def hb_core_update)
        moreover have "hb_view ?core2 = writev_finish p (of_nat (length rs))
            (fold ri_effect (q @ concat rs) (writev_start a v))"
          by (simp only: view [symmetric]) (simp add: writev_finish_def hb_view_simps)
        moreover have "hb_settled ?core2" using c2 by (simp add: writev_finish_def hb_settled_def)
        ultimately show ?case
          by (auto simp: t wp_hb_mod hb_ready_iff)
      qed
    qed
    then show ?case unfolding 1(1) s1 len by (subst wp_thenS, subst wp_hb_mod)
  qed
qed

end

end
