(* ===== verification/HexProps.thy ===== *)
theory HexProps
  imports HexWrite
begin

text \<open>
  The contract of the debugging bus, as a caller of \<open>HEXBUS\<close> sees it: what a read returns, where
  an error is reported, when a write returns, and where the address the object believes in parts
  from the one the bus is at. Each holds for every link that keeps the laws of
  \<open>scripted_link\<close>, whatever the replies.
\<close>

subsection \<open>A bus that has just been opened\<close>

definition example_state :: "u8 list list \<Rightarrow> sock hbw" where
  "example_state scr =
     (hexbus_new (\<lambda>_. 0) 0 False True, \<lparr>m_fdw = 3, m_fdr = 3, ll_total_nread = 0, ll_total_nwrit = 0\<rparr>,
      \<lparr>sk_in = [], sk_out = [], sk_script = scr\<rparr>)"

definition example_view :: hexbus where
  "example_view =
     \<lparr>hb_total_nread = 0, hb_interrupt_flag = False, hb_addr_set = False, hb_bus_err = False,
      hb_lastaddr = 0, hb_nacks = 0, hb_inc = False, hb_isspace = True, hb_buflen = 128, hb_buf = [],
      hb_cmd = 0\<rparr>"

lemma example_ready: "hb_ready 3 sk_in sk_out sk_script example_view [] [] scr (example_state scr)"
  by (simp add: hb_ready_def example_state_def example_view_def hexbus_new_def hexbus_bufalloc_def
      Let_def hb_view_def hb_core_def hb_settled_def)

subsection \<open>Reads\<close>

text \<open>C1. A read of several words returns exactly the words the bus answers with, in order, having
  sent one read command each and the address only when the bus is not known to stand there; the
  address it believes in moves with the words. Interrupts, an echo of the address and at most two
  idle reports before each word disturb nothing (the third in a row makes \<open>readword\<close> throw a bus
  error), and nothing is stored outside \<open>m_buf\<close>.\<close>

theorem readv_returns_words:
  assumes "scripted_link os fd arrived sent reply script"
    and "hb_ready fd arrived sent script v (ans_stream pre) out (map read_reply_bytes rs @ scr) s"
    and "rs \<noteq> []" "list_all (benign a inc) pre" "read_replies a inc rs"
    and "sum_list (map rw_cost (pre @ fst (hd rs))) < 3"
    and "length (ans_stream pre) + length (concat (map read_reply_bytes rs)) \<le> fuel"
  shows "wp (hexbus_readv fuel os a inc (int (length rs)))
      (\<lambda>ws s'. ws = map (\<lambda>(as, w, sp). w) rs \<and> hb_ready fd arrived sent script
         (v\<lparr>hb_lastaddr := if inc then a + 4 * of_nat (length rs) else a,
            hb_addr_set := True, hb_inc := inc,
            hb_interrupt_flag := hb_interrupt_flag v \<or> AnsInt \<in> set pre \<or> interrupts_in rs\<rparr>)
         (tl (snd (snd (last rs))))
         (out @ address_cmd v (a OR (if inc then 0 else 1))
            @ concat (replicate (length rs) [HEXB_READ, 10])) scr s')
      (\<lambda>_ _. False) s"
  by (rule scripted_link.readv_returns [OF assms])

theorem readv_returns_words_witness:
  "wp (hexbus_readv 100 sock_os 0x400 True 2)
     (\<lambda>ws s'. ws = [0x11223344, 0xdeadbeef] \<and> hb_ready 3 sk_in sk_out sk_script
        (example_view\<lparr>hb_lastaddr := 0x408, hb_addr_set := True, hb_inc := True,
           hb_interrupt_flag := True\<rparr>) [10]
        (HEXB_ADDR # fmt_08x 0x400 @ [HEXB_READ, 10, HEXB_READ, 10]) [] s')
     (\<lambda>_ _. False)
     (example_state (map read_reply_bytes
        [([AnsAddr 0x400], 0x11223344, [13, 10]), ([AnsInt, AnsIdle], 0xdeadbeef, [13, 10])]))"
proof -
  let ?rs = "[([AnsAddr 0x400], 0x11223344, [13, 10]), ([AnsInt, AnsIdle], 0xdeadbeef, [13, 10])] :: read_reply list"
  have "wp (hexbus_readv 100 sock_os 0x400 True (int (length ?rs)))
      (\<lambda>ws s'. ws = map (\<lambda>(as, w, sp). w) ?rs \<and> hb_ready 3 sk_in sk_out sk_script
         (example_view\<lparr>hb_lastaddr := if True then 0x400 + 4 * of_nat (length ?rs) else 0x400,
            hb_addr_set := True, hb_inc := True,
            hb_interrupt_flag := hb_interrupt_flag example_view \<or> AnsInt \<in> set [] \<or> interrupts_in ?rs\<rparr>)
         (tl (snd (snd (last ?rs))))
         ([] @ address_cmd example_view (0x400 OR (if True then 0 else 1))
            @ concat (replicate (length ?rs) [HEXB_READ, 10])) [] s')
      (\<lambda>_ _. False) (example_state (map read_reply_bytes ?rs))"
    by (rule readv_returns_words [OF sock.scripted_link_axioms])
      (simp_all add: example_ready c_isspace_def read_reply_bytes_def ans_digits_def)
  then show ?thesis
    by (simp add: interrupts_in_def address_cmd_def example_view_def numeral_2_eq_2)
qed

text \<open>C2. When the bus answers the read of a word with an error, the call throws \<open>BUSERR\<close> with that
  word's address, whatever came before; the words already read are dropped, the error flag is
  set, and the object is ready for the next call.\<close>

theorem readv_reports_bus_error:
  assumes "scripted_link os fd arrived sent reply script"
    and "hb_ready fd arrived sent script v (ans_stream pre) out
           (map read_reply_bytes rs @ error_reply_bytes as sp # scr) s"
    and "int (length rs) < len" "list_all (benign a inc) pre" "read_replies a inc rs"
    and "sum_list (map rw_cost (pre @ (case rs of [] \<Rightarrow> as | r # _ \<Rightarrow> fst r))) < 3"
    and "list_all (benign (if inc then a + 4 * of_nat (length rs) else a) inc) as"
    and "sum_list (map rw_cost as) < 3" "sp \<noteq> []" "list_all c_isspace sp"
    and "length (ans_stream pre) + length (concat (map read_reply_bytes rs))
         + length (error_reply_bytes as sp) \<le> fuel"
  shows "wp (hexbus_readv fuel os a inc len) (\<lambda>_ _. False)
      (\<lambda>e s'. e = BusErr (a + (if inc then push_bit 2 (of_nat (length rs)) else 0))
         \<and> hb_ready fd arrived sent script
         (v\<lparr>hb_lastaddr := if inc then a + 4 * of_nat (length rs) else a,
            hb_addr_set := True, hb_inc := inc,
            hb_interrupt_flag := hb_interrupt_flag v \<or> AnsInt \<in> set pre \<or> interrupts_in rs \<or> AnsInt \<in> set as,
            hb_bus_err := True\<rparr>)
         (tl sp) (out @ address_cmd v (a OR (if inc then 0 else 1))
            @ concat (replicate (length rs + 1) [HEXB_READ, 10])) scr s') s"
  by (rule scripted_link.readv_reports_error [OF assms])

theorem readv_reports_bus_error_witness:
  "wp (hexbus_readv 100 sock_os 0x400 True 5) (\<lambda>_ _. False)
     (\<lambda>e s'. e = BusErr 0x404 \<and> hb_ready 3 sk_in sk_out sk_script
        (example_view\<lparr>hb_lastaddr := 0x404, hb_addr_set := True, hb_inc := True,
           hb_interrupt_flag := False, hb_bus_err := True\<rparr>) []
        (HEXB_ADDR # fmt_08x 0x400 @ [HEXB_READ, 10, HEXB_READ, 10]) [] s')
     (example_state [read_reply_bytes ([AnsAddr 0x400], 0x11223344, [10]), error_reply_bytes [] [10]])"
proof -
  let ?rs = "[([AnsAddr 0x400], 0x11223344, [10])] :: read_reply list"
  have "wp (hexbus_readv 100 sock_os 0x400 True 5) (\<lambda>_ _. False)
      (\<lambda>e s'. e = BusErr (0x400 + (if True then push_bit 2 (of_nat (length ?rs)) else 0))
         \<and> hb_ready 3 sk_in sk_out sk_script
         (example_view\<lparr>hb_lastaddr := if True then 0x400 + 4 * of_nat (length ?rs) else 0x400,
            hb_addr_set := True, hb_inc := True,
            hb_interrupt_flag := hb_interrupt_flag example_view \<or> AnsInt \<in> set [] \<or> interrupts_in ?rs
              \<or> AnsInt \<in> set [], hb_bus_err := True\<rparr>)
         (tl [10]) ([] @ address_cmd example_view (0x400 OR (if True then 0 else 1))
            @ concat (replicate (length ?rs + 1) [HEXB_READ, 10])) [] s')
      (example_state (map read_reply_bytes ?rs @ [error_reply_bytes [] [10]]))"
    by (rule readv_reports_bus_error [OF sock.scripted_link_axioms])
      (simp_all add: example_ready c_isspace_def read_reply_bytes_def error_reply_bytes_def ans_digits_def)
  then show ?thesis
    by (simp add: interrupts_in_def address_cmd_def example_view_def)
qed

subsection \<open>Writes\<close>

text \<open>C3. A write returns only when the bus has acknowledged every word, and then has sent exactly
  one command per word, with its digits. The commands are pipelined one deep. What else the
  answers said is noted: \<open>fold ri_effect\<close> of all of them.\<close>

theorem writev_writes_words:
  assumes "scripted_link os fd arrived sent reply script"
    and "hb_ready fd arrived sent script v (ans_stream q) out (map ans_stream rs @ scr) s"
    and "rs \<noteq> []" "left_over q" "list_all write_reply rs"
    and "length rs \<le> length buf" "length rs < 2 ^ 31"
    and "length (ans_stream (q @ concat rs)) + 2 < fuel"
  shows "wp (hexbus_writev fuel os a p (int (length rs)) buf)
      (\<lambda>_ s'. hb_ready fd arrived sent script
         (writev_finish p (of_nat (length rs)) (fold ri_effect (q @ concat rs) (writev_start a v)))
         [] (out @ address_cmd v (a OR (if p then 0 else 1)) @ concat (map write_cmd (take (length rs) buf)))
         scr s')
      (\<lambda>_ _. False) s"
  by (rule scripted_link.writev_returns [OF assms])

theorem writev_writes_words_witness:
  "wp (hexbus_writev 100 sock_os 0x800 False 2 [0xcafe, 0])
     (\<lambda>_ s'. hb_ready 3 sk_in sk_out sk_script
        (example_view\<lparr>hb_lastaddr := 0x800, hb_addr_set := True, hb_nacks := 2\<rparr>) []
        (HEXB_ADDR # fmt_08x 0x801 @ write_cmd 0xcafe @ write_cmd 0) [] s')
     (\<lambda>_ _. False)
     (example_state (map ans_stream [[AnsAddr 0x801, AnsAck 0, AnsSpace 10], [AnsAck 0, AnsSpace 10]]))"
proof -
  let ?rs = "[[AnsAddr 0x801, AnsAck 0, AnsSpace 10], [AnsAck 0, AnsSpace 10]]"
  have "wp (hexbus_writev 100 sock_os 0x800 False (int (length ?rs)) [0xcafe, 0])
      (\<lambda>_ s'. hb_ready 3 sk_in sk_out sk_script
         (writev_finish False (of_nat (length ?rs)) (fold ri_effect ([] @ concat ?rs) (writev_start 0x800 example_view)))
         [] ([] @ address_cmd example_view (0x800 OR (if False then 0 else 1))
              @ concat (map write_cmd (take (length ?rs) [0xcafe, 0])))
         [] s')
      (\<lambda>_ _. False) (example_state (map ans_stream ?rs))"
    by (rule writev_writes_words [OF sock.scripted_link_axioms])
      (simp_all add: example_ready c_isspace_def ans_digits_def write_reply_def acks_def)
  then show ?thesis
    by (simp add: address_cmd_def example_view_def writev_finish_def writev_start_def hb_ack_def
        hb_step_addr_def hb_addr_answer_def)
qed

text \<open>What the bus answers to a write of \<open>n\<close> words from an address that increments.\<close>

definition incrementing_replies :: "u32 \<Rightarrow> nat \<Rightarrow> hb_answer list list" where
  "incrementing_replies a n = [AnsAddr a, AnsAck 0, AnsSpace 10] # replicate (n - 1) [AnsAck 0, AnsSpace 10]"

lemma fold_acks:
  "hb_inc v \<Longrightarrow> fold ri_effect (concat (replicate n [AnsAck w, AnsSpace c])) v
     = v\<lparr>hb_lastaddr := hb_lastaddr v + 4 * of_nat n, hb_nacks := hb_nacks v + of_nat n\<rparr>"
  by (induction n arbitrary: v) (simp_all add: hb_ack_def hb_step_addr_def algebra_simps)

lemma incrementing_replies_effect:
  assumes "0 < n" "a AND -4 = a" "\<not> bit a 0"
  shows "fold ri_effect (concat (incrementing_replies a n)) v
    = v\<lparr>hb_addr_set := True, hb_inc := True, hb_lastaddr := a + 4 * of_nat n,
        hb_nacks := hb_nacks v + of_nat n\<rparr>"
proof -
  obtain m where n: "n = Suc m" using assms(1) by (cases n) auto
  let ?v = "(hb_addr_answer a v)\<lparr>hb_lastaddr := a + 4, hb_nacks := hb_nacks v + 1\<rparr>"
  have "fold ri_effect (concat (incrementing_replies a n)) v
      = fold ri_effect (concat (replicate m [AnsAck 0, AnsSpace 10])) ?v"
    using assms(2,3)
    by (simp add: incrementing_replies_def n hb_ack_def hb_step_addr_def hb_addr_answer_def)
  also have "\<dots> = ?v\<lparr>hb_lastaddr := a + 4 + 4 * of_nat m, hb_nacks := hb_nacks v + 1 + of_nat m\<rparr>"
    using assms(3) by (subst fold_acks) (simp_all add: hb_addr_answer_def)
  finally show ?thesis using assms(2,3) by (simp add: n hb_addr_answer_def algebra_simps)
qed

text \<open>After a write of \<open>n\<close> words to incrementing addresses the object believes the bus stands at
  \<open>a + 8n\<close>: each acknowledgement has moved its address by one word, and the end of \<open>writev\<close> moves
  it by the length of the whole write once more. The bus stands at \<open>a + 4n\<close>, so a read of
  \<open>a + 8n\<close> that follows sends no address and reads from the wrong place.\<close>

theorem writei_loses_the_address:
  assumes "scripted_link os fd arrived sent reply script"
    and "hb_ready fd arrived sent script v [] out (map ans_stream (incrementing_replies a n) @ scr) s"
    and "0 < n" "n < 2 ^ 31" "n \<le> length buf" "a AND -4 = a" "\<not> bit a 0"
    and "length (ans_stream (concat (incrementing_replies a n))) + 2 < fuel"
  shows "wp (hexbus_writei fuel os a (int n) buf)
      (\<lambda>_ s'. \<exists>v'. hb_lastaddr v' = a + 8 * of_nat n \<and> address_cmd v' (a + 8 * of_nat n) = []
         \<and> hb_ready fd arrived sent script v' []
             (out @ address_cmd v a @ concat (map write_cmd (take n buf))) scr s')
      (\<lambda>_ _. False) s"
proof -
  let ?rs = "incrementing_replies a n"
  have rs: "length ?rs = n" "?rs \<noteq> []" "list_all write_reply ?rs"
    using assms(3)
    by (auto simp: incrementing_replies_def write_reply_def acks_def c_isspace_def list_all_iff)
  let ?v = "writev_finish True (of_nat n) (fold ri_effect (concat ?rs) (writev_start a v))"
  have "bit (8 * of_nat n :: u32) 0 = False" by (simp add: bit_0)
  moreover have "bit (a + 8 * of_nat n) 0 = (bit a 0 \<noteq> bit (8 * of_nat n :: u32) 0)"
    by (simp add: bit_0)
  ultimately have even: "\<not> bit (a + 8 * of_nat n) 0" using assms(7) by simp
  have v: "hb_lastaddr ?v = a + 8 * of_nat n" "hb_addr_set ?v" "hb_inc ?v"
    by (simp_all add: incrementing_replies_effect [OF assms(3,6,7)] writev_finish_def)
  then have cmd: "address_cmd ?v (a + 8 * of_nat n) = []" using even by (simp add: address_cmd_def)
  have "wp (hexbus_writev fuel os a True (int (length ?rs)) buf)
      (\<lambda>_ s'. hb_ready fd arrived sent script
         (writev_finish True (of_nat (length ?rs)) (fold ri_effect ([] @ concat ?rs) (writev_start a v)))
         [] (out @ address_cmd v (a OR (if True then 0 else 1)) @ concat (map write_cmd (take (length ?rs) buf)))
         scr s')
      (\<lambda>_ _. False) s"
    by (rule scripted_link.writev_returns [OF assms(1)]) (use assms rs in simp_all)
  then show ?thesis unfolding hexbus_writei_def rs(1)
    by (elim wp_mono) (use v cmd in auto)
qed

theorem writei_loses_the_address_witness:
  "wp (hexbus_writei 100 sock_os 0x1000 2 [1, 2])
      (\<lambda>_ s'. \<exists>v'. hb_lastaddr v' = 0x1010 \<and> address_cmd v' 0x1010 = []
         \<and> hb_ready 3 sk_in sk_out sk_script v' []
             (HEXB_ADDR # fmt_08x 0x1000 @ [0x57, 0x31, 10, 0x57, 0x32, 10]) [] s')
      (\<lambda>_ _. False) (example_state (map ans_stream (incrementing_replies 0x1000 2)))"
proof -
  have "wp (hexbus_writei 100 sock_os 0x1000 (int 2) [1, 2])
      (\<lambda>_ s'. \<exists>v'. hb_lastaddr v' = 0x1000 + 8 * of_nat 2 \<and> address_cmd v' (0x1000 + 8 * of_nat 2) = []
         \<and> hb_ready 3 sk_in sk_out sk_script v' []
             ([] @ address_cmd example_view 0x1000 @ concat (map write_cmd (take 2 [1, 2]))) [] s')
      (\<lambda>_ _. False) (example_state (map ans_stream (incrementing_replies 0x1000 2) @ []))"
    by (rule writei_loses_the_address [OF sock.scripted_link_axioms])
      (simp_all add: example_ready incrementing_replies_def ans_digits_def)
  moreover have "write_cmd 1 = [0x57, 0x31, 10]" "write_cmd 2 = [0x57, 0x32, 10]"
    by (simp_all add: write_cmd_def fmt_x_def fmt_08x_def nibble_def hex_char_def)
  ultimately show ?thesis
    by (simp add: address_cmd_def example_view_def numeral_2_eq_2)
qed

text \<open>A read of one word returns the word the bus answers with and leaves the address at \<open>a\<close>, so
  the check after the read never ends the program.\<close>

theorem readio_returns_word:
  assumes "scripted_link os fd arrived sent reply script"
    and "hb_ready fd arrived sent script v (ans_stream pre) out (read_reply_bytes (as, w, sp) # scr) s"
    and "list_all (benign a False) (pre @ as)" "sum_list (map rw_cost (pre @ as)) < 3"
    and "sp \<noteq> []" "list_all c_isspace sp"
    and "length (ans_stream pre) + length (read_reply_bytes (as, w, sp)) \<le> fuel"
  shows "wp (hexbus_readio fuel os a)
      (\<lambda>x s'. x = w \<and> hb_ready fd arrived sent script
         (v\<lparr>hb_lastaddr := a, hb_addr_set := True, hb_inc := False,
            hb_interrupt_flag := hb_interrupt_flag v \<or> AnsInt \<in> set (pre @ as)\<rparr>)
         (tl sp) (out @ address_cmd v (a OR 1) @ [HEXB_READ, 10]) scr s')
      (\<lambda>_ _. False) s"
proof -
  let ?rs = "[(as, w, sp)]"
  have "wp (hexbus_readv fuel os a False (int (length ?rs)))
      (\<lambda>ws s'. ws = map (\<lambda>(as, w, sp). w) ?rs \<and> hb_ready fd arrived sent script
         (v\<lparr>hb_lastaddr := if False then a + 4 * of_nat (length ?rs) else a,
            hb_addr_set := True, hb_inc := False,
            hb_interrupt_flag := hb_interrupt_flag v \<or> AnsInt \<in> set pre \<or> interrupts_in ?rs\<rparr>)
         (tl (snd (snd (last ?rs))))
         (out @ address_cmd v (a OR (if False then 0 else 1))
            @ concat (replicate (length ?rs) [HEXB_READ, 10])) scr s')
      (\<lambda>_ _. False) s"
    by (rule scripted_link.readv_returns [OF assms(1)]) (use assms in simp_all)
  then have "wp (hexbus_readv fuel os a False 1)
      (\<lambda>ws s'. ws = [w] \<and> hb_ready fd arrived sent script
         (v\<lparr>hb_lastaddr := a, hb_addr_set := True, hb_inc := False,
            hb_interrupt_flag := hb_interrupt_flag v \<or> AnsInt \<in> set (pre @ as)\<rparr>)
         (tl sp) (out @ address_cmd v (a OR 1) @ [HEXB_READ, 10]) scr s')
      (\<lambda>_ _. False) s" by (simp add: interrupts_in_def)
  then show ?thesis unfolding hexbus_readio_def
  proof (rule wp_seq [OF wp_catch_none], elim conjE, goal_cases)
    case (1 ws t)
    obtain h c k where t: "t = (h, c, k)" by (cases t)
    from 1 have "hb_lastaddr (hb_view h) = a" by (simp add: hb_ready_def t)
    with 1 show ?case by (simp add: t wp_simps hb_view_get)
  qed
qed

theorem readio_returns_word_witness:
  "wp (hexbus_readio 60 sock_os 0x20000004)
     (\<lambda>x s'. x = 0x20180401 \<and> hb_ready 3 sk_in sk_out sk_script
        (example_view\<lparr>hb_lastaddr := 0x20000004, hb_addr_set := True, hb_inc := False,
           hb_interrupt_flag := False\<rparr>) []
        (HEXB_ADDR # fmt_08x 0x20000005 @ [HEXB_READ, 10]) [] s')
     (\<lambda>_ _. False) (example_state [read_reply_bytes ([AnsAddr 0x20000005, AnsSpace 13], 0x20180401, [10])])"
proof -
  have "wp (hexbus_readio 60 sock_os 0x20000004)
     (\<lambda>x s'. x = 0x20180401 \<and> hb_ready 3 sk_in sk_out sk_script
        (example_view\<lparr>hb_lastaddr := 0x20000004, hb_addr_set := True, hb_inc := False,
           hb_interrupt_flag := hb_interrupt_flag example_view
             \<or> AnsInt \<in> set ([] @ [AnsAddr 0x20000005, AnsSpace 13])\<rparr>) (tl [10])
        ([] @ address_cmd example_view (0x20000004 OR 1) @ [HEXB_READ, 10]) [] s')
     (\<lambda>_ _. False) (example_state [read_reply_bytes ([AnsAddr 0x20000005, AnsSpace 13], 0x20180401, [10])])"
    by (rule readio_returns_word [OF sock.scripted_link_axioms])
      (simp_all add: example_ready c_isspace_def read_reply_bytes_def ans_digits_def)
  then show ?thesis by (simp add: address_cmd_def example_view_def)
qed

subsection \<open>Two ways the decoder loses data\<close>

text \<open>An address that arrives in two pieces is taken wrongly: \<open>readidle\<close> returns when nothing is
  left to read, and the digits it has shifted in are lost with it. The next call starts the
  word from zero: of \<open>A20000104\<close>, split after four digits, \<open>0104\<close> remains.\<close>

theorem readidle_loses_half_an_address:
  "(case readidle 20 sock_os (hexbus_new (\<lambda>_. 0) 0 False True, llcommsi_new,
        \<lparr>sk_in = [0x41, 0x32, 0x30, 0x30, 0x30], sk_out = [], sk_script = []\<rparr>) of
      Inr (_, h, c, k) \<Rightarrow>
        (case readidle 20 sock_os (h, c, k\<lparr>sk_in := [0x30, 0x31, 0x30, 0x34, 10]\<rparr>) of
           Inr (_, h, c, k) \<Rightarrow> Some (hb_lastaddr h) | Inl _ \<Rightarrow> None)
    | Inl _ \<Rightarrow> None) = Some 0x104
   \<and> (case readidle 20 sock_os (hexbus_new (\<lambda>_. 0) 0 False True, llcommsi_new,
        \<lparr>sk_in = [0x41, 0x32, 0x30, 0x30, 0x30, 0x30, 0x31, 0x30, 0x34, 10], sk_out = [], sk_script = []\<rparr>) of
      Inr (_, h, c, k) \<Rightarrow> Some (hb_lastaddr h) | Inl _ \<Rightarrow> None) = Some 0x20000104"
  by code_simp

text \<open>\<open>lclreadcode\<close> means to drop the idle characters among those it has read. It moves its
  destination past an idle character instead of its source, so the character stays and the ones
  behind it are overwritten.\<close>

theorem lclreadcode_keeps_idle_characters:
  "lclreadcode_loop 3 0 0 0 [0x7f, 0x41, 0x42] = Inr [0x7f, 0x7f, 0x7f]"
  by code_simp

end
