(* ===== verification/Zopcodes.thy ===== *)
theory Zopcodes
  imports CText
begin

text \<open>
  \<open>sw/host/zopcodes.cpp\<close>: the disassembler of the ZipCPU. Two tables of patterns, a search for
  the first that matches, and the text of the instruction. The tables are the source's rows in
  the source's order. Text is a HOL string; the \<open>sprintf(line, "%-11s", line)\<close> of the code reads
  the buffer it writes, and is modelled as the padding it is meant to be.
\<close>

subsection \<open>Fields and patterns\<close>

definition ZIP_OPUNUSED :: u32 where "ZIP_OPUNUSED = -1"

definition ZIP_BITFIELD :: "u32 \<Rightarrow> u32 \<Rightarrow> u32" where
  "ZIP_BITFIELD ln mn = push_bit 8 (ln AND 0xff) + (mn AND 0xff)"

definition ZIP_REGFIELD :: "u32 \<Rightarrow> u32" where
  "ZIP_REGFIELD mn = 0x400 + (mn AND 0xff)"

definition ZIP_URGFIELD :: "u32 \<Rightarrow> u32" where
  "ZIP_URGFIELD mn = 0x100400 + (mn AND 0xff)"

definition ZIP_IMMFIELD :: "u32 \<Rightarrow> u32 \<Rightarrow> u32" where
  "ZIP_IMMFIELD ln mn = 0x40000000 + (push_bit 8 (ln AND 0xff) + (mn AND 0xff))"

definition ZIP_SP :: u32 where "ZIP_SP = 0xd0000"

record zopcode =
  s_opstr :: string
  s_mask :: u32
  s_val :: u32
  s_result :: u32
  s_ra :: u32
  s_rb :: u32
  s_i :: u32
  s_cf :: u32

definition zop :: "string \<Rightarrow> u32 \<Rightarrow> u32 \<Rightarrow> u32 \<Rightarrow> u32 \<Rightarrow> u32 \<Rightarrow> u32 \<Rightarrow> u32 \<Rightarrow> zopcode" where
  "zop name m v r a b i c =
     \<lparr>s_opstr = name, s_mask = m, s_val = v, s_result = r, s_ra = a, s_rb = b, s_i = i, s_cf = c\<rparr>"

definition zip_regstr :: "string list" where
  "zip_regstr =
    [''R0'', ''R1'', ''R2'', ''R3'', ''R4'', ''R5'', ''R6'', ''R7'',
     ''R8'', ''R9'', ''R10'', ''R11'', ''R12'', ''SP'', ''CC'', ''PC'',
     ''uR0'', ''uR1'', ''uR2'', ''uR3'', ''uR4'', ''uR5'', ''uR6'', ''uR7'',
     ''uR8'', ''uR9'', ''uR10'', ''uR11'', ''uR12'', ''uSP'', ''uCC'', ''uPC'',
     ''sR0'', ''sR1'', ''sR2'', ''sR3'', ''sR4'', ''sR5'', ''sR6'', ''sR7'',
     ''sR8'', ''sR9'', ''sR10'', ''sR11'', ''sR12'', ''sSP'', ''sCC'', ''sPC'', ''rILL'']"

definition zip_ccstr :: "string list" where
  "zip_ccstr = [[], ''.Z'', ''.LT'', ''.C'', ''.V'', ''.NZ'', ''.GE'', ''.NC'']"

subsection \<open>The tables\<close>

text \<open>Special cases of general instructions, which stand first.\<close>

definition zip_oplist_special :: "zopcode list" where
  "zip_oplist_special =
    [zop ''BUSY'' 0xffc7ffff 0x7883ffff ZIP_OPUNUSED ZIP_OPUNUSED ZIP_OPUNUSED ZIP_OPUNUSED (ZIP_BITFIELD 3 19),
     zop ''BZ'' 0xfffc0000 0x78880000 ZIP_OPUNUSED ZIP_OPUNUSED ZIP_OPUNUSED (ZIP_IMMFIELD 18 0) ZIP_OPUNUSED,
     zop ''BLT'' 0xfffc0000 0x78900000 ZIP_OPUNUSED ZIP_OPUNUSED ZIP_OPUNUSED (ZIP_IMMFIELD 18 0) ZIP_OPUNUSED,
     zop ''BC'' 0xfffc0000 0x78980000 ZIP_OPUNUSED ZIP_OPUNUSED ZIP_OPUNUSED (ZIP_IMMFIELD 18 0) ZIP_OPUNUSED,
     zop ''BV'' 0xfffc0000 0x78a00000 ZIP_OPUNUSED ZIP_OPUNUSED ZIP_OPUNUSED (ZIP_IMMFIELD 18 0) ZIP_OPUNUSED,
     zop ''BNZ'' 0xfffc0000 0x78a80000 ZIP_OPUNUSED ZIP_OPUNUSED ZIP_OPUNUSED (ZIP_IMMFIELD 18 0) ZIP_OPUNUSED,
     zop ''BGE'' 0xfffc0000 0x78b00000 ZIP_OPUNUSED ZIP_OPUNUSED ZIP_OPUNUSED (ZIP_IMMFIELD 18 0) ZIP_OPUNUSED,
     zop ''BNC'' 0xfffc0000 0x78b80000 ZIP_OPUNUSED ZIP_OPUNUSED ZIP_OPUNUSED (ZIP_IMMFIELD 18 0) ZIP_OPUNUSED,
     zop ''BRA'' 0xffc40000 0x78800000 ZIP_OPUNUSED ZIP_OPUNUSED ZIP_OPUNUSED (ZIP_IMMFIELD 18 0) (ZIP_BITFIELD 3 19),
     zop ''TRAP'' 0xfffffff0 0x76000000 ZIP_OPUNUSED ZIP_OPUNUSED ZIP_OPUNUSED ZIP_OPUNUSED ZIP_OPUNUSED,
     zop ''TRAP'' 0xff800000 0x76000000 ZIP_OPUNUSED ZIP_OPUNUSED ZIP_OPUNUSED ZIP_OPUNUSED ZIP_OPUNUSED,
     zop ''TRAP'' 0xffc7ffff 0x72000000 ZIP_OPUNUSED ZIP_OPUNUSED ZIP_OPUNUSED (ZIP_IMMFIELD 18 0) (ZIP_BITFIELD 3 19),
     zop ''TRAP'' 0xffc4ffff 0x72400000 ZIP_OPUNUSED ZIP_OPUNUSED ZIP_OPUNUSED ZIP_OPUNUSED (ZIP_BITFIELD 3 19),
     zop ''TRAP'' 0xffc40000 0x72400000 ZIP_OPUNUSED ZIP_OPUNUSED ZIP_OPUNUSED (ZIP_IMMFIELD 18 0) (ZIP_BITFIELD 3 19),
     zop ''CLR'' 0x87ffffff 0x06000000 (ZIP_REGFIELD 27) ZIP_OPUNUSED ZIP_OPUNUSED ZIP_OPUNUSED ZIP_OPUNUSED,
     zop ''CLR'' 0x87c7ffff 0x02000000 (ZIP_REGFIELD 27) (ZIP_REGFIELD 27) ZIP_OPUNUSED (ZIP_IMMFIELD 18 0) (ZIP_BITFIELD 3 19),
     zop ''HALT'' 0xffc7ffff 0x70c00010 ZIP_OPUNUSED ZIP_OPUNUSED ZIP_OPUNUSED ZIP_OPUNUSED (ZIP_BITFIELD 3 19),
     zop ''WAIT'' 0xffc7ffff 0x70c00030 ZIP_OPUNUSED ZIP_OPUNUSED ZIP_OPUNUSED ZIP_OPUNUSED (ZIP_BITFIELD 3 19),
     zop ''RTU'' 0xffc7ffff 0x70c00020 ZIP_OPUNUSED ZIP_OPUNUSED ZIP_OPUNUSED ZIP_OPUNUSED (ZIP_BITFIELD 3 19),
     zop ''RTN'' 0xffc7ffff 0x7b400000 ZIP_OPUNUSED ZIP_OPUNUSED ZIP_OPUNUSED ZIP_OPUNUSED (ZIP_BITFIELD 3 19),
     zop ''JMP'' 0xffc40000 0x7b400000 ZIP_OPUNUSED ZIP_OPUNUSED (ZIP_REGFIELD 14) (ZIP_IMMFIELD 13 0) (ZIP_BITFIELD 3 19),
     zop ''JMPI'' 0xff800000 0x7e000000 (ZIP_REGFIELD 27) ZIP_OPUNUSED ZIP_OPUNUSED (ZIP_IMMFIELD 23 0) ZIP_OPUNUSED,
     zop ''LJMP'' 0xffffffff 0x7c87c000 ZIP_OPUNUSED ZIP_OPUNUSED ZIP_OPUNUSED ZIP_OPUNUSED ZIP_OPUNUSED]"

text \<open>The 32 bit instructions.\<close>

definition zip_oplist_general :: "zopcode list" where
  "zip_oplist_general =
    [zop ''SUB'' 0x87c40000 0x00000000 (ZIP_REGFIELD 27) (ZIP_REGFIELD 27) ZIP_OPUNUSED (ZIP_IMMFIELD 18 0) (ZIP_BITFIELD 3 19),
     zop ''SUB'' 0x87c40000 0x00040000 (ZIP_REGFIELD 27) (ZIP_REGFIELD 27) (ZIP_REGFIELD 14) (ZIP_IMMFIELD 14 0) (ZIP_BITFIELD 3 19),
     zop ''AND'' 0x87c40000 0x00400000 (ZIP_REGFIELD 27) (ZIP_REGFIELD 27) ZIP_OPUNUSED (ZIP_IMMFIELD 18 0) (ZIP_BITFIELD 3 19),
     zop ''AND'' 0x87c40000 0x00440000 (ZIP_REGFIELD 27) (ZIP_REGFIELD 27) (ZIP_REGFIELD 14) (ZIP_IMMFIELD 14 0) (ZIP_BITFIELD 3 19),
     zop ''ADD'' 0x87c40000 0x00800000 (ZIP_REGFIELD 27) (ZIP_REGFIELD 27) ZIP_OPUNUSED (ZIP_IMMFIELD 18 0) (ZIP_BITFIELD 3 19),
     zop ''ADD'' 0x87c40000 0x00840000 (ZIP_REGFIELD 27) (ZIP_REGFIELD 27) (ZIP_REGFIELD 14) (ZIP_IMMFIELD 14 0) (ZIP_BITFIELD 3 19),
     zop ''OR'' 0x87c40000 0x00c00000 (ZIP_REGFIELD 27) (ZIP_REGFIELD 27) ZIP_OPUNUSED (ZIP_IMMFIELD 18 0) (ZIP_BITFIELD 3 19),
     zop ''OR'' 0x87c40000 0x00c40000 (ZIP_REGFIELD 27) (ZIP_REGFIELD 27) (ZIP_REGFIELD 14) (ZIP_IMMFIELD 14 0) (ZIP_BITFIELD 3 19),
     zop ''XOR'' 0x87c40000 0x01000000 (ZIP_REGFIELD 27) (ZIP_REGFIELD 27) ZIP_OPUNUSED (ZIP_IMMFIELD 18 0) (ZIP_BITFIELD 3 19),
     zop ''XOR'' 0x87c40000 0x01040000 (ZIP_REGFIELD 27) (ZIP_REGFIELD 27) (ZIP_REGFIELD 14) (ZIP_IMMFIELD 14 0) (ZIP_BITFIELD 3 19),
     zop ''LSR'' 0x87c40000 0x01400000 (ZIP_REGFIELD 27) (ZIP_REGFIELD 27) ZIP_OPUNUSED (ZIP_IMMFIELD 18 0) (ZIP_BITFIELD 3 19),
     zop ''LSR'' 0x87c40000 0x01440000 (ZIP_REGFIELD 27) (ZIP_REGFIELD 27) (ZIP_REGFIELD 14) (ZIP_IMMFIELD 14 0) (ZIP_BITFIELD 3 19),
     zop ''LSL'' 0x87c40000 0x01800000 (ZIP_REGFIELD 27) (ZIP_REGFIELD 27) ZIP_OPUNUSED (ZIP_IMMFIELD 18 0) (ZIP_BITFIELD 3 19),
     zop ''LSL'' 0x87c40000 0x01840000 (ZIP_REGFIELD 27) (ZIP_REGFIELD 27) (ZIP_REGFIELD 14) (ZIP_IMMFIELD 14 0) (ZIP_BITFIELD 3 19),
     zop ''ASR'' 0x87c40000 0x01c00000 (ZIP_REGFIELD 27) (ZIP_REGFIELD 27) ZIP_OPUNUSED (ZIP_IMMFIELD 18 0) (ZIP_BITFIELD 3 19),
     zop ''ASR'' 0x87c40000 0x01c40000 (ZIP_REGFIELD 27) (ZIP_REGFIELD 27) (ZIP_REGFIELD 14) (ZIP_IMMFIELD 14 0) (ZIP_BITFIELD 3 19),
     zop ''BREV'' 0x87c40000 0x02000000 (ZIP_REGFIELD 27) (ZIP_REGFIELD 27) ZIP_OPUNUSED (ZIP_IMMFIELD 18 0) (ZIP_BITFIELD 3 19),
     zop ''BREV'' 0x87c40000 0x02040000 (ZIP_REGFIELD 27) (ZIP_REGFIELD 27) (ZIP_REGFIELD 14) (ZIP_IMMFIELD 14 0) (ZIP_BITFIELD 3 19),
     zop ''LDILO'' 0x87c40000 0x02400000 (ZIP_REGFIELD 27) (ZIP_REGFIELD 27) ZIP_OPUNUSED (ZIP_IMMFIELD 18 0) (ZIP_BITFIELD 3 19),
     zop ''LDILO'' 0x87c40000 0x02440000 (ZIP_REGFIELD 27) (ZIP_REGFIELD 27) (ZIP_REGFIELD 14) (ZIP_IMMFIELD 14 0) (ZIP_BITFIELD 3 19),
     zop ''MPYUHI'' 0x87c40000 0x02800000 (ZIP_REGFIELD 27) (ZIP_REGFIELD 27) ZIP_OPUNUSED (ZIP_IMMFIELD 18 0) (ZIP_BITFIELD 3 19),
     zop ''MPYUHI'' 0x87c40000 0x02840000 (ZIP_REGFIELD 27) (ZIP_REGFIELD 27) (ZIP_REGFIELD 14) (ZIP_IMMFIELD 14 0) (ZIP_BITFIELD 3 19),
     zop ''MPYSHI'' 0x87c40000 0x02c00000 (ZIP_REGFIELD 27) (ZIP_REGFIELD 27) ZIP_OPUNUSED (ZIP_IMMFIELD 18 0) (ZIP_BITFIELD 3 19),
     zop ''MPYSHI'' 0x87c40000 0x02c40000 (ZIP_REGFIELD 27) (ZIP_REGFIELD 27) (ZIP_REGFIELD 14) (ZIP_IMMFIELD 14 0) (ZIP_BITFIELD 3 19),
     zop ''MPY'' 0x87c40000 0x03000000 (ZIP_REGFIELD 27) (ZIP_REGFIELD 27) ZIP_OPUNUSED (ZIP_IMMFIELD 18 0) (ZIP_BITFIELD 3 19),
     zop ''MPY'' 0x87c40000 0x03040000 (ZIP_REGFIELD 27) (ZIP_REGFIELD 27) (ZIP_REGFIELD 14) (ZIP_IMMFIELD 14 0) (ZIP_BITFIELD 3 19),
     zop ''MOV'' 0x87c42000 0x03400000 (ZIP_REGFIELD 27) ZIP_OPUNUSED (ZIP_REGFIELD 14) (ZIP_IMMFIELD 13 0) (ZIP_BITFIELD 3 19),
     zop ''MOV'' 0x87c42000 0x03440000 (ZIP_URGFIELD 27) ZIP_OPUNUSED (ZIP_REGFIELD 14) (ZIP_IMMFIELD 13 0) (ZIP_BITFIELD 3 19),
     zop ''MOV'' 0x87c42000 0x03402000 (ZIP_REGFIELD 27) ZIP_OPUNUSED (ZIP_URGFIELD 14) (ZIP_IMMFIELD 13 0) (ZIP_BITFIELD 3 19),
     zop ''MOV'' 0x87c42000 0x03442000 (ZIP_URGFIELD 27) ZIP_OPUNUSED (ZIP_URGFIELD 14) (ZIP_IMMFIELD 13 0) (ZIP_BITFIELD 3 19),
     zop ''DIVU'' 0x87c40000 0x03800000 (ZIP_REGFIELD 27) (ZIP_REGFIELD 27) ZIP_OPUNUSED (ZIP_IMMFIELD 18 0) (ZIP_BITFIELD 3 19),
     zop ''DIVU'' 0x87c40000 0x03840000 (ZIP_REGFIELD 27) (ZIP_REGFIELD 27) (ZIP_REGFIELD 14) (ZIP_IMMFIELD 14 0) (ZIP_BITFIELD 3 19),
     zop ''DIVS'' 0x87c40000 0x03c00000 (ZIP_REGFIELD 27) (ZIP_REGFIELD 27) ZIP_OPUNUSED (ZIP_IMMFIELD 18 0) (ZIP_BITFIELD 3 19),
     zop ''DIVS'' 0x87c40000 0x03c40000 (ZIP_REGFIELD 27) (ZIP_REGFIELD 27) (ZIP_REGFIELD 14) (ZIP_IMMFIELD 14 0) (ZIP_BITFIELD 3 19),
     zop ''CMP'' 0x87c40000 0x04000000 ZIP_OPUNUSED (ZIP_REGFIELD 27) ZIP_OPUNUSED (ZIP_IMMFIELD 18 0) (ZIP_BITFIELD 3 19),
     zop ''CMP'' 0x87c40000 0x04040000 ZIP_OPUNUSED (ZIP_REGFIELD 27) (ZIP_REGFIELD 14) (ZIP_IMMFIELD 14 0) (ZIP_BITFIELD 3 19),
     zop ''TST'' 0x87c40000 0x04400000 ZIP_OPUNUSED (ZIP_REGFIELD 27) ZIP_OPUNUSED (ZIP_IMMFIELD 18 0) (ZIP_BITFIELD 3 19),
     zop ''TST'' 0x87c40000 0x04440000 ZIP_OPUNUSED (ZIP_REGFIELD 27) (ZIP_REGFIELD 14) (ZIP_IMMFIELD 14 0) (ZIP_BITFIELD 3 19),
     zop ''LW'' 0x87c40000 0x04800000 (ZIP_REGFIELD 27) ZIP_OPUNUSED ZIP_OPUNUSED (ZIP_IMMFIELD 18 0) (ZIP_BITFIELD 3 19),
     zop ''LW'' 0x87c40000 0x04840000 (ZIP_REGFIELD 27) ZIP_OPUNUSED (ZIP_REGFIELD 14) (ZIP_IMMFIELD 14 0) (ZIP_BITFIELD 3 19),
     zop ''SW'' 0x87c40000 0x04c00000 ZIP_OPUNUSED (ZIP_REGFIELD 27) ZIP_OPUNUSED (ZIP_IMMFIELD 18 0) (ZIP_BITFIELD 3 19),
     zop ''SW'' 0x87c40000 0x04c40000 ZIP_OPUNUSED (ZIP_REGFIELD 27) (ZIP_REGFIELD 14) (ZIP_IMMFIELD 14 0) (ZIP_BITFIELD 3 19),
     zop ''LH'' 0x87c40000 0x05000000 (ZIP_REGFIELD 27) ZIP_OPUNUSED ZIP_OPUNUSED (ZIP_IMMFIELD 18 0) (ZIP_BITFIELD 3 19),
     zop ''LH'' 0x87c40000 0x05040000 (ZIP_REGFIELD 27) ZIP_OPUNUSED (ZIP_REGFIELD 14) (ZIP_IMMFIELD 14 0) (ZIP_BITFIELD 3 19),
     zop ''SH'' 0x87c40000 0x05400000 ZIP_OPUNUSED (ZIP_REGFIELD 27) ZIP_OPUNUSED (ZIP_IMMFIELD 18 0) (ZIP_BITFIELD 3 19),
     zop ''SH'' 0x87c40000 0x05440000 ZIP_OPUNUSED (ZIP_REGFIELD 27) (ZIP_REGFIELD 14) (ZIP_IMMFIELD 14 0) (ZIP_BITFIELD 3 19),
     zop ''LB'' 0x87c40000 0x05800000 (ZIP_REGFIELD 27) ZIP_OPUNUSED ZIP_OPUNUSED (ZIP_IMMFIELD 18 0) (ZIP_BITFIELD 3 19),
     zop ''LB'' 0x87c40000 0x05840000 (ZIP_REGFIELD 27) ZIP_OPUNUSED (ZIP_REGFIELD 14) (ZIP_IMMFIELD 14 0) (ZIP_BITFIELD 3 19),
     zop ''SB'' 0x87c40000 0x05c00000 ZIP_OPUNUSED (ZIP_REGFIELD 27) ZIP_OPUNUSED (ZIP_IMMFIELD 18 0) (ZIP_BITFIELD 3 19),
     zop ''SB'' 0x87c40000 0x05c40000 ZIP_OPUNUSED (ZIP_REGFIELD 27) (ZIP_REGFIELD 14) (ZIP_IMMFIELD 14 0) (ZIP_BITFIELD 3 19),
     zop ''LDI'' 0x87800000 0x06000000 (ZIP_REGFIELD 27) ZIP_OPUNUSED ZIP_OPUNUSED (ZIP_IMMFIELD 23 0) ZIP_OPUNUSED,
     zop ''BRK'' 0xf7ffffff 0x77000000 ZIP_OPUNUSED ZIP_OPUNUSED ZIP_OPUNUSED ZIP_OPUNUSED ZIP_OPUNUSED,
     zop ''BRK'' 0xf7c00000 0x77000000 ZIP_OPUNUSED ZIP_OPUNUSED ZIP_OPUNUSED (ZIP_IMMFIELD 22 0) ZIP_OPUNUSED,
     zop ''LOCK'' 0xf7ffffff 0x77400000 ZIP_OPUNUSED ZIP_OPUNUSED ZIP_OPUNUSED ZIP_OPUNUSED ZIP_OPUNUSED,
     zop ''LOCK'' 0xf7c00000 0x77400000 ZIP_OPUNUSED ZIP_OPUNUSED ZIP_OPUNUSED (ZIP_IMMFIELD 22 0) ZIP_OPUNUSED,
     zop ''SIM'' 0xf7ffffff 0x77800000 ZIP_OPUNUSED ZIP_OPUNUSED ZIP_OPUNUSED ZIP_OPUNUSED ZIP_OPUNUSED,
     zop ''SEXIT'' 0xf7ffffff 0x77800100 ZIP_OPUNUSED ZIP_OPUNUSED ZIP_OPUNUSED ZIP_OPUNUSED ZIP_OPUNUSED,
     zop ''SEXIT'' 0xf7fffff0 0x77800310 ZIP_OPUNUSED (ZIP_URGFIELD 0) ZIP_OPUNUSED ZIP_OPUNUSED ZIP_OPUNUSED,
     zop ''SEXIT'' 0xf7ffffe0 0x77800300 ZIP_OPUNUSED (ZIP_REGFIELD 0) ZIP_OPUNUSED ZIP_OPUNUSED ZIP_OPUNUSED,
     zop ''SEXIT'' 0xf7ffff00 0x77800100 ZIP_OPUNUSED ZIP_OPUNUSED ZIP_OPUNUSED (ZIP_IMMFIELD 8 0) ZIP_OPUNUSED,
     zop ''SDUMP'' 0xf7ffffff 0x778002ff ZIP_OPUNUSED ZIP_OPUNUSED ZIP_OPUNUSED ZIP_OPUNUSED ZIP_OPUNUSED,
     zop ''SDUMP'' 0xf7fffff0 0x77800200 ZIP_OPUNUSED (ZIP_REGFIELD 0) ZIP_OPUNUSED ZIP_OPUNUSED ZIP_OPUNUSED,
     zop ''SDUMP'' 0xf7fffff0 0x77800210 ZIP_OPUNUSED (ZIP_URGFIELD 0) ZIP_OPUNUSED ZIP_OPUNUSED ZIP_OPUNUSED,
     zop ''SOUT'' 0xf7fffff0 0x77800230 ZIP_OPUNUSED (ZIP_URGFIELD 0) ZIP_OPUNUSED ZIP_OPUNUSED ZIP_OPUNUSED,
     zop ''SOUT'' 0xf7ffffe0 0x77800220 ZIP_OPUNUSED (ZIP_REGFIELD 0) ZIP_OPUNUSED ZIP_OPUNUSED ZIP_OPUNUSED,
     zop ''SOUT'' 0xf7ffff00 0x77800400 ZIP_OPUNUSED ZIP_OPUNUSED ZIP_OPUNUSED (ZIP_IMMFIELD 8 0) ZIP_OPUNUSED,
     zop ''SDUMP'' 0xf7ffff00 0x77800200 ZIP_OPUNUSED ZIP_OPUNUSED ZIP_OPUNUSED (ZIP_IMMFIELD 8 0) ZIP_OPUNUSED,
     zop ''SIM'' 0xf7c00000 0x77800000 ZIP_OPUNUSED ZIP_OPUNUSED ZIP_OPUNUSED (ZIP_IMMFIELD 22 0) ZIP_OPUNUSED,
     zop ''NOOP'' 0xf7ffffff 0x77c00000 ZIP_OPUNUSED ZIP_OPUNUSED ZIP_OPUNUSED ZIP_OPUNUSED ZIP_OPUNUSED,
     zop ''NEXIT'' 0xf7ffffff 0x77c00100 ZIP_OPUNUSED ZIP_OPUNUSED ZIP_OPUNUSED ZIP_OPUNUSED ZIP_OPUNUSED,
     zop ''NEXIT'' 0xf7ffff00 0x77c00100 ZIP_OPUNUSED ZIP_OPUNUSED ZIP_OPUNUSED (ZIP_IMMFIELD 8 0) ZIP_OPUNUSED,
     zop ''NEXIT'' 0xf7fffff0 0x77c00310 ZIP_OPUNUSED (ZIP_URGFIELD 0) ZIP_OPUNUSED ZIP_OPUNUSED ZIP_OPUNUSED,
     zop ''NEXIT'' 0xf7ffffe0 0x77c00300 ZIP_OPUNUSED (ZIP_REGFIELD 0) ZIP_OPUNUSED ZIP_OPUNUSED ZIP_OPUNUSED,
     zop ''NDUMP'' 0xf7ffffff 0x77c002ff ZIP_OPUNUSED ZIP_OPUNUSED ZIP_OPUNUSED ZIP_OPUNUSED ZIP_OPUNUSED,
     zop ''NDUMP'' 0xf7fffff0 0x77c00200 ZIP_OPUNUSED (ZIP_REGFIELD 0) ZIP_OPUNUSED ZIP_OPUNUSED ZIP_OPUNUSED,
     zop ''NDUMP'' 0xf7fffff0 0x77c00210 ZIP_OPUNUSED (ZIP_URGFIELD 0) ZIP_OPUNUSED ZIP_OPUNUSED ZIP_OPUNUSED,
     zop ''NOUT'' 0xf7fffff0 0x77c00230 ZIP_OPUNUSED (ZIP_URGFIELD 0) ZIP_OPUNUSED ZIP_OPUNUSED ZIP_OPUNUSED,
     zop ''NOUT'' 0xf7ffffe0 0x77c00220 ZIP_OPUNUSED (ZIP_REGFIELD 0) ZIP_OPUNUSED ZIP_OPUNUSED ZIP_OPUNUSED,
     zop ''NOUT'' 0xf7ffff00 0x77c00400 ZIP_OPUNUSED ZIP_OPUNUSED ZIP_OPUNUSED (ZIP_IMMFIELD 8 0) ZIP_OPUNUSED,
     zop ''NDUMP'' 0xf7ffff00 0x77c00200 ZIP_OPUNUSED ZIP_OPUNUSED ZIP_OPUNUSED ZIP_OPUNUSED ZIP_OPUNUSED,
     zop ''NSIM'' 0xf7c00000 0x77c00000 ZIP_OPUNUSED ZIP_OPUNUSED ZIP_OPUNUSED (ZIP_IMMFIELD 22 0) ZIP_OPUNUSED,
     zop ''FPADD'' 0x87c43fff 0x06840000 (ZIP_REGFIELD 27) (ZIP_REGFIELD 27) (ZIP_REGFIELD 14) ZIP_OPUNUSED (ZIP_BITFIELD 3 19),
     zop ''FPSUB'' 0x87c43fff 0x06c40000 (ZIP_REGFIELD 27) (ZIP_REGFIELD 27) (ZIP_REGFIELD 14) ZIP_OPUNUSED (ZIP_BITFIELD 3 19),
     zop ''FPMPY'' 0x87c43fff 0x07040000 (ZIP_REGFIELD 27) (ZIP_REGFIELD 27) (ZIP_REGFIELD 14) ZIP_OPUNUSED (ZIP_BITFIELD 3 19),
     zop ''FPDIV'' 0x87c43fff 0x07440000 (ZIP_REGFIELD 27) (ZIP_REGFIELD 27) (ZIP_REGFIELD 14) ZIP_OPUNUSED (ZIP_BITFIELD 3 19),
     zop ''FPI2F'' 0x87c40000 0x07800000 (ZIP_REGFIELD 27) ZIP_OPUNUSED ZIP_OPUNUSED (ZIP_IMMFIELD 18 0) (ZIP_BITFIELD 3 19),
     zop ''FPI2F'' 0x87c40000 0x07840000 (ZIP_REGFIELD 27) ZIP_OPUNUSED (ZIP_REGFIELD 14) (ZIP_IMMFIELD 14 0) (ZIP_BITFIELD 3 19),
     zop ''FPF2I'' 0x87c40000 0x07c40000 (ZIP_REGFIELD 27) ZIP_OPUNUSED (ZIP_REGFIELD 14) (ZIP_IMMFIELD 14 0) (ZIP_BITFIELD 3 19)]"

text \<open>The compact instructions in the upper half of a word.\<close>

definition zip_oplist_compact :: "zopcode list" where
  "zip_oplist_compact =
    [zop ''BRA'' 0xff800000 0xf9000000 ZIP_OPUNUSED ZIP_OPUNUSED ZIP_OPUNUSED (ZIP_IMMFIELD 7 16) ZIP_OPUNUSED,
     zop ''CLR'' 0x87ff0000 0x86000000 (ZIP_REGFIELD 27) ZIP_OPUNUSED ZIP_OPUNUSED ZIP_OPUNUSED ZIP_OPUNUSED,
     zop ''RTN'' 0xffff0000 0xff800000 ZIP_OPUNUSED ZIP_OPUNUSED ZIP_OPUNUSED ZIP_OPUNUSED ZIP_OPUNUSED,
     zop ''JMP'' 0xff800000 0xff000000 (ZIP_REGFIELD 27) ZIP_OPUNUSED (ZIP_REGFIELD 19) (ZIP_IMMFIELD 3 16) ZIP_OPUNUSED,
     zop ''SUB'' 0x87800000 0x80000000 (ZIP_REGFIELD 27) (ZIP_REGFIELD 27) ZIP_OPUNUSED (ZIP_IMMFIELD 7 16) ZIP_OPUNUSED,
     zop ''SUB'' 0x87800000 0x80800000 (ZIP_REGFIELD 27) (ZIP_REGFIELD 27) (ZIP_REGFIELD 19) (ZIP_IMMFIELD 3 16) ZIP_OPUNUSED,
     zop ''AND'' 0x87800000 0x81000000 (ZIP_REGFIELD 27) (ZIP_REGFIELD 27) ZIP_OPUNUSED (ZIP_IMMFIELD 7 16) ZIP_OPUNUSED,
     zop ''AND'' 0x87800000 0x81800000 (ZIP_REGFIELD 27) (ZIP_REGFIELD 27) (ZIP_REGFIELD 19) (ZIP_IMMFIELD 3 16) ZIP_OPUNUSED,
     zop ''ADD'' 0x87800000 0x82000000 (ZIP_REGFIELD 27) (ZIP_REGFIELD 27) ZIP_OPUNUSED (ZIP_IMMFIELD 7 16) ZIP_OPUNUSED,
     zop ''ADD'' 0x87800000 0x82800000 (ZIP_REGFIELD 27) (ZIP_REGFIELD 27) (ZIP_REGFIELD 19) (ZIP_IMMFIELD 3 16) ZIP_OPUNUSED,
     zop ''CMP'' 0x87800000 0x83000000 (ZIP_REGFIELD 27) ZIP_OPUNUSED (ZIP_REGFIELD 19) (ZIP_IMMFIELD 7 16) ZIP_OPUNUSED,
     zop ''CMP'' 0x87800000 0x83800000 (ZIP_REGFIELD 27) ZIP_OPUNUSED (ZIP_REGFIELD 19) (ZIP_IMMFIELD 3 16) ZIP_OPUNUSED,
     zop ''LW'' 0x87800000 0x84000000 (ZIP_REGFIELD 27) ZIP_OPUNUSED ZIP_SP (ZIP_IMMFIELD 7 16) ZIP_OPUNUSED,
     zop ''LW'' 0x87800000 0x84800000 (ZIP_REGFIELD 27) ZIP_OPUNUSED (ZIP_REGFIELD 19) (ZIP_IMMFIELD 3 16) ZIP_OPUNUSED,
     zop ''SW'' 0x87000000 0x85000000 ZIP_OPUNUSED (ZIP_REGFIELD 27) ZIP_SP (ZIP_IMMFIELD 7 16) ZIP_OPUNUSED,
     zop ''SW'' 0x87800000 0x85800000 ZIP_OPUNUSED (ZIP_REGFIELD 27) (ZIP_REGFIELD 19) (ZIP_IMMFIELD 3 16) ZIP_OPUNUSED,
     zop ''LDI'' 0x87000000 0x86000000 (ZIP_REGFIELD 27) ZIP_OPUNUSED ZIP_OPUNUSED (ZIP_IMMFIELD 8 16) ZIP_OPUNUSED,
     zop ''MOV'' 0x87800000 0x87800000 ZIP_OPUNUSED (ZIP_REGFIELD 27) (ZIP_REGFIELD 19) (ZIP_IMMFIELD 3 16) ZIP_OPUNUSED,
     zop ''ILLV'' 0x80000000 0x80000000 ZIP_OPUNUSED ZIP_OPUNUSED ZIP_OPUNUSED (ZIP_IMMFIELD 32 16) ZIP_OPUNUSED,
     zop ''ILL'' 0x00000000 0x00000000 ZIP_OPUNUSED ZIP_OPUNUSED ZIP_OPUNUSED (ZIP_IMMFIELD 32 0) ZIP_OPUNUSED]"

definition zip_oplist :: "zopcode list" where
  "zip_oplist = zip_oplist_special @ zip_oplist_general @ zip_oplist_compact"

text \<open>The compact instructions in the lower half of a word.\<close>

definition zip_opbottomlist :: "zopcode list" where
  "zip_opbottomlist =
    [zop ''BRA'' 0x80007f80 0x80007900 ZIP_OPUNUSED ZIP_OPUNUSED ZIP_OPUNUSED (ZIP_IMMFIELD 7 0) ZIP_OPUNUSED,
     zop ''CLR'' 0x800007ff 0x80000600 (ZIP_REGFIELD 11) ZIP_OPUNUSED ZIP_OPUNUSED ZIP_OPUNUSED ZIP_OPUNUSED,
     zop ''RTN'' 0x80007fff 0x80007f80 ZIP_OPUNUSED ZIP_OPUNUSED ZIP_OPUNUSED ZIP_OPUNUSED ZIP_OPUNUSED,
     zop ''JMP'' 0x80007f80 0x80007f00 (ZIP_REGFIELD 11) ZIP_OPUNUSED (ZIP_REGFIELD 3) (ZIP_IMMFIELD 3 0) ZIP_OPUNUSED,
     zop ''LJMP'' 0x80007fff 0x80007cf8 (ZIP_REGFIELD 11) ZIP_OPUNUSED (ZIP_REGFIELD 3) (ZIP_IMMFIELD 3 0) ZIP_OPUNUSED,
     zop ''SUB'' 0x80000780 0x80000000 (ZIP_REGFIELD 11) (ZIP_REGFIELD 11) ZIP_OPUNUSED (ZIP_IMMFIELD 7 0) ZIP_OPUNUSED,
     zop ''SUB'' 0x80000780 0x80000080 (ZIP_REGFIELD 11) (ZIP_REGFIELD 11) (ZIP_REGFIELD 3) (ZIP_IMMFIELD 3 0) ZIP_OPUNUSED,
     zop ''AND'' 0x80000780 0x80000100 (ZIP_REGFIELD 11) (ZIP_REGFIELD 11) ZIP_OPUNUSED (ZIP_IMMFIELD 7 0) ZIP_OPUNUSED,
     zop ''AND'' 0x80000780 0x80000180 (ZIP_REGFIELD 11) (ZIP_REGFIELD 11) (ZIP_REGFIELD 3) (ZIP_IMMFIELD 3 0) ZIP_OPUNUSED,
     zop ''ADD'' 0x80000780 0x80000200 (ZIP_REGFIELD 11) (ZIP_REGFIELD 11) ZIP_OPUNUSED (ZIP_IMMFIELD 7 0) ZIP_OPUNUSED,
     zop ''ADD'' 0x80000780 0x80000280 (ZIP_REGFIELD 11) (ZIP_REGFIELD 11) (ZIP_REGFIELD 3) (ZIP_IMMFIELD 3 0) ZIP_OPUNUSED,
     zop ''CMP'' 0x80000780 0x80000300 (ZIP_REGFIELD 11) ZIP_OPUNUSED ZIP_OPUNUSED (ZIP_IMMFIELD 7 0) ZIP_OPUNUSED,
     zop ''CMP'' 0x80000780 0x80000380 (ZIP_REGFIELD 11) ZIP_OPUNUSED (ZIP_REGFIELD 3) (ZIP_IMMFIELD 3 0) ZIP_OPUNUSED,
     zop ''LW'' 0x80000780 0x80000400 (ZIP_REGFIELD 11) ZIP_OPUNUSED ZIP_SP (ZIP_IMMFIELD 7 0) ZIP_OPUNUSED,
     zop ''LW'' 0x80000780 0x80000480 (ZIP_REGFIELD 11) ZIP_OPUNUSED (ZIP_REGFIELD 3) (ZIP_IMMFIELD 3 0) ZIP_OPUNUSED,
     zop ''SW'' 0x80000780 0x80000500 ZIP_OPUNUSED (ZIP_REGFIELD 11) ZIP_SP (ZIP_IMMFIELD 7 0) ZIP_OPUNUSED,
     zop ''SW'' 0x80000780 0x80000580 ZIP_OPUNUSED (ZIP_REGFIELD 11) (ZIP_REGFIELD 3) (ZIP_IMMFIELD 3 0) ZIP_OPUNUSED,
     zop ''LDI'' 0x80000700 0x80000600 (ZIP_REGFIELD 11) ZIP_OPUNUSED ZIP_OPUNUSED (ZIP_IMMFIELD 8 0) ZIP_OPUNUSED,
     zop ''MOV'' 0x80000780 0x80000780 (ZIP_REGFIELD 11) ZIP_OPUNUSED (ZIP_REGFIELD 3) (ZIP_IMMFIELD 3 0) ZIP_OPUNUSED,
     zop ''ILLV'' 0x80000000 0x80000000 ZIP_OPUNUSED ZIP_OPUNUSED ZIP_OPUNUSED (ZIP_IMMFIELD 15 0) ZIP_OPUNUSED,
     zop ''ILL'' 0x00000000 0x00000000 ZIP_OPUNUSED ZIP_OPUNUSED ZIP_OPUNUSED (ZIP_IMMFIELD 15 0) ZIP_OPUNUSED]"

subsection \<open>Instructions that span words\<close>

definition TWOWORD_LOAD :: "u32 \<Rightarrow> u32 \<Rightarrow> bool" where
  "TWOWORD_LOAD one two \<longleftrightarrow>
     one AND 0x87c40000 = 0x02000000 \<and> two AND 0x87c40000 = 0x02400000
     \<and> (one XOR two) AND 0xf8380000 = 0"

definition OFFSET_PC_MOV :: "u32 \<Rightarrow> bool" where
  "OFFSET_PC_MOV ins \<longleftrightarrow> ins AND 0x87c7e000 = 0x0343c000"

definition TWOWORD_LJMP :: "u32 \<Rightarrow> bool" where
  "TWOWORD_LJMP iword \<longleftrightarrow> iword = 0x7c87c000 \<or> iword AND 0x80007fff = 0x80007cf8"

definition TWOWORD_JSR :: "u32 \<Rightarrow> u32 \<Rightarrow> bool" where
  "TWOWORD_JSR iword nxtword \<longleftrightarrow> iword = 0x0343c001 \<and> nxtword AND 0xffc40000 = 0x78800000"

definition THREEWORD_LJSR :: "u32 \<Rightarrow> u32 \<Rightarrow> bool" where
  "THREEWORD_LJSR iword nxtword \<longleftrightarrow> iword = 0x0343c002 \<and> nxtword = 0x7c87c000"

definition CIS_JSR :: "u32 \<Rightarrow> bool" where
  "CIS_JSR iword \<longleftrightarrow> iword = 0x87f9fcf8"

definition POSSIBLE_TWOWORD_BEGINNING :: "u32 \<Rightarrow> bool" where
  "POSSIBLE_TWOWORD_BEGINNING iword \<longleftrightarrow>
     TWOWORD_LJMP iword \<or> iword = 0x0343c001 \<or> iword = 0x0343c002 \<or> CIS_JSR iword
     \<or> iword AND 0x87c40000 = 0x02000000"

fun zip_bitreverse_loop :: "nat \<Rightarrow> u32 \<Rightarrow> u32 \<Rightarrow> u32" where
  "zip_bitreverse_loop 0 r v = r"
| "zip_bitreverse_loop (Suc n) r v = zip_bitreverse_loop n (push_bit 1 r OR v AND 1) (drop_bit 1 v)"

definition zip_bitreverse :: "u32 \<Rightarrow> u32" where
  "zip_bitreverse v = zip_bitreverse_loop 32 0 v"

definition TWOWORD_VALUE :: "u32 \<Rightarrow> u32 \<Rightarrow> u32" where
  "TWOWORD_VALUE one two = (two AND 0xffff) OR zip_bitreverse (one AND 0xffff)"

subsection \<open>Fields of an instruction\<close>

text \<open>\<open>long\<close> has 64 bits; the result of \<open>zip_getbits\<close> is an \<open>int\<close>.\<close>

definition zip_sbits :: "u64 \<Rightarrow> nat \<Rightarrow> u64" where
  "zip_sbits val bits =
     (let r = val AND (push_bit bits 1 - 1) in
      if r AND push_bit (bits - 1) 1 \<noteq> 0 then r OR push_bit bits (-1) else r)"

definition zip_ubits :: "u64 \<Rightarrow> nat \<Rightarrow> u64" where
  "zip_ubits val bits = val AND (push_bit bits 1 - 1)"

definition zip_getbits :: "u32 \<Rightarrow> u32 \<Rightarrow> u32" where
  "zip_getbits ins which =
     (let val = ucast (drop_bit (unat (which AND 0x3f)) ins);
          bits = unat (drop_bit 8 which AND 0x3f)
      in
      if which AND 0x40000000 \<noteq> 0 then ucast (zip_sbits val bits)
      else ucast (zip_ubits val bits + ucast (drop_bit 16 which AND 0xff)))"

subsection \<open>The text of an instruction\<close>

definition zregstr :: "u32 \<Rightarrow> string res" where
  "zregstr r = aget zip_regstr (unat r)"

definition zccstr :: "u32 \<Rightarrow> string res" where
  "zccstr c = aget zip_ccstr (unat c)"

definition pad11 :: "string \<Rightarrow> string" where
  "pad11 line = line @ replicate (11 - length line) CHR '' ''"

text \<open>\<open>strncasecmp(a, b, n) == 0\<close> and \<open>strcasecmp(a, b) == 0\<close>.\<close>

definition c_toupper :: "char \<Rightarrow> char" where
  "c_toupper c = (if 97 \<le> (of_char c :: nat) \<and> (of_char c :: nat) \<le> 122 then char_of ((of_char c :: nat) - 32) else c)"

definition strncase_eq :: "string \<Rightarrow> string \<Rightarrow> nat \<Rightarrow> bool" where
  "strncase_eq a b n \<longleftrightarrow> map c_toupper (take n a) = map c_toupper (take n b)"

definition strcase_eq :: "string \<Rightarrow> string \<Rightarrow> bool" where
  "strcase_eq a b \<longleftrightarrow> map c_toupper a = map c_toupper b"

text \<open>The character at an index of the 8 characters of \<open>s_opstr\<close>, NUL after the name.\<close>

definition op_char :: "string \<Rightarrow> nat \<Rightarrow> char" where
  "op_char name k = (if k < length name then name ! k else CHR 0x00)"

text \<open>The operands of a store, and of an instruction that is neither a store nor a branch.\<close>

definition zop_store_text :: "zopcode \<Rightarrow> u32 \<Rightarrow> u32 \<Rightarrow> u32 \<Rightarrow> string res" where
  "zop_store_text row ra rb imv =
     bindE (zregstr ra) (\<lambda>sa.
     let imm = (if s_i row \<noteq> ZIP_OPUNUSED then
                  if s_rb row = ZIP_OPUNUSED then ''($'' @ fmt_d (sint imv) @ '')''
                  else if imv \<noteq> 0 then ''$'' @ fmt_d (sint imv) else []
                else []) in
     bindE (if s_rb row \<noteq> ZIP_OPUNUSED then bindE (zregstr rb) (\<lambda>sb. Inr (''('' @ sb @ '')'')) else Inr [])
       (\<lambda>base. Inr (sa @ '','' @ imm @ base)))"

definition zop_memop :: "string \<Rightarrow> bool" where
  "zop_memop name \<longleftrightarrow>
     CHR ''L'' = c_toupper (op_char name 0)
     \<and> (CHR ''W'' = c_toupper (op_char name 1) \<or> CHR ''H'' = c_toupper (op_char name 1)
        \<or> CHR ''B'' = c_toupper (op_char name 1))
     \<and> op_char name 2 = CHR 0x00"

definition zop_operand_text :: "zopcode \<Rightarrow> u32 \<Rightarrow> u32 \<Rightarrow> u32 \<Rightarrow> u32 \<Rightarrow> string res" where
  "zop_operand_text row rr ra rb imv =
     (let memop = zop_memop (s_opstr row);
          imm = (if s_i row \<noteq> ZIP_OPUNUSED then
                   if memop \<and> s_rb row = ZIP_OPUNUSED then ''($'' @ fmt_d (sint imv) @ '')''
                   else if memop \<and> imv \<noteq> 0 then fmt_d (sint imv)
                   else if \<not> memop \<and> (imv \<noteq> 0 \<or> s_rb row = ZIP_OPUNUSED) then
                     ''$'' @ fmt_d (sint imv) @ (if s_rb row \<noteq> ZIP_OPUNUSED then ''+'' else [])
                   else []
                 else [])
      in
      bindE (if s_rb row \<noteq> ZIP_OPUNUSED then
               bindE (zregstr rb) (\<lambda>sb. Inr (if memop then ''('' @ sb @ '')'' else sb))
             else Inr []) (\<lambda>base.
      let comma = (if (s_i row \<noteq> ZIP_OPUNUSED \<or> s_rb row \<noteq> ZIP_OPUNUSED)
                      \<and> (s_ra row \<noteq> ZIP_OPUNUSED \<or> s_result row \<noteq> ZIP_OPUNUSED) then '','' else [])
      in
      bindE (if s_ra row \<noteq> ZIP_OPUNUSED then zregstr ra
             else if s_result row \<noteq> ZIP_OPUNUSED then zregstr rr
             else Inr []) (\<lambda>dest. Inr (imm @ base @ comma @ dest))))"

definition zop_field :: "u32 \<Rightarrow> u32 \<Rightarrow> u32" where
  "zop_field ins which = (if which \<noteq> ZIP_OPUNUSED then zip_getbits ins which else -1)"

definition zop_row_text :: "u32 \<Rightarrow> u32 \<Rightarrow> zopcode \<Rightarrow> string res" where
  "zop_row_text addr ins row =
     bindE (if s_cf row \<noteq> ZIP_OPUNUSED then zccstr (zip_getbits ins (s_cf row)) else Inr []) (\<lambda>cc.
     let line = pad11 (s_opstr row @ cc);
         rr = zop_field ins (s_result row);
         ra = zop_field ins (s_ra row);
         rb = zop_field ins (s_rb row);
         imv = (if s_i row \<noteq> ZIP_OPUNUSED then zip_getbits ins (s_i row) else 0);
         imv = (if s_rb row \<noteq> ZIP_OPUNUSED \<and> rb = 15 then push_bit 2 imv else imv)
     in
     if strncase_eq ''SW'' (s_opstr row) 2 \<or> strncase_eq ''SH'' (s_opstr row) 2
        \<or> strncase_eq ''SB'' (s_opstr row) 2 then
       bindE (zop_store_text row ra rb imv) (\<lambda>t. Inr (line @ t))
     else if strncase_eq ''LJMP'' (s_opstr row) 3 then Inr line
     else if op_char (s_opstr row) 0 = CHR ''B'' \<and> \<not> strcase_eq (s_opstr row) ''BUSY''
        \<and> \<not> strcase_eq (s_opstr row) ''BREV'' \<and> \<not> strcase_eq (s_opstr row) ''BRK'' \<and> addr \<noteq> 0 then
       Inr (line @ ''@0x'' @ str_08x (addr + (zip_getbits ins (s_i row) + 4)))
     else bindE (zop_operand_text row rr ra rb imv) (\<lambda>t. Inr (line @ t)))"

text \<open>The search for the first row that matches; the last row, whose mask is 0, ends it.\<close>

fun zop_find :: "zopcode list \<Rightarrow> u32 \<Rightarrow> zopcode option res" where
  "zop_find [] ins = Inl OutOfBounds"
| "zop_find (row # rows) ins =
     (if s_mask row = 0 then Inr None
      else if ins AND s_mask row = s_val row then Inr (Some row)
      else zop_find rows ins)"

definition zop_consistent :: "zopcode \<Rightarrow> bool" where
  "zop_consistent row \<longleftrightarrow> NOT (s_mask row) AND s_val row = 0"

definition zipi_to_halfstring :: "u32 \<Rightarrow> u32 \<Rightarrow> zopcode list \<Rightarrow> string res" where
  "zipi_to_halfstring addr ins listp =
     (if OFFSET_PC_MOV ins then
        bindE (zccstr (zip_getbits ins (ZIP_BITFIELD 3 19))) (\<lambda>cc.
        bindE (zregstr (zip_getbits ins (ZIP_REGFIELD 27))) (\<lambda>dreg.
          let iv = ucast (zip_sbits (ucast ins) 13);
              ref = push_bit 2 iv + addr + 4
          in Inr (pad11 (''MOV'' @ cc) @ ''0x'' @ str_08x ref @ '','' @ dreg)))
      else
        bindE (assertE (list_all zop_consistent zip_oplist)) (\<lambda>_.
        bindE (zop_find listp ins) (\<lambda>found.
        bindE (case found of None \<Rightarrow> Inr [] | Some row \<Rightarrow> zop_row_text addr ins row) (\<lambda>line.
          Inr (if line = [] then ''ILL '' @ str_08x ins else line)))))"

definition zipi_to_double_string :: "u32 \<Rightarrow> u32 \<Rightarrow> (string \<times> string) res" where
  "zipi_to_double_string addr ins =
     bindE (zipi_to_halfstring addr ins zip_oplist) (\<lambda>la.
     bindE (if ins AND 0x80000000 \<noteq> 0 then zipi_to_halfstring addr ins zip_opbottomlist else Inr [])
       (\<lambda>lb. Inr (la, lb)))"

definition zop_early_branch :: "u32 \<Rightarrow> u32 \<Rightarrow> u32" where
  "zop_early_branch pc insn =
     (if insn AND 0xf8000000 \<noteq> 0x78000000 then pc + 4
      else if insn AND 0xffc60000 = 0x78800000 then pc + 4 + push_bit 2 (insn AND 0x3ffff)
      else if insn AND 0xffc60000 = 0x78820000 then pc + 4 + push_bit 2 (0x40000 - (insn AND 0x3ffff))
      else pc + 4)"

end
