(* ===== verification/ZopDecode.thy ===== *)
theory ZopDecode
  imports ZopProps
begin

text \<open>
  Which row of the table an instruction is given, decided on masks and values alone; what that
  says of the arithmetic instructions and of the rows that can never be reached; and the two
  word loads.
\<close>

subsection \<open>The first row that matches, decided on the known bits\<close>

text \<open>The bits \<open>m\<close> of the instruction are known to be \<open>v\<close>, and its register field is neither CC
  nor PC, that is, its bits \<open>0x70000000\<close> are not all set.\<close>

definition row_excluded :: "u32 \<Rightarrow> u32 \<Rightarrow> zopcode \<Rightarrow> bool" where
  "row_excluded m v row \<longleftrightarrow>
     s_mask row \<noteq> 0
     \<and> (s_mask row AND m AND (s_val row XOR v) \<noteq> 0
        \<or> s_mask row AND 0x70000000 = 0x70000000 \<and> s_val row AND 0x70000000 = 0x70000000)"

definition row_included :: "u32 \<Rightarrow> u32 \<Rightarrow> zopcode \<Rightarrow> bool" where
  "row_included m v row \<longleftrightarrow>
     s_mask row \<noteq> 0 \<and> s_mask row AND m = s_mask row \<and> s_mask row AND v = s_val row"

fun decided :: "u32 \<Rightarrow> u32 \<Rightarrow> zopcode list \<Rightarrow> zopcode option" where
  "decided m v [] = None"
| "decided m v (row # rows) =
     (if row_excluded m v row then decided m v rows
      else if row_included m v row then Some row else None)"

lemma row_excluded_no_match:
  assumes "row_excluded m v row" "ins AND m = v" "ins AND 0x70000000 \<noteq> 0x70000000"
  shows "ins AND s_mask row \<noteq> s_val row"
proof
  assume match: "ins AND s_mask row = s_val row"
  from assms(1) consider "s_mask row AND m AND (s_val row XOR v) \<noteq> 0"
    | "s_mask row AND 0x70000000 = 0x70000000" "s_val row AND 0x70000000 = 0x70000000"
    by (auto simp: row_excluded_def)
  then show False
  proof cases
    case 1
    have "s_mask row AND m AND (s_val row XOR v) = 0"
      by (rule bit_word_eqI) (auto simp: bit_simps simp flip: match assms(2))
    with 1 show False by simp
  next
    case 2
    have "ins AND 0x70000000 = (ins AND s_mask row) AND 0x70000000"
      using 2(1) by (metis and.assoc)
    with 2(2) match assms(3) show False by simp
  qed
qed

lemma row_included_match:
  assumes "row_included m v row" "ins AND m = v"
  shows "ins AND s_mask row = s_val row"
proof -
  have "s_val row = s_mask row AND (ins AND m)" using assms by (simp add: row_included_def)
  also have "\<dots> = ins AND (s_mask row AND m)" by (simp add: ac_simps)
  finally show ?thesis using assms(1) by (simp add: row_included_def)
qed

lemma decided_find:
  "decided m v rows = Some row \<Longrightarrow> ins AND m = v \<Longrightarrow> ins AND 0x70000000 \<noteq> 0x70000000 \<Longrightarrow>
     zop_find rows ins = Inr (Some row)"
proof (induction rows)
  case (Cons r rows)
  show ?case
  proof (cases "row_excluded m v r")
    case True
    with Cons row_excluded_no_match [OF True Cons.prems(2,3)] show ?thesis
      by (simp add: row_excluded_def)
  next
    case False
    with Cons.prems(1) have "row_included m v r" "r = row" by (auto split: if_splits)
    with row_included_match [OF _ Cons.prems(2)] show ?thesis by (simp add: row_included_def)
  qed
qed simp

subsection \<open>Arithmetic with an immediate\<close>

text \<open>The eight operations with codes 0 to 7, and the word that encodes one with a destination
  register, a condition and an immediate of 18 bits.\<close>

definition alu_names :: "string list" where
  "alu_names = [''SUB'', ''AND'', ''ADD'', ''OR'', ''XOR'', ''LSR'', ''LSL'', ''ASR'']"

definition alu_row :: "nat \<Rightarrow> zopcode" where
  "alu_row i = zop (alu_names ! i) 0x87c40000 (push_bit 22 (of_nat i)) (ZIP_REGFIELD 27) (ZIP_REGFIELD 27)
     ZIP_OPUNUSED (ZIP_IMMFIELD 18 0) (ZIP_BITFIELD 3 19)"

lemma alu_rows_decided:
  "map (\<lambda>i. decided 0x87c40000 (push_bit 22 (of_nat i)) zip_oplist) [0..<8] = map (\<lambda>i. Some (alu_row i)) [0..<8]"
  by code_simp

definition alu_word :: "nat \<Rightarrow> u32 \<Rightarrow> u32 \<Rightarrow> u32 \<Rightarrow> u32" where
  "alu_word i dreg cond imm =
     push_bit 27 dreg OR push_bit 22 (of_nat i) OR push_bit 19 cond OR (imm AND 0x3ffff)"

lemma small_word_bit: "(w :: u32) < 2 ^ k \<Longrightarrow> k < 32 \<Longrightarrow> bit w n \<Longrightarrow> n < k"
proof (rule ccontr)
  assume w: "w < 2 ^ k" "k < 32" "bit w n" "\<not> n < k"
  then have "unat w < 2 ^ k" by (simp add: word_less_nat_alt unat_pow2_u32)
  then have "take_bit k w = w"
    by (simp add: word_unat_eq_iff unsigned_take_bit_eq take_bit_nat_eq_self)
  then have "bit w n \<longleftrightarrow> n < k \<and> bit w n" by (metis bit_take_bit_iff)
  with w(3,4) show False by simp
qed

lemma alu_word_bits:
  assumes "i < 8" "dreg < 14" "cond < 8"
  shows "bit (alu_word i dreg cond imm) n \<longleftrightarrow>
    n < 18 \<and> bit imm n \<or> 19 \<le> n \<and> n < 22 \<and> bit cond (n - 19)
    \<or> 22 \<le> n \<and> n < 25 \<and> bit (of_nat i :: u32) (n - 22) \<or> 27 \<le> n \<and> n < 31 \<and> bit dreg (n - 27)"
proof -
  have "dreg < 2 ^ 4" using assms(2) by (simp add: word_less_nat_alt)
  note d = small_word_bit [OF this, of "n - 27", simplified]
  have "cond < 2 ^ 3" using assms(3) by simp
  note c = small_word_bit [OF this, of "n - 19", simplified]
  have "(of_nat i :: u32) < 2 ^ 3"
    using assms(1) by (simp add: word_less_nat_alt unsigned_of_nat take_bit_nat_eq_self)
  note opc = small_word_bit [OF this, of "n - 22", simplified]
  have m: "(0x3ffff :: u32) = mask 18" by (simp add: mask_eq_exp_minus_1)
  have w: "bit (alu_word i dreg cond imm) n \<longleftrightarrow> n < 32 \<and>
     (27 \<le> n \<and> bit dreg (n - 27) \<or> 22 \<le> n \<and> bit (of_nat i :: u32) (n - 22)
      \<or> 19 \<le> n \<and> bit cond (n - 19) \<or> n < 18 \<and> bit imm n)"
    unfolding alu_word_def m bit_or_iff bit_and_iff bit_push_bit_iff bit_mask_iff by auto
  consider "n < 18" | "n = 18" | "19 \<le> n" "n < 22" | "22 \<le> n" "n < 25" | "25 \<le> n" "n < 27"
    | "27 \<le> n" "n < 31" | "31 \<le> n" by linarith
  then show ?thesis
  proof cases
    case 7
    with d c opc show ?thesis unfolding w by auto
  qed (use d c opc in \<open>unfold w, auto\<close>)
qed

lemma zip_sbits_bit:
  assumes "0 < k" "k < 64"
  shows "bit (zip_sbits v k) n \<longleftrightarrow> n < 64 \<and> bit v (min n (k - 1))"
proof -
  have m: "push_bit (k - 1) (1 :: u64) = 2 ^ (k - 1)" by (simp add: push_bit_eq_mult)
  have sgn: "(v AND mask k) AND 2 ^ (k - 1) \<noteq> 0 \<longleftrightarrow> bit v (k - 1)"
    using assms by (auto simp: and_exp_eq_0_iff_not_bit bit_simps)
  show ?thesis
  proof (cases "bit v (k - 1)")
    case True
    with sgn show ?thesis unfolding zip_sbits_def low_mask_u64 Let_def m
      using assms by (cases "n < k") (auto simp: bit_simps min_def less_Suc_eq_le
        dest: bit_imp_le_length)
  next
    case False
    with sgn show ?thesis unfolding zip_sbits_def low_mask_u64 Let_def m
      using assms by (cases "n < k") (auto simp: bit_simps min_def less_Suc_eq_le
        dest: bit_imp_le_length)
  qed
qed

lemma sint_imm18: "sint (zip_getbits w (ZIP_IMMFIELD 18 0)) = sint (ucast w :: 18 word)"
proof -
  have g: "zip_getbits w (ZIP_IMMFIELD 18 0) = ucast (zip_sbits (ucast w) 18)"
    by (simp add: zip_getbits_def ZIP_IMMFIELD_def)
  show ?thesis unfolding g
    by (rule bit_eqI) (auto simp: bit_simps zip_sbits_bit min_def)
qed

lemma getbits_reg27: "zip_getbits w (ZIP_REGFIELD 27) = drop_bit 27 w AND 0xf"
proof -
  have g: "zip_getbits w (ZIP_REGFIELD 27) = ucast (zip_ubits (ucast (drop_bit 27 w)) 4)"
    by (simp add: zip_getbits_def ZIP_REGFIELD_def)
  show ?thesis unfolding g zip_ubits_def low_mask_u64 f_mask
    by (rule bit_word_eqI) (auto simp: bit_simps)
qed

lemma getbits_cond: "zip_getbits w (ZIP_BITFIELD 3 19) = drop_bit 19 w AND 0x7"
proof -
  have g: "zip_getbits w (ZIP_BITFIELD 3 19) = ucast (zip_ubits (ucast (drop_bit 19 w)) 3)"
    by (simp add: zip_getbits_def ZIP_BITFIELD_def)
  have m: "(7 :: u32) = mask 3" by (simp add: mask_eq_exp_minus_1)
  show ?thesis unfolding g zip_ubits_def low_mask_u64 m
    by (rule bit_word_eqI) (auto simp: bit_simps)
qed

lemma alu_word_fields:
  fixes imm :: u32
  assumes "i < 8" "dreg < 14" "cond < 8"
  defines "w \<equiv> alu_word i dreg cond imm"
  shows "w AND 0x87c40000 = push_bit 22 (of_nat i)" "w AND 0x70000000 \<noteq> 0x70000000"
    "\<not> OFFSET_PC_MOV w" "drop_bit 27 w AND 0xf = dreg" "drop_bit 19 w AND 0x7 = cond"
    "(ucast w :: 18 word) = ucast imm"
proof -
  note b = alu_word_bits [OF assms(1,2,3), of imm, folded w_def]
  have d4: "dreg < 2 ^ 4" using assms(2) by (simp add: word_less_nat_alt)
  note d = small_word_bit [OF d4, simplified]
  have "cond < 2 ^ 3" using assms(3) by simp
  note c = small_word_bit [OF this, simplified]
  have i3: "(of_nat i :: u32) < 2 ^ 3"
    using assms(1) by (simp add: word_less_nat_alt unsigned_of_nat take_bit_nat_eq_self)
  note opc = small_word_bit [OF i3, simplified]
  have m7: "(7 :: u32) = mask 3" by (simp add: mask_eq_exp_minus_1)
  show dr: "drop_bit 27 w AND 0xf = dreg"
    unfolding f_mask by (rule bit_word_eqI) (auto simp: bit_simps b dest: d)
  show "drop_bit 19 w AND 0x7 = cond"
    unfolding m7 by (rule bit_word_eqI) (auto simp: bit_simps b dest: c)
  show "(ucast w :: 18 word) = ucast imm"
    by (rule bit_word_eqI) (auto simp: bit_simps b)
  have big: "(0x87c40000 :: u32) = push_bit 31 1 OR push_bit 22 (mask 5) OR push_bit 18 1"
    by (simp add: mask_eq_exp_minus_1 push_bit_eq_mult)
  have bits: "bit (0x87c40000 :: u32) n \<longleftrightarrow> n = 18 \<or> 22 \<le> n \<and> n < 27 \<or> n = 31" for n
    unfolding big bit_or_iff bit_push_bit_iff bit_mask_iff bit_1_iff by auto
  show op: "w AND 0x87c40000 = push_bit 22 (of_nat i)"
  proof (rule bit_word_eqI)
    fix n assume "n < LENGTH(32)"
    consider "n < 18" | "n = 18" | "19 \<le> n" "n < 22" | "22 \<le> n" "n < 25" | "25 \<le> n" "n < 27"
      | "27 \<le> n" "n < 31" | "31 \<le> n" by linarith
    moreover have high: "25 \<le> n \<Longrightarrow> \<not> bit (of_nat i :: u32) (n - 22)"
      using opc [of "n - 22"] by linarith
    ultimately show "bit (w AND 0x87c40000) n = bit (push_bit 22 (of_nat i :: u32)) n"
      unfolding bit_and_iff bits bit_push_bit_iff b
      using \<open>n < LENGTH(32)\<close> by cases (simp_all add: high)
  qed
  show "w AND 0x70000000 \<noteq> 0x70000000"
  proof
    assume a: "w AND 0x70000000 = 0x70000000"
    have "bit (w AND 0x70000000) 28" "bit (w AND 0x70000000) 29" "bit (w AND 0x70000000) 30"
      unfolding a by simp_all
    then have "bit w 28" "bit w 29" "bit w 30" unfolding bit_and_iff by blast+
    then have "bit dreg 1 \<and> bit dreg 2 \<and> bit dreg 3" unfolding b by simp
    moreover have "dreg < 16" using d4 by simp
    ultimately show False using assms(2)
      by (elim u32_less_16_cases) simp_all
  qed
  show "\<not> OFFSET_PC_MOV w"
  proof
    assume "OFFSET_PC_MOV w"
    then have "w AND 0x87c7e000 = 0x0343c000" by (simp add: OFFSET_PC_MOV_def)
    then have "bit (w AND 0x87c7e000) 25" by simp
    then have "bit w 25" unfolding bit_and_iff by blast
    then show False unfolding b by simp
  qed
qed

lemma decided_alu_row:
  assumes "i < 8"
  shows "decided 0x87c40000 (push_bit 22 (of_nat i)) zip_oplist = Some (alu_row i)"
  using arg_cong [OF alu_rows_decided, of "\<lambda>xs. xs ! i"] assms by simp

lemma alu_row_text:
  assumes "i < 8" "unat (drop_bit 27 ins AND 0xf) < 49" "unat (drop_bit 19 ins AND 0x7) < 8"
  shows "zop_row_text addr ins (alu_row i) =
    Inr (pad11 (alu_names ! i @ zip_ccstr ! unat (drop_bit 19 ins AND 0x7)) @ ''$''
         @ fmt_d (sint (ucast ins :: 18 word)) @ '','' @ zip_regstr ! unat (drop_bit 27 ins AND 0xf))"
proof -
  have unused: "ZIP_BITFIELD 3 19 \<noteq> ZIP_OPUNUSED" "ZIP_REGFIELD 27 \<noteq> ZIP_OPUNUSED" "ZIP_IMMFIELD 18 0 \<noteq> ZIP_OPUNUSED"
    by (simp_all add: ZIP_BITFIELD_def ZIP_REGFIELD_def ZIP_IMMFIELD_def ZIP_OPUNUSED_def)
  have names: "i = 0 \<or> i = 1 \<or> i = 2 \<or> i = 3 \<or> i = 4 \<or> i = 5 \<or> i = 6 \<or> i = 7" using assms(1) by linarith
  have reg: "zregstr (drop_bit 27 ins AND 0xf) = Inr (zip_regstr ! unat (drop_bit 27 ins AND 0xf))"
    using assms(2) zip_regstr_short(2) by (simp add: zregstr_def)
  have cc: "zccstr (drop_bit 19 ins AND 0x7) = Inr (zip_ccstr ! unat (drop_bit 19 ins AND 0x7))"
    using assms(3) zip_ccstr_short(2) by (simp add: zccstr_def)
  have name: "\<not> zop_memop (alu_names ! i)" "\<not> strncase_eq ''SW'' (alu_names ! i) 2" "\<not> strncase_eq ''SH'' (alu_names ! i) 2"
    "\<not> strncase_eq ''SB'' (alu_names ! i) 2" "\<not> strncase_eq ''LJMP'' (alu_names ! i) 3"
    "op_char (alu_names ! i) 0 \<noteq> CHR ''B''"
    using names by (elim disjE; simp add: alu_names_def, code_simp)+
  show ?thesis
    unfolding zop_row_text_def alu_row_def zop_def zopcode.simps Let_def
    by (simp add: unused name cc reg getbits_cond getbits_reg27 sint_imm18 zop_field_def zop_operand_text_def)
qed

text \<open>C16. An instruction of one of the eight operations SUB, AND, ADD, OR, XOR, LSR, LSL and ASR with an
  immediate, on one of the registers R0 to SP, is disassembled to what it was assembled from: the
  operation, its condition, the immediate with its sign and the register. (The other operations and
  the registers CC and PC have rows of their own.)\<close>

theorem alu_immediate_round_trip:
  assumes "i < 8" "dreg < 14" "cond < 8"
  shows "zipi_to_halfstring addr (alu_word i dreg cond (ucast (imm :: 18 word))) zip_oplist =
    Inr (pad11 (alu_names ! i @ zip_ccstr ! unat cond) @ ''$'' @ fmt_d (sint imm) @ '','' @ zip_regstr ! unat dreg)"
proof -
  let ?w = "alu_word i dreg cond (ucast imm)"
  note f = alu_word_fields [OF assms, of "ucast imm"]
  have imm: "(ucast ?w :: 18 word) = imm"
    unfolding f(6) by (rule bit_word_eqI) (auto simp: bit_simps)
  have "unat dreg < 49" "unat cond < 8" using assms(2,3) by (simp_all add: word_less_nat_alt)
  then have "zop_row_text addr ?w (alu_row i) =
    Inr (pad11 (alu_names ! i @ zip_ccstr ! unat cond) @ ''$'' @ fmt_d (sint imm) @ '','' @ zip_regstr ! unat dreg)"
    using alu_row_text [of i ?w addr] assms(1) unfolding f(4,5) imm by simp
  with decided_find [OF decided_alu_row [OF assms(1)] f(1,2)] f(3) zip_oplist_consistent
  show ?thesis by (simp add: zipi_to_halfstring_def pad11_def)
qed

theorem alu_immediate_round_trip_witness:
  "zipi_to_halfstring 0 (alu_word 2 5 0 (ucast (- 3 :: 18 word))) zip_oplist =
     Inr (pad11 ''ADD'' @ ''$'' @ fmt_d (- 3) @ '',R5'')"
  using alu_immediate_round_trip [of 2 5 0 0 "- 3"]
  by (simp add: alu_names_def zip_ccstr_def zip_regstr_def)

subsection \<open>A row that is never reached\<close>

text \<open>An earlier row of the table takes every word that this row would match.\<close>

fun shadowed :: "zopcode list \<Rightarrow> zopcode \<Rightarrow> bool" where
  "shadowed [] r = False"
| "shadowed (x # xs) r =
     (x \<noteq> r \<and> (s_mask x AND s_mask r = s_mask x \<and> s_val r AND s_mask x = s_val x \<or> shadowed xs r))"

lemma shadowed_not_found: "shadowed rows r \<Longrightarrow> zop_find rows ins \<noteq> Inr (Some r)"
proof (induction rows)
  case (Cons x xs)
  have "ins AND s_mask x = s_val x"
    if "s_mask x AND s_mask r = s_mask x" "s_val r AND s_mask x = s_val x" "ins AND s_mask r = s_val r"
    using that by (metis and.assoc and.commute)
  moreover have "ins AND s_mask r = s_val r" if "zop_find xs ins = Inr (Some r)"
    using that by (induction xs) (auto split: if_splits)
  ultimately show ?case using Cons by auto
qed simp

text \<open>The compact store \<open>SW Rx,imm(Ry)\<close>, as the table has it.\<close>

definition SW_base_row :: zopcode where
  "SW_base_row = zop ''SW'' 0x87800000 0x85800000 ZIP_OPUNUSED (ZIP_REGFIELD 27) (ZIP_REGFIELD 19)
     (ZIP_IMMFIELD 3 16) ZIP_OPUNUSED"

lemma SW_base_row_shadowed: "shadowed zip_oplist SW_base_row"
  by code_simp

lemma SW_base_row_in_table: "list_ex (\<lambda>r. r = SW_base_row) zip_oplist"
  by code_simp

text \<open>The row for the compact store relative to a base register is in the table, but no word
  is ever given it: the row before it, for stores relative to SP, tests one bit less and takes
  all its words.\<close>

theorem compact_store_row_dead:
  "SW_base_row \<in> set zip_oplist \<and> zop_find zip_oplist ins \<noteq> Inr (Some SW_base_row)"
  using SW_base_row_in_table shadowed_not_found [OF SW_base_row_shadowed]
  by (simp add: list_ex_iff)

subsection \<open>The two words that load a constant\<close>

lemma zip_bitreverse_loop_bit:
  "n \<le> 32 \<Longrightarrow> bit (zip_bitreverse_loop n r v) k \<longleftrightarrow>
     k < 32 \<and> (if k < n then bit v (n - 1 - k) else bit r (k - n))"
proof (induction n arbitrary: r v)
  case 0
  then show ?case by (auto dest: bit_imp_le_length)
next
  case (Suc n)
  then have IH: "bit (zip_bitreverse_loop n (push_bit 1 r OR v AND 1) (drop_bit 1 v)) k \<longleftrightarrow>
    k < 32 \<and> (if k < n then bit (drop_bit 1 v) (n - 1 - k) else bit (push_bit 1 r OR v AND 1) (k - n))"
    by simp
  consider "k < n" | "k = n" | "n < k" by linarith
  then show ?case
    unfolding zip_bitreverse_loop.simps IH bit_or_iff bit_push_bit_iff bit_and_iff bit_1_iff bit_drop_bit_eq comp_def
    using bit_imp_le_length [of v 0] by cases (auto simp: Suc_diff_Suc dest: bit_imp_le_length)
qed

lemma bit_zip_bitreverse: "bit (zip_bitreverse v) k \<longleftrightarrow> k < 32 \<and> bit v (31 - k)"
  by (simp add: zip_bitreverse_def zip_bitreverse_loop_bit)

text \<open>The pair of instructions that loads a constant: the upper half is stored with its bits
  reversed, since the first of the two instructions reverses its operand.\<close>

definition BREV_word :: "u32 \<Rightarrow> u32 \<Rightarrow> u32" where
  "BREV_word dreg v = 0x02000000 OR push_bit 27 (dreg AND 0xf) OR zip_bitreverse (v AND 0xffff0000)"

definition LDILO_word :: "u32 \<Rightarrow> u32 \<Rightarrow> u32" where
  "LDILO_word dreg v = 0x02400000 OR push_bit 27 (dreg AND 0xf) OR v AND 0xffff"

lemma upper_mask: "(0xffff0000 :: u32) = push_bit 16 (mask 16)"
  by (simp add: push_bit_eq_mult mask_eq_exp_minus_1)

lemma bit_opcode_mask: "bit (0x87c40000 :: u32) n \<longleftrightarrow> n = 18 \<or> 22 \<le> n \<and> n < 27 \<or> n = 31"
proof -
  have e: "(0x87c40000 :: u32) = push_bit 31 1 OR push_bit 22 (mask 5) OR push_bit 18 1"
    by (simp add: mask_eq_exp_minus_1 push_bit_eq_mult)
  show ?thesis unfolding e bit_or_iff bit_push_bit_iff bit_mask_iff bit_1_iff by auto
qed

lemma bit_operand_mask: "bit (0xf8380000 :: u32) n \<longleftrightarrow> 19 \<le> n \<and> n < 22 \<or> 27 \<le> n \<and> n < 32"
proof -
  have e: "(0xf8380000 :: u32) = push_bit 27 (mask 5) OR push_bit 19 (mask 3)"
    by (simp add: mask_eq_exp_minus_1 push_bit_eq_mult)
  show ?thesis unfolding e bit_or_iff bit_push_bit_iff bit_mask_iff by auto
qed

lemma bit_load_opcodes:
  "bit (0x02000000 :: u32) n \<longleftrightarrow> n = 25" "bit (0x02400000 :: u32) n \<longleftrightarrow> n = 25 \<or> n = 22"
proof -
  have e: "(0x02000000 :: u32) = push_bit 25 1" "(0x02400000 :: u32) = push_bit 25 1 OR push_bit 22 1"
    by (simp_all add: push_bit_eq_mult)
  show "bit (0x02000000 :: u32) n \<longleftrightarrow> n = 25" "bit (0x02400000 :: u32) n \<longleftrightarrow> n = 25 \<or> n = 22"
    unfolding e bit_or_iff bit_push_bit_iff bit_1_iff by auto
qed

lemma BREV_word_bits: "bit (BREV_word dreg v) n \<longleftrightarrow>
    n = 25 \<or> 27 \<le> n \<and> n < 31 \<and> bit dreg (n - 27) \<or> n < 16 \<and> bit v (31 - n)"
  unfolding BREV_word_def f_mask upper_mask bit_or_iff bit_load_opcodes bit_push_bit_iff
    bit_zip_bitreverse bit_and_iff bit_mask_iff by auto

lemma LDILO_word_bits: "bit (LDILO_word dreg v) n \<longleftrightarrow>
    n = 25 \<or> n = 22 \<or> 27 \<le> n \<and> n < 31 \<and> bit dreg (n - 27) \<or> n < 16 \<and> bit v n"
  unfolding LDILO_word_def f_mask mask_numerals bit_or_iff bit_load_opcodes bit_push_bit_iff
    bit_and_iff bit_mask_iff by auto

text \<open>The two words that load a 32-bit constant are recognised as such whatever the register
  and the constant, and the constant is read back from them.\<close>

theorem two_word_load_round_trip:
  "TWOWORD_LOAD (BREV_word dreg v) (LDILO_word dreg v)
   \<and> TWOWORD_VALUE (BREV_word dreg v) (LDILO_word dreg v) = v"
proof
  have "BREV_word dreg v AND 0x87c40000 = 0x02000000"
    by (rule bit_word_eqI) (unfold bit_and_iff bit_opcode_mask bit_load_opcodes BREV_word_bits, auto)
  moreover have "LDILO_word dreg v AND 0x87c40000 = 0x02400000"
    by (rule bit_word_eqI) (unfold bit_and_iff bit_opcode_mask bit_load_opcodes LDILO_word_bits, auto)
  moreover have "(BREV_word dreg v XOR LDILO_word dreg v) AND 0xf8380000 = 0"
    by (rule bit_word_eqI)
      (unfold bit_and_iff bit_xor_iff bit_operand_mask LDILO_word_bits BREV_word_bits, auto)
  ultimately show "TWOWORD_LOAD (BREV_word dreg v) (LDILO_word dreg v)"
    by (simp add: TWOWORD_LOAD_def)
  show "TWOWORD_VALUE (BREV_word dreg v) (LDILO_word dreg v) = v"
  proof (rule bit_word_eqI)
    fix n assume "n < LENGTH(32)"
    then show "bit (TWOWORD_VALUE (BREV_word dreg v) (LDILO_word dreg v)) n = bit v n"
      unfolding TWOWORD_VALUE_def mask_numerals bit_or_iff bit_and_iff bit_mask_iff bit_zip_bitreverse
        LDILO_word_bits BREV_word_bits by (cases "n < 16") auto
  qed
qed

subsection \<open>The early branch\<close>

text \<open>A branch whose immediate is negative, which goes back, is predicted to go forward by the
  same distance, counted in words.\<close>

theorem early_branch_never_goes_back:
  assumes "insn AND 0xffc60000 = 0x78820000"
  shows "sint (ucast insn :: 18 word) < 0
    \<and> zop_early_branch pc insn = pc + 4 + of_int (4 * - sint (ucast insn :: 18 word))"
proof -
  have b17: "bit (insn AND 0xffc60000) 17" unfolding assms by simp
  then have neg: "bit (ucast insn :: 18 word) 17" unfolding bit_and_iff by (simp add: bit_simps)
  let ?k = "insn AND 0x3ffff"
  have m: "(0x3ffff :: u32) = mask 18" by (simp add: mask_eq_exp_minus_1)
  have u: "uint (ucast insn :: 18 word) = uint ?k"
    unfolding m by (rule bit_eqI) (auto simp: bit_simps)
  have "take_bit 18 (uint (ucast insn :: 18 word)) = uint (ucast insn :: 18 word)"
    using uint_bounded [of "ucast insn :: 18 word"] by (simp add: take_bit_int_eq_self)
  with neg have s: "sint (ucast insn :: 18 word) = uint ?k - 2 ^ 18"
    by (simp add: sint_uint signed_take_bit_eq_take_bit_minus bit_unsigned_iff flip: u)
  have lt: "uint ?k < 2 ^ 18" unfolding u [symmetric] using uint_bounded [of "ucast insn :: 18 word"] by simp
  have top: "insn AND 0xf8000000 = 0x78000000"
  proof -
    have "insn AND 0xf8000000 = (insn AND 0xffc60000) AND 0xf8000000" by (simp add: and.assoc)
    then show ?thesis unfolding assms by simp
  qed
  have "zop_early_branch pc insn = pc + 4 + push_bit 2 (0x40000 - ?k)"
    using top assms by (simp add: zop_early_branch_def)
  also have "push_bit 2 (0x40000 - ?k) = of_int (4 * - sint (ucast insn :: 18 word))"
    unfolding s by (simp add: push_bit_eq_mult)
  finally show ?thesis using s lt by simp
qed

lemma early_branch_never_goes_back_witness:
  "zop_early_branch 0x1000 0x7883fffc = 0x1014"
  using early_branch_never_goes_back [of 0x7883fffc] by (simp add: zop_early_branch_def)

end
