(* ===== verification/SdramSim.thy ===== *)
theory SdramSim
  imports Prelude
begin

text \<open>
  \<open>sim/verilated/sdramsim.cpp\<close> and \<open>sdramsim.h\<close>: a model of an SDRAM chip that is called once
  per clock with the values of its pins. It counts its power-up sequence, tracks which rows are
  open in its four banks, and delays what it reads. Its trace output is left out. The two
  variables of the power-up that are \<open>static\<close> in the source are fields here: the program has
  one such object.
\<close>

subsection \<open>Pins and state\<close>

record sd_pins =
  p_clk :: bool
  p_cke :: bool
  p_cs_n :: bool
  p_ras_n :: bool
  p_cas_n :: bool
  p_we_n :: bool
  p_bs :: int
  p_addr :: u32
  p_driv :: bool
  p_data :: u16
  p_dqm :: u16

definition SDRAM_WORDS :: nat where "SDRAM_WORDS = 2 ^ 24 div 2"
definition PWRUP_WAIT_CKS :: int where "PWRUP_WAIT_CKS = 20000"
definition MAX_BANKOPEN_TIME :: int where "MAX_BANKOPEN_TIME = 10000"
definition MAX_REFRESH_TIME :: u32 where "MAX_REFRESH_TIME = 6400000"
definition POWERED_UP_STATE :: nat where "POWERED_UP_STATE = 6"

record sdramsim =
  sd_pwrup :: nat
  sd_mem :: "nat \<Rightarrow> u16"
  sd_last_value :: u16
  sd_bank_status :: "int list"
  sd_bank_row :: "u32 list"
  sd_bank_open_time :: "int list"
  sd_refresh_time :: "u32 list"
  sd_refresh_loc :: nat
  sd_nrefresh :: int
  sd_qloc :: nat
  sd_qdata :: "u16 list"
  sd_qmask :: nat
  sd_wr_addr :: u32
  sd_clocks_till_idle :: int
  sd_next_wr :: bool
  sd_fail :: nat
  sd_mode_is_set :: bool
  sd_refresh_cycles :: nat

text \<open>An access to the memory array, whose size is fixed.\<close>

definition sd_peek :: "sdramsim \<Rightarrow> u32 \<Rightarrow> u16 res" where
  "sd_peek s a = (if unat a < SDRAM_WORDS then Inr (sd_mem s (unat a)) else Inl OutOfBounds)"

definition sd_poke :: "u32 \<Rightarrow> u16 \<Rightarrow> sdramsim \<Rightarrow> sdramsim res" where
  "sd_poke a v s =
     (if unat a < SDRAM_WORDS then Inr (s\<lparr>sd_mem := (sd_mem s)(unat a := v)\<rparr>) else Inl OutOfBounds)"

text \<open>The loops over the first entries of an array.\<close>

fun for_each :: "nat \<Rightarrow> nat \<Rightarrow> ('a \<Rightarrow> 'a) \<Rightarrow> 'a list \<Rightarrow> 'a list res" where
  "for_each 0 i f xs = Inr xs"
| "for_each (Suc n) i f xs =
     bindE (aget xs i) (\<lambda>x. bindE (aset xs i (f x)) (\<lambda>xs. for_each n (Suc i) f xs))"

definition sd_refresh_all :: "(u32 \<Rightarrow> u32) \<Rightarrow> sdramsim \<Rightarrow> sdramsim res" where
  "sd_refresh_all f s =
     bindE (for_each (nat (sd_nrefresh s)) 0 f (sd_refresh_time s)) (\<lambda>ts. Inr (s\<lparr>sd_refresh_time := ts\<rparr>))"

text \<open>The constructor leaves the arrays of the banks, the read queue, \<open>m_nrefresh\<close> and the memory
  as the storage \<open>g\<close> had them; the array of refresh times is allocated with the contents
  \<open>heap\<close>.\<close>

definition sdramsim_new :: "(nat \<Rightarrow> u32) \<Rightarrow> sdramsim \<Rightarrow> sdramsim res" where
  "sdramsim_new heap g =
     bindE (sd_refresh_all (\<lambda>_. 0) (g\<lparr>sd_refresh_time := map heap [0..<8192]\<rparr>)) (\<lambda>s.
       Inr (s\<lparr>sd_refresh_loc := 0, sd_pwrup := 0, sd_last_value := 0,
              sd_clocks_till_idle := PWRUP_WAIT_CKS, sd_wr_addr := 0, sd_qloc := 0, sd_qmask := 15,
              sd_next_wr := True, sd_fail := 0, sd_mode_is_set := False, sd_refresh_cycles := 0\<rparr>))"

fun sd_load_loop :: "u8 list \<Rightarrow> nat \<Rightarrow> sdramsim \<Rightarrow> sdramsim res" where
  "sd_load_loop (a # b # sp) i s =
     bindE (sd_poke (of_nat i) (push_bit 8 (ucast a) OR ucast b) s) (\<lambda>s. sd_load_loop sp (Suc i) s)"
| "sd_load_loop _ i s = Inr s"

definition sdramsim_load :: "u32 \<Rightarrow> u8 list \<Rightarrow> sdramsim \<Rightarrow> sdramsim res" where
  "sdramsim_load addr data s =
     bindE (assertE (addr AND 1 = 0)) (\<lambda>_.
     let base = addr AND 0xffffff in
     bindE (assertE (length data AND 1 = 0)) (\<lambda>_.
     bindE (assertE (unat addr + length data < 2 ^ 24)) (\<lambda>_.
       sd_load_loop data (unat (drop_bit 1 base)) s)))"

subsection \<open>The power-up sequence\<close>

text \<open>The commands, from the pins.\<close>

definition cmd_mode_set :: "sd_pins \<Rightarrow> bool" where
  "cmd_mode_set p \<longleftrightarrow> \<not> p_cs_n p \<and> \<not> p_ras_n p \<and> \<not> p_cas_n p \<and> \<not> p_we_n p"

definition cmd_refresh :: "sd_pins \<Rightarrow> bool" where
  "cmd_refresh p \<longleftrightarrow> \<not> p_cs_n p \<and> \<not> p_ras_n p \<and> \<not> p_cas_n p \<and> p_we_n p"

definition cmd_precharge :: "sd_pins \<Rightarrow> bool" where
  "cmd_precharge p \<longleftrightarrow> \<not> p_cs_n p \<and> \<not> p_ras_n p \<and> p_cas_n p \<and> \<not> p_we_n p"

definition cmd_activate :: "sd_pins \<Rightarrow> bool" where
  "cmd_activate p \<longleftrightarrow> \<not> p_cs_n p \<and> \<not> p_ras_n p \<and> p_cas_n p \<and> p_we_n p"

definition cmd_access :: "sd_pins \<Rightarrow> bool" where
  "cmd_access p \<longleftrightarrow> \<not> p_cs_n p \<and> p_ras_n p \<and> \<not> p_cas_n p"

text \<open>Address line 10: all banks for a precharge, an automatic precharge for an access.\<close>

definition addr10 :: "sd_pins \<Rightarrow> bool" where
  "addr10 p \<longleftrightarrow> p_addr p AND 0x400 \<noteq> 0"

definition sd_powerup_wait :: "sd_pins \<Rightarrow> sdramsim \<Rightarrow> sdramsim res" where
  "sd_powerup_wait p s =
     bindE (assertE (p_cs_n p \<and> p_ras_n p \<and> p_cas_n p \<and> p_we_n p \<and> p_dqm p = 3)) (\<lambda>_.
       Inr (if sd_clocks_till_idle s = 0 then s\<lparr>sd_pwrup := sd_pwrup s + 1\<rparr> else s))"

definition sd_powerup_precharge :: "sd_pins \<Rightarrow> sdramsim \<Rightarrow> sdramsim" where
  "sd_powerup_precharge p s =
     (if cmd_precharge p \<and> addr10 p then s\<lparr>sd_pwrup := sd_pwrup s + 1, sd_clocks_till_idle := 8\<rparr> else s)"

definition sd_powerup_program :: "sd_pins \<Rightarrow> sdramsim \<Rightarrow> sdramsim res" where
  "sd_powerup_program p s =
     bindE (if cmd_mode_set p then
              bindE (assertE (\<not> sd_mode_is_set s)) (\<lambda>_.
              bindE (assertE (sd_refresh_cycles s = 0 \<or> sd_refresh_cycles s = 8)) (\<lambda>_.
              bindE (assertE (p_addr p = 0x21)) (\<lambda>_. Inr (s\<lparr>sd_mode_is_set := True\<rparr>))))
            else Inr s) (\<lambda>s.
     bindE (if cmd_refresh p then
              let s = s\<lparr>sd_refresh_cycles := sd_refresh_cycles s + 1\<rparr> in
              bindE (assertE (sd_refresh_cycles s \<le> 8)) (\<lambda>_. Inr s)
            else Inr s) (\<lambda>s.
     if sd_mode_is_set s \<and> 8 \<le> sd_refresh_cycles s then
       bindE (sd_refresh_all (\<lambda>_. MAX_REFRESH_TIME) (s\<lparr>sd_pwrup := sd_pwrup s + 1\<rparr>)) (\<lambda>s.
         Inr (s\<lparr>sd_clocks_till_idle := 2\<rparr>))
     else Inr s))"

definition sd_powerup_settle :: "sd_pins \<Rightarrow> sdramsim \<Rightarrow> sdramsim res" where
  "sd_powerup_settle p s =
     bindE (assertE (p_cs_n p)) (\<lambda>_.
       if sd_clocks_till_idle s = 0 then Inr (s\<lparr>sd_pwrup := POWERED_UP_STATE, sd_clocks_till_idle := 0\<rparr>)
       else bindE (assertE (sd_clocks_till_idle s = 1)) (\<lambda>_. Inr s))"

definition sd_powerup_four :: "sd_pins \<Rightarrow> sdramsim \<Rightarrow> sdramsim res" where
  "sd_powerup_four p s =
     bindE (assertE (cmd_refresh p)) (\<lambda>_.
       if sd_clocks_till_idle s = 0 then
         sd_refresh_all (\<lambda>_. MAX_REFRESH_TIME) (s\<lparr>sd_pwrup := POWERED_UP_STATE, sd_clocks_till_idle := 0\<rparr>)
       else Inr s)"

definition sd_powerup :: "sd_pins \<Rightarrow> sdramsim \<Rightarrow> sdramsim res" where
  "sd_powerup p s =
     bindE (assertE (p_dqm p = 3)) (\<lambda>_.
     let s = (if 0 < sd_clocks_till_idle s then s\<lparr>sd_clocks_till_idle := sd_clocks_till_idle s - 1\<rparr> else s) in
     bindE (if sd_pwrup s = 0 then sd_powerup_wait p s
            else if sd_pwrup s = 1 then Inr (sd_powerup_precharge p s)
            else if sd_pwrup s = 2 then sd_powerup_program p s
            else if sd_pwrup s = 3 then sd_powerup_settle p s
            else if sd_pwrup s = 4 then sd_powerup_four p s
            else Inr s) (\<lambda>s. Inr (s\<lparr>sd_next_wr := False\<rparr>)))"

subsection \<open>In operation\<close>

text \<open>The refresh times are unsigned; the test that follows their decrement is the source's.\<close>

definition sd_refresh_tick :: "sdramsim \<Rightarrow> sdramsim res" where
  "sd_refresh_tick s =
     bindE (sd_refresh_all (\<lambda>t. t - 1) s) (\<lambda>s.
     bindE (aget (sd_refresh_time s) (sd_refresh_loc s)) (\<lambda>t.
     bindE (assertE (\<not> t < 0)) (\<lambda>_. Inr s)))"

text \<open>One clock of a bank: its status is shifted, and the time it is open counted.\<close>

definition bank_shift :: "int \<Rightarrow> int" where
  "bank_shift status = (let status = drop_bit 1 status in if status AND 2 \<noteq> 0 then status OR 4 else status)"

fun sd_banks_tick :: "int list \<Rightarrow> int list \<Rightarrow> (int list \<times> int list) res" where
  "sd_banks_tick (st # sts) (t # ts) =
     (let st = bank_shift st; t = (if st AND 1 \<noteq> 0 then t - 1 else t) in
      bindE (assertE (\<not> (st AND 1 \<noteq> 0 \<and> t < 0))) (\<lambda>_.
      bindE (sd_banks_tick sts ts) (\<lambda>(sts, ts). Inr (st # sts, t # ts))))"
| "sd_banks_tick sts ts = Inr (sts, ts)"

definition sd_countdown :: "sdramsim \<Rightarrow> sdramsim res" where
  "sd_countdown s =
     (let s = (if sd_clocks_till_idle s \<noteq> 0 then s\<lparr>sd_clocks_till_idle := sd_clocks_till_idle s - 1\<rparr> else s) in
      if 0 < sd_fail s then
        let s = s\<lparr>sd_fail := sd_fail s - 1\<rparr> in
        if sd_fail s = 0 then Inl (ExitWith (- 3)) else Inr s
      else Inr s)"

text \<open>The bytes that the data mask enables.\<close>

definition sd_merge :: "u16 \<Rightarrow> u16 \<Rightarrow> u16 \<Rightarrow> u16" where
  "sd_merge dqm memval data =
     (if dqm AND 3 = 0 then data
      else if dqm AND 3 = 3 then memval
      else if dqm AND 2 = 0 then (memval AND 0x00ff) OR (data AND 0xff00)
      else (memval AND 0xff00) OR (data AND 0x00ff))"

definition sd_second_half :: "sd_pins \<Rightarrow> sdramsim \<Rightarrow> sdramsim res" where
  "sd_second_half p s =
     (if 0 < sd_clocks_till_idle s \<and> sd_next_wr s then
        let waddr = sd_wr_addr s; s = s\<lparr>sd_wr_addr := waddr + 1\<rparr> in
        bindE (sd_peek s waddr) (\<lambda>memval.
        bindE (sd_poke waddr (sd_merge (p_dqm p) memval (p_data p)) s) (\<lambda>s.
          Inr (s\<lparr>sd_next_wr := False\<rparr>)))
      else Inr s)"

definition sd_queue_out :: "sd_pins \<Rightarrow> sdramsim \<Rightarrow> (sdramsim \<times> u16) res" where
  "sd_queue_out p s =
     (let qloc = (sd_qloc s + 1) AND sd_qmask s; s = s\<lparr>sd_qloc := qloc\<rparr> in
      bindE (if p_driv p then Inr (p_data p) else aget (sd_qdata s) (qloc AND sd_qmask s)) (\<lambda>result.
      bindE (aset (sd_qdata s) (qloc AND sd_qmask s) 0) (\<lambda>q. Inr (s\<lparr>sd_qdata := q\<rparr>, result))))"

definition bank_in_range :: "int \<Rightarrow> bool" where
  "bank_in_range bs \<longleftrightarrow> bs AND NOT 3 = 0"

definition sd_auto_refresh :: "sdramsim \<Rightarrow> sdramsim res" where
  "sd_auto_refresh s =
     bindE (aset (sd_refresh_time s) (sd_refresh_loc s) MAX_REFRESH_TIME) (\<lambda>ts.
     let loc = sd_refresh_loc s + 1;
         s = s\<lparr>sd_refresh_time := ts, sd_refresh_loc := (if sd_nrefresh s \<le> int loc then 0 else loc)\<rparr> in
     bindE (assertE (list_all (\<lambda>st. st AND 6 = 0) (sd_bank_status s))) (\<lambda>_. Inr s))"

text \<open>\<open>m_bank_status[bs] &= 3\<close>.\<close>

definition sd_close_bank :: "int \<Rightarrow> sdramsim \<Rightarrow> sdramsim res" where
  "sd_close_bank bs s =
     bindE (aget (sd_bank_status s) (nat bs)) (\<lambda>st.
     bindE (aset (sd_bank_status s) (nat bs) (st AND 3)) (\<lambda>sts. Inr (s\<lparr>sd_bank_status := sts\<rparr>)))"

definition sd_precharge :: "sd_pins \<Rightarrow> sdramsim \<Rightarrow> sdramsim res" where
  "sd_precharge p s =
     (if addr10 p then Inr (s\<lparr>sd_bank_status := map (\<lambda>st. st AND 3) (sd_bank_status s)\<rparr>)
      else bindE (assertE (bank_in_range (p_bs p))) (\<lambda>_. sd_close_bank (p_bs p) s))"

text \<open>An index outside the banks is reported by \<open>m_fail\<close>, and then used.\<close>

definition sd_activate :: "sd_pins \<Rightarrow> sdramsim \<Rightarrow> sdramsim res" where
  "sd_activate p s =
     (if \<not> bank_in_range (p_bs p) then Inl OutOfBounds
      else
        let bs = nat (p_bs p) in
        bindE (aget (sd_bank_status s) bs) (\<lambda>st.
        let s = (if st \<noteq> 0 then s\<lparr>sd_fail := 4\<rparr> else s) in
        bindE (aset (sd_bank_status s) bs (st OR 4)) (\<lambda>sts.
        bindE (aset (sd_bank_open_time s) bs MAX_BANKOPEN_TIME) (\<lambda>ts.
        bindE (aset (sd_bank_row s) bs (p_addr p)) (\<lambda>rows.
          Inr (s\<lparr>sd_bank_status := sts, sd_bank_open_time := ts, sd_bank_row := rows\<rparr>))))))"

text \<open>The checks that an access begins with, and the row of its bank.\<close>

definition sd_open_row :: "sd_pins \<Rightarrow> sdramsim \<Rightarrow> u32 res" where
  "sd_open_row p s =
     bindE (assertE (bank_in_range (p_bs p))) (\<lambda>_.
     bindE (aget (sd_bank_status s) (nat (p_bs p))) (\<lambda>st.
     bindE (assertE (st AND 1 \<noteq> 0)) (\<lambda>_. aget (sd_bank_row s) (nat (p_bs p)))))"

definition sd_address :: "u32 \<Rightarrow> sd_pins \<Rightarrow> u32" where
  "sd_address row p =
     push_bit 9 (push_bit 2 row OR of_int (p_bs p)) OR (p_addr p AND 0x1ff)"

definition sd_auto_precharge :: "sd_pins \<Rightarrow> sdramsim \<Rightarrow> sdramsim res" where
  "sd_auto_precharge p s =
     (if addr10 p then
        bindE (sd_close_bank (p_bs p) s) (\<lambda>s.
        bindE (aset (sd_bank_open_time s) (nat (p_bs p)) MAX_BANKOPEN_TIME) (\<lambda>ts.
          Inr (s\<lparr>sd_bank_open_time := ts\<rparr>)))
      else Inr s)"

text \<open>The first half of a write stores \<open>data\<close>, not the value it has merged by the mask.\<close>

definition sd_write :: "sd_pins \<Rightarrow> sdramsim \<Rightarrow> sdramsim res" where
  "sd_write p s =
     bindE (sd_open_row p s) (\<lambda>row.
     let waddr = sd_address row p; s = s\<lparr>sd_wr_addr := waddr + 1\<rparr> in
     bindE (assertE (p_driv p)) (\<lambda>_.
     bindE (sd_peek s waddr) (\<lambda>memval.
     let memval = sd_merge (p_dqm p) memval (p_data p) in
     bindE (sd_poke waddr (p_data p) s) (\<lambda>s.
       sd_auto_precharge p (s\<lparr>sd_clocks_till_idle := 2, sd_next_wr := True\<rparr>)))))"

definition sd_read :: "sd_pins \<Rightarrow> sdramsim \<Rightarrow> sdramsim res" where
  "sd_read p s =
     bindE (sd_open_row p s) (\<lambda>row.
     let rd_addr = sd_address (row AND 0x1fff) p in
     bindE (assertE (\<not> p_driv p)) (\<lambda>_.
     bindE (sd_peek s rd_addr) (\<lambda>d0.
     bindE (aset (sd_qdata s) ((sd_qloc s + 3) AND sd_qmask s) d0) (\<lambda>q.
     bindE (sd_peek s (rd_addr + 1)) (\<lambda>d1.
     bindE (aset q ((sd_qloc s + 4) AND sd_qmask s) d1) (\<lambda>q.
       sd_auto_precharge p (s\<lparr>sd_qdata := q, sd_clocks_till_idle := 2\<rparr>)))))))"

definition sd_command :: "sd_pins \<Rightarrow> sdramsim \<Rightarrow> sdramsim res" where
  "sd_command p s =
     (if cmd_refresh p then sd_auto_refresh s
      else if cmd_precharge p then sd_precharge p s
      else if cmd_activate p then sd_activate p s
      else if cmd_access p then (if \<not> p_we_n p then sd_write p s else sd_read p s)
      else if p_cs_n p then Inr s
      else bindE (assertE (p_ras_n p \<and> p_cas_n p \<and> p_we_n p)) (\<lambda>_. Inr s))"

text \<open>What every clock does, whatever the command.\<close>

definition sd_clock :: "sdramsim \<Rightarrow> sdramsim res" where
  "sd_clock s =
     bindE (sd_refresh_tick s) (\<lambda>s.
     bindE (sd_banks_tick (sd_bank_status s) (sd_bank_open_time s)) (\<lambda>(sts, ts).
       sd_countdown (s\<lparr>sd_bank_status := sts, sd_bank_open_time := ts\<rparr>)))"

definition sd_operate :: "sd_pins \<Rightarrow> sdramsim \<Rightarrow> (sdramsim \<times> u16) res" where
  "sd_operate p s =
     bindE (sd_clock s) (\<lambda>s.
     bindE (sd_second_half p s) (\<lambda>s.
     bindE (sd_queue_out p s) (\<lambda>(s, result).
     bindE (sd_command p s) (\<lambda>s. Inr (s, result)))))"

definition sdramsim_apply :: "sdramsim \<Rightarrow> sd_pins \<Rightarrow> (sdramsim \<times> u16) res" where
  "sdramsim_apply s p =
     (if \<not> p_driv p \<and> \<not> p_clk p then Inr (s, sd_last_value s)
      else
        bindE (assertE (p_cke p)) (\<lambda>_.
        if sd_pwrup s < POWERED_UP_STATE then
          bindE (sd_powerup p s) (\<lambda>s. Inr (s, if p_driv p then p_data p else 0))
        else sd_operate p s))"

end
