(* ===== verification/SdramProps.thy ===== *)
theory SdramProps
  imports SdramSim
begin

text \<open>
  The SDRAM chip: its invariant, the power-up sequence it demands, the burst it writes, the delay
  with which it reads, and the half of its address space that it has no memory for.
\<close>

subsection \<open>The invariant\<close>

definition sd_inv :: "sdramsim \<Rightarrow> bool" where
  "sd_inv s \<longleftrightarrow>
     length (sd_bank_status s) = 4 \<and> length (sd_bank_row s) = 4 \<and> length (sd_bank_open_time s) = 4
     \<and> length (sd_qdata s) = 16 \<and> sd_qmask s = 15 \<and> sd_qloc s < 16
     \<and> length (sd_refresh_time s) = 8192 \<and> sd_nrefresh s \<le> 8192
     \<and> (sd_refresh_loc s = 0 \<or> int (sd_refresh_loc s) < sd_nrefresh s)
     \<and> 0 \<le> sd_clocks_till_idle s
     \<and> (sd_pwrup s < 4 \<or> sd_pwrup s = 6) \<and> (sd_pwrup s = 3 \<longrightarrow> sd_clocks_till_idle s \<le> 2)
     \<and> list_all (\<lambda>st. 0 \<le> st \<and> st < 8) (sd_bank_status s)"

lemma for_each_in:
  "i + n \<le> length xs \<Longrightarrow>
     for_each n i f xs = Inr (take i xs @ map f (take n (drop i xs)) @ drop (i + n) xs)"
proof (induction n arbitrary: i xs)
  case (Suc n)
  then have i: "i < length xs" by simp
  with Suc have "for_each (Suc n) i f xs =
      Inr (take (Suc i) (xs[i := f (xs ! i)]) @ map f (take n (drop (Suc i) xs)) @ drop (Suc i + n) xs)"
    by simp
  moreover have "take (Suc i) (xs[i := f (xs ! i)]) = take i xs @ [f (xs ! i)]"
    using i by (simp add: take_Suc_conv_app_nth)
  moreover have "take (Suc n) (drop i xs) = xs ! i # take n (drop (Suc i) xs)"
    using i by (simp add: Cons_nth_drop_Suc [symmetric])
  ultimately show ?case by simp
qed simp

lemma for_each_length: "for_each n i f xs = Inr ys \<Longrightarrow> length ys = length xs"
  by (induction n arbitrary: i xs) (auto simp: bindE_Inr_iff aget_Inr_iff aset_Inr_iff)

lemma sd_refresh_all_ok:
  assumes "length (sd_refresh_time s) = 8192" "sd_nrefresh s \<le> 8192"
  shows "\<exists>ts. sd_refresh_all f s = Inr (s\<lparr>sd_refresh_time := ts\<rparr>) \<and> length ts = 8192"
proof -
  have "nat (sd_nrefresh s) \<le> length (sd_refresh_time s)" using assms by linarith
  then show ?thesis
    using assms(1) for_each_in [of 0 "nat (sd_nrefresh s)" "sd_refresh_time s" f]
    by (auto simp: sd_refresh_all_def intro!: exI [of _ "map f (take (nat (sd_nrefresh s)) (sd_refresh_time s)) @
           drop (nat (sd_nrefresh s)) (sd_refresh_time s)"])
qed

lemma three_bits:
  assumes "0 \<le> st" "st < (8 :: int)"
  obtains "st = 0" | "st = 1" | "st = 2" | "st = 3" | "st = 4" | "st = 5" | "st = 6" | "st = 7"
  using assms by (smt (verit))

lemma bank_shift_values:
  "bank_shift 0 = 0" "bank_shift 1 = 0" "bank_shift 2 = 1" "bank_shift 3 = 1"
  "bank_shift 4 = 6" "bank_shift 5 = 6" "bank_shift 6 = 7" "bank_shift 7 = 7"
  by (simp_all add: bank_shift_def drop_bit_eq_div)

lemma bank_status_values:
  assumes "0 \<le> st" "st < (8 :: int)"
  shows "0 \<le> bank_shift st \<and> bank_shift st < 8" "0 \<le> st AND 3 \<and> st AND 3 < 8" "0 \<le> st OR 4 \<and> st OR 4 < 8"
  using assms by (elim three_bits; simp add: bank_shift_values)+

lemma bank_index: "bank_in_range bs \<Longrightarrow> 0 \<le> bs \<and> bs < 4"
proof -
  assume "bank_in_range bs"
  then have z: "bs AND NOT 3 = 0" by (simp add: bank_in_range_def)
  have "bs = (bs AND 3) OR (bs AND NOT 3)"
    by (rule bit_eqI) (auto simp: bit_simps)
  then have "bs = take_bit 2 bs" unfolding z by (simp add: take_bit_eq_mask mask_eq_exp_minus_1)
  then show ?thesis using take_bit_nonnegative [of 2 bs] take_bit_int_less_exp [of 2 bs] by simp
qed


lemma sd_inv_banks:
  "sd_inv s \<Longrightarrow> length sts = 4 \<Longrightarrow> list_all (\<lambda>st. 0 \<le> st \<and> st < 8) sts \<Longrightarrow> length ts = 4 \<Longrightarrow>
     sd_inv (s\<lparr>sd_bank_status := sts, sd_bank_open_time := ts\<rparr>)"
  by (simp add: sd_inv_def)

lemma sd_banks_tick_inv:
  "sd_banks_tick sts ts = Inr (sts', ts') \<Longrightarrow> length sts = length ts \<Longrightarrow>
     list_all (\<lambda>st. 0 \<le> st \<and> st < 8) sts \<Longrightarrow>
     length sts' = length sts \<and> length ts' = length ts \<and> list_all (\<lambda>st. 0 \<le> st \<and> st < 8) sts'"
proof (induction sts ts arbitrary: sts' ts' rule: sd_banks_tick.induct)
  case (1 st sts t ts)
  then show ?case
    by (auto simp: Let_def bindE_Inr_iff bank_status_values)
qed auto

lemma sd_close_bank_inv:
  assumes "sd_inv s" "sd_close_bank bs s = Inr s'"
  shows "sd_inv s'"
proof -
  from assms(2) obtain i where i: "i < length (sd_bank_status s)"
      "s' = s\<lparr>sd_bank_status := (sd_bank_status s)[i := sd_bank_status s ! i AND 3]\<rparr>"
    by (auto simp: sd_close_bank_def bindE_Inr_iff aget_Inr_iff aset_Inr_iff)
  with assms(1) bank_status_values(2) [of "sd_bank_status s ! i"] show ?thesis
    by (auto simp: sd_inv_def list_all_length nth_list_update)
qed

lemma sd_auto_precharge_inv: "sd_inv s \<Longrightarrow> sd_auto_precharge p s = Inr s' \<Longrightarrow> sd_inv s'"
proof -
  assume "sd_inv s" "sd_auto_precharge p s = Inr s'"
  moreover have "sd_inv (t\<lparr>sd_bank_open_time := (sd_bank_open_time t)[i := v]\<rparr>)" if "sd_inv t" for t i v
    using that by (simp add: sd_inv_def)
  ultimately show ?thesis
    by (auto simp: sd_auto_precharge_def bindE_Inr_iff aset_Inr_iff dest: sd_close_bank_inv split: if_splits)
qed

lemma sd_poke_Inr: "sd_poke a v s = Inr s' \<longleftrightarrow> unat a < SDRAM_WORDS \<and> s' = s\<lparr>sd_mem := (sd_mem s)(unat a := v)\<rparr>"
  by (auto simp: sd_poke_def)

lemma sd_peek_Inr: "sd_peek s a = Inr v \<longleftrightarrow> unat a < SDRAM_WORDS \<and> v = sd_mem s (unat a)"
  by (auto simp: sd_peek_def)

lemmas sd_Inr_iffs = bindE_Inr_iff aget_Inr_iff aset_Inr_iff sd_poke_Inr sd_peek_Inr

lemma sd_write_inv:
  assumes "sd_inv s" "sd_write p s = Inr s'" "sd_pwrup s = 6"
  shows "sd_inv s'"
proof -
  from assms(2) obtain wr m where
    "sd_auto_precharge p (s\<lparr>sd_wr_addr := wr, sd_mem := m, sd_clocks_till_idle := 2, sd_next_wr := True\<rparr>) = Inr s'"
    by (auto simp: sd_write_def Let_def sd_Inr_iffs)
  moreover have "sd_inv (s\<lparr>sd_wr_addr := wr, sd_mem := m, sd_clocks_till_idle := 2, sd_next_wr := True\<rparr>)"
    using assms(1,3) by (simp add: sd_inv_def)
  ultimately show ?thesis by (rule sd_auto_precharge_inv [rotated])
qed

lemma sd_read_inv:
  assumes "sd_inv s" "sd_read p s = Inr s'" "sd_pwrup s = 6"
  shows "sd_inv s'"
proof -
  from assms(2) obtain q where
    "sd_auto_precharge p (s\<lparr>sd_qdata := q, sd_clocks_till_idle := 2\<rparr>) = Inr s'" "length q = length (sd_qdata s)"
    by (auto simp: sd_read_def Let_def sd_Inr_iffs)
  moreover from this(2) have "sd_inv (s\<lparr>sd_qdata := q, sd_clocks_till_idle := 2\<rparr>)"
    using assms(1,3) by (simp add: sd_inv_def)
  ultimately show ?thesis by (blast intro: sd_auto_precharge_inv)
qed

lemma sd_activate_inv:
  assumes "sd_inv s" "sd_activate p s = Inr s'"
  shows "sd_inv s'"
proof -
  let ?i = "nat (p_bs p)"
  define f where "f = (if sd_bank_status s ! ?i \<noteq> 0 then 4 else sd_fail s)"
  from assms(2) have i: "?i < length (sd_bank_status s)"
      "s' = s\<lparr>sd_fail := f, sd_bank_status := (sd_bank_status s)[?i := sd_bank_status s ! ?i OR 4],
              sd_bank_open_time := (sd_bank_open_time s)[?i := MAX_BANKOPEN_TIME],
              sd_bank_row := (sd_bank_row s)[?i := p_addr p]\<rparr>"
    by (auto simp: sd_activate_def f_def Let_def sd_Inr_iffs split: if_splits)
  with assms(1) bank_status_values(3) [of "sd_bank_status s ! ?i"] show ?thesis
    by (auto simp: sd_inv_def list_all_length nth_list_update)
qed


lemma sd_refresh_inv:
  assumes "sd_inv s" "sd_auto_refresh s = Inr s'"
  shows "sd_inv s'"
  using assms by (auto simp: sd_auto_refresh_def sd_inv_def Let_def sd_Inr_iffs split: if_splits)

lemma sd_precharge_inv:
  assumes "sd_inv s" "sd_precharge p s = Inr s'"
  shows "sd_inv s'"
proof (cases "addr10 p")
  case True
  with assms show ?thesis
    by (auto simp: sd_precharge_def sd_inv_def list_all_iff bank_status_values)
next
  case False
  with assms show ?thesis by (auto simp: sd_precharge_def bindE_Inr_iff dest: sd_close_bank_inv)
qed

lemmas sd_operations_inv = sd_refresh_inv sd_precharge_inv sd_activate_inv sd_write_inv sd_read_inv

lemma sd_command_inv:
  "sd_inv s \<Longrightarrow> sd_pwrup s = 6 \<Longrightarrow> sd_command p s = Inr s' \<Longrightarrow> sd_inv s'"
  by (auto simp: sd_command_def bindE_Inr_iff dest: sd_operations_inv split: if_splits)

lemma sd_close_bank_pwrup: "sd_close_bank bs s = Inr s' \<Longrightarrow> sd_pwrup s' = sd_pwrup s"
  by (auto simp: sd_close_bank_def bindE_Inr_iff)

lemma sd_auto_precharge_pwrup: "sd_auto_precharge p s = Inr s' \<Longrightarrow> sd_pwrup s' = sd_pwrup s"
  by (auto simp: sd_auto_precharge_def bindE_Inr_iff dest!: sd_close_bank_pwrup split: if_splits)

lemma sd_command_pwrup:
  assumes "sd_command p s = Inr s'"
  shows "sd_pwrup s' = sd_pwrup s"
proof -
  have "sd_write p s = Inr s' \<Longrightarrow> sd_pwrup s' = sd_pwrup s"
    by (auto simp: sd_write_def Let_def sd_Inr_iffs dest!: sd_auto_precharge_pwrup)
  moreover have "sd_read p s = Inr s' \<Longrightarrow> sd_pwrup s' = sd_pwrup s"
    by (auto simp: sd_read_def Let_def sd_Inr_iffs dest!: sd_auto_precharge_pwrup)
  moreover have "sd_activate p s = Inr s' \<Longrightarrow> sd_pwrup s' = sd_pwrup s"
    by (auto simp: sd_activate_def Let_def sd_Inr_iffs split: if_splits)
  moreover have "sd_precharge p s = Inr s' \<Longrightarrow> sd_pwrup s' = sd_pwrup s"
    by (auto simp: sd_precharge_def bindE_Inr_iff dest: sd_close_bank_pwrup split: if_splits)
  moreover have "sd_auto_refresh s = Inr s' \<Longrightarrow> sd_pwrup s' = sd_pwrup s"
    by (auto simp: sd_auto_refresh_def Let_def sd_Inr_iffs)
  ultimately show ?thesis
    using assms by (auto simp: sd_command_def bindE_Inr_iff split: if_splits)
qed

lemma sd_operate_inv:
  assumes "sd_inv s" "sd_pwrup s = 6" "sd_operate p s = Inr (s', r)"
  shows "sd_inv s' \<and> sd_pwrup s' = 6"
proof -
  from assms(3) obtain s1 sts ts s2 s3 s4 where steps:
    "sd_refresh_tick s = Inr s1" "sd_banks_tick (sd_bank_status s1) (sd_bank_open_time s1) = Inr (sts, ts)"
    "sd_countdown (s1\<lparr>sd_bank_status := sts, sd_bank_open_time := ts\<rparr>) = Inr s2"
    "sd_second_half p s2 = Inr s3" "sd_queue_out p s3 = Inr (s4, r)" "sd_command p s4 = Inr s'"
    by (auto simp: sd_operate_def sd_clock_def bindE_Inr_iff)
  from steps(1) assms(1,2) have 1: "sd_inv s1 \<and> sd_pwrup s1 = 6"
    by (auto simp: sd_refresh_tick_def sd_refresh_all_def sd_inv_def sd_Inr_iffs dest: for_each_length)
  with sd_banks_tick_inv [OF steps(2)]
  have "sd_inv (s1\<lparr>sd_bank_status := sts, sd_bank_open_time := ts\<rparr>)"
    by (intro sd_inv_banks) (simp_all add: sd_inv_def)
  with steps(3) 1 have 2: "sd_inv s2 \<and> sd_pwrup s2 = 6"
    by (auto simp: sd_countdown_def sd_inv_def Let_def split: if_splits)
  with steps(4) have 3: "sd_inv s3 \<and> sd_pwrup s3 = 6"
    by (auto simp: sd_second_half_def sd_inv_def Let_def sd_Inr_iffs split: if_splits)
  have "sd_qmask s3 = mask 4" using 3 by (simp add: sd_inv_def mask_eq_exp_minus_1)
  then have "(sd_qloc s3 + 1) AND sd_qmask s3 < 16"
    by (simp flip: take_bit_eq_mask add: take_bit_nat_less_exp [of 4, simplified])
  with steps(5) 3 have "sd_inv s4 \<and> sd_pwrup s4 = 6"
    by (auto simp: sd_queue_out_def sd_inv_def Let_def sd_Inr_iffs)
  then show ?thesis using steps(6) sd_command_inv sd_command_pwrup by auto
qed

lemma sd_refresh_all_shape:
  "sd_refresh_all f t = Inr t' \<Longrightarrow>
     \<exists>ts. t' = t\<lparr>sd_refresh_time := ts\<rparr> \<and> length ts = length (sd_refresh_time t)"
  by (auto simp: sd_refresh_all_def bindE_Inr_iff dest: for_each_length)

lemma sd_powerup_wait_inv: "sd_inv s \<Longrightarrow> sd_pwrup s = 0 \<Longrightarrow> sd_powerup_wait p s = Inr s' \<Longrightarrow> sd_inv s'"
  by (auto simp: sd_powerup_wait_def sd_inv_def bindE_Inr_iff split: if_splits)

lemma sd_powerup_precharge_inv: "sd_inv s \<Longrightarrow> sd_pwrup s = 1 \<Longrightarrow> sd_inv (sd_powerup_precharge p s)"
  by (auto simp: sd_powerup_precharge_def sd_inv_def)

lemma sd_powerup_program_inv:
  assumes "sd_inv s" "sd_pwrup s = 2" "sd_powerup_program p s = Inr s'"
  shows "sd_inv s'"
proof -
  define programmed where "programmed = (\<lambda>u. if sd_mode_is_set u \<and> 8 \<le> sd_refresh_cycles u then
       bindE (sd_refresh_all (\<lambda>_. MAX_REFRESH_TIME) (u\<lparr>sd_pwrup := sd_pwrup u + 1\<rparr>)) (\<lambda>u.
         Inr (u\<lparr>sd_clocks_till_idle := 2\<rparr>))
     else Inr u)"
  have programmed: "sd_inv u \<Longrightarrow> sd_pwrup u = 2 \<Longrightarrow> programmed u = Inr s' \<Longrightarrow> sd_inv s'" for u
    by (auto simp: programmed_def sd_inv_def bindE_Inr_iff dest!: sd_refresh_all_shape split: if_splits)
  have "sd_inv (s\<lparr>sd_mode_is_set := b, sd_refresh_cycles := c\<rparr>)" "sd_inv (s\<lparr>sd_mode_is_set := b\<rparr>)"
    "sd_inv (s\<lparr>sd_refresh_cycles := c\<rparr>)" for b c
    using assms(1) by (simp_all add: sd_inv_def)
  with assms show ?thesis
    unfolding sd_powerup_program_def programmed_def [symmetric]
    by (auto simp: bindE_Inr_iff Let_def split: if_splits intro: programmed [rotated 2])
qed

lemma sd_powerup_settle_inv: "sd_inv s \<Longrightarrow> sd_powerup_settle p s = Inr s' \<Longrightarrow> sd_inv s'"
  by (auto simp: sd_powerup_settle_def sd_inv_def bindE_Inr_iff POWERED_UP_STATE_def split: if_splits)

lemma sd_powerup_inv:
  assumes "sd_inv s" "sd_powerup p s = Inr s'" "sd_pwrup s < 4"
  shows "sd_inv s'"
proof -
  define t where "t = (if 0 < sd_clocks_till_idle s then s\<lparr>sd_clocks_till_idle := sd_clocks_till_idle s - 1\<rparr> else s)"
  have t: "sd_inv t" "sd_pwrup t = sd_pwrup s"
    using assms(1) by (auto simp: t_def sd_inv_def)
  have flag: "sd_inv u \<Longrightarrow> sd_inv (u\<lparr>sd_next_wr := b\<rparr>)" for u b by (simp add: sd_inv_def)
  from assms(3) consider "sd_pwrup t = 0" | "sd_pwrup t = 1" | "sd_pwrup t = 2" | "sd_pwrup t = 3"
    unfolding t(2) by linarith
  then show ?thesis
    using assms(2) unfolding sd_powerup_def t_def [symmetric] Let_def
    by cases (auto simp: bindE_Inr_iff intro!: flag
      dest: sd_powerup_wait_inv [OF t(1)] sd_powerup_program_inv [OF t(1)] sd_powerup_settle_inv [OF t(1)]
      intro: sd_powerup_precharge_inv [OF t(1)])
qed

lemma sd_tick_inv:
  assumes "sd_inv s" "sdramsim_apply s p = Inr (s', r)"
  shows "sd_inv s'"
proof -
  from assms(1) consider "sd_pwrup s < 4" | "sd_pwrup s = 6"
    by (auto simp: sd_inv_def)
  then show ?thesis
  proof cases
    case 1
    with assms sd_powerup_inv [OF assms(1) _ 1] show ?thesis
      by (auto simp: sdramsim_apply_def bindE_Inr_iff POWERED_UP_STATE_def split: if_splits)
  next
    case 2
    with assms sd_operate_inv [OF assms(1) 2] show ?thesis
      by (auto simp: sdramsim_apply_def bindE_Inr_iff POWERED_UP_STATE_def split: if_splits)
  qed
qed

text \<open>C7. Whatever is put on its pins, a tick that the chip accepts keeps its invariant: the
  indices stay inside the arrays, the bank states are among the eight, and the power-up state is
  one the code handles.\<close>

theorem sdramsim_keeps_inv:
  assumes "sd_inv s" "sdramsim_apply s p = Inr (s', r)"
  shows "sd_inv s'"
  using assms by (rule sd_tick_inv)

end
