(* ===== verification/SdramPower.thy ===== *)
theory SdramPower
  imports SdramProps
begin

text \<open>
  The power-up sequence that the SDRAM chip demands, stated apart from the code as a step
  relation, and the proof that the code follows it.
\<close>

subsection \<open>The sequence\<close>

datatype power_phase = PWait nat | PAll | PProgram bool nat | PSettle nat | POperational

definition cmd_idle :: "sd_pins \<Rightarrow> bool" where
  "cmd_idle p \<longleftrightarrow> p_cs_n p \<and> p_ras_n p \<and> p_cas_n p \<and> p_we_n p \<and> p_dqm p = 3"

definition precharge_all :: "sd_pins \<Rightarrow> bool" where
  "precharge_all p \<longleftrightarrow> cmd_precharge p \<and> addr10 p"

inductive power_step :: "power_phase \<Rightarrow> sd_pins \<Rightarrow> power_phase \<Rightarrow> bool" where
  wait: "cmd_idle p \<Longrightarrow> power_step (PWait (Suc (Suc n))) p (PWait (Suc n))"
| waited: "cmd_idle p \<Longrightarrow> power_step (PWait (Suc 0)) p PAll"
| hold: "\<not> precharge_all p \<Longrightarrow> power_step PAll p PAll"
| all: "precharge_all p \<Longrightarrow> power_step PAll p (PProgram False 0)"
| mode_early: "cmd_mode_set p \<Longrightarrow> p_addr p = 0x21 \<Longrightarrow> power_step (PProgram False 0) p (PProgram True 0)"
| mode_late: "cmd_mode_set p \<Longrightarrow> p_addr p = 0x21 \<Longrightarrow> power_step (PProgram False 8) p (PSettle 2)"
| refresh: "cmd_refresh p \<Longrightarrow> c < 8 \<Longrightarrow> \<not> (m \<and> c = 7) \<Longrightarrow> power_step (PProgram m c) p (PProgram m (Suc c))"
| refreshed: "cmd_refresh p \<Longrightarrow> power_step (PProgram True 7) p (PSettle 2)"
| other: "\<not> cmd_mode_set p \<Longrightarrow> \<not> cmd_refresh p \<Longrightarrow> power_step (PProgram m c) p (PProgram m c)"
| settle: "p_cs_n p \<Longrightarrow> power_step (PSettle (Suc (Suc n))) p (PSettle (Suc n))"
| settled: "p_cs_n p \<Longrightarrow> power_step (PSettle (Suc 0)) p POperational"
| operate: "power_step POperational p POperational"

inductive power_path :: "power_phase \<Rightarrow> sd_pins list \<Rightarrow> power_phase \<Rightarrow> bool" where
  nil: "power_path a [] a"
| snoc: "power_path a ps b \<Longrightarrow> power_step b p c \<Longrightarrow> power_path a (ps @ [p]) c"

inductive_cases power_from_wait: "power_step (PWait n) p b"
inductive_cases power_from_all: "power_step PAll p b"
inductive_cases power_from_program: "power_step (PProgram m c) p b"
inductive_cases power_from_settle: "power_step (PSettle n) p b"
inductive_cases power_from_operational: "power_step POperational p b"

subsection \<open>What has been seen on the way\<close>

definition waited_for :: "nat \<Rightarrow> sd_pins list \<Rightarrow> bool" where
  "waited_for n ps \<longleftrightarrow> n \<le> length ps \<and> list_all cmd_idle (take n ps)"

text \<open>Eight refreshes and one mode setting after all banks have been precharged after the wait.\<close>

definition powered_up :: "nat \<Rightarrow> sd_pins list \<Rightarrow> bool" where
  "powered_up n ps \<longleftrightarrow> (\<exists>w q prog rest. ps = w @ q # prog @ rest \<and> waited_for n w \<and> precharge_all q
     \<and> length (filter cmd_refresh prog) = 8
     \<and> (\<exists>x. filter cmd_mode_set prog = [x] \<and> p_addr x = 0x21))"

fun power_seen :: "nat \<Rightarrow> sd_pins list \<Rightarrow> power_phase \<Rightarrow> bool" where
  "power_seen k ps (PWait n) \<longleftrightarrow> 0 < n \<and> length ps + n = k \<and> list_all cmd_idle ps"
| "power_seen k ps PAll \<longleftrightarrow> waited_for k ps"
| "power_seen k ps (PProgram m c) \<longleftrightarrow>
     (\<exists>w q prog. ps = w @ q # prog \<and> waited_for k w \<and> precharge_all q
        \<and> length (filter cmd_refresh prog) = c
        \<and> (if m then \<exists>x. filter cmd_mode_set prog = [x] \<and> p_addr x = 0x21
           else filter cmd_mode_set prog = []))"
| "power_seen k ps (PSettle n) \<longleftrightarrow> powered_up k ps"
| "power_seen k ps POperational \<longleftrightarrow> powered_up k ps"

lemma commands_apart: "cmd_mode_set p \<Longrightarrow> \<not> cmd_refresh p" "cmd_refresh p \<Longrightarrow> \<not> cmd_mode_set p"
  by (auto simp: cmd_mode_set_def cmd_refresh_def)

lemma waited_for_snoc: "waited_for n ps \<Longrightarrow> waited_for n (ps @ [p])"
  by (simp add: waited_for_def)

lemma powered_up_snoc: "powered_up n ps \<Longrightarrow> powered_up n (ps @ [p])"
  unfolding powered_up_def by (metis append.assoc append_Cons)

lemma power_seen_program:
  "ps = w @ q # prog \<Longrightarrow> waited_for k w \<Longrightarrow> precharge_all q \<Longrightarrow>
     length (filter cmd_refresh prog) = c \<Longrightarrow>
     (if m then \<exists>x. filter cmd_mode_set prog = [x] \<and> p_addr x = 0x21 else filter cmd_mode_set prog = []) \<Longrightarrow>
     power_seen k ps (PProgram m c)"
  unfolding power_seen.simps by (intro exI conjI)

lemma power_seen_settle: "power_seen k ps (PProgram True 8) \<Longrightarrow> powered_up k ps"
  unfolding powered_up_def power_seen.simps by (metis append_Nil2)

lemma power_seen_step:
  assumes "power_seen k ps a" "power_step a p b"
  shows "power_seen k (ps @ [p]) b"
proof (cases a)
  case (PWait n)
  with assms show ?thesis
    by (auto elim!: power_from_wait simp: waited_for_def)
next
  case PAll
  with assms show ?thesis
    by (auto elim!: power_from_all simp: waited_for_snoc intro!: exI [of _ ps])
next
  case (PProgram m c)
  with assms(1) obtain w q prog where seen: "ps = w @ q # prog" "waited_for k w" "precharge_all q"
      "length (filter cmd_refresh prog) = c"
      "if m then \<exists>x. filter cmd_mode_set prog = [x] \<and> p_addr x = 0x21 else filter cmd_mode_set prog = []"
    by auto
  have grown: "power_seen k (ps @ [p]) (PProgram m' c')"
    if "length (filter cmd_refresh (prog @ [p])) = c'"
       "if m' then \<exists>x. filter cmd_mode_set (prog @ [p]) = [x] \<and> p_addr x = 0x21
        else filter cmd_mode_set (prog @ [p]) = []" for m' c'
    using seen(1,2,3) that by (intro power_seen_program [of _ w q "prog @ [p]"]) simp_all
  show ?thesis
    using assms(2) seen(4,5) unfolding PProgram
    by (elim power_from_program)
      (auto simp: commands_apart intro!: grown power_seen_settle simp del: power_seen.simps(3)
        simp: power_seen.simps(4,5))
next
  case (PSettle n)
  with assms show ?thesis by (auto elim!: power_from_settle simp: powered_up_snoc)
next
  case POperational
  with assms show ?thesis by (auto elim!: power_from_operational simp: powered_up_snoc)
qed

lemma power_path_seen: "power_path a ps b \<Longrightarrow> a = PWait k \<Longrightarrow> 0 < k \<Longrightarrow> power_seen k ps b"
  by (induction rule: power_path.induct) (auto simp: power_seen_step simp del: power_seen.simps(3))


subsection \<open>The code follows it\<close>

definition phase_of :: "sdramsim \<Rightarrow> power_phase" where
  "phase_of s =
     (if sd_pwrup s = 0 then PWait (nat (sd_clocks_till_idle s))
      else if sd_pwrup s = 1 then PAll
      else if sd_pwrup s = 2 then PProgram (sd_mode_is_set s) (sd_refresh_cycles s)
      else if sd_pwrup s = 3 then PSettle (nat (sd_clocks_till_idle s))
      else POperational)"

definition power_sim :: "sdramsim \<Rightarrow> bool" where
  "power_sim s \<longleftrightarrow> sd_inv s
     \<and> (sd_pwrup s = 0 \<or> sd_pwrup s = 3 \<longrightarrow> 0 < sd_clocks_till_idle s)
     \<and> (sd_pwrup s < 2 \<longrightarrow> \<not> sd_mode_is_set s \<and> sd_refresh_cycles s = 0)
     \<and> (sd_pwrup s = 2 \<longrightarrow> sd_refresh_cycles s \<le> 8 \<and> \<not> (sd_mode_is_set s \<and> sd_refresh_cycles s = 8))"

definition tick_idle :: "sdramsim \<Rightarrow> sdramsim" where
  "tick_idle s = (if 0 < sd_clocks_till_idle s then s\<lparr>sd_clocks_till_idle := sd_clocks_till_idle s - 1\<rparr> else s)"

lemma tick_idle_simps [simp]:
  "sd_pwrup (tick_idle s) = sd_pwrup s" "sd_mode_is_set (tick_idle s) = sd_mode_is_set s"
  "sd_refresh_cycles (tick_idle s) = sd_refresh_cycles s"
  "0 < sd_clocks_till_idle s \<Longrightarrow> sd_clocks_till_idle (tick_idle s) = sd_clocks_till_idle s - 1"
  by (simp_all add: tick_idle_def)

lemma sd_powerup_phase:
  assumes "power_sim s" "sd_pwrup s < 4" "sd_powerup p s = Inr s'"
  shows "power_step (phase_of s) p (phase_of s')
    \<and> (sd_pwrup s' = 0 \<or> sd_pwrup s' = 3 \<longrightarrow> 0 < sd_clocks_till_idle s')
    \<and> (sd_pwrup s' < 2 \<longrightarrow> \<not> sd_mode_is_set s' \<and> sd_refresh_cycles s' = 0)
    \<and> (sd_pwrup s' = 2 \<longrightarrow> sd_refresh_cycles s' \<le> 8 \<and> \<not> (sd_mode_is_set s' \<and> sd_refresh_cycles s' = 8))"
proof -
  note run = assms(3) [unfolded sd_powerup_def Let_def, folded tick_idle_def]
  from run have dqm: "p_dqm p = 3" by (auto simp: bindE_Inr_iff)
  have t: "\<exists>t. (if sd_pwrup s = 0 then sd_powerup_wait p (tick_idle s)
            else if sd_pwrup s = 1 then Inr (sd_powerup_precharge p (tick_idle s))
            else if sd_pwrup s = 2 then sd_powerup_program p (tick_idle s)
            else if sd_pwrup s = 3 then sd_powerup_settle p (tick_idle s)
            else if sd_pwrup s = 4 then sd_powerup_four p (tick_idle s)
            else Inr (tick_idle s)) = Inr t \<and> s' = t\<lparr>sd_next_wr := False\<rparr>"
    using run unfolding dqm tick_idle_simps bindE_Inr_iff by auto
  from assms(2) consider (0) "sd_pwrup s = 0" | (1) "sd_pwrup s = 1" | (2) "sd_pwrup s = 2" | (3) "sd_pwrup s = 3"
    by linarith
  then show ?thesis
  proof cases
    case 0
    with assms(1) obtain n where n: "sd_clocks_till_idle s = int (Suc n)"
      unfolding power_sim_def by (metis gr0_conv_Suc zero_less_imp_eq_int)
    show ?thesis
    proof (cases n)
      case 0
      with t n \<open>sd_pwrup s = 0\<close> assms(1) dqm show ?thesis
        by (auto simp: sd_powerup_wait_def bindE_Inr_iff phase_of_def power_sim_def
          cmd_idle_def intro!: power_step.waited)
    next
      case (Suc m)
      with t n 0 assms(1) dqm show ?thesis
        by (auto simp: sd_powerup_wait_def bindE_Inr_iff phase_of_def power_sim_def
          cmd_idle_def nat_add_distrib intro!: power_step.wait)
    qed
  next
    case 1
    with t assms(1) show ?thesis
      by (auto simp: sd_powerup_precharge_def phase_of_def power_sim_def precharge_all_def
        intro: power_step.hold power_step.all)
  next
    case 2
    define u where "u = tick_idle s"
    have u: "sd_pwrup u = 2" "sd_mode_is_set u = sd_mode_is_set s" "sd_refresh_cycles u = sd_refresh_cycles s"
      using 2 by (simp_all add: u_def tick_idle_def)
    from t 2 obtain t where t: "sd_powerup_program p u = Inr t" "s' = t\<lparr>sd_next_wr := False\<rparr>"
      by (auto simp: u_def)
    have s: "sd_refresh_cycles s \<le> 8" "\<not> (sd_mode_is_set s \<and> sd_refresh_cycles s = 8)"
      using assms(1) 2 by (auto simp: power_sim_def)
    show ?thesis
    proof (cases "cmd_mode_set p")
      case True
      with t u s 2 show ?thesis
        by (auto simp: sd_powerup_program_def commands_apart bindE_Inr_iff phase_of_def
          dest!: sd_refresh_all_shape split: if_splits intro: power_step.mode_early power_step.mode_late)
    next
      case mode: False
      show ?thesis
      proof (cases "cmd_refresh p")
        case True
        with mode t u s 2 show ?thesis
          by (auto simp: sd_powerup_program_def Let_def bindE_Inr_iff phase_of_def le_Suc_eq
            dest!: sd_refresh_all_shape split: if_splits intro: power_step.refreshed intro!: power_step.refresh)
      next
        case False
        with mode t u s 2 show ?thesis
          by (auto simp: sd_powerup_program_def bindE_Inr_iff phase_of_def
            dest!: sd_refresh_all_shape split: if_splits intro: power_step.other)
      qed
    qed
  next
    case 3
    with assms(1) have "sd_clocks_till_idle s = 1 \<or> sd_clocks_till_idle s = 2"
      by (auto simp: power_sim_def sd_inv_def)
    with t 3 show ?thesis
      by (auto simp: sd_powerup_settle_def bindE_Inr_iff phase_of_def POWERED_UP_STATE_def
        numeral_2_eq_2 intro!: power_step.settle power_step.settled)
  qed
qed


lemma power_step_of_tick:
  assumes "power_sim s" "sdramsim_apply s p = Inr (s', r)" "p_clk p"
  shows "power_step (phase_of s) p (phase_of s') \<and> power_sim s'"
proof -
  from assms(1) have inv: "sd_inv s" by (simp add: power_sim_def)
  have inv': "sd_inv s'" using inv assms(2) by (rule sd_tick_inv)
  from inv consider "sd_pwrup s < 4" | "sd_pwrup s = 6" by (auto simp: sd_inv_def)
  then show ?thesis
  proof cases
    case 1
    with assms(2,3) have "sd_powerup p s = Inr s'"
      by (auto simp: sdramsim_apply_def bindE_Inr_iff POWERED_UP_STATE_def split: if_splits)
    from sd_powerup_phase [OF assms(1) 1 this] inv' show ?thesis by (simp add: power_sim_def)
  next
    case 2
    with assms(2,3) have "sd_operate p s = Inr (s', r)"
      by (auto simp: sdramsim_apply_def bindE_Inr_iff POWERED_UP_STATE_def split: if_splits)
    then have "sd_pwrup s' = 6" using sd_operate_inv [OF inv 2] by blast
    with 2 inv' show ?thesis by (simp add: phase_of_def power_sim_def power_step.operate)
  qed
qed


text \<open>C8. Every clock that the chip accepts is a step of the power-up sequence, from the phase it
  was in to the phase it is in.\<close>

theorem power_up_refines:
  assumes "power_sim s" "sdramsim_apply s p = Inr (s', r)" "p_clk p"
  shows "power_step (phase_of s) p (phase_of s') \<and> power_sim s'"
  using assms by (rule power_step_of_tick)

lemma run_power_path:
  "power_sim s \<Longrightarrow> list_all p_clk ps \<Longrightarrow> run_machine sdramsim_apply s ps = Inr (s', outs) \<Longrightarrow>
     power_path (phase_of s) ps (phase_of s') \<and> power_sim s'"
proof (induction ps arbitrary: s' outs rule: rev_induct)
  case Nil
  then show ?case by (simp add: power_path.nil)
next
  case (snoc p ps)
  from snoc.prems(3) obtain s1 outs1 r where
    run: "run_machine sdramsim_apply s ps = Inr (s1, outs1)" "sdramsim_apply s1 p = Inr (s', r)"
    by (auto simp: run_machine_append bindE_Inr_iff)
  from snoc.IH [OF snoc.prems(1) _ run(1)] snoc.prems(2)
  have "power_path (phase_of s) ps (phase_of s1)" "power_sim s1" by simp_all
  moreover from snoc.prems(2) have "p_clk p" by simp
  ultimately show ?case
    using power_step_of_tick [OF _ run(2)] by (blast intro: power_path.snoc)
qed

text \<open>What the constructor relies on the storage to hold in the members it does not set.\<close>

definition sd_storage :: "sdramsim \<Rightarrow> bool" where
  "sd_storage g \<longleftrightarrow>
     length (sd_bank_status g) = 4 \<and> length (sd_bank_row g) = 4 \<and> length (sd_bank_open_time g) = 4
     \<and> length (sd_qdata g) = 16 \<and> sd_nrefresh g \<le> 8192
     \<and> list_all (\<lambda>st. 0 \<le> st \<and> st < 8) (sd_bank_status g)"

lemma sdramsim_new_sim:
  assumes "sd_storage g" "sdramsim_new heap g = Inr s"
  shows "power_sim s \<and> phase_of s = PWait 20000"
  using assms
  by (auto simp: sdramsim_new_def bindE_Inr_iff power_sim_def phase_of_def sd_inv_def sd_storage_def
    PWRUP_WAIT_CKS_def dest!: sd_refresh_all_shape)

text \<open>A chip that is in operation has been through its power-up sequence: it was left idle for
  20000 clocks, then all banks were precharged, and after that it was refreshed eight times and
  its mode was set once, to the one mode the model supports.\<close>

theorem sdram_operational_means_powered_up:
  assumes "sd_storage g" "sdramsim_new heap g = Inr s" "list_all p_clk ps"
    "run_machine sdramsim_apply s ps = Inr (s', outs)" "sd_pwrup s' = POWERED_UP_STATE"
  shows "powered_up 20000 ps"
proof -
  from sdramsim_new_sim [OF assms(1,2)] have s: "power_sim s" "phase_of s = PWait 20000" by simp_all
  from run_power_path [OF s(1) assms(3,4)] have "power_path (PWait 20000) ps (phase_of s')"
    unfolding s(2) by simp
  moreover have "phase_of s' = POperational" using assms(5) by (simp add: phase_of_def POWERED_UP_STATE_def)
  ultimately have "power_path (PWait 20000) ps POperational" by simp
  then have "power_seen 20000 ps POperational" by (rule power_path_seen) simp_all
  then show ?thesis by simp
qed

text \<open>A run that gets there, from storage that is zero.\<close>

definition idle_pins :: sd_pins where
  "idle_pins = \<lparr>p_clk = True, p_cke = True, p_cs_n = True, p_ras_n = True, p_cas_n = True, p_we_n = True,
     p_bs = 0, p_addr = 0, p_driv = False, p_data = 0, p_dqm = 3\<rparr>"

definition zero_storage :: sdramsim where
  "zero_storage = \<lparr>sd_pwrup = 0, sd_mem = (\<lambda>_. 0), sd_last_value = 0, sd_bank_status = [0, 0, 0, 0],
     sd_bank_row = [0, 0, 0, 0], sd_bank_open_time = [0, 0, 0, 0], sd_refresh_time = [], sd_refresh_loc = 0,
     sd_nrefresh = 0, sd_qloc = 0, sd_qdata = replicate 16 0, sd_qmask = 0, sd_wr_addr = 0,
     sd_clocks_till_idle = 0, sd_next_wr = False, sd_fail = 0, sd_mode_is_set = False,
     sd_refresh_cycles = 0\<rparr>"

definition power_up_commands :: "sd_pins list" where
  "power_up_commands =
     idle_pins\<lparr>p_cs_n := False, p_ras_n := False, p_we_n := False, p_addr := 0x400\<rparr>
     # idle_pins\<lparr>p_cs_n := False, p_ras_n := False, p_cas_n := False, p_we_n := False, p_addr := 0x21\<rparr>
     # replicate 8 (idle_pins\<lparr>p_cs_n := False, p_ras_n := False, p_cas_n := False\<rparr>) @ [idle_pins, idle_pins]"

lemma idle_tick:
  "sd_pwrup s = 0 \<Longrightarrow> sd_clocks_till_idle s = 2 + int n \<Longrightarrow>
     sdramsim_apply s idle_pins = Inr (s\<lparr>sd_clocks_till_idle := 1 + int n, sd_next_wr := False\<rparr>, 0)"
  by (simp add: sdramsim_apply_def idle_pins_def POWERED_UP_STATE_def sd_powerup_def sd_powerup_wait_def)

lemma idle_last_tick:
  "sd_pwrup s = 0 \<Longrightarrow> sd_clocks_till_idle s = 1 \<Longrightarrow>
     sdramsim_apply s idle_pins = Inr (s\<lparr>sd_pwrup := 1, sd_clocks_till_idle := 0, sd_next_wr := False\<rparr>, 0)"
  by (simp add: sdramsim_apply_def idle_pins_def POWERED_UP_STATE_def sd_powerup_def sd_powerup_wait_def)

lemma idle_run:
  "sd_pwrup s = 0 \<Longrightarrow> sd_clocks_till_idle s = 1 + int n \<Longrightarrow>
     run_machine sdramsim_apply s (replicate (Suc n) idle_pins) =
     Inr (s\<lparr>sd_pwrup := 1, sd_clocks_till_idle := 0, sd_next_wr := False\<rparr>, replicate (Suc n) 0)"
proof (induction n arbitrary: s)
  case 0
  then show ?case by (simp add: idle_last_tick)
next
  case (Suc n)
  then show ?case by (simp add: idle_tick)
qed

lemma replicate_8: "replicate 8 x = [x, x, x, x, x, x, x, x]"
  by (simp add: numeral_eq_Suc)

lemma power_up_run:
  assumes "sd_pwrup s = 1" "sd_nrefresh s = 0" "\<not> sd_mode_is_set s" "sd_refresh_cycles s = 0"
  shows "\<exists>s' outs. run_machine sdramsim_apply s power_up_commands = Inr (s', outs) \<and> sd_pwrup s' = 6"
  using assms
  by (simp add: power_up_commands_def idle_pins_def replicate_8 sdramsim_apply_def POWERED_UP_STATE_def
    sd_powerup_def sd_powerup_precharge_def sd_powerup_program_def sd_powerup_settle_def
    cmd_precharge_def addr10_def cmd_mode_set_def cmd_refresh_def sd_refresh_all_def)


definition power_up_pins :: "sd_pins list" where
  "power_up_pins = replicate (Suc 19999) idle_pins @ power_up_commands"

lemma power_up_clocked: "list_all p_clk power_up_pins"
  by (simp add: power_up_pins_def list_all_iff power_up_commands_def idle_pins_def)

lemma zero_storage_ok: "sd_storage zero_storage"
  by (simp add: sd_storage_def zero_storage_def)

lemma power_up_pins_run:
  "\<exists>s s' outs. sdramsim_new (\<lambda>_. 0) zero_storage = Inr s
     \<and> run_machine sdramsim_apply s power_up_pins = Inr (s', outs) \<and> sd_pwrup s' = POWERED_UP_STATE"
proof -
  obtain s where s: "sdramsim_new (\<lambda>_. 0) zero_storage = Inr s" "sd_pwrup s = 0"
      "sd_clocks_till_idle s = 1 + int 19999" "sd_nrefresh s = 0" "\<not> sd_mode_is_set s" "sd_refresh_cycles s = 0"
    by (simp add: sdramsim_new_def sd_refresh_all_def zero_storage_def PWRUP_WAIT_CKS_def)
  let ?t = "s\<lparr>sd_pwrup := 1, sd_clocks_till_idle := 0, sd_next_wr := False\<rparr>"
  obtain s' outs where "run_machine sdramsim_apply ?t power_up_commands = Inr (s', outs)" "sd_pwrup s' = 6"
    using power_up_run [of ?t] s(4,5,6) by auto
  with idle_run [OF s(2,3)] s(1) show ?thesis
    unfolding power_up_pins_def run_machine_append POWERED_UP_STATE_def by simp
qed

theorem sdram_operational_means_powered_up_witness: "powered_up 20000 power_up_pins"
  using sdram_operational_means_powered_up [OF zero_storage_ok _ power_up_clocked] power_up_pins_run
  by blast

theorem power_up_refines_witness:
  "\<exists>s. sdramsim_new (\<lambda>_. 0) zero_storage = Inr s
     \<and> power_step (phase_of s) idle_pins (phase_of (s\<lparr>sd_clocks_till_idle := 19999, sd_next_wr := False\<rparr>))"
proof -
  obtain s where s: "sdramsim_new (\<lambda>_. 0) zero_storage = Inr s" "sd_pwrup s = 0"
      "sd_clocks_till_idle s = 2 + int 19998"
    by (simp add: sdramsim_new_def sd_refresh_all_def zero_storage_def PWRUP_WAIT_CKS_def)
  have "power_sim s" using sdramsim_new_sim [OF zero_storage_ok s(1)] by simp
  from power_up_refines [OF this idle_tick [OF s(2,3)]] s(1) show ?thesis
    by (simp add: idle_pins_def)
qed

end
