(* ===== verification/SdramAccess.thy ===== *)
theory SdramAccess
  imports SdramPower
begin

text \<open>
  Bursts of two words: what a write stores, when a read answers, and which rows there is memory
  for.
\<close>

subsection \<open>A clock in operation\<close>

definition sd_ready :: "nat \<Rightarrow> sdramsim \<Rightarrow> bool" where
  "sd_ready n s \<longleftrightarrow> sd_inv s \<and> sd_pwrup s = 6 \<and> sd_fail s = 0
     \<and> list_all (\<lambda>t. int n \<le> t) (sd_bank_open_time s)"

lemma sd_banks_tick_ok:
  "length sts = length ts \<Longrightarrow> list_all (\<lambda>t. int (Suc n) \<le> t) ts \<Longrightarrow>
     \<exists>ts'. sd_banks_tick sts ts = Inr (map bank_shift sts, ts') \<and> length ts' = length ts
       \<and> list_all (\<lambda>t. int n \<le> t) ts'"
proof (induction sts ts rule: list_induct2)
  case (Cons st sts t ts)
  then obtain ts' where "sd_banks_tick sts ts = Inr (map bank_shift sts, ts')" "length ts' = length ts"
      "list_all (\<lambda>t. int n \<le> t) ts'" by auto
  with Cons.prems show ?case by (auto simp: Let_def)
qed simp

lemma sd_clock_ok:
  assumes "sd_ready (Suc n) s"
  shows "\<exists>ts os. sd_clock s = Inr (s\<lparr>sd_refresh_time := ts, sd_bank_status := map bank_shift (sd_bank_status s),
      sd_bank_open_time := os, sd_clocks_till_idle := (if sd_clocks_till_idle s \<noteq> 0 then sd_clocks_till_idle s - 1 else 0)\<rparr>)
    \<and> length ts = 8192 \<and> length os = 4 \<and> list_all (\<lambda>t. int n \<le> t) os"
proof -
  from assms have inv: "sd_inv s" by (simp add: sd_ready_def)
  then obtain ts where ts: "sd_refresh_all (\<lambda>t. t - 1) s = Inr (s\<lparr>sd_refresh_time := ts\<rparr>)" "length ts = 8192"
    using sd_refresh_all_ok [of s] by (auto simp: sd_inv_def)
  have "sd_refresh_loc s < 8192" using inv by (auto simp: sd_inv_def)
  then have tick: "sd_refresh_tick s = Inr (s\<lparr>sd_refresh_time := ts\<rparr>)"
    using ts by (simp add: sd_refresh_tick_def)
  obtain os where os: "sd_banks_tick (sd_bank_status s) (sd_bank_open_time s) = Inr (map bank_shift (sd_bank_status s), os)"
      "length os = 4" "list_all (\<lambda>t. int n \<le> t) os"
    using sd_banks_tick_ok [of "sd_bank_status s" "sd_bank_open_time s" n] assms inv
    by (auto simp: sd_ready_def sd_inv_def)
  show ?thesis
    using assms ts(2) os(2,3)
    by (auto simp: sd_clock_def tick os(1) sd_countdown_def Let_def sd_ready_def
      intro!: exI [of _ ts] exI [of _ os])
qed

lemma and_15: "(n :: nat) AND 15 = n mod 16"
  using take_bit_eq_mask [of 4 n] by (simp add: take_bit_eq_mod mask_eq_exp_minus_1)

lemma ready_apply:
  "sd_ready n s \<Longrightarrow> p_clk p \<Longrightarrow> p_cke p \<Longrightarrow> sdramsim_apply s p = sd_operate p s"
  by (simp add: sdramsim_apply_def sd_ready_def POWERED_UP_STATE_def)

text \<open>No command, and the bus is not driven.\<close>

definition sd_nop :: "sd_pins \<Rightarrow> bool" where
  "sd_nop p \<longleftrightarrow> p_clk p \<and> p_cke p \<and> p_cs_n p \<and> \<not> p_driv p"

lemma deselected: "p_cs_n p \<Longrightarrow> sd_command p s = Inr s"
  by (simp add: sd_command_def cmd_refresh_def cmd_precharge_def cmd_activate_def cmd_access_def)

lemma nop_tick:
  assumes "sd_ready (Suc n) s" "\<not> sd_next_wr s" "sd_nop p"
  defines "i \<equiv> (sd_qloc s + 1) mod 16"
  shows "\<exists>s'. sdramsim_apply s p = Inr (s', sd_qdata s ! i) \<and> sd_ready n s' \<and> \<not> sd_next_wr s'
    \<and> sd_qloc s' = i \<and> sd_qdata s' = (sd_qdata s)[i := 0] \<and> sd_mem s' = sd_mem s
    \<and> sd_bank_row s' = sd_bank_row s \<and> sd_bank_status s' = map bank_shift (sd_bank_status s)"
proof -
  from assms(1) have inv: "sd_inv s" "sd_pwrup s = 6" "sd_fail s = 0" by (simp_all add: sd_ready_def)
  have run: "sdramsim_apply s p = sd_operate p s"
    using ready_apply [OF assms(1)] assms(3) by (simp add: sd_nop_def)
  from sd_clock_ok [OF assms(1)] obtain ts os where clock:
    "sd_clock s = Inr (s\<lparr>sd_refresh_time := ts, sd_bank_status := map bank_shift (sd_bank_status s),
      sd_bank_open_time := os, sd_clocks_till_idle := (if sd_clocks_till_idle s \<noteq> 0 then sd_clocks_till_idle s - 1 else 0)\<rparr>)"
    "length ts = 8192" "length os = 4" "list_all (\<lambda>t. int n \<le> t) os" by blast
  have op: "sd_operate p s = Inr (s\<lparr>sd_refresh_time := ts, sd_bank_status := map bank_shift (sd_bank_status s),
      sd_bank_open_time := os, sd_clocks_till_idle := (if sd_clocks_till_idle s \<noteq> 0 then sd_clocks_till_idle s - 1 else 0),
      sd_qloc := i, sd_qdata := (sd_qdata s)[i := 0]\<rparr>, sd_qdata s ! i)"
    using assms(2,3) inv
    by (simp add: sd_operate_def clock(1) sd_second_half_def sd_queue_out_def deselected sd_nop_def
      and_15 i_def sd_inv_def Let_def)
  have "i < 16" by (simp add: i_def)
  with inv clock(2-) have "sd_ready n (s\<lparr>sd_refresh_time := ts, sd_bank_status := map bank_shift (sd_bank_status s),
      sd_bank_open_time := os, sd_clocks_till_idle := (if sd_clocks_till_idle s \<noteq> 0 then sd_clocks_till_idle s - 1 else 0),
      sd_qloc := i, sd_qdata := (sd_qdata s)[i := 0]\<rparr>)"
    by (auto simp: sd_ready_def sd_inv_def list_all_iff bank_status_values)
  then show ?thesis
    unfolding run op using assms(2) by (intro exI conjI) (rule refl, auto)
qed


subsection \<open>Addresses\<close>

lemma unat_push_or:
  fixes w v :: u32
  assumes "unat w * 2 ^ k < 2 ^ 32" "unat v < 2 ^ k" "k < 32"
  shows "unat (push_bit k w OR v) = unat w * 2 ^ k + unat v"
proof -
  have v: "take_bit k v = v"
    using assms(2) by (simp add: word_unat_eq_iff unsigned_take_bit_eq take_bit_nat_eq_self)
  have apart: "push_bit k w AND v = 0"
    by (subst v [symmetric]) (rule bit_word_eqI, simp add: bit_simps)
  have "unat (push_bit k w) = unat w * 2 ^ k"
    using assms(1) unfolding unsigned_push_bit_eq by (simp add: push_bit_eq_mult take_bit_nat_eq_self)
  moreover have "unat w * 2 ^ k + unat v < 2 ^ 32"
  proof -
    have "(2::nat) ^ 32 = 2 ^ (32 - k) * 2 ^ k" using assms(3) by (simp flip: power_add)
    moreover from this assms(1) have "unat w < 2 ^ (32 - k)"
      by (metis mult_less_cancel2)
    then have "Suc (unat w) * 2 ^ k \<le> 2 ^ (32 - k) * 2 ^ k" by (intro mult_le_mono1) simp
    ultimately show ?thesis using assms(2) by simp
  qed
  ultimately show ?thesis
    by (simp add: disjunctive_add_eq_or [OF apart, symmetric] unat_word_ariths)
qed

lemma unat_of_int_bank: "0 \<le> bs \<Longrightarrow> bs < 4 \<Longrightarrow> unat (of_int bs :: u32) = nat bs"
  by (simp add: unsigned_of_int take_bit_int_eq_self nat_eq_iff unat_eq_nat_uint)

text \<open>The banks lie between the rows and the columns.\<close>

lemma sd_address_value:
  assumes "unat row < 8192" "bank_in_range (p_bs p)"
  shows "unat (sd_address row p) = (unat row * 4 + nat (p_bs p)) * 512 + unat (p_addr p AND 0x1ff)"
proof -
  note b = bank_index [OF assms(2)]
  have "nat (p_bs p) < 4" using b by linarith
  then have bank: "unat (push_bit 2 row OR of_int (p_bs p)) = unat row * 4 + nat (p_bs p)"
    using unat_push_or [of row 2 "of_int (p_bs p)"] assms(1) b by (simp add: unat_of_int_bank)
  have m: "(0x1ff :: u32) = mask 9" by (simp add: mask_eq_exp_minus_1)
  have "(unat row * 4 + nat (p_bs p)) * 2 ^ 9 < 2 ^ 32"
    using \<open>nat (p_bs p) < 4\<close> assms(1) by simp
  moreover have "unat (p_addr p AND mask 9) < 2 ^ 9" by (rule unat_and_mask_less) simp
  ultimately show ?thesis
    using unat_push_or [of "push_bit 2 row OR of_int (p_bs p)" 9 "p_addr p AND mask 9"]
    unfolding sd_address_def m bank by simp
qed


lemma column_less: "unat (p_addr p AND 0x1ff) < 512"
proof -
  have m: "(0x1ff :: u32) = mask 9" by (simp add: mask_eq_exp_minus_1)
  show ?thesis unfolding m using unat_and_mask_less [of 9 "p_addr p"] by simp
qed

text \<open>There is memory for half of the rows that an access can name.\<close>

lemma sd_address_in_memory:
  assumes "unat row < 8192" "bank_in_range (p_bs p)"
  shows "unat (sd_address row p) < SDRAM_WORDS \<longleftrightarrow> unat row < 4096"
  using sd_address_value [OF assms] column_less [of p] bank_index [OF assms(2)]
  by (auto simp: SDRAM_WORDS_def)

subsection \<open>Reading\<close>

text \<open>A read of a column of the row that its bank has open.\<close>

definition sd_read_pins :: "sdramsim \<Rightarrow> sd_pins \<Rightarrow> bool" where
  "sd_read_pins s p \<longleftrightarrow> p_clk p \<and> p_cke p \<and> cmd_access p \<and> p_we_n p \<and> \<not> p_driv p \<and> \<not> addr10 p
     \<and> bank_in_range (p_bs p) \<and> bank_shift (sd_bank_status s ! nat (p_bs p)) AND 1 \<noteq> 0"

definition sd_read_address :: "sdramsim \<Rightarrow> sd_pins \<Rightarrow> u32" where
  "sd_read_address s p = sd_address ((sd_bank_row s ! nat (p_bs p)) AND 0x1fff) p"

lemma row_mask_less: "unat (row AND 0x1fff :: u32) < 8192"
proof -
  have m: "(0x1fff :: u32) = mask 13" by (simp add: mask_eq_exp_minus_1)
  show ?thesis unfolding m using unat_and_mask_less [of 13 row] by simp
qed

lemma access_command:
  "cmd_access p \<Longrightarrow> sd_command p s = (if \<not> p_we_n p then sd_write p s else sd_read p s)"
  by (auto simp: sd_command_def cmd_refresh_def cmd_precharge_def cmd_activate_def cmd_access_def)

lemma read_tick:
  assumes "sd_ready (Suc n) s" "\<not> sd_next_wr s" "sd_read_pins s p"
    "unat (sd_read_address s p) + 1 < SDRAM_WORDS"
  defines "i \<equiv> (sd_qloc s + 1) mod 16" and "a \<equiv> unat (sd_read_address s p)"
  shows "\<exists>s' r. sdramsim_apply s p = Inr (s', r) \<and> sd_ready n s' \<and> \<not> sd_next_wr s'
    \<and> sd_qloc s' = i
    \<and> sd_qdata s' = (sd_qdata s)[i := 0, (i + 3) mod 16 := sd_mem s a, (i + 4) mod 16 := sd_mem s (a + 1)]"
proof -
  from assms(1) have inv: "sd_inv s" "sd_pwrup s = 6" "sd_fail s = 0" by (simp_all add: sd_ready_def)
  have "0 \<le> p_bs p \<and> p_bs p < 4" using assms(3) by (intro bank_index) (simp add: sd_read_pins_def)
  then have bank: "nat (p_bs p) < 4" by linarith
  have run: "sdramsim_apply s p = sd_operate p s"
    using ready_apply [OF assms(1)] assms(3) by (simp add: sd_read_pins_def)
  from sd_clock_ok [OF assms(1)] obtain ts os where clock:
    "sd_clock s = Inr (s\<lparr>sd_refresh_time := ts, sd_bank_status := map bank_shift (sd_bank_status s),
      sd_bank_open_time := os, sd_clocks_till_idle := (if sd_clocks_till_idle s \<noteq> 0 then sd_clocks_till_idle s - 1 else 0)\<rparr>)"
    "length ts = 8192" "length os = 4" "list_all (\<lambda>t. int n \<le> t) os" by blast
  have succ: "unat (sd_read_address s p + 1) = a + 1"
    using assms(4) by (simp add: a_def unat_word_ariths SDRAM_WORDS_def)
  have "i < 16" by (simp add: i_def)
  let ?s' = "s\<lparr>sd_refresh_time := ts, sd_bank_status := map bank_shift (sd_bank_status s),
      sd_bank_open_time := os, sd_clocks_till_idle := 2, sd_qloc := i,
      sd_qdata := (sd_qdata s)[i := 0, (i + 3) mod 16 := sd_mem s a, (i + 4) mod 16 := sd_mem s (a + 1)]\<rparr>"
  have op: "sd_operate p s = Inr (?s', sd_qdata s ! i)"
    using assms(2,3,4) inv bank \<open>i < 16\<close> succ
    by (simp add: sd_operate_def clock(1) sd_second_half_def sd_queue_out_def access_command sd_read_pins_def
      and_15 i_def sd_inv_def Let_def sd_read_def sd_open_row_def sd_read_address_def sd_peek_def
      sd_auto_precharge_def a_def)
  from inv clock(2-) \<open>i < 16\<close> have "sd_ready n ?s'"
    by (auto simp: sd_ready_def sd_inv_def list_all_iff bank_status_values)
  then show ?thesis
    unfolding run op using assms(2) by (intro exI conjI) (rule refl, auto)
qed


lemma queue_slots:
  fixes i :: nat
  assumes "i < 16" "length q = 16"
  shows "q[i := a, (i + 3) mod 16 := d0, (i + 4) mod 16 := d1, (i + 1) mod 16 := b, (i + 2) mod 16 := c] ! ((i + 3) mod 16) = d0"
    "q[i := a, (i + 3) mod 16 := d0, (i + 4) mod 16 := d1, (i + 1) mod 16 := b, (i + 2) mod 16 := c, (i + 3) mod 16 := e]
       ! ((i + 4) mod 16) = d1"
proof -
  have "(i + 3) mod 16 \<noteq> (i + 4) mod 16" "(i + 3) mod 16 \<noteq> (i + 1) mod 16" "(i + 3) mod 16 \<noteq> (i + 2) mod 16"
    "(i + 4) mod 16 \<noteq> (i + 1) mod 16" "(i + 4) mod 16 \<noteq> (i + 2) mod 16"
    using assms(1) by (auto simp: mod_if)
  then show "q[i := a, (i + 3) mod 16 := d0, (i + 4) mod 16 := d1, (i + 1) mod 16 := b, (i + 2) mod 16 := c] ! ((i + 3) mod 16) = d0"
    "q[i := a, (i + 3) mod 16 := d0, (i + 4) mod 16 := d1, (i + 1) mod 16 := b, (i + 2) mod 16 := c, (i + 3) mod 16 := e]
       ! ((i + 4) mod 16) = d1"
    using assms(2) by (simp_all add: nth_list_update)
qed

lemma read_run:
  assumes "sd_ready (5 + n) s" "\<not> sd_next_wr s" "sd_read_pins s p"
    "unat (sd_read_address s p) + 1 < SDRAM_WORDS"
    "sd_nop n1" "sd_nop n2" "sd_nop n3" "sd_nop n4"
  shows "\<exists>s' r0 r1 r2. run_machine sdramsim_apply s [p, n1, n2, n3, n4] =
     Inr (s', [r0, r1, r2, sd_mem s (unat (sd_read_address s p)), sd_mem s (unat (sd_read_address s p) + 1)])"
proof -
  define i where "i = (sd_qloc s + 1) mod 16"
  have i: "i < 16" by (simp add: i_def)
  have step: "(i mod 16 + 1) mod 16 = (i + 1) mod 16" "((i + 1) mod 16 + 1) mod 16 = (i + 2) mod 16"
    "((i + 2) mod 16 + 1) mod 16 = (i + 3) mod 16" "((i + 3) mod 16 + 1) mod 16 = (i + 4) mod 16"
    by (simp_all add: mod_Suc_eq add.commute)
  have q: "length (sd_qdata s) = 16" using assms(1) by (simp add: sd_ready_def sd_inv_def)
  have "sd_ready (Suc (4 + n)) s" using assms(1) by (simp add: eval_nat_numeral)
  from read_tick [OF this assms(2,3,4)] obtain s0 r0 where s0:
    "sdramsim_apply s p = Inr (s0, r0)" "sd_ready (4 + n) s0" "\<not> sd_next_wr s0" "sd_qloc s0 = i"
    "sd_qdata s0 = (sd_qdata s)[i := 0, (i + 3) mod 16 := sd_mem s (unat (sd_read_address s p)),
        (i + 4) mod 16 := sd_mem s (unat (sd_read_address s p) + 1)]"
    unfolding i_def by blast
  have "sd_ready (Suc (3 + n)) s0" using s0(2) by (simp add: eval_nat_numeral)
  from nop_tick [OF this s0(3) assms(5)] obtain s1 r1 where s1:
    "sdramsim_apply s0 n1 = Inr (s1, r1)" "sd_ready (3 + n) s1" "\<not> sd_next_wr s1" "sd_qloc s1 = (i + 1) mod 16"
    "sd_qdata s1 = (sd_qdata s0)[(i + 1) mod 16 := 0]"
    unfolding s0(4) by blast
  have "sd_ready (Suc (2 + n)) s1" using s1(2) by (simp add: eval_nat_numeral)
  from nop_tick [OF this s1(3) assms(6)] obtain s2 r2 where s2:
    "sdramsim_apply s1 n2 = Inr (s2, r2)" "sd_ready (2 + n) s2" "\<not> sd_next_wr s2" "sd_qloc s2 = (i + 2) mod 16"
    "sd_qdata s2 = (sd_qdata s1)[(i + 2) mod 16 := 0]"
    unfolding s1(4) step by blast
  have "sd_ready (Suc (1 + n)) s2" using s2(2) by (simp add: eval_nat_numeral)
  from nop_tick [OF this s2(3) assms(7)] obtain s3 where s3:
    "sdramsim_apply s2 n3 = Inr (s3, sd_qdata s2 ! ((i + 3) mod 16))" "sd_ready (1 + n) s3" "\<not> sd_next_wr s3"
    "sd_qloc s3 = (i + 3) mod 16" "sd_qdata s3 = (sd_qdata s2)[(i + 3) mod 16 := 0]"
    unfolding s2(4) step by blast
  have "sd_ready (Suc n) s3" using s3(2) by simp
  from nop_tick [OF this s3(3) assms(8)] obtain s4 where s4:
    "sdramsim_apply s3 n4 = Inr (s4, sd_qdata s3 ! ((i + 4) mod 16))"
    unfolding s3(4) step by blast
  show ?thesis
    using s0(1) s1(1) s2(1) s3(1) s4 unfolding s3(5) s2(5) s1(5) s0(5) queue_slots [OF i q]
    by simp
qed

text \<open>The chip answers a read with the word of the addressed column three clocks after the
  command, and with the word of the next column one clock later.\<close>

theorem sdram_read_latency:
  assumes "sd_ready 5 s" "\<not> sd_next_wr s" "sd_read_pins s p"
    "unat (sd_read_address s p) + 1 < SDRAM_WORDS" "list_all sd_nop [n1, n2, n3, n4]"
  shows "\<exists>s' r0 r1 r2. run_machine sdramsim_apply s [p, n1, n2, n3, n4] =
     Inr (s', [r0, r1, r2, sd_mem s (unat (sd_read_address s p)), sd_mem s (unat (sd_read_address s p) + 1)])"
  using read_run [of 0 s p n1 n2 n3 n4] assms by simp

text \<open>The chip has memory for the lower half of its rows only: a read of an open row from 4096
  on is outside its array.\<close>

theorem sdram_upper_rows_missing:
  assumes "sd_ready (Suc n) s" "\<not> sd_next_wr s" "sd_read_pins s p"
    "4096 \<le> unat (sd_bank_row s ! nat (p_bs p) AND 0x1fff)"
  shows "sdramsim_apply s p = Inl OutOfBounds"
proof -
  from assms(1) have inv: "sd_inv s" by (simp add: sd_ready_def)
  have range: "bank_in_range (p_bs p)" using assms(3) by (simp add: sd_read_pins_def)
  then have bank: "nat (p_bs p) < 4" using bank_index [OF range] by linarith
  have out: "\<not> unat (sd_read_address s p) < SDRAM_WORDS"
    unfolding sd_read_address_def sd_address_in_memory [OF row_mask_less range] using assms(4) by simp
  have run: "sdramsim_apply s p = sd_operate p s"
    using ready_apply [OF assms(1)] assms(3) by (simp add: sd_read_pins_def)
  from sd_clock_ok [OF assms(1)] obtain ts os where clock:
    "sd_clock s = Inr (s\<lparr>sd_refresh_time := ts, sd_bank_status := map bank_shift (sd_bank_status s),
      sd_bank_open_time := os, sd_clocks_till_idle := (if sd_clocks_till_idle s \<noteq> 0 then sd_clocks_till_idle s - 1 else 0)\<rparr>)"
    by blast
  show ?thesis
    unfolding run
    using assms(2,3) inv bank out
    by (simp add: sd_operate_def clock sd_second_half_def sd_queue_out_def access_command sd_read_pins_def
      and_15 sd_inv_def Let_def sd_read_def sd_open_row_def sd_read_address_def sd_peek_def)
qed


subsection \<open>Writing\<close>

definition sd_write_pins :: "sdramsim \<Rightarrow> sd_pins \<Rightarrow> bool" where
  "sd_write_pins s p \<longleftrightarrow> p_clk p \<and> p_cke p \<and> cmd_access p \<and> \<not> p_we_n p \<and> p_driv p \<and> \<not> addr10 p
     \<and> bank_in_range (p_bs p) \<and> bank_shift (sd_bank_status s ! nat (p_bs p)) AND 1 \<noteq> 0"

definition sd_write_address :: "sdramsim \<Rightarrow> sd_pins \<Rightarrow> u32" where
  "sd_write_address s p = sd_address (sd_bank_row s ! nat (p_bs p)) p"

lemma write_tick:
  assumes "sd_ready (Suc n) s" "\<not> sd_next_wr s" "sd_write_pins s p"
    "unat (sd_write_address s p) < SDRAM_WORDS"
  shows "\<exists>s' r. sdramsim_apply s p = Inr (s', r) \<and> sd_ready n s' \<and> sd_next_wr s' \<and> sd_clocks_till_idle s' = 2
    \<and> sd_wr_addr s' = sd_write_address s p + 1
    \<and> sd_mem s' = (sd_mem s)(unat (sd_write_address s p) := p_data p)
    \<and> sd_bank_row s' = sd_bank_row s \<and> sd_bank_status s' = map bank_shift (sd_bank_status s)"
proof -
  define i where "i = (sd_qloc s + 1) mod 16"
  from assms(1) have inv: "sd_inv s" "sd_pwrup s = 6" "sd_fail s = 0" by (simp_all add: sd_ready_def)
  have "0 \<le> p_bs p \<and> p_bs p < 4" using assms(3) by (intro bank_index) (simp add: sd_write_pins_def)
  then have bank: "nat (p_bs p) < 4" by linarith
  have run: "sdramsim_apply s p = sd_operate p s"
    using ready_apply [OF assms(1)] assms(3) by (simp add: sd_write_pins_def)
  from sd_clock_ok [OF assms(1)] obtain ts os where clock:
    "sd_clock s = Inr (s\<lparr>sd_refresh_time := ts, sd_bank_status := map bank_shift (sd_bank_status s),
      sd_bank_open_time := os, sd_clocks_till_idle := (if sd_clocks_till_idle s \<noteq> 0 then sd_clocks_till_idle s - 1 else 0)\<rparr>)"
    "length ts = 8192" "length os = 4" "list_all (\<lambda>t. int n \<le> t) os" by blast
  have "i < 16" by (simp add: i_def)
  let ?s' = "s\<lparr>sd_refresh_time := ts, sd_bank_status := map bank_shift (sd_bank_status s),
      sd_bank_open_time := os, sd_clocks_till_idle := 2, sd_qloc := i, sd_qdata := (sd_qdata s)[i := 0],
      sd_wr_addr := sd_write_address s p + 1, sd_mem := (sd_mem s)(unat (sd_write_address s p) := p_data p),
      sd_next_wr := True\<rparr>"
  have op: "sd_operate p s = Inr (?s', p_data p)"
    using assms(2,3,4) inv bank \<open>i < 16\<close>
    by (simp add: sd_operate_def clock(1) sd_second_half_def sd_queue_out_def access_command sd_write_pins_def
      and_15 i_def sd_inv_def Let_def sd_write_def sd_open_row_def sd_write_address_def sd_peek_def sd_poke_def
      sd_auto_precharge_def)
  from inv clock(2-) \<open>i < 16\<close> have "sd_ready n ?s'"
    by (auto simp: sd_ready_def sd_inv_def list_all_iff bank_status_values)
  then show ?thesis
    unfolding run op by (intro exI conjI) (rule refl, auto)
qed

text \<open>The clock that carries the second word of a burst.\<close>

definition sd_data_pins :: "sd_pins \<Rightarrow> bool" where
  "sd_data_pins p \<longleftrightarrow> p_clk p \<and> p_cke p \<and> p_cs_n p"

lemma second_tick:
  assumes "sd_ready (Suc n) s" "sd_next_wr s" "sd_clocks_till_idle s = 2" "sd_data_pins p"
    "unat (sd_wr_addr s) < SDRAM_WORDS"
  defines "a \<equiv> unat (sd_wr_addr s)"
  shows "\<exists>s' r. sdramsim_apply s p = Inr (s', r) \<and> sd_ready n s' \<and> \<not> sd_next_wr s'
    \<and> sd_mem s' = (sd_mem s)(a := sd_merge (p_dqm p) (sd_mem s a) (p_data p))
    \<and> sd_bank_row s' = sd_bank_row s \<and> sd_bank_status s' = map bank_shift (sd_bank_status s)"
proof -
  define i where "i = (sd_qloc s + 1) mod 16"
  from assms(1) have inv: "sd_inv s" "sd_pwrup s = 6" "sd_fail s = 0" by (simp_all add: sd_ready_def)
  have run: "sdramsim_apply s p = sd_operate p s"
    using ready_apply [OF assms(1)] assms(4) by (simp add: sd_data_pins_def)
  from sd_clock_ok [OF assms(1)] obtain ts os where clock:
    "sd_clock s = Inr (s\<lparr>sd_refresh_time := ts, sd_bank_status := map bank_shift (sd_bank_status s),
      sd_bank_open_time := os, sd_clocks_till_idle := (if sd_clocks_till_idle s \<noteq> 0 then sd_clocks_till_idle s - 1 else 0)\<rparr>)"
    "length ts = 8192" "length os = 4" "list_all (\<lambda>t. int n \<le> t) os" by blast
  have "i < 16" by (simp add: i_def)
  let ?s' = "s\<lparr>sd_refresh_time := ts, sd_bank_status := map bank_shift (sd_bank_status s),
      sd_bank_open_time := os, sd_clocks_till_idle := 1, sd_wr_addr := sd_wr_addr s + 1,
      sd_mem := (sd_mem s)(a := sd_merge (p_dqm p) (sd_mem s a) (p_data p)),
      sd_next_wr := False, sd_qloc := i, sd_qdata := (sd_qdata s)[i := 0]\<rparr>"
  have op: "\<exists>r. sd_operate p s = Inr (?s', r)"
    using assms(2-5) inv \<open>i < 16\<close>
    by (cases "p_driv p")
      (simp_all add: sd_operate_def clock(1) sd_second_half_def sd_queue_out_def deselected sd_data_pins_def
        and_15 i_def sd_inv_def Let_def sd_peek_def sd_poke_def a_def)
  from inv clock(2-) \<open>i < 16\<close> have "sd_ready n ?s'"
    by (auto simp: sd_ready_def sd_inv_def list_all_iff bank_status_values)
  with op show ?thesis
    unfolding run by (elim exE) (intro exI conjI, assumption, auto)
qed

lemma write_run:
  assumes "sd_ready (2 + n) s" "\<not> sd_next_wr s" "sd_write_pins s p"
    "unat (sd_write_address s p) + 1 < SDRAM_WORDS" "sd_data_pins p'"
  defines "a \<equiv> unat (sd_write_address s p)"
  shows "\<exists>s' outs. run_machine sdramsim_apply s [p, p'] = Inr (s', outs) \<and> sd_ready n s' \<and> \<not> sd_next_wr s'
    \<and> sd_mem s' = (sd_mem s)(a := p_data p, a + 1 := sd_merge (p_dqm p') (sd_mem s (a + 1)) (p_data p'))
    \<and> sd_bank_row s' = sd_bank_row s
    \<and> sd_bank_status s' = map bank_shift (map bank_shift (sd_bank_status s))"
proof -
  have "sd_ready (Suc (Suc n)) s" "unat (sd_write_address s p) < SDRAM_WORDS" using assms(1,4) by simp_all
  from write_tick [OF this(1) assms(2,3) this(2)] obtain s1 r1 where s1: "sdramsim_apply s p = Inr (s1, r1)"
    "sd_ready (Suc n) s1" "sd_next_wr s1" "sd_clocks_till_idle s1 = 2" "sd_wr_addr s1 = sd_write_address s p + 1"
    "sd_mem s1 = (sd_mem s)(a := p_data p)" "sd_bank_row s1 = sd_bank_row s"
    "sd_bank_status s1 = map bank_shift (sd_bank_status s)" unfolding a_def by blast
  have wr: "unat (sd_wr_addr s1) = a + 1"
    using assms(4) by (simp add: s1(5) a_def unat_word_ariths SDRAM_WORDS_def)
  then have "unat (sd_wr_addr s1) < SDRAM_WORDS" using assms(4) by (simp add: a_def)
  from second_tick [OF s1(2,3,4) assms(5) this] obtain s2 r2 where "sdramsim_apply s1 p' = Inr (s2, r2)"
    "sd_ready n s2" "\<not> sd_next_wr s2"
    "sd_mem s2 = (sd_mem s1)(a + 1 := sd_merge (p_dqm p') (sd_mem s1 (a + 1)) (p_data p'))"
    "sd_bank_row s2 = sd_bank_row s1" "sd_bank_status s2 = map bank_shift (sd_bank_status s1)"
    unfolding wr by blast
  with s1 show ?thesis by simp
qed

text \<open>C9. A burst of two words is written to the addressed column and the next. The data mask is
  obeyed for the second word only: the first is stored whole, whatever its mask.\<close>

theorem sdram_write_burst:
  assumes "sd_ready 2 s" "\<not> sd_next_wr s" "sd_write_pins s p"
    "unat (sd_write_address s p) + 1 < SDRAM_WORDS" "sd_data_pins p'"
  shows "\<exists>s' outs. run_machine sdramsim_apply s [p, p'] = Inr (s', outs)
    \<and> sd_mem s' = (sd_mem s)(unat (sd_write_address s p) := p_data p,
        unat (sd_write_address s p) + 1 :=
          sd_merge (p_dqm p') (sd_mem s (unat (sd_write_address s p) + 1)) (p_data p'))"
  using write_run [of 0 s p p'] assms by auto


lemma row_masked: "unat row < 4096 \<Longrightarrow> row AND 0x1fff = (row :: u32)"
proof -
  assume "unat row < 4096"
  then have "unat (take_bit 13 row) = unat row"
    unfolding unsigned_take_bit_eq by (simp add: take_bit_nat_eq_self)
  then have "row AND mask 13 = row" by (simp add: word_unat_eq_iff take_bit_eq_mask)
  moreover have "(0x1fff :: u32) = mask 13" by (simp add: mask_eq_exp_minus_1)
  ultimately show ?thesis by (simp only:)
qed

text \<open>C10. What a burst has written to an open row is what a read of that column returns, in order.\<close>

theorem sdram_write_read:
  assumes "sd_ready 7 s" "\<not> sd_next_wr s" "sd_write_pins s w" "sd_data_pins w'" "p_dqm w' AND 3 = 0"
    "sd_bank_status s ! nat (p_bs w) = 7" "unat (sd_bank_row s ! nat (p_bs w)) < 4096"
    "unat (sd_write_address s w) + 1 < SDRAM_WORDS"
    "p_clk r" "p_cke r" "cmd_access r" "p_we_n r" "\<not> p_driv r" "p_bs r = p_bs w" "p_addr r = p_addr w"
    "list_all sd_nop [n1, n2, n3, n4]"
  shows "\<exists>s' outs. run_machine sdramsim_apply s [w, w', r, n1, n2, n3, n4] = Inr (s', outs)
    \<and> drop 5 outs = [p_data w, p_data w']"
proof -
  have "sd_ready (2 + 5) s" using assms(1) by simp
  from write_run [OF this assms(2,3,8,4)] obtain s1 o1 where s1:
    "run_machine sdramsim_apply s [w, w'] = Inr (s1, o1)" "sd_ready 5 s1" "\<not> sd_next_wr s1"
    "sd_mem s1 = (sd_mem s)(unat (sd_write_address s w) := p_data w, unat (sd_write_address s w) + 1 := p_data w')"
    "sd_bank_row s1 = sd_bank_row s" "sd_bank_status s1 = map bank_shift (map bank_shift (sd_bank_status s))"
    using assms(5) by (auto simp: sd_merge_def)
  have "0 \<le> p_bs w \<and> p_bs w < 4" using assms(3) by (intro bank_index) (simp add: sd_write_pins_def)
  then have "nat (p_bs w) < 4" by linarith
  moreover have "length (sd_bank_status s) = 4" using assms(1) by (simp add: sd_ready_def sd_inv_def)
  ultimately have "bank_shift (sd_bank_status s1 ! nat (p_bs w)) = 7"
    using assms(6) by (simp add: s1(6) bank_shift_values)
  then have pins: "sd_read_pins s1 r"
    using assms(3,9-15) by (simp add: sd_read_pins_def sd_write_pins_def addr10_def)
  have addr: "sd_read_address s1 r = sd_write_address s w"
    using assms(7,14,15) by (simp add: sd_read_address_def sd_write_address_def s1(5) row_masked sd_address_def)
  have len: "length o1 = 2" using s1(1) by (auto simp: bindE_Inr_iff)
  have "sd_ready (5 + 0) s1" using s1(2) by simp
  from read_run [OF this s1(3) pins, of n1 n2 n3 n4] assms(8,16) addr obtain s2 r0 r1 r2 where
    "run_machine sdramsim_apply s1 [r, n1, n2, n3, n4] = Inr (s2, [r0, r1, r2, p_data w, p_data w'])"
    by (auto simp: s1(4))
  with s1(1) len show ?thesis
    using run_machine_append [of sdramsim_apply s "[w, w']" "[r, n1, n2, n3, n4]"] by simp
qed

subsection \<open>Refreshing\<close>

text \<open>A chip in operation whose banks are all closed.\<close>

definition sd_closed :: "sdramsim \<Rightarrow> bool" where
  "sd_closed s \<longleftrightarrow> sd_inv s \<and> sd_pwrup s = 6 \<and> sd_fail s = 0 \<and> \<not> sd_next_wr s
     \<and> sd_bank_status s = [0, 0, 0, 0]"

lemma sd_clock_closed:
  assumes "sd_closed s"
  shows "\<exists>s'. sd_clock s = Inr s' \<and> sd_closed s' \<and> sd_qloc s' = sd_qloc s \<and> sd_qdata s' = sd_qdata s"
proof -
  from assms have inv: "sd_inv s" by (simp add: sd_closed_def)
  then obtain ts where ts: "sd_refresh_all (\<lambda>t. t - 1) s = Inr (s\<lparr>sd_refresh_time := ts\<rparr>)" "length ts = 8192"
    using sd_refresh_all_ok [of s] by (auto simp: sd_inv_def)
  have loc: "sd_refresh_loc s < 8192" using inv by (auto simp: sd_inv_def)
  have "length (sd_bank_open_time s) = 4" using inv by (simp add: sd_inv_def)
  then obtain t0 t1 t2 t3 where "sd_bank_open_time s = [t0, t1, t2, t3]"
    by (auto simp: numeral_eq_Suc length_Suc_conv)
  then have banks: "sd_banks_tick (sd_bank_status s) (sd_bank_open_time s) = Inr (sd_bank_status s, sd_bank_open_time s)"
    using assms by (simp add: sd_closed_def bank_shift_values)
  have fail: "sd_fail s = 0" using assms by (simp add: sd_closed_def)
  have "sd_clock s = Inr (s\<lparr>sd_refresh_time := ts, sd_bank_status := sd_bank_status s,
      sd_bank_open_time := sd_bank_open_time s,
      sd_clocks_till_idle := (if sd_clocks_till_idle s \<noteq> 0 then sd_clocks_till_idle s - 1 else 0)\<rparr>)"
    using ts loc by (simp add: sd_clock_def sd_refresh_tick_def banks sd_countdown_def fail Let_def)
  then show ?thesis using assms ts(2) by (simp add: sd_closed_def sd_inv_def)
qed

lemma closed_tick:
  assumes "sd_closed s" "sd_nop p"
  shows "\<exists>s' out. sdramsim_apply s p = Inr (s', out) \<and> sd_closed s'"
proof -
  from sd_clock_closed [OF assms(1)] obtain t where t: "sd_clock s = Inr t" "sd_closed t" by blast
  have run: "sdramsim_apply s p = sd_operate p s"
    using assms by (simp add: sdramsim_apply_def sd_closed_def sd_nop_def POWERED_UP_STATE_def)
  from t(2) have inv: "sd_inv t" "\<not> sd_next_wr t" by (simp_all add: sd_closed_def)
  have "sd_operate p s = Inr (t\<lparr>sd_qloc := (sd_qloc t + 1) mod 16, sd_qdata := (sd_qdata t)[(sd_qloc t + 1) mod 16 := 0]\<rparr>,
      sd_qdata t ! ((sd_qloc t + 1) mod 16))"
    using inv assms(2)
    by (simp add: sd_operate_def t(1) sd_second_half_def sd_queue_out_def deselected sd_nop_def and_15 sd_inv_def Let_def)
  with t(2) show ?thesis unfolding run by (simp add: sd_closed_def sd_inv_def)
qed

interpretation resting: clocked_machine sdramsim_apply sd_closed sd_nop
  by unfold_locales (rule closed_tick)

text \<open>The chip can be left without a refresh for any time: the check that a row has been
  refreshed soon enough never fails, since the time that is left is unsigned.\<close>

theorem sdram_never_needs_refresh:
  assumes "sd_closed s" "list_all sd_nop ps"
  shows "\<exists>s' outs. run_machine sdramsim_apply s ps = Inr (s', outs) \<and> length outs = length ps"
  using resting.run_safe [OF assms] by blast

subsection \<open>Witnesses\<close>

text \<open>A chip in operation whose bank 0 has row 5 open, and the pins of a burst.\<close>

definition open_chip :: "u32 \<Rightarrow> sdramsim" where
  "open_chip row = zero_storage\<lparr>sd_pwrup := 6, sd_bank_status := [7, 0, 0, 0], sd_bank_row := [row, 0, 0, 0],
     sd_bank_open_time := [100, 100, 100, 100], sd_refresh_time := replicate 8192 0, sd_qmask := 15\<rparr>"

definition access_pins :: "bool \<Rightarrow> u16 \<Rightarrow> sd_pins" where
  "access_pins wr d = idle_pins\<lparr>p_cs_n := False, p_cas_n := False, p_we_n := \<not> wr, p_addr := 7,
     p_driv := wr, p_data := d, p_dqm := 0\<rparr>"

definition data_pins :: "u16 \<Rightarrow> sd_pins" where
  "data_pins d = idle_pins\<lparr>p_driv := True, p_data := d, p_dqm := 0\<rparr>"

lemma open_chip_ready: "n \<le> 100 \<Longrightarrow> sd_ready n (open_chip row)" "\<not> sd_next_wr (open_chip row)"
  by (simp_all add: sd_ready_def open_chip_def zero_storage_def sd_inv_def)

lemma open_chip_simps:
  "sd_mem (open_chip row) = (\<lambda>_. 0)" "sd_bank_status (open_chip row) = [7, 0, 0, 0]"
  "sd_bank_row (open_chip row) = [row, 0, 0, 0]"
  by (simp_all add: open_chip_def zero_storage_def)

lemma pins_simps:
  "p_bs (access_pins wr d) = 0" "p_data (access_pins wr d) = d" "p_data (data_pins d) = d"
  "p_dqm (data_pins d) = 0" "p_clk (access_pins wr d)" "p_cke (access_pins wr d)" "cmd_access (access_pins wr d)"
  "p_we_n (access_pins False d)" "\<not> p_driv (access_pins False d)" "p_addr (access_pins wr d) = 7"
  by (simp_all add: access_pins_def data_pins_def idle_pins_def cmd_access_def)

lemma access_pins_ok:
  "sd_write_pins (open_chip row) (access_pins True d)" "sd_read_pins (open_chip row) (access_pins False d)"
  "sd_data_pins (data_pins d)" "sd_nop idle_pins"
  by (simp_all add: sd_write_pins_def sd_read_pins_def access_pins_def data_pins_def sd_data_pins_def sd_nop_def
    idle_pins_def cmd_access_def open_chip_def addr10_def bank_in_range_def bank_shift_values zero_storage_def)

lemma access_addresses:
  "sd_write_address (open_chip 5) (access_pins True d) = 10247"
  "sd_read_address (open_chip 5) (access_pins False d) = 10247"
  by (simp_all add: sd_write_address_def sd_read_address_def sd_address_def open_chip_def access_pins_def
    idle_pins_def zero_storage_def)

theorem sdram_read_latency_witness:
  "\<exists>s' r0 r1 r2. run_machine sdramsim_apply (open_chip 5)
     [access_pins False 0, idle_pins, idle_pins, idle_pins, idle_pins] = Inr (s', [r0, r1, r2, 0, 0])"
  using sdram_read_latency [OF open_chip_ready, of 5 "access_pins False 0" idle_pins idle_pins idle_pins idle_pins]
  by (simp add: access_pins_ok access_addresses SDRAM_WORDS_def open_chip_simps del: run_machine.simps)

theorem sdram_upper_rows_missing_witness:
  "sdramsim_apply (open_chip 4096) (access_pins False 0) = Inl OutOfBounds"
  by (rule sdram_upper_rows_missing [OF open_chip_ready, of 0])
    (simp_all add: access_pins_ok open_chip_simps pins_simps)

theorem sdram_write_burst_witness:
  "\<exists>s' outs. run_machine sdramsim_apply (open_chip 5) [access_pins True 0x1234, data_pins 0x5678] = Inr (s', outs)
     \<and> sd_mem s' = (\<lambda>_. 0)(10247 := 0x1234, 10248 := 0x5678)"
  using sdram_write_burst [OF open_chip_ready, of 5 "access_pins True 0x1234" "data_pins 0x5678"]
  by (simp add: access_pins_ok access_addresses SDRAM_WORDS_def open_chip_simps pins_simps sd_merge_def
    del: run_machine.simps)

theorem sdram_write_read_witness:
  "\<exists>s' outs. run_machine sdramsim_apply (open_chip 5) [access_pins True 0x1234, data_pins 0x5678,
     access_pins False 0, idle_pins, idle_pins, idle_pins, idle_pins] = Inr (s', outs) \<and> drop 5 outs = [0x1234, 0x5678]"
  using sdram_write_read [where s = "open_chip 5" and w = "access_pins True 0x1234" and w' = "data_pins 0x5678"
    and r = "access_pins False 0" and ?n1.0 = idle_pins and ?n2.0 = idle_pins and ?n3.0 = idle_pins
    and ?n4.0 = idle_pins]
  by (simp add: open_chip_ready access_pins_ok access_addresses SDRAM_WORDS_def open_chip_simps pins_simps del: run_machine.simps)

theorem sdramsim_keeps_inv_witness:
  "\<exists>s' r. sdramsim_apply (open_chip 5) idle_pins = Inr (s', r) \<and> sd_inv s'"
proof -
  have "sd_ready (Suc 0) (open_chip 5)" by (rule open_chip_ready) simp
  from nop_tick [OF this open_chip_ready(2) access_pins_ok(4)] obtain s' r where
    "sdramsim_apply (open_chip 5) idle_pins = Inr (s', r)" by blast
  moreover have "sd_inv (open_chip 5)" using open_chip_ready(1) [of 0 5] by (simp add: sd_ready_def)
  ultimately show ?thesis using sdramsim_keeps_inv by blast
qed


theorem sdram_never_needs_refresh_witness:
  "\<exists>s' outs. run_machine sdramsim_apply ((open_chip 0)\<lparr>sd_bank_status := [0, 0, 0, 0]\<rparr>) (replicate 1000000 idle_pins) =
     Inr (s', outs) \<and> length outs = 1000000"
proof -
  have "sd_inv (open_chip 0)" using open_chip_ready(1) [of 0 0] by (simp add: sd_ready_def)
  then have "sd_closed ((open_chip 0)\<lparr>sd_bank_status := [0, 0, 0, 0]\<rparr>)"
    by (simp add: sd_closed_def sd_inv_def open_chip_def zero_storage_def)
  from sdram_never_needs_refresh [OF this, of "replicate 1000000 idle_pins"] show ?thesis
    by (simp add: access_pins_ok list_all_length)
qed

end
