(* ===== verification/FlashSim.thy ===== *)
theory FlashSim
  imports Prelude
begin

text \<open>
  \<open>sim/verilated/flashsim.cpp\<close> and \<open>flashsim.h\<close>: a model of a serial flash chip that is called
  with its select line, its clock and its four data lines, and works on the falling edge of the
  clock. Its trace output is left out. What the constructor leaves undefined is an argument.
\<close>

subsection \<open>State\<close>

datatype qspif_state =
    QSPIF_IDLE | QSPIF_QUAD_READ_IDLE | QSPIF_RDSR | QSPIF_RDCR | QSPIF_WRSR | QSPIF_CLSR | QSPIF_RDID
  | QSPIF_RELEASE | QSPIF_SLOW_READ | QSPIF_FAST_READ | QSPIF_QUAD_READ_CMD | QSPIF_QUAD_READ
  | QSPIF_SECTOR_ERASE | QSPIF_PP | QSPIF_QPP | QSPIF_BULK_ERASE | QSPIF_DEEP_POWER_DOWN
  | QSPIF_DUAL_READ_IDLE | QSPIF_DUAL_READ_CMD | QSPIF_DUAL_READ | QSPIF_INVALID

datatype flash_mode = FM_SPI | FM_DSPI | FM_QSPI

record flashsim =
  fl_state :: qspif_state
  fl_mem :: "nat \<Rightarrow> u8"
  fl_pmem :: "u8 list"
  fl_last_sck :: int
  fl_write_count :: u32
  fl_ireg :: u32
  fl_oreg :: u32
  fl_sreg :: u32
  fl_addr :: u32
  fl_count :: u32
  fl_mode_byte :: u32
  fl_creg :: u32
  fl_membytes :: u32
  fl_memmask :: u32
  fl_idle_throttle :: bool
  fl_mode :: flash_mode
  fl_rddelay :: "u32 list option"

definition QSPIF_WIP_FLAG :: u32 where "QSPIF_WIP_FLAG = 0x0001"
definition QSPIF_WEL_FLAG :: u32 where "QSPIF_WEL_FLAG = 0x0002"
definition QSPIF_DEEP_POWER_DOWN_FLAG :: u32 where "QSPIF_DEEP_POWER_DOWN_FLAG = 0x0200"

definition DEVID :: u32 where "DEVID = 0x0115"
definition DEVESD :: u32 where "DEVESD = 0x014"
definition tW :: u32 where "tW = 50 * 100"
definition tBE :: u32 where "tBE = 32 * (100 * 1000 * 1000)"
definition tDP :: u32 where "tDP = 10 * (100 * 1000 * 1000)"
definition tRES :: u32 where "tRES = 30 * (100 * 1000 * 1000)"
definition tPP :: u32 where "tPP = 12 * 100"
definition tSE :: u32 where "tSE = 15 * (100 * 1000)"
definition NDUMMY :: u32 where "NDUMMY = 4"
definition RDDELAY :: nat where "RDDELAY = 2"

subsection \<open>The memory\<close>

definition fl_get :: "u32 \<Rightarrow> flashsim \<Rightarrow> u8 res" where
  "fl_get a s = (if a < fl_membytes s then Inr (fl_mem s (unat a)) else Inl OutOfBounds)"

definition fl_put :: "u32 \<Rightarrow> u8 \<Rightarrow> flashsim \<Rightarrow> flashsim res" where
  "fl_put a v s =
     (if a < fl_membytes s then Inr (s\<lparr>fl_mem := (fl_mem s)(unat a := v)\<rparr>) else Inl OutOfBounds)"

text \<open>Consecutive bytes set to \<open>0xff\<close>, and consecutive bytes stored.\<close>

fun fl_fill :: "nat \<Rightarrow> u32 \<Rightarrow> flashsim \<Rightarrow> flashsim res" where
  "fl_fill 0 a s = Inr s"
| "fl_fill (Suc n) a s = bindE (fl_put a 0xff s) (\<lambda>s. fl_fill n (a + 1) s)"

fun fl_copy :: "u32 \<Rightarrow> u8 list \<Rightarrow> flashsim \<Rightarrow> flashsim res" where
  "fl_copy a [] s = Inr s"
| "fl_copy a (b # bs) s = bindE (fl_put a b s) (\<lambda>s. fl_copy (a + 1) bs s)"

definition flashsim_new :: "flashsim \<Rightarrow> nat \<Rightarrow> flashsim" where
  "flashsim_new g lglen =
     g\<lparr>fl_membytes := push_bit lglen 1, fl_memmask := push_bit lglen 1 - 1, fl_state := QSPIF_IDLE,
       fl_last_sck := 1, fl_write_count := 0, fl_ireg := 0, fl_oreg := 0, fl_sreg := 0x1c, fl_creg := 0x1,
       fl_mode := FM_SPI, fl_mode_byte := 0, fl_idle_throttle := False, fl_mem := (\<lambda>_. 0xff)\<rparr>"

text \<open>The file's bytes, where it can be read; the loop that follows sets the bytes from the number of
  bytes read on.\<close>

definition flashsim_load_file :: "u32 \<Rightarrow> u8 list option \<Rightarrow> flashsim \<Rightarrow> flashsim res" where
  "flashsim_load_file addr file s =
     (if fl_membytes s \<le> addr then Inr s
      else
        let len = unat (fl_membytes s - addr);
            got = (case file of Some bytes \<Rightarrow> take len bytes | None \<Rightarrow> []) in
        bindE (fl_copy addr got s) (\<lambda>s.
          fl_fill (unat (fl_membytes s) - length got) (of_nat (length got)) s))"

definition flashsim_load_buf :: "u32 \<Rightarrow> u8 list \<Rightarrow> flashsim \<Rightarrow> flashsim res" where
  "flashsim_load_buf offset data s = fl_copy (offset AND fl_memmask s) data s"

definition flashsim_index :: "flashsim \<Rightarrow> u32 \<Rightarrow> u32 res" where
  "flashsim_index s index =
     (let a = push_bit 2 index in
      bindE (fl_get a s) (\<lambda>b0. bindE (fl_get (a + 1) s) (\<lambda>b1.
      bindE (fl_get (a + 2) s) (\<lambda>b2. bindE (fl_get (a + 3) s) (\<lambda>b3.
        let v = ucast b0;
            v = push_bit 8 v OR ucast b1;
            v = push_bit 8 v OR ucast b2;
            v = push_bit 8 v OR ucast b3
        in Inr v)))))"

definition flashsim_set :: "u32 \<Rightarrow> u32 \<Rightarrow> flashsim \<Rightarrow> flashsim res" where
  "flashsim_set addr val s =
     (let a = push_bit 2 addr in
      bindE (fl_put a (ucast (drop_bit 24 val)) s) (\<lambda>s.
      bindE (fl_put (a + 1) (ucast (drop_bit 16 val)) s) (\<lambda>s.
      bindE (fl_put (a + 2) (ucast (drop_bit 8 val)) s) (\<lambda>s.
        fl_put (a + 3) (ucast val) s))))"

subsection \<open>Queries\<close>

definition write_protect :: "flashsim \<Rightarrow> bool" where
  "write_protect s \<longleftrightarrow> fl_sreg s AND QSPIF_WEL_FLAG = 0"

definition write_in_progress :: "flashsim \<Rightarrow> bool" where
  "write_in_progress s \<longleftrightarrow> fl_sreg s OR QSPIF_WIP_FLAG \<noteq> 0"

definition deep_sleep :: "flashsim \<Rightarrow> bool" where
  "deep_sleep s \<longleftrightarrow> fl_sreg s AND QSPIF_DEEP_POWER_DOWN_FLAG \<noteq> 0"

definition set_deep_sleep :: "bool \<Rightarrow> flashsim \<Rightarrow> flashsim" where
  "set_deep_sleep newval s =
     (if newval then s\<lparr>fl_sreg := fl_sreg s OR QSPIF_DEEP_POWER_DOWN_FLAG\<rparr>
      else s\<lparr>fl_sreg := fl_sreg s AND NOT QSPIF_DEEP_POWER_DOWN_FLAG\<rparr>)"

subsection \<open>The end of a command\<close>

definition fl_start_write :: "u32 \<Rightarrow> flashsim \<Rightarrow> flashsim" where
  "fl_start_write t s =
     s\<lparr>fl_write_count := t, fl_state := QSPIF_IDLE,
       fl_sreg := (fl_sreg s AND NOT QSPIF_WEL_FLAG) OR QSPIF_WIP_FLAG\<rparr>"

fun fl_program :: "nat \<Rightarrow> nat \<Rightarrow> flashsim \<Rightarrow> flashsim res" where
  "fl_program 0 i s = Inr s"
| "fl_program (Suc n) i s =
     (let a = (fl_addr s AND NOT 0xff) + of_nat i in
      bindE (aget (fl_pmem s) i) (\<lambda>b.
      bindE (fl_get a s) (\<lambda>m.
      bindE (fl_put a (m AND b) s) (\<lambda>s. fl_program n (Suc i) s))))"

definition fl_read_again :: "qspif_state \<Rightarrow> flashsim \<Rightarrow> flashsim" where
  "fl_read_again idle s =
     (if fl_mode_byte s AND 0xf0 \<noteq> 0xa0 then s\<lparr>fl_mode := FM_SPI\<rparr> else s\<lparr>fl_state := idle\<rparr>)"

definition fl_deselect :: "flashsim \<Rightarrow> flashsim res" where
  "fl_deselect s =
     (let s = s\<lparr>fl_last_sck := 1, fl_ireg := 0, fl_oreg := 0, fl_count := 0\<rparr> in
      bindE
        (case fl_state s of
           QSPIF_PP \<Rightarrow> bindE (fl_program 256 0 (fl_start_write tPP s)) (\<lambda>s. Inr (s\<lparr>fl_mode := FM_SPI\<rparr>))
         | QSPIF_QPP \<Rightarrow> bindE (fl_program 256 0 (fl_start_write tPP s)) (\<lambda>s. Inr (s\<lparr>fl_mode := FM_SPI\<rparr>))
         | QSPIF_SECTOR_ERASE \<Rightarrow>
             let s = (fl_start_write tSE s)\<lparr>fl_addr := fl_addr s AND 0xffff0000\<rparr> in
             fl_fill 65536 (fl_addr s) s
         | QSPIF_WRSR \<Rightarrow> Inr (fl_start_write tW s)
         | QSPIF_CLSR \<Rightarrow> Inr (s\<lparr>fl_state := QSPIF_IDLE, fl_sreg := fl_sreg s AND 0x9f\<rparr>)
         | QSPIF_BULK_ERASE \<Rightarrow> let s = fl_start_write tBE s in fl_fill (unat (fl_membytes s)) 0 s
         | QSPIF_DEEP_POWER_DOWN \<Rightarrow> Inr (s\<lparr>fl_write_count := tDP, fl_state := QSPIF_IDLE\<rparr>)
         | QSPIF_RELEASE \<Rightarrow> Inr (s\<lparr>fl_write_count := tRES, fl_state := QSPIF_IDLE\<rparr>)
         | QSPIF_QUAD_READ_CMD \<Rightarrow> Inr (fl_read_again QSPIF_QUAD_READ_IDLE s)
         | QSPIF_DUAL_READ_CMD \<Rightarrow> Inr (fl_read_again QSPIF_DUAL_READ_IDLE s)
         | QSPIF_QUAD_READ \<Rightarrow> Inr (fl_read_again QSPIF_QUAD_READ_IDLE s)
         | QSPIF_DUAL_READ \<Rightarrow> Inr (fl_read_again QSPIF_DUAL_READ_IDLE s)
         | _ \<Rightarrow> Inr s)
        (\<lambda>s. Inr (s\<lparr>fl_oreg := 0xfe\<rparr>)))"

subsection \<open>The first byte: a command\<close>

definition QOREG :: "u32 \<Rightarrow> flashsim \<Rightarrow> flashsim" where
  "QOREG a s = s\<lparr>fl_oreg := (fl_oreg s AND NOT 0xff) OR (a AND 0xff)\<rparr>"

text \<open>A command that writes needs write enable set, no write in progress and no power down.\<close>

definition fl_guarded :: "qspif_state \<Rightarrow> flashsim \<Rightarrow> flashsim" where
  "fl_guarded st s = (if 2 \<noteq> fl_sreg s AND 0x203 then s\<lparr>fl_state := QSPIF_INVALID\<rparr> else s\<lparr>fl_state := st\<rparr>)"

definition fl_command :: "flashsim \<Rightarrow> flashsim res" where
  "fl_command s =
     (let s = QOREG 0xa5 s; cmd = fl_ireg s AND 0xff in
      if fl_sreg s AND QSPIF_DEEP_POWER_DOWN_FLAG \<noteq> 0 \<and> cmd \<noteq> 0xab then Inr s
      else if cmd = 0x01 then Inr (fl_guarded QSPIF_WRSR s)
      else if cmd = 0x02 then Inr (fl_guarded QSPIF_PP s)
      else if cmd = 0x03 then Inr (s\<lparr>fl_state := QSPIF_SLOW_READ\<rparr>)
      else if cmd = 0x04 then Inr (s\<lparr>fl_state := QSPIF_IDLE, fl_sreg := fl_sreg s AND NOT QSPIF_WEL_FLAG\<rparr>)
      else if cmd = 0x05 then Inr (QOREG (fl_sreg s) (s\<lparr>fl_state := QSPIF_RDSR\<rparr>))
      else if cmd = 0x06 then Inr (s\<lparr>fl_state := QSPIF_IDLE, fl_sreg := fl_sreg s OR QSPIF_WEL_FLAG\<rparr>)
      else if cmd = 0x0b then Inr (s\<lparr>fl_state := QSPIF_FAST_READ\<rparr>)
      else if cmd = 0x30 then Inr (s\<lparr>fl_state := QSPIF_CLSR\<rparr>)
      else if cmd = 0x32 then Inr (fl_guarded QSPIF_QPP s)
      else if cmd = 0x35 then Inr (QOREG (fl_creg s) (s\<lparr>fl_state := QSPIF_RDCR\<rparr>))
      else if cmd = 0x50 then Inr (QOREG 0 (s\<lparr>fl_state := QSPIF_IDLE\<rparr>))
      else if cmd = 0x70 then Inr (QOREG 0 (s\<lparr>fl_state := QSPIF_IDLE\<rparr>))
      else if cmd = 0x81 then Inr (QOREG 0 s)
      else if cmd = 0x9f then Inr (QOREG (drop_bit 24 DEVID AND 0xff) (s\<lparr>fl_state := QSPIF_RDID\<rparr>))
      else if cmd = 0xab then
        let s = (if fl_sreg s AND QSPIF_DEEP_POWER_DOWN_FLAG \<noteq> 0 then
                   s\<lparr>fl_sreg := fl_sreg s AND NOT QSPIF_DEEP_POWER_DOWN_FLAG, fl_write_count := tRES\<rparr>
                 else s)
        in Inr (s\<lparr>fl_state := QSPIF_RELEASE\<rparr>)
      else if cmd = 0xb9 then
        Inr (if fl_sreg s AND 0x01 \<noteq> 0 then s\<lparr>fl_state := QSPIF_INVALID\<rparr>
             else s\<lparr>fl_sreg := fl_sreg s OR QSPIF_DEEP_POWER_DOWN_FLAG, fl_state := QSPIF_IDLE\<rparr>)
      else if cmd = 0xbb then Inr (s\<lparr>fl_state := QSPIF_DUAL_READ_CMD, fl_mode := FM_DSPI\<rparr>)
      else if cmd = 0xc7 then Inr (fl_guarded QSPIF_BULK_ERASE s)
      else if cmd = 0xd8 then Inr (fl_guarded QSPIF_SECTOR_ERASE s)
      else if cmd = 0xeb then Inr (s\<lparr>fl_state := QSPIF_QUAD_READ_CMD, fl_mode := FM_QSPI\<rparr>)
      else if cmd = 0x00 \<or> cmd = 0xff then Inr (s\<lparr>fl_state := QSPIF_IDLE, fl_mode := FM_SPI\<rparr>)
      else Inl AssertFail)"

subsection \<open>The bytes that follow\<close>

text \<open>\<open>m_addr = m_ireg & m_memmask\<close>, and the assertion after it.\<close>

definition fl_set_addr :: "flashsim \<Rightarrow> flashsim res" where
  "fl_set_addr s =
     (let s = s\<lparr>fl_addr := fl_ireg s AND fl_memmask s\<rparr> in
      bindE (assertE (fl_addr s AND NOT (fl_memmask s) = 0)) (\<lambda>_. Inr s))"

text \<open>\<open>QOREG(m_mem[m_addr++])\<close>.\<close>

definition fl_read_next :: "flashsim \<Rightarrow> flashsim res" where
  "fl_read_next s =
     bindE (fl_get (fl_addr s) s) (\<lambda>b. Inr (QOREG (ucast b) (s\<lparr>fl_addr := fl_addr s + 1\<rparr>)))"

definition fl_wip :: "flashsim \<Rightarrow> bool" where
  "fl_wip s \<longleftrightarrow> fl_sreg s AND 0x01 \<noteq> 0"

definition fl_write_status :: "flashsim \<Rightarrow> flashsim res" where
  "fl_write_status s =
     (if fl_count s = 16 then Inr (s\<lparr>fl_sreg := (fl_sreg s AND 0x61) OR (fl_ireg s AND 0x9c)\<rparr>)
      else if fl_count s = 24 then Inr (s\<lparr>fl_creg := (fl_creg s AND 0xfd) OR (fl_ireg s AND 0x02)\<rparr>)
      else Inl (ExitWith 1))"

definition fl_read_id :: "flashsim \<Rightarrow> flashsim res" where
  "fl_read_id s =
     (if 32 - fl_count s < 32 then Inr (QOREG (drop_bit (unat (32 - fl_count s)) DEVID) s) else Inl BadShift)"

definition fl_slow_read :: "flashsim \<Rightarrow> flashsim res" where
  "fl_slow_read s =
     (if fl_count s = 32 then bindE (fl_set_addr s) fl_read_next
      else if 40 \<le> fl_count s \<and> \<not> fl_wip s then fl_read_next s
      else Inr (s\<lparr>fl_oreg := 0\<rparr>))"

definition fl_fast_read :: "flashsim \<Rightarrow> flashsim res" where
  "fl_fast_read s =
     (if fl_count s = 32 then
        let s = QOREG 0xc3 (s\<lparr>fl_addr := fl_ireg s AND fl_memmask s\<rparr>) in
        bindE (assertE (fl_addr s AND NOT (fl_memmask s) = 0)) (\<lambda>_. Inr s)
      else if 40 \<le> fl_count s \<and> \<not> fl_wip s then fl_read_next s
      else Inr (s\<lparr>fl_oreg := 0\<rparr>))"

definition fl_dual_read_cmd :: "flashsim \<Rightarrow> flashsim res" where
  "fl_dual_read_cmd s =
     (if fl_count s = 32 then fl_set_addr s
      else if fl_count s = 40 \<and> \<not> fl_wip s then
        fl_read_next (s\<lparr>fl_mode_byte := fl_ireg s AND 0xff\<rparr>)
      else if 40 < fl_count s \<and> \<not> fl_wip s then fl_read_next s
      else Inr (s\<lparr>fl_oreg := 0\<rparr>))"

definition fl_quad_read_cmd :: "flashsim \<Rightarrow> flashsim res" where
  "fl_quad_read_cmd s =
     (if fl_count s = 32 then fl_set_addr s
      else if fl_count s = 40 then Inr (s\<lparr>fl_mode_byte := fl_ireg s AND 0xff\<rparr>)
      else if 40 + NDUMMY < fl_count s \<and> \<not> fl_wip s then fl_read_next s
      else Inr (s\<lparr>fl_oreg := 0\<rparr>))"

definition fl_dual_read :: "flashsim \<Rightarrow> flashsim res" where
  "fl_dual_read s =
     fl_read_next (if fl_count s = 32 then s\<lparr>fl_mode_byte := fl_ireg s AND 0xff\<rparr> else s)"

definition fl_quad_read :: "flashsim \<Rightarrow> flashsim res" where
  "fl_quad_read s =
     (if fl_count s = 24 + 4 * 2 then Inr (s\<lparr>fl_mode_byte := fl_ireg s AND 0xff\<rparr>)
      else if 24 + 4 * NDUMMY \<le> fl_count s \<and> \<not> fl_wip s then fl_read_next s
      else Inr (s\<lparr>fl_oreg := 0\<rparr>))"

text \<open>The bytes of a page wrap around inside it. A quad program changes the mode at the address.\<close>

definition fl_page_byte :: "flash_mode \<Rightarrow> flashsim \<Rightarrow> flashsim res" where
  "fl_page_byte mode s =
     (if fl_count s = 32 then
        bindE (fl_set_addr (s\<lparr>fl_mode := mode\<rparr>)) (\<lambda>s. Inr (s\<lparr>fl_pmem := replicate 256 0xff\<rparr>))
      else if 40 \<le> fl_count s then
        bindE (aset (fl_pmem s) (unat (fl_addr s AND 0xff)) (ucast (fl_ireg s AND 0xff))) (\<lambda>pmem.
          Inr (s\<lparr>fl_pmem := pmem,
                 fl_addr := (fl_addr s AND NOT 0xff) OR ((fl_addr s + 1) AND 0xff)\<rparr>))
      else Inr s)"

definition fl_sector_byte :: "flashsim \<Rightarrow> flashsim res" where
  "fl_sector_byte s =
     (if fl_count s = 32 then
        let s = s\<lparr>fl_addr := fl_ireg s AND 0x0ffc000\<rparr> in
        bindE (assertE (fl_addr s AND 0xfc00000 = 0)) (\<lambda>_. Inr s)
      else Inr s)"

definition fl_next_byte :: "flashsim \<Rightarrow> flashsim res" where
  "fl_next_byte s =
     (let s = QOREG 0 s;
          s = (if fl_idle_throttle s \<and> fl_state s \<noteq> QSPIF_IDLE then s\<lparr>fl_idle_throttle := False\<rparr> else s) in
      case fl_state s of
        QSPIF_IDLE \<Rightarrow> Inr (s\<lparr>fl_idle_throttle := True\<rparr>)
      | QSPIF_WRSR \<Rightarrow> fl_write_status s
      | QSPIF_CLSR \<Rightarrow> Inl AssertFail
      | QSPIF_RDID \<Rightarrow> fl_read_id s
      | QSPIF_RDSR \<Rightarrow> Inr (QOREG (fl_sreg s) s)
      | QSPIF_RDCR \<Rightarrow> Inr (QOREG (fl_creg s) s)
      | QSPIF_SLOW_READ \<Rightarrow> fl_slow_read s
      | QSPIF_FAST_READ \<Rightarrow> fl_fast_read s
      | QSPIF_DUAL_READ_CMD \<Rightarrow> fl_dual_read_cmd s
      | QSPIF_QUAD_READ_CMD \<Rightarrow> fl_quad_read_cmd s
      | QSPIF_DUAL_READ \<Rightarrow> fl_dual_read s
      | QSPIF_QUAD_READ \<Rightarrow> fl_quad_read s
      | QSPIF_PP \<Rightarrow> fl_page_byte (fl_mode s) s
      | QSPIF_QPP \<Rightarrow> fl_page_byte FM_QSPI s
      | QSPIF_SECTOR_ERASE \<Rightarrow> fl_sector_byte s
      | QSPIF_RELEASE \<Rightarrow> Inr (if 32 \<le> fl_count s then QOREG DEVESD s else s)
      | _ \<Rightarrow> Inr s)"

subsection \<open>One call\<close>

definition fl_countdown :: "flashsim \<Rightarrow> flashsim" where
  "fl_countdown s =
     (if 0 < fl_write_count s then
        let s = s\<lparr>fl_write_count := fl_write_count s - 1\<rparr> in
        if fl_write_count s = 0 then s\<lparr>fl_sreg := fl_sreg s AND 0xfc\<rparr> else s
      else s)"

definition fl_output :: "u32 \<Rightarrow> flashsim \<Rightarrow> u32" where
  "fl_output dat s =
     (case fl_mode s of
        FM_QSPI \<Rightarrow> drop_bit 8 (fl_oreg s) AND 0x0f
      | FM_DSPI \<Rightarrow> (drop_bit 8 (fl_oreg s) AND 0x03) OR (dat AND 0x0c)
      | FM_SPI \<Rightarrow> (if fl_oreg s AND 0x100 \<noteq> 0 then 2 else 0) OR (dat AND 0x0d))"

definition fl_shift :: "u32 \<Rightarrow> flashsim \<Rightarrow> flashsim" where
  "fl_shift dat s =
     (case fl_mode s of
        FM_QSPI \<Rightarrow> s\<lparr>fl_ireg := push_bit 4 (fl_ireg s) OR (dat AND 0x0f), fl_count := fl_count s + 4,
                     fl_oreg := push_bit 4 (fl_oreg s)\<rparr>
      | FM_DSPI \<Rightarrow> s\<lparr>fl_ireg := push_bit 2 (fl_ireg s) OR (dat AND 0x03), fl_count := fl_count s + 2,
                     fl_oreg := push_bit 2 (fl_oreg s)\<rparr>
      | FM_SPI \<Rightarrow> s\<lparr>fl_ireg := push_bit 1 (fl_ireg s) OR (dat AND 1), fl_count := fl_count s + 1,
                    fl_oreg := push_bit 1 (fl_oreg s)\<rparr>)"

text \<open>A read that goes on without a command, in the mode it was left in.\<close>

definition fl_resume :: "flash_mode \<Rightarrow> qspif_state \<Rightarrow> flashsim \<Rightarrow> flashsim res" where
  "fl_resume mode reading s =
     bindE (assertE (fl_sreg s AND QSPIF_DEEP_POWER_DOWN_FLAG = 0)) (\<lambda>_.
     bindE (assertE (fl_mode s = mode)) (\<lambda>_.
     bindE (if fl_count s = 24 then bindE (fl_set_addr s) (\<lambda>s. Inr (s\<lparr>fl_state := reading\<rparr>)) else Inr s) (\<lambda>s.
       Inr (s\<lparr>fl_oreg := 0\<rparr>))))"

definition fl_process :: "flashsim \<Rightarrow> flashsim res" where
  "fl_process s =
     (if fl_state s = QSPIF_QUAD_READ_IDLE then fl_resume FM_QSPI QSPIF_QUAD_READ s
      else if fl_state s = QSPIF_DUAL_READ_IDLE then fl_resume FM_DSPI QSPIF_DUAL_READ s
      else if fl_count s = 8 then fl_command s
      else if fl_count s AND 7 = 0 \<and> fl_count s \<noteq> 0 then fl_next_byte s
      else Inr s)"

definition flashsim_apply :: "bool \<Rightarrow> int \<Rightarrow> u32 \<Rightarrow> flashsim \<Rightarrow> (flashsim \<times> u32) res" where
  "flashsim_apply csn sck dat s =
     (let s = fl_countdown s in
      if csn then bindE (fl_deselect s) (\<lambda>s. Inr (s, dat))
      else if fl_last_sck s = 0 \<or> sck = fl_last_sck s then
        let s = s\<lparr>fl_last_sck := sck\<rparr> in Inr (s, fl_output dat s)
      else
        bindE (fl_process (fl_shift dat s)) (\<lambda>s.
          let s = s\<lparr>fl_last_sck := sck\<rparr> in Inr (s, fl_output dat s)))"

text \<open>The delayed output; \<open>CKDELAY\<close> is 0 and \<open>ODDR_IO\<close> false, so the clock is not delayed. The array
  is allocated at the first call with the contents \<open>heap\<close>.\<close>

definition fl_lines :: "int \<Rightarrow> u32 \<Rightarrow> u32 \<Rightarrow> u32" where
  "fl_lines md dat r =
     (if md = 0 \<or> md = 1 then (r AND 2) OR (dat AND 1) OR 0x0c
      else if md = 2 then dat
      else if md = 3 then r
      else if md = 4 then (dat AND 3) OR 0x0c
      else if md = 5 then (r AND 3) OR 0x0c
      else r)"

definition flashsim_simtick ::
    "u32 list \<Rightarrow> bool \<Rightarrow> int \<Rightarrow> u32 \<Rightarrow> int \<Rightarrow> flashsim \<Rightarrow> (flashsim \<times> u32) res" where
  "flashsim_simtick heap csn sck dat md s =
     (let delay = (case fl_rddelay s of Some d \<Rightarrow> d | None \<Rightarrow> take RDDELAY heap) in
      bindE (flashsim_apply csn sck dat s) (\<lambda>(s, r).
      let r = fl_lines md dat r in
      bindE (aget delay 0) (\<lambda>lclr.
        Inr (s\<lparr>fl_rddelay := Some (tl delay @ [r])\<rparr>, lclr AND 0x0f))))"

end
