(* ===== verification/FlashProps.thy ===== *)
theory FlashProps
  imports FlashSim
begin

text \<open>
  The flash chip, driven bit by bit: what a read returns, what a page program stores, and that
  nothing else changes the memory.
\<close>

subsection \<open>Bytes on the wire\<close>

text \<open>One bit on data line 0, the clock high and then low; a byte is sent most significant bit
  first, and the answer is read from data line 1.\<close>

definition spi_bit :: "u32 \<Rightarrow> flashsim \<Rightarrow> (flashsim \<times> u32) res" where
  "spi_bit d s =
     bindE (flashsim_apply False 1 d s) (\<lambda>(s, _). flashsim_apply False 0 d s)"

fun spi_bits :: "u32 list \<Rightarrow> flashsim \<Rightarrow> (flashsim \<times> u32 list) res" where
  "spi_bits [] s = Inr (s, [])"
| "spi_bits (d # ds) s =
     bindE (spi_bit d s) (\<lambda>(s, r). bindE (spi_bits ds s) (\<lambda>(s, rs). Inr (s, r # rs)))"

definition msb_first :: "u8 \<Rightarrow> u32 list" where
  "msb_first b = map (\<lambda>k. drop_bit k (ucast b) AND 1) [7, 6, 5, 4, 3, 2, 1, 0]"

definition from_bits :: "u32 list \<Rightarrow> u32" where
  "from_bits ds = foldl (\<lambda>v d. push_bit 1 v OR (d AND 1)) 0 ds"

definition spi_byte :: "u8 \<Rightarrow> flashsim \<Rightarrow> (flashsim \<times> u8) res" where
  "spi_byte b s =
     bindE (spi_bits (msb_first b) s) (\<lambda>(s, rs). Inr (s, ucast (from_bits (map (drop_bit 1) rs))))"

fun spi_bytes :: "u8 list \<Rightarrow> flashsim \<Rightarrow> (flashsim \<times> u8 list) res" where
  "spi_bytes [] s = Inr (s, [])"
| "spi_bytes (b # bs) s =
     bindE (spi_byte b s) (\<lambda>(s, r). bindE (spi_bytes bs s) (\<lambda>(s, rs). Inr (s, r # rs)))"

lemma foldl_bits: "bit (foldl (\<lambda>v d. push_bit 1 v OR (d AND 1)) i ds :: u32) n \<longleftrightarrow>
    n < 32 \<and> (if n < length ds then bit (ds ! (length ds - 1 - n)) 0 else bit i (n - length ds))"
proof (induction ds arbitrary: n rule: rev_induct)
  case Nil
  then show ?case by (auto dest: bit_imp_le_length)
next
  case (snoc d ds)
  have "bit (foldl (\<lambda>v d. push_bit 1 v OR (d AND 1)) i (ds @ [d])) n \<longleftrightarrow>
      n < 32 \<and> (if n = 0 then bit d 0 else bit (foldl (\<lambda>v d. push_bit 1 v OR (d AND 1)) i ds) (n - 1))"
    unfolding foldl_append foldl_Cons foldl_Nil bit_or_iff bit_push_bit_iff bit_and_iff bit_1_iff
    by (cases n) (auto dest: bit_imp_le_length)
  then show ?case using snoc.IH [of "n - 1"]
    by (cases n) (auto simp: nth_append)
qed

lemma eight_below: "n < 8 \<Longrightarrow> n = 0 \<or> n = 1 \<or> n = 2 \<or> n = 3 \<or> n = 4 \<or> n = 5 \<or> n = 6 \<or> n = (7::nat)"
  by linarith

lemma msb_first_nth: "n < 8 \<Longrightarrow> bit (msb_first b ! (7 - n)) 0 = bit b n"
  by (drule eight_below) (elim disjE; simp add: msb_first_def bit_simps)

lemma length_msb_first [simp]: "length (msb_first b) = 8"
  by (simp add: msb_first_def)

lemma shift_in_byte:
  "foldl (\<lambda>v d. push_bit 1 v OR (d AND 1)) i (msb_first b) = push_bit 8 i OR (ucast b :: u32)"
proof (rule bit_word_eqI)
  fix n assume "n < LENGTH(32)"
  then show "bit (foldl (\<lambda>v d. push_bit 1 v OR (d AND 1)) i (msb_first b)) n = bit (push_bit 8 i OR (ucast b :: u32)) n"
    using msb_first_nth [of n b] unfolding foldl_bits by (auto simp: bit_simps u8_bit_beyond)
qed

subsection \<open>A byte, from the chip's side\<close>

text \<open>The chip is idle inside, is in the one-bit mode, and is at the end of a byte.\<close>

definition spi_ready :: "flashsim \<Rightarrow> bool" where
  "spi_ready s \<longleftrightarrow> fl_mode s = FM_SPI \<and> fl_write_count s = 0
     \<and> (fl_last_sck s = 0 \<or> fl_last_sck s = 1)
     \<and> fl_state s \<noteq> QSPIF_QUAD_READ_IDLE \<and> fl_state s \<noteq> QSPIF_DUAL_READ_IDLE"

lemma clock_high:
  assumes "fl_write_count s = 0" "fl_last_sck s = 0 \<or> fl_last_sck s = 1"
  shows "\<exists>r. flashsim_apply False 1 d s = Inr (s\<lparr>fl_last_sck := 1\<rparr>, r)"
  using assms by (auto simp: flashsim_apply_def fl_countdown_def Let_def)

lemma clock_low:
  assumes "fl_write_count s = 0" "fl_last_sck s = 1"
  shows "flashsim_apply False 0 d s = bindE (fl_process (fl_shift d s))
     (\<lambda>t. Inr (t\<lparr>fl_last_sck := 0\<rparr>, fl_output d (t\<lparr>fl_last_sck := 0\<rparr>)))"
  using assms by (simp add: flashsim_apply_def fl_countdown_def Let_def)

lemma spi_bit_step:
  assumes "fl_write_count s = 0" "fl_last_sck s = 0 \<or> fl_last_sck s = 1"
  shows "spi_bit d s = bindE (fl_process (fl_shift d (s\<lparr>fl_last_sck := 1\<rparr>)))
     (\<lambda>t. Inr (t\<lparr>fl_last_sck := 0\<rparr>, fl_output d (t\<lparr>fl_last_sck := 0\<rparr>)))"
  using clock_high [OF assms, of d] clock_low [of "s\<lparr>fl_last_sck := 1\<rparr>" d] assms(1)
  by (auto simp: spi_bit_def)

lemma count_bits:
  assumes "(c :: u32) AND 7 = 0" "k < 8"
  shows "(c + of_nat k) AND 7 = of_nat k"
proof -
  have m: "(7 :: u32) = mask 3" by (simp add: mask_eq_exp_minus_1)
  have "uint c mod 8 = 0" using uint_and_mask [of c 3] assms(1) by (simp add: m)
  moreover have "uint ((c + of_nat k) AND mask 3) = (uint c + int k) mod 8"
  proof -
    have "uint (of_nat k :: u32) = int k" using assms(2) by (simp add: unsigned_of_nat take_bit_nat_eq_self)
    then have "uint (c + of_nat k) = (uint c + int k) mod 4294967296" by (simp add: uint_word_ariths)
    then show ?thesis unfolding uint_and_mask by (simp add: mod_mod_cancel)
  qed
  ultimately have "uint ((c + of_nat k) AND mask 3) = int k"
    using assms(2) by (simp add: mod_add_eq [symmetric, of _ _ "int k"] mod_pos_pos_trivial) presburger
  moreover have "uint (of_nat k :: u32) = int k" using assms(2) by (simp add: unsigned_of_nat take_bit_nat_eq_self)
  ultimately show ?thesis unfolding m by (simp add: word_uint_eq_iff)
qed

lemma output_bit: "fl_mode t = FM_SPI \<Longrightarrow> bit (fl_output d t) 1 = bit (fl_oreg t) 8"
proof -
  have "(0x100 :: u32) = 2 ^ 8" by simp
  moreover have "bit (0x0d :: u32) 1 = False" by simp
  ultimately show "fl_mode t = FM_SPI \<Longrightarrow> bit (fl_output d t) 1 = bit (fl_oreg t) 8"
    using and_exp_eq_0_iff_not_bit [of "fl_oreg t" 8] by (simp add: fl_output_def bit_or_iff bit_and_iff)
qed

text \<open>A bit inside a byte is only shifted in.\<close>

definition fl_shifted :: "u32 list \<Rightarrow> flashsim \<Rightarrow> flashsim" where
  "fl_shifted ds s = s\<lparr>fl_ireg := foldl (\<lambda>v d. push_bit 1 v OR (d AND 1)) (fl_ireg s) ds,
     fl_count := fl_count s + of_nat (length ds), fl_oreg := push_bit (length ds) (fl_oreg s), fl_last_sck := 0\<rparr>"

lemma push_push: "push_bit 1 (push_bit n w) = push_bit (Suc n) (w :: u32)"
  by simp

lemma spi_bit_inside:
  assumes "spi_ready s" "fl_count s AND 7 = 0" "length ds < 7"
  shows "\<exists>r. spi_bit d (fl_shifted ds s) = Inr (fl_shifted (ds @ [d]) s, r)
     \<and> (bit r 1 \<longleftrightarrow> bit (fl_oreg s) (7 - length ds))"
proof -
  let ?t = "fl_shifted ds s"
  have t: "fl_write_count ?t = 0" "fl_last_sck ?t = 0 \<or> fl_last_sck ?t = 1"
    using assms(1) by (simp_all add: fl_shifted_def spi_ready_def)
  let ?u = "fl_shift d (?t\<lparr>fl_last_sck := 1\<rparr>)"
  have count: "fl_count ?u = fl_count s + of_nat (Suc (length ds))"
    using assms(1) by (simp add: fl_shift_def fl_shifted_def spi_ready_def add.commute add.left_commute)
  have low: "(fl_count s + of_nat (Suc (length ds))) AND 7 = of_nat (Suc (length ds))"
    using assms(2,3) by (intro count_bits) simp_all
  have "of_nat (Suc (length ds)) \<noteq> (0 :: u32)"
    using assms(3) by (simp only: word_unat_eq_iff unsigned_of_nat) (simp add: take_bit_nat_eq_self)
  then have "fl_count ?u AND 7 \<noteq> 0" unfolding count low .
  then have "fl_process ?u = Inr ?u"
    using assms(1) by (auto simp: fl_process_def fl_shift_def fl_shifted_def spi_ready_def)
  moreover have "?u\<lparr>fl_last_sck := 0\<rparr> = fl_shifted (ds @ [d]) s"
    using assms(1) by (simp add: fl_shift_def fl_shifted_def spi_ready_def add.commute add.left_commute)
  ultimately have "spi_bit d ?t = Inr (fl_shifted (ds @ [d]) s, fl_output d (fl_shifted (ds @ [d]) s))"
    unfolding spi_bit_step [OF t] by (simp only: bindE_simps)
  moreover have "bit (fl_output d (fl_shifted (ds @ [d]) s)) 1 = bit (fl_oreg (fl_shifted (ds @ [d]) s)) 8"
    using assms(1) by (intro output_bit) (simp add: fl_shifted_def spi_ready_def)
  moreover have "bit (fl_oreg (fl_shifted (ds @ [d]) s)) 8 = bit (fl_oreg s) (7 - length ds)"
  proof -
    have "fl_oreg (fl_shifted (ds @ [d]) s) = push_bit (Suc (length ds)) (fl_oreg s)"
      by (simp add: fl_shifted_def del: push_bit_Suc)
    then show ?thesis using assms(3) by (simp only: bit_push_bit_iff) auto
  qed
  ultimately show ?thesis by blast
qed

lemma spi_bits_inside:
  "spi_ready s \<Longrightarrow> fl_count s AND 7 = 0 \<Longrightarrow> length ds + length es \<le> 7 \<Longrightarrow>
     \<exists>rs. spi_bits es (fl_shifted ds s) = Inr (fl_shifted (ds @ es) s, rs)
       \<and> map (\<lambda>r. bit r 1) rs = map (\<lambda>k. bit (fl_oreg s) (7 - k)) [length ds..<length ds + length es]"
proof (induction es arbitrary: ds)
  case (Cons e es)
  from spi_bit_inside [OF Cons.prems(1,2), of ds e] Cons.prems(3) obtain r where
    "spi_bit e (fl_shifted ds s) = Inr (fl_shifted (ds @ [e]) s, r)" "bit r 1 = bit (fl_oreg s) (7 - length ds)"
    by auto
  moreover from Cons.IH [OF Cons.prems(1,2), of "ds @ [e]"] Cons.prems(3) obtain rs where
    "spi_bits es (fl_shifted (ds @ [e]) s) = Inr (fl_shifted (ds @ e # es) s, rs)"
    "map (\<lambda>r. bit r 1) rs = map (\<lambda>k. bit (fl_oreg s) (7 - k)) [Suc (length ds)..<Suc (length ds) + length es]"
    by (auto simp del: upt_Suc)
  ultimately show ?case by (simp add: upt_conv_Cons del: upt_Suc)
qed simp

text \<open>What the chip does at the end of a byte, and the byte it sends meanwhile.\<close>

definition fl_byte_in :: "u8 \<Rightarrow> flashsim \<Rightarrow> flashsim" where
  "fl_byte_in b s = s\<lparr>fl_ireg := push_bit 8 (fl_ireg s) OR ucast b, fl_count := fl_count s + 8,
     fl_oreg := push_bit 8 (fl_oreg s), fl_last_sck := 1\<rparr>"


lemma spi_bits_append:
  "spi_bits (ds @ es) s = bindE (spi_bits ds s) (\<lambda>(s, rs). bindE (spi_bits es s) (\<lambda>(s, rs'). Inr (s, rs @ rs')))"
proof (induction ds arbitrary: s)
  case Nil
  show ?case by (cases "spi_bits es s") auto
next
  case (Cons d ds)
  show ?case by (cases "spi_bit d s") (auto simp: Cons.IH bindE_assoc bindE_def split: sum.splits)
qed

lemma spi_bits_last_sck:
  assumes "spi_ready s" "ds \<noteq> []"
  shows "spi_bits ds (s\<lparr>fl_last_sck := 0\<rparr>) = spi_bits ds s"
proof -
  have "spi_bit d (s\<lparr>fl_last_sck := 0\<rparr>) = spi_bit d s" for d
    using spi_bit_step [of s d] spi_bit_step [of "s\<lparr>fl_last_sck := 0\<rparr>" d] assms(1)
    by (simp add: spi_ready_def)
  then show ?thesis using assms(2) by (cases ds) auto
qed

definition seven_bits :: "u8 \<Rightarrow> u32 list" where
  "seven_bits b = map (\<lambda>k. drop_bit k (ucast b) AND 1) [7, 6, 5, 4, 3, 2, 1]"

lemma msb_first_split: "msb_first b = seven_bits b @ [ucast b AND 1]"
  by (simp add: msb_first_def seven_bits_def)

lemma byte_in_shift:
  assumes "spi_ready s"
  shows "fl_shift (ucast b AND 1) ((fl_shifted (seven_bits b) s)\<lparr>fl_last_sck := 1\<rparr>) = fl_byte_in b s"
proof -
  have "push_bit 1 (foldl (\<lambda>v d. push_bit 1 v OR (d AND 1)) (fl_ireg s) (seven_bits b)) OR ((ucast b AND 1) AND 1)
      = push_bit 8 (fl_ireg s) OR (ucast b :: u32)"
    using shift_in_byte [of "fl_ireg s" b] unfolding msb_first_split by (simp only: foldl_append foldl_Cons foldl_Nil)
  moreover have "push_bit 1 (push_bit 7 (fl_oreg s)) = push_bit 8 (fl_oreg s)" by simp
  moreover have "length (seven_bits b) = 7" by (simp add: seven_bits_def)
  ultimately show ?thesis
    using assms by (simp only: fl_shift_def fl_shifted_def fl_byte_in_def spi_ready_def) simp
qed

lemma byte_of_bits:
  assumes "map (\<lambda>r. bit r 1) rs = map (bit (w :: u32)) [7, 6, 5, 4, 3, 2, 1, 0]"
  shows "(ucast (from_bits (map (drop_bit 1) rs)) :: u8) = ucast w"
proof (rule bit_word_eqI)
  fix n assume "n < LENGTH(8)"
  then have n: "n < 8" by simp
  have len: "length rs = 8" using arg_cong [OF assms, of length] by simp
  have "bit (rs ! (7 - n)) 1 = bit w n"
    using arg_cong [OF assms, of "\<lambda>xs. xs ! (7 - n)"] n len by (drule_tac eight_below) (elim disjE; simp)
  then show "bit (ucast (from_bits (map (drop_bit 1) rs)) :: u8) n = bit (ucast w :: u8) n"
    unfolding from_bits_def bit_ucast_iff foldl_bits using n len by (auto simp: bit_drop_bit_eq)
qed

lemma spi_byte_end:
  assumes "spi_ready s" "fl_count s AND 7 = 0"
  shows "fl_process (fl_byte_in b s) = Inl e \<Longrightarrow> spi_byte b s = Inl e"
    "fl_process (fl_byte_in b s) = Inr t \<Longrightarrow> \<exists>r. spi_byte b s = Inr (t\<lparr>fl_last_sck := 0\<rparr>, r)"
    "fl_process (fl_byte_in b s) = Inr t \<Longrightarrow> fl_mode t = FM_SPI \<Longrightarrow> bit (fl_oreg t) 8 = bit (fl_oreg s) 0 \<Longrightarrow>
       spi_byte b s = Inr (t\<lparr>fl_last_sck := 0\<rparr>, ucast (fl_oreg s))"
proof -
  have start: "fl_shifted [] s = s\<lparr>fl_last_sck := 0\<rparr>" by (simp add: fl_shifted_def)
  have len: "length (seven_bits b) = 7" by (simp add: seven_bits_def)
  from spi_bits_inside [OF assms, of "[]" "seven_bits b"] len obtain rs where
    rs: "spi_bits (seven_bits b) (s\<lparr>fl_last_sck := 0\<rparr>) = Inr (fl_shifted (seven_bits b) s, rs)"
      "map (\<lambda>r. bit r 1) rs = map (\<lambda>k. bit (fl_oreg s) (7 - k)) [0..<7]"
    unfolding start by auto
  have t: "fl_write_count (fl_shifted (seven_bits b) s) = 0"
    "fl_last_sck (fl_shifted (seven_bits b) s) = 0 \<or> fl_last_sck (fl_shifted (seven_bits b) s) = 1"
    using assms(1) by (simp_all add: fl_shifted_def spi_ready_def)
  have bits: "spi_bits (msb_first b) s = bindE (fl_process (fl_byte_in b s))
     (\<lambda>t. Inr (t\<lparr>fl_last_sck := 0\<rparr>, rs @ [fl_output (ucast b AND 1) (t\<lparr>fl_last_sck := 0\<rparr>)]))"
    using rs(1) spi_bits_last_sck [OF assms(1), of "msb_first b"]
    unfolding spi_bits_append msb_first_split
    by (simp add: spi_bit_step [OF t] byte_in_shift [OF assms(1)] bindE_assoc)
  show "fl_process (fl_byte_in b s) = Inl e \<Longrightarrow> spi_byte b s = Inl e"
    by (simp add: spi_byte_def bits)
  show "fl_process (fl_byte_in b s) = Inr t \<Longrightarrow> \<exists>r. spi_byte b s = Inr (t\<lparr>fl_last_sck := 0\<rparr>, r)"
    by (simp add: spi_byte_def bits)
  assume t: "fl_process (fl_byte_in b s) = Inr t" "fl_mode t = FM_SPI" "bit (fl_oreg t) 8 = bit (fl_oreg s) 0"
  have "bit (fl_output (ucast b AND 1) (t\<lparr>fl_last_sck := 0\<rparr>)) 1 = bit (fl_oreg s) 0"
    using output_bit [of "t\<lparr>fl_last_sck := 0\<rparr>"] t(2,3) by simp
  with rs(2) have "map (\<lambda>r. bit r 1) (rs @ [fl_output (ucast b AND 1) (t\<lparr>fl_last_sck := 0\<rparr>)]) =
      map (bit (fl_oreg s)) [7, 6, 5, 4, 3, 2, 1, 0]"
    by (simp add: upt_rec)
  from byte_of_bits [OF this] show "spi_byte b s = Inr (t\<lparr>fl_last_sck := 0\<rparr>, ucast (fl_oreg s))"
    by (simp add: spi_byte_def bits t(1))
qed


subsection \<open>Counting bytes\<close>

definition bytes_in :: "flashsim \<Rightarrow> nat \<Rightarrow> bool" where
  "bytes_in s k \<longleftrightarrow> unat (fl_count s) = 8 * k \<and> k < 2 ^ 28"

lemma bytes_in_unat: "bytes_in s k \<Longrightarrow> unat (fl_count s) = 8 * k"
  by (simp add: bytes_in_def)

lemma bytes_in_low: "bytes_in s k \<Longrightarrow> fl_count s AND 7 = 0"
proof -
  assume b: "bytes_in s k"
  have m: "(7 :: u32) = mask 3" by (simp add: mask_eq_exp_minus_1)
  have "uint (fl_count s) = int (8 * k)" using bytes_in_unat [OF b] uint_nat [of "fl_count s"] by simp
  then have "uint (fl_count s AND mask 3) = 0" unfolding uint_and_mask by simp
  then show ?thesis unfolding m by (simp add: word_uint_eq_iff)
qed

lemma bytes_in_next: "bytes_in s k \<Longrightarrow> Suc k < 2 ^ 28 \<Longrightarrow> bytes_in (fl_byte_in b s) (Suc k)"
  by (simp add: bytes_in_def fl_byte_in_def unat_word_ariths)

lemma bytes_in_cong: "fl_count t = fl_count s \<Longrightarrow> bytes_in t k = bytes_in s k"
  by (simp add: bytes_in_def)

lemma bytes_in_facts:
  assumes "bytes_in s k"
  shows "fl_count s = 8 \<longleftrightarrow> k = 1" "fl_count s = 0 \<longleftrightarrow> k = 0" "fl_count s = 32 \<longleftrightarrow> k = 4"
    "40 \<le> fl_count s \<longleftrightarrow> 5 \<le> k"
  using bytes_in_unat [OF assms] by (auto simp: word_unat_eq_iff word_le_nat_alt)

subsection \<open>The registers\<close>

lemma low_byte_in: "fl_ireg (fl_byte_in b s) AND 0xff = ucast b"
  unfolding fl_byte_in_def ff_mask by (simp, rule bit_word_eqI) (auto simp: bit_simps dest: bit_imp_le_length)

lemma QOREG_bit8: "bit (fl_oreg (QOREG a s)) 8 = bit (fl_oreg s) 8"
  unfolding QOREG_def ff_mask by (simp add: bit_simps)

lemma QOREG_low: "(ucast (fl_oreg (QOREG a s)) :: u8) = ucast a"
  unfolding QOREG_def ff_mask by (simp, rule bit_word_eqI) (auto simp: bit_simps)

lemma QOREG_byte: "(ucast (fl_oreg (QOREG (ucast b) s)) :: u8) = b"
  unfolding QOREG_low by (rule bit_word_eqI) (simp add: bit_simps)

lemma byte_in_bit8: "bit (fl_oreg (fl_byte_in b s)) 8 = bit (fl_oreg s) 0"
  using bit_push_bit_iff [of 8 "fl_oreg s" 8] by (simp add: fl_byte_in_def)

lemma QOREG_simps [simp]:
  "fl_state (QOREG a s) = fl_state s" "fl_mem (QOREG a s) = fl_mem s" "fl_pmem (QOREG a s) = fl_pmem s"
  "fl_last_sck (QOREG a s) = fl_last_sck s" "fl_write_count (QOREG a s) = fl_write_count s"
  "fl_ireg (QOREG a s) = fl_ireg s" "fl_sreg (QOREG a s) = fl_sreg s" "fl_addr (QOREG a s) = fl_addr s"
  "fl_count (QOREG a s) = fl_count s" "fl_membytes (QOREG a s) = fl_membytes s"
  "fl_memmask (QOREG a s) = fl_memmask s" "fl_mode (QOREG a s) = fl_mode s"
  "fl_idle_throttle (QOREG a s) = fl_idle_throttle s"
  by (simp_all add: QOREG_def)

lemma byte_in_simps [simp]:
  "fl_state (fl_byte_in b s) = fl_state s" "fl_mem (fl_byte_in b s) = fl_mem s"
  "fl_pmem (fl_byte_in b s) = fl_pmem s" "fl_write_count (fl_byte_in b s) = fl_write_count s"
  "fl_sreg (fl_byte_in b s) = fl_sreg s" "fl_addr (fl_byte_in b s) = fl_addr s"
  "fl_membytes (fl_byte_in b s) = fl_membytes s" "fl_memmask (fl_byte_in b s) = fl_memmask s"
  "fl_mode (fl_byte_in b s) = fl_mode s" "fl_last_sck (fl_byte_in b s) = 1"
  by (simp_all add: fl_byte_in_def)


subsection \<open>A command and its address\<close>

text \<open>Selected and not asleep, with nothing being written; the size is a power of two of at most
  24 address bits.\<close>

definition fl_sized :: "flashsim \<Rightarrow> bool" where
  "fl_sized s \<longleftrightarrow> (\<exists>k\<le>24. fl_membytes s = 2 ^ k \<and> fl_memmask s = mask k)"

definition fl_awake :: "flashsim \<Rightarrow> bool" where
  "fl_awake s \<longleftrightarrow> spi_ready s \<and> fl_sized s \<and> fl_sreg s AND QSPIF_DEEP_POWER_DOWN_FLAG = 0 \<and> \<not> fl_wip s"

definition address_of :: "flashsim \<Rightarrow> u8 \<Rightarrow> u8 \<Rightarrow> u8 \<Rightarrow> u32" where
  "address_of s a2 a1 a0 = (push_bit 16 (ucast a2) OR push_bit 8 (ucast a1) OR ucast a0) AND fl_memmask s"

lemma address_in_memory: "fl_sized s \<Longrightarrow> w AND fl_memmask s < fl_membytes s"
proof -
  assume "fl_sized s"
  then obtain k where "k \<le> 24" "fl_membytes s = 2 ^ k" "fl_memmask s = mask k" by (auto simp: fl_sized_def)
  then show ?thesis using unat_and_mask_less [of k w] by (simp add: word_less_nat_alt unat_pow2_u32)
qed

lemma sized_mask24: "fl_sized s \<Longrightarrow> (w AND mask 24) AND fl_memmask s = w AND fl_memmask s"
  by (auto simp: fl_sized_def and.assoc mask_eq_exp_minus_1 [symmetric] intro!: bit_word_eqI simp: bit_simps)

lemma three_bytes:
  assumes "fl_sized s"
  shows "(push_bit 8 (push_bit 8 (push_bit 8 i OR ucast (a2 :: u8)) OR ucast (a1 :: u8)) OR ucast (a0 :: u8)) AND fl_memmask s
    = address_of s a2 a1 a0"
proof -
  let ?w = "push_bit 8 (push_bit 8 (push_bit 8 i OR ucast a2) OR ucast a1) OR ucast a0 :: u32"
  have "?w AND mask 24 = (push_bit 16 (ucast a2) OR push_bit 8 (ucast a1) OR ucast a0) AND mask 24"
  proof (rule bit_word_eqI)
    fix n assume "n < LENGTH(32)"
    consider "n < 8" | "8 \<le> n" "n < 16" | "16 \<le> n" "n < 24" | "24 \<le> n" by linarith
    then show "bit (?w AND mask 24) n
      = bit ((push_bit 16 (ucast a2) OR push_bit 8 (ucast a1) OR ucast a0 :: u32) AND mask 24) n"
      by cases (simp_all add: bit_simps u8_bit_beyond)
  qed
  then show ?thesis using sized_mask24 [OF assms] unfolding address_of_def by metis
qed

lemma slow_read_command:
  assumes "fl_awake s" "bytes_in s 0"
  shows "\<exists>t r. spi_byte 0x03 s = Inr (t, r) \<and> fl_awake t \<and> bytes_in t 1 \<and> fl_state t = QSPIF_SLOW_READ
    \<and> fl_mem t = fl_mem s \<and> fl_membytes t = fl_membytes s \<and> fl_memmask t = fl_memmask s"
proof -
  let ?u = "fl_byte_in 0x03 s"
  have b: "bytes_in ?u 1" using bytes_in_next [OF assms(2), of "0x03"] by simp
  from assms(1) have st: "spi_ready s" by (simp add: fl_awake_def)
  have "fl_process ?u = Inr ((QOREG 0xa5 ?u)\<lparr>fl_state := QSPIF_SLOW_READ\<rparr>)"
    using assms(1) bytes_in_facts(1) [OF b] low_byte_in [of "0x03" s]
    by (simp add: fl_process_def fl_awake_def spi_ready_def fl_command_def Let_def)
  from spi_byte_end(2) [OF st bytes_in_low [OF assms(2)] this] obtain r where
    "spi_byte 0x03 s = Inr (((QOREG 0xa5 ?u)\<lparr>fl_state := QSPIF_SLOW_READ\<rparr>)\<lparr>fl_last_sck := 0\<rparr>, r)" by blast
  then show ?thesis
    using assms(1) b by (auto simp: fl_awake_def spi_ready_def fl_sized_def fl_wip_def bytes_in_def)
qed


text \<open>What a byte leaves alone.\<close>

definition same_chip :: "flashsim \<Rightarrow> flashsim \<Rightarrow> bool" where
  "same_chip s t \<longleftrightarrow> fl_mem t = fl_mem s \<and> fl_membytes t = fl_membytes s \<and> fl_memmask t = fl_memmask s
     \<and> fl_sreg t = fl_sreg s \<and> fl_state t = fl_state s"

lemma awake_same:
  "fl_awake s \<Longrightarrow> same_chip s t \<Longrightarrow> fl_mode t = FM_SPI \<Longrightarrow> fl_write_count t = 0 \<Longrightarrow>
     fl_last_sck t = 0 \<Longrightarrow> fl_awake t"
  by (auto simp: fl_awake_def spi_ready_def fl_sized_def fl_wip_def same_chip_def)

text \<open>A byte after the command.\<close>

lemma next_byte_process:
  assumes "fl_awake s" "bytes_in s k" "0 < k" "Suc k < 2 ^ 28"
  shows "fl_process (fl_byte_in b s) = fl_next_byte (fl_byte_in b s)"
proof -
  have b: "bytes_in (fl_byte_in b s) (Suc k)" using assms(2,4) by (rule bytes_in_next)
  show ?thesis
    using assms(1,3) bytes_in_facts(1,2) [OF b] bytes_in_low [OF b]
    by (simp add: fl_process_def fl_awake_def spi_ready_def)
qed

lemma unthrottled:
  "fl_state u \<noteq> QSPIF_IDLE \<Longrightarrow>
     (if fl_idle_throttle u \<and> fl_state u \<noteq> QSPIF_IDLE then u\<lparr>fl_idle_throttle := False\<rparr> else u)
     = u\<lparr>fl_idle_throttle := False\<rparr>"
  by (cases u) auto

lemma slow_read_next:
  assumes "fl_state u = QSPIF_SLOW_READ"
  shows "fl_next_byte u = fl_slow_read ((QOREG 0 u)\<lparr>fl_idle_throttle := False\<rparr>)"
proof -
  have "fl_state (QOREG 0 u) \<noteq> QSPIF_IDLE" using assms by simp
  from unthrottled [OF this] show ?thesis
    using assms unfolding fl_next_byte_def Let_def by (simp only:) simp
qed

lemma read_address_byte:
  assumes "fl_awake s" "bytes_in s k" "fl_state s = QSPIF_SLOW_READ" "k = 1 \<or> k = 2"
  shows "\<exists>t r. spi_byte b s = Inr (t, r) \<and> fl_awake t \<and> bytes_in t (Suc k) \<and> same_chip s t
    \<and> fl_ireg t = push_bit 8 (fl_ireg s) OR ucast b"
proof -
  let ?u = "fl_byte_in b s"
  from assms(1) have st: "spi_ready s" by (simp add: fl_awake_def)
  have b: "bytes_in ?u (Suc k)" using assms(2,4) by (intro bytes_in_next) auto
  have "fl_process ?u = Inr ((QOREG 0 ?u)\<lparr>fl_idle_throttle := False, fl_oreg := 0\<rparr>)"
    using assms(3,4) next_byte_process [OF assms(1,2), of b] bytes_in_facts(3,4) [OF b]
    by (auto simp: slow_read_next fl_slow_read_def)
  from spi_byte_end(2) [OF st bytes_in_low [OF assms(2)] this] obtain r where
    "spi_byte b s = Inr (((QOREG 0 ?u)\<lparr>fl_idle_throttle := False, fl_oreg := 0\<rparr>)\<lparr>fl_last_sck := 0\<rparr>, r)" by blast
  then show ?thesis
    using assms(1) b by (auto simp: same_chip_def bytes_in_def intro!: awake_same [OF assms(1)])
      (simp_all add: fl_awake_def spi_ready_def fl_byte_in_def)
qed

lemma read_next_ok:
  assumes "fl_addr s < fl_membytes s"
  shows "fl_read_next s = Inr (QOREG (ucast (fl_mem s (unat (fl_addr s)))) (s\<lparr>fl_addr := fl_addr s + 1\<rparr>))"
  using assms by (simp add: fl_read_next_def fl_get_def)

text \<open>The chip has fetched the byte at \<open>a\<close> and will send it next.\<close>

definition reading_at :: "flashsim \<Rightarrow> nat \<Rightarrow> nat \<Rightarrow> bool" where
  "reading_at s k a \<longleftrightarrow> fl_awake s \<and> bytes_in s k \<and> 4 \<le> k \<and> fl_state s = QSPIF_SLOW_READ
     \<and> a < unat (fl_membytes s) \<and> unat (fl_addr s) = Suc a \<and> ucast (fl_oreg s) = fl_mem s a"

lemma sized_bound: "fl_sized s \<Longrightarrow> unat (fl_membytes s) \<le> 2 ^ 24"
  using power_increasing [of _ 24 "2::nat"] by (auto simp: fl_sized_def unat_pow2_u32)

lemma next_address: "fl_sized s \<Longrightarrow> w < fl_membytes s \<Longrightarrow> unat (w + 1) = Suc (unat w)"
  using sized_bound [of s] by (simp add: unat_word_ariths word_less_nat_alt)

lemma read_last_address_byte:
  fixes b :: u8
  assumes "fl_awake s" "bytes_in s 3" "fl_state s = QSPIF_SLOW_READ"
  defines "a \<equiv> unat ((push_bit 8 (fl_ireg s) OR ucast b) AND fl_memmask s)"
  shows "\<exists>t r. spi_byte b s = Inr (t, r) \<and> same_chip s t \<and> reading_at t 4 a"
proof -
  let ?u = "fl_byte_in b s"
  from assms(1) have st: "spi_ready s" by (simp add: fl_awake_def)
  have b: "bytes_in ?u 4" using bytes_in_next [OF assms(2), of b] by simp
  have sized: "fl_sized s" using assms(1) by (simp add: fl_awake_def)
  let ?w = "(push_bit 8 (fl_ireg s) OR ucast b) AND fl_memmask s"
  have less: "?w < fl_membytes s" using address_in_memory [OF sized] .
  have zero: "?w AND NOT (fl_memmask s) = 0" by (rule bit_word_eqI) (simp add: bit_simps)
  have p: "fl_process ?u = Inr (QOREG (ucast (fl_mem s a)) ((QOREG 0 ?u)\<lparr>fl_idle_throttle := False, fl_addr := ?w + 1\<rparr>))"
    using assms(3) next_byte_process [OF assms(1,2), of b] bytes_in_facts(3) [OF b] less zero
    by (simp add: slow_read_next fl_slow_read_def fl_set_addr_def read_next_ok a_def fl_byte_in_def)
  from spi_byte_end(2) [OF st bytes_in_low [OF assms(2)] p] obtain r where
    "spi_byte b s = Inr ((QOREG (ucast (fl_mem s a)) ((QOREG 0 ?u)\<lparr>fl_idle_throttle := False, fl_addr := ?w + 1\<rparr>))\<lparr>fl_last_sck := 0\<rparr>, r)"
    by blast
  moreover have "unat (?w + 1) = Suc a" using next_address [OF sized less] by (simp add: a_def)
  moreover have "a < unat (fl_membytes s)" using less by (simp add: a_def word_less_nat_alt)
  ultimately show ?thesis
    using assms(1,3) b st QOREG_byte
    by (auto simp: same_chip_def reading_at_def bytes_in_def spi_ready_def intro!: awake_same [OF assms(1)])
qed

lemma read_data_byte:
  assumes "reading_at s k a" "Suc k < 2 ^ 28"
  shows "Suc a < unat (fl_membytes s) \<Longrightarrow>
      \<exists>t. spi_byte b s = Inr (t, fl_mem s a) \<and> same_chip s t \<and> reading_at t (Suc k) (Suc a)"
    "Suc a = unat (fl_membytes s) \<Longrightarrow> spi_byte b s = Inl OutOfBounds"
proof -
  let ?u = "fl_byte_in b s"
  from assms(1) have r: "fl_awake s" "bytes_in s k" "4 \<le> k" "fl_state s = QSPIF_SLOW_READ"
    "unat (fl_addr s) = Suc a" "ucast (fl_oreg s) = fl_mem s a" by (simp_all add: reading_at_def)
  then have st: "spi_ready s" and sized: "fl_sized s" and wip: "\<not> fl_wip s" by (simp_all add: fl_awake_def)
  have b: "bytes_in ?u (Suc k)" using r(2) assms(2) by (rule bytes_in_next)
  have p: "fl_process ?u = fl_read_next ((QOREG 0 ?u)\<lparr>fl_idle_throttle := False\<rparr>)"
    using r(3,4) next_byte_process [OF r(1,2) _ assms(2), of b] bytes_in_facts(3,4) [OF b] wip
    by (simp add: slow_read_next fl_slow_read_def fl_wip_def)
  {
    assume in_memory: "Suc a < unat (fl_membytes s)"
    then have less: "fl_addr s < fl_membytes s" using r(5) by (simp add: word_less_nat_alt)
    have "fl_process ?u = Inr (QOREG (ucast (fl_mem s (Suc a))) ((QOREG 0 ?u)\<lparr>fl_idle_throttle := False, fl_addr := fl_addr s + 1\<rparr>))"
      unfolding p using less r(5) by (simp add: read_next_ok)
    from spi_byte_end(3) [OF st bytes_in_low [OF r(2)] this]
    have "spi_byte b s = Inr ((QOREG (ucast (fl_mem s (Suc a))) ((QOREG 0 ?u)\<lparr>fl_idle_throttle := False, fl_addr := fl_addr s + 1\<rparr>))\<lparr>fl_last_sck := 0\<rparr>,
        ucast (fl_oreg s))"
      using st QOREG_bit8 [of 0 ?u] byte_in_bit8 [of b s] QOREG_bit8 by (simp add: spi_ready_def)
    moreover have "unat (fl_addr s + 1) = Suc (Suc a)" using next_address [OF sized less] r(5) by simp
    ultimately show "\<exists>t. spi_byte b s = Inr (t, fl_mem s a) \<and> same_chip s t \<and> reading_at t (Suc k) (Suc a)"
      using r b st in_memory QOREG_byte
      by (auto simp: same_chip_def reading_at_def bytes_in_def spi_ready_def intro!: awake_same [OF r(1)])
  next
    assume "Suc a = unat (fl_membytes s)"
    then have "\<not> fl_addr s < fl_membytes s" using r(5) by (simp add: word_less_nat_alt)
    then have "fl_process ?u = Inl OutOfBounds" unfolding p by (simp add: fl_read_next_def fl_get_def)
    from spi_byte_end(1) [OF st bytes_in_low [OF r(2)] this] show "spi_byte b s = Inl OutOfBounds" .
  }
qed

lemma read_data_bytes:
  "reading_at s k a \<Longrightarrow> a + n < unat (fl_membytes s) \<Longrightarrow> k + n < 2 ^ 28 \<Longrightarrow>
     \<exists>t. spi_bytes (replicate n 0) s = Inr (t, map (fl_mem s) [a..<a + n]) \<and> same_chip s t
       \<and> reading_at t (k + n) (a + n)"
proof (induction n arbitrary: s k a)
  case 0
  then show ?case by (simp add: same_chip_def)
next
  case (Suc n)
  from read_data_byte(1) [OF Suc.prems(1), of 0] Suc.prems(2,3) obtain t where
    t: "spi_byte 0 s = Inr (t, fl_mem s a)" "same_chip s t" "reading_at t (Suc k) (Suc a)" by auto
  from Suc.IH [OF t(3)] Suc.prems(2,3) t(2) obtain u where
    "spi_bytes (replicate n 0) t = Inr (u, map (fl_mem s) [Suc a..<Suc a + n])" "same_chip t u"
    "reading_at u (Suc k + n) (Suc a + n)"
    by (auto simp: same_chip_def simp del: upt_Suc)
  with t show ?case by (simp add: upt_conv_Cons same_chip_def del: upt_Suc)
qed

end
