(* ===== verification/FlashGuard.thy ===== *)
theory FlashGuard
  imports FlashProps
begin

text \<open>
  The flash chip: reads as they are seen on its pins, what writes do to the memory, and when the
  memory can change at all.
\<close>

subsection \<open>Reading\<close>

lemma read_header:
  assumes "fl_awake s" "bytes_in s 0"
  shows "\<exists>t r0 r1 r2 r3. spi_bytes [0x03, a2, a1, a0] s = Inr (t, [r0, r1, r2, r3])
    \<and> fl_mem t = fl_mem s \<and> fl_membytes t = fl_membytes s
    \<and> reading_at t 4 (unat (address_of s a2 a1 a0))"
proof -
  from slow_read_command [OF assms] obtain t0 r0 where t0: "spi_byte 0x03 s = Inr (t0, r0)" "fl_awake t0"
    "bytes_in t0 1" "fl_state t0 = QSPIF_SLOW_READ" "fl_mem t0 = fl_mem s" "fl_membytes t0 = fl_membytes s"
    "fl_memmask t0 = fl_memmask s" by blast
  from read_address_byte [OF t0(2,3,4), of a2] obtain t1 r1 where t1: "spi_byte a2 t0 = Inr (t1, r1)" "fl_awake t1"
    "bytes_in t1 2" "same_chip t0 t1" "fl_ireg t1 = push_bit 8 (fl_ireg t0) OR ucast a2"
    by (auto simp: numeral_2_eq_2)
  from t1(4) t0(4) have "fl_state t1 = QSPIF_SLOW_READ" by (simp add: same_chip_def)
  from read_address_byte [OF t1(2,3) this, of a1] obtain t2 r2 where t2: "spi_byte a1 t1 = Inr (t2, r2)" "fl_awake t2"
    "bytes_in t2 3" "same_chip t1 t2" "fl_ireg t2 = push_bit 8 (fl_ireg t1) OR ucast a1"
    by (auto simp: numeral_3_eq_3 numeral_2_eq_2)
  from t1(4) t2(4) t0(4) have "fl_state t2 = QSPIF_SLOW_READ" by (simp add: same_chip_def)
  from read_last_address_byte [OF t2(2,3) this, of a0] obtain t3 r3 where t3: "spi_byte a0 t2 = Inr (t3, r3)"
    "same_chip t2 t3" "reading_at t3 4 (unat ((push_bit 8 (fl_ireg t2) OR ucast a0) AND fl_memmask t2))" by blast
  have mask: "fl_memmask t2 = fl_memmask s" using t0(7) t1(4) t2(4) by (simp add: same_chip_def)
  have "(push_bit 8 (fl_ireg t2) OR ucast a0) AND fl_memmask t2 = address_of s a2 a1 a0"
    using three_bytes [of s "fl_ireg t0" a2 a1 a0] assms(1) unfolding t2(5) t1(5) mask
    by (simp add: fl_awake_def)
  with t0 t1 t2 t3 show ?thesis by (simp add: same_chip_def)
qed

lemma spi_bytes_append:
  "spi_bytes (bs @ cs) s = bindE (spi_bytes bs s) (\<lambda>(s, rs). bindE (spi_bytes cs s) (\<lambda>(s, rs'). Inr (s, rs @ rs')))"
proof (induction bs arbitrary: s)
  case Nil
  show ?case by (cases "spi_bytes cs s") auto
next
  case (Cons b bs)
  show ?case by (cases "spi_byte b s") (auto simp: Cons.IH bindE_assoc bindE_def split: sum.splits)
qed

text \<open>C11. A read command with a three byte address, clocked bit by bit on the pins of the selected
  chip, is answered with the bytes of the memory from that address on, and changes nothing, as long
  as the byte after the last one read, which the chip has already fetched, lies in the memory too.\<close>

theorem flash_slow_read:
  assumes "fl_awake s" "fl_count s = 0" "unat (address_of s a2 a1 a0) + n < unat (fl_membytes s)"
  shows "\<exists>t r0 r1 r2 r3. spi_bytes ([0x03, a2, a1, a0] @ replicate n 0) s =
      Inr (t, [r0, r1, r2, r3] @ map (fl_mem s) [unat (address_of s a2 a1 a0)..<unat (address_of s a2 a1 a0) + n])
    \<and> fl_mem t = fl_mem s"
proof -
  have "bytes_in s 0" using assms(2) by (simp add: bytes_in_def)
  from read_header [OF assms(1) this, of a2 a1 a0] obtain t r0 r1 r2 r3 where
    t: "spi_bytes [0x03, a2, a1, a0] s = Inr (t, [r0, r1, r2, r3])" "fl_mem t = fl_mem s"
      "fl_membytes t = fl_membytes s" "reading_at t 4 (unat (address_of s a2 a1 a0))" by blast
  have "fl_sized s" using assms(1) by (simp add: fl_awake_def)
  then have "4 + n < 2 ^ 28" using assms(3) sized_bound [of s] by simp
  from read_data_bytes [OF t(4) _ this] assms(3) t(2,3) obtain u where
    "spi_bytes (replicate n 0) t = Inr (u, map (fl_mem s) [unat (address_of s a2 a1 a0)..<unat (address_of s a2 a1 a0) + n])"
    "same_chip t u" by auto
  with t(1,2) show ?thesis unfolding spi_bytes_append by (simp add: same_chip_def del: spi_bytes.simps)
qed

text \<open>Reading the last byte of the memory makes the chip fetch the byte behind it, which is
  outside its array.\<close>

theorem flash_reads_past_end:
  assumes "fl_awake s" "fl_count s = 0" "unat (address_of s a2 a1 a0) + 1 = unat (fl_membytes s)"
  shows "spi_bytes [0x03, a2, a1, a0, b] s = Inl OutOfBounds"
proof -
  have "bytes_in s 0" using assms(2) by (simp add: bytes_in_def)
  from read_header [OF assms(1) this, of a2 a1 a0] obtain t r0 r1 r2 r3 where
    t: "spi_bytes [0x03, a2, a1, a0] s = Inr (t, [r0, r1, r2, r3])"
      "fl_membytes t = fl_membytes s" "reading_at t 4 (unat (address_of s a2 a1 a0))" by blast
  have "spi_byte b t = Inl OutOfBounds"
    using read_data_byte(2) [OF t(3)] assms(3) t(2) by simp
  then have "spi_bytes ([0x03, a2, a1, a0] @ [b]) s = Inl OutOfBounds"
    unfolding spi_bytes_append t(1) by simp
  then show ?thesis by simp
qed


subsection \<open>What can change the memory\<close>

lemma fl_set_addr_mem: "fl_set_addr s = Inr t \<Longrightarrow> fl_mem t = fl_mem s \<and> fl_state t = fl_state s"
  by (auto simp: fl_set_addr_def Let_def bindE_Inr_iff)

lemma fl_read_next_mem: "fl_read_next s = Inr t \<Longrightarrow> fl_mem t = fl_mem s \<and> fl_state t = fl_state s"
  by (auto simp: fl_read_next_def bindE_Inr_iff)

lemmas fl_moves = fl_set_addr_mem fl_read_next_mem

lemma fl_byte_steps_mem:
  "fl_slow_read s = Inr t \<Longrightarrow> fl_mem t = fl_mem s \<and> fl_state t = fl_state s"
  "fl_fast_read s = Inr t \<Longrightarrow> fl_mem t = fl_mem s \<and> fl_state t = fl_state s"
  "fl_dual_read_cmd s = Inr t \<Longrightarrow> fl_mem t = fl_mem s \<and> fl_state t = fl_state s"
  "fl_quad_read_cmd s = Inr t \<Longrightarrow> fl_mem t = fl_mem s \<and> fl_state t = fl_state s"
  "fl_dual_read s = Inr t \<Longrightarrow> fl_mem t = fl_mem s \<and> fl_state t = fl_state s"
  "fl_quad_read s = Inr t \<Longrightarrow> fl_mem t = fl_mem s \<and> fl_state t = fl_state s"
  "fl_page_byte m s = Inr t \<Longrightarrow> fl_mem t = fl_mem s \<and> fl_state t = fl_state s"
  "fl_sector_byte s = Inr t \<Longrightarrow> fl_mem t = fl_mem s \<and> fl_state t = fl_state s"
  "fl_write_status s = Inr t \<Longrightarrow> fl_mem t = fl_mem s \<and> fl_state t = fl_state s"
  "fl_read_id s = Inr t \<Longrightarrow> fl_mem t = fl_mem s \<and> fl_state t = fl_state s"
  by (auto simp: fl_slow_read_def fl_fast_read_def fl_dual_read_cmd_def fl_quad_read_cmd_def fl_dual_read_def
    fl_quad_read_def fl_page_byte_def fl_sector_byte_def fl_write_status_def fl_read_id_def Let_def bindE_Inr_iff
    dest!: fl_moves split: if_splits)

lemma fl_next_byte_mem:
  assumes "fl_next_byte s = Inr t"
  shows "fl_mem t = fl_mem s \<and> fl_state t = fl_state s"
proof -
  define u where "u = (if fl_idle_throttle (QOREG 0 s) \<and> fl_state (QOREG 0 s) \<noteq> QSPIF_IDLE
    then (QOREG 0 s)\<lparr>fl_idle_throttle := False\<rparr> else QOREG 0 s)"
  have u: "fl_mem u = fl_mem s" "fl_state u = fl_state s" by (simp_all add: u_def)
  show ?thesis
    using assms u unfolding fl_next_byte_def Let_def u_def [symmetric]
    by (auto dest: fl_byte_steps_mem split: qspif_state.splits if_splits)
qed

text \<open>The states in which the end of the command writes to the memory.\<close>

definition fl_writing :: "flashsim \<Rightarrow> bool" where
  "fl_writing s \<longleftrightarrow> fl_state s \<in> {QSPIF_PP, QSPIF_QPP, QSPIF_SECTOR_ERASE, QSPIF_BULK_ERASE}"

lemma fl_guarded_simps [simp]: "fl_mem (fl_guarded st s) = fl_mem s"
  "fl_state (fl_guarded st s) = (if fl_sreg s AND 0x203 = 2 then st else QSPIF_INVALID)"
  by (auto simp: fl_guarded_def)

lemma fl_command_guard:
  assumes "fl_command s = Inr t"
  shows "fl_mem t = fl_mem s \<and> (fl_writing t \<longrightarrow> fl_writing s \<or> fl_sreg s AND 0x203 = 2)"
  using assms unfolding fl_command_def Let_def
  by (auto simp: fl_writing_def split: if_splits)

lemma fl_process_guard:
  assumes "fl_process s = Inr t"
  shows "fl_mem t = fl_mem s \<and> (fl_writing t \<longrightarrow> fl_writing s \<or> fl_sreg s AND 0x203 = 2)"
proof -
  have "fl_mem t = fl_mem s \<and> (fl_writing t \<longrightarrow> fl_writing s)"
    if "fl_resume m st s = Inr t" "st = QSPIF_QUAD_READ \<or> st = QSPIF_DUAL_READ" for m st
    using that by (auto simp: fl_resume_def bindE_Inr_iff fl_writing_def dest!: fl_moves split: if_splits)
  moreover have "fl_next_byte s = Inr t \<Longrightarrow> fl_mem t = fl_mem s \<and> (fl_writing t \<longrightarrow> fl_writing s)"
    by (drule fl_next_byte_mem) (simp add: fl_writing_def)
  ultimately show ?thesis
    using assms fl_command_guard [of s t] unfolding fl_process_def by (auto split: if_splits)
qed

lemma fl_deselect_guard:
  assumes "fl_deselect s = Inr t"
  shows "(\<not> fl_writing s \<longrightarrow> fl_mem t = fl_mem s) \<and> (fl_writing t \<longrightarrow> fl_writing s)"
proof (cases "fl_writing s")
  case False
  then show ?thesis
    using assms unfolding fl_deselect_def Let_def fl_writing_def
    by (cases "fl_state s") (auto simp: fl_start_write_def fl_read_again_def split: if_splits)
qed simp


lemma fl_countdown_guard:
  "fl_mem (fl_countdown s) = fl_mem s" "fl_writing (fl_countdown s) = fl_writing s"
  "fl_sreg (fl_countdown s) AND 0x203 = 2 \<Longrightarrow> fl_sreg s AND 0x203 = 2"
proof -
  have "(fl_sreg s AND 0xfc) AND 0x203 = (0 :: u32)" by (simp add: and.assoc)
  then show "fl_sreg (fl_countdown s) AND 0x203 = 2 \<Longrightarrow> fl_sreg s AND 0x203 = 2"
    by (auto simp: fl_countdown_def Let_def split: if_splits)
qed (auto simp: fl_countdown_def fl_writing_def Let_def)

lemma fl_shift_guard:
  "fl_mem (fl_shift d s) = fl_mem s" "fl_writing (fl_shift d s) = fl_writing s" "fl_sreg (fl_shift d s) = fl_sreg s"
  by (cases "fl_mode s"; simp add: fl_shift_def fl_writing_def)+

lemma flashsim_apply_guard:
  assumes "flashsim_apply csn sck d s = Inr (t, r)"
  shows "(fl_mem t \<noteq> fl_mem s \<longrightarrow> fl_writing s)
    \<and> (fl_writing t \<longrightarrow> fl_writing s \<or> fl_sreg s AND 0x203 = 2)"
proof -
  define u where "u = fl_countdown s"
  note u = fl_countdown_guard [of s, folded u_def]
  have sck: "fl_writing (v\<lparr>fl_last_sck := k\<rparr>) = fl_writing v" for v k by (simp add: fl_writing_def)
  consider (1) "csn" | (2) "\<not> csn" "fl_last_sck u = 0 \<or> sck = fl_last_sck u"
    | (3) "\<not> csn" "\<not> (fl_last_sck u = 0 \<or> sck = fl_last_sck u)" by blast
  then show ?thesis
  proof cases
    case 1
    then have "fl_deselect u = Inr t"
      using assms by (auto simp: flashsim_apply_def u_def [symmetric] bindE_Inr_iff)
    with fl_deselect_guard [OF this] u show ?thesis by auto
  next
    case 2
    then have "t = u\<lparr>fl_last_sck := sck\<rparr>"
      using assms by (auto simp: flashsim_apply_def u_def [symmetric] Let_def)
    with u sck show ?thesis by auto
  next
    case 3
    then obtain v where "fl_process (fl_shift d u) = Inr v" "t = v\<lparr>fl_last_sck := sck\<rparr>"
      using assms by (auto simp: flashsim_apply_def u_def [symmetric] Let_def bindE_Inr_iff)
    with fl_process_guard [OF this(1)] u sck show ?thesis by (auto simp: fl_shift_guard)
  qed
qed

text \<open>One call, as a step of a clocked machine.\<close>

definition fl_step :: "flashsim \<Rightarrow> bool \<times> int \<times> u32 \<Rightarrow> (flashsim \<times> u32) res" where
  "fl_step s i = (case i of (csn, sck, dat) \<Rightarrow> flashsim_apply csn sck dat s)"

lemma run_guard:
  "run_machine fl_step s is = Inr (t, outs) \<Longrightarrow> \<not> fl_writing s \<Longrightarrow>
     (fl_mem t \<noteq> fl_mem s \<or> fl_writing t \<longrightarrow>
       (\<exists>pre post u outs'. is = pre @ post \<and> run_machine fl_step s pre = Inr (u, outs') \<and> fl_sreg u AND 0x203 = 2))"
proof (induction "is" arbitrary: t outs rule: rev_induct)
  case (snoc i "is")
  from snoc.prems(1) obtain u outs1 r where run: "run_machine fl_step s is = Inr (u, outs1)" "fl_step u i = Inr (t, r)"
    by (auto simp: run_machine_append bindE_Inr_iff)
  obtain csn sck d where i: "i = (csn, sck, d)" by (cases i)
  from run(2) have guard: "fl_mem t \<noteq> fl_mem u \<Longrightarrow> fl_writing u"
      "fl_writing t \<Longrightarrow> fl_writing u \<or> fl_sreg u AND 0x203 = 2"
    using flashsim_apply_guard [of csn sck d u t r] by (auto simp: fl_step_def i)
  show ?case
  proof
    assume "fl_mem t \<noteq> fl_mem s \<or> fl_writing t"
    with guard consider "fl_mem u \<noteq> fl_mem s \<or> fl_writing u" | "fl_sreg u AND 0x203 = 2" by auto
    then show "\<exists>pre post u outs'. is @ [i] = pre @ post \<and> run_machine fl_step s pre = Inr (u, outs')
        \<and> fl_sreg u AND 0x203 = 2"
    proof cases
      case 1
      with snoc.IH [OF run(1) snoc.prems(2)] obtain pre post u' outs' where
        "is = pre @ post" "run_machine fl_step s pre = Inr (u', outs')" "fl_sreg u' AND 0x203 = 2" by blast
      then show ?thesis by (intro exI [of _ pre] exI [of _ "post @ [i]"]) auto
    next
      case 2
      with run(1) show ?thesis by (intro exI [of _ "is"] exI [of _ "[i]"]) auto
    qed
  qed
qed simp

text \<open>C12. Whatever is done on the pins, the memory of a chip that is not in a writing command changes
  only if at some moment before its status register had write enable set, no write in progress
  and no power down.\<close>

theorem flash_write_needs_enable:
  assumes "run_machine fl_step s is = Inr (t, outs)" "\<not> fl_writing s" "fl_mem t \<noteq> fl_mem s"
  shows "\<exists>pre post u outs'. is = pre @ post \<and> run_machine fl_step s pre = Inr (u, outs')
    \<and> fl_sreg u AND 0x203 = 2"
  using run_guard [OF assms(1,2)] assms(3) by blast

subsection \<open>Programming a page\<close>

lemma fl_program_ok:
  assumes "fl_addr s AND NOT 0xff = w" "length (fl_pmem s) = 256" "n + i \<le> 256"
    "unat w + 256 \<le> unat (fl_membytes s)"
  shows "fl_program n i s = Inr (s\<lparr>fl_mem := \<lambda>k. if unat w + i \<le> k \<and> k < unat w + i + n
      then fl_mem s k AND fl_pmem s ! (k - unat w) else fl_mem s k\<rparr>)"
  using assms
proof (induction n arbitrary: i s)
  case 0
  have "(\<lambda>k. if unat w + i \<le> k \<and> k < unat w + i + 0
      then fl_mem s k AND fl_pmem s ! (k - unat w) else fl_mem s k) = fl_mem s"
    by (rule ext) auto
  then show ?case by (simp only: fl_program.simps) simp
next
  case (Suc n)
  let ?a = "w + of_nat i"
  have "unat (fl_membytes s) < 2 ^ 32" by (rule less_le_trans [OF unsigned_less]) simp
  then have "unat w + i < 2 ^ 32" using Suc.prems(3,4) by simp
  moreover have "unat (of_nat i :: u32) = i" using Suc.prems(3) by (simp add: unsigned_of_nat take_bit_nat_eq_self)
  ultimately have a: "unat ?a = unat w + i" by (simp add: unat_word_ariths)
  have less: "?a < fl_membytes s" using Suc.prems(3,4) a by (simp add: word_less_nat_alt)
  let ?t = "s\<lparr>fl_mem := (fl_mem s)(unat w + i := fl_mem s (unat w + i) AND fl_pmem s ! i)\<rparr>"
  have step: "fl_program (Suc n) i s = fl_program n (Suc i) ?t"
    using Suc.prems(2,3) less a unfolding fl_program.simps Suc.prems(1)
    by (simp add: fl_get_def fl_put_def Let_def)
  have "fl_program n (Suc i) ?t = Inr (?t\<lparr>fl_mem := \<lambda>k. if unat w + Suc i \<le> k \<and> k < unat w + Suc i + n
      then fl_mem ?t k AND fl_pmem ?t ! (k - unat w) else fl_mem ?t k\<rparr>)"
    using Suc.prems by (intro Suc.IH) simp_all
  also have "\<dots> = Inr (s\<lparr>fl_mem := \<lambda>k. if unat w + i \<le> k \<and> k < unat w + i + Suc n
      then fl_mem s k AND fl_pmem s ! (k - unat w) else fl_mem s k\<rparr>)"
    by (auto simp: fun_eq_iff less_Suc_eq_le)
  finally show ?case unfolding step .
qed

lemma page_program_ok:
  assumes "fl_state s = QSPIF_PP" "fl_write_count s = 0" "length (fl_pmem s) = 256"
    "unat (fl_addr s AND NOT 0xff) + 256 \<le> unat (fl_membytes s)"
  shows "\<exists>t. flashsim_apply True sck dat s = Inr (t, dat)
    \<and> fl_mem t = (\<lambda>k. if unat (fl_addr s AND NOT 0xff) \<le> k \<and> k < unat (fl_addr s AND NOT 0xff) + 256
         then fl_mem s k AND fl_pmem s ! (k - unat (fl_addr s AND NOT 0xff)) else fl_mem s k)
    \<and> write_protect t \<and> fl_wip t \<and> fl_write_count t = tPP \<and> fl_state t = QSPIF_IDLE"
proof -
  let ?p = "unat (fl_addr s AND NOT 0xff)"
  define u where "u = fl_start_write tPP (s\<lparr>fl_last_sck := 1, fl_ireg := 0, fl_oreg := 0, fl_count := 0\<rparr>)"
  have u: "fl_mem u = fl_mem s" "fl_pmem u = fl_pmem s" "fl_addr u = fl_addr s" "fl_membytes u = fl_membytes s"
    "fl_sreg u = (fl_sreg s AND NOT 2) OR 1" "fl_write_count u = tPP" "fl_state u = QSPIF_IDLE"
    by (simp_all add: u_def fl_start_write_def QSPIF_WEL_FLAG_def QSPIF_WIP_FLAG_def)
  have p: "fl_program 256 0 u = Inr (u\<lparr>fl_mem := \<lambda>k. if ?p \<le> k \<and> k < ?p + 256
         then fl_mem s k AND fl_pmem s ! (k - ?p) else fl_mem s k\<rparr>)"
    using fl_program_ok [of u _ 256 0, OF refl] assms(3,4) unfolding u by simp
  have bits: "((fl_sreg s AND NOT 2) OR 1) AND 2 = 0" "((fl_sreg s AND NOT 2) OR 1) AND 1 \<noteq> 0"
  proof -
    have "\<not> bit ((fl_sreg s AND NOT 2) OR 1) 1" by (simp add: bit_simps)
    then show "((fl_sreg s AND NOT 2) OR 1) AND 2 = 0"
      using and_exp_eq_0_iff_not_bit [of "(fl_sreg s AND NOT 2) OR 1" 1] by simp
    have "bit ((fl_sreg s AND NOT 2) OR 1) 0" by (simp add: bit_simps)
    then show "((fl_sreg s AND NOT 2) OR 1) AND 1 \<noteq> 0"
      using and_exp_eq_0_iff_not_bit [of "(fl_sreg s AND NOT 2) OR 1" 0] by simp
  qed
  have "flashsim_apply True sck dat s = Inr (u\<lparr>fl_mem := \<lambda>k. if ?p \<le> k \<and> k < ?p + 256
         then fl_mem s k AND fl_pmem s ! (k - ?p) else fl_mem s k, fl_mode := FM_SPI, fl_oreg := 0xfe\<rparr>, dat)"
    using assms(1,2) p by (simp add: flashsim_apply_def fl_countdown_def fl_deselect_def u_def [symmetric])
  with bits u show ?thesis
    by (simp add: write_protect_def fl_wip_def QSPIF_WEL_FLAG_def)
qed


subsection \<open>Loading\<close>

lemma fl_copy_ok:
  "unat a + length bs \<le> unat (fl_membytes s) \<Longrightarrow>
     fl_copy a bs s = Inr (s\<lparr>fl_mem := \<lambda>k. if unat a \<le> k \<and> k < unat a + length bs then bs ! (k - unat a) else fl_mem s k\<rparr>)"
proof (induction bs arbitrary: a s)
  case Nil
  have "(\<lambda>k. if unat a \<le> k \<and> k < unat a + length ([] :: u8 list) then [] ! (k - unat a) else fl_mem s k) = fl_mem s"
    by (rule ext) auto
  then show ?case by (simp only: fl_copy.simps) simp
next
  case (Cons b bs)
  have "unat (fl_membytes s) < 2 ^ 32" by (rule less_le_trans [OF unsigned_less]) simp
  with Cons.prems have a: "a < fl_membytes s" "bs \<noteq> [] \<Longrightarrow> unat (a + 1) = Suc (unat a)"
    by (auto simp: word_less_nat_alt unat_word_ariths Suc_le_eq neq_Nil_conv)
  show ?case
  proof (cases "bs = []")
    case True
    with a(1) show ?thesis by (auto simp: fl_put_def fun_eq_iff intro!: arg_cong [where f = "\<lambda>m. s\<lparr>fl_mem := m\<rparr>"])
  next
    case False
    with a Cons.IH [of "a + 1" "s\<lparr>fl_mem := (fl_mem s)(unat a := b)\<rparr>"] Cons.prems show ?thesis
      by (auto simp: fl_put_def fun_eq_iff nth_Cons' intro!: arg_cong [where f = "\<lambda>m. s\<lparr>fl_mem := m\<rparr>"])
  qed
qed


lemma fl_fill_copy: "fl_fill n a s = fl_copy a (replicate n 0xff) s"
proof (induction n arbitrary: a s)
  case (Suc n)
  have "fl_fill n (a + 1) = fl_copy (a + 1) (replicate n 0xff)" by (rule ext) (rule Suc.IH)
  then show ?case by simp
qed simp

text \<open>After an image has been loaded from a file at an address, the memory below the image's
  length holds what was stored there and everything from that length on is erased: an image
  that is not loaded at address 0 loses whatever lies at or above its own length.\<close>

theorem flash_load_file:
  assumes "addr < fl_membytes s" "length bytes \<le> unat (fl_membytes s - addr)"
  shows "flashsim_load_file addr (Some bytes) s = Inr (s\<lparr>fl_mem := \<lambda>k.
    if k < length bytes then (if unat addr \<le> k then bytes ! (k - unat addr) else fl_mem s k)
    else if k < unat (fl_membytes s) then 0xff
    else fl_mem s k\<rparr>)"
proof -
  have minus: "unat (fl_membytes s - addr) = unat (fl_membytes s) - unat addr"
    using assms(1) by (simp add: unat_sub word_less_nat_alt word_le_nat_alt)
  have size: "unat (fl_membytes s) < 2 ^ 32" by (rule less_le_trans [OF unsigned_less]) simp
  have fits: "unat addr + length bytes \<le> unat (fl_membytes s)"
    using assms unfolding minus by (simp add: word_less_nat_alt)
  let ?t = "s\<lparr>fl_mem := \<lambda>k. if unat addr \<le> k \<and> k < unat addr + length bytes then bytes ! (k - unat addr) else fl_mem s k\<rparr>"
  let ?n = "length bytes" and ?m = "unat (fl_membytes s)"
  have n: "unat (of_nat ?n :: u32) = ?n" using size fits by (simp add: unsigned_of_nat take_bit_nat_eq_self)
  have fill: "fl_fill (?m - ?n) (of_nat ?n) ?t = Inr (?t\<lparr>fl_mem := \<lambda>k. if ?n \<le> k \<and> k < ?n + (?m - ?n)
      then replicate (?m - ?n) 0xff ! (k - ?n) else fl_mem ?t k\<rparr>)"
    using fl_copy_ok [of "of_nat ?n" "replicate (?m - ?n) 0xff" ?t] fits unfolding n fl_fill_copy by simp
  have "flashsim_load_file addr (Some bytes) s = fl_fill (?m - ?n) (of_nat ?n) ?t"
    using assms fl_copy_ok [OF fits] by (simp add: flashsim_load_file_def Let_def)
  also note fill
  also have "(\<lambda>k. if ?n \<le> k \<and> k < ?n + (?m - ?n) then replicate (?m - ?n) 0xff ! (k - ?n) else fl_mem ?t k)
    = (\<lambda>k. if k < ?n then (if unat addr \<le> k then bytes ! (k - unat addr) else fl_mem s k)
        else if k < ?m then 0xff else fl_mem s k)"
    using fits by (auto simp: fun_eq_iff)
  finally show ?thesis by simp
qed

text \<open>A word that has been set is read back, and setting it changes its four bytes only.\<close>

theorem flash_set_index:
  assumes "unat a < 2 ^ 30" "4 * unat a + 4 \<le> unat (fl_membytes s)"
  shows "\<exists>t. flashsim_set a v s = Inr t \<and> flashsim_index t a = Inr v
    \<and> (\<forall>k. k div 4 \<noteq> unat a \<longrightarrow> fl_mem t k = fl_mem s k)"
proof -
  let ?b = "push_bit 2 a"
  have "unat ?b = 4 * unat a"
    using assms(1) unfolding unsigned_push_bit_eq by (simp add: push_bit_eq_mult take_bit_nat_eq_self)
  then have u: "unat ?b = 4 * unat a" "unat (?b + 1) = 4 * unat a + 1" "unat (?b + 2) = 4 * unat a + 2"
    "unat (?b + 3) = 4 * unat a + 3"
    using assms(1) by (simp_all add: unat_word_ariths)
  have v: "push_bit 8 (push_bit 8 (push_bit 8 (ucast (ucast (drop_bit 24 v) :: u8)) OR ucast (ucast (drop_bit 16 v) :: u8))
       OR ucast (ucast (drop_bit 8 v) :: u8)) OR ucast (ucast v :: u8) = v" (is "?w = v")
  proof (rule bit_word_eqI)
    fix n assume "n < LENGTH(32)"
    then consider "n < 8" | "8 \<le> n" "n < 16" | "16 \<le> n" "n < 24" | "24 \<le> n" "n < 32" by fastforce
    then show "bit ?w n = bit v n" by cases (auto simp: bit_simps)
  qed
  let ?t = "s\<lparr>fl_mem := (fl_mem s)(4 * unat a := ucast (drop_bit 24 v), 4 * unat a + 1 := ucast (drop_bit 16 v),
      4 * unat a + 2 := ucast (drop_bit 8 v), 4 * unat a + 3 := ucast v)\<rparr>"
  have less: "?b < fl_membytes s" "?b + 1 < fl_membytes s" "?b + 2 < fl_membytes s" "?b + 3 < fl_membytes s"
    using assms(2) u by (simp_all add: word_less_nat_alt)
  then have "flashsim_set a v s = Inr ?t" unfolding flashsim_set_def Let_def by (simp add: fl_put_def u)
  moreover have "flashsim_index ?t a = Inr ?w"
    using less unfolding flashsim_index_def Let_def by (simp add: fl_get_def u)
  moreover have "\<forall>k. k div 4 \<noteq> unat a \<longrightarrow> fl_mem ?t k = fl_mem s k" by auto
  ultimately show ?thesis unfolding v by blast
qed


subsection \<open>Erasing\<close>

text \<open>A sector at or above 4 MB cannot be erased: the last byte of its address makes the
  simulation abort, although the memory has up to 16 MB.\<close>

theorem flash_upper_sectors_abort:
  assumes "fl_awake s" "fl_count s = 24" "fl_state s = QSPIF_SECTOR_ERASE"
    "bit (fl_ireg s) 14 \<or> bit (fl_ireg s) 15"
  shows "spi_byte b s = Inl AssertFail"
proof -
  let ?u = "fl_byte_in b s"
  have k: "bytes_in s 3" using assms(2) by (simp add: bytes_in_def)
  have st: "spi_ready s" using assms(1) by (simp add: fl_awake_def)
  have b: "fl_count ?u = 32" using assms(2) by (simp add: fl_byte_in_def)
  have ireg: "bit (fl_ireg ?u) 22 \<or> bit (fl_ireg ?u) 23"
    using assms(4) bit_push_bit_iff [of 8 "fl_ireg s" 22] bit_push_bit_iff [of 8 "fl_ireg s" 23]
    by (auto simp: fl_byte_in_def bit_or_iff)
  have bits: "bit (0x0ffc000 :: u32) 22" "bit (0x0ffc000 :: u32) 23" "bit (0xfc00000 :: u32) 22" "bit (0xfc00000 :: u32) 23"
    by simp_all
  then have "(fl_ireg ?u AND 0x0ffc000) AND 0xfc00000 \<noteq> 0"
    using ireg by (metis bit_and_iff bit_0_eq bot_apply bot_bool_def)
  moreover have "fl_state (QOREG 0 ?u) \<noteq> QSPIF_IDLE" using assms(3) by simp
  note unthrottled [OF this]
  ultimately have "fl_next_byte ?u = Inl AssertFail"
    using assms(3) b unfolding fl_next_byte_def Let_def by (simp only:) (simp add: fl_sector_byte_def)
  then have "fl_process ?u = Inl AssertFail"
    using next_byte_process [OF assms(1) k, of b] by simp
  from spi_byte_end(1) [OF st bytes_in_low [OF k] this] show ?thesis .
qed

subsection \<open>Witnesses\<close>

definition small_flash :: flashsim where
  "small_flash = flashsim_new \<lparr>fl_state = QSPIF_IDLE, fl_mem = (\<lambda>_. 0), fl_pmem = replicate 256 0xff, fl_last_sck = 0,
     fl_write_count = 0, fl_ireg = 0, fl_oreg = 0, fl_sreg = 0, fl_addr = 0, fl_count = 0, fl_mode_byte = 0,
     fl_creg = 0, fl_membytes = 0, fl_memmask = 0, fl_idle_throttle = False, fl_mode = FM_SPI, fl_rddelay = None\<rparr> 10"

lemma small_flash_awake: "fl_awake small_flash" "fl_count small_flash = 0"
proof -
  have "fl_membytes small_flash = 2 ^ 10 \<and> fl_memmask small_flash = mask 10"
    by (simp add: small_flash_def flashsim_new_def mask_eq_exp_minus_1)
  then have "fl_sized small_flash" unfolding fl_sized_def by (intro exI [of _ 10]) simp
  then show "fl_awake small_flash"
    by (simp add: fl_awake_def spi_ready_def fl_wip_def QSPIF_DEEP_POWER_DOWN_FLAG_def)
       (simp add: small_flash_def flashsim_new_def)
  show "fl_count small_flash = 0" by (simp add: small_flash_def flashsim_new_def)
qed

lemma small_flash_address:
  "unat (address_of small_flash 0 0x1 0x23) = 0x123" "unat (address_of small_flash 0 3 0xff) = 1023"
  "unat (fl_membytes small_flash) = 1024" "fl_mem small_flash = (\<lambda>_. 0xff)"
  by (simp_all add: address_of_def small_flash_def flashsim_new_def)

theorem flash_slow_read_witness:
  "\<exists>t r0 r1 r2 r3. spi_bytes ([0x03, 0, 1, 0x23] @ replicate 2 0) small_flash = Inr (t, [r0, r1, r2, r3] @ [0xff, 0xff])"
  using flash_slow_read [OF small_flash_awake, of 0 1 "0x23" 2]
  by (simp add: small_flash_address upt_rec del: spi_bytes.simps) blast

theorem flash_reads_past_end_witness: "spi_bytes [0x03, 0, 3, 0xff, 0] small_flash = Inl OutOfBounds"
  by (rule flash_reads_past_end [OF small_flash_awake]) (simp add: small_flash_address)

theorem flash_load_file_witness:
  "\<exists>t. flashsim_load_file 0x100 (Some [1, 2, 3]) small_flash = Inr t \<and> fl_mem t 0x100 = 0xff"
  using flash_load_file [of "0x100" small_flash "[1, 2, 3]"]
  by (simp add: small_flash_def flashsim_new_def)

theorem flash_set_index_witness:
  "\<exists>t. flashsim_set 3 0x12345678 small_flash = Inr t \<and> flashsim_index t 3 = Inr 0x12345678"
  using flash_set_index [of 3 small_flash "0x12345678"] by (auto simp: small_flash_address)

theorem flash_upper_sectors_abort_witness:
  "spi_byte 0 (small_flash\<lparr>fl_state := QSPIF_SECTOR_ERASE, fl_count := 24, fl_ireg := 0xd84000\<rparr>) = Inl AssertFail"
proof (rule flash_upper_sectors_abort)
  show "fl_awake (small_flash\<lparr>fl_state := QSPIF_SECTOR_ERASE, fl_count := 24, fl_ireg := 0xd84000\<rparr>)"
    using small_flash_awake(1) by (simp add: fl_awake_def spi_ready_def fl_sized_def fl_wip_def)
qed simp_all


text \<open>The last bit of a page program command, and its end.\<close>

definition enabled_flash :: flashsim where
  "enabled_flash = small_flash\<lparr>fl_sreg := 2, fl_count := 7, fl_ireg := 1, fl_pmem := replicate 256 0x5a\<rparr>"

lemma enabled_flash_command:
  "\<exists>t r. fl_step enabled_flash (False, 0, 0) = Inr (t, r) \<and> fl_state t = QSPIF_PP \<and> fl_write_count t = 0
     \<and> fl_pmem t = replicate 256 0x5a \<and> fl_addr t = 0 \<and> fl_membytes t = 1024 \<and> fl_mem t = (\<lambda>_. 0xff)"
  by (simp add: fl_step_def enabled_flash_def small_flash_def flashsim_new_def flashsim_apply_def fl_countdown_def
    fl_shift_def fl_process_def fl_command_def fl_guarded_def QSPIF_DEEP_POWER_DOWN_FLAG_def QOREG_def Let_def)

theorem flash_write_needs_enable_witness:
  "\<exists>pre post u outs'. [(False, 0, 0), (True, 0, 0)] = pre @ post
     \<and> run_machine fl_step enabled_flash pre = Inr (u, outs') \<and> fl_sreg u AND 0x203 = 2"
proof -
  obtain t r where t: "fl_step enabled_flash (False, 0, 0) = Inr (t, r)" "fl_state t = QSPIF_PP" "fl_write_count t = 0"
    "fl_pmem t = replicate 256 0x5a" "fl_addr t = 0" "fl_membytes t = 1024" "fl_mem t = (\<lambda>_. 0xff)"
    using enabled_flash_command by blast
  from page_program_ok [of t 0 0] t obtain u where u: "flashsim_apply True 0 0 t = Inr (u, 0)" "fl_mem u 0 = 0x5a"
    by auto
  have "run_machine fl_step enabled_flash [(False, 0, 0), (True, 0, 0)] = Inr (u, [r, 0])"
    using t(1) u(1) by (simp add: fl_step_def)
  moreover have "\<not> fl_writing enabled_flash" by (simp add: fl_writing_def enabled_flash_def small_flash_def flashsim_new_def)
  moreover have "fl_mem u \<noteq> fl_mem enabled_flash"
  proof
    assume "fl_mem u = fl_mem enabled_flash"
    then have "fl_mem u 0 = 0xff" by (simp add: enabled_flash_def small_flash_address)
    with u(2) show False by simp
  qed
  ultimately show ?thesis by (rule flash_write_needs_enable)
qed

end
