(* ===== verification/FlashWrite.thy ===== *)
theory FlashWrite
  imports FlashGuard
begin

text \<open>
  The flash chip: a page program from the command to the end of the write, as it is seen on the
  pins. What is sent is kept in the chip's page buffer, wraps around inside the page, and reaches
  the memory when the chip is deselected.
\<close>

subsection \<open>Addresses within a page\<close>

lemma page_offset: "unat ((w :: u32) AND 0xff) = unat w mod 256"
  unfolding ff_mask by (simp only: take_bit_eq_mask [symmetric] unsigned_take_bit_eq) (simp add: take_bit_eq_mod)

lemma page_base: "unat ((w :: u32) AND NOT 0xff) = 256 * (unat w div 256)"
proof -
  have "(w AND NOT 0xff) + (w AND 0xff) = (w AND NOT 0xff) OR (w AND 0xff)"
    by (rule disjunctive_add) (simp add: bit_simps)
  also have "\<dots> = w" by (rule bit_word_eqI) (auto simp: bit_simps)
  finally have "w AND NOT 0xff = w - (w AND 0xff)" by (simp add: algebra_simps)
  moreover have "w AND 0xff \<le> w" by (simp add: word_le_nat_alt page_offset)
  ultimately have "unat (w AND NOT 0xff) = unat w - unat w mod 256" by (simp add: unat_sub page_offset)
  then show ?thesis by (simp add: minus_mod_eq_mult_div)
qed

lemma page_address: "unat (((w :: u32) AND NOT 0xff) OR (v AND 0xff)) = 256 * (unat w div 256) + unat v mod 256"
proof -
  have "(w AND NOT 0xff) OR (v AND 0xff) = (w AND NOT 0xff) + (v AND 0xff)"
    by (rule disjunctive_add [symmetric]) (simp add: bit_simps)
  moreover have "unat w < 2 ^ 24 * 256" by (rule less_le_trans [OF unsigned_less]) simp
  then have "unat w div 256 < 2 ^ 24" by (rule less_mult_imp_div_less)
  then have "256 * (unat w div 256) + unat v mod 256 < 2 ^ 32"
    using mod_less_divisor [of 256 "unat v"] by (simp del: mod_less_divisor)
  ultimately show ?thesis by (simp only: unat_word_ariths page_base page_offset) simp
qed

lemma page_of: "256 * q \<le> k \<and> k < 256 * q + 256 \<longleftrightarrow> k div 256 = q" for q :: nat
  using div_mult_mod_eq [of k 256] mod_less_divisor [of 256 k] by (auto intro!: div_nat_eqI)

lemma page_fits:
  assumes "fl_sized s" "256 \<le> unat (fl_membytes s)" "a < unat (fl_membytes s)"
  shows "256 * (a div 256) + 256 \<le> unat (fl_membytes s)"
proof -
  from assms(1) obtain k where k: "k \<le> 24" "unat (fl_membytes s) = 2 ^ k" by (auto simp: fl_sized_def unat_pow2_u32)
  with assms(2) have "(2::nat) ^ 8 \<le> 2 ^ k" by simp
  then have "8 \<le> k" by (rule power_le_imp_le_exp [rotated]) simp
  then have "unat (fl_membytes s) = 256 * 2 ^ (k - 8)" using k(2) power_add [of "2::nat" 8 "k - 8"] by simp
  moreover from this assms(3) have "a div 256 < 2 ^ (k - 8)" by (simp add: less_mult_imp_div_less mult.commute)
  ultimately show ?thesis by simp
qed

subsection \<open>The bytes of a page program\<close>

text \<open>The chip has the address, and its buffer is \<open>pm\<close>.\<close>

definition programming_at :: "flashsim \<Rightarrow> nat \<Rightarrow> nat \<Rightarrow> u8 list \<Rightarrow> bool" where
  "programming_at s k a pm \<longleftrightarrow> fl_awake s \<and> bytes_in s k \<and> 4 \<le> k \<and> fl_state s = QSPIF_PP
     \<and> unat (fl_addr s) = a \<and> fl_pmem s = pm \<and> length pm = 256"

text \<open>The buffer after bytes sent at an address, as its index goes around the page.\<close>

fun page_store :: "nat \<Rightarrow> u8 list \<Rightarrow> u8 list \<Rightarrow> u8 list" where
  "page_store p [] pm = pm"
| "page_store p (b # bs) pm = page_store ((p + 1) mod 256) bs (pm[p := b])"

lemma length_page_store [simp]: "length (page_store p bs pm) = length pm"
  by (induction p bs pm rule: page_store.induct) simp_all

lemma page_place: "p < 256 \<Longrightarrow> i < 256 \<Longrightarrow> (i + 256 - p) mod 256 = (if p \<le> i then i - p else i + 256 - p)"
  for p :: nat
proof (cases "p \<le> i")
  case True
  then have "i + 256 - p = (i - p) + 256" by simp
  then show "i < 256 \<Longrightarrow> ?thesis" using True by (simp only: mod_add_self2) simp
qed simp

lemma page_store_nth:
  "p < 256 \<Longrightarrow> length pm = 256 \<Longrightarrow> length bs \<le> 256 \<Longrightarrow> i < 256 \<Longrightarrow>
     page_store p bs pm ! i = (if (i + 256 - p) mod 256 < length bs then bs ! ((i + 256 - p) mod 256) else pm ! i)"
proof (induction p bs pm rule: page_store.induct)
  case (2 p b bs pm)
  let ?p = "(p + 1) mod 256" and ?j = "(i + 256 - p) mod 256"
  have less: "?p < 256" by simp
  have IH: "page_store ?p bs (pm[p := b]) ! i = (if (i + 256 - ?p) mod 256 < length bs
      then bs ! ((i + 256 - ?p) mod 256) else pm[p := b] ! i)"
    using 2 by (intro "2.IH") simp_all
  show ?case
  proof (cases "i = p")
    case True
    then have "?j = 0" "(i + 256 - ?p) mod 256 = 255"
      using "2.prems"(1) page_place [of p i] page_place [of ?p i] by (cases "p = 255"; simp)+
    moreover have "\<not> 255 < length bs" using "2.prems"(3) by simp
    ultimately show ?thesis using True IH "2.prems"(2,4) by simp
  next
    case False
    then have "?j = Suc ((i + 256 - ?p) mod 256)"
      using "2.prems"(1,4) page_place [of p i] page_place [of ?p i] by (cases "p = 255") auto
    then show ?thesis using False IH by simp
  qed
qed simp

lemma page_program_command:
  assumes "fl_awake s" "bytes_in s 0" "fl_sreg s AND 0x203 = 2"
  shows "\<exists>t r. spi_byte 0x02 s = Inr (t, r) \<and> fl_awake t \<and> bytes_in t 1 \<and> fl_state t = QSPIF_PP
    \<and> fl_mem t = fl_mem s \<and> fl_membytes t = fl_membytes s \<and> fl_memmask t = fl_memmask s"
proof -
  let ?u = "fl_byte_in 0x02 s"
  have b: "bytes_in ?u 1" using bytes_in_next [OF assms(2), of "0x02"] by simp
  from assms(1) have st: "spi_ready s" by (simp add: fl_awake_def)
  have "fl_process ?u = Inr ((QOREG 0xa5 ?u)\<lparr>fl_state := QSPIF_PP\<rparr>)"
    using assms(1,3) bytes_in_facts(1) [OF b] low_byte_in [of "0x02" s]
    by (simp add: fl_process_def fl_awake_def spi_ready_def fl_command_def fl_guarded_def Let_def)
  from spi_byte_end(2) [OF st bytes_in_low [OF assms(2)] this] obtain r where
    "spi_byte 0x02 s = Inr (((QOREG 0xa5 ?u)\<lparr>fl_state := QSPIF_PP\<rparr>)\<lparr>fl_last_sck := 0\<rparr>, r)" by blast
  then show ?thesis
    using assms(1) b by (auto simp: fl_awake_def spi_ready_def fl_sized_def fl_wip_def bytes_in_def)
qed

lemma page_next:
  assumes "fl_state u = QSPIF_PP"
  shows "fl_next_byte u = fl_page_byte (fl_mode u) ((QOREG 0 u)\<lparr>fl_idle_throttle := False\<rparr>)"
proof -
  have "fl_state (QOREG 0 u) \<noteq> QSPIF_IDLE" using assms by simp
  from unthrottled [OF this] show ?thesis
    using assms unfolding fl_next_byte_def Let_def by (simp only:) simp
qed

lemma page_address_byte:
  assumes "fl_awake s" "bytes_in s k" "fl_state s = QSPIF_PP" "k = 1 \<or> k = 2"
  shows "\<exists>t r. spi_byte b s = Inr (t, r) \<and> fl_awake t \<and> bytes_in t (Suc k) \<and> same_chip s t
    \<and> fl_ireg t = push_bit 8 (fl_ireg s) OR ucast b"
proof -
  let ?u = "fl_byte_in b s"
  from assms(1) have st: "spi_ready s" by (simp add: fl_awake_def)
  have b: "bytes_in ?u (Suc k)" using assms(2,4) by (intro bytes_in_next) auto
  have "fl_process ?u = Inr ((QOREG 0 ?u)\<lparr>fl_idle_throttle := False\<rparr>)"
    using assms(3,4) next_byte_process [OF assms(1,2), of b] bytes_in_facts(3,4) [OF b]
    by (auto simp: page_next fl_page_byte_def)
  from spi_byte_end(2) [OF st bytes_in_low [OF assms(2)] this] obtain r where
    "spi_byte b s = Inr (((QOREG 0 ?u)\<lparr>fl_idle_throttle := False\<rparr>)\<lparr>fl_last_sck := 0\<rparr>, r)" by blast
  then show ?thesis
    using assms(1) b by (auto simp: same_chip_def bytes_in_def intro!: awake_same [OF assms(1)])
      (simp_all add: fl_awake_def spi_ready_def fl_byte_in_def)
qed

lemma page_last_address_byte:
  fixes b :: u8
  assumes "fl_awake s" "bytes_in s 3" "fl_state s = QSPIF_PP"
  shows "\<exists>t r. spi_byte b s = Inr (t, r) \<and> same_chip s t
    \<and> programming_at t 4 (unat ((push_bit 8 (fl_ireg s) OR ucast b) AND fl_memmask s)) (replicate 256 0xff)"
proof -
  let ?u = "fl_byte_in b s"
  let ?w = "(push_bit 8 (fl_ireg s) OR ucast b) AND fl_memmask s"
  from assms(1) have st: "spi_ready s" by (simp add: fl_awake_def)
  have b: "bytes_in ?u 4" using bytes_in_next [OF assms(2), of b] by simp
  have zero: "?w AND NOT (fl_memmask s) = 0" by (rule bit_word_eqI) (simp add: bit_simps)
  have "fl_process ?u = Inr ((QOREG 0 ?u)\<lparr>fl_idle_throttle := False, fl_mode := fl_mode s, fl_addr := ?w,
      fl_pmem := replicate 256 0xff\<rparr>)"
    using assms(3) next_byte_process [OF assms(1,2), of b] bytes_in_facts(3) [OF b] zero
    by (simp add: page_next fl_page_byte_def fl_set_addr_def fl_byte_in_def)
  from spi_byte_end(2) [OF st bytes_in_low [OF assms(2)] this] obtain r where
    "spi_byte b s = Inr (((QOREG 0 ?u)\<lparr>fl_idle_throttle := False, fl_mode := fl_mode s, fl_addr := ?w,
      fl_pmem := replicate 256 0xff\<rparr>)\<lparr>fl_last_sck := 0\<rparr>, r)" by blast
  then show ?thesis
    using assms(1,3) b st
    by (auto simp: same_chip_def programming_at_def bytes_in_def spi_ready_def intro!: awake_same [OF assms(1)])
qed

lemma page_data_byte:
  assumes "programming_at s k a pm" "Suc k < 2 ^ 28"
  shows "\<exists>t r. spi_byte b s = Inr (t, r) \<and> same_chip s t
    \<and> programming_at t (Suc k) (256 * (a div 256) + (a + 1) mod 256) (pm[a mod 256 := b])"
proof -
  let ?u = "fl_byte_in b s"
  let ?w = "(fl_addr s AND NOT 0xff) OR ((fl_addr s + 1) AND 0xff)"
  from assms(1) have p: "fl_awake s" "bytes_in s k" "4 \<le> k" "fl_state s = QSPIF_PP" "unat (fl_addr s) = a"
    "fl_pmem s = pm" "length pm = 256" by (simp_all add: programming_at_def)
  then have st: "spi_ready s" by (simp add: fl_awake_def)
  have b: "bytes_in ?u (Suc k)" using p(2) assms(2) by (rule bytes_in_next)
  have idx: "unat (fl_addr s AND 0xff) = a mod 256" unfolding page_offset p(5) ..
  have byte: "ucast (fl_ireg ?u AND 0xff) = b"
    unfolding low_byte_in by (rule bit_word_eqI) (simp add: bit_simps)
  have "unat (fl_addr s + 1) mod 256 = (a + 1) mod 256"
    using p(5) by (simp add: unat_word_ariths mod_mod_cancel)
  then have w: "unat ?w = 256 * (a div 256) + (a + 1) mod 256" unfolding page_address p(5) by simp
  have "fl_process ?u = Inr ((QOREG 0 ?u)\<lparr>fl_idle_throttle := False, fl_pmem := pm[a mod 256 := b], fl_addr := ?w\<rparr>)"
    using p(3,4,6,7) next_byte_process [OF p(1,2) _ assms(2), of b] bytes_in_facts(3,4) [OF b] idx byte
    by (simp add: page_next fl_page_byte_def aset_def)
  from spi_byte_end(2) [OF st bytes_in_low [OF p(2)] this] obtain r where
    "spi_byte b s = Inr (((QOREG 0 ?u)\<lparr>fl_idle_throttle := False, fl_pmem := pm[a mod 256 := b], fl_addr := ?w\<rparr>)
      \<lparr>fl_last_sck := 0\<rparr>, r)" by blast
  then show ?thesis
    using p b st w
    by (auto simp: same_chip_def programming_at_def bytes_in_def spi_ready_def intro!: awake_same [OF p(1)])
qed

lemma page_data_bytes:
  "programming_at s k a pm \<Longrightarrow> k + length bs < 2 ^ 28 \<Longrightarrow>
     \<exists>t rs a'. spi_bytes bs s = Inr (t, rs) \<and> same_chip s t \<and> a' div 256 = a div 256
       \<and> programming_at t (k + length bs) a' (page_store (a mod 256) bs pm)"
proof (induction bs arbitrary: s k a pm)
  case Nil
  then show ?case by (auto simp: same_chip_def)
next
  case (Cons b bs)
  from page_data_byte [OF Cons.prems(1), of b] Cons.prems(2) obtain t r where
    t: "spi_byte b s = Inr (t, r)" "same_chip s t"
      "programming_at t (Suc k) (256 * (a div 256) + (a + 1) mod 256) (pm[a mod 256 := b])" by auto
  from Cons.IH [OF t(3)] Cons.prems(2) obtain u rs a' where
    "spi_bytes bs t = Inr (u, rs)" "same_chip t u" "a' div 256 = a div 256"
    "programming_at u (Suc k + length bs) a' (page_store ((a + 1) mod 256) bs (pm[a mod 256 := b]))"
    by auto
  with t show ?case by (auto simp: same_chip_def mod_Suc_eq)
qed

lemma page_header:
  assumes "fl_awake s" "bytes_in s 0" "fl_sreg s AND 0x203 = 2"
  shows "\<exists>t rs. spi_bytes [0x02, a2, a1, a0] s = Inr (t, rs) \<and> fl_mem t = fl_mem s \<and> fl_membytes t = fl_membytes s
    \<and> programming_at t 4 (unat (address_of s a2 a1 a0)) (replicate 256 0xff)"
proof -
  from page_program_command [OF assms] obtain t0 r0 where t0: "spi_byte 0x02 s = Inr (t0, r0)" "fl_awake t0"
    "bytes_in t0 1" "fl_state t0 = QSPIF_PP" "fl_mem t0 = fl_mem s" "fl_membytes t0 = fl_membytes s"
    "fl_memmask t0 = fl_memmask s" by blast
  from page_address_byte [OF t0(2,3,4), of a2] obtain t1 r1 where t1: "spi_byte a2 t0 = Inr (t1, r1)" "fl_awake t1"
    "bytes_in t1 2" "same_chip t0 t1" "fl_ireg t1 = push_bit 8 (fl_ireg t0) OR ucast a2"
    by (auto simp: numeral_2_eq_2)
  from t1(4) t0(4) have "fl_state t1 = QSPIF_PP" by (simp add: same_chip_def)
  from page_address_byte [OF t1(2,3) this, of a1] obtain t2 r2 where t2: "spi_byte a1 t1 = Inr (t2, r2)" "fl_awake t2"
    "bytes_in t2 3" "same_chip t1 t2" "fl_ireg t2 = push_bit 8 (fl_ireg t1) OR ucast a1"
    by (auto simp: numeral_3_eq_3 numeral_2_eq_2)
  from t1(4) t2(4) t0(4) have "fl_state t2 = QSPIF_PP" by (simp add: same_chip_def)
  from page_last_address_byte [OF t2(2,3) this, of a0] obtain t3 r3 where t3: "spi_byte a0 t2 = Inr (t3, r3)"
    "same_chip t2 t3"
    "programming_at t3 4 (unat ((push_bit 8 (fl_ireg t2) OR ucast a0) AND fl_memmask t2)) (replicate 256 0xff)" by blast
  have mask: "fl_memmask t2 = fl_memmask s" using t0(7) t1(4) t2(4) by (simp add: same_chip_def)
  have "(push_bit 8 (fl_ireg t2) OR ucast a0) AND fl_memmask t2 = address_of s a2 a1 a0"
    using three_bytes [of s "fl_ireg t0" a2 a1 a0] assms(1) unfolding t2(5) t1(5) mask
    by (simp add: fl_awake_def)
  with t0 t1 t2 t3 show ?thesis by (auto simp: same_chip_def)
qed

lemma full_byte: "(w :: u8) AND 0xff = w"
  by (rule bit_word_eqI) (simp add: ff_mask bit_simps)

text \<open>C13. A page program that is sent to an enabled chip on its pins, command, address and up to 256
  bytes, changes nothing while it is sent; deselecting the chip then clears, in the page of the
  address, the bits that are clear in the byte sent for each place, where the places follow one
  another from the address on and go around at the end of the page. Every other byte stays as it
  was, the write enable is taken back and the chip is busy.\<close>

theorem flash_page_program:
  assumes "fl_awake s" "fl_count s = 0" "fl_sreg s AND 0x203 = 2" "256 \<le> unat (fl_membytes s)" "length bs \<le> 256"
    "a = unat (address_of s a2 a1 a0)"
  shows "\<exists>t rs u. spi_bytes ([0x02, a2, a1, a0] @ bs) s = Inr (t, rs) \<and> fl_mem t = fl_mem s
    \<and> flashsim_apply True sck dat t = Inr (u, dat)
    \<and> fl_mem u = (\<lambda>k. if k div 256 = a div 256 \<and> (k mod 256 + 256 - a mod 256) mod 256 < length bs
         then fl_mem s k AND bs ! ((k mod 256 + 256 - a mod 256) mod 256) else fl_mem s k)
    \<and> write_protect u \<and> fl_wip u \<and> fl_write_count u = tPP \<and> fl_state u = QSPIF_IDLE"
proof -
  have sized: "fl_sized s" using assms(1) by (simp add: fl_awake_def)
  have a: "a < unat (fl_membytes s)"
    using address_in_memory [OF sized] unfolding assms(6) address_of_def by (simp add: word_less_nat_alt)
  have "bytes_in s 0" using assms(2) by (simp add: bytes_in_def)
  from page_header [OF assms(1) this assms(3), of a2 a1 a0] obtain h rs where
    h: "spi_bytes [0x02, a2, a1, a0] s = Inr (h, rs)" "fl_mem h = fl_mem s" "fl_membytes h = fl_membytes s"
      "programming_at h 4 a (replicate 256 0xff)" unfolding assms(6) by blast
  have "4 + length bs < 2 ^ 28" using assms(5) by simp
  from page_data_bytes [OF h(4) this] obtain t rs' a' where
    t: "spi_bytes bs h = Inr (t, rs')" "same_chip h t" "a' div 256 = a div 256"
      "programming_at t (4 + length bs) a' (page_store (a mod 256) bs (replicate 256 0xff))" by blast
  let ?pm = "page_store (a mod 256) bs (replicate 256 0xff)"
  have p: "fl_state t = QSPIF_PP" "fl_write_count t = 0" "fl_pmem t = ?pm" "unat (fl_addr t) = a'"
    using t(4) by (simp_all add: programming_at_def fl_awake_def spi_ready_def)
  have same: "fl_mem t = fl_mem s" "fl_membytes t = fl_membytes s" using t(2) h(2,3) by (simp_all add: same_chip_def)
  have base: "unat (fl_addr t AND NOT 0xff) = 256 * (a div 256)" unfolding page_base p(4) t(3) ..
  have "length (fl_pmem t) = 256" unfolding p(3) by simp
  moreover have "unat (fl_addr t AND NOT 0xff) + 256 \<le> unat (fl_membytes t)"
    unfolding base same(2) by (rule page_fits [OF sized assms(4) a])
  ultimately have "\<exists>u. flashsim_apply True sck dat t = Inr (u, dat)
      \<and> fl_mem u = (\<lambda>k. if 256 * (a div 256) \<le> k \<and> k < 256 * (a div 256) + 256
         then fl_mem s k AND ?pm ! (k - 256 * (a div 256)) else fl_mem s k)
      \<and> write_protect u \<and> fl_wip u \<and> fl_write_count u = tPP \<and> fl_state u = QSPIF_IDLE"
    using page_program_ok [OF p(1,2), of sck dat] unfolding base same(1) p(3) by blast
  then obtain u where
    u: "flashsim_apply True sck dat t = Inr (u, dat)"
      "fl_mem u = (\<lambda>k. if 256 * (a div 256) \<le> k \<and> k < 256 * (a div 256) + 256
         then fl_mem s k AND ?pm ! (k - 256 * (a div 256)) else fl_mem s k)"
      "write_protect u" "fl_wip u" "fl_write_count u = tPP" "fl_state u = QSPIF_IDLE" by blast
  have "fl_mem u k = (if k div 256 = a div 256 \<and> (k mod 256 + 256 - a mod 256) mod 256 < length bs
         then fl_mem s k AND bs ! ((k mod 256 + 256 - a mod 256) mod 256) else fl_mem s k)" for k
  proof -
    have "k div 256 = a div 256 \<Longrightarrow> k - 256 * (a div 256) = k mod 256" by (metis minus_mult_div_eq_mod)
    moreover have "?pm ! (k mod 256) = (if (k mod 256 + 256 - a mod 256) mod 256 < length bs
        then bs ! ((k mod 256 + 256 - a mod 256) mod 256) else 0xff)"
      using page_store_nth [of "a mod 256" "replicate 256 0xff" bs "k mod 256"] assms(5) by simp
    ultimately show ?thesis unfolding u(2) page_of by (simp add: full_byte)
  qed
  then have "fl_mem u = (\<lambda>k. if k div 256 = a div 256 \<and> (k mod 256 + 256 - a mod 256) mod 256 < length bs
         then fl_mem s k AND bs ! ((k mod 256 + 256 - a mod 256) mod 256) else fl_mem s k)" ..
  moreover have "spi_bytes ([0x02, a2, a1, a0] @ bs) s = Inr (t, rs @ rs')"
    unfolding spi_bytes_append h(1) by (simp add: t(1))
  ultimately show ?thesis using u(1,3-6) same(1) by blast
qed

definition writable_flash :: flashsim where
  "writable_flash = small_flash\<lparr>fl_sreg := 2\<rparr>"

text \<open>Three bytes at the end of a page: the third goes to its beginning.\<close>

theorem flash_page_program_witness:
  "\<exists>t rs u. spi_bytes [0x02, 0, 1, 0xfe, 0x5a, 0x33, 0x0f] writable_flash = Inr (t, rs)
     \<and> flashsim_apply True 0 0 t = Inr (u, 0) \<and> fl_mem u 0x1fe = 0x5a \<and> fl_mem u 0x1ff = 0x33
     \<and> fl_mem u 0x100 = 0x0f \<and> fl_mem u 0x101 = 0xff \<and> fl_mem u 0x200 = 0xff"
proof -
  have w: "fl_awake writable_flash" "fl_count writable_flash = 0" "fl_sreg writable_flash AND 0x203 = 2"
    "unat (fl_membytes writable_flash) = 1024" "fl_mem writable_flash = (\<lambda>_. 0xff)"
    "fl_memmask writable_flash = 0x3ff"
    using small_flash_awake small_flash_address
    by (simp_all add: writable_flash_def fl_awake_def spi_ready_def fl_sized_def fl_wip_def
      QSPIF_DEEP_POWER_DOWN_FLAG_def)
       (simp add: small_flash_def flashsim_new_def)
  have a: "0x1fe = unat (address_of writable_flash 0 1 0xfe)" by (simp add: address_of_def w(6))
  from flash_page_program [OF w(1-3) _ _ a, of "[0x5a, 0x33, 0x0f]" 0 0] show ?thesis
    by (auto simp: w(4,5) simp del: spi_bytes.simps)
qed

end
