(* ===== verification/UartSim.thy ===== *)
theory UartSim
  imports Prelude
begin

text \<open>
  \<open>sim/verilated/uartsim.cpp\<close> and \<open>uartsim.h\<close>: the far end of a serial line, called once per clock
  with the level of the line it receives on; it returns the level of the line it sends on. What
  the operating system answers in a tick is an argument, and what it is asked to do is returned.
  The calls that open the listening socket are not modelled; its descriptor is an argument.
\<close>

subsection \<open>State, environment and effects\<close>

record uartsim =
  us_skt :: int
  us_conrd :: int
  us_conwr :: int
  us_setup :: u32
  us_nparity :: nat
  us_fixdp :: bool
  us_evenp :: bool
  us_nbits :: nat
  us_nstop :: nat
  us_baud_counts :: int
  us_rx_baudcounter :: int
  us_rx_busy_state :: bool
  us_rx_busy :: int
  us_rx_changectr :: int
  us_last_tx :: int
  us_tx_baudcounter :: int
  us_tx_busy_state :: bool
  us_tx_busy :: int
  us_rx_data :: u32
  us_tx_data :: u32

text \<open>One tick's answers: whether a connection waits and its descriptor, whether the input
  descriptor can be read, the result of the read with its byte, and the result of the write.\<close>

record uart_env =
  ue_accept_ready :: bool
  ue_accept :: int
  ue_readable :: bool
  ue_nread :: int
  ue_byte :: u8
  ue_nwritten :: int

datatype uart_act = SendByte int u8 | ReadByte int | CloseFd int | AcceptOn int

subsection \<open>Setting up\<close>

definition uart_setup :: "u32 \<Rightarrow> uartsim \<Rightarrow> uartsim" where
  "uart_setup isetup s =
     (if isetup \<noteq> us_setup s then
        s\<lparr>us_setup := isetup,
          us_baud_counts := uint (isetup AND 0x0ffffff),
          us_nbits := 8 - unat (drop_bit 28 isetup AND 0x03),
          us_nstop := unat (drop_bit 27 isetup AND 1) + 1,
          us_nparity := unat (drop_bit 26 isetup AND 1),
          us_fixdp := (drop_bit 25 isetup AND 1 \<noteq> 0),
          us_evenp := (drop_bit 24 isetup AND 1 \<noteq> 0)\<rparr>
      else s)"

text \<open>What the constructor does not set is as in \<open>g\<close>; \<open>listener\<close> is the descriptor that
  \<open>setup_listener\<close> stores.\<close>

definition uartsim_new :: "uartsim \<Rightarrow> int \<Rightarrow> int \<Rightarrow> uartsim" where
  "uartsim_new g listener port =
     (let s = g\<lparr>us_conrd := -1, us_conwr := -1, us_skt := -1\<rparr>;
          s = (if port = 0 then s\<lparr>us_conrd := 0, us_conwr := 1\<rparr> else s\<lparr>us_skt := listener\<rparr>);
          s = uart_setup 25 s
      in s\<lparr>us_rx_baudcounter := 0, us_tx_baudcounter := 0, us_rx_busy_state := False,
           us_tx_busy_state := False\<rparr>)"

definition uart_kill :: "uartsim \<Rightarrow> uartsim \<times> uart_act list" where
  "uart_kill s =
     (let s = (if us_conrd s = 0 then s\<lparr>us_conwr := -1\<rparr> else s);
          s = (if us_conwr s = 1 then s\<lparr>us_conwr := -1\<rparr> else s);
          acts = (if 0 \<le> us_conrd s then [CloseFd (us_conrd s)] else [])
               @ (if 0 \<le> us_conwr s \<and> us_conwr s \<noteq> us_conrd s then [CloseFd (us_conwr s)] else [])
               @ (if 0 \<le> us_skt s then [CloseFd (us_skt s)] else [])
      in (s\<lparr>us_conrd := -1, us_conwr := -1, us_skt := -1\<rparr>, acts))"

definition uart_check_connections :: "uart_env \<Rightarrow> uartsim \<Rightarrow> uartsim \<times> uart_act list" where
  "uart_check_connections e s =
     (if us_conrd s < 0 \<and> us_conwr s < 0 \<and> 0 \<le> us_skt s \<and> ue_accept_ready e then
        (s\<lparr>us_conrd := ue_accept e, us_conwr := ue_accept e\<rparr>, [AcceptOn (us_skt s)])
      else (s, []))"

subsection \<open>Receiving from the line\<close>

definition uart_edge :: "int \<Rightarrow> uartsim \<Rightarrow> uartsim" where
  "uart_edge i_tx s =
     (let s = (if i_tx = 0 \<and> us_last_tx s \<noteq> 0 then s\<lparr>us_rx_changectr := 0\<rparr>
               else s\<lparr>us_rx_changectr := us_rx_changectr s + 1\<rparr>)
      in s\<lparr>us_last_tx := i_tx\<rparr>)"

definition uart_rx_start :: "uartsim \<Rightarrow> uartsim" where
  "uart_rx_start s =
     s\<lparr>us_rx_busy_state := True,
       us_rx_baudcounter := us_baud_counts s + us_baud_counts s div 2 - 1 - us_rx_changectr s,
       us_rx_busy := 0, us_rx_data := 0\<rparr>"

definition uart_rx_frame :: "uartsim \<Rightarrow> nat" where
  "uart_rx_frame s = us_nbits s + us_nparity s + us_nstop s"

definition uart_rx_byte :: "uartsim \<Rightarrow> u8" where
  "uart_rx_byte s = ucast (drop_bit (32 - us_nbits s - us_nstop s - us_nparity s) (us_rx_data s) AND 0xff)"

definition uart_rx_sample :: "int \<Rightarrow> uartsim \<Rightarrow> uartsim" where
  "uart_rx_sample i_tx s =
     s\<lparr>us_rx_busy := 2 * us_rx_busy s + 1,
       us_rx_data := push_bit 31 (of_int i_tx AND 1) OR drop_bit 1 (us_rx_data s)\<rparr>"

text \<open>The end of a frame, where \<open>failed\<close> is what a failed write does.\<close>

definition uart_rx_end ::
    "(uartsim \<Rightarrow> uartsim \<times> uart_act list) \<Rightarrow> uart_env \<Rightarrow> uartsim \<Rightarrow> uartsim \<times> uart_act list" where
  "uart_rx_end failed e s =
     (let s = s\<lparr>us_rx_busy_state := False\<rparr> in
      if 0 \<le> us_conwr s then
        let act = SendByte (us_conwr s) (uart_rx_byte s) in
        if ue_nwritten e \<noteq> 1 then case failed s of (s, acts) \<Rightarrow> (s, act # acts) else (s, [act])
      else (s, []))"

definition uart_rx ::
    "(uartsim \<Rightarrow> uartsim \<times> uart_act list) \<Rightarrow> uart_env \<Rightarrow> int \<Rightarrow> uartsim \<Rightarrow> uartsim \<times> uart_act list" where
  "uart_rx failed e i_tx s =
     (if \<not> us_rx_busy_state s then (if i_tx = 0 then uart_rx_start s else s, [])
      else if us_rx_baudcounter s \<le> 0 then
        (case (if 2 ^ (uart_rx_frame s - 1) \<le> us_rx_busy s then uart_rx_end failed e s
               else (uart_rx_sample i_tx s, [])) of
           (s, acts) \<Rightarrow> (s\<lparr>us_rx_baudcounter := us_baud_counts s - 1\<rparr>, acts))
      else (s\<lparr>us_rx_baudcounter := us_rx_baudcounter s - 1\<rparr>, []))"

subsection \<open>Sending on the line\<close>

definition uart_parity :: "uartsim \<Rightarrow> u32 \<Rightarrow> u32" where
  "uart_parity s data =
     (let even = (if us_evenp s then 1 else 0) in
      if us_fixdp s then even
      else
        let p = drop_bit 1 data AND 0xff;
            p = p XOR drop_bit 4 p;
            p = p XOR drop_bit 2 p;
            p = p XOR drop_bit 1 p;
            p = p AND 1
        in p XOR even)"

definition uart_tx_start :: "u8 \<Rightarrow> uartsim \<Rightarrow> uartsim" where
  "uart_tx_start b s =
     (let data = push_bit (us_nbits s + us_nparity s + 1) (-1) OR (push_bit 1 (ucast b) AND 0x1fe);
          data = (if us_nparity s \<noteq> 0 then data OR push_bit (us_nbits s + us_nparity s) (uart_parity s data)
                  else data)
      in s\<lparr>us_tx_data := data,
           us_tx_busy := 2 ^ (us_nbits s + us_nparity s + us_nstop s + 1) - 1,
           us_tx_busy_state := True, us_tx_baudcounter := us_baud_counts s - 1\<rparr>)"

definition uart_tx_shift :: "uartsim \<Rightarrow> uartsim" where
  "uart_tx_shift s =
     (let s = s\<lparr>us_tx_data := drop_bit 1 (us_tx_data s), us_tx_busy := us_tx_busy s div 2\<rparr> in
      if us_tx_busy s = 0 then s\<lparr>us_tx_busy_state := False\<rparr>
      else s\<lparr>us_tx_baudcounter := us_baud_counts s - 1\<rparr>)"

definition uart_line :: "uartsim \<Rightarrow> int" where
  "uart_line s = uint (us_tx_data s AND 1)"

text \<open>Over a network connection; a descriptor of \<open>-1\<close> is never readable.\<close>

definition net_failed :: "uartsim \<Rightarrow> uartsim \<times> uart_act list" where
  "net_failed s = (s\<lparr>us_conrd := -1, us_conwr := -1\<rparr>, [CloseFd (us_conwr s)])"

definition net_tx :: "uart_env \<Rightarrow> uartsim \<Rightarrow> uartsim \<times> int \<times> uart_act list" where
  "net_tx e s =
     (if \<not> us_tx_busy_state s then
        if ue_readable e \<and> 0 \<le> us_conrd s then
          if ue_nread e = 1 then (uart_tx_start (ue_byte e) s, 0, [ReadByte (us_conrd s)])
          else if ue_nread e \<le> 0 then
            (s\<lparr>us_conrd := -1, us_conwr := -1\<rparr>, 1, [ReadByte (us_conrd s), CloseFd (us_conrd s)])
          else (s, 1, [ReadByte (us_conrd s)])
        else (s, 1, [])
      else if us_tx_baudcounter s \<le> 0 then
        let s = uart_tx_shift s in (s, uart_line s, [])
      else
        let s = s\<lparr>us_tx_baudcounter := us_tx_baudcounter s - 1\<rparr> in (s, uart_line s, []))"

definition uart_nettick :: "uart_env \<Rightarrow> int \<Rightarrow> uartsim \<Rightarrow> uartsim \<times> int \<times> uart_act list" where
  "uart_nettick e i_tx s =
     (case uart_check_connections e s of (s, a) \<Rightarrow>
      case uart_rx net_failed e i_tx (uart_edge i_tx s) of (s, b) \<Rightarrow>
      case net_tx e s of (s, o_rx, c) \<Rightarrow> (s, o_rx, a @ b @ c))"

text \<open>Over a pair of ordinary descriptors.\<close>

definition fd_failed :: "uartsim \<Rightarrow> uartsim \<times> uart_act list" where
  "fd_failed s = (s\<lparr>us_conrd := -1, us_conwr := -1\<rparr>, [])"

definition fd_tx :: "uart_env \<Rightarrow> uartsim \<Rightarrow> uartsim \<times> int \<times> uart_act list" where
  "fd_tx e s =
     (if \<not> us_tx_busy_state s \<and> 0 \<le> us_conrd s then
        if ue_readable e then
          if ue_nread e = 1 then (uart_tx_start (ue_byte e) s, 0, [ReadByte (us_conrd s)])
          else if ue_nread e < 0 then (s\<lparr>us_conrd := -1\<rparr>, 1, [ReadByte (us_conrd s)])
          else (s, 1, [ReadByte (us_conrd s)])
        else (s, 1, [])
      else if us_tx_baudcounter s = 0 then
        let s = uart_tx_shift s in (s, uart_line s, [])
      else
        let s = s\<lparr>us_tx_baudcounter := us_tx_baudcounter s - 1\<rparr> in (s, uart_line s, []))"

definition uart_fdtick :: "uart_env \<Rightarrow> int \<Rightarrow> uartsim \<Rightarrow> uartsim \<times> int \<times> uart_act list" where
  "uart_fdtick e i_tx s =
     (case uart_rx fd_failed e i_tx (uart_edge i_tx s) of (s, b) \<Rightarrow>
      case fd_tx e s of (s, o_rx, c) \<Rightarrow> (s, o_rx, b @ c))"

definition uart_tick :: "uart_env \<Rightarrow> int \<Rightarrow> uartsim \<Rightarrow> uartsim \<times> int \<times> uart_act list" where
  "uart_tick e i_tx s = (if 0 \<le> us_skt s then uart_nettick e i_tx s else uart_fdtick e i_tx s)"

definition uart_tick_setup :: "uart_env \<Rightarrow> int \<Rightarrow> u32 \<Rightarrow> uartsim \<Rightarrow> uartsim \<times> int \<times> uart_act list" where
  "uart_tick_setup e i_tx isetup s = uart_tick e i_tx (uart_setup isetup s)"

end
