(* ===== verification/UartProps.thy ===== *)
theory UartProps
  imports UartSim
begin

text \<open>
  The serial line: a byte that one end reads from its descriptor is written by the other end to
  its own, whatever the baud rate, the parity and the number of stop bits; and what happens to
  descriptors and to the line when a connection ends.
\<close>

subsection \<open>Two ends of a line\<close>

definition uart_link ::
    "uartsim \<times> uartsim \<Rightarrow> uart_env \<times> uart_env \<Rightarrow> ((uartsim \<times> uartsim) \<times> uart_act list) res" where
  "uart_link st env =
     (case st of (a, b) \<Rightarrow> case env of (ea, eb) \<Rightarrow>
      case uart_tick ea 1 a of (a', line, _) \<Rightarrow>
      case uart_tick eb line b of (b', _, acts) \<Rightarrow> Inr ((a', b'), acts))"

text \<open>Both ends are set to 8 data bits and \<open>n\<close> bits in all, with \<open>baud\<close> clocks for each.\<close>

definition uart_set :: "nat \<Rightarrow> nat \<Rightarrow> uartsim \<Rightarrow> bool" where
  "uart_set baud n s \<longleftrightarrow> 0 < baud \<and> us_baud_counts s = int baud \<and> us_nbits s = 8
     \<and> us_nparity s + us_nstop s + 8 = n \<and> 9 \<le> n \<and> n \<le> 11 \<and> us_nparity s \<le> 1"

subsection \<open>The sender\<close>

definition sending :: "nat \<Rightarrow> nat \<Rightarrow> u32 \<Rightarrow> nat \<Rightarrow> uartsim \<Rightarrow> bool" where
  "sending baud n d t s \<longleftrightarrow> uart_set baud n s \<and> \<not> us_rx_busy_state s \<and> us_tx_busy_state s
     \<and> 0 \<le> us_conrd s \<and> t < (n + 1) * baud
     \<and> us_tx_data s = drop_bit (t div baud) d
     \<and> us_tx_busy s = 2 ^ (n + 1 - t div baud) - 1
     \<and> us_tx_baudcounter s = int baud - 1 - int (t mod baud)"

definition line_bit :: "u32 \<Rightarrow> nat \<Rightarrow> int" where
  "line_bit d k = (if bit d k then 1 else 0)"

lemma uart_line_bit: "us_tx_data s = drop_bit k d \<Longrightarrow> uart_line s = line_bit d k"
proof -
  assume "us_tx_data s = drop_bit k d"
  then have "uart_line s = uint (drop_bit k d AND 1)" by (simp add: uart_line_def)
  moreover have "drop_bit k d AND 1 = (if bit d k then 1 else 0)"
  proof (rule bit_word_eqI)
    fix j assume "j < LENGTH(32)"
    then show "bit (drop_bit k d AND 1) j = bit (if bit d k then 1 else 0 :: u32) j"
      by (cases j) (auto simp: bit_simps bit_1_iff)
  qed
  ultimately show ?thesis by (simp add: line_bit_def)
qed

lemma quiet_rx: "\<not> us_rx_busy_state s \<Longrightarrow> uart_rx f e 1 (uart_edge 1 s) = (uart_edge 1 s, [])"
  by (simp add: uart_rx_def uart_edge_def Let_def)

lemma uart_edge_simps [simp]:
  "us_skt (uart_edge i s) = us_skt s" "us_conrd (uart_edge i s) = us_conrd s"
  "us_conwr (uart_edge i s) = us_conwr s" "us_nparity (uart_edge i s) = us_nparity s"
  "us_fixdp (uart_edge i s) = us_fixdp s" "us_evenp (uart_edge i s) = us_evenp s"
  "us_nbits (uart_edge i s) = us_nbits s" "us_nstop (uart_edge i s) = us_nstop s"
  "us_baud_counts (uart_edge i s) = us_baud_counts s"
  "us_rx_baudcounter (uart_edge i s) = us_rx_baudcounter s"
  "us_rx_busy_state (uart_edge i s) = us_rx_busy_state s" "us_rx_busy (uart_edge i s) = us_rx_busy s"
  "us_tx_baudcounter (uart_edge i s) = us_tx_baudcounter s"
  "us_tx_busy_state (uart_edge i s) = us_tx_busy_state s" "us_tx_busy (uart_edge i s) = us_tx_busy s"
  "us_rx_data (uart_edge i s) = us_rx_data s" "us_tx_data (uart_edge i s) = us_tx_data s"
  by (simp_all add: uart_edge_def Let_def)

text \<open>While a frame is on its way, both kinds of tick do the same to the sender.\<close>

definition tx_step :: "uartsim \<Rightarrow> uartsim" where
  "tx_step s = (if us_tx_baudcounter s \<le> 0 then uart_tx_shift s
     else s\<lparr>us_tx_baudcounter := us_tx_baudcounter s - 1\<rparr>)"

lemma busy_tick:
  assumes "\<not> us_rx_busy_state s" "us_tx_busy_state s" "0 \<le> us_tx_baudcounter s" "0 \<le> us_conrd s"
  shows "\<exists>acts. uart_tick e 1 s = (tx_step (uart_edge 1 s), uart_line (tx_step (uart_edge 1 s)), acts)"
  using assms
  by (simp add: uart_tick_def uart_nettick_def uart_fdtick_def uart_check_connections_def quiet_rx
    net_tx_def fd_tx_def tx_step_def Let_def)

lemma sending_step:
  assumes "sending baud n d t s" "t + 1 < (n + 1) * baud"
  shows "\<exists>s' acts. uart_tick e 1 s = (s', line_bit d ((t + 1) div baud), acts) \<and> sending baud n d (t + 1) s'"
proof -
  let ?s = "uart_edge 1 s" and ?k = "t div baud"
  from assms(1) have b: "0 < baud" by (simp add: sending_def uart_set_def)
  have mod: "t mod baud < baud" using b by simp
  have s: "us_tx_baudcounter s = int baud - 1 - int (t mod baud)" "us_tx_data s = drop_bit ?k d"
    "us_tx_busy s = 2 ^ (n + 1 - ?k) - 1" "us_baud_counts s = int baud"
    using assms(1) by (simp_all add: sending_def uart_set_def)
  have "0 \<le> us_tx_baudcounter s" using mod s(1) by linarith
  with busy_tick [of s e] assms(1) obtain acts where
    tick: "uart_tick e 1 s = (tx_step ?s, uart_line (tx_step ?s), acts)" by (auto simp: sending_def)
  show ?thesis
  proof (cases "t mod baud = baud - 1")
    case True
    then have k: "(t + 1) div baud = ?k + 1" "(t + 1) mod baud = 0"
      using b by (simp_all add: div_Suc mod_Suc)
    have "?k + 1 < n + 1" using assms(2) k(1) b by (metis div_less_iff_less_mult)
    then have pow: "n + 1 - ?k = Suc (n + 1 - (?k + 1))" by simp
    then have half: "us_tx_busy s div 2 = 2 ^ (n + 1 - (?k + 1)) - 1" unfolding s(3) pow by simp
    have "1 < (2::int) ^ (n + 1 - (?k + 1))" using \<open>?k + 1 < n + 1\<close> by (intro one_less_power) simp_all
    then have pos: "(2::int) ^ (n + 1 - (?k + 1)) - 1 \<noteq> 0" by simp
    have zero: "us_tx_baudcounter s \<le> 0" using s(1) True b by simp
    have step: "tx_step ?s = ?s\<lparr>us_tx_data := drop_bit (?k + 1) d, us_tx_busy := 2 ^ (n + 1 - (?k + 1)) - 1,
        us_tx_baudcounter := int baud - 1\<rparr>"
      using zero half pos s(2,4) by (simp add: tx_step_def uart_tx_shift_def Let_def drop_bit_Suc [symmetric])
    then have "sending baud n d (t + 1) (tx_step ?s)"
      using assms b k by (simp add: sending_def uart_set_def)
    moreover have "uart_line (tx_step ?s) = line_bit d (?k + 1)"
      by (rule uart_line_bit) (simp add: step)
    ultimately show ?thesis using tick k(1) by auto
  next
    case False
    then have k: "(t + 1) div baud = ?k" "(t + 1) mod baud = t mod baud + 1"
      using b mod by (simp_all add: div_Suc mod_Suc)
    have "\<not> us_tx_baudcounter s \<le> 0" using s(1) False mod by linarith
    then have step: "tx_step ?s = ?s\<lparr>us_tx_baudcounter := int baud - 1 - int (t mod baud) - 1\<rparr>"
      using s(1) by (simp add: tx_step_def)
    then have "sending baud n d (t + 1) (tx_step ?s)"
      using assms b k by (simp add: sending_def uart_set_def)
    moreover have "uart_line (tx_step ?s) = line_bit d ?k"
      by (rule uart_line_bit) (simp add: step s(2))
    ultimately show ?thesis using tick k(1) by auto
  qed
qed


text \<open>The frame of a byte: a start bit, the byte, the parity if there is one, and ones.\<close>

definition frame_of :: "u8 \<Rightarrow> uartsim \<Rightarrow> u32" where
  "frame_of c s = us_tx_data (uart_tx_start c s)"

lemma frame_of_bits:
  assumes "us_nbits s = 8" "us_nparity s \<le> 1"
  shows "\<not> bit (frame_of c s) 0" "k < 8 \<Longrightarrow> bit (frame_of c s) (k + 1) = bit c k"
proof -
  have m: "(0x1fe :: u32) = push_bit 1 (mask 8)" by (simp add: mask_eq_exp_minus_1)
  let ?d = "push_bit (us_nbits s + us_nparity s + 1) (-1) OR (push_bit 1 (ucast c) AND 0x1fe) :: u32"
  have data: "bit ?d j \<longleftrightarrow> 1 \<le> j \<and> bit c (j - 1)" if "j < 9" for j
    using that assms unfolding m bit_or_iff bit_push_bit_iff bit_and_iff bit_mask_iff bit_unsigned_iff
    by auto
  have parity: "bit (frame_of c s) j = bit ?d j" if "j < 9" for j
  proof (cases "us_nparity s = 0")
    case True
    then show ?thesis by (simp add: frame_of_def uart_tx_start_def Let_def)
  next
    case False
    then have f: "frame_of c s = ?d OR push_bit (us_nbits s + us_nparity s) (uart_parity s ?d)"
      by (simp add: frame_of_def uart_tx_start_def Let_def)
    show ?thesis unfolding f bit_or_iff [of ?d] bit_push_bit_iff [of _ "uart_parity s ?d"]
      using that assms(1) False by simp
  qed
  show "\<not> bit (frame_of c s) 0" unfolding parity [of 0, simplified] using data [of 0] by simp
  show "k < 8 \<Longrightarrow> bit (frame_of c s) (k + 1) = bit c k"
    using parity [of "k + 1"] data [of "k + 1"] by simp
qed

lemma uart_tx_start_simps [simp]:
  "us_skt (uart_tx_start c s) = us_skt s" "us_conrd (uart_tx_start c s) = us_conrd s"
  "us_nparity (uart_tx_start c s) = us_nparity s" "us_nbits (uart_tx_start c s) = us_nbits s"
  "us_nstop (uart_tx_start c s) = us_nstop s" "us_baud_counts (uart_tx_start c s) = us_baud_counts s"
  "us_rx_busy_state (uart_tx_start c s) = us_rx_busy_state s" "us_tx_busy_state (uart_tx_start c s)"
  "us_tx_busy (uart_tx_start c s) = 2 ^ (us_nbits s + us_nparity s + us_nstop s + 1) - 1"
  "us_tx_baudcounter (uart_tx_start c s) = us_baud_counts s - 1"
  by (simp_all add: uart_tx_start_def Let_def)

text \<open>The tick in which the sender reads a byte.\<close>

lemma sending_start:
  assumes "uart_set baud n s" "\<not> us_rx_busy_state s" "\<not> us_tx_busy_state s" "0 \<le> us_conrd s"
    "ue_readable e" "ue_nread e = 1"
  shows "\<exists>s' acts. uart_tick e 1 s = (s', 0, acts) \<and> sending baud n (frame_of (ue_byte e) s) 0 s'"
proof -
  let ?s = "uart_tx_start (ue_byte e) (uart_edge 1 s)"
  have tick: "\<exists>acts. uart_tick e 1 s = (?s, 0, acts)"
    using assms
    by (simp add: uart_tick_def uart_nettick_def uart_fdtick_def uart_check_connections_def quiet_rx
      net_tx_def fd_tx_def)
  have "us_tx_data ?s = frame_of (ue_byte e) s"
    by (simp add: frame_of_def uart_tx_start_def uart_parity_def Let_def)
  moreover have n: "us_nbits s + us_nparity s + us_nstop s = n" using assms(1) by (auto simp: uart_set_def)
  have "us_tx_busy ?s = 2 ^ (n + 1) - 1" unfolding uart_tx_start_simps uart_edge_simps n ..
  ultimately have "sending baud n (frame_of (ue_byte e) s) 0 ?s"
    using assms by (simp add: sending_def uart_set_def del: uart_tx_start_simps(9))
  with tick show ?thesis by blast
qed


subsection \<open>The receiver\<close>

text \<open>The clock of sample \<open>m\<close>, counted from the clock in which the line fell.\<close>

definition sample_time :: "nat \<Rightarrow> nat \<Rightarrow> nat" where
  "sample_time baud m = baud + baud div 2 + m * baud"

lemma sample_bit: "0 < baud \<Longrightarrow> sample_time baud m div baud = m + 1"
proof -
  assume b: "0 < baud"
  have "sample_time baud m = baud div 2 + (m + 1) * baud" by (simp add: sample_time_def)
  then have "sample_time baud m div baud = (m + 1) + (baud div 2) div baud"
    using div_mult_self1 [of baud "baud div 2" "m + 1"] b by (simp only:)
  moreover have "baud div 2 < baud" using b by simp
  ultimately show ?thesis by simp
qed

definition receiving :: "nat \<Rightarrow> nat \<Rightarrow> u32 \<Rightarrow> nat \<Rightarrow> nat \<Rightarrow> uartsim \<Rightarrow> bool" where
  "receiving baud n d m t s \<longleftrightarrow> uart_set baud n s \<and> us_rx_busy_state s \<and> \<not> us_tx_busy_state s
     \<and> 0 \<le> us_conrd s \<and> 0 \<le> us_conwr s
     \<and> m \<le> n \<and> t < sample_time baud m \<and> (0 < m \<longrightarrow> sample_time baud (m - 1) \<le> t)
     \<and> us_rx_baudcounter s = int (sample_time baud m) - int t - 1
     \<and> us_rx_busy s = 2 ^ m - 1
     \<and> (\<forall>k<m. bit (us_rx_data s) (32 - m + k) = bit d (1 + k))"

lemma quiet_tx:
  assumes "\<not> us_tx_busy_state s" "0 \<le> us_conrd s" "\<not> ue_readable e"
  shows "net_tx e s = (s, 1, [])" "fd_tx e s = (s, 1, [])"
  using assms by (simp_all add: net_tx_def fd_tx_def)

text \<open>A tick of the receiver that does not end a frame, on either kind of connection.\<close>

lemma receiver_tick:
  assumes "\<not> us_tx_busy_state s" "0 \<le> us_conrd s" "\<not> ue_readable e"
    "\<And>f. uart_rx f e i (uart_edge i s) = (s', [])" "\<not> us_tx_busy_state s'" "0 \<le> us_conrd s'"
  shows "uart_tick e i s = (s', 1, [])"
  using assms by (simp add: uart_tick_def uart_nettick_def uart_fdtick_def uart_check_connections_def quiet_tx)

lemma receiving_start:
  assumes "uart_set baud n s" "\<not> us_rx_busy_state s" "\<not> us_tx_busy_state s" "0 \<le> us_conrd s" "0 \<le> us_conwr s"
    "us_last_tx s \<noteq> 0" "\<not> ue_readable e"
  shows "\<exists>s'. uart_tick e 0 s = (s', 1, []) \<and> receiving baud n d 0 0 s' \<and> us_conwr s' = us_conwr s"
proof -
  let ?s = "uart_rx_start (uart_edge 0 s)"
  have "us_rx_changectr (uart_edge 0 s) = 0" using assms(6) by (simp add: uart_edge_def)
  then have "receiving baud n d 0 0 ?s"
    using assms by (simp add: receiving_def uart_set_def uart_rx_start_def sample_time_def zdiv_int)
  moreover have "uart_tick e 0 s = (?s, 1, [])"
    using assms by (intro receiver_tick) (simp_all add: uart_rx_def, simp_all add: uart_rx_start_def)
  ultimately show ?thesis by (auto simp: uart_rx_start_def)
qed

lemma receiving_wait:
  assumes "receiving baud n d m t s" "t + 1 < sample_time baud m" "\<not> ue_readable e"
  shows "\<exists>s'. uart_tick e i s = (s', 1, []) \<and> receiving baud n d m (t + 1) s' \<and> us_conwr s' = us_conwr s"
proof -
  let ?s = "(uart_edge i s)\<lparr>us_rx_baudcounter := us_rx_baudcounter s - 1\<rparr>"
  have "\<not> us_rx_baudcounter s \<le> 0" using assms(1,2) by (simp add: receiving_def)
  then have "uart_tick e i s = (?s, 1, [])"
    using assms by (intro receiver_tick) (simp_all add: uart_rx_def receiving_def)
  moreover have "receiving baud n d m (t + 1) ?s"
    using assms by (auto simp: receiving_def uart_set_def)
  ultimately show ?thesis by auto
qed

lemma sampled_bits:
  "bit (push_bit 31 (x AND 1) OR drop_bit 1 w) 31 = bit (x :: u32) 0"
  "j < 31 \<Longrightarrow> bit (push_bit 31 (x AND 1) OR drop_bit 1 w) j = bit (w :: u32) (j + 1)"
  unfolding bit_or_iff bit_push_bit_iff bit_and_iff bit_1_iff bit_drop_bit_eq comp_def
  using u32_bit_beyond [of "Suc 31" w] by auto

lemma receiving_sample:
  assumes "receiving baud n d m t s" "t + 1 = sample_time baud m" "\<not> ue_readable e" "m < n"
    "i = line_bit d (m + 1)"
  shows "\<exists>s'. uart_tick e i s = (s', 1, []) \<and> receiving baud n d (m + 1) (t + 1) s' \<and> us_conwr s' = us_conwr s"
proof -
  let ?s = "(uart_rx_sample i (uart_edge i s))\<lparr>us_rx_baudcounter := int baud - 1\<rparr>"
  have r: "uart_set baud n s" "us_rx_busy s = 2 ^ m - 1" "us_rx_baudcounter s = 0"
    "\<And>k. k < m \<Longrightarrow> bit (us_rx_data s) (32 - m + k) = bit d (1 + k)"
    using assms(1,2) by (simp_all add: receiving_def)
  have n: "uart_rx_frame (uart_edge i s) = n" using r(1) by (auto simp: uart_rx_frame_def uart_set_def)
  have "(2::int) ^ m \<le> 2 ^ (n - 1)" using assms(4) by (intro power_increasing) auto
  then have more: "\<not> 2 ^ (n - 1) \<le> us_rx_busy s" using r(2) by simp
  have "uart_tick e i s = (?s, 1, [])"
    using assms(1,3) r(1,3) more
    by (intro receiver_tick)
      (simp_all add: uart_rx_def receiving_def n uart_set_def, simp_all add: uart_rx_sample_def)
  moreover have "receiving baud n d (m + 1) (t + 1) ?s"
  proof -
    have "m < 32" using assms(4) r(1) by (auto simp: uart_set_def)
    have "bit (push_bit 31 (of_int i AND 1) OR drop_bit 1 (us_rx_data s)) (32 - (m + 1) + k) = bit d (1 + k)"
      if "k < m + 1" for k
    proof (cases "k = m")
      case True
      then have e: "32 - (m + 1) + k = 31" using \<open>m < 32\<close> by simp
      show ?thesis unfolding e sampled_bits(1) using True by (simp add: assms(5) line_bit_def)
    next
      case False
      with that have "k < m" by simp
      then have low: "32 - (m + 1) + k < 31" and up: "32 - (m + 1) + k + 1 = 32 - m + k"
        using \<open>m < 32\<close> by auto
      show ?thesis unfolding sampled_bits(2) [OF low] up by (rule r(4) [OF \<open>k < m\<close>])
    qed
    then show ?thesis
      using assms(1,2,4) r by (auto simp: receiving_def uart_set_def uart_rx_sample_def sample_time_def)
  qed
  ultimately show ?thesis by (auto simp: uart_rx_sample_def)
qed


lemma receiving_end:
  assumes "receiving baud n d n t s" "t + 1 = sample_time baud n" "\<not> ue_readable e" "ue_nwritten e = 1"
    "\<And>k. k < 8 \<Longrightarrow> bit d (k + 1) = bit c k"
  shows "\<exists>s'. uart_tick e i s = (s', 1, [SendByte (us_conwr s) c])"
proof -
  have r: "uart_set baud n s" "us_rx_busy s = 2 ^ n - 1" "us_rx_baudcounter s = 0"
    "\<And>k. k < n \<Longrightarrow> bit (us_rx_data s) (32 - n + k) = bit d (1 + k)"
    using assms(1,2) by (simp_all add: receiving_def)
  have n: "uart_rx_frame (uart_edge i s) = n" "9 \<le> n" "n \<le> 11"
    "32 - us_nbits s - us_nstop s - us_nparity s = 32 - n"
    using r(1) by (auto simp: uart_rx_frame_def uart_set_def)
  have "(2::int) ^ (n - 1) < 2 ^ n" using n(2) by (intro power_strict_increasing) auto
  then have full: "2 ^ (n - 1) \<le> us_rx_busy s" using r(2) by simp
  have byte: "uart_rx_byte s = c"
  proof (rule bit_word_eqI)
    fix k assume "k < LENGTH(8)"
    then have k: "k < 8" by simp
    have "bit (uart_rx_byte s) k = bit (us_rx_data s) (32 - n + k)"
      unfolding uart_rx_byte_def n(4) ff_mask bit_ucast_iff bit_and_iff bit_mask_iff bit_drop_bit_eq comp_def
      using k n(2,3) by simp
    with r(4) [of k] assms(5) [OF k] k n(2) show "bit (uart_rx_byte s) k = bit c k" by simp
  qed
  have "uart_rx_byte ((uart_edge i s)\<lparr>us_rx_busy_state := False\<rparr>) = uart_rx_byte s"
    by (simp add: uart_rx_byte_def)
  with byte assms(1,3,4) full r(3) n(1) show ?thesis
    by (simp add: uart_tick_def uart_nettick_def uart_fdtick_def uart_check_connections_def quiet_tx
      uart_rx_def uart_rx_end_def receiving_def Let_def)
qed

subsection \<open>A byte from end to end\<close>

text \<open>From the clock after the line has fallen to the last clock of the frame's last bit.\<close>

lemma link_frame:
  assumes "sending baud n d t a" "receiving baud n d m t b"
    "length envs + t < (n + 1) * baud" "list_all (\<lambda>(ea, eb). \<not> ue_readable eb) envs"
  shows "\<exists>a' b' m' outs. run_machine uart_link (a, b) envs = Inr ((a', b'), outs) \<and> concat outs = []
    \<and> sending baud n d (t + length envs) a' \<and> receiving baud n d m' (t + length envs) b'
    \<and> us_conwr b' = us_conwr b"
  using assms
proof (induction envs arbitrary: a b t m)
  case (Cons env envs)
  obtain ea eb where env: "env = (ea, eb)" by (cases env)
  have b: "0 < baud" using Cons.prems(1) by (simp add: sending_def uart_set_def)
  from sending_step [OF Cons.prems(1), of ea] Cons.prems(3) obtain a1 aa where
    a1: "uart_tick ea 1 a = (a1, line_bit d ((t + 1) div baud), aa)" "sending baud n d (t + 1) a1" by auto
  have quiet: "\<not> ue_readable eb" using Cons.prems(4) env by simp
  have r: "m \<le> n" "t < sample_time baud m" using Cons.prems(2) by (simp_all add: receiving_def)
  obtain b1 m1 where b1: "uart_tick eb (line_bit d ((t + 1) div baud)) b = (b1, 1, [])"
      "receiving baud n d m1 (t + 1) b1" "us_conwr b1 = us_conwr b"
  proof (cases "t + 1 < sample_time baud m")
    case True
    with receiving_wait [OF Cons.prems(2) _ quiet] that show ?thesis by blast
  next
    case False
    with r(2) have eq: "t + 1 = sample_time baud m" by simp
    have "m < n"
    proof (rule ccontr)
      assume "\<not> m < n"
      with r(1) have "m = n" by simp
      with eq Cons.prems(3) show False by (simp add: sample_time_def)
    qed
    with receiving_sample [OF Cons.prems(2) eq quiet] sample_bit [OF b, of m] that eq show ?thesis
      by (metis add.commute)
  qed
  from Cons.IH [OF a1(2) b1(2)] Cons.prems(3,4) obtain a' b' m' outs where
    "run_machine uart_link (a1, b1) envs = Inr ((a', b'), outs)" "concat outs = []"
    "sending baud n d (t + 1 + length envs) a'" "receiving baud n d m' (t + 1 + length envs) b'"
    "us_conwr b' = us_conwr b1" by auto
  moreover have "uart_link (a, b) env = Inr ((a1, b1), [])"
    using a1(1) b1(1) by (simp add: uart_link_def env)
  ultimately show ?case using b1(3) by auto
qed auto


text \<open>What the sender does after its frame is no matter.\<close>

definition quiet_env :: "uart_env \<times> uart_env \<Rightarrow> bool" where
  "quiet_env env \<longleftrightarrow> \<not> ue_readable (snd env) \<and> ue_nwritten (snd env) = 1"

lemma link_tail:
  assumes "receiving baud n d n t b" "t + length envs = sample_time baud n" "list_all quiet_env envs"
    "\<And>k. k < 8 \<Longrightarrow> bit d (k + 1) = bit c k"
  shows "\<exists>st outs. run_machine uart_link (a, b) envs = Inr (st, outs) \<and> concat outs = [SendByte (us_conwr b) c]"
  using assms(1-3)
proof (induction envs arbitrary: a b t)
  case Nil
  then show ?case by (simp add: receiving_def)
next
  case (Cons env envs)
  obtain ea eb where env: "env = (ea, eb)" by (cases env)
  obtain a1 line aa where a1: "uart_tick ea 1 a = (a1, line, aa)" by (cases "uart_tick ea 1 a")
  have quiet: "\<not> ue_readable eb" "ue_nwritten eb = 1" using Cons.prems(3) env by (simp_all add: quiet_env_def)
  show ?case
  proof (cases envs)
    case Nil
    then have "t + 1 = sample_time baud n" using Cons.prems(2) by simp
    from receiving_end [OF Cons.prems(1) this quiet assms(4)] obtain b1 where
      "uart_tick eb line b = (b1, 1, [SendByte (us_conwr b) c])" by blast
    with a1 show ?thesis by (simp add: Nil env uart_link_def)
  next
    case tail: (Cons env' envs')
    then have "t + 1 < sample_time baud n" using Cons.prems(2) by simp
    from receiving_wait [OF Cons.prems(1) this quiet(1)] obtain b1 where b1: "uart_tick eb line b = (b1, 1, [])"
      "receiving baud n d n (t + 1) b1" "us_conwr b1 = us_conwr b" by blast
    from Cons.IH [OF b1(2), of a1] Cons.prems(2,3) obtain st outs where
      "run_machine uart_link (a1, b1) envs = Inr (st, outs)" "concat outs = [SendByte (us_conwr b1) c]" by auto
    moreover have "uart_link (a, b) env = Inr ((a1, b1), [])" using a1 b1(1) by (simp add: uart_link_def env)
    ultimately show ?thesis using b1(3) by auto
  qed
qed

text \<open>C14. A byte that one end of the line reads from its descriptor is the byte the other end writes
  to its own, exactly once, at every baud rate, with or without parity of either kind and with
  one or two stop bits, and whatever the sender does next.\<close>

theorem uart_byte_round_trip:
  assumes "uart_set baud n a" "\<not> us_rx_busy_state a" "\<not> us_tx_busy_state a" "0 \<le> us_conrd a"
    "uart_set baud n b" "\<not> us_rx_busy_state b" "\<not> us_tx_busy_state b" "0 \<le> us_conrd b" "0 \<le> us_conwr b"
    "us_last_tx b \<noteq> 0"
    "ue_readable ea" "ue_nread ea = 1" "\<not> ue_readable eb"
    "length envs = sample_time baud n" "list_all quiet_env envs"
  shows "\<exists>st outs. run_machine uart_link (a, b) ((ea, eb) # envs) = Inr (st, outs)
    \<and> concat outs = [SendByte (us_conwr b) (ue_byte ea)]"
proof -
  let ?d = "frame_of (ue_byte ea) a" and ?k = "(n + 1) * baud - 1"
  have b: "0 < baud" using assms(1) by (simp add: uart_set_def)
  have bits: "k < 8 \<Longrightarrow> bit ?d (k + 1) = bit (ue_byte ea) k" for k
    using assms(1) by (intro frame_of_bits) (simp_all add: uart_set_def)
  from sending_start [OF assms(1-4,11,12)] obtain a1 aa where a1: "uart_tick ea 1 a = (a1, 0, aa)"
    "sending baud n ?d 0 a1" by blast
  from receiving_start [OF assms(5-10,13), of ?d] obtain b1 where b1: "uart_tick eb 0 b = (b1, 1, [])"
    "receiving baud n ?d 0 0 b1" "us_conwr b1 = us_conwr b" by blast
  have time: "sample_time baud n = (n + 1) * baud + baud div 2" by (simp add: sample_time_def)
  then have k: "?k < sample_time baud n" "?k + 1 = (n + 1) * baud" "?k < (n + 1) * baud" using b by simp_all
  have len: "length (take ?k envs) = ?k" using assms(14) k(1) by simp
  have "list_all (\<lambda>(ea, eb). \<not> ue_readable eb) (take ?k envs)"
    using assms(15) by (fastforce simp: list_all_iff quiet_env_def dest: in_set_takeD)
  with link_frame [OF a1(2) b1(2), of "take ?k envs"] len k(3) obtain a2 b2 m outs where
    r1: "run_machine uart_link (a1, b1) (take ?k envs) = Inr ((a2, b2), outs)" "concat outs = []"
      "receiving baud n ?d m ?k b2" "us_conwr b2 = us_conwr b1" by auto
  have "m = n"
  proof (rule ccontr)
    assume "m \<noteq> n"
    then have "m + 1 \<le> n" using r1(3) by (simp add: receiving_def)
    then have "(m + 1) * baud \<le> n * baud" by (rule mult_le_mono1)
    then have "sample_time baud m \<le> n * baud + baud div 2" by (simp add: sample_time_def)
    also have "\<dots> \<le> ?k" using b by simp
    finally show False using r1(3) by (simp add: receiving_def)
  qed
  have "?k + length (drop ?k envs) = sample_time baud n" using assms(14) k(1) by simp
  moreover have "list_all quiet_env (drop ?k envs)" using assms(15) by (auto simp: list_all_iff dest: in_set_dropD)
  ultimately obtain st outs' where r2: "run_machine uart_link (a2, b2) (drop ?k envs) = Inr (st, outs')"
      "concat outs' = [SendByte (us_conwr b2) (ue_byte ea)]"
    using link_tail [OF r1(3) [unfolded \<open>m = n\<close>] _ _ bits, of "drop ?k envs" a2] by blast
  have "run_machine uart_link (a1, b1) envs = Inr (st, outs @ outs')"
    using run_machine_append [of uart_link "(a1, b1)" "take ?k envs" "drop ?k envs"] r1(1) r2(1) by simp
  moreover have "uart_link (a, b) (ea, eb) = Inr ((a1, b1), [])" using a1(1) b1(1) by (simp add: uart_link_def)
  ultimately show ?thesis using r1(2,4) r2(2) b1(3) by auto
qed


subsection \<open>Ends of connections\<close>

text \<open>Killing an object that was made for the console closes the standard input, which the code
  means to keep open: it forgets the wrong descriptor.\<close>

theorem uart_kill_closes_stdin: "snd (uart_kill (uartsim_new g listener 0)) = [CloseFd 0]"
  by (simp add: uart_kill_def uartsim_new_def uart_setup_def Let_def)

text \<open>An end without a connection and with nothing to send.\<close>

definition uart_dead :: "uartsim \<Rightarrow> bool" where
  "uart_dead s \<longleftrightarrow> us_skt s < 0 \<and> us_conrd s < 0 \<and> \<not> us_rx_busy_state s \<and> \<not> us_tx_busy_state s
     \<and> us_tx_baudcounter s = 0 \<and> us_tx_busy s = 0"

definition uart_step :: "uartsim \<Rightarrow> uart_env \<Rightarrow> (uartsim \<times> int) res" where
  "uart_step s e = (case uart_tick e 1 s of (s', line, _) \<Rightarrow> Inr (s', line))"

lemma dead_tick:
  assumes "uart_dead s"
  shows "\<exists>s'. uart_step s e = Inr (s', line_bit (us_tx_data s) 1) \<and> uart_dead s'
    \<and> us_tx_data s' = drop_bit 1 (us_tx_data s)"
proof -
  let ?s = "(uart_edge 1 s)\<lparr>us_tx_data := drop_bit 1 (us_tx_data s), us_tx_busy := 0, us_tx_busy_state := False\<rparr>"
  have "uart_tick e 1 s = (?s, uart_line ?s, [])"
    using assms by (simp add: uart_dead_def uart_tick_def uart_fdtick_def quiet_rx fd_tx_def uart_tx_shift_def Let_def)
  moreover have "uart_line ?s = line_bit (us_tx_data s) 1" by (rule uart_line_bit) simp
  ultimately show ?thesis using assms by (simp add: uart_step_def uart_dead_def)
qed

lemma dead_run:
  "uart_dead s \<Longrightarrow> \<exists>s'. run_machine uart_step s envs =
     Inr (s', map (\<lambda>j. line_bit (us_tx_data s) (Suc j)) [0..<length envs])"
proof (induction envs arbitrary: s)
  case (Cons e envs)
  from dead_tick [OF Cons.prems, of e] obtain t where t: "uart_step s e = Inr (t, line_bit (us_tx_data s) 1)"
    "uart_dead t" "us_tx_data t = drop_bit 1 (us_tx_data s)" by blast
  have shift: "line_bit (drop_bit 1 w) k = line_bit w (Suc k)" for w k by (simp add: line_bit_def bit_drop_bit_eq)
  have "[0..<length (e # envs)] = 0 # map Suc [0..<length envs]" by (simp add: map_Suc_upt upt_conv_Cons del: upt_Suc)
  with Cons.IH [OF t(2)] t(1) show ?case unfolding t(3) shift by (auto simp: comp_def)
qed simp

text \<open>An end that has lost its connection without a listening socket, as after \<open>kill\<close> or a failed
  read, does not leave its line idle: after at most 31 clocks it holds the line low for good.\<close>

theorem uart_dead_line_goes_low:
  assumes "uart_dead s" "31 \<le> k" "k < length envs"
  shows "\<exists>s' outs. run_machine uart_step s envs = Inr (s', outs) \<and> outs ! k = 0"
  using dead_run [OF assms(1), of envs] assms(2,3) u32_bit_beyond [of "Suc k" "us_tx_data s"]
  by (auto simp: line_bit_def)

subsection \<open>Witnesses\<close>

definition console_end :: uartsim where
  "console_end = uart_setup 5 (uartsim_new \<lparr>us_skt = 0, us_conrd = 0, us_conwr = 0, us_setup = 0, us_nparity = 0,
     us_fixdp = False, us_evenp = False, us_nbits = 0, us_nstop = 0, us_baud_counts = 0, us_rx_baudcounter = 0,
     us_rx_busy_state = False, us_rx_busy = 0, us_rx_changectr = 0, us_last_tx = 1, us_tx_baudcounter = 0,
     us_tx_busy_state = False, us_tx_busy = 0, us_rx_data = 0, us_tx_data = 0\<rparr> 0 0)"

definition env_with :: "bool \<Rightarrow> u8 \<Rightarrow> uart_env" where
  "env_with readable c = \<lparr>ue_accept_ready = False, ue_accept = 0, ue_readable = readable, ue_nread = 1, ue_byte = c,
     ue_nwritten = 1\<rparr>"

lemma console_end_simps:
  "uart_set 5 9 console_end" "\<not> us_rx_busy_state console_end" "\<not> us_tx_busy_state console_end"
  "us_conrd console_end = 0" "us_conwr console_end = 1" "us_last_tx console_end = 1"
  by (simp_all add: console_end_def uart_set_def uart_setup_def uartsim_new_def Let_def)

theorem uart_byte_round_trip_witness:
  "\<exists>st outs. run_machine uart_link (console_end, console_end)
      ((env_with True 0xa5, env_with False 0) # replicate 52 (env_with False 0, env_with False 0)) = Inr (st, outs)
    \<and> concat outs = [SendByte 1 0xa5]"
proof -
  have "list_all quiet_env (replicate 52 (env_with False 0, env_with False 0))"
    by (simp add: list_all_length quiet_env_def env_with_def)
  moreover have "length (replicate 52 (env_with False 0, env_with False 0)) = sample_time 5 9"
    by (simp add: sample_time_def)
  ultimately show ?thesis
    using uart_byte_round_trip [of 5 9 console_end console_end "env_with True 0xa5" "env_with False 0"
      "replicate 52 (env_with False 0, env_with False 0)"] console_end_simps
    by (simp add: env_with_def del: run_machine.simps)
qed

theorem uart_dead_line_goes_low_witness:
  "\<exists>s' outs. run_machine uart_step (fst (uart_kill console_end)) (replicate 40 (env_with False 0)) = Inr (s', outs)
     \<and> outs ! 35 = 0"
proof -
  have "uart_dead (fst (uart_kill console_end))"
    by (simp add: uart_dead_def uart_kill_def console_end_def uart_setup_def uartsim_new_def Let_def)
  from uart_dead_line_goes_low [OF this, of 35 "replicate 40 (env_with False 0)"] show ?thesis by simp
qed

end
