(* ===== verification/PPortSim.thy ===== *)
theory PPortSim
  imports Prelude
begin

text \<open>
  \<open>sim/verilated/pportsim.cpp\<close> and \<open>pportsim.h\<close>: the host side of a parallel port, with one network
  connection for commands and one for a console. Bytes of the command connection travel with
  bit 7 set. What the operating system answers during a call is an argument, what it is asked to
  do is returned; polls that fail are left out, as are the calls that open the sockets.
\<close>

subsection \<open>State, environment and effects\<close>

definition PPORTSIMBUFLEN :: nat where "PPORTSIMBUFLEN = 256"
definition PP_DELAY :: nat where "PP_DELAY = 5"

record pportsim =
  pp_delay :: nat
  pp_skt :: int
  pp_console :: int
  pp_cmd :: int
  pp_con :: int
  pp_conbuf :: "u8 list"
  pp_cmdbuf :: "u8 list"
  pp_rxbuf :: "u8 list"
  pp_cmdline :: "u8 list"
  pp_intransit :: u8
  pp_ilen :: nat
  pp_rxpos :: nat
  pp_cmdpos :: nat
  pp_conpos :: nat
  pp_cllen :: int
  pp_copy :: bool

text \<open>For each descriptor: the connection that waits on it, the bytes that can be read from it (none
  at all at the end of the connection), and the result of a write to it.\<close>

record pp_env =
  pe_accept :: "int \<Rightarrow> int option"
  pe_recv :: "int \<Rightarrow> u8 list option"
  pe_send :: "int \<Rightarrow> u8 list \<Rightarrow> int"

datatype pp_act = PSend int "u8 list" | PClose int

text \<open>The constructor leaves the buffers and \<open>m_cllen\<close> as the storage \<open>g\<close> had them.\<close>

definition pportsim_new :: "pportsim \<Rightarrow> int \<Rightarrow> int \<Rightarrow> bool \<Rightarrow> pportsim" where
  "pportsim_new g skt console copy =
     g\<lparr>pp_copy := copy, pp_con := -1, pp_cmd := -1, pp_skt := skt, pp_console := console, pp_rxpos := 0,
       pp_cmdpos := 0, pp_conpos := 0, pp_ilen := 0, pp_intransit := 0xff, pp_delay := PP_DELAY\<rparr>"

definition pport_kill :: "pportsim \<Rightarrow> pportsim \<times> pp_act list" where
  "pport_kill s =
     (s\<lparr>pp_con := -1, pp_skt := -1, pp_console := -1, pp_cmd := -1\<rparr>,
      map PClose (filter (\<lambda>fd. 0 \<le> fd) [pp_con s, pp_skt s, pp_console s, pp_cmd s]))"

definition pport_poll_accept :: "pp_env \<Rightarrow> pportsim \<Rightarrow> pportsim" where
  "pport_poll_accept e s =
     (let want_con = pp_con s < 0;
          s = (if pp_cmd s < 0 then
                 case pe_accept e (pp_skt s) of Some fd \<Rightarrow> s\<lparr>pp_cmd := fd\<rparr> | None \<Rightarrow> s
               else s)
      in
      if want_con then
        case pe_accept e (pp_console s) of Some fd \<Rightarrow> s\<lparr>pp_con := fd\<rparr> | None \<Rightarrow> s
      else s)"

subsection \<open>Bytes from the network\<close>

text \<open>One byte of the command connection: kept for the trace, and marked.\<close>

definition pport_mark_byte :: "nat \<Rightarrow> pportsim \<Rightarrow> pportsim res" where
  "pport_mark_byte k s =
     bindE (aget (pp_rxbuf s) k) (\<lambda>b.
     if pp_cllen s < 0 then Inl OutOfBounds else
     let cl = nat (pp_cllen s) in
     bindE (aset (pp_cmdline s) cl b) (\<lambda>line.
     bindE (if b \<noteq> 13 then
              if b = 10 then bindE (aset line cl 0) (\<lambda>line. Inr (line, 0))
              else Inr (line, cl + 1)
            else Inr (line, cl)) (\<lambda>(line, cl).
     bindE (if 64 \<le> cl then bindE (aset line (cl + 1) 0) (\<lambda>line. Inr (line, 0))
            else Inr (line, cl)) (\<lambda>(line, cl).
     bindE (aset (pp_rxbuf s) k (b OR 0x80)) (\<lambda>rx.
       Inr (s\<lparr>pp_cmdline := line, pp_cllen := int cl, pp_rxbuf := rx\<rparr>))))))"

fun pport_mark :: "nat \<Rightarrow> nat \<Rightarrow> pportsim \<Rightarrow> pportsim res" where
  "pport_mark 0 k s = Inr s"
| "pport_mark (Suc n) k s = bindE (pport_mark_byte k s) (\<lambda>s. pport_mark n (Suc k) s)"

definition pport_end_line :: "pportsim \<Rightarrow> pportsim res" where
  "pport_end_line s =
     (if pp_cllen s < 0 then Inl OutOfBounds
      else bindE (aset (pp_cmdline s) (nat (pp_cllen s)) 0) (\<lambda>line. Inr (s\<lparr>pp_cmdline := line\<rparr>)))"

text \<open>What one descriptor delivers is put behind the bytes that wait.\<close>

definition pport_keep :: "int \<Rightarrow> u8 list \<Rightarrow> pportsim \<Rightarrow> pportsim res" where
  "pport_keep fd bytes s =
     bindE (put_bytes (pp_ilen s) bytes (pp_rxbuf s)) (\<lambda>rx.
     let s = s\<lparr>pp_rxbuf := rx\<rparr> in
     if fd = pp_cmd s then
       bindE (pport_mark (length bytes) (pp_ilen s) s) (\<lambda>s.
       bindE (pport_end_line s) (\<lambda>s.
         Inr (if bytes = [] then s\<lparr>pp_cllen := 0\<rparr> else s)))
     else Inr s)"

text \<open>The descriptors in turn; a full buffer ends the loop.\<close>

fun pport_read_loop :: "pp_env \<Rightarrow> int list \<Rightarrow> pportsim \<Rightarrow> (pportsim \<times> pp_act list) res" where
  "pport_read_loop e [] s = Inr (s, [])"
| "pport_read_loop e (fd # fds) s =
     (case pe_recv e fd of
        None \<Rightarrow> pport_read_loop e fds s
      | Some bytes \<Rightarrow>
          let bytes = take (PPORTSIMBUFLEN - pp_ilen s) bytes; nr = length bytes in
          bindE (pport_keep fd bytes s) (\<lambda>s.
          if 0 < nr then
            let s = s\<lparr>pp_ilen := pp_ilen s + nr\<rparr> in
            if pp_ilen s = PPORTSIMBUFLEN then Inr (s, []) else pport_read_loop e fds s
          else
            let s = (if fd = pp_cmd s then s\<lparr>pp_cmd := -1\<rparr> else s\<lparr>pp_con := -1\<rparr>) in
            bindE (pport_read_loop e fds s) (\<lambda>(s, acts). Inr (s, PClose fd # acts))))"

definition pport_poll_read :: "pp_env \<Rightarrow> pportsim \<Rightarrow> (pportsim \<times> pp_act list) res" where
  "pport_poll_read e s =
     (let fds = filter (\<lambda>fd. 0 \<le> fd) [pp_cmd s, pp_con s] in
      if list_all (\<lambda>fd. pe_recv e fd = None) fds then Inr (s, [])
      else bindE (pport_read_loop e fds s) (\<lambda>(s, acts). Inr (s\<lparr>pp_rxpos := 0\<rparr>, acts)))"

definition pport_next :: "pp_env \<Rightarrow> pportsim \<Rightarrow> (pportsim \<times> u8 option \<times> pp_act list) res" where
  "pport_next e s =
     bindE (if pp_ilen s = 0 then pport_poll_read e s else Inr (s, [])) (\<lambda>(s, acts).
     if pp_ilen s = 0 then Inr (s, None, acts)
     else
       bindE (aget (pp_rxbuf s) (pp_rxpos s)) (\<lambda>b.
         Inr (s\<lparr>pp_rxpos := pp_rxpos s + 1, pp_ilen := pp_ilen s - 1\<rparr>, Some b, acts)))"

subsection \<open>Bytes from the port\<close>

text \<open>A line, or a buffer that is full, is sent to its connection and forgotten.\<close>

definition pport_flush_cmd :: "pp_env \<Rightarrow> pportsim \<Rightarrow> (pportsim \<times> pp_act list) res" where
  "pport_flush_cmd e s =
     (let line = take (pp_cmdpos s) (pp_cmdbuf s);
          snt = (if 0 \<le> pp_cmd s then pe_send e (pp_cmd s) line else 0);
          acts = (if 0 \<le> pp_cmd s then [PSend (pp_cmd s) line] else [])
               @ (if snt < 0 then [PClose (pp_cmd s)] else []);
          s = (if snt < 0 then s\<lparr>pp_cmd := -1\<rparr> else s)
      in
      bindE (aset (pp_cmdbuf s) (pp_cmdpos s) 0) (\<lambda>buf.
        Inr (s\<lparr>pp_cmdbuf := buf, pp_cmdpos := 0\<rparr>, acts)))"

definition pport_flush_con :: "pp_env \<Rightarrow> pportsim \<Rightarrow> (pportsim \<times> pp_act list) res" where
  "pport_flush_con e s =
     (let line = take (pp_conpos s) (pp_conbuf s);
          snt = (if 0 \<le> pp_con s then pe_send e (pp_con s) line else 0);
          acts = (if 0 \<le> pp_con s then [PSend (pp_con s) line] else [])
               @ (if snt < 0 then [PClose (pp_con s)] else []);
          s = (if snt < 0 then s\<lparr>pp_con := -1\<rparr> else s)
      in
      bindE (aset (pp_conbuf s) (pp_conpos s) 0) (\<lambda>buf.
        Inr (s\<lparr>pp_conbuf := buf, pp_conpos := 0\<rparr>, acts)))"

definition pport_ends :: "nat \<Rightarrow> u8 list \<Rightarrow> bool res" where
  "pport_ends pos buf =
     (if 0 < pos then bindE (aget buf (pos - 1)) (\<lambda>b. Inr (b = 10 \<or> PPORTSIMBUFLEN - 2 \<le> pos))
      else Inr False)"

definition pport_received :: "pp_env \<Rightarrow> u8 \<Rightarrow> pportsim \<Rightarrow> (pportsim \<times> pp_act list) res" where
  "pport_received e ch s =
     bindE (if ch AND 0x80 \<noteq> 0 then
              bindE (aset (pp_cmdbuf s) (pp_cmdpos s) (ch AND 0x7f)) (\<lambda>buf.
                Inr (s\<lparr>pp_cmdbuf := buf, pp_cmdpos := pp_cmdpos s + 1\<rparr>))
            else
              bindE (aset (pp_conbuf s) (pp_conpos s) (ch AND 0x7f)) (\<lambda>buf.
                Inr (s\<lparr>pp_conbuf := buf, pp_conpos := pp_conpos s + 1\<rparr>))) (\<lambda>s.
     bindE (pport_ends (pp_cmdpos s) (pp_cmdbuf s)) (\<lambda>cmd_ends.
     bindE (if cmd_ends then pport_flush_cmd e s else Inr (s, [])) (\<lambda>(s, a).
     bindE (pport_ends (pp_conpos s) (pp_conbuf s)) (\<lambda>con_ends.
     bindE (if con_ends then pport_flush_con e s else Inr (s, [])) (\<lambda>(s, b). Inr (s, a @ b))))))"

subsection \<open>One clock\<close>

text \<open>The pins: the clock and the direction, which the call may change, the data, and the clock that
  the board feeds back. The bytes of \<open>m_intransit_data\<close> are signed.\<close>

record pp_pins =
  pp_clk :: int
  pp_dir :: int
  pp_data :: int
  pp_clkfb :: int

definition PP_TO_FPGA :: int where "PP_TO_FPGA = 1"
definition PP_FROM_FPGA :: int where "PP_FROM_FPGA = 0"

definition pport_apply ::
    "pp_env \<Rightarrow> pp_pins \<Rightarrow> pportsim \<Rightarrow> (pportsim \<times> int \<times> int \<times> int \<times> pp_act list) res" where
  "pport_apply e p s =
     (let r = (if pp_dir p = PP_TO_FPGA then sint (pp_intransit s) else pp_data p) in
      if 0 < pp_delay s then Inr (s\<lparr>pp_delay := pp_delay s - 1\<rparr>, pp_clk p, pp_dir p, r, [])
      else if pp_clk p \<noteq> pp_clkfb p then Inr (s\<lparr>pp_delay := PP_DELAY\<rparr>, pp_clk p, pp_dir p, r, [])
      else if pp_clk p \<noteq> 0 then
        bindE (if pp_dir p = PP_FROM_FPGA \<and> pp_data p \<noteq> 0xff then pport_received e (of_int (pp_data p)) s
               else Inr (s, [])) (\<lambda>(s, acts).
          Inr (s\<lparr>pp_delay := PP_DELAY\<rparr>, 0, pp_dir p, r, acts))
      else
        bindE (if pp_dir p \<noteq> PP_TO_FPGA then pport_next e s else Inr (s, None, [])) (\<lambda>(s, vl, acts).
          case vl of
            Some b \<Rightarrow>
              let s = s\<lparr>pp_intransit := b, pp_delay := PP_DELAY\<rparr> in
              Inr (s, 1, PP_TO_FPGA, sint (pp_intransit s), acts)
          | None \<Rightarrow>
              let s = pport_poll_accept e s in
              Inr (s\<lparr>pp_delay := PP_DELAY\<rparr>, 1, PP_FROM_FPGA, pp_data p, acts)))"

end
