(* ===== verification/PPortProps.thy ===== *)
theory PPortProps
  imports PPortSim
begin

text \<open>
  The parallel port: no clock leaves a buffer, the clock line waits for the board, and bytes reach
  their connection, and come from it, complete and in order.
\<close>

subsection \<open>Sizes\<close>

definition pp_sizes :: "pportsim \<Rightarrow> bool" where
  "pp_sizes s \<longleftrightarrow> length (pp_conbuf s) = 256 \<and> length (pp_cmdbuf s) = 256 \<and> length (pp_rxbuf s) = 256
     \<and> length (pp_cmdline s) = 256 \<and> 0 \<le> pp_cllen s \<and> pp_cllen s < 64
     \<and> pp_cmdpos s \<le> 253 \<and> pp_conpos s \<le> 253"

definition pport_inv :: "pportsim \<Rightarrow> bool" where
  "pport_inv s \<longleftrightarrow> pp_sizes s \<and> pp_rxpos s + pp_ilen s \<le> 256"

lemma mark_byte_total:
  assumes "pp_sizes s" "k < 256"
  shows "\<exists>line cl. pport_mark_byte k s = Inr (s\<lparr>pp_cmdline := line, pp_cllen := int cl,
      pp_rxbuf := (pp_rxbuf s)[k := pp_rxbuf s ! k OR 0x80]\<rparr>) \<and> length line = 256 \<and> cl < 64"
proof -
  from assms have s: "k < length (pp_rxbuf s)" "\<not> pp_cllen s < 0" "nat (pp_cllen s) < 64"
    "nat (pp_cllen s) < length (pp_cmdline s)" "length (pp_cmdline s) = 256"
    by (auto simp: pp_sizes_def)
  let ?b = "pp_rxbuf s ! k" and ?n = "nat (pp_cllen s)"
  let ?l = "(pp_cmdline s)[?n := ?b]"
  let ?r = "\<lambda>line cl. s\<lparr>pp_cmdline := line, pp_cllen := int cl, pp_rxbuf := (pp_rxbuf s)[k := ?b OR 0x80]\<rparr>"
  have "pport_mark_byte k s = Inr (if ?b = 13 then ?r ?l ?n else if ?b = 10 then ?r (?l[?n := 0]) 0
      else if 64 \<le> ?n + 1 then ?r (?l[?n + 2 := 0]) 0 else ?r ?l (?n + 1))"
    using s by (simp add: pport_mark_byte_def Let_def)
  moreover have "length ?l = 256" "length (?l[?n := 0]) = 256" "length (?l[?n + 2 := 0]) = 256"
    using s by simp_all
  ultimately show ?thesis
  proof -
    assume step: "pport_mark_byte k s = Inr (if ?b = 13 then ?r ?l ?n else if ?b = 10 then ?r (?l[?n := 0]) 0
      else if 64 \<le> ?n + 1 then ?r (?l[?n + 2 := 0]) 0 else ?r ?l (?n + 1))"
      and len: "length ?l = 256" "length (?l[?n := 0]) = 256" "length (?l[?n + 2 := 0]) = 256"
    consider "?b = 13" | "?b \<noteq> 13" "?b = 10" | "?b \<noteq> 13" "?b \<noteq> 10" "64 \<le> ?n + 1"
      | "?b \<noteq> 13" "?b \<noteq> 10" "?n + 1 < 64" by linarith
    then show ?thesis
    proof cases
      case 1
      then show ?thesis unfolding step if_P [OF 1] using len s(3) by blast
    next
      case 2
      then show ?thesis unfolding step if_not_P [OF 2(1)] if_P [OF 2(2)] using len s(3)
        by (intro exI [of _ "?l[?n := 0]"] exI [of _ 0]) simp
    next
      case 3
      then show ?thesis unfolding step if_not_P [OF 3(1)] if_not_P [OF 3(2)] if_P [OF 3(3)] using len s(3)
        by (intro exI [of _ "?l[?n + 2 := 0]"] exI [of _ 0]) simp
    next
      case 4
      then have "\<not> 64 \<le> ?n + 1" by simp
      with 4 show ?thesis unfolding step if_not_P [OF 4(1)] if_not_P [OF 4(2)] if_not_P [OF \<open>\<not> 64 \<le> ?n + 1\<close>] using len
        by blast
    qed
  qed
qed

text \<open>The bytes from \<open>k\<close> on that \<open>pport_mark\<close> marks.\<close>

definition marked :: "nat \<Rightarrow> nat \<Rightarrow> u8 list \<Rightarrow> u8 list" where
  "marked n k buf = take k buf @ map (\<lambda>b. b OR 0x80) (take n (drop k buf)) @ drop (k + n) buf"

lemma marked_Suc: "k < length buf \<Longrightarrow> marked n (Suc k) (buf[k := buf ! k OR 0x80]) = marked (Suc n) k buf"
  by (simp add: marked_def take_Suc_conv_app_nth Cons_nth_drop_Suc [symmetric])

lemma marked_length: "length (marked n k buf) = length buf"
  by (simp add: marked_def)

lemma mark_total:
  "pp_sizes s \<Longrightarrow> k + n \<le> 256 \<Longrightarrow> \<exists>line cl. pport_mark n k s = Inr (s\<lparr>pp_cmdline := line,
     pp_cllen := int cl, pp_rxbuf := marked n k (pp_rxbuf s)\<rparr>) \<and> length line = 256 \<and> cl < 64"
proof (induction n arbitrary: k s)
  case 0
  then have "s = s\<lparr>pp_cmdline := pp_cmdline s, pp_cllen := int (nat (pp_cllen s)), pp_rxbuf := marked 0 k (pp_rxbuf s)\<rparr>"
    by (simp add: pp_sizes_def marked_def)
  moreover from 0 have "length (pp_cmdline s) = 256" "nat (pp_cllen s) < 64" by (auto simp: pp_sizes_def)
  ultimately show ?case unfolding pport_mark.simps by blast
next
  case (Suc n)
  then have k: "k < 256" "k < length (pp_rxbuf s)" by (auto simp: pp_sizes_def)
  from mark_byte_total [OF Suc.prems(1) k(1)] obtain line cl where
    m: "pport_mark_byte k s = Inr (s\<lparr>pp_cmdline := line, pp_cllen := int cl,
      pp_rxbuf := (pp_rxbuf s)[k := pp_rxbuf s ! k OR 0x80]\<rparr>)" "length line = 256" "cl < 64" by blast
  with Suc.prems have "pp_sizes (s\<lparr>pp_cmdline := line, pp_cllen := int cl,
      pp_rxbuf := (pp_rxbuf s)[k := pp_rxbuf s ! k OR 0x80]\<rparr>)" by (simp add: pp_sizes_def)
  from Suc.IH [OF this, of "Suc k"] Suc.prems(2) m(1) marked_Suc [OF k(2), of n] show ?case by auto
qed

lemma end_line_total:
  "pp_sizes s \<Longrightarrow> \<exists>line. pport_end_line s = Inr (s\<lparr>pp_cmdline := line\<rparr>) \<and> length line = 256"
  by (auto simp: pport_end_line_def pp_sizes_def)

text \<open>One descriptor of the loop.\<close>

lemma keep_total:
  assumes "pp_sizes s" "pp_ilen s + length bs \<le> 256"
  shows "\<exists>line cl rx. pport_keep fd bs s = Inr (s\<lparr>pp_cmdline := line, pp_cllen := int cl, pp_rxbuf := rx\<rparr>)
    \<and> length line = 256 \<and> cl < 64
    \<and> rx = take (pp_ilen s) (pp_rxbuf s) @ map (\<lambda>b. if fd = pp_cmd s then b OR 0x80 else b) bs
        @ drop (pp_ilen s + length bs) (pp_rxbuf s)"
proof -
  let ?rx = "take (pp_ilen s) (pp_rxbuf s) @ bs @ drop (pp_ilen s + length bs) (pp_rxbuf s)"
  from assms have len: "length (pp_rxbuf s) = 256" "length ?rx = 256" "pp_ilen s \<le> 256" by (simp_all add: pp_sizes_def)
  have put: "put_bytes (pp_ilen s) bs (pp_rxbuf s) = Inr ?rx"
    using assms(2) len by (intro put_bytes_in) simp
  from assms(1) len(2) have s1: "pp_sizes (s\<lparr>pp_rxbuf := ?rx\<rparr>)" by (simp add: pp_sizes_def)
  show ?thesis
  proof (cases "fd = pp_cmd s")
    case True
    let ?m = "marked (length bs) (pp_ilen s) ?rx"
    from mark_total [OF s1 assms(2)] obtain line cl where m:
      "pport_mark (length bs) (pp_ilen s) (s\<lparr>pp_rxbuf := ?rx\<rparr>) = Inr ((s\<lparr>pp_rxbuf := ?rx\<rparr>)\<lparr>pp_cmdline := line,
         pp_cllen := int cl, pp_rxbuf := ?m\<rparr>)" "length line = 256" "cl < 64" by auto
    then have "pp_sizes ((s\<lparr>pp_rxbuf := ?rx\<rparr>)\<lparr>pp_cmdline := line, pp_cllen := int cl, pp_rxbuf := ?m\<rparr>)"
      using s1 len(2) by (simp add: pp_sizes_def marked_length)
    from end_line_total [OF this] obtain line2 where e:
      "pport_end_line ((s\<lparr>pp_rxbuf := ?rx\<rparr>)\<lparr>pp_cmdline := line, pp_cllen := int cl, pp_rxbuf := ?m\<rparr>) =
       Inr ((s\<lparr>pp_rxbuf := ?rx\<rparr>)\<lparr>pp_cmdline := line, pp_cllen := int cl, pp_rxbuf := ?m, pp_cmdline := line2\<rparr>)"
      "length line2 = 256" by blast
    have "?m = take (pp_ilen s) (pp_rxbuf s) @ map (\<lambda>b. b OR 0x80) bs @ drop (pp_ilen s + length bs) (pp_rxbuf s)"
      using len by (simp add: marked_def)
    then have "pport_keep fd bs s = Inr (s\<lparr>pp_cmdline := line2, pp_cllen := int (if bs = [] then 0 else cl),
        pp_rxbuf := take (pp_ilen s) (pp_rxbuf s) @ map (\<lambda>b. if fd = pp_cmd s then b OR 0x80 else b) bs
        @ drop (pp_ilen s + length bs) (pp_rxbuf s)\<rparr>)"
      using True m(1) e(1) by (simp add: pport_keep_def put)
    with m(3) e(2) show ?thesis by (intro exI conjI) (assumption, simp_all)
  next
    case False
    with assms(1) have "pport_keep fd bs s = Inr (s\<lparr>pp_cmdline := pp_cmdline s, pp_cllen := int (nat (pp_cllen s)),
        pp_rxbuf := take (pp_ilen s) (pp_rxbuf s) @ map (\<lambda>b. if fd = pp_cmd s then b OR 0x80 else b) bs
        @ drop (pp_ilen s + length bs) (pp_rxbuf s)\<rparr>)"
      by (simp add: pport_keep_def put pp_sizes_def)
    with assms(1) show ?thesis by (intro exI conjI) (assumption, auto simp: pp_sizes_def)
  qed
qed

lemma read_loop_total:
  "pp_sizes s \<Longrightarrow> pp_ilen s \<le> 256 \<Longrightarrow>
     \<exists>s' acts. pport_read_loop e fds s = Inr (s', acts) \<and> pp_sizes s' \<and> pp_ilen s' \<le> 256"
proof (induction fds arbitrary: s)
  case (Cons fd fds)
  show ?case
  proof (cases "pe_recv e fd")
    case None
    with Cons show ?thesis by simp
  next
    case (Some bytes)
    define bs where "bs = take (PPORTSIMBUFLEN - pp_ilen s) bytes"
    then have fit: "pp_ilen s + length bs \<le> 256" using Cons.prems(2) by (simp add: PPORTSIMBUFLEN_def)
    with keep_total [OF Cons.prems(1) fit, of fd] Cons.prems(1) obtain s2 where
      s2: "pport_keep fd bs s = Inr s2" "pp_sizes s2" "pp_ilen s2 = pp_ilen s" by (auto simp: pp_sizes_def)
    let ?more = "s2\<lparr>pp_ilen := pp_ilen s2 + length bs\<rparr>"
    let ?gone = "if fd = pp_cmd s2 then s2\<lparr>pp_cmd := -1\<rparr> else s2\<lparr>pp_con := -1\<rparr>"
    have "pport_read_loop e (fd # fds) s =
        (if 0 < length bs then
           if pp_ilen ?more = PPORTSIMBUFLEN then Inr (?more, []) else pport_read_loop e fds ?more
         else bindE (pport_read_loop e fds ?gone) (\<lambda>(s, acts). Inr (s, PClose fd # acts)))"
      using s2(1) by (simp add: Some Let_def flip: bs_def)
    moreover have "pp_sizes ?more" "pp_sizes ?gone" "pp_ilen ?gone \<le> 256" "pp_ilen ?more \<le> 256"
      using s2(2,3) Cons.prems(2) fit by (auto simp: pp_sizes_def)
    ultimately show ?thesis using Cons.IH [of ?more] Cons.IH [of ?gone] by fastforce
  qed
qed simp

lemma poll_read_total:
  assumes "pport_inv s" "pp_ilen s = 0"
  shows "\<exists>s' acts. pport_poll_read e s = Inr (s', acts) \<and> pport_inv s'"
proof -
  from assms have "pp_sizes s" "pp_ilen s \<le> 256" by (auto simp: pport_inv_def)
  from read_loop_total [OF this, of e "filter (\<lambda>fd. 0 \<le> fd) [pp_cmd s, pp_con s]"] obtain s' acts where
    "pport_read_loop e (filter (\<lambda>fd. 0 \<le> fd) [pp_cmd s, pp_con s]) s = Inr (s', acts)" "pp_sizes s'" "pp_ilen s' \<le> 256"
    by blast
  moreover from this have "pport_inv (s'\<lparr>pp_rxpos := 0\<rparr>)" by (simp add: pport_inv_def pp_sizes_def)
  ultimately show ?thesis using assms(1)
    by (cases "list_all (\<lambda>fd. pe_recv e fd = None) (filter (\<lambda>fd. 0 \<le> fd) [pp_cmd s, pp_con s])")
      (auto simp: pport_poll_read_def Let_def simp del: pport_read_loop.simps filter.simps)
qed

lemma next_total:
  assumes "pport_inv s"
  shows "\<exists>s' b acts. pport_next e s = Inr (s', b, acts) \<and> pport_inv s'"
proof -
  have "\<exists>s1 acts. (if pp_ilen s = 0 then pport_poll_read e s else Inr (s, [])) = Inr (s1, acts) \<and> pport_inv s1"
    using assms poll_read_total by auto
  then obtain s1 acts where s1: "(if pp_ilen s = 0 then pport_poll_read e s else Inr (s, [])) = Inr (s1, acts)"
    "pport_inv s1" by blast
  then have "pp_ilen s1 \<noteq> 0 \<Longrightarrow> pp_rxpos s1 < length (pp_rxbuf s1)" by (auto simp: pport_inv_def pp_sizes_def)
  with s1 show ?thesis by (auto simp: pport_next_def pport_inv_def pp_sizes_def)
qed

subsection \<open>Bytes from the board\<close>

text \<open>What has been sent to a connection.\<close>

definition sent_to :: "int \<Rightarrow> pp_act list \<Rightarrow> u8 list" where
  "sent_to fd acts = concat (map (\<lambda>a. case a of PSend d bs \<Rightarrow> if d = fd then bs else [] | PClose _ \<Rightarrow> []) acts)"

lemma sent_to_simps [simp]:
  "sent_to fd [] = []" "sent_to fd (PSend d bs # acts) = (if d = fd then bs else []) @ sent_to fd acts"
  "sent_to fd (PClose d # acts) = sent_to fd acts" "sent_to fd (a @ b) = sent_to fd a @ sent_to fd b"
  by (simp_all add: sent_to_def)

definition cmd_waiting :: "pportsim \<Rightarrow> u8 list" where "cmd_waiting s = take (pp_cmdpos s) (pp_cmdbuf s)"
definition con_waiting :: "pportsim \<Rightarrow> u8 list" where "con_waiting s = take (pp_conpos s) (pp_conbuf s)"

text \<open>Between two bytes no line that waits is complete. A flush empties its buffer and touches
  nothing of the other one.\<close>

lemma flush_cmd:
  assumes "length (pp_cmdbuf s) = 256" "pp_cmdpos s \<le> 254"
  shows "\<exists>s' acts. pport_flush_cmd e s = Inr (s', acts) \<and> length (pp_cmdbuf s') = 256 \<and> cmd_waiting s' = []
    \<and> s' = s\<lparr>pp_cmd := pp_cmd s', pp_cmdbuf := pp_cmdbuf s', pp_cmdpos := 0\<rparr>
    \<and> (0 \<le> pp_cmd s \<and> 0 \<le> pe_send e (pp_cmd s) (cmd_waiting s) \<longrightarrow> acts = [PSend (pp_cmd s) (cmd_waiting s)] \<and> pp_cmd s' = pp_cmd s)"
  using assms by (auto simp: pport_flush_cmd_def Let_def cmd_waiting_def not_less)

lemma flush_con:
  assumes "length (pp_conbuf s) = 256" "pp_conpos s \<le> 254"
  shows "\<exists>s' acts. pport_flush_con e s = Inr (s', acts) \<and> length (pp_conbuf s') = 256 \<and> con_waiting s' = []
    \<and> s' = s\<lparr>pp_con := pp_con s', pp_conbuf := pp_conbuf s', pp_conpos := 0\<rparr>
    \<and> (0 \<le> pp_con s \<and> 0 \<le> pe_send e (pp_con s) (con_waiting s) \<longrightarrow> acts = [PSend (pp_con s) (con_waiting s)] \<and> pp_con s' = pp_con s)"
  using assms by (auto simp: pport_flush_con_def Let_def con_waiting_def not_less)

lemma ends_total: "length buf = 256 \<Longrightarrow> pos \<le> 254 \<Longrightarrow> \<exists>b. pport_ends pos buf = Inr b \<and> (b \<longleftrightarrow> 0 < pos \<and> (buf ! (pos - 1) = 10 \<or> 254 \<le> pos))"
  by (simp add: pport_ends_def PPORTSIMBUFLEN_def)

text \<open>Both connections are open.\<close>

definition pp_open :: "pportsim \<Rightarrow> bool" where
  "pp_open s \<longleftrightarrow> 0 \<le> pp_cmd s \<and> 0 \<le> pp_con s \<and> pp_cmd s \<noteq> pp_con s"

text \<open>The network takes all of what it is given.\<close>

definition sends_succeed :: "pp_env \<Rightarrow> bool" where
  "sends_succeed e \<longleftrightarrow> (\<forall>fd bs. pe_send e fd bs = int (length bs))"

definition store_byte :: "u8 \<Rightarrow> pportsim \<Rightarrow> pportsim" where
  "store_byte ch s =
     (if ch AND 0x80 \<noteq> 0 then s\<lparr>pp_cmdbuf := (pp_cmdbuf s)[pp_cmdpos s := ch AND 0x7f], pp_cmdpos := pp_cmdpos s + 1\<rparr>
      else s\<lparr>pp_conbuf := (pp_conbuf s)[pp_conpos s := ch AND 0x7f], pp_conpos := pp_conpos s + 1\<rparr>)"

lemma store_byte_sizes:
  assumes "pp_sizes s"
  shows "length (pp_cmdbuf (store_byte ch s)) = 256" "length (pp_conbuf (store_byte ch s)) = 256"
    "pp_cmdpos (store_byte ch s) \<le> 254" "pp_conpos (store_byte ch s) \<le> 254"
    "cmd_waiting (store_byte ch s) = cmd_waiting s @ (if ch AND 0x80 \<noteq> 0 then [ch AND 0x7f] else [])"
    "con_waiting (store_byte ch s) = con_waiting s @ (if ch AND 0x80 = 0 then [ch AND 0x7f] else [])"
  using assms by (auto simp: store_byte_def pp_sizes_def cmd_waiting_def con_waiting_def take_Suc_conv_app_nth)

lemma received_step:
  assumes "pp_sizes s"
  shows "\<exists>s' acts. pport_received e ch s = Inr (s', acts) \<and> pp_sizes s' \<and> pp_rxpos s' = pp_rxpos s
    \<and> pp_ilen s' = pp_ilen s \<and> pp_intransit s' = pp_intransit s \<and> pp_delay s' = pp_delay s
    \<and> (pp_open s \<and> sends_succeed e \<longrightarrow>
         pp_cmd s' = pp_cmd s \<and> pp_con s' = pp_con s
         \<and> sent_to (pp_cmd s) acts @ cmd_waiting s' = cmd_waiting s @ (if ch AND 0x80 \<noteq> 0 then [ch AND 0x7f] else [])
         \<and> sent_to (pp_con s) acts @ con_waiting s' = con_waiting s @ (if ch AND 0x80 = 0 then [ch AND 0x7f] else []))"
proof -
  let ?s = "store_byte ch s"
  note st = store_byte_sizes [OF assms, of ch]
  have keep: "pp_cmd ?s = pp_cmd s" "pp_con ?s = pp_con s" "pp_rxpos ?s = pp_rxpos s" "pp_ilen ?s = pp_ilen s"
    "pp_intransit ?s = pp_intransit s" "pp_delay ?s = pp_delay s" "pp_rxbuf ?s = pp_rxbuf s"
    "pp_cmdline ?s = pp_cmdline s" "pp_cllen ?s = pp_cllen s"
    by (simp_all add: store_byte_def)
  have stored: "(if ch AND 0x80 \<noteq> 0 then
        bindE (aset (pp_cmdbuf s) (pp_cmdpos s) (ch AND 0x7f)) (\<lambda>buf.
          Inr (s\<lparr>pp_cmdbuf := buf, pp_cmdpos := pp_cmdpos s + 1\<rparr>))
      else
        bindE (aset (pp_conbuf s) (pp_conpos s) (ch AND 0x7f)) (\<lambda>buf.
          Inr (s\<lparr>pp_conbuf := buf, pp_conpos := pp_conpos s + 1\<rparr>))) = Inr ?s"
    using assms by (simp add: store_byte_def pp_sizes_def)
  obtain bc where bc: "pport_ends (pp_cmdpos ?s) (pp_cmdbuf ?s) = Inr bc"
      "bc \<longleftrightarrow> 0 < pp_cmdpos ?s \<and> (pp_cmdbuf ?s ! (pp_cmdpos ?s - 1) = 10 \<or> 254 \<le> pp_cmdpos ?s)"
    using ends_total [OF st(1,3)] by blast
  obtain s1 a where s1: "(if bc then pport_flush_cmd e ?s else Inr (?s, [])) = Inr (s1, a)"
      "length (pp_cmdbuf s1) = 256" "pp_cmdpos s1 \<le> 253"
      "s1 = ?s\<lparr>pp_cmd := pp_cmd s1, pp_cmdbuf := pp_cmdbuf s1, pp_cmdpos := pp_cmdpos s1\<rparr>"
      "pp_open s \<and> sends_succeed e \<longrightarrow> pp_cmd s1 = pp_cmd s \<and> sent_to (pp_cmd s) a @ cmd_waiting s1 = cmd_waiting ?s
        \<and> sent_to (pp_con s) a = []"
  proof (cases bc)
    case True
    from flush_cmd [OF st(1,3), of e] obtain s' acts where f: "pport_flush_cmd e ?s = Inr (s', acts)"
      "length (pp_cmdbuf s') = 256" "cmd_waiting s' = []" "s' = ?s\<lparr>pp_cmd := pp_cmd s', pp_cmdbuf := pp_cmdbuf s', pp_cmdpos := 0\<rparr>"
      "0 \<le> pp_cmd ?s \<and> 0 \<le> pe_send e (pp_cmd ?s) (cmd_waiting ?s) \<longrightarrow>
         acts = [PSend (pp_cmd ?s) (cmd_waiting ?s)] \<and> pp_cmd s' = pp_cmd ?s" by blast
    have pos: "pp_cmdpos s' = 0" by (subst f(4)) simp
    show ?thesis
    proof (rule that [of s' acts])
      show "s' = ?s\<lparr>pp_cmd := pp_cmd s', pp_cmdbuf := pp_cmdbuf s', pp_cmdpos := pp_cmdpos s'\<rparr>"
        unfolding pos by (rule f(4))
    qed (use True f(1-3,5) pos keep in \<open>auto simp: pp_open_def sends_succeed_def\<close>)
  next
    case False
    have "pp_cmdpos ?s \<le> 253" using False bc(2) st(3) by (cases "pp_cmdpos ?s = 254") auto
    with False that [of ?s "[]"] st keep show ?thesis by simp
  qed
  have con: "pp_conpos s1 = pp_conpos ?s" "pp_conbuf s1 = pp_conbuf ?s" "con_waiting s1 = con_waiting ?s" "pp_con s1 = pp_con s"
    by (subst s1(4), simp add: con_waiting_def keep)+
  obtain bn where bn: "pport_ends (pp_conpos s1) (pp_conbuf s1) = Inr bn"
      "bn \<longleftrightarrow> 0 < pp_conpos ?s \<and> (pp_conbuf ?s ! (pp_conpos ?s - 1) = 10 \<or> 254 \<le> pp_conpos ?s)"
    using ends_total [OF st(2,4)] con by auto
  obtain s2 b where s2: "(if bn then pport_flush_con e s1 else Inr (s1, [])) = Inr (s2, b)"
      "length (pp_conbuf s2) = 256" "pp_conpos s2 \<le> 253"
      "s2 = s1\<lparr>pp_con := pp_con s2, pp_conbuf := pp_conbuf s2, pp_conpos := pp_conpos s2\<rparr>"
      "pp_open s \<and> sends_succeed e \<longrightarrow> pp_con s2 = pp_con s \<and> sent_to (pp_con s) b @ con_waiting s2 = con_waiting ?s
        \<and> sent_to (pp_cmd s) b = []"
  proof (cases bn)
    case True
    have "length (pp_conbuf s1) = 256" "pp_conpos s1 \<le> 254" using con st by simp_all
    from flush_con [OF this, of e] obtain s' acts where f: "pport_flush_con e s1 = Inr (s', acts)"
      "length (pp_conbuf s') = 256" "con_waiting s' = []" "s' = s1\<lparr>pp_con := pp_con s', pp_conbuf := pp_conbuf s', pp_conpos := 0\<rparr>"
      "0 \<le> pp_con s1 \<and> 0 \<le> pe_send e (pp_con s1) (con_waiting s1) \<longrightarrow>
         acts = [PSend (pp_con s1) (con_waiting s1)] \<and> pp_con s' = pp_con s1" by blast
    have pos: "pp_conpos s' = 0" by (subst f(4)) simp
    show ?thesis
    proof (rule that [of s' acts])
      show "s' = s1\<lparr>pp_con := pp_con s', pp_conbuf := pp_conbuf s', pp_conpos := pp_conpos s'\<rparr>"
        unfolding pos by (rule f(4))
    qed (use True f(1-3,5) pos con in \<open>auto simp: pp_open_def sends_succeed_def\<close>)
  next
    case False
    have "pp_conpos ?s \<le> 253" using False bn(2) st(4) by (cases "pp_conpos ?s = 254") auto
    with False that [of s1 "[]"] st con show ?thesis by simp
  qed
  have cmd: "pp_cmdpos s2 = pp_cmdpos s1" "pp_cmdbuf s2 = pp_cmdbuf s1" "cmd_waiting s2 = cmd_waiting s1" "pp_cmd s2 = pp_cmd s1"
    by (subst s2(4), simp add: cmd_waiting_def)+
  have rest: "pp_rxpos s2 = pp_rxpos s" "pp_ilen s2 = pp_ilen s" "pp_intransit s2 = pp_intransit s" "pp_delay s2 = pp_delay s"
    "pp_rxbuf s2 = pp_rxbuf s" "pp_cmdline s2 = pp_cmdline s" "pp_cllen s2 = pp_cllen s"
    by (subst s2(4), simp, subst s1(4), simp add: keep)+
  have "pport_received e ch s = Inr (s2, a @ b)"
    unfolding pport_received_def stored bindE_simps bc(1) s1(1) prod.case bn(1) s2(1) ..
  moreover have "pp_sizes s2" using assms s1(2,3) s2(2,3) cmd rest by (simp add: pp_sizes_def)
  ultimately show ?thesis using rest s1(5) s2(5) st(5,6) cmd by auto
qed

text \<open>The bytes of a connection among those that were received.\<close>

definition of_cmd :: "u8 list \<Rightarrow> u8 list" where
  "of_cmd chs = map (\<lambda>c. c AND 0x7f) (filter (\<lambda>c. c AND 0x80 \<noteq> 0) chs)"

definition of_con :: "u8 list \<Rightarrow> u8 list" where
  "of_con chs = map (\<lambda>c. c AND 0x7f) (filter (\<lambda>c. c AND 0x80 = 0) chs)"

definition pport_receive :: "pportsim \<Rightarrow> pp_env \<times> u8 \<Rightarrow> (pportsim \<times> pp_act list) res" where
  "pport_receive s p = (case p of (e, ch) \<Rightarrow> pport_received e ch s)"

lemma receive_run:
  assumes "pp_sizes s" "pp_open s" "list_all (\<lambda>(e, ch). sends_succeed e) ins"
  shows "\<exists>s' outs. run_machine pport_receive s ins = Inr (s', outs) \<and> pp_sizes s'
    \<and> sent_to (pp_cmd s) (concat outs) @ cmd_waiting s' = cmd_waiting s @ of_cmd (map snd ins)
    \<and> sent_to (pp_con s) (concat outs) @ con_waiting s' = con_waiting s @ of_con (map snd ins)"
  using assms
proof (induction ins arbitrary: s)
  case Nil
  then show ?case by (simp add: of_cmd_def of_con_def)
next
  case (Cons p ins)
  obtain e ch where p: "p = (e, ch)" by (cases p)
  from received_step [OF Cons.prems(1), of e ch] Cons.prems(2,3) p obtain s1 a where s1:
    "pport_receive s p = Inr (s1, a)" "pp_sizes s1" "pp_cmd s1 = pp_cmd s" "pp_con s1 = pp_con s"
    "sent_to (pp_cmd s) a @ cmd_waiting s1 = cmd_waiting s @ (if ch AND 0x80 \<noteq> 0 then [ch AND 0x7f] else [])"
    "sent_to (pp_con s) a @ con_waiting s1 = con_waiting s @ (if ch AND 0x80 = 0 then [ch AND 0x7f] else [])"
    by (auto simp: pport_receive_def)
  have "pp_open s1" using Cons.prems(2) s1(3,4) by (simp add: pp_open_def)
  with Cons.IH [OF s1(2)] Cons.prems(3) obtain s2 outs where s2: "run_machine pport_receive s1 ins = Inr (s2, outs)" "pp_sizes s2"
    "sent_to (pp_cmd s1) (concat outs) @ cmd_waiting s2 = cmd_waiting s1 @ of_cmd (map snd ins)"
    "sent_to (pp_con s1) (concat outs) @ con_waiting s2 = con_waiting s1 @ of_con (map snd ins)" by auto
  have "sent_to (pp_cmd s) (concat (a # outs)) @ cmd_waiting s2 = (sent_to (pp_cmd s) a @ cmd_waiting s1) @ of_cmd (map snd ins)"
    "sent_to (pp_con s) (concat (a # outs)) @ con_waiting s2 = (sent_to (pp_con s) a @ con_waiting s1) @ of_con (map snd ins)"
    using s2(3,4) s1(3,4) by simp_all
  then have "sent_to (pp_cmd s) (concat (a # outs)) @ cmd_waiting s2 = cmd_waiting s @ of_cmd (map snd (p # ins))"
    "sent_to (pp_con s) (concat (a # outs)) @ con_waiting s2 = con_waiting s @ of_con (map snd (p # ins))"
    unfolding s1(5,6) by (simp_all add: p of_cmd_def of_con_def)
  with s1(1) s2(1,2) show ?case by auto
qed

text \<open>C20. While both connections are open and the network takes what it is given as a whole, what the
  port receives is split by bit 7 between the two connections, complete and in order: at every
  moment what has been sent to a connection, with what waits for the end of its line, are the
  bytes that were received for it, without bit 7.\<close>

theorem pport_demultiplexes:
  assumes "pp_sizes s" "pp_open s" "list_all (\<lambda>(e, ch). sends_succeed e) ins"
  shows "\<exists>s' outs. run_machine pport_receive s ins = Inr (s', outs)
    \<and> sent_to (pp_cmd s) (concat outs) @ cmd_waiting s' = cmd_waiting s @ of_cmd (map snd ins)
    \<and> sent_to (pp_con s) (concat outs) @ con_waiting s' = con_waiting s @ of_con (map snd ins)"
  using receive_run [OF assms] by blast

subsection \<open>Bytes to the board\<close>

text \<open>The bytes that wait for the board.\<close>

definition rx_waiting :: "pportsim \<Rightarrow> u8 list" where
  "rx_waiting s = take (pp_ilen s) (drop (pp_rxpos s) (pp_rxbuf s))"

lemma rx_waiting_length: "pport_inv s \<Longrightarrow> length (rx_waiting s) = pp_ilen s"
  by (auto simp: rx_waiting_def pport_inv_def pp_sizes_def)

lemma next_waiting:
  assumes "pport_inv s" "rx_waiting s = b # bs"
  shows "\<exists>s'. pport_next e s = Inr (s', Some b, []) \<and> pport_inv s' \<and> rx_waiting s' = bs \<and> pp_delay s' = pp_delay s"
proof -
  have l: "pp_ilen s = Suc (length bs)" using rx_waiting_length [OF assms(1)] assms(2) by simp
  with assms(1) have k: "pp_rxpos s < length (pp_rxbuf s)" by (simp add: pport_inv_def pp_sizes_def)
  with assms(2) l have b: "b = pp_rxbuf s ! pp_rxpos s" "bs = take (length bs) (drop (Suc (pp_rxpos s)) (pp_rxbuf s))"
    by (simp_all add: rx_waiting_def Cons_nth_drop_Suc [symmetric])
  let ?s = "s\<lparr>pp_rxpos := pp_rxpos s + 1, pp_ilen := pp_ilen s - 1\<rparr>"
  have "pport_next e s = Inr (?s, Some b, [])" using k l b(1) by (simp add: pport_next_def)
  moreover have "pport_inv ?s" using assms(1) l by (simp add: pport_inv_def pp_sizes_def)
  moreover have "rx_waiting ?s = bs" using l b(2) by (simp add: rx_waiting_def)
  ultimately show ?thesis by (intro exI [of _ ?s]) simp
qed

lemma poll_read_both:
  assumes "pport_inv s" "pp_ilen s = 0" "pp_open s" "pe_recv e (pp_cmd s) = Some bs" "pe_recv e (pp_con s) = Some cs"
    "bs \<noteq> []" "cs \<noteq> []" "length bs + length cs \<le> 256"
  shows "\<exists>s'. pport_poll_read e s = Inr (s', []) \<and> pport_inv s' \<and> rx_waiting s' = map (\<lambda>b. b OR 0x80) bs @ cs
    \<and> pp_delay s' = pp_delay s"
proof -
  from assms(1) have sz: "pp_sizes s" by (simp add: pport_inv_def)
  have fds: "filter (\<lambda>fd. 0 \<le> fd) [pp_cmd s, pp_con s] = [pp_cmd s, pp_con s]" using assms(3) by (simp add: pp_open_def)
  have l: "length bs \<le> 256" "length bs < 256" "pp_ilen s + length bs \<le> 256" using assms(2,7,8) by (cases cs; simp)+
  from keep_total [OF sz l(3), of "pp_cmd s"] obtain line cl rx where k1:
    "pport_keep (pp_cmd s) bs s = Inr (s\<lparr>pp_cmdline := line, pp_cllen := int cl, pp_rxbuf := rx\<rparr>)" "length line = 256" "cl < 64"
    "rx = map (\<lambda>b. b OR 0x80) bs @ drop (length bs) (pp_rxbuf s)" using assms(2) by auto
  let ?s1 = "s\<lparr>pp_cmdline := line, pp_cllen := int cl, pp_rxbuf := rx, pp_ilen := length bs\<rparr>"
  have s1: "pp_sizes ?s1" "pp_ilen ?s1 + length cs \<le> 256"
    using sz k1(2,3) l assms(8) by (auto simp: pp_sizes_def k1(4))
  have ne: "pp_con s \<noteq> pp_cmd s" using assms(3) by (simp add: pp_open_def)
  from keep_total [OF s1, of "pp_con s"] obtain line2 cl2 rx2 where k2:
    "pport_keep (pp_con s) cs ?s1 = Inr (?s1\<lparr>pp_cmdline := line2, pp_cllen := int cl2, pp_rxbuf := rx2\<rparr>)"
    "length line2 = 256" "cl2 < 64" "rx2 = take (length bs) rx @ cs @ drop (length bs + length cs) rx"
    using ne by auto
  let ?s2 = "?s1\<lparr>pp_cmdline := line2, pp_cllen := int cl2, pp_rxbuf := rx2, pp_ilen := length bs + length cs, pp_rxpos := 0\<rparr>"
  have rx2: "rx2 = (map (\<lambda>b. b OR 0x80) bs @ cs) @ drop (length bs + length cs) (pp_rxbuf s)"
    using k1(4) k2(4) by (simp add: add.commute)
  have "pport_poll_read e s = Inr (?s2, [])"
    using assms(2,4-7) l(2) assms(8) k1(1) k2(1) fds
    by (simp add: pport_poll_read_def PPORTSIMBUFLEN_def Let_def del: filter.simps)
  moreover have "pport_inv ?s2" using s1(1) k2(2,3) assms(8) sz by (simp add: pport_inv_def pp_sizes_def rx2)
  moreover have "rx_waiting ?s2 = map (\<lambda>b. b OR 0x80) bs @ cs"
    using sz assms(8) by (simp add: rx_waiting_def rx2)
  ultimately show ?thesis by (intro exI [of _ ?s2]) simp
qed

lemma bit7: "(w :: u8) AND 0x80 = 0 \<longleftrightarrow> \<not> bit w 7"
proof -
  have "(0x80 :: u8) = 2 ^ 7" by simp
  then show ?thesis by (simp only: and_exp_eq_0_iff_not_bit)
qed

lemma low7: "(0x7f :: u8) = mask 7"
  by (simp add: mask_eq_exp_minus_1)

lemma mark_bit: "bit ((b :: u8) OR 0x80) n \<longleftrightarrow> bit b n \<or> n = 7"
proof -
  have "(0x80 :: u8) = 2 ^ 7" by simp
  then show ?thesis by (auto simp only: bit_or_iff bit_exp_iff) simp
qed

lemma ascii_bytes:
  assumes "\<not> bit (b :: u8) 7"
  shows "b AND 0x7f = b" "(b OR 0x80) AND 0x7f = b"
proof -
  have n: "n < 7" if "bit b n" for n
    using that assms bit_imp_le_length [of b n] by (cases "n = 7") auto
  show "b AND 0x7f = b" "(b OR 0x80) AND 0x7f = b"
    using n by (auto intro!: bit_word_eqI simp: low7 bit_and_iff bit_mask_iff mark_bit)
qed

lemma of_cmd_marked:
  assumes "list_all (\<lambda>b. \<not> bit b 7) bs" "list_all (\<lambda>b. \<not> bit b 7) cs"
  shows "of_cmd (map (\<lambda>b. b OR 0x80) bs @ cs) = bs" "of_con (map (\<lambda>b. b OR 0x80) bs @ cs) = cs"
proof -
  have "filter (\<lambda>c. c AND 0x80 \<noteq> 0) (map (\<lambda>b. b OR 0x80) bs @ cs) = map (\<lambda>b. b OR 0x80) bs"
    "filter (\<lambda>c. c AND 0x80 = 0) (map (\<lambda>b. b OR 0x80) bs @ cs) = cs"
    using assms by (auto simp: bit7 mark_bit list_all_iff filter_map comp_def)
  moreover have "map (\<lambda>b. (b OR 0x80) AND 0x7f) bs = bs" "map (\<lambda>b. b AND 0x7f) cs = cs"
    using assms ascii_bytes by (auto simp: list_all_iff intro!: map_idI)
  ultimately show "of_cmd (map (\<lambda>b. b OR 0x80) bs @ cs) = bs" "of_con (map (\<lambda>b. b OR 0x80) bs @ cs) = cs"
    by (simp_all add: of_cmd_def of_con_def comp_def)
qed

subsection \<open>The clock\<close>

text \<open>The port with its clock and direction lines, in the test bench's loop: what the call leaves there
  is what it finds in the next clock.\<close>

definition pport_step ::
    "pportsim \<times> int \<times> int \<Rightarrow> pp_env \<times> int \<times> int \<Rightarrow> ((pportsim \<times> int \<times> int) \<times> int \<times> pp_act list) res" where
  "pport_step st pins =
     (case st of (s, clk, dir) \<Rightarrow> case pins of (e, data, fb) \<Rightarrow>
      bindE (pport_apply e \<lparr>pp_clk = clk, pp_dir = dir, pp_data = data, pp_clkfb = fb\<rparr> s)
        (\<lambda>(s, clk, dir, r, acts). Inr ((s, clk, dir), r, acts)))"

lemma poll_accept_inv: "pport_inv s \<Longrightarrow> pport_inv (pport_poll_accept e s)"
  by (auto simp: pport_poll_accept_def pport_inv_def pp_sizes_def Let_def split: option.splits)

lemma delay_inv [simp]: "pport_inv (s\<lparr>pp_delay := d\<rparr>) = pport_inv s" "pport_inv (s\<lparr>pp_intransit := b\<rparr>) = pport_inv s"
  by (simp_all add: pport_inv_def pp_sizes_def)

lemma pport_step_safe:
  assumes "pport_inv (fst st)"
  shows "\<exists>st' out. pport_step st pins = Inr (st', out) \<and> pport_inv (fst st')"
proof -
  obtain s clk dir where st: "st = (s, clk, dir)" by (cases st)
  obtain e data fb where pins: "pins = (e, data, fb)" by (cases pins)
  from assms have s: "pport_inv s" "pp_sizes s" by (simp_all add: st pport_inv_def)
  from received_step [OF s(2), of e "of_int data"] obtain s1 a1 where
    r: "pport_received e (of_int data) s = Inr (s1, a1)" "pp_sizes s1" "pp_rxpos s1 = pp_rxpos s" "pp_ilen s1 = pp_ilen s" by blast
  then have r1: "pport_inv s1" using s(1) by (simp add: pport_inv_def)
  from next_total [OF s(1), of e] obtain s2 b a2 where n: "pport_next e s = Inr (s2, b, a2)" "pport_inv s2" by blast
  show ?thesis
    using s(1) r(1) r1 n poll_accept_inv [OF s(1), of e] poll_accept_inv [OF n(2), of e]
    by (cases b) (auto simp: pport_step_def pport_apply_def st pins Let_def)
qed

interpretation pport: clocked_machine pport_step "\<lambda>st. pport_inv (fst st)" "\<lambda>_. True"
  by unfold_locales (rule pport_step_safe)

text \<open>C22. However the connections and the board behave, no clock of the simulated port reads or writes
  outside its buffers, from the constructor on, provided that the counter \<open>m_cllen\<close>, which the constructor
  does not set, happens to lie in its range from 0 to 63 at first; the buffers have their declared sizes.\<close>

theorem pport_never_out_of_bounds:
  assumes "length (pp_conbuf g) = 256" "length (pp_cmdbuf g) = 256" "length (pp_rxbuf g) = 256"
    "length (pp_cmdline g) = 256" "0 \<le> pp_cllen g" "pp_cllen g < 64"
  shows "\<exists>st outs. run_machine pport_step (pportsim_new g skt console copy, clk, dir) ins = Inr (st, outs)"
proof -
  have "pport_inv (fst (pportsim_new g skt console copy, clk, dir))"
    using assms by (simp add: pportsim_new_def pport_inv_def pp_sizes_def)
  from pport.run_safe [OF this, of ins] show ?thesis by (auto simp: list_all_iff)
qed

lemma step_waits:
  assumes "0 < pp_delay s"
  shows "\<exists>r. pport_step (s, clk, dir) pins = Inr ((s\<lparr>pp_delay := pp_delay s - 1\<rparr>, clk, dir), r, [])
    \<and> (dir = PP_TO_FPGA \<longrightarrow> r = sint (pp_intransit s))"
  using assms by (cases pins) (auto simp: pport_step_def pport_apply_def Let_def)

lemma run_waits:
  "length ins \<le> pp_delay s \<Longrightarrow>
     \<exists>outs. run_machine pport_step (s, clk, dir) ins = Inr ((s\<lparr>pp_delay := pp_delay s - length ins\<rparr>, clk, dir), outs)
       \<and> list_all (\<lambda>(r, acts). acts = [] \<and> (dir = PP_TO_FPGA \<longrightarrow> r = sint (pp_intransit s))) outs"
proof (induction ins arbitrary: s)
  case (Cons i ins)
  then have "0 < pp_delay s" by simp
  from step_waits [OF this, of clk dir i] obtain r where r:
    "pport_step (s, clk, dir) i = Inr ((s\<lparr>pp_delay := pp_delay s - 1\<rparr>, clk, dir), r, [])"
    "dir = PP_TO_FPGA \<longrightarrow> r = sint (pp_intransit s)" by blast
  have "length ins \<le> pp_delay (s\<lparr>pp_delay := pp_delay s - 1\<rparr>)" using Cons.prems by simp
  from Cons.IH [OF this] obtain outs where
    "run_machine pport_step (s\<lparr>pp_delay := pp_delay s - 1\<rparr>, clk, dir) ins =
       Inr ((s\<lparr>pp_delay := pp_delay s - length (i # ins)\<rparr>, clk, dir), outs)"
    "list_all (\<lambda>(r, acts). acts = [] \<and> (dir = PP_TO_FPGA \<longrightarrow> r = sint (pp_intransit s))) outs" by auto
  then have "run_machine pport_step (s, clk, dir) (i # ins) =
      Inr ((s\<lparr>pp_delay := pp_delay s - length (i # ins)\<rparr>, clk, dir), (r, []) # outs)"
    "list_all (\<lambda>(r, acts). acts = [] \<and> (dir = PP_TO_FPGA \<longrightarrow> r = sint (pp_intransit s))) ((r, []) # outs)"
    using r by simp_all
  then show ?case by blast
qed simp

lemma change_needs_echo:
  assumes "pport_step (s, clk, dir) (e, data, fb) = Inr ((s', clk', dir'), out)" "(clk', dir') \<noteq> (clk, dir)"
  shows "fb = clk" "pp_delay s = 0" "pp_delay s' = PP_DELAY" "clk' \<noteq> clk" "clk' = 0 \<or> clk' = 1" "clk' = 0 \<longrightarrow> dir' = dir"
  using assms by (auto simp: pport_step_def pport_apply_def Let_def bindE_Inr_iff split: if_splits option.splits)

text \<open>C23. The clock and the direction change only when the board has echoed the clock, the direction
  only with a rising clock, and then they, and a byte that is being sent, stand still for at least
  five more clocks, in which nothing is sent to the network either.\<close>

theorem pport_waits_for_board:
  assumes "pport_step (s, clk, dir) (e, data, fb) = Inr ((s1, clk1, dir1), out)" "(clk1, dir1) \<noteq> (clk, dir)"
    "length ins \<le> 5"
  shows "fb = clk \<and> clk1 \<noteq> clk \<and> (clk1 = 0 \<longrightarrow> dir1 = dir)
    \<and> (\<exists>s2 outs. run_machine pport_step (s1, clk1, dir1) ins = Inr ((s2, clk1, dir1), outs)
        \<and> pp_intransit s2 = pp_intransit s1
        \<and> list_all (\<lambda>(r, acts). acts = [] \<and> (dir1 = PP_TO_FPGA \<longrightarrow> r = sint (pp_intransit s1))) outs)"
proof -
  note c = change_needs_echo [OF assms(1,2)]
  have "length ins \<le> pp_delay s1" using assms(3) c(3) by (simp add: PP_DELAY_def)
  from run_waits [OF this, of clk1 dir1] c show ?thesis by fastforce
qed

subsection \<open>Witnesses\<close>

definition pp_blank :: pportsim where
  "pp_blank = \<lparr>pp_delay = 0, pp_skt = 0, pp_console = 0, pp_cmd = 0, pp_con = 0, pp_conbuf = replicate 256 0,
     pp_cmdbuf = replicate 256 0, pp_rxbuf = replicate 256 0, pp_cmdline = replicate 256 0, pp_intransit = 0,
     pp_ilen = 0, pp_rxpos = 0, pp_cmdpos = 0, pp_conpos = 0, pp_cllen = 0, pp_copy = False\<rparr>"

definition pp_connected :: pportsim where
  "pp_connected = (pportsim_new pp_blank 3 4 True)\<lparr>pp_cmd := 5, pp_con := 6\<rparr>"

definition pp_network :: pp_env where
  "pp_network = \<lparr>pe_accept = (\<lambda>_. None),
     pe_recv = (\<lambda>fd. if fd = 5 then Some [0x52, 10] else if fd = 6 then Some [0x68, 0x69] else None),
     pe_send = (\<lambda>_ bs. int (length bs))\<rparr>"

lemma pp_connected_inv:
  "pport_inv pp_connected" "pp_sizes pp_connected" "pp_open pp_connected" "pp_ilen pp_connected = 0"
  "cmd_waiting pp_connected = []" "con_waiting pp_connected = []" "sends_succeed pp_network"
  "pp_cmd pp_connected = 5" "pp_con pp_connected = 6"
  by (simp_all add: pp_connected_def pportsim_new_def pp_blank_def pport_inv_def pp_sizes_def pp_open_def
    cmd_waiting_def con_waiting_def sends_succeed_def pp_network_def)

theorem pport_demultiplexes_witness:
  "\<exists>s' outs. run_machine pport_receive pp_connected (map (Pair pp_network) [0xc1, 0x68, 0x8a]) = Inr (s', outs)
    \<and> sent_to 5 (concat outs) @ cmd_waiting s' = of_cmd [0xc1, 0x68, 0x8a]
    \<and> sent_to 6 (concat outs) @ con_waiting s' = of_con [0xc1, 0x68, 0x8a]"
proof -
  have "list_all (\<lambda>(e, ch). sends_succeed e) (map (Pair pp_network) [0xc1, 0x68, 0x8a])"
    using pp_connected_inv by simp
  from pport_demultiplexes [OF pp_connected_inv(2,3) this] show ?thesis
    using pp_connected_inv by (simp del: run_machine.simps)
qed

theorem pport_never_out_of_bounds_witness:
  "\<exists>st outs. run_machine pport_step (pportsim_new pp_blank 3 4 True, 0, 0) (replicate 100 (pp_network, 0x41, 1)) = Inr (st, outs)"
  using pport_never_out_of_bounds [of pp_blank] by (simp add: pp_blank_def del: run_machine.simps)

theorem pport_waits_for_board_witness:
  "\<exists>s1 out s2 outs. pport_step (pp_connected\<lparr>pp_delay := 0\<rparr>, 1, 0) (pp_network, 0x41, 1) = Inr ((s1, 0, 0), out)
    \<and> run_machine pport_step (s1, 0, 0) (replicate 5 (pp_network, 0x42, 0)) = Inr ((s2, 0, 0), outs)"
proof -
  have "\<exists>s1 out. pport_step (pp_connected\<lparr>pp_delay := 0\<rparr>, 1, 0) (pp_network, 0x41, 1) = Inr ((s1, 0, 0), out)"
  proof -
    have "pp_sizes (pp_connected\<lparr>pp_delay := 0\<rparr>)" using pp_connected_inv(2) by (simp add: pp_sizes_def)
    from received_step [OF this, of pp_network "0x41"] show ?thesis
      by (auto simp: pport_step_def pport_apply_def PP_FROM_FPGA_def Let_def)
  qed
  then obtain s1 out where s1: "pport_step (pp_connected\<lparr>pp_delay := 0\<rparr>, 1, 0) (pp_network, 0x41, 1) = Inr ((s1, 0, 0), out)"
    by blast
  from pport_waits_for_board [OF this, of "replicate 5 (pp_network, 0x42, 0)"] s1 show ?thesis
    by (auto simp del: run_machine.simps)
qed

end
