(* ===== verification/PPortCable.thy ===== *)
theory PPortCable
  imports PPortProps
begin

text \<open>
  The parallel port as the board sees it, clock by clock: a board that echoes the clock at once takes
  a byte from the pins when the port drives them and puts one there when it does not. Two ports at
  the ends of such a board pass on what their connections deliver.
\<close>

subsection \<open>A cycle of the clock line\<close>



text \<open>What the board has taken, and what has been done to the network.\<close>

definition pins_bytes :: "(u8 option \<times> pp_act list) list \<Rightarrow> u8 list" where
  "pins_bytes outs = concat (map (\<lambda>(b, acts). case b of None \<Rightarrow> [] | Some b \<Rightarrow> [b]) outs)"

definition net_acts :: "(u8 option \<times> pp_act list) list \<Rightarrow> pp_act list" where
  "net_acts outs = concat (map snd outs)"

lemma outs_simps [simp]:
  "pins_bytes [] = []" "pins_bytes ((None, a) # outs) = pins_bytes outs"
  "pins_bytes ((Some b, a) # outs) = b # pins_bytes outs"
  "net_acts [] = []" "net_acts ((x, a) # outs) = a @ net_acts outs"
  by (simp_all add: pins_bytes_def net_acts_def)





text \<open>The three kinds of cycle: the port begins to send a byte, the board takes it, the port receives.\<close>

lemma byte_on_pins: "(of_int (sint (b :: u8)) :: u8) = b"
  by simp

lemma TO_not_FROM [simp]: "PP_TO_FPGA \<noteq> PP_FROM_FPGA" "PP_FROM_FPGA \<noteq> PP_TO_FPGA"
  by (simp_all add: PP_TO_FPGA_def PP_FROM_FPGA_def)






subsection \<open>From the connections to the pins\<close>

lemma rx_waiting_cong [simp]:
  "rx_waiting (s\<lparr>pp_delay := d\<rparr>) = rx_waiting s" "rx_waiting (s\<lparr>pp_intransit := b\<rparr>) = rx_waiting s"
  by (simp_all add: rx_waiting_def)




subsection \<open>From the pins to the connections\<close>

lemma waiting_cong [simp]:
  "cmd_waiting (s\<lparr>pp_delay := d\<rparr>) = cmd_waiting s" "con_waiting (s\<lparr>pp_delay := d\<rparr>) = con_waiting s"
  "pp_sizes (s\<lparr>pp_delay := d\<rparr>) = pp_sizes s" "pp_open (s\<lparr>pp_delay := d\<rparr>) = pp_open s"
  by (simp_all add: cmd_waiting_def con_waiting_def pp_sizes_def pp_open_def)







end
