(* ===== verification/UDiv.thy ===== *)
theory UDiv
  imports ZopDecode "HOL-Library.Signed_Division"
begin

text \<open>
  \<open>sw/zlib/udiv.c\<close> and \<open>umod.c\<close>: the division of 64 bit integers for a processor that divides 32 bit ones. The
  source of \<open>cltz\<close> that is modelled is the one in C; \<open>unsigned long\<close> has 64 bits. A negation wraps
  around, as compiled code does.
\<close>

subsection \<open>Model\<close>

fun zip_bitrev_loop :: "nat \<Rightarrow> u32 \<Rightarrow> u32 \<Rightarrow> u32" where
  "zip_bitrev_loop 0 r b = r"
| "zip_bitrev_loop (Suc n) r b = zip_bitrev_loop n (push_bit 1 r OR (b AND 1)) (drop_bit 1 b)"

definition zip_bitrev :: "u32 \<Rightarrow> u32" where
  "zip_bitrev a = zip_bitrev_loop 32 0 a"

text \<open>One of the tests of \<open>cltz\<close>: if the low \<open>n\<close> bits are clear, count them and shift them out.\<close>

definition cltz_step :: "nat \<Rightarrow> u32 \<times> nat \<Rightarrow> u32 \<times> nat" where
  "cltz_step n st = (case st of (hv, cnt) \<Rightarrow> if hv AND mask n = 0 then (drop_bit n hv, cnt + n) else (hv, cnt))"

definition cltz :: "u64 \<Rightarrow> nat" where
  "cltz v =
     (let hv = (ucast (drop_bit 32 v) :: u32); cnt = 0;
          (hv, cnt) = (if hv = 0 then (ucast (v AND 0xffffffff), cnt + 32) else (hv, cnt));
          (hv, cnt) = cltz_step 16 (zip_bitrev hv, cnt);
          (hv, cnt) = cltz_step 8 (hv, cnt);
          (hv, cnt) = cltz_step 4 (hv, cnt);
          (hv, cnt) = cltz_step 2 (hv, cnt)
      in if hv AND 1 = 0 then cnt + 1 else cnt)"

definition shl64 :: "u64 \<Rightarrow> int \<Rightarrow> u64 res" where
  "shl64 v n = (if 0 \<le> n \<and> n < 64 then Inr (push_bit (nat n) v) else Inl BadShift)"

definition div32 :: "u32 \<Rightarrow> u32 \<Rightarrow> u32 res" where
  "div32 a b = (if b = 0 then Inl DivByZero else Inr (a div b))"

lemma drop_bit_smaller: "0 < (m :: u64) \<Longrightarrow> unat (drop_bit 1 m) < unat m"
  by (simp add: drop_bit_eq_div unat_div_distrib unat_gt_0)

function udiv_loop :: "u64 \<Rightarrow> u64 \<Rightarrow> u64 \<Rightarrow> u64 \<Rightarrow> u64" where
  "udiv_loop m a b r =
     (if m > 0 then
        let (r, a) = (if a \<ge> b then (r OR m, a - b) else (r, a)) in
        udiv_loop (drop_bit 1 m) a (drop_bit 1 b) r
      else r)"
  by auto

termination
  by (relation "measure (\<lambda>(m, a, b, r). unat m)") (auto dest: drop_bit_smaller)

declare udiv_loop.simps [simp del]

definition udivdi3 :: "u64 \<Rightarrow> u64 \<Rightarrow> u64 res" where
  "udivdi3 a b =
     (if a < b then Inr 0
      else if drop_bit 32 b = 0 \<and> drop_bit 32 a = 0 then
        bindE (div32 (ucast a) (ucast b)) (\<lambda>ir. Inr (ucast ir))
      else
        let la = int (cltz a); lb = int (cltz b) in
        bindE (shl64 a la) (\<lambda>a.
        bindE (if lb - la < 32 then bindE (shl64 b la) (\<lambda>c. Inr (c AND 0xffffffff = 0)) else Inr False) (\<lambda>short.
        if short then
          bindE (shl64 b la) (\<lambda>b.
          bindE (div32 (ucast (drop_bit 32 a)) (ucast (drop_bit 32 b))) (\<lambda>ir. Inr (ucast ir)))
        else
          bindE (shl64 b lb) (\<lambda>b.
          bindE (shl64 1 (lb - la)) (\<lambda>m. Inr (udiv_loop m a b 0))))))"

definition divdi3 :: "u64 \<Rightarrow> u64 \<Rightarrow> u64 res" where
  "divdi3 a b =
     (let s = False;
          (s, a) = (if sint a < 0 then (True, - a) else (s, a));
          (s, b) = (if sint b < 0 then (\<not> s, - b) else (s, b))
      in bindE (udivdi3 a b) (\<lambda>r. Inr (if s then - r else r)))"

text \<open>The remainder, in \<open>sw/zlib/umod.c\<close>.\<close>

definition umoddi3 :: "u64 \<Rightarrow> u64 \<Rightarrow> u64 res" where
  "umoddi3 a b = bindE (udivdi3 a b) (\<lambda>r. let r = r * b; r = a - r in Inr r)"

subsection \<open>Leading zeros\<close>

lemma zip_bitrev_bit: "bit (zip_bitrev v) k \<longleftrightarrow> k < 32 \<and> bit v (31 - k)"
proof -
  have "zip_bitrev_loop n r b = zip_bitreverse_loop n r b" for n r b
    by (induction n arbitrary: r b) simp_all
  then show ?thesis by (simp add: zip_bitrev_def bit_zip_bitreverse flip: zip_bitreverse_def)
qed

text \<open>In the middle of the tests: \<open>hv\<close> is \<open>h\<close> without \<open>cnt - c\<close> clear low bits, and one of its low \<open>n\<close>
  bits is set.\<close>

definition low_set :: "u32 \<Rightarrow> nat \<Rightarrow> nat \<Rightarrow> u32 \<times> nat \<Rightarrow> bool" where
  "low_set h c n st \<longleftrightarrow> (case st of (hv, cnt) \<Rightarrow> c \<le> cnt \<and> hv = drop_bit (cnt - c) h
     \<and> (\<forall>i<cnt - c. \<not> bit h i) \<and> (\<exists>k<n. bit hv k))"

lemma and_mask_eq_0: "n \<le> 32 \<Longrightarrow> (h :: u32) AND mask n = 0 \<longleftrightarrow> (\<forall>i<n. \<not> bit h i)"
  using bit_imp_le_length [of h] by (fastforce simp: bit_eq_iff bit_and_iff bit_mask_iff)

lemma low_set_step:
  assumes "low_set h c (2 * n) st" "n \<le> 16"
  shows "low_set h c n (cltz_step n st)"
proof -
  obtain hv cnt where st: "st = (hv, cnt)" by (cases st)
  with assms(1) have i: "c \<le> cnt" "hv = drop_bit (cnt - c) h" "\<forall>i<cnt - c. \<not> bit h i" "\<exists>k<2 * n. bit hv k"
    unfolding low_set_def prod.case by blast+
  show ?thesis
  proof (cases "\<forall>i<n. \<not> bit hv i")
    case True
    with i(4) obtain k where k: "k < 2 * n" "bit hv k" "n \<le> k" by (meson not_le)
    have "\<not> bit h j" if "j < cnt + n - c" for j
    proof (cases "j < cnt - c")
      case False
      with that i(1) have "j - (cnt - c) < n" by simp
      with True have "\<not> bit hv (j - (cnt - c))" by simp
      with False i(1) show ?thesis by (simp add: i(2) bit_drop_bit_eq comp_def)
    qed (use i(3) in simp)
    moreover have "drop_bit n hv = drop_bit (cnt + n - c) h" using i(1) by (simp add: i(2) add.commute)
    moreover have "bit (drop_bit n hv) (k - n)" "k - n < n" using k by (simp_all add: bit_drop_bit_eq comp_def)
    ultimately show ?thesis using True i(1) assms(2) by (auto simp: low_set_def cltz_step_def st and_mask_eq_0)
  next
    case False
    then show ?thesis using i assms(2) by (auto simp: low_set_def cltz_step_def st and_mask_eq_0)
  qed
qed

lemma cltz_tests:
  assumes "h \<noteq> 0"
    "cltz_step 2 (cltz_step 4 (cltz_step 8 (cltz_step 16 (h, c)))) = (hv, cnt)"
    "r = (if hv AND 1 = 0 then cnt + 1 else cnt)"
  shows "c \<le> r" "bit h (r - c)" "i < r - c \<Longrightarrow> \<not> bit h i"
proof -
  from assms(1) obtain k where k: "bit h k" by (auto simp: bit_eq_iff)
  then have "k < 32" using bit_imp_le_length by force
  with k have "low_set h c (2 * 16) (h, c)" by (auto simp: low_set_def)
  from low_set_step [OF this] have "low_set h c (2 * 8) (cltz_step 16 (h, c))" by simp
  from low_set_step [OF this] have "low_set h c (2 * 4) (cltz_step 8 (cltz_step 16 (h, c)))" by simp
  from low_set_step [OF this] have "low_set h c (2 * 2) (cltz_step 4 (cltz_step 8 (cltz_step 16 (h, c))))" by simp
  from low_set_step [OF this] have l: "c \<le> cnt" "hv = drop_bit (cnt - c) h" "\<forall>i<cnt - c. \<not> bit h i" "\<exists>k<2. bit hv k"
    unfolding low_set_def assms(2) prod.case by auto
  have and1: "hv AND 1 = 0 \<longleftrightarrow> \<not> bit hv 0"
    using and_mask_eq_0 [of 1 hv] by (simp add: mask_eq_exp_minus_1)
  have "hv AND 1 = 0 \<Longrightarrow> bit hv 1" using l(4) by (auto simp: and1 less_2_cases_iff)
  moreover have "bit hv j = bit h (cnt - c + j)" for j by (simp add: l(2) bit_drop_bit_eq comp_def)
  ultimately show "c \<le> r" "bit h (r - c)" "i < r - c \<Longrightarrow> \<not> bit h i"
    using l(1,3) and1 by (auto simp: assms(3) less_Suc_eq Suc_diff_le split: if_splits)
qed

lemma cltz_bits:
  assumes "v \<noteq> 0"
  shows "cltz v < 64" "bit v (63 - cltz v)" "63 - cltz v < k \<Longrightarrow> \<not> bit v k"
proof -
  define c where "c = (if drop_bit 32 v = 0 then 32 else 0 :: nat)"
  define x where "x = (if drop_bit 32 v = 0 then ucast (v AND 0xffffffff) else ucast (drop_bit 32 v) :: u32)"
  have hi: "(ucast (drop_bit 32 v) :: u32) = 0 \<longleftrightarrow> drop_bit 32 v = 0"
  proof
    assume z: "(ucast (drop_bit 32 v) :: u32) = 0"
    show "drop_bit 32 v = 0"
    proof (rule bit_word_eqI)
      fix n assume "n < LENGTH(64)"
      have "\<not> bit (ucast (drop_bit 32 v) :: u32) n" by (simp add: z)
      then show "bit (drop_bit 32 v) n = bit (0 :: u64) n"
        using bit_imp_le_length [of v "32 + n"] by (auto simp: bit_ucast_iff bit_drop_bit_eq comp_def)
    qed
  qed simp
  have mask32: "(0xffffffff :: u64) = mask 32" by (simp add: mask_eq_exp_minus_1)
  have x: "bit x j \<longleftrightarrow> bit v (j + (32 - c))" if "j < 32" for j
    using that unfolding x_def c_def mask32
    by (simp add: bit_ucast_iff bit_and_iff bit_mask_iff bit_drop_bit_eq add.commute)
  have above: "\<not> bit v j" if "64 - c \<le> j" for j
  proof (cases "drop_bit 32 v = 0")
    case True
    with that have "j = 32 + (j - 32)" by (simp add: c_def)
    moreover have "\<not> bit (drop_bit 32 v) (j - 32)" by (simp add: True)
    ultimately show ?thesis by (metis bit_drop_bit_eq comp_def)
  qed (use that bit_imp_le_length [of v j] in \<open>auto simp: c_def\<close>)
  have "x \<noteq> 0"
  proof
    assume z: "x = 0"
    have "\<not> bit v j" for j
    proof (cases "32 - c \<le> j \<and> j < 64 - c")
      case True
      then have "j - (32 - c) < 32" "j - (32 - c) + (32 - c) = j" by (auto simp: c_def split: if_splits)
      with x [of "j - (32 - c)"] z show ?thesis by simp
    next
      case False
      then show ?thesis using above [of j] z unfolding x_def c_def by (auto simp: hi split: if_splits)
    qed
    with assms show False by (simp add: bit_eq_iff)
  qed
  have h: "zip_bitrev x \<noteq> 0"
  proof -
    from \<open>x \<noteq> 0\<close> obtain j where "bit x j" by (auto simp: bit_eq_iff)
    moreover from this have "j < 32" using bit_imp_le_length by force
    ultimately have "bit (zip_bitrev x) (31 - j)" by (simp add: zip_bitrev_bit)
    then show ?thesis by auto
  qed
  obtain hv cnt where t: "cltz_step 2 (cltz_step 4 (cltz_step 8 (cltz_step 16 (zip_bitrev x, c)))) = (hv, cnt)"
    by (cases "cltz_step 2 (cltz_step 4 (cltz_step 8 (cltz_step 16 (zip_bitrev x, c))))")
  have r: "cltz v = (if hv AND 1 = 0 then cnt + 1 else cnt)"
    using t unfolding cltz_def Let_def x_def c_def hi by (auto split: prod.splits if_splits)
  note b = cltz_tests [OF h t r]
  have "cltz v - c < 32" using b(2) by (simp add: zip_bitrev_bit)
  with b(1) show lt: "cltz v < 64" by (simp add: c_def split: if_splits)
  have "bit x (31 - (cltz v - c))" using b(2) by (simp add: zip_bitrev_bit)
  with x [of "31 - (cltz v - c)"] \<open>cltz v - c < 32\<close> b(1) show "bit v (63 - cltz v)"
    by (simp add: c_def split: if_splits)
  assume k: "63 - cltz v < k"
  show "\<not> bit v k"
  proof (cases "64 - c \<le> k")
    case False
    with k lt have i: "63 - c - k < cltz v - c" "63 - c - k < 32" "k = 31 - (63 - c - k) + (32 - c)"
      using b(1) \<open>cltz v - c < 32\<close> by (auto simp: c_def split: if_splits)
    from b(3) [OF i(1)] i(2) have "\<not> bit x (31 - (63 - c - k))" by (simp add: zip_bitrev_bit)
    moreover have "31 - (63 - c - k) < 32" by simp
    ultimately show ?thesis using x unfolding i(3) [symmetric] by (metis i(3))
  qed (rule above)
qed

lemma unat_bit_le: "bit (v :: u64) k \<Longrightarrow> 2 ^ k \<le> unat v"
proof -
  assume "bit v k"
  then have "bit (unat v) k" by (simp add: bit_unsigned_iff)
  then have "odd (unat v div 2 ^ k)" unfolding bit_iff_odd .
  show ?thesis
  proof (rule ccontr)
    assume "\<not> 2 ^ k \<le> unat v"
    then have "unat v div 2 ^ k = 0" by (intro div_less) (simp only: not_le)
    with \<open>odd (unat v div 2 ^ k)\<close> show False by simp
  qed
qed

lemma cltz_range:
  assumes "v \<noteq> 0"
  shows "2 ^ (63 - cltz v) \<le> unat v" "unat v < 2 ^ (64 - cltz v)"
proof -
  note c = cltz_bits [OF assms]
  show "2 ^ (63 - cltz v) \<le> unat v" by (rule unat_bit_le [OF c(2)])
  have "n < 64 - cltz v" if "bit v n" for n using c(1) c(3) [of n] that by (cases "63 - cltz v < n") auto
  then have "take_bit (64 - cltz v) v = v"
    by (auto intro!: bit_word_eqI simp: bit_take_bit_iff)
  then show "unat v < 2 ^ (64 - cltz v)" by (metis take_bit_nat_less_exp unsigned_take_bit_eq)
qed

subsection \<open>The quotient\<close>

lemma unat_push_bit_u64: "unat v * 2 ^ n < 2 ^ 64 \<Longrightarrow> unat (push_bit n v :: u64) = unat v * 2 ^ n"
  unfolding unsigned_push_bit_eq by (simp add: push_bit_eq_mult take_bit_nat_eq_self)

lemma unat_pow2_u64: "k < 64 \<Longrightarrow> unat (2 ^ k :: u64) = 2 ^ k"
proof -
  assume k: "k < 64"
  then have "(2::nat) ^ k < 2 ^ 64" by (rule power_strict_increasing) simp
  then have "unat (of_nat (2 ^ k) :: u64) = 2 ^ k"
    by (simp only: unsigned_of_nat) (simp add: take_bit_nat_eq_self k)
  then show ?thesis by simp
qed

lemma or_disjoint_u64:
  assumes "2 ^ Suc k dvd unat (r :: u64)" "k < 64"
  shows "unat (r OR 2 ^ k) = unat r + 2 ^ k"
proof -
  have "\<not> bit (unat r) k" using assms(1) by (auto simp: bit_iff_odd elim!: dvdE)
  then have "\<not> bit r k" by (simp add: bit_unsigned_iff)
  then have "r AND 2 ^ k = 0" by (simp add: and_exp_eq_0_iff_not_bit)
  then have "r OR 2 ^ k = r + 2 ^ k" by (rule disjunctive_add_eq_or [symmetric])
  moreover have "unat (r + 2 ^ k) = unat r + 2 ^ k"
  proof -
    have "unat r + 2 ^ k < 2 ^ 64"
    proof -
      obtain q where q: "unat r = 2 ^ Suc k * q" using assms(1) by (elim dvdE)
      have "unat r < 2 ^ 64" by (rule less_le_trans [OF unsigned_less]) simp
      moreover have "(2::nat) ^ 64 = 2 ^ Suc k * 2 ^ (63 - k)" using assms(2) by (simp flip: power_add)
      ultimately have "2 ^ Suc k * q < 2 ^ Suc k * 2 ^ (63 - k)" using q by (simp only:)
      then have "q < 2 ^ (63 - k)" by (simp only: mult_less_cancel1)
      then have "Suc q \<le> 2 ^ (63 - k)" by simp
      then have "2 ^ Suc k * Suc q \<le> 2 ^ Suc k * 2 ^ (63 - k)" by (rule mult_le_mono2)
      then have "2 ^ Suc k * q + 2 ^ Suc k \<le> (2 :: nat) ^ 64"
        using \<open>2 ^ 64 = 2 ^ Suc k * 2 ^ (63 - k)\<close> by (simp only: mult_Suc_right add.commute)
      moreover have "(2::nat) ^ k < 2 ^ Suc k" by simp
      ultimately show ?thesis unfolding q by linarith
    qed
    moreover have "unat (2 ^ k :: u64) = 2 ^ k" by (rule unat_pow2_u64 [OF assms(2)])
    ultimately show ?thesis by (simp add: unat_word_ariths)
  qed
  ultimately show ?thesis by simp
qed

text \<open>The loop with \<open>m = 2\<^sup>k\<close> and \<open>b = d 2\<^sup>k\<close>.\<close>

lemma udiv_loop_spec:
  assumes "k < 64" "0 < d" "unat b = d * 2 ^ k" "unat a < d * 2 ^ Suc k" "2 ^ Suc k dvd unat r"
  shows "unat (udiv_loop (2 ^ k) a b r) = unat r + unat a div d"
  using assms
proof (induction k arbitrary: a b r)
  case 0
  have z: "udiv_loop 0 a' b' r' = r'" for a' b' r' by (subst udiv_loop.simps) simp
  have half: "drop_bit 1 (1 :: u64) = 0" by (rule bit_word_eqI) (simp only: bit_drop_bit_eq comp_def bit_1_iff, simp)
  show ?case
  proof (cases "b \<le> a")
    case True
    then have "unat a div d = 1" using 0 by (intro div_nat_eqI) (simp_all add: word_le_nat_alt)
    moreover have "unat (r OR 1) = unat r + 1" using or_disjoint_u64 [of 0 r] 0(5) by simp
    ultimately show ?thesis using True by (subst udiv_loop.simps) (simp add: half z del: drop_bit_Suc)
  next
    case False
    then have "unat a div d = 0" using 0 by (simp add: word_le_nat_alt)
    with False show ?thesis by (subst udiv_loop.simps) (simp add: half z)
  qed
next
  case (Suc k)
  have half: "drop_bit 1 (2 ^ Suc k :: u64) = 2 ^ k"
    using Suc.prems(1) by (rule_tac bit_word_eqI, auto simp only: bit_drop_bit_eq comp_def bit_exp_iff, simp_all)
  have pos: "(0::u64) < 2 ^ Suc k"
    using unat_pow2_u64 [OF Suc.prems(1)] by (simp only: word_less_nat_alt unat_0) simp
  have hb: "unat (drop_bit 1 b) = d * 2 ^ k" using Suc.prems(3) by (simp add: drop_bit_eq_div unat_div_distrib)
  have dvd: "2 ^ Suc k dvd (n :: nat)" if "2 ^ Suc (Suc k) dvd n" for n
    using that by (metis dvd_trans le_imp_power_dvd le_SucI order_refl)
  show ?case
  proof (cases "b \<le> a")
    case True
    have a: "unat (a - b) = unat a - d * 2 ^ Suc k" using True Suc.prems(3) by (simp add: unat_sub)
    have le: "d * 2 ^ Suc k \<le> unat a" using True Suc.prems(3) by (simp add: word_le_nat_alt)
    have r: "unat (r OR 2 ^ Suc k) = unat r + 2 ^ Suc k" using or_disjoint_u64 [OF Suc.prems(5,1)] .
    have "unat a div d = (unat a - d * 2 ^ Suc k) div d + 2 ^ Suc k"
      using le Suc.prems(2) by (metis div_mult_self4 le_add_diff_inverse2 add.commute neq0_conv)
    moreover have "unat (udiv_loop (2 ^ k) (a - b) (drop_bit 1 b) (r OR 2 ^ Suc k)) = unat (r OR 2 ^ Suc k) + unat (a - b) div d"
    proof (rule Suc.IH)
      show "unat (a - b) < d * 2 ^ Suc k" using a le Suc.prems(4) by (simp add: less_diff_conv2)
      show "2 ^ Suc k dvd unat (r OR 2 ^ Suc k)" unfolding r using dvd [OF Suc.prems(5)] by simp
    qed (use Suc.prems hb in simp_all)
    ultimately show ?thesis using True half pos r a by (subst udiv_loop.simps) simp
  next
    case False
    have "unat (udiv_loop (2 ^ k) a (drop_bit 1 b) r) = unat r + unat a div d"
    proof (rule Suc.IH)
      show "unat a < d * 2 ^ Suc k" using False Suc.prems(3) by (simp add: word_le_nat_alt)
    qed (use Suc.prems hb dvd in simp_all)
    then show ?thesis using False half pos by (subst udiv_loop.simps) simp
  qed
qed

lemma shl64_in: "n < 64 \<Longrightarrow> shl64 v (int n) = Inr (push_bit n v)"
  by (simp add: shl64_def)

lemma cltz_shift: "v \<noteq> 0 \<Longrightarrow> unat (push_bit (cltz v) v) = unat v * 2 ^ cltz v \<and> unat v * 2 ^ cltz v < 2 ^ 64"
proof -
  assume v: "v \<noteq> 0"
  have "unat v * 2 ^ cltz v < 2 ^ (64 - cltz v) * 2 ^ cltz v" using cltz_range(2) [OF v] by simp
  also have "\<dots> = 2 ^ 64" using cltz_bits(1) [OF v] by (simp flip: power_add)
  finally show ?thesis using unat_push_bit_u64 by blast
qed

lemma high_half: "unat (ucast (drop_bit 32 v) :: u32) = unat (v :: u64) div 2 ^ 32"
proof -
  have "unat v < 2 ^ 64" by (rule less_le_trans [OF unsigned_less]) simp
  then have "unat v div 2 ^ 32 < 2 ^ 32" by (intro less_mult_imp_div_less) simp
  moreover have "unat (drop_bit 32 v) = unat v div 2 ^ 32" by (simp add: drop_bit_eq_div unat_div_distrib)
  ultimately show ?thesis by (simp only: unsigned_ucast_eq) (simp add: take_bit_nat_eq_self)
qed

lemma low_half: "drop_bit 32 v = 0 \<Longrightarrow> unat (ucast v :: u32) = unat (v :: u64)"
proof -
  assume "drop_bit 32 v = 0"
  then have "unat v div 2 ^ 32 = 0" using high_half [of v] by simp
  then have "unat v < 2 ^ 32" by (simp add: div_eq_0_iff)
  then show ?thesis by (simp add: unsigned_ucast_eq take_bit_nat_eq_self)
qed

lemma u64_eqI: "unat (x :: u64) = unat y \<Longrightarrow> x = y"
  by (rule unsigned_word_eqI)

lemma udivdi3_div:
  assumes "b \<noteq> 0"
  shows "udivdi3 a b = Inr (a div b)"
proof (cases "a < b \<or> (drop_bit 32 b = 0 \<and> drop_bit 32 a = 0)")
  case True
  show ?thesis
  proof (cases "a < b")
    case False
    with True have z: "drop_bit 32 b = 0" "drop_bit 32 a = 0" by simp_all
    have "unat (ucast b :: u32) \<noteq> 0" using assms low_half [OF z(1)] unat_gt_0 [of b] by simp
    moreover have "(ucast ((ucast a :: u32) div ucast b) :: u64) = a div b"
    proof (rule u64_eqI)
      have "unat (ucast ((ucast a :: u32) div ucast b) :: u64) = unat ((ucast a :: u32) div ucast b)"
        by (simp add: unsigned_ucast_eq) (rule take_bit_nat_eq_self, rule less_le_trans [OF unsigned_less], simp)
      then show "unat (ucast ((ucast a :: u32) div ucast b) :: u64) = unat (a div b)"
        using low_half z by (simp add: unat_div_distrib)
    qed
    ultimately show ?thesis using False z by (auto simp: udivdi3_def div32_def)
  next
    case lt: True
    then have "a div b = 0" by (intro u64_eqI) (simp add: unat_div_distrib word_less_nat_alt)
    with lt show ?thesis by (simp add: udivdi3_def)
  qed
next
  case False
  then have le: "b \<le> a" and a: "a \<noteq> 0" using assms by (auto simp: not_less word_gt_0 dest: order_antisym)
  let ?la = "cltz a" and ?lb = "cltz b"
  note la = cltz_bits(1) [OF a] cltz_range [OF a] cltz_shift [OF a]
  note lb = cltz_bits(1) [OF assms] cltz_range [OF assms] cltz_shift [OF assms]
  have nle: "unat b \<le> unat a" using le by (simp add: word_le_nat_alt)
  have "(2::nat) ^ (63 - ?lb) < 2 ^ (64 - ?la)" using lb(2) la(3) nle by linarith
  then have "63 - ?lb < 64 - ?la" by (rule power_less_imp_less_exp [rotated]) simp
  then have order: "?la \<le> ?lb" using la(1) lb(1) by simp
  have "unat b * 2 ^ ?la \<le> unat a * 2 ^ ?la" using nle by simp
  then have fit: "unat b * 2 ^ ?la < 2 ^ 64" using la(4) by linarith
  define A where "A = push_bit ?la a"
  define C where "C = push_bit ?la b"
  have A: "unat A = unat a * 2 ^ ?la" using la(4) by (simp add: A_def)
  have C: "unat C = unat b * 2 ^ ?la" unfolding C_def by (rule unat_push_bit_u64 [OF fit])
  have q: "unat A div unat C = unat (a div b)" by (simp add: A C unat_div_distrib)
  have b0: "0 < unat b" using assms by (simp add: unat_gt_0)
  show ?thesis
  proof (cases "int ?lb - int ?la < 32 \<and> C AND 0xffffffff = 0")
    case short: True
    let ?ir = "(ucast (drop_bit 32 A) :: u32) div ucast (drop_bit 32 C)"
    have "take_bit 32 C = 0" using short by (simp add: take_bit_eq_mask mask_eq_exp_minus_1)
    then have "unat C mod 2 ^ 32 = 0"
      by (metis take_bit_eq_mod unsigned_0 unsigned_take_bit_eq)
    then have split: "unat C = 2 ^ 32 * (unat C div 2 ^ 32)" using mult_div_mod_eq [of "2 ^ 32" "unat C"] by simp
    have "unat C \<noteq> 0" using b0 C by simp
    with split have nz: "unat C div 2 ^ 32 \<noteq> 0" by (metis mult_0_right)
    have "unat ?ir = unat A div 2 ^ 32 div (unat C div 2 ^ 32)" by (simp only: unat_div_distrib high_half)
    also have "\<dots> = unat A div unat C" by (subst (2) split) (simp only: div_mult2_eq)
    finally have ir: "unat ?ir = unat (a div b)" by (simp only: q)
    have "(ucast ?ir :: u64) = a div b"
    proof (rule u64_eqI)
      have "unat (ucast ?ir :: u64) = unat ?ir"
        unfolding unsigned_ucast_eq by (rule take_bit_nat_eq_self, rule less_le_trans [OF unsigned_less], simp)
      with ir show "unat (ucast ?ir :: u64) = unat (a div b)" by simp
    qed
    moreover have "(ucast (drop_bit 32 C) :: u32) \<noteq> 0" using nz high_half [of C] by (metis unsigned_0)
    ultimately show ?thesis using False short la(1) lb(1)
      by (auto simp add: udivdi3_def shl64_in div32_def Let_def simp flip: A_def C_def)
  next
    case long: False
    let ?k = "?lb - ?la"
    have k: "int ?lb - int ?la = int ?k" "?k < 64" using order lb(1) by auto
    define B where "B = push_bit ?lb b"
    have B: "unat B = unat b * 2 ^ ?la * 2 ^ ?k" using lb(4) order by (simp add: B_def mult.assoc flip: power_add)
    have "(2::nat) ^ (63 - ?lb) * 2 ^ ?lb \<le> unat B" using lb(2,4) by (simp add: B_def)
    moreover have "(2::nat) ^ (63 - ?lb) * 2 ^ ?lb = 2 ^ 63" using lb(1) by (simp flip: power_add)
    ultimately have "2 ^ 64 \<le> 2 * unat B" by simp
    moreover have "unat A < 2 ^ 64" using la(4) A by simp
    ultimately have less: "unat A < unat b * 2 ^ ?la * 2 ^ Suc ?k" using B by simp
    have "unat (udiv_loop (2 ^ ?k) A B 0) = unat A div (unat b * 2 ^ ?la)"
      using udiv_loop_spec [OF k(2) _ B less, of 0] b0 by simp
    then have "udiv_loop (2 ^ ?k) A B 0 = a div b" using q C by (intro u64_eqI) simp
    moreover have "push_bit ?k 1 = (2 :: u64) ^ ?k" by (simp add: push_bit_eq_mult)
    moreover have "shl64 a (int ?la) = Inr A" "shl64 b (int ?la) = Inr C" "shl64 b (int ?lb) = Inr B"
      "shl64 1 (int ?lb - int ?la) = Inr (push_bit ?k 1)"
      unfolding k(1) A_def B_def C_def using la(1) lb(1) k(2) by (simp_all only: shl64_in)
    moreover have "(if int ?lb - int ?la < 32 then bindE (Inr C) (\<lambda>c. Inr (c AND 0xffffffff = 0)) else Inr False)
        = (Inr False :: bool res)" using long by auto
    moreover have "\<not> a < b" "\<not> (drop_bit 32 b = 0 \<and> drop_bit 32 a = 0)" using False by auto
    ultimately show ?thesis
      unfolding udivdi3_def Let_def by (simp only: bindE_simps if_False)
  qed
qed

text \<open>C17. The division routine for 64 bit unsigned integers returns the quotient, for every divisor
  other than zero: none of its shifts is out of range and none of its 32 bit divisions divides by zero.
  The routine for the remainder, which is built on it, returns the remainder.\<close>

theorem udivdi3_is_division: "b \<noteq> 0 \<Longrightarrow> udivdi3 a b = Inr (a div b) \<and> umoddi3 a b = Inr (a mod b)"
  by (simp add: umoddi3_def udivdi3_div minus_div_mult_eq_mod)

subsection \<open>Signed division\<close>

lemma uint_abs:
  "uint (if sint (a :: u64) < 0 then - a else a) = \<bar>sint a\<bar>"
proof -
  have r: "- (2 ^ 63) \<le> sint a" "sint a < 2 ^ 63" using sint_greater_eq [of a] sint_less [of a] by simp_all
  have u: "uint a = sint a mod 2 ^ 64" by (simp add: uint_sint take_bit_eq_mod)
  show ?thesis
  proof (cases "sint a < 0")
    case True
    have "uint (- a) = (- uint a) mod 2 ^ 64" by (simp add: uint_word_ariths)
    also have "\<dots> = (- sint a) mod 2 ^ 64" by (simp only: u mod_minus_eq)
    also have "\<dots> = - sint a" using True r by (intro mod_pos_pos_trivial) simp_all
    finally show ?thesis using True by simp
  next
    case False
    then show ?thesis using r by (simp add: u)
  qed
qed

lemma of_int_quotient: "(word_of_int (uint (a div b)) :: u64) = word_of_int (uint a div uint b)"
  by (simp add: uint_div_distrib)

lemma divdi3_sdiv:
  assumes "b \<noteq> 0"
  shows "divdi3 a b = Inr (word_of_int (sint a sdiv sint b))"
proof -
  let ?a = "if sint a < 0 then - a else a" and ?b = "if sint b < 0 then - b else b"
  have q: "?a div ?b = word_of_int (\<bar>sint a\<bar> div \<bar>sint b\<bar>)"
    using of_int_quotient [of ?a ?b] unfolding uint_abs by simp
  have "?b \<noteq> 0" using assms by simp
  from udivdi3_div [OF this, of ?a] have u: "udivdi3 ?a ?b = Inr (word_of_int (\<bar>sint a\<bar> div \<bar>sint b\<bar>))"
    by (simp only: q)
  have "sint b \<noteq> 0" using assms by (simp add: signed_eq_0_iff)
  then have "sint a sdiv sint b =
      (if (sint a < 0) = (sint b < 0) then \<bar>sint a\<bar> div \<bar>sint b\<bar> else - (\<bar>sint a\<bar> div \<bar>sint b\<bar>))"
    by (auto simp: signed_divide_int_def sgn_if)
  then have r: "(word_of_int (sint a sdiv sint b) :: u64) =
      (if (sint a < 0) = (sint b < 0) then word_of_int (\<bar>sint a\<bar> div \<bar>sint b\<bar>)
       else - word_of_int (\<bar>sint a\<bar> div \<bar>sint b\<bar>))"
    by (simp add: word_of_int_minus)
  show ?thesis
    using u unfolding divdi3_def Let_def r by (cases "sint a < 0"; cases "sint b < 0") simp_all
qed

text \<open>The division routine for 64 bit signed integers returns the quotient rounded towards zero, as
  C wants it, for every divisor other than zero and whatever the signs.\<close>

theorem divdi3_truncates: "b \<noteq> 0 \<Longrightarrow> divdi3 a b = Inr (word_of_int (sint a sdiv sint b))"
  by (rule divdi3_sdiv)

subsection \<open>Witnesses\<close>

theorem udivdi3_is_division_witness: "udivdi3 1000000000000 7 = Inr 142857142857 \<and> umoddi3 1000000000000 7 = Inr 1"
  using udivdi3_is_division [of 7 1000000000000] by simp

theorem divdi3_truncates_witness: "divdi3 (- 1000000000000) 7 = Inr (- 142857142857)"
  using divdi3_truncates [of 7 "- 1000000000000"] by (simp add: signed_divide_int_def)

end
