(* ===== verification/Wavelet.thy ===== *)
theory Wavelet
  imports Prelude
begin

text \<open>
  \<open>sw/board/lifting.c\<close>: the wavelet transform of an image by lifting steps and its inverse. A pointer
  into a buffer is an index; an \<open>int\<close> of the image is a 32 bit word, whose additions wrap around and
  whose shift to the right keeps the sign. The indices stay small and are natural numbers.
\<close>

subsection \<open>Model\<close>

type_synonym s32 = "32 word"

abbreviation asr :: "nat \<Rightarrow> s32 \<Rightarrow> s32" where "asr \<equiv> signed_drop_bit"

text \<open>The loop over the columns of \<open>singlelift\<close>, \<open>n\<close> rounds: the pointers \<open>ip\<close>, \<open>op\<close>, \<open>opb\<close> and the
  registers \<open>cp\<close>, \<open>d\<close>.\<close>

fun singlelift_cols ::
    "nat \<Rightarrow> nat \<Rightarrow> s32 list \<Rightarrow> nat \<Rightarrow> nat \<Rightarrow> nat \<Rightarrow> s32 \<Rightarrow> s32 \<Rightarrow> s32 list \<Rightarrow> (nat \<times> nat \<times> s32 \<times> s32 \<times> s32 list) res" where
  "singlelift_cols 0 rb ibuf ip op opb cp d obuf = Inr (op, opb, cp, d, obuf)"
| "singlelift_cols (Suc n) rb ibuf ip op opb cp d obuf =
     (let op = op + rb; opb = opb + rb; ap = cp; b = d in
      bindE (aget ibuf ip) (\<lambda>cp.
      bindE (aget ibuf (ip + 1)) (\<lambda>d.
      let cp = cp - asr 1 (b + d) in
      bindE (aset obuf op ap) (\<lambda>obuf.
      bindE (aset obuf opb (b + asr 2 (ap + cp + 2))) (\<lambda>obuf.
        singlelift_cols n rb ibuf (ip + 2) op opb cp d obuf)))))"

definition singlelift_row :: "nat \<Rightarrow> nat \<Rightarrow> s32 list \<Rightarrow> nat \<Rightarrow> nat \<Rightarrow> nat \<Rightarrow> s32 list \<Rightarrow> s32 list res" where
  "singlelift_row rb w ibuf ioff ooff row obuf =
     (let ip = ioff + row * rb; op = ooff + row; opb = op + w * rb div 2 in
      bindE (aget ibuf ip) (\<lambda>ap.
      bindE (aget ibuf (ip + 1)) (\<lambda>b.
      bindE (aget ibuf (ip + 2)) (\<lambda>cp.
      bindE (aget ibuf (ip + 3)) (\<lambda>d.
      let ap = ap - b; cp = cp - asr 1 (b + d) in
      bindE (aset obuf op ap) (\<lambda>obuf.
      bindE (aset obuf opb (b + asr 2 (ap + cp + 2))) (\<lambda>obuf.
      bindE (singlelift_cols (w div 2 - 2) rb ibuf (ip + 4) op opb cp d obuf) (\<lambda>(op, opb, cp, d, obuf).
      let op = op + rb; opb = opb + rb in
      bindE (aset obuf op cp) (\<lambda>obuf.
        aset obuf opb (d + asr 3 (cp + 1)))))))))))"

text \<open>The loop over the rows, \<open>n\<close> of them from \<open>row\<close> on.\<close>

fun each_row :: "nat \<Rightarrow> nat \<Rightarrow> (nat \<Rightarrow> s32 list \<Rightarrow> s32 list res) \<Rightarrow> s32 list \<Rightarrow> s32 list res" where
  "each_row 0 row body obuf = Inr obuf"
| "each_row (Suc n) row body obuf = bindE (body row obuf) (each_row n (Suc row) body)"

definition singlelift :: "nat \<Rightarrow> nat \<Rightarrow> s32 list \<Rightarrow> nat \<Rightarrow> nat \<Rightarrow> s32 list \<Rightarrow> s32 list res" where
  "singlelift rb w ibuf ioff ooff obuf = each_row w 0 (singlelift_row rb w ibuf ioff ooff) obuf"

fun ilift_cols ::
    "nat \<Rightarrow> nat \<Rightarrow> s32 list \<Rightarrow> nat \<Rightarrow> nat \<Rightarrow> nat \<Rightarrow> s32 \<Rightarrow> s32 \<Rightarrow> s32 \<Rightarrow> s32 list
       \<Rightarrow> (nat \<times> nat \<times> s32 \<times> s32 \<times> s32 \<times> s32 list) res" where
  "ilift_cols 0 rb ibuf ip ipb op b d e obuf = Inr (ipb, op, b, d, e, obuf)"
| "ilift_cols (Suc n) rb ibuf ip ipb op b d e obuf =
     (let op = op + 2; ip = ip + rb; ipb = ipb + rb; c = e; b = d in
      bindE (aget ibuf ip) (\<lambda>e.
      bindE (aget ibuf ipb) (\<lambda>p.
      let d = p - asr 2 (c + e + 2); c = c + asr 1 (b + d) in
      bindE (aset obuf op c) (\<lambda>obuf.
      bindE (aset obuf (op + 1) d) (\<lambda>obuf.
        ilift_cols n rb ibuf ip ipb op b d e obuf)))))"

text \<open>The register \<open>b\<close> starts with whatever it held, \<open>b0\<close>.\<close>

definition ilift_row :: "s32 \<Rightarrow> nat \<Rightarrow> nat \<Rightarrow> s32 list \<Rightarrow> nat \<Rightarrow> nat \<Rightarrow> nat \<Rightarrow> s32 list \<Rightarrow> s32 list res" where
  "ilift_row b0 rb w ibuf ioff ooff row obuf =
     (let op = ooff + row * rb; ip = ioff + row; ipb = ip + w * rb div 2 in
      bindE (aget ibuf ip) (\<lambda>c.
      let ip = ip + rb in
      bindE (aget ibuf ip) (\<lambda>e.
      bindE (aget ibuf ipb) (\<lambda>p.
      let d = p - asr 2 (c + e + 2) in
      bindE (aset obuf op (c + d)) (\<lambda>obuf.
      bindE (aset obuf (op + 1) d) (\<lambda>obuf.
      bindE (ilift_cols (w div 2 - 2) rb ibuf ip ipb op b0 d e obuf) (\<lambda>(ipb, op, b, d, e, obuf).
      let ipb = ipb + rb in
      bindE (aget ibuf ipb) (\<lambda>p.
      let d = p - asr 3 (e + 1); c = e + asr 1 (b + d) in
      bindE (aset obuf (op + 2) c) (\<lambda>obuf.
        aset obuf (op + 3) d)))))))))"

definition ilift :: "s32 \<Rightarrow> nat \<Rightarrow> nat \<Rightarrow> s32 list \<Rightarrow> nat \<Rightarrow> nat \<Rightarrow> s32 list \<Rightarrow> s32 list res" where
  "ilift b0 rb w ibuf ioff ooff obuf = each_row w 0 (ilift_row b0 rb w ibuf ioff ooff) obuf"

text \<open>The levels of \<open>lifting\<close>: both buffers, the width, the offset of the subimage in both of them and
  the offsets \<open>ov\<close>. The last level comes first in \<open>ov\<close> here.\<close>

definition LVLS :: nat where "LVLS = 3"

fun lifting_down :: "nat \<Rightarrow> nat \<Rightarrow> nat \<Rightarrow> nat \<Rightarrow> nat list \<Rightarrow> s32 list \<Rightarrow> s32 list \<Rightarrow> (nat \<times> nat list \<times> s32 list \<times> s32 list) res" where
  "lifting_down 0 rb w off ov ibuf tmp = Inr (w, ov, ibuf, tmp)"
| "lifting_down (Suc n) rb w off ov ibuf tmp =
     bindE (singlelift rb w ibuf off off tmp) (\<lambda>tmp.
     bindE (singlelift rb w tmp off off ibuf) (\<lambda>ibuf.
     let offset = w * rb div 2 + w div 2 in
       lifting_down n rb (w div 2) (off + offset) ((offset + (case ov of [] \<Rightarrow> 0 | o' # _ \<Rightarrow> o')) # ov) ibuf tmp))"

fun lifting_up :: "s32 \<Rightarrow> nat \<Rightarrow> nat \<Rightarrow> nat list \<Rightarrow> s32 list \<Rightarrow> s32 list \<Rightarrow> (s32 list \<times> s32 list) res" where
  "lifting_up b0 rb w [] ibuf tmp = Inr (ibuf, tmp)"
| "lifting_up b0 rb w (_ # ov) ibuf tmp =
     (let w = 2 * w; offset = (case ov of [] \<Rightarrow> 0 | o' # _ \<Rightarrow> o') in
      bindE (ilift b0 rb w ibuf offset offset tmp) (\<lambda>tmp.
      bindE (ilift b0 rb w tmp offset offset ibuf) (\<lambda>ibuf.
        lifting_up b0 rb w ov ibuf tmp)))"

definition lifting :: "s32 \<Rightarrow> nat \<Rightarrow> s32 list \<Rightarrow> s32 list \<Rightarrow> s32 \<Rightarrow> (s32 list \<times> s32 list) res" where
  "lifting b0 w ibuf tmp fwd =
     bindE (lifting_down LVLS w w 0 [] ibuf tmp) (\<lambda>(w', ov, ibuf, tmp).
       if fwd = 0 then lifting_up b0 w w' ov ibuf tmp else Inr (ibuf, tmp))"

end
