(* ===== verification/WaveletProps.thy ===== *)
theory WaveletProps
  imports Wavelet
begin

text \<open>
  What one level of the transform computes, that its inverse restores all columns but one, and that
  the whole transform stays inside its buffers.
\<close>

subsection \<open>The transform of one line\<close>

text \<open>The line \<open>x\<close> has \<open>2h\<close> samples.\<close>

fun hp :: "(nat \<Rightarrow> s32) \<Rightarrow> nat \<Rightarrow> s32" where
  "hp x 0 = x 0 - x 1"
| "hp x (Suc j) = x (2 * j + 2) - asr 1 (x (2 * j + 1) + x (2 * j + 3))"

definition lp :: "(nat \<Rightarrow> s32) \<Rightarrow> nat \<Rightarrow> nat \<Rightarrow> s32" where
  "lp x h j = (if j + 1 < h then x (2 * j + 1) + asr 2 (hp x j + hp x (j + 1) + 2)
     else x (2 * j + 1) + asr 3 (hp x j + 1))"

definition both_bands :: "(nat \<Rightarrow> s32) \<Rightarrow> nat \<Rightarrow> nat \<Rightarrow> s32" where
  "both_bands x h j = (if j < h then hp x j else lp x h (j - h))"

text \<open>A buffer in which one line of a strided grid has been written.\<close>

definition column_is :: "nat \<Rightarrow> nat \<Rightarrow> (nat \<Rightarrow> bool) \<Rightarrow> (nat \<Rightarrow> s32) \<Rightarrow> s32 list \<Rightarrow> s32 list \<Rightarrow> bool" where
  "column_is k rb J y old new \<longleftrightarrow> length new = length old \<and> (\<forall>j. J j \<longrightarrow> new ! (k + j * rb) = y j)
     \<and> (\<forall>i. (\<forall>j. J j \<longrightarrow> i \<noteq> k + j * rb) \<longrightarrow> new ! i = old ! i)"

lemma column_is_none: "(\<And>j. \<not> J j) \<Longrightarrow> column_is k rb J y old old"
  by (simp add: column_is_def)

lemma column_is_update:
  assumes "column_is k rb J y old new" "k + j * rb < length old" "0 < rb" "v = y j"
  shows "column_is k rb (\<lambda>i. J i \<or> i = j) y old (new[k + j * rb := v])"
  using assms by (auto simp: column_is_def nth_list_update)

lemma column_is_cong: "column_is k rb J y old new \<Longrightarrow> (\<And>j. J j \<longleftrightarrow> J' j) \<Longrightarrow> column_is k rb J' y old new"
  by (simp add: column_is_def)

lemma column_is_length: "column_is k rb J y old new \<Longrightarrow> length new = length old"
  by (simp add: column_is_def)

definition written :: "nat \<Rightarrow> nat \<Rightarrow> nat \<Rightarrow> bool" where
  "written h m j \<longleftrightarrow> j < m \<or> h \<le> j \<and> j < h + m"

lemma written_Suc: "written h (Suc m) j \<longleftrightarrow> (written h m j \<or> j = m) \<or> j = h + m"
  by (auto simp: written_def)

lemma write_bands:
  assumes "column_is k rb (written h m) y old new" "k + (h + m) * rb < length old" "0 < rb"
    "u = y m" "v = y (h + m)"
  shows "\<exists>b1 b2. aset new (k + m * rb) u = Inr b1 \<and> aset b1 (k + (h + m) * rb) v = Inr b2
    \<and> column_is k rb (written h (Suc m)) y old b2"
proof -
  have in1: "k + m * rb < length old" using assms(2) by (simp add: add_mult_distrib)
  note len = column_is_length [OF assms(1)]
  from column_is_update [OF assms(1) in1 assms(3,4)]
  have 1: "column_is k rb (\<lambda>i. written h m i \<or> i = m) y old (new[k + m * rb := u])" .
  from column_is_update [OF 1 assms(2,3,5)]
  have "column_is k rb (written h (Suc m)) y old (new[k + m * rb := u, k + (h + m) * rb := v])"
    by (rule column_is_cong) (simp add: written_Suc)
  then show ?thesis using in1 assms(2) len by simp
qed

subsection \<open>singlelift\<close>

lemma cols_bands:
  assumes "\<And>c. c < 2 * h \<Longrightarrow> base + c < length ibuf \<and> ibuf ! (base + c) = x c"
    "\<And>j. j < 2 * h \<Longrightarrow> k + j * rb < length old" "0 < rb" "m + n + 2 \<le> h"
    "column_is k rb (written h (Suc m)) (both_bands x h) old buf"
  shows "\<exists>buf'. singlelift_cols n rb ibuf (base + 2 * m + 4) (k + m * rb) (k + (h + m) * rb) (hp x (Suc m)) (x (2 * m + 3)) buf
      = Inr (k + (m + n) * rb, k + (h + m + n) * rb, hp x (Suc (m + n)), x (2 * (m + n) + 3), buf')
    \<and> column_is k rb (written h (Suc (m + n))) (both_bands x h) old buf'"
  using assms(4,5)
proof (induction n arbitrary: m buf)
  case 0
  then show ?case by simp
next
  case (Suc n)
  have r: "base + 2 * m + 4 < length ibuf" "ibuf ! (base + 2 * m + 4) = x (2 * m + 4)"
    "base + 2 * m + 5 < length ibuf" "ibuf ! (base + 2 * m + 5) = x (2 * m + 5)"
    using assms(1) [of "2 * m + 4"] assms(1) [of "2 * m + 5"] Suc.prems(1) by (simp_all add: add.assoc)
  have cp: "x (2 * m + 4) - asr 1 (x (2 * m + 3) + x (2 * m + 5)) = hp x (Suc (Suc m))" by (simp add: numeral_eq_Suc)
  have u: "hp x (Suc m) = both_bands x h (Suc m)" using Suc.prems(1) by (simp add: both_bands_def)
  have v: "x (2 * m + 3) + asr 2 (hp x (Suc m) + hp x (Suc (Suc m)) + 2) = both_bands x h (h + Suc m)"
    using Suc.prems(1) by (simp add: both_bands_def lp_def numeral_eq_Suc)
  have "k + (h + Suc m) * rb < length old" using assms(2) [of "h + Suc m"] Suc.prems(1) by simp
  from write_bands [OF Suc.prems(2) this assms(3) u v] obtain b1 b2 where b:
    "aset buf (k + Suc m * rb) (hp x (Suc m)) = Inr b1"
    "aset b1 (k + (h + Suc m) * rb) (x (2 * m + 3) + asr 2 (hp x (Suc m) + hp x (Suc (Suc m)) + 2)) = Inr b2"
    "column_is k rb (written h (Suc (Suc m))) (both_bands x h) old b2" by blast
  have eqs: "k + m * rb + rb = k + Suc m * rb" "k + (h + m) * rb + rb = k + (h + Suc m) * rb"
    "base + 2 * m + 4 + 2 = base + 2 * Suc m + 4" "base + 2 * m + 4 + 1 = base + 2 * m + 5" "x (2 * m + 5) = x (2 * Suc m + 3)"
    by (simp_all add: numeral_eq_Suc)
  have "singlelift_cols (Suc n) rb ibuf (base + 2 * m + 4) (k + m * rb) (k + (h + m) * rb) (hp x (Suc m)) (x (2 * m + 3)) buf
      = singlelift_cols n rb ibuf (base + 2 * Suc m + 4) (k + Suc m * rb) (k + (h + Suc m) * rb) (hp x (Suc (Suc m)))
          (x (2 * m + 5)) b2"
    unfolding singlelift_cols.simps Let_def eqs(1-4) aget_in [OF r(1)] aget_in [OF r(3)] bindE_simps r(2,4) cp b(1,2) ..
  moreover from Suc.IH [of "Suc m" b2] Suc.prems(1) b(3) obtain buf' where
    "singlelift_cols n rb ibuf (base + 2 * Suc m + 4) (k + Suc m * rb) (k + (h + Suc m) * rb) (hp x (Suc (Suc m)))
        (x (2 * Suc m + 3)) b2
      = Inr (k + (Suc m + n) * rb, k + (h + Suc m + n) * rb, hp x (Suc (Suc m + n)), x (2 * (Suc m + n) + 3), buf')"
    "column_is k rb (written h (Suc (Suc m + n))) (both_bands x h) old buf'" by auto
  moreover have "Suc m + n = m + Suc n" "h + Suc m + n = h + m + Suc n" by simp_all
  ultimately show ?case unfolding eqs(5) by metis
qed

lemma row_bands:
  assumes "\<And>c. c < 2 * h \<Longrightarrow> ioff + row * rb + c < length ibuf \<and> ibuf ! (ioff + row * rb + c) = x c"
    "\<And>j. j < 2 * h \<Longrightarrow> ooff + row + j * rb < length obuf" "0 < rb" "2 \<le> h"
  shows "\<exists>buf. singlelift_row rb (2 * h) ibuf ioff ooff row obuf = Inr buf
    \<and> column_is (ooff + row) rb (\<lambda>j. j < 2 * h) (both_bands x h) obuf buf"
proof -
  let ?k = "ooff + row" and ?base = "ioff + row * rb"
  have r: "?base < length ibuf" "ibuf ! ?base = x 0" "?base + 1 < length ibuf" "ibuf ! (?base + 1) = x 1"
    "?base + 2 < length ibuf" "ibuf ! (?base + 2) = x 2" "?base + 3 < length ibuf" "ibuf ! (?base + 3) = x 3"
    using assms(1) [of 0] assms(1) [of 1] assms(1) [of 2] assms(1) [of 3] assms(4) by simp_all
  have half: "2 * h * rb div 2 = h * rb" "2 * h div 2 = h" by simp_all
  have ap: "x 0 - x 1 = both_bands x h 0" "x 2 - asr 1 (x 1 + x 3) = hp x (Suc 0)"
    "x 1 + asr 2 (x 0 - x 1 + hp x (Suc 0) + 2) = both_bands x h (h + 0)"
    using assms(4) by (simp_all add: both_bands_def lp_def numeral_eq_Suc)
  have none: "column_is ?k rb (written h 0) (both_bands x h) obuf obuf" by (rule column_is_none) (simp add: written_def)
  have "?k + (h + 0) * rb < length obuf" using assms(2) [of h] assms(4) by simp
  from write_bands [OF none this assms(3) ap(1,3)] obtain b1 b2 where b:
    "aset obuf (?k + 0 * rb) (x 0 - x 1) = Inr b1"
    "aset b1 (?k + (h + 0) * rb) (x 1 + asr 2 (x 0 - x 1 + hp x (Suc 0) + 2)) = Inr b2"
    "column_is ?k rb (written h (Suc 0)) (both_bands x h) obuf b2" by blast
  obtain n where n: "h = Suc (Suc n)" using assms(4) by (metis Suc_le_D numeral_2_eq_2 Suc_le_mono)
  from cols_bands [of h ?base ibuf x ?k rb obuf 0 n b2, OF assms(1,2,3) _ b(3)] obtain b3 where b3:
    "singlelift_cols n rb ibuf (?base + 4) ?k (?k + h * rb) (hp x (Suc 0)) (x 3) b2
      = Inr (?k + n * rb, ?k + (h + n) * rb, hp x (Suc n), x (2 * n + 3), b3)"
    "column_is ?k rb (written h (Suc n)) (both_bands x h) obuf b3" by (auto simp: n)
  have u: "hp x (Suc n) = both_bands x h (Suc n)" "x (2 * n + 3) + asr 3 (hp x (Suc n) + 1) = both_bands x h (h + Suc n)"
    by (simp_all add: both_bands_def lp_def n numeral_eq_Suc)
  have "?k + (h + Suc n) * rb < length obuf" using assms(2) [of "h + Suc n"] by (simp add: n)
  from write_bands [OF b3(2) this assms(3) u] obtain b4 b5 where b5:
    "aset b3 (?k + Suc n * rb) (hp x (Suc n)) = Inr b4"
    "aset b4 (?k + (h + Suc n) * rb) (x (2 * n + 3) + asr 3 (hp x (Suc n) + 1)) = Inr b5"
    "column_is ?k rb (written h (Suc (Suc n))) (both_bands x h) obuf b5" by blast
  have eqs: "?k + n * rb + rb = ?k + Suc n * rb" "?k + (h + n) * rb + rb = ?k + (h + Suc n) * rb" "h - 2 = n"
    "?k + 0 * rb = ?k" "?k + (h + 0) * rb = ?k + h * rb" by (simp_all add: n)
  have "singlelift_row rb (2 * h) ibuf ioff ooff row obuf = Inr b5"
    unfolding singlelift_row_def Let_def half eqs(3) aget_in [OF r(1)] aget_in [OF r(3)] aget_in [OF r(5)] aget_in [OF r(7)]
      bindE_simps r(2,4,6,8) ap(2) b(1,2) [unfolded eqs(4,5)] b3(1) prod.case eqs(1,2) b5(1,2) ..
  moreover have "column_is ?k rb (\<lambda>j. j < 2 * h) (both_bands x h) obuf b5"
    using b5(3) by (rule column_is_cong) (auto simp: written_def n)
  ultimately show ?thesis by blast
qed

subsection \<open>All rows\<close>

text \<open>A buffer in which a square of width \<open>w\<close> has been written; \<open>p\<close> gives the place of an element.\<close>

definition square_is :: "(nat \<Rightarrow> nat \<Rightarrow> nat) \<Rightarrow> nat \<Rightarrow> nat \<Rightarrow> (nat \<Rightarrow> nat \<Rightarrow> s32) \<Rightarrow> s32 list \<Rightarrow> s32 list \<Rightarrow> bool" where
  "square_is p n w y old new \<longleftrightarrow> length new = length old \<and> (\<forall>r<n. \<forall>j<w. new ! p r j = y r j)
     \<and> (\<forall>i. (\<forall>r<n. \<forall>j<w. i \<noteq> p r j) \<longrightarrow> new ! i = old ! i)"

definition line_is :: "(nat \<Rightarrow> nat) \<Rightarrow> nat \<Rightarrow> (nat \<Rightarrow> s32) \<Rightarrow> s32 list \<Rightarrow> s32 list \<Rightarrow> bool" where
  "line_is p w y old new \<longleftrightarrow> length new = length old \<and> (\<forall>j<w. new ! p j = y j)
     \<and> (\<forall>i. (\<forall>j<w. i \<noteq> p j) \<longrightarrow> new ! i = old ! i)"

lemma column_line: "column_is k rb (\<lambda>j. j < w) y old new = line_is (\<lambda>j. k + j * rb) w y old new"
  by (simp add: column_is_def line_is_def)

lemma square_add_line:
  assumes "square_is p r w y old b" "line_is (p r) w (y r) b b'"
    "\<And>r' j j'. r' < r \<Longrightarrow> j < w \<Longrightarrow> j' < w \<Longrightarrow> p r' j \<noteq> p r j'"
  shows "square_is p (Suc r) w y old b'"
proof -
  have "b' ! p r' j = y r' j" if "r' < Suc r" "j < w" for r' j
  proof (cases "r' = r")
    case False
    with that have "r' < r" by simp
    with assms(3) that have "b' ! p r' j = b ! p r' j" using assms(2) by (simp add: line_is_def)
    with \<open>r' < r\<close> that assms(1) show ?thesis by (simp add: square_is_def)
  qed (use assms(2) that in \<open>simp add: line_is_def\<close>)
  moreover have "b' ! i = old ! i" if "\<forall>r'<Suc r. \<forall>j<w. i \<noteq> p r' j" for i
  proof -
    have "b' ! i = b ! i" using that assms(2) by (simp add: line_is_def)
    also have "\<dots> = old ! i" using that assms(1) by (simp add: square_is_def)
    finally show ?thesis .
  qed
  ultimately show ?thesis using assms(1,2) by (simp add: square_is_def line_is_def)
qed

lemma each_row_square:
  assumes "\<And>r b. r < w \<Longrightarrow> length b = length old \<Longrightarrow> \<exists>b'. body r b = Inr b' \<and> line_is (p r) w (y r) b b'"
    "\<And>r r' j j'. r < w \<Longrightarrow> r' < w \<Longrightarrow> j < w \<Longrightarrow> j' < w \<Longrightarrow> p r j = p r' j' \<Longrightarrow> r = r'"
    "r + n = w" "square_is p r w y old b"
  shows "\<exists>new. each_row n r body b = Inr new \<and> square_is p w w y old new"
  using assms(3,4)
proof (induction n arbitrary: r b)
  case (Suc n)
  then have r: "r < w" and len: "length b = length old" by (auto simp: square_is_def)
  from assms(1) [OF r len] obtain b' where b': "body r b = Inr b'" "line_is (p r) w (y r) b b'" by blast
  have "square_is p (Suc r) w y old b'"
    using Suc.prems(2) b'(2)
  proof (rule square_add_line)
    fix r' j j'
    assume "r' < r" "j < w" "j' < w"
    with assms(2) [of r' r j j'] r show "p r' j \<noteq> p r j'" by auto
  qed
  with Suc.IH [of "Suc r" b'] Suc.prems(1) b'(1) show ?case by simp
qed simp

lemma each_row_all:
  assumes "\<And>r b. r < w \<Longrightarrow> length b = length old \<Longrightarrow> \<exists>b'. body r b = Inr b' \<and> line_is (p r) w (y r) b b'"
    "\<And>r r' j j'. r < w \<Longrightarrow> r' < w \<Longrightarrow> j < w \<Longrightarrow> j' < w \<Longrightarrow> p r j = p r' j' \<Longrightarrow> r = r'"
  shows "\<exists>new. each_row w 0 body old = Inr new \<and> square_is p w w y old new"
  by (rule each_row_square [OF assms]) (simp_all add: square_is_def)

text \<open>The square of width \<open>w\<close> at \<open>off\<close> in rows of \<open>rb\<close> lies inside a buffer of \<open>n\<close>.\<close>

definition fits :: "nat \<Rightarrow> nat \<Rightarrow> nat \<Rightarrow> nat \<Rightarrow> bool" where
  "fits off rb w n \<longleftrightarrow> w \<le> rb \<and> (\<forall>r<w. \<forall>c<w. off + r * rb + c < n)"

lemma fitsD: "fits off rb w n \<Longrightarrow> r < w \<Longrightarrow> c < w \<Longrightarrow> off + r * rb + c < n" "fits off rb w n \<Longrightarrow> w \<le> rb"
  by (simp_all add: fits_def)

lemma grid_inj_col: "r < rb \<Longrightarrow> r' < (rb :: nat) \<Longrightarrow> off + r + j * rb = off + r' + j' * rb \<Longrightarrow> r = r'"
  by (metis add.assoc add_left_cancel mod_less mod_mult_self1)

lemma grid_inj_row: "c < rb \<Longrightarrow> c' < (rb :: nat) \<Longrightarrow> off + r * rb + c = off + r' * rb + c' \<Longrightarrow> r = r'"
proof -
  assume "c < rb" "c' < rb" "off + r * rb + c = off + r' * rb + c'"
  then have "(c + r * rb) div rb = (c' + r' * rb) div rb" by (simp add: add.commute)
  with \<open>c < rb\<close> \<open>c' < rb\<close> show "r = r'" by simp
qed

definition row_of :: "nat \<Rightarrow> nat \<Rightarrow> s32 list \<Rightarrow> nat \<Rightarrow> nat \<Rightarrow> s32" where
  "row_of off rb buf r c = buf ! (off + r * rb + c)"

lemma singlelift_bands:
  assumes "2 \<le> h" "fits ioff rb (2 * h) (length ibuf)" "fits ooff rb (2 * h) (length obuf)"
  shows "\<exists>buf. singlelift rb (2 * h) ibuf ioff ooff obuf = Inr buf
    \<and> square_is (\<lambda>r j. ooff + r + j * rb) (2 * h) (2 * h) (\<lambda>r. both_bands (row_of ioff rb ibuf r) h) obuf buf"
  unfolding singlelift_def
proof (rule each_row_all)
  fix r and b :: "s32 list"
  assume r: "r < 2 * h" and len: "length b = length obuf"
  have rb: "0 < rb" using fitsD(2) [OF assms(2)] assms(1) by simp
  have "ooff + r + j * rb < length b" if "j < 2 * h" for j
    using fitsD(1) [OF assms(3) that r] len by (simp add: ac_simps)
  from row_bands [of h ioff r rb ibuf "row_of ioff rb ibuf r" ooff b, OF _ this rb assms(1)] fitsD(1) [OF assms(2) r]
  show "\<exists>b'. singlelift_row rb (2 * h) ibuf ioff ooff r b = Inr b'
      \<and> line_is (\<lambda>j. ooff + r + j * rb) (2 * h) (both_bands (row_of ioff rb ibuf r) h) b b'"
    unfolding column_line by (auto simp only: row_of_def)
next
  fix r r' j j'
  assume r: "r < 2 * h" "r' < 2 * h" "ooff + r + j * rb = ooff + r' + j' * rb"
  show "r = r'" by (rule grid_inj_col [OF _ _ r(3)]) (use r(1,2) fitsD(2) [OF assms(2)] in linarith)+
qed

subsection \<open>ilift\<close>

text \<open>The inverse of a line, as the code computes it: for the last even sample it takes the odd sample
  before the one it should take, and for \<open>h = 2\<close> what the register \<open>b\<close> held.\<close>

definition ilow :: "(nat \<Rightarrow> s32) \<Rightarrow> nat \<Rightarrow> nat \<Rightarrow> s32" where
  "ilow y h j = (if j + 1 < h then y (h + j) - asr 2 (y j + y (j + 1) + 2) else y (h + j) - asr 3 (y j + 1))"

fun iprev :: "s32 \<Rightarrow> (nat \<Rightarrow> s32) \<Rightarrow> nat \<Rightarrow> nat \<Rightarrow> s32" where
  "iprev b0 y h 0 = b0"
| "iprev b0 y h (Suc m) = ilow y h m"

definition ihigh :: "s32 \<Rightarrow> (nat \<Rightarrow> s32) \<Rightarrow> nat \<Rightarrow> nat \<Rightarrow> s32" where
  "ihigh b0 y h j = (if j = 0 then y 0 + ilow y h 0
     else if j + 1 < h then y j + asr 1 (ilow y h (j - 1) + ilow y h j)
     else y j + asr 1 (iprev b0 y h (j - 1) + ilow y h j))"

definition unlift :: "s32 \<Rightarrow> (nat \<Rightarrow> s32) \<Rightarrow> nat \<Rightarrow> nat \<Rightarrow> s32" where
  "unlift b0 y h c = (if even c then ihigh b0 y h (c div 2) else ilow y h (c div 2))"

lemma write_pair:
  assumes "line_is (\<lambda>c. k + c) (2 * m) y old buf" "k + 2 * m + 1 < length old" "u = y (2 * m)" "v = y (2 * m + 1)"
  shows "\<exists>b1 b2. aset buf (k + 2 * m) u = Inr b1 \<and> aset b1 (k + 2 * m + 1) v = Inr b2
    \<and> line_is (\<lambda>c. k + c) (2 * Suc m) y old b2"
  using assms by (auto simp: line_is_def nth_list_update less_Suc_eq)

lemma icols_unlift:
  assumes "\<And>j. j < 2 * h \<Longrightarrow> k + j * rb < length ibuf \<and> ibuf ! (k + j * rb) = y j"
    "\<And>c. c < 2 * h \<Longrightarrow> q + c < length old" "m + n + 2 \<le> h"
    "line_is (\<lambda>c. q + c) (2 * Suc m) (unlift b0 y h) old buf"
  shows "\<exists>buf'. ilift_cols n rb ibuf (k + (m + 1) * rb) (k + (h + m) * rb) (q + 2 * m) (iprev b0 y h m) (ilow y h m) (y (m + 1)) buf
      = Inr (k + (h + m + n) * rb, q + 2 * (m + n), iprev b0 y h (m + n), ilow y h (m + n), y (m + n + 1), buf')
    \<and> line_is (\<lambda>c. q + c) (2 * Suc (m + n)) (unlift b0 y h) old buf'"
  using assms(3,4)
proof (induction n arbitrary: m buf)
  case 0
  then show ?case by simp
next
  case (Suc n)
  have r: "k + (m + 2) * rb < length ibuf" "ibuf ! (k + (m + 2) * rb) = y (m + 2)"
    "k + (h + m + 1) * rb < length ibuf" "ibuf ! (k + (h + m + 1) * rb) = y (h + m + 1)"
    using assms(1) [of "m + 2"] assms(1) [of "h + m + 1"] Suc.prems(1) by auto
  have d: "y (h + m + 1) - asr 2 (y (m + 1) + y (m + 2) + 2) = ilow y h (Suc m)"
    using Suc.prems(1) by (simp add: ilow_def)
  have u: "y (m + 1) + asr 1 (ilow y h m + ilow y h (Suc m)) = unlift b0 y h (2 * Suc m)"
    using Suc.prems(1) by (simp add: unlift_def ihigh_def)
  have v: "ilow y h (Suc m) = unlift b0 y h (2 * Suc m + 1)" by (simp add: unlift_def)
  have "q + 2 * Suc m + 1 < length old" using assms(2) [of "2 * Suc m + 1"] Suc.prems(1) by simp
  from write_pair [OF Suc.prems(2) this u v] obtain b1 b2 where b:
    "aset buf (q + 2 * Suc m) (y (m + 1) + asr 1 (ilow y h m + ilow y h (Suc m))) = Inr b1"
    "aset b1 (q + 2 * Suc m + 1) (ilow y h (Suc m)) = Inr b2"
    "line_is (\<lambda>c. q + c) (2 * Suc (Suc m)) (unlift b0 y h) old b2" by blast
  have eqs: "k + (m + 1) * rb + rb = k + (m + 2) * rb" "k + (h + m) * rb + rb = k + (h + m + 1) * rb"
    "q + 2 * m + 2 = q + 2 * Suc m" by simp_all
  have "ilift_cols (Suc n) rb ibuf (k + (m + 1) * rb) (k + (h + m) * rb) (q + 2 * m) (iprev b0 y h m) (ilow y h m) (y (m + 1)) buf
      = ilift_cols n rb ibuf (k + (m + 2) * rb) (k + (h + m + 1) * rb) (q + 2 * Suc m) (ilow y h m) (ilow y h (Suc m)) (y (m + 2)) b2"
    unfolding ilift_cols.simps Let_def eqs aget_in [OF r(1)] aget_in [OF r(3)] bindE_simps r(2,4) d b(1,2) ..
  moreover have "\<exists>buf'. ilift_cols n rb ibuf (k + (Suc m + 1) * rb) (k + (h + Suc m) * rb) (q + 2 * Suc m) (iprev b0 y h (Suc m))
        (ilow y h (Suc m)) (y (Suc m + 1)) b2
      = Inr (k + (h + Suc m + n) * rb, q + 2 * (Suc m + n), iprev b0 y h (Suc m + n), ilow y h (Suc m + n), y (Suc m + n + 1), buf')
    \<and> line_is (\<lambda>c. q + c) (2 * Suc (Suc m + n)) (unlift b0 y h) old buf'"
    using Suc.prems(1) by (intro Suc.IH b(3)) simp
  moreover have "Suc m + 1 = m + 2" "h + Suc m = h + m + 1" "Suc m + n = m + Suc n" "h + m + 1 + n = h + m + Suc n" by simp_all
  ultimately show ?case by (simp only: iprev.simps)
qed

lemma irow_unlift:
  assumes "\<And>j. j < 2 * h \<Longrightarrow> ioff + row + j * rb < length ibuf \<and> ibuf ! (ioff + row + j * rb) = y j"
    "\<And>c. c < 2 * h \<Longrightarrow> ooff + row * rb + c < length obuf" "2 \<le> h"
  shows "\<exists>buf. ilift_row b0 rb (2 * h) ibuf ioff ooff row obuf = Inr buf
    \<and> line_is (\<lambda>c. ooff + row * rb + c) (2 * h) (unlift b0 y h) obuf buf"
proof -
  let ?k = "ioff + row" and ?q = "ooff + row * rb"
  obtain n where n: "h = Suc (Suc n)" using assms(3) by (metis Suc_le_D numeral_2_eq_2 Suc_le_mono)
  have r: "?k < length ibuf" "ibuf ! ?k = y 0" "?k + rb < length ibuf" "ibuf ! (?k + rb) = y 1"
    "?k + h * rb < length ibuf" "ibuf ! (?k + h * rb) = y h"
    "?k + (h + n + 1) * rb < length ibuf" "ibuf ! (?k + (h + n + 1) * rb) = y (h + n + 1)"
    using assms(1) [of 0] assms(1) [of 1] assms(1) [of h] assms(1) [of "h + n + 1"] assms(3) by (simp_all add: n)
  have half: "2 * h * rb div 2 = h * rb" "2 * h div 2 = h" by simp_all
  have d: "y h - asr 2 (y 0 + y 1 + 2) = ilow y h 0" "y 0 + ilow y h 0 = unlift b0 y h (2 * 0)" "ilow y h 0 = unlift b0 y h (2 * 0 + 1)"
    using assms(3) by (simp_all add: ilow_def unlift_def ihigh_def)
  have none: "line_is (\<lambda>c. ?q + c) (2 * 0) (unlift b0 y h) obuf obuf" by (simp add: line_is_def)
  have "?q + 2 * 0 + 1 < length obuf" using assms(2) [of 1] assms(3) by simp
  from write_pair [OF none this d(2,3)] obtain b1 b2 where b:
    "aset obuf (?q + 2 * 0) (y 0 + ilow y h 0) = Inr b1" "aset b1 (?q + 2 * 0 + 1) (ilow y h 0) = Inr b2"
    "line_is (\<lambda>c. ?q + c) (2 * Suc 0) (unlift b0 y h) obuf b2" by blast
  from icols_unlift [of h ?k rb ibuf y ?q obuf 0 n b0 b2, OF assms(1,2) _ b(3)] obtain b3 where b3:
    "ilift_cols n rb ibuf (?k + rb) (?k + h * rb) ?q b0 (ilow y h 0) (y 1) b2
      = Inr (?k + (h + n) * rb, ?q + 2 * n, iprev b0 y h n, ilow y h n, y (n + 1), b3)"
    "line_is (\<lambda>c. ?q + c) (2 * Suc n) (unlift b0 y h) obuf b3" by (auto simp: n)
  have e: "y (h + n + 1) - asr 3 (y (n + 1) + 1) = ilow y h (Suc n)" by (simp add: ilow_def n)
  have u: "y (n + 1) + asr 1 (iprev b0 y h n + ilow y h (Suc n)) = unlift b0 y h (2 * Suc n)" "ilow y h (Suc n) = unlift b0 y h (2 * Suc n + 1)"
    by (simp_all add: unlift_def ihigh_def n)
  have "?q + 2 * Suc n + 1 < length obuf" using assms(2) [of "2 * Suc n + 1"] by (simp add: n)
  from write_pair [OF b3(2) this u] obtain b4 b5 where b5:
    "aset b3 (?q + 2 * Suc n) (y (n + 1) + asr 1 (iprev b0 y h n + ilow y h (Suc n))) = Inr b4"
    "aset b4 (?q + 2 * Suc n + 1) (ilow y h (Suc n)) = Inr b5"
    "line_is (\<lambda>c. ?q + c) (2 * Suc (Suc n)) (unlift b0 y h) obuf b5" by blast
  have eqs: "?k + (h + n) * rb + rb = ?k + (h + n + 1) * rb" "h - 2 = n" "?q + 2 * 0 = ?q"
    "?q + 2 * n + 2 = ?q + 2 * Suc n" "?q + 2 * n + 3 = ?q + 2 * Suc n + 1" by (simp_all add: n)
  have "ilift_row b0 rb (2 * h) ibuf ioff ooff row obuf = Inr b5"
    unfolding ilift_row_def Let_def half eqs(2) aget_in [OF r(1)] aget_in [OF r(3)] aget_in [OF r(5)] bindE_simps r(2,4,6)
      d(1) b(1,2) [unfolded eqs(3)] b3(1) prod.case eqs(1,4,5) aget_in [OF r(7)] r(8) e b5(1,2) ..
  with b5(3) show ?thesis by (auto simp: n)
qed

definition col_of :: "nat \<Rightarrow> nat \<Rightarrow> s32 list \<Rightarrow> nat \<Rightarrow> nat \<Rightarrow> s32" where
  "col_of off rb buf r j = buf ! (off + r + j * rb)"

lemma ilift_unlift:
  assumes "2 \<le> h" "fits ioff rb (2 * h) (length ibuf)" "fits ooff rb (2 * h) (length obuf)"
  shows "\<exists>buf. ilift b0 rb (2 * h) ibuf ioff ooff obuf = Inr buf
    \<and> square_is (\<lambda>r c. ooff + r * rb + c) (2 * h) (2 * h) (\<lambda>r. unlift b0 (col_of ioff rb ibuf r) h) obuf buf"
  unfolding ilift_def
proof (rule each_row_all)
  fix r and b :: "s32 list"
  assume r: "r < 2 * h" and len: "length b = length obuf"
  have "ioff + r + j * rb < length ibuf" if "j < 2 * h" for j
    using fitsD(1) [OF assms(2) that r] by (simp add: ac_simps)
  from irow_unlift [of h ioff r rb ibuf "col_of ioff rb ibuf r" ooff b b0, OF _ _ assms(1)] this fitsD(1) [OF assms(3) r]
  show "\<exists>b'. ilift_row b0 rb (2 * h) ibuf ioff ooff r b = Inr b'
      \<and> line_is (\<lambda>c. ooff + r * rb + c) (2 * h) (unlift b0 (col_of ioff rb ibuf r) h) b b'"
    by (auto simp only: col_of_def len)
next
  fix r r' j j'
  assume j: "j < 2 * h" "j' < 2 * h" "ooff + r * rb + j = ooff + r' * rb + j'"
  show "r = r'" by (rule grid_inj_row [OF _ _ j(3)]) (use j(1,2) fitsD(2) [OF assms(2)] in linarith)+
qed

subsection \<open>There and back\<close>

lemma ilow_bands:
  assumes "\<And>j. j < 2 * h \<Longrightarrow> y j = both_bands x h j" "j < h"
  shows "ilow y h j = x (2 * j + 1)"
  using assms(1) [of j] assms(1) [of "j + 1"] assms(1) [of "h + j"] assms(2)
  by (auto simp: ilow_def both_bands_def lp_def)

text \<open>What the inverse makes of the last even sample.\<close>

definition misread :: "s32 \<Rightarrow> (nat \<Rightarrow> s32) \<Rightarrow> nat \<Rightarrow> s32" where
  "misread b0 x h = x (2 * h - 2) - asr 1 (x (2 * h - 3) + x (2 * h - 1))
     + asr 1 ((if h = 2 then b0 else x (2 * h - 5)) + x (2 * h - 1))"

lemma unlift_bands:
  assumes y: "\<And>j. j < 2 * h \<Longrightarrow> y j = both_bands x h j" and "c < 2 * h" "2 \<le> h"
  shows "unlift b0 y h c = (if c = 2 * h - 2 then misread b0 x h else x c)"
proof (cases "even c")
  case False
  then obtain j where c: "c = 2 * j + 1" by (elim oddE)
  with assms(2) have "ilow y h j = x c" by (simp add: ilow_bands [of h y x, OF y])
  moreover have "2 * j + 1 \<noteq> 2 * h - 2" using assms(3) by presburger
  ultimately show ?thesis by (simp add: unlift_def c)
next
  case True
  then obtain j where c: "c = 2 * j" by (elim evenE)
  with assms(2) have j: "j < h" by simp
  note low = ilow_bands [of h y x, OF y]
  have yj: "y j = hp x j" using y [of j] j by (simp add: both_bands_def)
  have hpj: "hp x j = x (2 * j) - asr 1 (x (2 * i + 1) + x (2 * j + 1))" if "j = Suc i" for i
    using that by (simp add: numeral_eq_Suc)
  consider "j = 0" | i where "j = Suc i" "j + 1 < h" | i where "j = Suc i" "j + 1 = h"
    using j by (metis not0_implies_Suc Suc_eq_plus1 Suc_lessI)
  then show ?thesis
  proof cases
    case 1
    with low [of 0] yj j assms(3) show ?thesis by (simp add: unlift_def ihigh_def c)
  next
    case (2 i)
    have "unlift b0 y h c = y j + asr 1 (ilow y h i + ilow y h j)" using 2 by (simp add: unlift_def ihigh_def c)
    moreover have "ilow y h i = x (2 * i + 1)" "ilow y h j = x (2 * j + 1)" using low [of i] low [of j] 2 by simp_all
    moreover have "c \<noteq> 2 * h - 2" using 2 by (simp add: c)
    ultimately show ?thesis using hpj [OF 2(1)] yj by (simp add: c)
  next
    case (3 i)
    have last: "2 * h - 2 = 2 * j" "2 * h - 3 = 2 * i + 1" "2 * h - 1 = 2 * j + 1" using 3 by simp_all
    have prev: "iprev b0 y h i = (if h = 2 then b0 else x (2 * h - 5))"
    proof (cases i)
      case (Suc k)
      with 3 low [of k] show ?thesis by (auto simp: numeral_eq_Suc)
    qed (use 3 in simp)
    have "unlift b0 y h c = y j + asr 1 (iprev b0 y h i + ilow y h j)" using 3 by (simp add: unlift_def ihigh_def c)
    then show ?thesis using low [of j] yj j prev hpj [OF 3(1)] unfolding misread_def last
      by (simp add: c)
  qed
qed

lemma lift_unlift:
  assumes "2 \<le> h" "fits ioff rb (2 * h) (length ibuf)" "fits toff rb (2 * h) (length tmp)"
    "fits ooff rb (2 * h) (length obuf)"
  shows "\<exists>tmp' obuf'. singlelift rb (2 * h) ibuf ioff toff tmp = Inr tmp' \<and> length tmp' = length tmp
    \<and> ilift b0 rb (2 * h) tmp' toff ooff obuf = Inr obuf' \<and> length obuf' = length obuf
    \<and> (\<forall>r<2 * h. \<forall>c<2 * h. row_of ooff rb obuf' r c =
         (if c = 2 * h - 2 then misread b0 (row_of ioff rb ibuf r) h else row_of ioff rb ibuf r c))"
proof -
  from singlelift_bands [OF assms(1-3)] obtain tmp' where t:
    "singlelift rb (2 * h) ibuf ioff toff tmp = Inr tmp'"
    "square_is (\<lambda>r j. toff + r + j * rb) (2 * h) (2 * h) (\<lambda>r. both_bands (row_of ioff rb ibuf r) h) tmp tmp'" by blast
  then have len: "length tmp' = length tmp" by (simp add: square_is_def)
  from ilift_unlift [OF assms(1) _ assms(4), of toff tmp' b0] assms(3) len obtain obuf' where o':
    "ilift b0 rb (2 * h) tmp' toff ooff obuf = Inr obuf'"
    "square_is (\<lambda>r c. ooff + r * rb + c) (2 * h) (2 * h) (\<lambda>r. unlift b0 (col_of toff rb tmp' r) h) obuf obuf'" by auto
  have "row_of ooff rb obuf' r c = (if c = 2 * h - 2 then misread b0 (row_of ioff rb ibuf r) h else row_of ioff rb ibuf r c)"
    if "r < 2 * h" "c < 2 * h" for r c
  proof -
    have "col_of toff rb tmp' r j = both_bands (row_of ioff rb ibuf r) h j" if "j < 2 * h" for j
      using t(2) \<open>r < 2 * h\<close> that by (simp add: col_of_def square_is_def)
    from unlift_bands [OF this that(2) assms(1)] show ?thesis
      using o'(2) that by (simp add: row_of_def square_is_def)
  qed
  with t(1) len o' show ?thesis by (auto simp: square_is_def)
qed

text \<open>C18. The inverse of one level of the transform restores every sample but one of each row, with
  additions that wrap around as well: for the last even column the code has kept the odd sample
  before the one it needs, and adds its share instead.\<close>

theorem lift_round_trip:
  assumes "3 \<le> h" "fits ioff rb (2 * h) (length ibuf)" "fits toff rb (2 * h) (length tmp)"
    "fits ooff rb (2 * h) (length obuf)"
  shows "\<exists>tmp' obuf'. singlelift rb (2 * h) ibuf ioff toff tmp = Inr tmp'
    \<and> ilift b0 rb (2 * h) tmp' toff ooff obuf = Inr obuf'
    \<and> (\<forall>r<2 * h. let x = row_of ioff rb ibuf r; z = row_of ooff rb obuf' r in
         (\<forall>c<2 * h. c \<noteq> 2 * h - 2 \<longrightarrow> z c = x c)
         \<and> z (2 * h - 2) = x (2 * h - 2) - asr 1 (x (2 * h - 3) + x (2 * h - 1)) + asr 1 (x (2 * h - 5) + x (2 * h - 1)))"
  using lift_unlift [of h ioff rb ibuf toff tmp ooff obuf b0] assms by (fastforce simp: misread_def)

subsection \<open>All levels\<close>

text \<open>The subimage of width \<open>w\<close> in the lower right corner.\<close>

definition corner :: "nat \<Rightarrow> nat \<Rightarrow> nat" where
  "corner rb w = (rb - w) * (rb + 1)"

lemma corner_fits: "w \<le> rb \<Longrightarrow> fits (corner rb w) rb w (rb * rb)"
proof -
  assume w: "w \<le> rb"
  have "corner rb w + r * rb + c < rb * rb" if "r < w" "c < w" for r c
  proof -
    have "d * (rb + 1) + r * rb + c = (d + r) * rb + (d + c)" for d by (simp add: algebra_simps)
    then have "corner rb w + r * rb + c = (rb - w + r) * rb + (rb - w + c)" by (simp only: corner_def)
    also have "\<dots> < (rb - w + r) * rb + rb" using that w by simp
    also have "\<dots> = Suc (rb - w + r) * rb" by simp
    also have "\<dots> \<le> rb * rb" using that w by (intro mult_le_mono1) simp
    finally show ?thesis .
  qed
  with w show ?thesis by (simp add: fits_def)
qed

lemma corner_half: "2 * h \<le> rb \<Longrightarrow> corner rb (2 * h) + (2 * h * rb div 2 + 2 * h div 2) = corner rb h"
proof -
  assume le: "2 * h \<le> rb"
  have "corner rb (2 * h) + (h * rb + h) = (rb - 2 * h) * (rb + 1) + h * (rb + 1)" by (simp add: corner_def)
  also have "\<dots> = (rb - h) * (rb + 1)" using le by (simp flip: add_mult_distrib)
  finally show ?thesis by (simp add: corner_def)
qed

lemma singlelift_in:
  assumes "2 \<le> h" "2 * h \<le> rb" "length ibuf = rb * rb" "length obuf = rb * rb"
  shows "\<exists>buf. singlelift rb (2 * h) ibuf (corner rb (2 * h)) (corner rb (2 * h)) obuf = Inr buf \<and> length buf = rb * rb"
  using singlelift_bands [OF assms(1), of "corner rb (2 * h)" rb ibuf "corner rb (2 * h)" obuf] corner_fits [OF assms(2)] assms(3,4)
  by (auto simp: square_is_def)

lemma ilift_in:
  assumes "2 \<le> h" "2 * h \<le> rb" "length ibuf = rb * rb" "length obuf = rb * rb"
  shows "\<exists>buf. ilift b0 rb (2 * h) ibuf (corner rb (2 * h)) (corner rb (2 * h)) obuf = Inr buf \<and> length buf = rb * rb"
  using ilift_unlift [OF assms(1), of "corner rb (2 * h)" rb ibuf "corner rb (2 * h)" obuf b0] corner_fits [OF assms(2)] assms(3,4)
  by (auto simp: square_is_def)

text \<open>The offsets that \<open>lifting_down\<close> leaves for width \<open>w\<close>.\<close>

fun ov_for :: "nat \<Rightarrow> nat \<Rightarrow> nat list \<Rightarrow> bool" where
  "ov_for rb w [] \<longleftrightarrow> w = rb"
| "ov_for rb w (o' # ov) \<longleftrightarrow> o' = corner rb w \<and> 2 \<le> w \<and> 2 * w \<le> rb \<and> ov_for rb (2 * w) ov"

lemma ov_for_hd: "ov_for rb w ov \<Longrightarrow> (case ov of [] \<Rightarrow> 0 | o' # _ \<Rightarrow> o') = corner rb w"
  by (cases ov) (simp_all add: corner_def)

lemma lifting_down_in:
  "2 ^ n * 2 dvd w \<Longrightarrow> 2 ^ n * 2 \<le> w \<Longrightarrow> w \<le> rb \<Longrightarrow> length ibuf = rb * rb \<Longrightarrow> length tmp = rb * rb \<Longrightarrow> ov_for rb w ov \<Longrightarrow>
     \<exists>ov' ibuf' tmp'. lifting_down n rb w (corner rb w) ov ibuf tmp = Inr (w div 2 ^ n, ov', ibuf', tmp')
       \<and> length ibuf' = rb * rb \<and> length tmp' = rb * rb \<and> ov_for rb (w div 2 ^ n) ov' \<and> length ov' = length ov + n"
proof (induction n arbitrary: w ov ibuf tmp)
  case (Suc n)
  obtain h where w: "w = 2 * h" using Suc.prems(1) by (auto elim!: dvdE)
  have h: "2 ^ n * 2 dvd h" "2 ^ n * 2 \<le> h" using Suc.prems(1,2) by (simp_all add: w mult.commute)
  have "2 \<le> 2 ^ n * (2::nat)" by simp
  with h(2) have h2: "2 \<le> h" by linarith
  have le: "2 * h \<le> rb" using Suc.prems(3) w by simp
  from singlelift_in [OF h2 le Suc.prems(4,5)] obtain tmp1 where t: "singlelift rb w ibuf (corner rb w) (corner rb w) tmp = Inr tmp1"
    "length tmp1 = rb * rb" by (auto simp: w)
  from singlelift_in [OF h2 le t(2) Suc.prems(4)] obtain ibuf1 where i: "singlelift rb w tmp1 (corner rb w) (corner rb w) ibuf = Inr ibuf1"
    "length ibuf1 = rb * rb" by (auto simp: w)
  note half = corner_half [OF le]
  have "ov_for rb h (corner rb h # ov)" using Suc.prems(6) h2 le by (simp add: w)
  from Suc.IH [OF h _ i(2) t(2) this] le obtain ov' ibuf' tmp' where
    r: "lifting_down n rb h (corner rb h) (corner rb h # ov) ibuf1 tmp1 = Inr (h div 2 ^ n, ov', ibuf', tmp')"
    "length ibuf' = rb * rb" "length tmp' = rb * rb" "ov_for rb (h div 2 ^ n) ov'" "length ov' = length (corner rb h # ov) + n" by auto
  have "w * rb div 2 + w div 2 + (case ov of [] \<Rightarrow> 0 | o' # _ \<Rightarrow> o') = corner rb h"
    using half ov_for_hd [OF Suc.prems(6)] by (simp add: w)
  then have "lifting_down (Suc n) rb w (corner rb w) ov ibuf tmp = Inr (h div 2 ^ n, ov', ibuf', tmp')"
    using t(1) i(1) r(1) half by (simp add: w Let_def)
  moreover have "h div 2 ^ n = w div 2 ^ Suc n" by (simp add: w div_mult2_eq)
  ultimately show ?case using r by simp
qed simp

lemma lifting_up_in:
  "ov_for rb w ov \<Longrightarrow> length ibuf = rb * rb \<Longrightarrow> length tmp = rb * rb \<Longrightarrow>
     \<exists>ibuf' tmp'. lifting_up b0 rb w ov ibuf tmp = Inr (ibuf', tmp') \<and> length ibuf' = rb * rb \<and> length tmp' = rb * rb"
proof (induction ov arbitrary: w ibuf tmp)
  case (Cons o' ov)
  then have w: "2 \<le> w" "2 * w \<le> rb" "ov_for rb (2 * w) ov" by auto
  from ilift_in [OF w(1,2) Cons.prems(2,3), of b0] obtain tmp1 where
    t: "ilift b0 rb (2 * w) ibuf (corner rb (2 * w)) (corner rb (2 * w)) tmp = Inr tmp1" "length tmp1 = rb * rb" by blast
  from ilift_in [OF w(1,2) t(2) Cons.prems(2), of b0] obtain ibuf1 where
    i: "ilift b0 rb (2 * w) tmp1 (corner rb (2 * w)) (corner rb (2 * w)) ibuf = Inr ibuf1" "length ibuf1 = rb * rb" by blast
  from Cons.IH [OF w(3) i(2) t(2)] t(1) i(1) ov_for_hd [OF w(3)] show ?case by (simp add: Let_def)
qed simp

text \<open>C19. For a square image whose width is a multiple of 16, as the 256 of the programs that call it,
  the transform with three levels, alone or followed by its inverse, never leaves its two buffers.\<close>

theorem lifting_in_bounds:
  assumes "16 dvd w" "0 < w" "length ibuf = w * w" "length tmp = w * w"
  shows "\<exists>ibuf' tmp'. lifting b0 w ibuf tmp fwd = Inr (ibuf', tmp') \<and> length ibuf' = w * w \<and> length tmp' = w * w"
proof -
  have "16 \<le> w" using assms(1,2) by (rule dvd_imp_le)
  with lifting_down_in [of LVLS w w ibuf tmp "[]"] assms obtain ov ibuf1 tmp1 where
    d: "lifting_down LVLS w w 0 [] ibuf tmp = Inr (w div 2 ^ LVLS, ov, ibuf1, tmp1)" "length ibuf1 = w * w" "length tmp1 = w * w"
      "ov_for w (w div 2 ^ LVLS) ov" by (auto simp: LVLS_def corner_def)
  from lifting_up_in [OF d(4,2,3), of b0] d show ?thesis by (auto simp: lifting_def)
qed

subsection \<open>Witnesses\<close>

theorem lift_round_trip_witness:
  "\<exists>tmp' obuf'. singlelift 6 6 (map of_nat [0..<36]) 0 0 (replicate 36 0) = Inr tmp'
    \<and> ilift 0 6 6 tmp' 0 0 (replicate 36 0) = Inr obuf' \<and> row_of 0 6 obuf' 1 3 = 9 \<and> row_of 0 6 obuf' 1 4 = 9"
proof -
  have "fits 0 6 (2 * 3) 36" using corner_fits [of 6 6] by (simp add: corner_def)
  with lift_round_trip [of 3 0 6 "map of_nat [0..<36]" 0 "replicate 36 0" 0 "replicate 36 0" 0]
  obtain tmp' obuf' where
    r: "singlelift 6 6 (map of_nat [0..<36]) 0 0 (replicate 36 0) = Inr tmp'"
    "ilift 0 6 6 tmp' 0 0 (replicate 36 0) = Inr obuf'"
    "let x = row_of 0 6 (map of_nat [0..<36]) 1; z = row_of 0 6 obuf' 1 in
         (\<forall>c<6. c \<noteq> 4 \<longrightarrow> z c = x c) \<and> z 4 = x 4 - asr 1 (x 3 + x 5) + asr 1 (x 1 + x 5)" by auto
  from r(3) have "row_of 0 6 obuf' 1 3 = row_of 0 6 (map of_nat [0..<36]) 1 3" by (simp add: Let_def)
  then have "row_of 0 6 obuf' 1 3 = 9" by (simp add: row_of_def)
  moreover from r(3) have "row_of 0 6 obuf' 1 4 = 9" by (simp add: Let_def row_of_def)
  ultimately show ?thesis using r(1,2) by blast
qed

theorem lifting_in_bounds_witness:
  "\<exists>ibuf' tmp'. lifting 0 16 (replicate 256 5) (replicate 256 0) 0 = Inr (ibuf', tmp') \<and> length ibuf' = 16 * 16"
  using lifting_in_bounds [of 16 "replicate 256 5" "replicate 256 0" 0 0] by auto

end
