(* ===== verification/ZipLoad.thy ===== *)
theory ZipLoad
  imports MemSim ByteSwap
begin

text \<open>
  \<open>sw/host/zipload.cpp\<close>, from the moment it talks to the board: the program is copied, section by
  section, over the bus into the memory of the board, and the CPU is set up. The bus is what the
  abstract class \<open>DEVBUS\<close> declares, an argument. The build defines \<open>SDRAM_ACCESS\<close> and \<open>BKRAM_ACCESS\<close>
  but no flash. The sections are what \<open>elfread\<close> has read, up to the one with length zero; the bytes
  of a section are those of the storage from its first byte on. What is printed is left out.
\<close>

subsection \<open>The bus and the registers\<close>

record 's devbus =
  db_writeio :: "u32 \<Rightarrow> u32 \<Rightarrow> ('s, unit) prog"
  db_readio :: "u32 \<Rightarrow> ('s, u32) prog"
  db_readi :: "u32 \<Rightarrow> nat \<Rightarrow> ('s, u32 list) prog"
  db_writei :: "u32 \<Rightarrow> u32 list \<Rightarrow> ('s, unit) prog"

definition R_VERSION :: u32 where "R_VERSION = 0x01000014"
definition R_ZIPCTRL :: u32 where "R_ZIPCTRL = 0x04000000"
definition R_ZIPDATA :: u32 where "R_ZIPDATA = 0x04000004"
definition SDRAMBASE :: u32 where "SDRAMBASE = 0x02000000"
definition SDRAMLEN :: u32 where "SDRAMLEN = 0x01000000"
definition BKRAMBASE :: u32 where "BKRAMBASE = 0x01400000"
definition BKRAMLEN :: u32 where "BKRAMLEN = 0x00002000"
definition CPU_GO :: u32 where "CPU_GO = 0x0000"
definition CPU_RESET :: u32 where "CPU_RESET = 0x0040"
definition CPU_HALT :: u32 where "CPU_HALT = 0x0400"
definition CPU_CLRCACHE :: u32 where "CPU_CLRCACHE = 0x0800"
definition CPU_sPC :: u32 where "CPU_sPC = 0x000f"

record elfsection =
  es_start :: u32
  es_len :: u32
  es_data :: "u8 list"

subsection \<open>Loading the sections\<close>

definition in_region :: "u32 \<Rightarrow> u32 \<Rightarrow> elfsection \<Rightarrow> bool" where
  "in_region base len s \<longleftrightarrow> base \<le> es_start s \<and> es_start s + es_len s \<le> base + len"

definition section_valid :: "elfsection \<Rightarrow> bool" where
  "section_valid s \<longleftrightarrow> in_region BKRAMBASE BKRAMLEN s \<or> in_region SDRAMBASE SDRAMLEN s"

fun each_section :: "(elfsection \<Rightarrow> ('s, unit) prog) \<Rightarrow> elfsection list \<Rightarrow> ('s, unit) prog" where
  "each_section f [] = retS ()"
| "each_section f (s # ss) = thenS (f s) (\<lambda>_. each_section f ss)"

definition check_section :: "elfsection \<Rightarrow> ('s, unit) prog" where
  "check_section s = (if section_valid s then retS () else throwS (ExitWith 1))"

text \<open>The words that are written for a section, where the array holds \<open>g\<close> before: its bytes, up to a
  multiple of four, with the byte order turned.\<close>

definition section_words :: "(nat \<Rightarrow> u32) \<Rightarrow> elfsection \<Rightarrow> u32 list res" where
  "section_words g s =
     (let ln = (es_len s + 3) AND -4; n = unat (drop_bit 2 ln);
          bswapd = (if ln \<noteq> (es_len s AND -4) then replicate n 0 else map g [0..<n])
      in
      if length (es_data s) < unat ln then Inl OutOfBounds
      else bindE (copy_bytes 0 (take (unat ln) (es_data s)) bswapd) (\<lambda>bswapd. byteswapbuf n bswapd))"

definition load_words :: "'s devbus \<Rightarrow> (nat \<Rightarrow> u32) \<Rightarrow> elfsection \<Rightarrow> ('s, unit) prog" where
  "load_words bus g s = thenS (liftS (section_words g s)) (\<lambda>ws. db_writei bus (es_start s) ws)"

definition load_section :: "'s devbus \<Rightarrow> (nat \<Rightarrow> u32) \<Rightarrow> elfsection \<Rightarrow> ('s, unit) prog" where
  "load_section bus g s =
     (if in_region SDRAMBASE SDRAMLEN s then load_words bus g s
      else if in_region BKRAMBASE BKRAMLEN s then load_words bus g s
      else retS ())"

subsection \<open>Setting up the CPU\<close>

fun clear_registers :: "'s devbus \<Rightarrow> nat \<Rightarrow> u32 \<Rightarrow> ('s, unit) prog" where
  "clear_registers bus 0 i = retS ()"
| "clear_registers bus (Suc n) i =
     thenS (db_writeio bus R_ZIPCTRL (CPU_HALT OR i)) (\<lambda>_.
     thenS (db_writeio bus R_ZIPDATA 0) (\<lambda>_. clear_registers bus n (i + 1)))"

definition start_cpu :: "'s devbus \<Rightarrow> u32 \<Rightarrow> bool \<Rightarrow> ('s, unit) prog" where
  "start_cpu bus entry start =
     thenS (clear_registers bus 32 0) (\<lambda>_.
     thenS (db_writeio bus R_ZIPCTRL (CPU_HALT OR CPU_CLRCACHE)) (\<lambda>_.
     thenS (db_writeio bus R_ZIPCTRL (CPU_HALT OR CPU_sPC)) (\<lambda>_.
     thenS (db_writeio bus R_ZIPDATA entry) (\<lambda>_.
     if start then db_writeio bus R_ZIPCTRL (CPU_GO OR CPU_sPC) else retS ()))))"

subsection \<open>The program\<close>

definition exit_on_buserr :: "int \<Rightarrow> cerr \<Rightarrow> ('s, 'a) prog" where
  "exit_on_buserr n e = (case e of BusErr a \<Rightarrow> throwS (ExitWith n) | _ \<Rightarrow> throwS e)"

definition check_version :: "'s devbus \<Rightarrow> ('s, unit) prog" where
  "check_version bus = thenS (db_readio bus R_VERSION) (\<lambda>v.
     if v < 0x20170000 then throwS (ExitWith 1) else retS ())"

definition load_program :: "'s devbus \<Rightarrow> (nat \<Rightarrow> u32) \<Rightarrow> elfsection list \<Rightarrow> u32 \<Rightarrow> bool \<Rightarrow> ('s, unit) prog" where
  "load_program bus g secs entry start =
     thenS (each_section check_section secs) (\<lambda>_.
     thenS (each_section (load_section bus g) secs) (\<lambda>_.
     thenS (db_readio bus R_VERSION) (\<lambda>_. start_cpu bus entry start)))"

definition zipload :: "'s devbus \<Rightarrow> (nat \<Rightarrow> u32) \<Rightarrow> elfsection list \<Rightarrow> u32 \<Rightarrow> bool \<Rightarrow> ('s, int) prog" where
  "zipload bus g secs entry start =
     thenS (catchS (check_version bus) (exit_on_buserr 1)) (\<lambda>_.
     thenS (catchS (db_writeio bus R_ZIPCTRL (CPU_HALT OR CPU_RESET)) (exit_on_buserr 1)) (\<lambda>_.
     thenS (catchS (load_program bus g (takeWhile (\<lambda>s. es_len s \<noteq> 0) secs) entry start) (exit_on_buserr (-2))) (\<lambda>_.
     thenS (db_readio bus R_ZIPCTRL) (\<lambda>_. retS 0))))"

end
