(* ===== verification/ZipLoadProps.thy ===== *)
theory ZipLoadProps
  imports ZipLoad
begin

text \<open>
  What the loader leaves on the board: every section stands in the memory, byte by byte, and the
  CPU has been reset, cleared and pointed at the entry. The bus is any that keeps the promises of
  \<open>board_bus\<close>; the memory of the board is seen as bytes, in the order in which the (big endian) CPU
  numbers them.
\<close>

subsection \<open>Bytes of words\<close>

definition le_byte :: "u32 list \<Rightarrow> nat \<Rightarrow> u8" where
  "le_byte ws i = ucast (drop_bit (8 * (i mod 4)) (ws ! (i div 4)))"

definition be_byte :: "u32 list \<Rightarrow> nat \<Rightarrow> u8" where
  "be_byte ws i = ucast (drop_bit (24 - 8 * (i mod 4)) (ws ! (i div 4)))"

lemma byte_of_store:
  fixes w :: u32
  assumes "j < 4" "k < 4"
  shows "(ucast (drop_bit (8 * j) (w AND NOT (push_bit (8 * k) 0xff) OR push_bit (8 * k) (ucast b))) :: u8) =
    (if j = k then b else ucast (drop_bit (8 * j) w))"
proof (rule bit_word_eqI)
  fix n assume "n < LENGTH(8)"
  then have n: "n < 8" by simp
  consider "j < k" | "j = k" | "k < j" by linarith
  then show "bit (ucast (drop_bit (8 * j) (w AND NOT (push_bit (8 * k) 0xff) OR push_bit (8 * k) (ucast b))) :: u8) n =
    bit (if j = k then b else ucast (drop_bit (8 * j) w)) n"
    using n assms unfolding ff_mask
    by cases (auto simp: bit_simps u8_bit_beyond)
qed

lemma le_byte_store:
  assumes "i < 4 * length ws"
  shows "le_byte (ws[i div 4 := ws ! (i div 4) AND NOT (push_bit (8 * (i mod 4)) 0xff) OR push_bit (8 * (i mod 4)) (ucast b)]) j =
    (if j = i then b else le_byte ws j)"
proof (cases "j div 4 = i div 4")
  case True
  have eq: "j = i \<longleftrightarrow> j mod 4 = i mod 4"
    using True by (metis div_mult_mod_eq)
  have "i div 4 < length ws" using assms by linarith
  then have "le_byte (ws[i div 4 := ws ! (i div 4) AND NOT (push_bit (8 * (i mod 4)) 0xff)
      OR push_bit (8 * (i mod 4)) (ucast b)]) j =
    ucast (drop_bit (8 * (j mod 4)) (ws ! (i div 4) AND NOT (push_bit (8 * (i mod 4)) 0xff)
      OR push_bit (8 * (i mod 4)) (ucast b)))"
    by (simp only: le_byte_def True nth_list_update_eq)
  also have "\<dots> = (if j mod 4 = i mod 4 then b else ucast (drop_bit (8 * (j mod 4)) (ws ! (i div 4))))"
    by (rule byte_of_store) simp_all
  finally show ?thesis using True eq by (simp add: le_byte_def)
qed (auto simp: le_byte_def)

lemma copy_bytes_spec:
  "i + length bs \<le> 4 * length ws \<Longrightarrow>
     \<exists>ws'. copy_bytes i bs ws = Inr ws' \<and> length ws' = length ws \<and>
       (\<forall>j. le_byte ws' j = (if i \<le> j \<and> j < i + length bs then bs ! (j - i) else le_byte ws j))"
proof (induction bs arbitrary: i ws)
  case (Cons b bs)
  define ws1 where "ws1 = ws[i div 4 := ws ! (i div 4) AND NOT (push_bit (8 * (i mod 4)) 0xff)
    OR push_bit (8 * (i mod 4)) (ucast b)]"
  from Cons.prems have i: "i < 4 * length ws" by simp
  then have "i div 4 < length ws" by linarith
  then have step: "copy_bytes i (b # bs) ws = copy_bytes (Suc i) bs ws1"
    by (simp add: ws1_def Let_def)
  have "length ws1 = length ws" by (simp add: ws1_def)
  then obtain ws' where "copy_bytes (Suc i) bs ws1 = Inr ws'" "length ws' = length ws"
    and b: "\<And>j. le_byte ws' j = (if Suc i \<le> j \<and> j < Suc i + length bs then bs ! (j - Suc i) else le_byte ws1 j)"
    using Cons.IH [of "Suc i" ws1] Cons.prems by auto
  moreover have "le_byte ws' j = (if i \<le> j \<and> j < i + length (b # bs) then (b # bs) ! (j - i) else le_byte ws j)" for j
    using le_byte_store [OF i, of b j] unfolding b ws1_def by (auto simp: nth_Cons')
  ultimately show ?case using step by auto
qed auto

lemma be_byte_byteswap:
  assumes "i < 4 * length ws"
  shows "be_byte (map byteswap ws) i = le_byte ws i"
proof -
  have l: "i div 4 < length ws" using assms by linarith
  have "i mod 4 \<in> {0, 1, 2, 3}" by auto
  moreover have "(ucast (drop_bit (24 - 8 * k) (byteswap w)) :: u8) = ucast (drop_bit (8 * k) w)"
    if "k \<in> {0, 1, 2, 3}" for w k
    by (rule bit_word_eqI) (use that in \<open>auto simp: bit_simps bit_byteswap add.commute\<close>)
  ultimately show ?thesis
    using l by (simp add: be_byte_def le_byte_def)
qed

subsection \<open>A section as words\<close>

definition round4 :: "nat \<Rightarrow> nat" where
  "round4 n = 4 * ((n + 3) div 4)"

definition in_memory :: "u32 \<Rightarrow> u32 \<Rightarrow> elfsection \<Rightarrow> bool" where
  "in_memory base len s \<longleftrightarrow> unat base \<le> unat (es_start s) \<and>
     unat (es_start s) + unat (es_len s) \<le> unat base + unat len"

text \<open>A section that the loader can handle: within one of the memories, at a multiple of four, and
  with as much storage as the copy in whole words reads.\<close>

definition loadable :: "elfsection \<Rightarrow> bool" where
  "loadable s \<longleftrightarrow> (in_memory SDRAMBASE SDRAMLEN s \<or> in_memory BKRAMBASE BKRAMLEN s) \<and>
     4 dvd unat (es_start s) \<and> round4 (unat (es_len s)) \<le> length (es_data s)"

lemma round4_le: "4 dvd a \<Longrightarrow> 4 dvd m \<Longrightarrow> a + n \<le> m \<Longrightarrow> a + round4 n \<le> m"
  unfolding round4_def by presburger

lemma and_minus_four: "unat (x AND -4 :: u32) = 4 * (unat x div 4)"
proof -
  have m: "(-4 :: u32) = NOT (mask 2)" by (simp add: mask_eq_exp_minus_1 not_eq_complement)
  have "x AND -4 = push_bit 2 (drop_bit 2 x)"
    unfolding m by (rule bit_word_eqI) (auto simp: bit_simps simp flip: add_2_eq_Suc)
  moreover have "4 * (unat x div 4) < 2 ^ 32"
    using unsigned_less [of x, where ?'a = nat] by simp
  ultimately show ?thesis
    by (simp only: unsigned_push_bit_eq unsigned_drop_bit_eq)
      (simp add: push_bit_eq_mult drop_bit_eq_div take_bit_nat_eq_self)
qed

lemma memory_bounds:
  "unat SDRAMBASE = 0x02000000" "unat SDRAMLEN = 0x01000000" "unat BKRAMBASE = 0x01400000" "unat BKRAMLEN = 0x2000"
  "unat (SDRAMBASE + SDRAMLEN) = 0x03000000" "unat (BKRAMBASE + BKRAMLEN) = 0x01402000"
  by (simp_all add: SDRAMBASE_def SDRAMLEN_def BKRAMBASE_def BKRAMLEN_def)

lemma loadable_length: "loadable s \<Longrightarrow> unat (es_start s) + unat (es_len s) \<le> 0x03000000"
  by (auto simp: loadable_def in_memory_def memory_bounds)

lemma in_region_in_memory:
  assumes "unat (es_start s) + unat (es_len s) < 2 ^ 32"
  shows "in_region SDRAMBASE SDRAMLEN s \<longleftrightarrow> in_memory SDRAMBASE SDRAMLEN s"
    and "in_region BKRAMBASE BKRAMLEN s \<longleftrightarrow> in_memory BKRAMBASE BKRAMLEN s"
proof -
  have "unat (es_start s + es_len s) = unat (es_start s) + unat (es_len s)"
    using assms by (simp add: unat_word_ariths)
  then show "in_region SDRAMBASE SDRAMLEN s \<longleftrightarrow> in_memory SDRAMBASE SDRAMLEN s"
    and "in_region BKRAMBASE BKRAMLEN s \<longleftrightarrow> in_memory BKRAMBASE BKRAMLEN s"
    by (simp_all add: in_region_def in_memory_def word_le_nat_alt memory_bounds)
qed

lemma rounded_length:
  assumes "loadable s"
  shows "unat ((es_len s + 3) AND -4) = round4 (unat (es_len s))"
proof -
  have "unat (es_len s + 3) = unat (es_len s) + 3"
    using loadable_length [OF assms] by (simp add: unat_word_ariths)
  then show ?thesis by (simp add: and_minus_four round4_def)
qed

lemma section_words_spec:
  assumes "loadable s"
  obtains ws where "section_words g s = Inr ws" "4 * length ws = round4 (unat (es_len s))"
    "\<And>d. d < 4 * length ws \<Longrightarrow> be_byte ws d = es_data s ! d"
proof -
  define ln where "ln = (es_len s + 3) AND -4"
  define n where "n = unat (drop_bit 2 ln)"
  define buf where "buf = (if ln \<noteq> (es_len s AND -4) then replicate n 0 else map g [0..<n])"
  have ln: "unat ln = round4 (unat (es_len s))"
    using rounded_length [OF assms] by (simp add: ln_def)
  then have n: "4 * n = unat ln"
    by (simp add: n_def drop_bit_eq_div unat_div_distrib round4_def)
  have data: "unat ln \<le> length (es_data s)" using assms ln by (simp add: loadable_def)
  have buf: "length buf = n" by (simp add: buf_def)
  then obtain ws where ws: "copy_bytes 0 (take (unat ln) (es_data s)) buf = Inr ws" "length ws = n"
    "\<And>j. j < unat ln \<Longrightarrow> le_byte ws j = es_data s ! j"
    using copy_bytes_spec [of 0 "take (unat ln) (es_data s)" buf] n data by auto
  have "section_words g s = Inr (map byteswap ws)"
    unfolding section_words_def Let_def ln_def [symmetric] n_def [symmetric] buf_def [symmetric]
    using data ws(1,2) by (simp add: byteswapbuf_eq)
  moreover have "be_byte (map byteswap ws) d = es_data s ! d" if "d < 4 * length ws" for d
    using that ws n by (simp add: be_byte_byteswap)
  ultimately show ?thesis
    using that [of "map byteswap ws"] ws(2) n ln by simp
qed

subsection \<open>What the bus does\<close>

definition store_words :: "u32 \<Rightarrow> u32 list \<Rightarrow> (u32 \<Rightarrow> u8) \<Rightarrow> u32 \<Rightarrow> u8" where
  "store_words a ws m x = (if unat (x - a) < 4 * length ws then be_byte ws (unat (x - a)) else m x)"

definition within :: "u32 \<Rightarrow> u32 \<Rightarrow> u32 \<Rightarrow> nat \<Rightarrow> bool" where
  "within base len a n \<longleftrightarrow> unat base \<le> unat a \<and> unat a + n \<le> unat base + unat len"

text \<open>Writing the registers of the CPU is recorded in \<open>ctl\<close> and leaves the memory \<open>mem\<close>; reading
  changes neither; a write of words to one of the memories stores them.\<close>

definition board_bus :: "('s \<Rightarrow> u32 \<Rightarrow> u8) \<Rightarrow> ('s \<Rightarrow> (u32 \<times> u32) list) \<Rightarrow> 's devbus \<Rightarrow> bool" where
  "board_bus mem ctl bus \<longleftrightarrow>
     (\<forall>s a v. a = R_ZIPCTRL \<or> a = R_ZIPDATA \<longrightarrow>
        wp (db_writeio bus a v) (\<lambda>_ t. mem t = mem s \<and> ctl t = ctl s @ [(a, v)]) (\<lambda>_ _. False) s) \<and>
     (\<forall>s a. a = R_ZIPCTRL \<or> a = R_VERSION \<longrightarrow>
        wp (db_readio bus a)
          (\<lambda>v t. mem t = mem s \<and> ctl t = ctl s \<and> (a = R_VERSION \<longrightarrow> 0x20170000 \<le> v)) (\<lambda>_ _. False) s) \<and>
     (\<forall>s a ws. 4 dvd unat a \<and>
        (within SDRAMBASE SDRAMLEN a (4 * length ws) \<or> within BKRAMBASE BKRAMLEN a (4 * length ws)) \<longrightarrow>
        wp (db_writei bus a ws) (\<lambda>_ t. mem t = store_words a ws (mem s) \<and> ctl t = ctl s) (\<lambda>_ _. False) s)"

lemma board_writeio:
  "board_bus mem ctl bus \<Longrightarrow> a = R_ZIPCTRL \<or> a = R_ZIPDATA \<Longrightarrow>
     wp (db_writeio bus a v) (\<lambda>_ t. mem t = mem s \<and> ctl t = ctl s @ [(a, v)]) (\<lambda>_ _. False) s"
  unfolding board_bus_def by (elim conjE) (drule spec, drule spec, drule spec, erule mp)

lemma board_readio:
  "board_bus mem ctl bus \<Longrightarrow> a = R_ZIPCTRL \<or> a = R_VERSION \<Longrightarrow>
     wp (db_readio bus a)
       (\<lambda>v t. mem t = mem s \<and> ctl t = ctl s \<and> (a = R_VERSION \<longrightarrow> 0x20170000 \<le> v)) (\<lambda>_ _. False) s"
  unfolding board_bus_def by (elim conjE) (rotate_tac 2, drule spec, drule spec, erule mp)

lemma board_writei:
  "board_bus mem ctl bus \<Longrightarrow> 4 dvd unat a \<Longrightarrow>
     within SDRAMBASE SDRAMLEN a (4 * length ws) \<or> within BKRAMBASE BKRAMLEN a (4 * length ws) \<Longrightarrow>
     wp (db_writei bus a ws) (\<lambda>_ t. mem t = store_words a ws (mem s) \<and> ctl t = ctl s) (\<lambda>_ _. False) s"
  unfolding board_bus_def by (elim conjE) (rotate_tac 4, drule spec, drule spec, drule spec, erule mp, erule conjI)

subsection \<open>Each step on such a bus\<close>

definition section_bytes :: "elfsection \<Rightarrow> (u32 \<Rightarrow> u8) \<Rightarrow> u32 \<Rightarrow> u8" where
  "section_bytes s m x =
     (if unat (x - es_start s) < round4 (unat (es_len s)) then es_data s ! unat (x - es_start s) else m x)"

lemma load_words_wp:
  assumes b: "board_bus mem ctl bus" and l: "loadable s"
  shows "wp (load_words bus g s) (\<lambda>_ t. mem t = section_bytes s (mem u) \<and> ctl t = ctl u) (\<lambda>_ _. False) u"
proof -
  obtain ws where ws: "section_words g s = Inr ws" "4 * length ws = round4 (unat (es_len s))"
    "\<And>d. d < 4 * length ws \<Longrightarrow> be_byte ws d = es_data s ! d"
    using section_words_spec [OF l] by blast
  have dvd: "4 dvd unat (es_start s)" using l by (simp add: loadable_def)
  have r: "unat (es_start s) + n \<le> 0x03000000 \<Longrightarrow> unat (es_start s) + round4 n \<le> 0x03000000"
    "unat (es_start s) + n \<le> 0x01402000 \<Longrightarrow> unat (es_start s) + round4 n \<le> 0x01402000" for n
    by (rule round4_le [OF dvd]; presburger)+
  have "within SDRAMBASE SDRAMLEN (es_start s) (4 * length ws)
      \<or> within BKRAMBASE BKRAMLEN (es_start s) (4 * length ws)"
    using l r by (auto simp: loadable_def in_memory_def within_def memory_bounds ws(2))
  note w = board_writei [OF b dvd this, of u]
  have "store_words (es_start s) ws m = section_bytes s m" for m
    by (rule ext) (simp add: store_words_def section_bytes_def ws)
  with w show ?thesis by (simp add: load_words_def ws(1) wp_simps)
qed

lemma loadable_section_valid: "loadable s \<Longrightarrow> section_valid s"
  using loadable_length [of s] by (auto simp: loadable_def section_valid_def in_region_in_memory)

lemma load_section_wp:
  assumes b: "board_bus mem ctl bus" and l: "loadable s"
  shows "wp (load_section bus g s) (\<lambda>_ t. mem t = section_bytes s (mem u) \<and> ctl t = ctl u) (\<lambda>_ _. False) u"
proof -
  have "load_section bus g s = load_words bus g s"
    using loadable_section_valid [OF l] by (auto simp: load_section_def section_valid_def)
  with load_words_wp [OF b l] show ?thesis by simp
qed

lemma check_sections: "\<forall>s\<in>set ss. section_valid s \<Longrightarrow> each_section check_section ss = retS ()"
  by (induction ss) (simp_all add: check_section_def)

lemma load_sections_wp:
  assumes b: "board_bus mem ctl bus"
  shows "\<forall>s\<in>set ss. loadable s \<Longrightarrow>
    wp (each_section (load_section bus g) ss) (\<lambda>_ t. mem t = fold section_bytes ss (mem u) \<and> ctl t = ctl u)
      (\<lambda>_ _. False) u"
proof (induction ss arbitrary: u)
  case (Cons s ss)
  then have l: "loadable s" and ih: "\<And>u. wp (each_section (load_section bus g) ss)
      (\<lambda>_ t. mem t = fold section_bytes ss (mem u) \<and> ctl t = ctl u) (\<lambda>_ _. False) u"
    by simp_all
  have "wp (each_section (load_section bus g) ss)
      (\<lambda>_ r. mem r = fold section_bytes (s # ss) (mem u) \<and> ctl r = ctl u) (\<lambda>_ _. False) t"
    if "mem t = section_bytes s (mem u) \<and> ctl t = ctl u" for t
    using ih [of t] that by simp
  with load_section_wp [OF b l] show ?case
    unfolding each_section.simps by (rule wp_seq)
qed (simp add: wp_simps)

fun clear_script :: "nat \<Rightarrow> u32 \<Rightarrow> (u32 \<times> u32) list" where
  "clear_script 0 i = []"
| "clear_script (Suc n) i = (R_ZIPCTRL, CPU_HALT OR i) # (R_ZIPDATA, 0) # clear_script n (i + 1)"

definition cpu_script :: "u32 \<Rightarrow> bool \<Rightarrow> (u32 \<times> u32) list" where
  "cpu_script entry start =
     clear_script 32 0 @
     [(R_ZIPCTRL, CPU_HALT OR CPU_CLRCACHE), (R_ZIPCTRL, CPU_HALT OR CPU_sPC), (R_ZIPDATA, entry)] @
     (if start then [(R_ZIPCTRL, CPU_GO OR CPU_sPC)] else [])"

lemma writeio_ctrl:
  assumes "board_bus mem ctl bus"
    and "\<And>t. mem t = mem u \<Longrightarrow> ctl t = ctl u @ [(R_ZIPCTRL, v)] \<Longrightarrow> wp m Q (\<lambda>_ _. False) t"
  shows "wp (thenS (db_writeio bus R_ZIPCTRL v) (\<lambda>_. m)) Q (\<lambda>_ _. False) u"
  using board_writeio [OF assms(1) disjI1 [OF refl]] by (rule wp_seq) (simp add: assms(2))

lemma writeio_data:
  assumes "board_bus mem ctl bus"
    and "\<And>t. mem t = mem u \<Longrightarrow> ctl t = ctl u @ [(R_ZIPDATA, v)] \<Longrightarrow> wp m Q (\<lambda>_ _. False) t"
  shows "wp (thenS (db_writeio bus R_ZIPDATA v) (\<lambda>_. m)) Q (\<lambda>_ _. False) u"
  using board_writeio [OF assms(1) disjI2 [OF refl]] by (rule wp_seq) (simp add: assms(2))

lemma clear_registers_wp:
  assumes b: "board_bus mem ctl bus"
  shows "wp (clear_registers bus n i) (\<lambda>_ t. mem t = mem u \<and> ctl t = ctl u @ clear_script n i) (\<lambda>_ _. False) u"
proof (induction n arbitrary: i u)
  case (Suc n)
  show ?case
    unfolding clear_registers.simps
    by (rule writeio_ctrl [OF b], rule writeio_data [OF b], rule wp_mono [OF Suc.IH]) simp_all
qed (simp add: wp_simps)

lemma start_cpu_wp:
  assumes b: "board_bus mem ctl bus"
  shows "wp (start_cpu bus entry start) (\<lambda>_ t. mem t = mem u \<and> ctl t = ctl u @ cpu_script entry start)
    (\<lambda>_ _. False) u"
proof -
  have last: "wp (if start then db_writeio bus R_ZIPCTRL (CPU_GO OR CPU_sPC) else retS ())
      (\<lambda>_ r. mem r = mem t \<and> ctl r = ctl t @ (if start then [(R_ZIPCTRL, CPU_GO OR CPU_sPC)] else []))
      (\<lambda>_ _. False) t" for t
    using board_writeio [OF b, of R_ZIPCTRL "CPU_GO OR CPU_sPC" t] by (simp add: wp_simps)
  show ?thesis
    unfolding start_cpu_def
    by (rule wp_seq [OF clear_registers_wp [OF b]], rule writeio_ctrl [OF b], rule writeio_ctrl [OF b],
        rule writeio_data [OF b], rule wp_mono [OF last]) (simp_all add: cpu_script_def)
qed

subsection \<open>The whole program\<close>

abbreviation sections_read :: "elfsection list \<Rightarrow> elfsection list" where
  "sections_read secs \<equiv> takeWhile (\<lambda>s. es_len s \<noteq> 0) secs"

lemma check_version_wp:
  assumes b: "board_bus mem ctl bus"
  shows "wp (check_version bus) (\<lambda>_ t. mem t = mem u \<and> ctl t = ctl u) (\<lambda>_ _. False) u"
  unfolding check_version_def
  by (rule wp_seq [OF board_readio [OF b disjI2 [OF refl]]]) (simp add: wp_simps not_less)

lemma load_program_wp:
  fixes mem :: "'s \<Rightarrow> u32 \<Rightarrow> u8"
  assumes b: "board_bus mem ctl bus" and l: "\<forall>s\<in>set ss. loadable s"
  shows "wp (load_program bus g ss entry start)
     (\<lambda>_ t. mem t = fold section_bytes ss (mem u) \<and> ctl t = ctl u @ cpu_script entry start) (\<lambda>_ _. False) u"
proof -
  have "(each_section check_section ss :: ('s, unit) prog) = retS ()"
    using l by (intro check_sections) (simp add: loadable_section_valid)
  then have eq: "load_program bus g ss entry start =
      thenS (each_section (load_section bus g) ss)
        (\<lambda>_. thenS (db_readio bus R_VERSION) (\<lambda>_. start_cpu bus entry start))"
    by (simp only: load_program_def thenS_retS)
  have "wp (thenS (db_readio bus R_VERSION) (\<lambda>_. start_cpu bus entry start))
      (\<lambda>_ t. mem t = fold section_bytes ss (mem u) \<and> ctl t = ctl u @ cpu_script entry start) (\<lambda>_ _. False) r"
    if "mem r = fold section_bytes ss (mem u) \<and> ctl r = ctl u" for r
    by (rule wp_seq [OF board_readio [OF b disjI2 [OF refl]]], rule wp_mono [OF start_cpu_wp [OF b]])
      (simp_all add: that)
  then show ?thesis
    unfolding eq by (rule wp_seq [OF load_sections_wp [OF b l]])
qed

text \<open>The sections that come later win where two overlap.\<close>

lemma fold_section_bytes_other:
  "\<forall>s\<in>set ss. \<not> unat (x - es_start s) < round4 (unat (es_len s)) \<Longrightarrow> fold section_bytes ss m x = m x"
  by (induction ss arbitrary: m) (simp_all add: section_bytes_def)

lemma fold_section_bytes_last:
  assumes "\<forall>s\<in>set ss. \<not> unat (x - es_start s) < round4 (unat (es_len s))"
    and "x = es_start s + of_nat k" "k < unat (es_len s)"
  shows "fold section_bytes (pre @ s # ss) m x = es_data s ! k"
proof -
  have "k < 2 ^ 32" using assms(3) unsigned_less [of "es_len s", where ?'a = nat] by simp
  then have "unat (x - es_start s) = k"
    using assms(2) by (simp add: unsigned_of_nat take_bit_nat_eq_self)
  moreover have "k < round4 (unat (es_len s))"
    using assms(3) unfolding round4_def by presburger
  ultimately show ?thesis
    using fold_section_bytes_other [OF assms(1)] by (simp add: section_bytes_def)
qed

subsection \<open>A board and a program\<close>

definition ideal_board :: "((u32 \<Rightarrow> u8) \<times> (u32 \<times> u32) list) devbus" where
  "ideal_board =
     \<lparr>db_writeio = \<lambda>a v s. Inr ((), (fst s, snd s @ [(a, v)])),
      db_readio = \<lambda>a s. Inr (0x20180101, s),
      db_readi = \<lambda>a n s. Inr (replicate n 0, s),
      db_writei = \<lambda>a ws s. Inr ((), (store_words a ws (fst s), snd s))\<rparr>"

lemma ideal_board: "board_bus fst snd ideal_board"
  by (simp add: board_bus_def ideal_board_def wp_def)

definition example_sections :: "elfsection list" where
  "example_sections =
     [\<lparr>es_start = 0x01400000, es_len = 5, es_data = [11, 22, 33, 44, 55, 0, 0, 0]\<rparr>,
      \<lparr>es_start = 0, es_len = 0, es_data = []\<rparr>]"

subsection \<open>The properties\<close>

text \<open>C24. The loader ends with code 0, having left in the memories exactly the sections, each byte of a
  section at its address unless a later section overlaps it, and having halted and reset the CPU, cleared
  its 32 registers and its cache, set its program counter to the entry and started it if asked to. Each
  section is to lie in one of the memories at a multiple of four, with storage up to a multiple of four.\<close>

theorem zipload_loads:
  assumes "board_bus mem ctl bus" and "\<forall>s\<in>set (sections_read secs). loadable s"
  shows "wp (zipload bus g secs entry start)
    (\<lambda>code t. code = 0 \<and> mem t = fold section_bytes (sections_read secs) (mem u) \<and>
       ctl t = ctl u @ (R_ZIPCTRL, CPU_HALT OR CPU_RESET) # cpu_script entry start \<and>
       (\<forall>pre s post k. sections_read secs = pre @ s # post \<and> k < unat (es_len s) \<and>
          (\<forall>p\<in>set post. round4 (unat (es_len p)) \<le> unat (es_start s + of_nat k - es_start p))
          \<longrightarrow> mem t (es_start s + of_nat k) = es_data s ! k))
    (\<lambda>_ _. False) u"
proof -
  note b = assms(1)
  have last: "wp (thenS (db_readio bus R_ZIPCTRL) (\<lambda>_. retS 0))
      (\<lambda>code t. code = 0 \<and> mem t = mem r \<and> ctl t = ctl r) (\<lambda>_ _. False) r" for r
    by (rule wp_seq [OF board_readio [OF b disjI1 [OF refl]]]) (simp add: wp_simps)
  have bytes: "fold section_bytes post (section_bytes s (fold section_bytes pre m)) (es_start s + of_nat k)
      = es_data s ! k"
    if "k < unat (es_len s)"
      "\<forall>p\<in>set post. round4 (unat (es_len p)) \<le> unat (es_start s + of_nat k - es_start p)"
    for m pre s post k
    using fold_section_bytes_last [of post "es_start s + of_nat k" s k pre m] that by (simp add: not_less)
  show ?thesis
    unfolding zipload_def
    by (rule wp_seq [OF wp_catch_none [OF check_version_wp [OF b]]],
        rule wp_seq [OF wp_catch_none [OF board_writeio [OF b disjI1 [OF refl]]]],
        rule wp_seq [OF wp_catch_none [OF load_program_wp [OF b assms(2)]]],
        rule wp_mono [OF last]) (auto simp: bytes)
qed

theorem zipload_loads_witness:
  "board_bus fst snd ideal_board \<and> list_all loadable (sections_read example_sections) \<and>
   wp (zipload ideal_board (\<lambda>_. 7) example_sections 0x01400000 True)
     (\<lambda>code t. code = 0 \<and> fst t 0x01400001 = 22 \<and> last (snd t) = (R_ZIPCTRL, CPU_GO OR CPU_sPC))
     (\<lambda>_ _. False) (\<lambda>_. 0xff, [])"
proof (intro conjI)
  show b: "board_bus fst snd ideal_board" by (rule ideal_board)
  show "list_all loadable (sections_read example_sections)"
    by (simp add: example_sections_def loadable_def in_memory_def memory_bounds round4_def)
  then have l: "\<forall>s\<in>set (sections_read example_sections). loadable s" by (simp only: list_all_iff)
  let ?s = "hd example_sections"
  have "sections_read example_sections = [] @ ?s # []" "1 < unat (es_len ?s)"
    "es_start ?s + of_nat 1 = 0x01400001" "es_data ?s ! 1 = 22"
    by (simp_all add: example_sections_def)
  with zipload_loads [OF b l, where g = "\<lambda>_. 7" and entry = "0x01400000" and start = True and u = "(\<lambda>_. 0xff, [])"]
  show "wp (zipload ideal_board (\<lambda>_. 7) example_sections 0x01400000 True)
     (\<lambda>code t. code = 0 \<and> fst t 0x01400001 = 22 \<and> last (snd t) = (R_ZIPCTRL, CPU_GO OR CPU_sPC))
     (\<lambda>_ _. False) (\<lambda>_. 0xff, [])"
    by (elim wp_mono) (fastforce simp: cpu_script_def)+
qed

text \<open>A section outside the memories stops the loader with code 1 before anything has been written to
  the memory: the CPU has only been halted and reset.\<close>

theorem zipload_refuses:
  assumes "board_bus mem ctl bus" and "s \<in> set (sections_read secs)" "\<not> section_valid s"
  shows "wp (zipload bus g secs entry start) (\<lambda>_ _. False)
    (\<lambda>e t. e = ExitWith 1 \<and> mem t = mem u \<and> ctl t = ctl u @ [(R_ZIPCTRL, CPU_HALT OR CPU_RESET)]) u"
proof -
  note b = assms(1)
  have no_err: "wp m Q E r" if "wp m Q (\<lambda>_ _. False) r" for m Q E and r :: 'a
    using that by (rule wp_mono) simp_all
  have "s \<in> set ss \<Longrightarrow> each_section check_section ss r = Inl (ExitWith 1, r)" for ss and r :: 'a
    using assms(3) by (induction ss) (auto simp: check_section_def thenS_def retS_def throwS_def)
  then have "wp (load_program bus g (sections_read secs) entry start) (\<lambda>_ _. False)
      (\<lambda>e t. e = ExitWith 1 \<and> t = r) r" for r
    using assms(2) by (simp add: load_program_def wp_thenS) (simp add: wp_def)
  then have refused: "wp (catchS (load_program bus g (sections_read secs) entry start) (exit_on_buserr (-2)))
      (\<lambda>_ _. False) (\<lambda>e t. e = ExitWith 1 \<and> t = r) r" for r
    by (rule wp_catch) (simp add: exit_on_buserr_def wp_simps)
  show ?thesis
    unfolding zipload_def
    by (rule wp_seq [OF no_err [OF wp_catch_none [OF check_version_wp [OF b]]]],
        rule wp_seq [OF no_err [OF wp_catch_none [OF board_writeio [OF b disjI1 [OF refl]]]]],
        rule wp_seq [OF wp_mono [OF refused]]) auto
qed

theorem zipload_refuses_witness:
  "board_bus fst snd ideal_board \<and>
   wp (zipload ideal_board (\<lambda>_. 7) [\<lparr>es_start = 0x01000000, es_len = 4, es_data = [1, 2, 3, 4]\<rparr>] 0 True)
     (\<lambda>_ _. False) (\<lambda>e t. e = ExitWith 1 \<and> fst t = (\<lambda>_. 0xff)) (\<lambda>_. 0xff, [])"
proof (intro conjI)
  show b: "board_bus fst snd ideal_board" by (rule ideal_board)
  let ?s = "\<lparr>es_start = 0x01000000, es_len = 4, es_data = [1, 2, 3, 4]\<rparr>"
  have "?s \<in> set (sections_read [?s])" by simp
  moreover have "\<not> section_valid ?s"
    by (simp add: section_valid_def in_region_def BKRAMBASE_def BKRAMLEN_def SDRAMBASE_def SDRAMLEN_def)
  ultimately show "wp (zipload ideal_board (\<lambda>_. 7) [?s] 0 True)
     (\<lambda>_ _. False) (\<lambda>e t. e = ExitWith 1 \<and> fst t = (\<lambda>_. 0xff)) (\<lambda>_. 0xff, [])"
    using wp_mono [OF zipload_refuses [OF b, of ?s "[?s]" "\<lambda>_. 7" 0 True "(\<lambda>_. 0xff, [])"]] by simp
qed

text \<open>The sum of the start and the length is computed modulo $2^{32}$: a section at the end of the
  address space that wraps around counts as block RAM, and is written.\<close>

lemma wrapped_section_accepted:
  "section_valid \<lparr>es_start = 0xfffffff0, es_len = 0x20, es_data = d\<rparr>"
  by (simp add: section_valid_def in_region_def BKRAMBASE_def BKRAMLEN_def)

end
