(* ===== verification/NetPPort.thy ===== *)
theory NetPPort
  imports MemSim
begin

text \<open>
  \<open>sw/host/netpport.cpp\<close>: the server on the Raspberry Pi that carries two network connections, for
  commands and for the console, over the parallel port of the board. \<open>MUXDCOMMS\<close> drives the pins
  and keeps the bytes that came in while it was sending; \<open>LINBUFS\<close> is one connection with the lines
  that are printed; the loop of \<open>main\<close> moves bytes between them. A field \<open>m_x\<close> is \<open>mx_x\<close> or \<open>lb_x\<close>.

  The library \<open>wiringPi\<close> and the operating system are arguments. A \<open>char\<close> is unsigned, as it is on
  this machine, so that \<open>datab == 0x0ff\<close> can hold. The loops that wait for a pin take fuel.
\<close>

subsection \<open>Pins\<close>

record 's gpio =
  gp_digitalWrite :: "nat \<Rightarrow> int \<Rightarrow> ('s, unit) prog"
  gp_digitalRead :: "nat \<Rightarrow> ('s, int) prog"
  gp_pinMode :: "nat \<Rightarrow> int \<Rightarrow> ('s, unit) prog"

definition RASPI_DIR :: nat where "RASPI_DIR = 28"
definition RASPI_CLK :: nat where "RASPI_CLK = 10"
definition RASPI_CLKFB :: nat where "RASPI_CLKFB = 11"

text \<open>\<open>RASPI_D0\<close> to \<open>RASPI_D7\<close>.\<close>

definition RASPI_D :: "nat list" where
  "RASPI_D = [27, 24, 0, 21, 22, 4, 5, 1]"

abbreviation (input) INPUT :: int where "INPUT \<equiv> 0"
abbreviation (input) OUTPUT :: int where "OUTPUT \<equiv> 1"

fun wait_while :: "nat \<Rightarrow> 's gpio \<Rightarrow> nat \<Rightarrow> (int \<Rightarrow> bool) \<Rightarrow> ('s, unit) prog" where
  "wait_while 0 gp pin busy = throwS NoReturn"
| "wait_while (Suc n) gp pin busy =
     thenS (gp_digitalRead gp pin) (\<lambda>v. if busy v then wait_while n gp pin busy else retS ())"

text \<open>The eight calls for \<open>RASPI_D7\<close> down to \<open>RASPI_D0\<close>, each with the value for its bit.\<close>

fun data_modes :: "'s gpio \<Rightarrow> int \<Rightarrow> nat \<Rightarrow> ('s, unit) prog" where
  "data_modes gp mode 0 = retS ()"
| "data_modes gp mode (Suc k) =
     thenS (gp_pinMode gp (RASPI_D ! k) mode) (\<lambda>_. data_modes gp mode k)"

fun data_write :: "'s gpio \<Rightarrow> u8 \<Rightarrow> nat \<Rightarrow> ('s, unit) prog" where
  "data_write gp datab 0 = retS ()"
| "data_write gp datab (Suc k) =
     thenS (gp_digitalWrite gp (RASPI_D ! k) (if datab AND 2 ^ k \<noteq> 0 then 1 else 0)) (\<lambda>_.
     data_write gp datab k)"

fun data_read :: "'s gpio \<Rightarrow> u8 \<Rightarrow> nat \<Rightarrow> ('s, u8) prog" where
  "data_read gp datab 0 = retS datab"
| "data_read gp datab (Suc k) =
     thenS (gp_digitalRead gp (RASPI_D ! k)) (\<lambda>v.
     data_read gp (if v \<noteq> 0 then datab OR 2 ^ k else datab) k)"

definition pp_xfer_byte :: "nat \<Rightarrow> 's gpio \<Rightarrow> u8 \<Rightarrow> ('s, u8) prog" where
  "pp_xfer_byte fuel gp datab =
     thenS (gp_digitalWrite gp RASPI_DIR OUTPUT) (\<lambda>_.
     thenS (gp_digitalWrite gp RASPI_CLK 0) (\<lambda>_.
     thenS (wait_while fuel gp RASPI_CLKFB (\<lambda>v. v \<noteq> 0)) (\<lambda>_.
     thenS (data_modes gp OUTPUT 8) (\<lambda>_.
     thenS (data_write gp datab 8) (\<lambda>_.
     thenS (gp_digitalWrite gp RASPI_CLK 1) (\<lambda>_.
     thenS (wait_while fuel gp RASPI_CLK (\<lambda>v. v \<noteq> 1)) (\<lambda>_.
     thenS (wait_while fuel gp RASPI_CLKFB (\<lambda>v. v = 0)) (\<lambda>_.
     thenS (data_modes gp INPUT 8) (\<lambda>_.
     thenS (gp_digitalWrite gp RASPI_DIR INPUT) (\<lambda>_.
     thenS (gp_digitalWrite gp RASPI_CLK 0) (\<lambda>_.
     thenS (wait_while fuel gp RASPI_CLKFB (\<lambda>v. v \<noteq> 0)) (\<lambda>_.
     thenS (gp_digitalWrite gp RASPI_CLK 1) (\<lambda>_.
     thenS (wait_while fuel gp RASPI_CLKFB (\<lambda>v. v \<noteq> 1)) (\<lambda>_.
     data_read gp 0 8))))))))))))))"

text \<open>\<open>pp_xfer\<close> stores what comes back from index \<open>at\<close> of \<open>rdbuf\<close> on.\<close>

fun pp_xfer_loop :: "nat \<Rightarrow> 's gpio \<Rightarrow> u8 list \<Rightarrow> nat \<Rightarrow> nat \<Rightarrow> u8 list \<Rightarrow> ('s, nat \<times> u8 list) prog" where
  "pp_xfer_loop fuel gp [] at nr rdbuf = retS (nr, rdbuf)"
| "pp_xfer_loop fuel gp (d # ds) at nr rdbuf =
     thenS (pp_xfer_byte fuel gp d) (\<lambda>datab.
     if datab \<noteq> 0xff
     then thenS (liftS (aset rdbuf (at + nr) datab)) (\<lambda>rdbuf. pp_xfer_loop fuel gp ds at (nr + 1) rdbuf)
     else pp_xfer_loop fuel gp ds at nr rdbuf)"

definition pp_xfer :: "nat \<Rightarrow> 's gpio \<Rightarrow> u8 list \<Rightarrow> nat \<Rightarrow> u8 list \<Rightarrow> ('s, nat \<times> u8 list) prog" where
  "pp_xfer fuel gp dat at rdbuf =
     thenS (pp_xfer_loop fuel gp dat at 0 rdbuf) (\<lambda>r.
     thenS (gp_digitalWrite gp RASPI_DIR INPUT) (\<lambda>_.
     thenS (gp_digitalWrite gp RASPI_CLK 0) (\<lambda>_. retS r)))"

definition pp_read_byte :: "nat \<Rightarrow> 's gpio \<Rightarrow> ('s, u8) prog" where
  "pp_read_byte fuel gp =
     thenS (wait_while fuel gp RASPI_CLKFB (\<lambda>v. v \<noteq> 0)) (\<lambda>_.
     thenS (gp_digitalWrite gp RASPI_CLK 1) (\<lambda>_.
     thenS (wait_while fuel gp RASPI_CLK (\<lambda>v. v = 0)) (\<lambda>_.
     thenS (wait_while fuel gp RASPI_CLKFB (\<lambda>v. v = 0)) (\<lambda>_.
     thenS (data_read gp 0 8) (\<lambda>datab.
     thenS (gp_digitalWrite gp RASPI_CLK 0) (\<lambda>_.
     thenS (wait_while fuel gp RASPI_CLK (\<lambda>v. v \<noteq> 0)) (\<lambda>_. retS datab)))))))"

text \<open>The bytes that \<open>pp_read\<close> stores at \<open>data\<close>.\<close>

fun pp_read_loop :: "nat \<Rightarrow> 's gpio \<Rightarrow> nat \<Rightarrow> ('s, u8 list) prog" where
  "pp_read_loop fuel gp 0 = retS []"
| "pp_read_loop fuel gp (Suc n) =
     thenS (pp_read_byte fuel gp) (\<lambda>datab.
     if datab = 0xff then retS []
     else thenS (pp_read_loop fuel gp n) (\<lambda>bs. retS (datab # bs)))"

definition pp_read :: "nat \<Rightarrow> 's gpio \<Rightarrow> nat \<Rightarrow> ('s, u8 list) prog" where
  "pp_read fuel gp nbytes =
     thenS (gp_digitalWrite gp RASPI_CLK 0) (\<lambda>_.
     thenS (data_modes gp INPUT 8) (\<lambda>_.
     thenS (gp_digitalWrite gp RASPI_DIR INPUT) (\<lambda>_.
     thenS (wait_while fuel gp RASPI_DIR (\<lambda>v. v \<noteq> INPUT)) (\<lambda>_.
     pp_read_loop fuel gp nbytes))))"

fun all_high :: "'s gpio \<Rightarrow> nat \<Rightarrow> ('s, bool) prog" where
  "all_high gp 0 = retS True"
| "all_high gp (Suc k) =
     thenS (gp_digitalRead gp (RASPI_D ! k)) (\<lambda>v. if v = 0 then retS False else all_high gp k)"

definition pp_idle :: "'s gpio \<Rightarrow> ('s, bool) prog" where
  "pp_idle gp =
     thenS (gp_digitalRead gp RASPI_CLK) (\<lambda>v. if v \<noteq> 0 then retS False else
     thenS (gp_digitalRead gp RASPI_CLKFB) (\<lambda>v. if v \<noteq> 0 then retS False else all_high gp 8))"

definition pp_dump :: "'s gpio \<Rightarrow> ('s, unit) prog" where
  "pp_dump gp = thenS (data_read gp 0 8) (\<lambda>_. retS ())"

subsection \<open>\<open>MUXDCOMMS\<close>\<close>

record muxd =
  mx_rd_buf :: "u8 list"
  mx_rd_pos :: u32
  mx_rd_fill :: u32
  mx_rd_size :: u32

definition pp_init :: "'s gpio \<Rightarrow> ('s, unit) prog" where
  "pp_init gp =
     thenS (gp_pinMode gp RASPI_DIR OUTPUT) (\<lambda>_.
     thenS (gp_digitalWrite gp RASPI_DIR OUTPUT) (\<lambda>_.
     thenS (gp_pinMode gp RASPI_CLK OUTPUT) (\<lambda>_.
     thenS (gp_digitalWrite gp RASPI_CLK 0) (\<lambda>_.
     thenS (gp_pinMode gp RASPI_CLKFB INPUT) (\<lambda>_.
     thenS (data_modes gp INPUT 8) (\<lambda>_.
     gp_digitalWrite gp RASPI_DIR INPUT))))))"

text \<open>What an array holds before it is written is the argument \<open>g\<close>.\<close>

definition muxd_new :: "'s gpio \<Rightarrow> (nat \<Rightarrow> u8) \<Rightarrow> ('s, muxd) prog" where
  "muxd_new gp g =
     thenS (pp_init gp) (\<lambda>_.
     retS \<lparr>mx_rd_buf = map g [0..<8192], mx_rd_pos = 0, mx_rd_fill = 0, mx_rd_size = 8192\<rparr>)"

text \<open>\<open>memcpy\<close> and \<open>memmove\<close> read \<open>n\<close> bytes from \<open>i\<close> on.\<close>

definition array_part :: "nat \<Rightarrow> nat \<Rightarrow> 'a list \<Rightarrow> 'a list res" where
  "array_part i n xs = (if i + n \<le> length xs then Inr (take n (drop i xs)) else Inl OutOfBounds)"

definition muxd_take :: "u32 \<Rightarrow> muxd \<Rightarrow> (u8 list \<times> muxd) res" where
  "muxd_take nreq m =
     (if mx_rd_fill m > 0
      then let ln = (if nreq > mx_rd_fill m then mx_rd_fill m else nreq)
           in bindE (array_part (unat (mx_rd_pos m)) (unat ln) (mx_rd_buf m)) (\<lambda>bs.
              let pos = mx_rd_pos m + ln; fill = mx_rd_fill m - ln
              in Inr (bs, m\<lparr>mx_rd_pos := (if fill = 0 then 0 else pos), mx_rd_fill := fill\<rparr>))
      else Inr ([], m))"

definition muxd_read :: "nat \<Rightarrow> 's gpio \<Rightarrow> u32 \<Rightarrow> muxd \<Rightarrow> ('s, u8 list \<times> muxd) prog" where
  "muxd_read fuel gp nreq m =
     thenS (liftS (muxd_take nreq m)) (\<lambda>(bs, m).
     if length bs < unat nreq
     then thenS (pp_read fuel gp (unat nreq - length bs)) (\<lambda>cs. retS (bs @ cs, m))
     else retS (bs, m))"

definition muxd_compact :: "muxd \<Rightarrow> muxd res" where
  "muxd_compact m =
     (if mx_rd_pos m > 0
      then bindE (array_part (unat (mx_rd_pos m)) (unat (mx_rd_fill m)) (mx_rd_buf m)) (\<lambda>bs.
           Inr (m\<lparr>mx_rd_buf := bs @ drop (length bs) (mx_rd_buf m), mx_rd_pos := 0\<rparr>))
      else Inr m)"

definition muxd_grow :: "(nat \<Rightarrow> u8) \<Rightarrow> u32 \<Rightarrow> muxd \<Rightarrow> muxd res" where
  "muxd_grow g nreq m =
     (if nreq > mx_rd_size m - mx_rd_fill m
      then (case pow2_above (mx_rd_size m) (mx_rd_fill m + nreq) of
              None \<Rightarrow> Inl NoReturn
            | Some newsz \<Rightarrow>
                bindE (array_part 0 (unat (mx_rd_fill m)) (mx_rd_buf m)) (\<lambda>bs.
                bindE (put_bytes 0 bs (map g [0..<unat newsz])) (\<lambda>alt.
                Inr (m\<lparr>mx_rd_buf := alt\<rparr>))))
      else Inr m)"

definition muxd_make_room :: "(nat \<Rightarrow> u8) \<Rightarrow> u32 \<Rightarrow> muxd \<Rightarrow> muxd res" where
  "muxd_make_room g nreq m =
     (if nreq > mx_rd_size m - mx_rd_fill m - mx_rd_pos m
      then bindE (muxd_compact m) (muxd_grow g nreq)
      else Inr m)"

definition muxd_write :: "nat \<Rightarrow> 's gpio \<Rightarrow> (nat \<Rightarrow> u8) \<Rightarrow> u32 \<Rightarrow> u8 list \<Rightarrow> muxd \<Rightarrow> ('s, muxd) prog" where
  "muxd_write fuel gp g nreq buf m =
     thenS (liftS (muxd_make_room g nreq m)) (\<lambda>m.
     thenS (liftS (array_part 0 (unat nreq) buf)) (\<lambda>dat.
     thenS (pp_xfer fuel gp dat (unat (mx_rd_pos m)) (mx_rd_buf m)) (\<lambda>(nr, buf).
     retS (m\<lparr>mx_rd_buf := buf, mx_rd_fill := mx_rd_fill m + of_nat nr\<rparr>))))"

end
