(* ===== verification/NetServer.thy ===== *)
theory NetServer
  imports NetPPort
begin

text \<open>
  The second half of \<open>sw/host/netpport.cpp\<close>: the class \<open>LINBUFS\<close> and one round of the loop of \<open>main\<close>.
  The calls of the operating system are the record \<open>netos\<close>; the lines of \<open>print_in\<close>, \<open>print_out\<close>
  and \<open>flush_out\<close> go through \<open>no_print\<close>, other messages are left out.
\<close>

subsection \<open>The operating system\<close>

text \<open>\<open>no_poll\<close> answers what \<open>poll\<close> returns and whether \<open>POLLIN\<close> is set for either descriptor;
  \<open>no_write\<close> also whether \<open>errno\<close> is \<open>EAGAIN\<close>; \<open>no_read\<close> the bytes read, \<open>None\<close> when it fails.\<close>

record 's netos =
  no_poll :: "int \<Rightarrow> int \<Rightarrow> int \<Rightarrow> ('s, int \<times> bool \<times> bool) prog"
  no_accept :: "int \<Rightarrow> ('s, int) prog"
  no_read :: "int \<Rightarrow> nat \<Rightarrow> ('s, u8 list option) prog"
  no_write :: "int \<Rightarrow> u8 list \<Rightarrow> ('s, int \<times> bool) prog"
  no_close :: "int \<Rightarrow> ('s, unit) prog"
  no_print :: "u8 list \<Rightarrow> ('s, unit) prog"

subsection \<open>\<open>LINBUFS\<close>\<close>

record linbufs =
  lb_iline :: "u8 list"
  lb_oline :: "u8 list"
  lb_buf :: "u8 list"
  lb_ilen :: nat
  lb_olen :: nat
  lb_fd :: int
  lb_connected :: bool

definition linbufs_new :: "(nat \<Rightarrow> u8) \<Rightarrow> linbufs" where
  "linbufs_new g =
     \<lparr>lb_iline = map g [0..<512], lb_oline = map g [0..<512], lb_buf = map g [0..<256],
      lb_ilen = 0, lb_olen = 0, lb_fd = -1, lb_connected = False\<rparr>"

definition lb_close :: "'s netos \<Rightarrow> linbufs \<Rightarrow> ('s, linbufs) prog" where
  "lb_close os b =
     (if \<not> lb_connected b then retS (b\<lparr>lb_fd := -1\<rparr>)
      else if lb_fd b < 0 then retS (b\<lparr>lb_connected := False\<rparr>)
      else thenS (no_close os (lb_fd b)) (\<lambda>_. retS (b\<lparr>lb_fd := -1, lb_connected := False\<rparr>)))"

text \<open>\<open>read\<close> fills \<open>m_buf\<close>; the result is the number of bytes, negative when it failed.\<close>

definition lb_read :: "'s netos \<Rightarrow> linbufs \<Rightarrow> ('s, int \<times> linbufs) prog" where
  "lb_read os b =
     (if \<not> lb_connected b then retS (0, b)
      else thenS (no_read os (lb_fd b) 256) (\<lambda>r. case r of
        None \<Rightarrow> retS (-1, b)
      | Some bs \<Rightarrow> thenS (liftS (put_bytes 0 bs (lb_buf b))) (\<lambda>buf. retS (int (length bs), b\<lparr>lb_buf := buf\<rparr>))))"

definition lb_accept :: "'s netos \<Rightarrow> int \<Rightarrow> linbufs \<Rightarrow> ('s, linbufs) prog" where
  "lb_accept os skt b =
     thenS (no_accept os skt) (\<lambda>fd.
     if fd < 0 then throwS (ExitWith 1) else retS (b\<lparr>lb_fd := fd, lb_connected := 0 \<le> fd\<rparr>))"

definition or_mask :: "nat \<Rightarrow> u8 \<Rightarrow> u8 list \<Rightarrow> u8 list res" where
  "or_mask ln mk buf =
     (if mk \<noteq> 0 then bindE (array_part 0 ln buf) (\<lambda>bs. Inr (map (\<lambda>c. c OR mk) bs @ drop ln buf))
      else Inr buf)"

definition lb_pp_write :: "nat \<Rightarrow> 's gpio \<Rightarrow> (nat \<Rightarrow> u8) \<Rightarrow> nat \<Rightarrow> u8 \<Rightarrow> linbufs \<Rightarrow> muxd \<Rightarrow> ('s, linbufs \<times> muxd) prog" where
  "lb_pp_write fuel gp g ln mk b m =
     thenS (liftS (or_mask ln mk (lb_buf b))) (\<lambda>buf.
     if ln > 0
     then thenS (muxd_write fuel gp g (of_nat ln) buf m) (\<lambda>m. retS (b\<lparr>lb_buf := buf\<rparr>, m))
     else retS (b\<lparr>lb_buf := buf\<rparr>, m))"

text \<open>A write that would block is tried again: fuel.\<close>

fun lb_write_loop :: "nat \<Rightarrow> 's netos \<Rightarrow> int \<Rightarrow> u8 list \<Rightarrow> int \<Rightarrow> int \<Rightarrow> ('s, int) prog" where
  "lb_write_loop 0 os fd buf ln pos = throwS NoReturn"
| "lb_write_loop (Suc n) os fd buf ln pos =
     thenS (liftS (array_part (nat pos) (nat (ln - pos)) buf)) (\<lambda>bs.
     thenS (no_write os fd bs) (\<lambda>(nw, eagain).
     if nw < 0 \<and> eagain then (if pos < ln then lb_write_loop n os fd buf ln pos else retS pos)
     else if nw < 0 then throwS (ExitWith 1)
     else if nw = 0 then throwS (ExitWith 0)
     else if pos + nw < ln then lb_write_loop n os fd buf ln (pos + nw) else retS (pos + nw)))"

definition lb_write :: "nat \<Rightarrow> 's netos \<Rightarrow> int \<Rightarrow> nat \<Rightarrow> u8 \<Rightarrow> linbufs \<Rightarrow> ('s, int \<times> linbufs) prog" where
  "lb_write fuel os fd ln mk b =
     thenS (liftS (or_mask ln mk (lb_buf b))) (\<lambda>buf.
     thenS (lb_write_loop fuel os fd buf (int ln) 0) (\<lambda>pos. retS (pos, b\<lparr>lb_buf := buf\<rparr>)))"

text \<open>One round of the loop of \<open>print_in\<close>: the text that is printed, and the buffers.\<close>

definition print_in_char :: "u8 list \<Rightarrow> u8 \<Rightarrow> linbufs \<Rightarrow> (u8 list \<times> linbufs) res" where
  "print_in_char prefix ch b =
     bindE (aset (lb_iline b) (lb_ilen b) ch) (\<lambda>iline.
     let ilen = lb_ilen b + 1; nl = (ch = 10 \<or> ch = 13); fullline = (ilen \<ge> 512 - 1) in
     if nl \<or> fullline
     then bindE (aset iline ilen 0) (\<lambda>iline.
            Inr (prefix @ takeWhile (\<lambda>c. c \<noteq> 0) iline @ (if \<not> nl then [10] else []),
                 b\<lparr>lb_iline := iline, lb_ilen := 0\<rparr>))
     else Inr ([], b\<lparr>lb_iline := iline, lb_ilen := ilen\<rparr>))"

fun print_in_loop :: "nat \<Rightarrow> nat \<Rightarrow> u8 list \<Rightarrow> linbufs \<Rightarrow> (u8 list \<times> linbufs) res" where
  "print_in_loop i 0 prefix b = Inr ([], b)"
| "print_in_loop i (Suc n) prefix b =
     bindE (aget (lb_buf b) i) (\<lambda>ch.
     bindE (print_in_char prefix ch b) (\<lambda>(text, b).
     bindE (print_in_loop (i + 1) n prefix b) (\<lambda>(rest, b). Inr (text @ rest, b))))"

definition print_in :: "nat \<Rightarrow> u8 list \<Rightarrow> linbufs \<Rightarrow> (u8 list \<times> linbufs) res" where
  "print_in ln prefix b = bindE (assertE (ln > 0)) (\<lambda>_. print_in_loop 0 ln prefix b)"

definition print_out_char :: "u8 list \<Rightarrow> u8 \<Rightarrow> linbufs \<Rightarrow> (u8 list \<times> linbufs) res" where
  "print_out_char prefix ch b =
     bindE (aset (lb_oline b) (lb_olen b) (ch AND 0x7f)) (\<lambda>oline.
     let olen = lb_olen b + 1; c = ch AND 0x7f in
     bindE (assertE (ch \<noteq> 0)) (\<lambda>_.
     if c = 10 \<or> c = 13 \<or> olen \<ge> 512 - 1
     then bindE (if olen \<ge> 512 - 1 then aset oline olen 0 else aset oline (olen - 1) 0) (\<lambda>oline.
            Inr (if olen > 1 then prefix @ takeWhile (\<lambda>c. c \<noteq> 0) oline @ [10] else [],
                 b\<lparr>lb_oline := oline, lb_olen := 0\<rparr>))
     else Inr ([], b\<lparr>lb_oline := oline, lb_olen := olen\<rparr>)))"

fun print_out_loop :: "nat \<Rightarrow> nat \<Rightarrow> u8 list \<Rightarrow> linbufs \<Rightarrow> (u8 list \<times> linbufs) res" where
  "print_out_loop i 0 prefix b = Inr ([], b)"
| "print_out_loop i (Suc n) prefix b =
     bindE (aget (lb_buf b) i) (\<lambda>ch.
     bindE (print_out_char prefix ch b) (\<lambda>(text, b).
     bindE (print_out_loop (i + 1) n prefix b) (\<lambda>(rest, b). Inr (text @ rest, b))))"

definition print_out :: "nat \<Rightarrow> u8 list \<Rightarrow> linbufs \<Rightarrow> (u8 list \<times> linbufs) res" where
  "print_out ln prefix b = print_out_loop 0 ln prefix b"

definition flush_out :: "u8 list \<Rightarrow> linbufs \<Rightarrow> (u8 list \<times> linbufs) res" where
  "flush_out prefix b =
     (if lb_olen b > 0
      then bindE (aset (lb_oline b) (lb_olen b) 0) (\<lambda>oline.
             Inr (prefix @ takeWhile (\<lambda>c. c \<noteq> 0) oline @ [10], b\<lparr>lb_oline := oline, lb_olen := 0\<rparr>))
      else Inr ([], b))"

definition show_text :: "'s netos \<Rightarrow> (u8 list \<times> linbufs) res \<Rightarrow> ('s, linbufs) prog" where
  "show_text os r = thenS (liftS r) (\<lambda>(text, b). thenS (no_print os text) (\<lambda>_. retS b))"

subsection \<open>From the board to the connections\<close>

text \<open>The bytes with bit 7 set are for the command connection, the others for the console.\<close>

definition cmd_bytes :: "u8 list \<Rightarrow> u8 list" where
  "cmd_bytes bs = map (\<lambda>c. c AND 0x7f) (filter (\<lambda>c. c AND 0x80 \<noteq> 0) bs)"

definition con_bytes :: "u8 list \<Rightarrow> u8 list" where
  "con_bytes bs = filter (\<lambda>c. \<not> c AND 0x80 \<noteq> 0) bs"

definition forward :: "nat \<Rightarrow> 's netos \<Rightarrow> nat \<Rightarrow> linbufs \<Rightarrow> ('s, linbufs) prog" where
  "forward fuel os n b =
     (if lb_fd b \<ge> 0 \<and> n > 0
      then thenS (lb_write fuel os (lb_fd b) n 0 b) (\<lambda>(nw, b). if nw \<noteq> int n then lb_close os b else retS b)
      else retS b)"

definition echo :: "'s netos \<Rightarrow> nat \<Rightarrow> u8 list \<Rightarrow> u8 list \<Rightarrow> linbufs \<Rightarrow> ('s, linbufs) prog" where
  "echo os n open closed b =
     (if n > 0 then show_text os (print_in n (if lb_fd b \<ge> 0 then open else closed) b) else retS b)"

definition deliver :: "nat \<Rightarrow> 's netos \<Rightarrow> u8 list \<Rightarrow> linbufs \<times> linbufs \<Rightarrow> ('s, linbufs \<times> linbufs) prog" where
  "deliver fuel os rawbuf lbs =
     (let ncmd = length (cmd_bytes rawbuf); ncon = length (con_bytes rawbuf) in
      thenS (liftS (put_bytes 0 (cmd_bytes rawbuf) (lb_buf (fst lbs)))) (\<lambda>cmdbuf.
      thenS (liftS (put_bytes 0 (con_bytes rawbuf) (lb_buf (snd lbs)))) (\<lambda>conbuf.
      thenS (forward fuel os ncmd ((fst lbs)\<lparr>lb_buf := cmdbuf\<rparr>)) (\<lambda>lbcmd.
      thenS (forward fuel os ncon ((snd lbs)\<lparr>lb_buf := conbuf\<rparr>)) (\<lambda>lbcon.
      thenS (echo os ncmd [62, 32] [35, 32] lbcmd) (\<lambda>lbcmd.
      thenS (echo os ncon [41, 32] [46, 32] lbcon) (\<lambda>lbcon.
      retS (lbcmd, lbcon))))))))"

text \<open>The loop ends with an empty read, or after eighteen rounds, when \<open>iterations++ > 16\<close>.\<close>

fun drain_loop :: "nat \<Rightarrow> nat \<Rightarrow> 's gpio \<Rightarrow> 's netos \<Rightarrow> u8 list \<Rightarrow> linbufs \<times> linbufs \<Rightarrow> muxd \<Rightarrow> ('s, (linbufs \<times> linbufs) \<times> muxd) prog" where
  "drain_loop 0 fuel gp os rawbuf lbs m = retS (lbs, m)"
| "drain_loop (Suc k) fuel gp os rawbuf lbs m =
     (if rawbuf = [] then retS (lbs, m)
      else thenS (deliver fuel os rawbuf lbs) (\<lambda>lbs.
           if k = 0 then retS (lbs, m)
           else thenS (muxd_read fuel gp 256 m) (\<lambda>(rawbuf, m). drain_loop k fuel gp os rawbuf lbs m)))"

subsection \<open>From a connection to the board\<close>

text \<open>The blocks for the two connections differ in the mask and the prefixes. The descriptor \<open>fd\<close> is the
  one that was polled: the listening socket \<open>skt\<close> as long as there is no connection.\<close>

definition serve :: "nat \<Rightarrow> 's gpio \<Rightarrow> (nat \<Rightarrow> u8) \<Rightarrow> 's netos \<Rightarrow> int \<Rightarrow> int \<Rightarrow> u8 \<Rightarrow> u8 list \<Rightarrow> u8 list \<Rightarrow> linbufs \<Rightarrow> muxd \<Rightarrow> ('s, bool \<times> linbufs \<times> muxd) prog" where
  "serve fuel gp g os skt fd mk flush_prefix out_prefix b m =
     (if fd = skt
      then thenS (lb_accept os skt b) (\<lambda>b. retS (False, b, m))
      else thenS (lb_read os b) (\<lambda>(nr, b).
           if nr = 0
           then thenS (show_text os (flush_out flush_prefix b)) (\<lambda>b.
                thenS (lb_close os b) (\<lambda>b.
                thenS (pp_dump gp) (\<lambda>_. retS (False, b, m))))
           else if nr > 0
           then thenS (lb_pp_write fuel gp g (nat nr) mk b m) (\<lambda>(b, m).
                thenS (show_text os (print_out (nat nr) out_prefix b)) (\<lambda>b. retS (True, b, m)))
           else retS (False, b, m)))"

subsection \<open>One round of \<open>main\<close>\<close>

record netpport =
  np_pport :: muxd
  np_cmd :: linbufs
  np_con :: linbufs
  np_last_busy :: bool

definition poll_fd :: "int \<Rightarrow> linbufs \<Rightarrow> int" where
  "poll_fd skt b = (if lb_connected b then lb_fd b else skt)"

definition netpport_round :: "nat \<Rightarrow> 's gpio \<Rightarrow> (nat \<Rightarrow> u8) \<Rightarrow> 's netos \<Rightarrow> int \<Rightarrow> int \<Rightarrow> netpport \<Rightarrow> ('s, netpport) prog" where
  "netpport_round fuel gp g os skt console s =
     thenS (pp_idle gp) (\<lambda>idle.
     let fd0 = poll_fd skt (np_cmd s); fd1 = poll_fd console (np_con s);
         wait_time = (if \<not> idle then 0 else if np_last_busy s then 1 else 20) in
     thenS (no_poll os fd0 fd1 wait_time) (\<lambda>(pv, in0, in1).
     if pv < 0 then throwS (ExitWith (-1))
     else
     thenS (muxd_read fuel gp 256 (np_pport s)) (\<lambda>(rawbuf, m).
     let busy = (length rawbuf = 256) in
     thenS (drain_loop 18 fuel gp os rawbuf (np_cmd s, np_con s) m) (\<lambda>((lbcmd, lbcon), m).
     thenS (if in0 then serve fuel gp g os skt fd0 0x80 [60, 32] [60, 32] lbcmd m else retS (False, lbcmd, m)) (\<lambda>(b0, lbcmd, m).
     thenS (if in1 then serve fuel gp g os console fd1 0 [] [40, 32] lbcon m else retS (False, lbcon, m)) (\<lambda>(b1, lbcon, m).
     retS \<lparr>np_pport = m, np_cmd = lbcmd, np_con = lbcon, np_last_busy = busy \<or> b0 \<or> b1\<rparr>))))))"

end
