(* ===== verification/NetPPortProps.thy ===== *)
theory NetPPortProps
  imports NetPPort
begin

text \<open>
  What \<open>netpport.cpp\<close> promises. On the pins: each byte that is sent reaches the board, and the byte
  that the board has for us in the same cycle is returned. Above them: the buffer of \<open>MUXDCOMMS\<close> is a
  queue as long as it is empty when something is sent, and loses bytes when it is not. The line buffers
  stay in their bounds.
\<close>

subsection \<open>The board at the other end of the pins\<close>

text \<open>The level of clock and direction, what we drive the other pins with, the bytes that the board has
  taken and those it will give, and the one it shows.\<close>

record boardview =
  bv_clk :: bool
  bv_dir :: bool
  bv_drive :: "nat \<Rightarrow> bool"
  bv_pins :: "nat \<Rightarrow> bool"
  bv_rx :: "u8 list"
  bv_tx :: "u8 list"
  bv_in :: u8

definition pins_byte :: "(nat \<Rightarrow> bool) \<Rightarrow> u8" where
  "pins_byte pins = horner_sum of_bool 2 (map pins RASPI_D)"

definition next_byte :: "u8 list \<Rightarrow> u8" where
  "next_byte tx = (case tx of [] \<Rightarrow> 0xff | b # _ \<Rightarrow> b)"

text \<open>At a rising clock the board takes a byte, or shows its next one, 0xff when there is none.\<close>

definition clock_edge :: "bool \<Rightarrow> boardview \<Rightarrow> boardview" where
  "clock_edge c v =
     (if \<not> c \<or> bv_clk v then v\<lparr>bv_clk := c\<rparr>
      else if bv_dir v
      then v\<lparr>bv_clk := True, bv_rx := bv_rx v @ [pins_byte (\<lambda>p. bv_drive v p \<and> bv_pins v p)]\<rparr>
      else v\<lparr>bv_clk := True, bv_in := next_byte (bv_tx v), bv_tx := tl (bv_tx v)\<rparr>)"

text \<open>The echo of the clock comes after at most \<open>d\<close> looks at it; \<open>lag\<close> counts what is left of them.\<close>

definition port_board :: "nat \<Rightarrow> ('s \<Rightarrow> boardview) \<Rightarrow> ('s \<Rightarrow> nat) \<Rightarrow> 's gpio \<Rightarrow> bool" where
  "port_board d view lag gp \<longleftrightarrow>
     (\<forall>s p m. wp (gp_pinMode gp p m)
        (\<lambda>_ t. view t = (view s)\<lparr>bv_drive := (bv_drive (view s))(p := m \<noteq> 0)\<rparr> \<and> lag t = lag s) (\<lambda>_ _. False) s) \<and>
     (\<forall>s v. wp (gp_digitalWrite gp RASPI_DIR v)
        (\<lambda>_ t. view t = (view s)\<lparr>bv_dir := v \<noteq> 0\<rparr> \<and> lag t = lag s) (\<lambda>_ _. False) s) \<and>
     (\<forall>s v. wp (gp_digitalWrite gp RASPI_CLK v)
        (\<lambda>_ t. view t = clock_edge (v \<noteq> 0) (view s) \<and> lag t \<le> d) (\<lambda>_ _. False) s) \<and>
     (\<forall>s v. \<forall>p\<in>set RASPI_D. wp (gp_digitalWrite gp p v)
        (\<lambda>_ t. view t = (view s)\<lparr>bv_pins := (bv_pins (view s))(p := v \<noteq> 0)\<rparr> \<and> lag t = lag s) (\<lambda>_ _. False) s) \<and>
     (\<forall>s. wp (gp_digitalRead gp RASPI_DIR)
        (\<lambda>x t. x = of_bool (bv_dir (view s)) \<and> view t = view s \<and> lag t = lag s) (\<lambda>_ _. False) s) \<and>
     (\<forall>s. wp (gp_digitalRead gp RASPI_CLK)
        (\<lambda>x t. x = of_bool (bv_clk (view s)) \<and> view t = view s \<and> lag t = lag s) (\<lambda>_ _. False) s) \<and>
     (\<forall>s. wp (gp_digitalRead gp RASPI_CLKFB)
        (\<lambda>x t. (lag s = 0 \<longrightarrow> x = of_bool (bv_clk (view s))) \<and> view t = view s \<and> lag t = lag s - 1) (\<lambda>_ _. False) s) \<and>
     (\<forall>s. \<forall>k<8. \<not> bv_drive (view s) (RASPI_D ! k) \<longrightarrow> wp (gp_digitalRead gp (RASPI_D ! k))
        (\<lambda>x t. x = of_bool (bit (bv_in (view s)) k) \<and> view t = view s \<and> lag t = lag s) (\<lambda>_ _. False) s)"

lemma pin_mode:
  assumes "port_board d view lag gp"
    and "\<And>t. view t = (view s)\<lparr>bv_drive := (bv_drive (view s))(p := m \<noteq> 0)\<rparr> \<Longrightarrow> lag t = lag s \<Longrightarrow> wp f Q (\<lambda>_ _. False) t"
  shows "wp (thenS (gp_pinMode gp p m) (\<lambda>_. f)) Q (\<lambda>_ _. False) s"
  by (rule wp_seq [of _ "\<lambda>_ t. view t = (view s)\<lparr>bv_drive := (bv_drive (view s))(p := m \<noteq> 0)\<rparr> \<and> lag t = lag s"])
    (use assms in \<open>simp_all add: port_board_def\<close>)

lemma write_dir:
  assumes "port_board d view lag gp"
    and "\<And>t. view t = (view s)\<lparr>bv_dir := v \<noteq> 0\<rparr> \<Longrightarrow> lag t = lag s \<Longrightarrow> wp f Q (\<lambda>_ _. False) t"
  shows "wp (thenS (gp_digitalWrite gp RASPI_DIR v) (\<lambda>_. f)) Q (\<lambda>_ _. False) s"
  by (rule wp_seq [of _ "\<lambda>_ t. view t = (view s)\<lparr>bv_dir := v \<noteq> 0\<rparr> \<and> lag t = lag s"])
    (use assms in \<open>simp_all add: port_board_def\<close>)

lemma write_clk:
  assumes "port_board d view lag gp"
    and "\<And>t. view t = clock_edge (v \<noteq> 0) (view s) \<Longrightarrow> lag t \<le> d \<Longrightarrow> wp f Q (\<lambda>_ _. False) t"
  shows "wp (thenS (gp_digitalWrite gp RASPI_CLK v) (\<lambda>_. f)) Q (\<lambda>_ _. False) s"
  by (rule wp_seq [of _ "\<lambda>_ t. view t = clock_edge (v \<noteq> 0) (view s) \<and> lag t \<le> d"])
    (use assms in \<open>simp_all add: port_board_def\<close>)

lemma write_pin:
  assumes "port_board d view lag gp" "p \<in> set RASPI_D"
    and "\<And>t. view t = (view s)\<lparr>bv_pins := (bv_pins (view s))(p := v \<noteq> 0)\<rparr> \<Longrightarrow> lag t = lag s \<Longrightarrow> wp f Q (\<lambda>_ _. False) t"
  shows "wp (thenS (gp_digitalWrite gp p v) (\<lambda>_. f)) Q (\<lambda>_ _. False) s"
  by (rule wp_seq [of _ "\<lambda>_ t. view t = (view s)\<lparr>bv_pins := (bv_pins (view s))(p := v \<noteq> 0)\<rparr> \<and> lag t = lag s"])
    (use assms in \<open>simp_all add: port_board_def\<close>)

lemma read_pin:
  assumes "port_board d view lag gp" "k < 8" "\<not> bv_drive (view s) (RASPI_D ! k)"
    and "\<And>t. view t = view s \<Longrightarrow> lag t = lag s \<Longrightarrow> wp (f (of_bool (bit (bv_in (view s)) k))) Q (\<lambda>_ _. False) t"
  shows "wp (thenS (gp_digitalRead gp (RASPI_D ! k)) f) Q (\<lambda>_ _. False) s"
  by (rule wp_seq [of _ "\<lambda>x t. x = of_bool (bit (bv_in (view s)) k) \<and> view t = view s \<and> lag t = lag s"])
    (use assms in \<open>simp_all add: port_board_def\<close>)

lemma wait_echo:
  assumes b: "port_board d view lag gp"
  shows "lag s < fuel \<Longrightarrow> \<not> busy (of_bool (bv_clk (view s))) \<Longrightarrow>
    wp (wait_while fuel gp RASPI_CLKFB busy) (\<lambda>_ t. view t = view s) (\<lambda>_ _. False) s"
proof (induction fuel arbitrary: s)
  case (Suc n)
  have r: "wp (gp_digitalRead gp RASPI_CLKFB)
      (\<lambda>x t. (lag s = 0 \<longrightarrow> x = of_bool (bv_clk (view s))) \<and> view t = view s \<and> lag t = lag s - 1) (\<lambda>_ _. False) s"
    using b by (simp add: port_board_def)
  show ?case
    unfolding wait_while.simps
  proof (rule wp_seq [OF r])
    fix x :: int and t assume x: "(lag s = 0 \<longrightarrow> x = of_bool (bv_clk (view s))) \<and> view t = view s \<and> lag t = lag s - 1"
    show "wp (if busy x then wait_while n gp RASPI_CLKFB busy else retS ()) (\<lambda>_ t. view t = view s) (\<lambda>_ _. False) t"
    proof (cases "busy x")
      case True
      with x Suc.prems have "lag t < n" by auto
      with Suc.IH [of t] Suc.prems x True show ?thesis by simp
    qed (use x in \<open>simp add: wp_simps\<close>)
  qed
qed simp

lemma wait_level:
  assumes "port_board d view lag gp" "0 < fuel"
  shows "\<not> busy (of_bool (bv_clk (view s))) \<Longrightarrow>
      wp (wait_while fuel gp RASPI_CLK busy) (\<lambda>_ t. view t = view s \<and> lag t = lag s) (\<lambda>_ _. False) s"
    and "\<not> busy (of_bool (bv_dir (view s))) \<Longrightarrow>
      wp (wait_while fuel gp RASPI_DIR busy) (\<lambda>_ t. view t = view s \<and> lag t = lag s) (\<lambda>_ _. False) s"
proof -
  obtain n where n: "fuel = Suc n" using assms(2) by (cases fuel) simp_all
  have "wp (gp_digitalRead gp RASPI_CLK)
      (\<lambda>x t. x = of_bool (bv_clk (view s)) \<and> view t = view s \<and> lag t = lag s) (\<lambda>_ _. False) s"
    "wp (gp_digitalRead gp RASPI_DIR)
      (\<lambda>x t. x = of_bool (bv_dir (view s)) \<and> view t = view s \<and> lag t = lag s) (\<lambda>_ _. False) s"
    using assms by (simp_all add: port_board_def)
  then show "\<not> busy (of_bool (bv_clk (view s))) \<Longrightarrow>
      wp (wait_while fuel gp RASPI_CLK busy) (\<lambda>_ t. view t = view s \<and> lag t = lag s) (\<lambda>_ _. False) s"
    and "\<not> busy (of_bool (bv_dir (view s))) \<Longrightarrow>
      wp (wait_while fuel gp RASPI_DIR busy) (\<lambda>_ t. view t = view s \<and> lag t = lag s) (\<lambda>_ _. False) s"
    unfolding n wait_while.simps by (auto simp: wp_simps elim!: wp_mono)
qed

subsection \<open>Eight pins at once\<close>

lemma RASPI_D_pins: "length RASPI_D = 8" "distinct RASPI_D" "k < 8 \<Longrightarrow> RASPI_D ! k \<in> set RASPI_D"
proof -
  show l: "length RASPI_D = 8" and "distinct RASPI_D" by (simp_all add: RASPI_D_def)
  show "k < 8 \<Longrightarrow> RASPI_D ! k \<in> set RASPI_D" using nth_mem [of k RASPI_D] by (simp add: l)
qed

lemma RASPI_D_inj: "j < 8 \<Longrightarrow> k < 8 \<Longrightarrow> RASPI_D ! j = RASPI_D ! k \<longleftrightarrow> j = k"
  using RASPI_D_pins by (simp add: nth_eq_iff_index_eq)

lemma pins_byte_eq: "(\<And>k. k < 8 \<Longrightarrow> pins (RASPI_D ! k) = bit b k) \<Longrightarrow> pins_byte pins = b"
  by (rule bit_word_eqI) (simp add: pins_byte_def bit_horner_sum_bit_word_iff RASPI_D_pins)

text \<open>The view but for what drives the data pins and what they carry.\<close>

definition same_but_data :: "boardview \<Rightarrow> boardview \<Rightarrow> bool" where
  "same_but_data v w \<longleftrightarrow> w = v\<lparr>bv_drive := bv_drive w, bv_pins := bv_pins w\<rparr>"

lemma same_but_data_refl [simp]: "same_but_data v v"
  by (simp add: same_but_data_def)

lemma same_but_data_trans: "same_but_data u v \<Longrightarrow> same_but_data v w \<Longrightarrow> same_but_data u w"
  by (cases u; cases v; cases w) (simp add: same_but_data_def)

lemma same_but_data_fields:
  "same_but_data v w \<Longrightarrow> bv_clk w = bv_clk v \<and> bv_dir w = bv_dir v \<and> bv_rx w = bv_rx v
     \<and> bv_tx w = bv_tx v \<and> bv_in w = bv_in v"
  by (cases v; cases w) (simp add: same_but_data_def)

lemma same_but_data_upd [simp]:
  "same_but_data v (v\<lparr>bv_drive := f\<rparr>)" "same_but_data v (v\<lparr>bv_pins := g\<rparr>)"
  by (cases v; simp add: same_but_data_def)+

lemma data_modes_wp:
  assumes b: "port_board d view lag gp"
  shows "k \<le> 8 \<Longrightarrow> (\<And>t. same_but_data (view s) (view t) \<Longrightarrow> bv_pins (view t) = bv_pins (view s) \<Longrightarrow> lag t = lag s \<Longrightarrow>
      \<forall>j<8. bv_drive (view t) (RASPI_D ! j) = (if j < k then m \<noteq> 0 else bv_drive (view s) (RASPI_D ! j)) \<Longrightarrow>
      wp f Q (\<lambda>_ _. False) t) \<Longrightarrow>
    wp (thenS (data_modes gp m k) (\<lambda>_. f)) Q (\<lambda>_ _. False) s"
proof (induction k arbitrary: s)
  case 0
  then show ?case by (simp add: wp_simps)
next
  case (Suc k)
  show ?case
    unfolding data_modes.simps thenS_assoc
  proof (rule pin_mode [OF b])
    fix t assume t: "view t = (view s)\<lparr>bv_drive := (bv_drive (view s))(RASPI_D ! k := m \<noteq> 0)\<rparr>" "lag t = lag s"
    then have same: "same_but_data (view s) (view t)" by simp
    have drive: "bv_drive (view t) (RASPI_D ! j) = (if j = k then m \<noteq> 0 else bv_drive (view s) (RASPI_D ! j))"
      if "j < 8" for j
      using that Suc.prems(1) t by (simp add: RASPI_D_inj)
    show "wp (thenS (data_modes gp m k) (\<lambda>_. f)) Q (\<lambda>_ _. False) t"
    proof (rule Suc.IH)
      fix u assume u: "same_but_data (view t) (view u)" "bv_pins (view u) = bv_pins (view t)" "lag u = lag t"
        "\<forall>j<8. bv_drive (view u) (RASPI_D ! j) = (if j < k then m \<noteq> 0 else bv_drive (view t) (RASPI_D ! j))"
      then have "\<forall>j<8. bv_drive (view u) (RASPI_D ! j) = (if j < Suc k then m \<noteq> 0 else bv_drive (view s) (RASPI_D ! j))"
        using drive by (auto simp: less_Suc_eq)
      then show "wp f Q (\<lambda>_ _. False) u"
        using u t by (intro Suc.prems(2)) (auto intro: same_but_data_trans [OF same])
    qed (use Suc.prems in simp)
  qed
qed

lemma data_write_wp:
  assumes b: "port_board d view lag gp"
  shows "k \<le> 8 \<Longrightarrow> (\<And>t. same_but_data (view s) (view t) \<Longrightarrow> bv_drive (view t) = bv_drive (view s) \<Longrightarrow> lag t = lag s \<Longrightarrow>
      \<forall>j<8. bv_pins (view t) (RASPI_D ! j) = (if j < k then bit c j else bv_pins (view s) (RASPI_D ! j)) \<Longrightarrow>
      wp f Q (\<lambda>_ _. False) t) \<Longrightarrow>
    wp (thenS (data_write gp c k) (\<lambda>_. f)) Q (\<lambda>_ _. False) s"
proof (induction k arbitrary: s)
  case 0
  then show ?case by (simp add: wp_simps)
next
  case (Suc k)
  have bit: "c AND 2 ^ k \<noteq> 0 \<longleftrightarrow> bit c k" by (simp add: bit_iff_and_push_bit_not_eq_0 push_bit_eq_mult)
  show ?case
    unfolding data_write.simps thenS_assoc
  proof (rule write_pin [OF b])
    fix t assume t: "view t = (view s)\<lparr>bv_pins := (bv_pins (view s))
        (RASPI_D ! k := (if c AND 2 ^ k \<noteq> 0 then 1 else 0 :: int) \<noteq> 0)\<rparr>" "lag t = lag s"
    then have same: "same_but_data (view s) (view t)" by simp
    have pins: "bv_pins (view t) (RASPI_D ! j) = (if j = k then bit c k else bv_pins (view s) (RASPI_D ! j))"
      if "j < 8" for j
      using that Suc.prems(1) t by (simp add: RASPI_D_inj bit)
    show "wp (thenS (data_write gp c k) (\<lambda>_. f)) Q (\<lambda>_ _. False) t"
    proof (rule Suc.IH)
      fix u assume u: "same_but_data (view t) (view u)" "bv_drive (view u) = bv_drive (view t)" "lag u = lag t"
        "\<forall>j<8. bv_pins (view u) (RASPI_D ! j) = (if j < k then bit c j else bv_pins (view t) (RASPI_D ! j))"
      then have "\<forall>j<8. bv_pins (view u) (RASPI_D ! j) = (if j < Suc k then bit c j else bv_pins (view s) (RASPI_D ! j))"
        using pins by (auto simp: less_Suc_eq)
      then show "wp f Q (\<lambda>_ _. False) u"
        using u t by (intro Suc.prems(2)) (auto intro: same_but_data_trans [OF same])
    qed (use Suc.prems in simp)
  qed (use Suc.prems in \<open>simp add: RASPI_D_pins\<close>)
qed

lemma data_read_wp:
  assumes b: "port_board d view lag gp"
  shows "k \<le> 8 \<Longrightarrow> \<forall>j<8. \<not> bv_drive (view s) (RASPI_D ! j) \<Longrightarrow>
    (\<And>t. view t = view s \<Longrightarrow> lag t = lag s \<Longrightarrow> wp (f (c OR take_bit k (bv_in (view s)))) Q (\<lambda>_ _. False) t) \<Longrightarrow>
    wp (thenS (data_read gp c k) f) Q (\<lambda>_ _. False) s"
proof (induction k arbitrary: s c)
  case 0
  then show ?case by (simp add: wp_simps)
next
  case (Suc k)
  show ?case
    unfolding data_read.simps thenS_assoc
  proof (rule read_pin [OF b])
    fix t assume t: "view t = view s" "lag t = lag s"
    let ?c = "if of_bool (bit (bv_in (view s)) k) \<noteq> (0::int) then c OR 2 ^ k else c"
    have acc: "?c OR take_bit k (bv_in (view s)) = c OR take_bit (Suc k) (bv_in (view s))"
      by (rule bit_word_eqI) (auto simp: bit_simps less_Suc_eq)
    show "wp (thenS (data_read gp ?c k) f) Q (\<lambda>_ _. False) t"
    proof (rule Suc.IH)
      fix u assume u: "view u = view t" "lag u = lag t"
      show "wp (f (?c OR take_bit k (bv_in (view t)))) Q (\<lambda>_ _. False) u"
        unfolding t(1) acc using u t by (intro Suc.prems(3)) simp_all
    qed (use Suc.prems t in simp_all)
  qed (use Suc.prems in simp_all)
qed

subsection \<open>A byte each way\<close>

text \<open>What of the view lasts from one byte to the next.\<close>

definition idle_pins :: "boardview \<Rightarrow> bool" where
  "idle_pins v \<longleftrightarrow> \<not> bv_dir v \<and> (\<forall>j<8. \<not> bv_drive v (RASPI_D ! j))"

lemma wait_echo_then:
  assumes "port_board d view lag gp" "lag s < fuel" "\<not> busy (of_bool (bv_clk (view s)))"
    and "\<And>t. view t = view s \<Longrightarrow> wp f Q (\<lambda>_ _. False) t"
  shows "wp (thenS (wait_while fuel gp RASPI_CLKFB busy) (\<lambda>_. f)) Q (\<lambda>_ _. False) s"
  using wait_echo [where busy = busy, OF assms(1-3)] by (rule wp_seq) (rule assms(4))

lemma wait_clk_then:
  assumes "port_board d view lag gp" "0 < fuel" "\<not> busy (of_bool (bv_clk (view s)))"
    and "\<And>t. view t = view s \<Longrightarrow> lag t = lag s \<Longrightarrow> wp f Q (\<lambda>_ _. False) t"
  shows "wp (thenS (wait_while fuel gp RASPI_CLK busy) (\<lambda>_. f)) Q (\<lambda>_ _. False) s"
  using wait_level(1) [where busy = busy, OF assms(1-3)] by (rule wp_seq) (simp add: assms(4))

lemma wait_dir_then:
  assumes "port_board d view lag gp" "0 < fuel" "\<not> busy (of_bool (bv_dir (view s)))"
    and "\<And>t. view t = view s \<Longrightarrow> lag t = lag s \<Longrightarrow> wp f Q (\<lambda>_ _. False) t"
  shows "wp (thenS (wait_while fuel gp RASPI_DIR busy) (\<lambda>_. f)) Q (\<lambda>_ _. False) s"
  using wait_level(2) [where busy = busy, OF assms(1-3)] by (rule wp_seq) (simp add: assms(4))

lemma take_bit_8_u8 [simp]: "take_bit 8 (b :: u8) = b"
  by (rule bit_word_eqI) (simp add: bit_simps)

text \<open>The first half of a transfer, up to the rising clock with which the board takes the byte.\<close>

lemma send_half:
  assumes b: "port_board d view lag gp" and fuel: "d < fuel"
    and Q: "\<And>t. bv_clk (view t) \<Longrightarrow> bv_rx (view t) = bv_rx (view s) @ [c] \<Longrightarrow>
      bv_tx (view t) = bv_tx (view s) \<Longrightarrow> lag t \<le> d \<Longrightarrow> wp f Q (\<lambda>_ _. False) t"
  shows "wp (thenS (gp_digitalWrite gp RASPI_DIR OUTPUT) (\<lambda>_.
     thenS (gp_digitalWrite gp RASPI_CLK 0) (\<lambda>_.
     thenS (wait_while fuel gp RASPI_CLKFB (\<lambda>v. v \<noteq> 0)) (\<lambda>_.
     thenS (data_modes gp OUTPUT 8) (\<lambda>_.
     thenS (data_write gp c 8) (\<lambda>_.
     thenS (gp_digitalWrite gp RASPI_CLK 1) (\<lambda>_. f))))))) Q (\<lambda>_ _. False) s"
proof (rule write_dir [OF b], rule write_clk [OF b], goal_cases)
  case (1 t1 t2)
  then have t2: "\<not> bv_clk (view t2)" "bv_dir (view t2)" "bv_rx (view t2) = bv_rx (view s)"
    "bv_tx (view t2) = bv_tx (view s)" "lag t2 < fuel"
    using fuel by (simp_all add: clock_edge_def)
  show ?case
  proof (rule wait_echo_then [OF b], goal_cases)
    case (3 t3)
    show ?case
    proof (rule data_modes_wp [OF b], goal_cases)
      case t4: (2 t4)
      show ?case
      proof (rule data_write_wp [OF b], goal_cases)
        case t5: (2 t5)
        have v5: "\<not> bv_clk (view t5)" "bv_dir (view t5)" "bv_rx (view t5) = bv_rx (view s)"
          "bv_tx (view t5) = bv_tx (view s)"
          using t2 3 same_but_data_fields [OF t5(1)] same_but_data_fields [OF t4(1)] by simp_all
        have "bv_drive (view t5) (RASPI_D ! j) \<and> bv_pins (view t5) (RASPI_D ! j) \<longleftrightarrow> bit c j" if "j < 8" for j
          using that t4 t5 by simp
        then have byte: "pins_byte (\<lambda>p. bv_drive (view t5) p \<and> bv_pins (view t5) p) = c"
          by (rule pins_byte_eq)
        show ?case
          by (rule write_clk [OF b], rule Q) (simp_all add: clock_edge_def v5 byte)
      qed simp
    qed simp
  qed (use t2 in simp_all)
qed

text \<open>The second half, in which the board shows its byte.\<close>

lemma receive_half:
  assumes b: "port_board d view lag gp" and fuel: "d < fuel" and s: "bv_clk (view s)" "lag s \<le> d"
    and Q: "\<And>t. idle_pins (view t) \<Longrightarrow> bv_rx (view t) = bv_rx (view s) \<Longrightarrow>
      bv_tx (view t) = tl (bv_tx (view s)) \<Longrightarrow> wp (f (next_byte (bv_tx (view s)))) Q (\<lambda>_ _. False) t"
  shows "wp (thenS (wait_while fuel gp RASPI_CLK (\<lambda>v. v \<noteq> 1)) (\<lambda>_.
     thenS (wait_while fuel gp RASPI_CLKFB (\<lambda>v. v = 0)) (\<lambda>_.
     thenS (data_modes gp INPUT 8) (\<lambda>_.
     thenS (gp_digitalWrite gp RASPI_DIR INPUT) (\<lambda>_.
     thenS (gp_digitalWrite gp RASPI_CLK 0) (\<lambda>_.
     thenS (wait_while fuel gp RASPI_CLKFB (\<lambda>v. v \<noteq> 0)) (\<lambda>_.
     thenS (gp_digitalWrite gp RASPI_CLK 1) (\<lambda>_.
     thenS (wait_while fuel gp RASPI_CLKFB (\<lambda>v. v \<noteq> 1)) (\<lambda>_.
     thenS (data_read gp 0 8) f))))))))) Q (\<lambda>_ _. False) s"
proof (rule wait_clk_then [OF b], goal_cases)
  case t1: (3 t1)
  show ?case
  proof (rule wait_echo_then [OF b], goal_cases)
    case t2: (3 t2)
    show ?case
    proof (rule data_modes_wp [OF b], goal_cases)
      case t3: (2 t3)
      show ?case
      proof (rule write_dir [OF b], rule write_clk [OF b], goal_cases)
        case t5: (1 t4 t5)
        have v5: "\<not> bv_clk (view t5)" "\<not> bv_dir (view t5)" "bv_rx (view t5) = bv_rx (view s)"
          "bv_tx (view t5) = bv_tx (view s)" "\<forall>j<8. \<not> bv_drive (view t5) (RASPI_D ! j)"
          using t1 t2 t3 t5 same_but_data_fields [OF t3(1)] by (simp_all add: clock_edge_def)
        show ?case
        proof (rule wait_echo_then [OF b], goal_cases)
          case t6: (3 t6)
          show ?case
          proof (rule write_clk [OF b], goal_cases)
            case t7: (1 t7)
            have v7: "bv_clk (view t7)" "idle_pins (view t7)" "bv_rx (view t7) = bv_rx (view s)"
              "bv_tx (view t7) = tl (bv_tx (view s))" "bv_in (view t7) = next_byte (bv_tx (view s))"
              using t6 t7 v5 by (simp_all add: clock_edge_def idle_pins_def)
            show ?case
              by (rule wait_echo_then [OF b], use t7 fuel v7 in \<open>simp_all\<close>, rule data_read_wp [OF b])
                (use v7 in \<open>simp_all add: idle_pins_def, intro Q, simp_all add: idle_pins_def\<close>)
          qed
        qed (use t5 v5 fuel in simp_all)
      qed
    qed simp
  qed (use t1 s fuel in simp_all)
qed (use s fuel in simp_all)

lemma pp_xfer_byte_wp:
  assumes b: "port_board d view lag gp" and fuel: "d < fuel"
    and Q: "\<And>t. idle_pins (view t) \<Longrightarrow> bv_rx (view t) = bv_rx (view s) @ [c] \<Longrightarrow>
      bv_tx (view t) = tl (bv_tx (view s)) \<Longrightarrow> wp (f (next_byte (bv_tx (view s)))) Q (\<lambda>_ _. False) t"
  shows "wp (thenS (pp_xfer_byte fuel gp c) f) Q (\<lambda>_ _. False) s"
  unfolding pp_xfer_byte_def thenS_assoc
  by (rule send_half [OF b fuel], rule receive_half [OF b fuel]) (simp_all add: Q)

lemma pp_read_byte_wp:
  assumes b: "port_board d view lag gp" and fuel: "d < fuel"
    and s: "idle_pins (view s)" "\<not> bv_clk (view s)" "lag s \<le> d"
    and Q: "\<And>t. idle_pins (view t) \<Longrightarrow> \<not> bv_clk (view t) \<Longrightarrow> lag t \<le> d \<Longrightarrow> bv_rx (view t) = bv_rx (view s) \<Longrightarrow>
      bv_tx (view t) = tl (bv_tx (view s)) \<Longrightarrow> wp (f (next_byte (bv_tx (view s)))) Q (\<lambda>_ _. False) t"
  shows "wp (thenS (pp_read_byte fuel gp) f) Q (\<lambda>_ _. False) s"
  unfolding pp_read_byte_def thenS_assoc
proof (rule wait_echo_then [OF b], goal_cases)
  case t1: (3 t1)
  show ?case
  proof (rule write_clk [OF b], goal_cases)
    case t2: (1 t2)
    have v2: "bv_clk (view t2)" "idle_pins (view t2)" "bv_rx (view t2) = bv_rx (view s)"
      "bv_tx (view t2) = tl (bv_tx (view s))" "bv_in (view t2) = next_byte (bv_tx (view s))"
      using t1 t2 s by (simp_all add: clock_edge_def idle_pins_def)
    show ?case
    proof (rule wait_clk_then [OF b], use v2 fuel in simp_all,
        rule wait_echo_then [OF b], use t2 v2 fuel in simp_all, rule data_read_wp [OF b], goal_cases)
      case t5: (3 t3 t4 t5)
      show ?case
      proof (rule write_clk [OF b], goal_cases)
        case t6: (1 t6)
        have v6: "\<not> bv_clk (view t6)" "idle_pins (view t6)" "bv_rx (view t6) = bv_rx (view s)"
          "bv_tx (view t6) = tl (bv_tx (view s))" "lag t6 \<le> d"
          using t5 t6 v2 by (simp_all add: clock_edge_def idle_pins_def)
        show ?case
          by (rule wait_clk_then [OF b]) (use fuel v6 t5 v2 in \<open>simp_all add: Q\<close>)
      qed
    qed (use v2 in \<open>simp_all add: idle_pins_def\<close>)
  qed
qed (use s fuel in simp_all)

subsection \<open>Many bytes\<close>

definition port_idle :: "nat \<Rightarrow> ('s \<Rightarrow> boardview) \<Rightarrow> ('s \<Rightarrow> nat) \<Rightarrow> 's \<Rightarrow> bool" where
  "port_idle d view lag s \<longleftrightarrow> idle_pins (view s) \<and> \<not> bv_clk (view s) \<and> lag s \<le> d"

text \<open>The bytes that come back while \<open>n\<close> bytes are sent.\<close>

definition answered :: "nat \<Rightarrow> u8 list \<Rightarrow> u8 list" where
  "answered n tx = filter (\<lambda>b. b \<noteq> 0xff) (take n tx)"

lemma answered_simps [simp]:
  "answered 0 tx = []"
  "next_byte tx = 0xff \<Longrightarrow> answered (Suc n) tx = answered n (tl tx)"
  "next_byte tx \<noteq> 0xff \<Longrightarrow> answered (Suc n) tx = next_byte tx # answered n (tl tx)"
  by (cases tx; simp add: answered_def next_byte_def)+

lemma answered_length: "length (answered n tx) \<le> n"
  unfolding answered_def by (rule order_trans [OF length_filter_le]) simp

lemma pp_xfer_loop_wp:
  assumes b: "port_board d view lag gp" and fuel: "d < fuel"
  shows "at + nr + length ds \<le> length buf \<Longrightarrow>
    wp (pp_xfer_loop fuel gp ds at nr buf)
      (\<lambda>(n, buf') t. bv_rx (view t) = bv_rx (view s) @ ds \<and> bv_tx (view t) = drop (length ds) (bv_tx (view s)) \<and>
         (ds \<noteq> [] \<or> idle_pins (view s) \<longrightarrow> idle_pins (view t)) \<and>
         n = nr + length (answered (length ds) (bv_tx (view s))) \<and>
         buf' = take (at + nr) buf @ answered (length ds) (bv_tx (view s)) @ drop (at + n) buf)
      (\<lambda>_ _. False) s"
proof (induction ds arbitrary: nr buf s)
  case (Cons c ds)
  show ?case
    unfolding pp_xfer_loop.simps
  proof (rule pp_xfer_byte_wp [OF b fuel])
    fix t assume t: "idle_pins (view t)" "bv_rx (view t) = bv_rx (view s) @ [c]" "bv_tx (view t) = tl (bv_tx (view s))"
    let ?x = "next_byte (bv_tx (view s))"
    have drop: "drop (length ds) (tl (bv_tx (view s))) = drop (length (c # ds)) (bv_tx (view s))"
      by (simp add: drop_Suc)
    show "wp (if ?x \<noteq> 0xff then thenS (liftS (aset buf (at + nr) ?x)) (pp_xfer_loop fuel gp ds at (nr + 1))
         else pp_xfer_loop fuel gp ds at nr buf)
      (\<lambda>(n, buf') t. bv_rx (view t) = bv_rx (view s) @ c # ds \<and> bv_tx (view t) = drop (length (c # ds)) (bv_tx (view s)) \<and>
         (c # ds \<noteq> [] \<or> idle_pins (view s) \<longrightarrow> idle_pins (view t)) \<and>
         n = nr + length (answered (length (c # ds)) (bv_tx (view s))) \<and>
         buf' = take (at + nr) buf @ answered (length (c # ds)) (bv_tx (view s)) @ drop (at + n) buf)
      (\<lambda>_ _. False) t"
    proof (cases "?x = 0xff")
      case True
      with Cons.prems have "at + nr + length ds \<le> length buf" by simp
      from Cons.IH [OF this, of t] True show ?thesis
        by (simp add: t drop)
    next
      case False
      from Cons.prems have i: "at + nr < length buf" by simp
      let ?buf = "buf[at + nr := ?x]"
      have "at + (nr + 1) + length ds \<le> length ?buf" using Cons.prems by simp
      from Cons.IH [OF this, of t] False i show ?thesis
        by (simp add: t drop wp_simps) (erule wp_mono, auto simp: take_Suc_conv_app_nth)
    qed
  qed
qed (simp add: wp_simps)

lemma pp_xfer_wp:
  assumes b: "port_board d view lag gp" and fuel: "d < fuel"
    and s: "port_idle d view lag s" and "at + length ds \<le> length buf"
  shows "wp (pp_xfer fuel gp ds at buf)
      (\<lambda>(n, buf') t. port_idle d view lag t \<and>
         bv_rx (view t) = bv_rx (view s) @ ds \<and> bv_tx (view t) = drop (length ds) (bv_tx (view s)) \<and>
         n = length (answered (length ds) (bv_tx (view s))) \<and>
         buf' = take at buf @ answered (length ds) (bv_tx (view s)) @ drop (at + n) buf)
      (\<lambda>_ _. False) s"
  unfolding pp_xfer_def
proof (rule wp_seq [OF pp_xfer_loop_wp [OF b fuel]], goal_cases)
  case r: (2 r t)
  show ?case
    by (rule write_dir [OF b], rule write_clk [OF b])
      (use r s in \<open>auto simp: wp_simps port_idle_def idle_pins_def clock_edge_def split: prod.splits\<close>)
qed (use assms in simp)

lemma pp_read_loop_wp:
  assumes b: "port_board d view lag gp" and fuel: "d < fuel"
  shows "port_idle d view lag s \<Longrightarrow>
    wp (pp_read_loop fuel gp n)
      (\<lambda>bs t. port_idle d view lag t \<and> bv_rx (view t) = bv_rx (view s) \<and>
         bs = takeWhile (\<lambda>c. c \<noteq> 0xff) (take n (bv_tx (view s))) \<and>
         bv_tx (view t) = drop (if length bs < n then length bs + 1 else n) (bv_tx (view s)))
      (\<lambda>_ _. False) s"
proof (induction n arbitrary: s)
  case (Suc n)
  show ?case
    unfolding pp_read_loop.simps
  proof (rule pp_read_byte_wp [OF b fuel])
    fix t assume t: "idle_pins (view t)" "\<not> bv_clk (view t)" "lag t \<le> d" "bv_rx (view t) = bv_rx (view s)"
      "bv_tx (view t) = tl (bv_tx (view s))"
    let ?x = "next_byte (bv_tx (view s))"
    let ?Q = "\<lambda>bs t. port_idle d view lag t \<and> bv_rx (view t) = bv_rx (view s) \<and>
         bs = takeWhile (\<lambda>c. c \<noteq> 0xff) (take (Suc n) (bv_tx (view s))) \<and>
         bv_tx (view t) = drop (if length bs < Suc n then length bs + 1 else Suc n) (bv_tx (view s))"
    show "wp (if ?x = 0xff then retS [] else thenS (pp_read_loop fuel gp n) (\<lambda>bs. retS (?x # bs))) ?Q (\<lambda>_ _. False) t"
    proof (cases "?x = 0xff")
      case True
      then have "takeWhile (\<lambda>c. c \<noteq> 0xff) (take (Suc n) (bv_tx (view s))) = []"
        by (cases "bv_tx (view s)") (simp_all add: next_byte_def)
      with True t show ?thesis by (simp add: wp_simps port_idle_def drop_Suc)
    next
      case False
      then obtain x tx where tx: "bv_tx (view s) = x # tx" "x \<noteq> 0xff" "?x = x"
        by (cases "bv_tx (view s)") (simp_all add: next_byte_def)
      have "port_idle d view lag t" using t by (simp add: port_idle_def)
      from Suc.IH [OF this] tx t show ?thesis
        by (simp add: wp_simps) (erule wp_mono, auto simp: wp_simps)
    qed
  qed (use Suc.prems in \<open>simp_all add: port_idle_def\<close>)
qed (simp add: wp_simps)

lemma pp_read_wp:
  assumes b: "port_board d view lag gp" and fuel: "d < fuel" and s: "port_idle d view lag s"
  shows "wp (pp_read fuel gp n)
      (\<lambda>bs t. port_idle d view lag t \<and> bv_rx (view t) = bv_rx (view s) \<and>
         bs = takeWhile (\<lambda>c. c \<noteq> 0xff) (take n (bv_tx (view s))) \<and>
         bv_tx (view t) = drop (if length bs < n then length bs + 1 else n) (bv_tx (view s)))
      (\<lambda>_ _. False) s"
  unfolding pp_read_def
proof (rule write_clk [OF b], rule data_modes_wp [OF b], simp, rule write_dir [OF b], goal_cases)
  case t3: (1 t1 t2 t3)
  have v3: "port_idle d view lag t3" "bv_rx (view t3) = bv_rx (view s)" "bv_tx (view t3) = bv_tx (view s)"
    using s t3 same_but_data_fields [OF t3(3)] by (auto simp: port_idle_def idle_pins_def clock_edge_def)
  show ?case
  proof (rule wait_dir_then [OF b], goal_cases)
    case t4: (3 t4)
    then have "port_idle d view lag t4" using v3 by (simp add: port_idle_def)
    from pp_read_loop_wp [OF b fuel this, of n] show ?case by (simp add: t4 v3)
  qed (use fuel t3 in simp_all)
qed

subsection \<open>The buffer of \<open>MUXDCOMMS\<close>\<close>

text \<open>The bytes that wait in the buffer, and what holds between the calls.\<close>

definition pending :: "muxd \<Rightarrow> u8 list" where
  "pending m = take (unat (mx_rd_fill m)) (drop (unat (mx_rd_pos m)) (mx_rd_buf m))"

definition muxd_ok :: "muxd \<Rightarrow> bool" where
  "muxd_ok m \<longleftrightarrow> mx_rd_size m = 8192 \<and> length (mx_rd_buf m) = 8192 \<and>
     unat (mx_rd_pos m) + unat (mx_rd_fill m) \<le> 8192"

lemma pending_length: "muxd_ok m \<Longrightarrow> length (pending m) = unat (mx_rd_fill m)"
  by (auto simp: muxd_ok_def pending_def)

lemma unat_minus: "unat z \<le> unat x \<Longrightarrow> unat (x - z :: u32) = unat x - unat z"
  by (simp add: unat_sub_if_size)

lemma muxd_make_room_spec:
  assumes ok: "muxd_ok m" and n: "unat (mx_rd_fill m) + unat nreq \<le> 8192"
  obtains m' where "muxd_make_room g nreq m = Inr m'" "muxd_ok m'" "pending m' = pending m"
    "mx_rd_fill m' = mx_rd_fill m" "unat (mx_rd_pos m') + unat (mx_rd_fill m') + unat nreq \<le> 8192"
proof (cases "nreq > mx_rd_size m - mx_rd_fill m - mx_rd_pos m")
  case False
  have "unat (mx_rd_size m - mx_rd_fill m - mx_rd_pos m) = 8192 - unat (mx_rd_fill m) - unat (mx_rd_pos m)"
    using ok by (auto simp: muxd_ok_def unat_minus)
  with False ok have "unat (mx_rd_pos m) + unat (mx_rd_fill m) + unat nreq \<le> 8192"
    by (auto simp: muxd_ok_def word_less_nat_alt)
  then show ?thesis using that [of m] False ok by (simp add: muxd_make_room_def)
next
  case True
  have fits: "\<not> nreq > mx_rd_size m - mx_rd_fill m"
    using ok n by (simp add: muxd_ok_def word_less_nat_alt unat_minus)
  define m' where "m' = (if mx_rd_pos m > 0
    then m\<lparr>mx_rd_buf := pending m @ drop (length (pending m)) (mx_rd_buf m), mx_rd_pos := 0\<rparr> else m)"
  have compact: "muxd_compact m = Inr m'"
    using ok by (simp add: muxd_compact_def m'_def array_part_def pending_def muxd_ok_def)
  have "mx_rd_pos m' = 0" "mx_rd_fill m' = mx_rd_fill m" "mx_rd_size m' = mx_rd_size m"
    by (simp_all add: m'_def word_gt_0)
  moreover have "pending m' = pending m" "length (mx_rd_buf m') = 8192"
    using ok pending_length [OF ok] by (auto simp: m'_def pending_def muxd_ok_def)
  moreover have "muxd_grow g nreq m' = Inr m'"
    using fits by (simp add: muxd_grow_def calculation)
  ultimately show ?thesis
    using that [of m'] True ok n by (simp add: muxd_make_room_def compact muxd_ok_def)
qed

text \<open>What was pending is overwritten from its front by what comes in, and the rest is followed by
  as many bytes of what stood behind it.\<close>

lemma muxd_write_wp:
  assumes b: "port_board d view lag gp" and fuel: "d < fuel" and s: "port_idle d view lag s"
    and ok: "muxd_ok m" and n: "length (pending m) + unat nreq \<le> 8192" and buf: "unat nreq \<le> length buf"
  shows "wp (muxd_write fuel gp g nreq buf m)
    (\<lambda>m' t. port_idle d view lag t \<and> muxd_ok m' \<and>
       bv_rx (view t) = bv_rx (view s) @ take (unat nreq) buf \<and>
       bv_tx (view t) = drop (unat nreq) (bv_tx (view s)) \<and>
       (let new = answered (unat nreq) (bv_tx (view s)) in
        length (pending m') = length (pending m) + length new \<and>
        take (max (length new) (length (pending m))) (pending m') = new @ drop (length new) (pending m)))
    (\<lambda>_ _. False) s"
proof -
  obtain m1 where m1: "muxd_make_room g nreq m = Inr m1" "muxd_ok m1" "pending m1 = pending m"
    "mx_rd_fill m1 = mx_rd_fill m" "unat (mx_rd_pos m1) + unat (mx_rd_fill m1) + unat nreq \<le> 8192"
    using muxd_make_room_spec [OF ok, of nreq g] n pending_length [OF ok] by auto
  let ?new = "answered (unat nreq) (bv_tx (view s))"
  let ?p = "unat (mx_rd_pos m1)" and ?f = "unat (mx_rd_fill m1)"
  have new: "length ?new \<le> unat nreq" by (rule answered_length)
  define buf' where "buf' = take ?p (mx_rd_buf m1) @ ?new @ drop (?p + length ?new) (mx_rd_buf m1)"
  define m' where "m' = m1\<lparr>mx_rd_buf := buf', mx_rd_fill := mx_rd_fill m1 + of_nat (length ?new)\<rparr>"
  have len: "length (mx_rd_buf m1) = 8192" using m1(2) by (simp add: muxd_ok_def)
  have fill: "unat (mx_rd_fill m') = ?f + length ?new"
  proof -
    have "unat (of_nat (length ?new) :: u32) = length ?new"
      using new m1(5) by (simp add: unsigned_of_nat take_bit_nat_eq_self)
    then show ?thesis using new m1(5) by (simp add: m'_def unat_word_ariths)
  qed
  have pend: "pending m' = take (?f + length ?new) (?new @ drop (?p + length ?new) (mx_rd_buf m1))"
    using len m1(5) new by (simp add: pending_def fill) (simp add: m'_def buf'_def)
  have "drop (length ?new) (pending m) = take (?f - length ?new) (drop (?p + length ?new) (mx_rd_buf m1))"
    using m1(3) [symmetric] by (simp add: pending_def [of m1] drop_take add.commute)
  then have first: "take (max (length ?new) (length (pending m))) (pending m') = ?new @ drop (length ?new) (pending m)"
    using pending_length [OF m1(2)] m1(3) by (simp add: pend min_def max_def)
  have ok': "muxd_ok m'"
    using m1(2,5) new len by (simp add: muxd_ok_def fill) (simp add: m'_def buf'_def)
  have xfer: "wp (pp_xfer fuel gp (take (unat nreq) buf) ?p (mx_rd_buf m1))
      (\<lambda>(n, buf'') t. port_idle d view lag t \<and>
         bv_rx (view t) = bv_rx (view s) @ take (unat nreq) buf \<and> bv_tx (view t) = drop (unat nreq) (bv_tx (view s)) \<and>
         n = length ?new \<and> buf'' = buf') (\<lambda>_ _. False) s"
    using pp_xfer_wp [OF b fuel s, of ?p "take (unat nreq) buf" "mx_rd_buf m1"] len m1(5) buf
    by (auto simp: min_absorb2 buf'_def elim!: wp_mono)
  show ?thesis
    unfolding muxd_write_def
    using first ok' pending_length [OF ok'] pending_length [OF ok] m1(4) fill buf xfer
    by (simp add: wp_simps m1(1) array_part_def)
      (erule wp_mono, auto simp: wp_simps m'_def Let_def)
qed

lemma muxd_take_spec:
  assumes ok: "muxd_ok m"
  obtains m' where "muxd_take nreq m = Inr (take (unat nreq) (pending m), m')" "muxd_ok m'"
    "pending m' = drop (unat nreq) (pending m)"
proof (cases "mx_rd_fill m > 0")
  case False
  then have "pending m = []" by (simp add: pending_def word_less_nat_alt)
  then show ?thesis using that [of m] False ok by (simp add: muxd_take_def)
next
  case True
  define ln where "ln = (if nreq > mx_rd_fill m then mx_rd_fill m else nreq)"
  have ln: "unat ln = min (unat nreq) (unat (mx_rd_fill m))"
    by (auto simp: ln_def word_less_nat_alt)
  define m' where "m' = m\<lparr>mx_rd_pos := (if mx_rd_fill m - ln = 0 then 0 else mx_rd_pos m + ln), mx_rd_fill := mx_rd_fill m - ln\<rparr>"
  have fill: "unat (mx_rd_fill m - ln) = unat (mx_rd_fill m) - unat ln" by (rule unat_minus) (simp add: ln)
  have pos: "unat (mx_rd_pos m + ln) = unat (mx_rd_pos m) + unat ln"
  proof -
    have "unat (mx_rd_pos m) + unat ln < 2 ^ 32" using ok ln by (auto simp: muxd_ok_def)
    then show ?thesis by (simp add: unat_word_ariths)
  qed
  have bytes: "take (unat ln) (drop (unat (mx_rd_pos m)) (mx_rd_buf m)) = take (unat nreq) (pending m)"
    using pending_length [OF ok] by (simp add: pending_def ln)
  have range: "unat (mx_rd_pos m) + unat ln \<le> length (mx_rd_buf m)"
    using ok ln by (auto simp: muxd_ok_def)
  have "muxd_take nreq m = Inr (take (unat nreq) (pending m), m')"
    using True range by (simp add: muxd_take_def Let_def array_part_def bytes m'_def flip: ln_def)
  moreover have "muxd_ok m'"
  proof -
    have "unat ln \<le> unat (mx_rd_fill m)" by (simp add: ln)
    then have "unat (mx_rd_pos m) + unat ln + (unat (mx_rd_fill m) - unat ln) \<le> 8192"
      using ok by (simp add: muxd_ok_def)
    then show ?thesis using ok by (auto simp: muxd_ok_def m'_def fill pos)
  qed
  moreover have "pending m' = drop (unat nreq) (pending m)"
  proof (cases "mx_rd_fill m - ln = 0")
    case all: True
    then have "unat (mx_rd_fill m) \<le> unat nreq" using ln fill by auto
    moreover have "pending m' = []" using all unfolding pending_def m'_def by simp
    ultimately show ?thesis using pending_length [OF ok] by simp
  next
    case False
    then have "unat (mx_rd_fill m - ln) \<noteq> 0" by (metis unat_eq_zero)
    then have "unat ln = unat nreq" using ln fill by (auto simp: min_def split: if_splits)
    then show ?thesis
      using False pos unfolding pending_def m'_def by (simp add: fill drop_take add.commute)
  qed
  ultimately show ?thesis by (rule that)
qed

lemma muxd_read_wp:
  assumes b: "port_board d view lag gp" and fuel: "d < fuel" and s: "port_idle d view lag s" and ok: "muxd_ok m"
  shows "wp (muxd_read fuel gp nreq m)
    (\<lambda>(bs, m') t. port_idle d view lag t \<and> muxd_ok m' \<and> bv_rx (view t) = bv_rx (view s) \<and>
       bs = take (unat nreq) (pending m) @
         takeWhile (\<lambda>c. c \<noteq> 0xff) (take (unat nreq - length (pending m)) (bv_tx (view s))) \<and>
       pending m' = drop (unat nreq) (pending m))
    (\<lambda>_ _. False) s"
proof -
  obtain m' where m': "muxd_take nreq m = Inr (take (unat nreq) (pending m), m')" "muxd_ok m'"
    "pending m' = drop (unat nreq) (pending m)"
    using muxd_take_spec [OF ok] .
  show ?thesis
  proof (cases "length (pending m) < unat nreq")
    case True
    then show ?thesis
      using pp_read_wp [OF b fuel s, of "unat nreq - length (pending m)"] m'
      by (simp add: muxd_read_def wp_simps) (erule wp_mono, auto simp: wp_simps)
  next
    case False
    then show ?thesis using m' s by (simp add: muxd_read_def wp_simps)
  qed
qed

subsection \<open>A board with its pins\<close>

definition sim_gpio :: "boardview gpio" where
  "sim_gpio =
     \<lparr>gp_digitalWrite = \<lambda>p x v. Inr ((),
        if p = RASPI_DIR then v\<lparr>bv_dir := x \<noteq> 0\<rparr>
        else if p = RASPI_CLK then clock_edge (x \<noteq> 0) v
        else v\<lparr>bv_pins := (bv_pins v)(p := x \<noteq> 0)\<rparr>),
      gp_digitalRead = \<lambda>p v. Inr (
        if p = RASPI_DIR then of_bool (bv_dir v)
        else if p = RASPI_CLK \<or> p = RASPI_CLKFB then of_bool (bv_clk v)
        else of_bool (\<exists>k\<in>set [0..<8]. RASPI_D ! k = p \<and> bit (bv_in v) k), v),
      gp_pinMode = \<lambda>p x v. Inr ((), v\<lparr>bv_drive := (bv_drive v)(p := x \<noteq> 0)\<rparr>)\<rparr>"

lemma sim_board: "port_board 0 (\<lambda>v. v) (\<lambda>_. 0) sim_gpio"
proof -
  have "p \<noteq> RASPI_DIR \<and> p \<noteq> RASPI_CLK \<and> p \<noteq> RASPI_CLKFB" if "p \<in> set RASPI_D" for p
    using that by (auto simp: RASPI_D_def RASPI_DIR_def RASPI_CLK_def RASPI_CLKFB_def)
  moreover have "(\<exists>k\<in>set [0..<8]. RASPI_D ! k = RASPI_D ! j \<and> bit b k) \<longleftrightarrow> bit b j" if "j < 8" for j and b :: u8
    using that by (auto simp: RASPI_D_inj)
  moreover have "RASPI_DIR \<noteq> RASPI_CLK" "RASPI_DIR \<noteq> RASPI_CLKFB" "RASPI_CLK \<noteq> RASPI_CLKFB"
    by (simp_all add: RASPI_DIR_def RASPI_CLK_def RASPI_CLKFB_def)
  ultimately show ?thesis
    by (auto simp: port_board_def sim_gpio_def wp_def RASPI_D_pins)
qed

definition sim_view :: "u8 list \<Rightarrow> boardview" where
  "sim_view tx =
     \<lparr>bv_clk = False, bv_dir = False, bv_drive = \<lambda>_. False, bv_pins = \<lambda>_. False, bv_rx = [], bv_tx = tx, bv_in = 0\<rparr>"

definition sim_muxd :: "u8 list \<Rightarrow> muxd" where
  "sim_muxd bs =
     \<lparr>mx_rd_buf = bs @ replicate (8192 - length bs) 0, mx_rd_pos = 0, mx_rd_fill = of_nat (length bs), mx_rd_size = 8192\<rparr>"

lemma sim_muxd: "length bs \<le> 8192 \<Longrightarrow> muxd_ok (sim_muxd bs) \<and> pending (sim_muxd bs) = bs"
  by (simp add: muxd_ok_def pending_def sim_muxd_def unsigned_of_nat take_bit_nat_eq_self)

lemma sim_idle: "port_idle 0 (\<lambda>v. v) (\<lambda>_. 0) (sim_view tx)"
  by (simp add: port_idle_def idle_pins_def sim_view_def)

subsection \<open>The properties\<close>

text \<open>C36. When nothing is pending, sending \<open>nreq\<close> bytes hands exactly these to the board, in order; the bytes
  that the board had for us meanwhile are kept, and what is read next is those, in order, followed by what
  the board has then. The wait for the echo of the clock always ends.\<close>

theorem netpport_exchange:
  assumes "port_board d view lag gp" "d < fuel" "port_idle d view lag s"
    and "muxd_ok m" "pending m = []" "unat nreq \<le> 8192" "unat nreq \<le> length buf"
  shows "wp (thenS (muxd_write fuel gp g nreq buf m) (\<lambda>m. muxd_read fuel gp n m))
    (\<lambda>(bs, m') t. port_idle d view lag t \<and> muxd_ok m' \<and>
       bv_rx (view t) = bv_rx (view s) @ take (unat nreq) buf \<and>
       (let new = answered (unat nreq) (bv_tx (view s)) in
        bs = take (unat n) new @
          takeWhile (\<lambda>c. c \<noteq> 0xff) (take (unat n - length new) (drop (unat nreq) (bv_tx (view s)))) \<and>
        pending m' = drop (unat n) new))
    (\<lambda>_ _. False) s"
proof (rule wp_seq [OF muxd_write_wp [OF assms(1-4)]], goal_cases)
  case w: (3 m1 t)
  then have "pending m1 = answered (unat nreq) (bv_tx (view s))"
    using assms(5) by (simp add: Let_def) (metis take_all order_refl)
  with w muxd_read_wp [OF assms(1,2), of t m1 n] show ?case
    by (simp add: Let_def)
qed (use assms in simp_all)

theorem netpport_exchange_witness:
  "port_board 0 (\<lambda>v. v) (\<lambda>_. 0) sim_gpio \<and>
   wp (thenS (muxd_write 1 sim_gpio (\<lambda>_. 0) 2 [0xc1, 0xc2, 0] (sim_muxd [])) (\<lambda>m. muxd_read 1 sim_gpio 5 m))
     (\<lambda>(bs, m') t. bv_rx t = [0xc1, 0xc2] \<and> bs = [0x81, 0x82, 0x83])
     (\<lambda>_ _. False) (sim_view [0x81, 0x82, 0x83])"
proof (rule conjI [OF sim_board])
  have "muxd_ok (sim_muxd [])" "pending (sim_muxd []) = []"
    "unat (2 :: u32) \<le> 8192" "unat (2 :: u32) \<le> length [0xc1, 0xc2, 0 :: u8]"
    using sim_muxd [of "[]"] by simp_all
  from netpport_exchange [OF sim_board zero_less_one sim_idle [of "[0x81, 0x82, 0x83]"] this, of "\<lambda>_. 0" 5]
  show "wp (thenS (muxd_write 1 sim_gpio (\<lambda>_. 0) 2 [0xc1, 0xc2, 0] (sim_muxd [])) (\<lambda>m. muxd_read 1 sim_gpio 5 m))
     (\<lambda>(bs, m') t. bv_rx t = [0xc1, 0xc2] \<and> bs = [0x81, 0x82, 0x83])
     (\<lambda>_ _. False) (sim_view [0x81, 0x82, 0x83])"
    by (rule wp_mono) (simp_all add: answered_def sim_view_def split: prod.splits)
qed

text \<open>When bytes are pending, those that come in while sending are stored over them: of what the next
  reads return, the first are the new bytes, then what is left of the old ones.\<close>

theorem netpport_overwrites_pending:
  assumes "port_board d view lag gp" "d < fuel" "port_idle d view lag s"
    and "muxd_ok m" "length (pending m) + unat nreq \<le> 8192" "unat nreq \<le> length buf"
  shows "wp (muxd_write fuel gp g nreq buf m)
    (\<lambda>m' t. let new = answered (unat nreq) (bv_tx (view s)) in
        length (pending m') = length (pending m) + length new \<and>
        take (max (length new) (length (pending m))) (pending m') = new @ drop (length new) (pending m))
    (\<lambda>_ _. False) s"
  by (rule wp_mono [OF muxd_write_wp [OF assms]]) (simp_all add: Let_def)

theorem netpport_overwrites_pending_witness:
  "port_board 0 (\<lambda>v. v) (\<lambda>_. 0) sim_gpio \<and> pending (sim_muxd [0x91, 0x92, 0x93]) = [0x91, 0x92, 0x93] \<and>
   wp (muxd_write 1 sim_gpio (\<lambda>_. 0) 2 [0xc1, 0xc2] (sim_muxd [0x91, 0x92, 0x93]))
     (\<lambda>m' t. length (pending m') = 5 \<and> take 3 (pending m') = [0x81, 0x82, 0x93])
     (\<lambda>_ _. False) (sim_view [0x81, 0x82, 0x83])"
proof (intro conjI sim_board)
  have m: "muxd_ok (sim_muxd [0x91, 0x92, 0x93])" "pending (sim_muxd [0x91, 0x92, 0x93]) = [0x91, 0x92, 0x93]"
    using sim_muxd [of "[0x91, 0x92, 0x93]"] by simp_all
  show "pending (sim_muxd [0x91, 0x92, 0x93]) = [0x91, 0x92, 0x93]" by (rule m)
  have n: "length (pending (sim_muxd [0x91, 0x92, 0x93])) + unat (2 :: u32) \<le> 8192"
    "unat (2 :: u32) \<le> length [0xc1, 0xc2 :: u8]"
    by (simp_all add: m)
  from netpport_overwrites_pending [OF sim_board zero_less_one sim_idle [of "[0x81, 0x82, 0x83]"] m(1) n, of "\<lambda>_. 0"]
  show "wp (muxd_write 1 sim_gpio (\<lambda>_. 0) 2 [0xc1, 0xc2] (sim_muxd [0x91, 0x92, 0x93]))
     (\<lambda>m' t. length (pending m') = 5 \<and> take 3 (pending m') = [0x81, 0x82, 0x93])
     (\<lambda>_ _. False) (sim_view [0x81, 0x82, 0x83])"
    by (rule wp_mono) (simp_all add: answered_def sim_view_def m numeral_3_eq_3)
qed

end
