(* ===== verification/NetServerProps.thy ===== *)
theory NetServerProps
  imports NetServer NetPPortProps
begin

text \<open>
  What \<open>LINBUFS\<close> and the loop of \<open>main\<close> promise: the arrays of lines are never left and what is printed
  is the text cut into lines; what the board sends is divided between the two connections, complete
  and in order. The laws of the operating system are those of \<open>net_peers\<close>.
\<close>

subsection \<open>The line buffers\<close>

definition linbufs_ok :: "linbufs \<Rightarrow> bool" where
  "linbufs_ok b \<longleftrightarrow> length (lb_iline b) = 512 \<and> length (lb_oline b) = 512 \<and> length (lb_buf b) = 256 \<and>
     lb_ilen b \<le> 510 \<and> lb_olen b \<le> 510"

text \<open>The line that is being collected.\<close>

definition iline_text :: "linbufs \<Rightarrow> u8 list" where
  "iline_text b = take (lb_ilen b) (lb_iline b)"

lemma linbufs_new_ok: "linbufs_ok (linbufs_new g)" "iline_text (linbufs_new g) = []"
  by (simp_all add: linbufs_ok_def linbufs_new_def iline_text_def)

text \<open>What is to be printed: a line ends with a line feed or a carriage return, or when it has 511
  characters, and is printed up to a zero byte in it.\<close>

definition line_ends :: "u8 list \<Rightarrow> u8 \<Rightarrow> bool" where
  "line_ends line c \<longleftrightarrow> c = 10 \<or> c = 13 \<or> length line = 510"

fun print_lines :: "u8 list \<Rightarrow> u8 list \<Rightarrow> u8 list \<Rightarrow> u8 list \<times> u8 list" where
  "print_lines prefix line [] = ([], line)"
| "print_lines prefix line (c # cs) =
     (if line_ends line c
      then let (text, rest) = print_lines prefix [] cs
           in (prefix @ takeWhile (\<lambda>x. x \<noteq> 0) (line @ [c]) @ (if c = 10 \<or> c = 13 then [] else [10]) @ text, rest)
      else print_lines prefix (line @ [c]) cs)"

lemma takeWhile_stop: "\<not> P y \<Longrightarrow> takeWhile P (xs @ y # zs) = takeWhile P xs"
  by (induction xs) simp_all

lemma list_update_two:
  "Suc i < length xs \<Longrightarrow> xs[i := a, Suc i := b] = take i xs @ a # b # drop (Suc (Suc i)) xs"
proof (induction i arbitrary: xs)
  case 0
  then show ?case by (cases xs; cases "tl xs") auto
next
  case (Suc i)
  then show ?case by (cases xs) auto
qed

lemma print_in_char_spec:
  assumes ok: "linbufs_ok b"
  obtains b' where "print_in_char prefix c b = Inr (fst (print_lines prefix (iline_text b) [c]), b')"
    "linbufs_ok b'" "lb_buf b' = lb_buf b" "iline_text b' = snd (print_lines prefix (iline_text b) [c])"
proof (cases "line_ends (iline_text b) c")
  case True
  have i: "lb_ilen b < length (lb_iline b)" "Suc (lb_ilen b) < length (lb_iline b)" and l: "length (iline_text b) = lb_ilen b"
    using ok by (simp_all add: linbufs_ok_def iline_text_def)
  define iline where "iline = (lb_iline b)[lb_ilen b := c, Suc (lb_ilen b) := 0]"
  have "iline = (iline_text b @ [c]) @ 0 # drop (Suc (Suc (lb_ilen b))) (lb_iline b)"
    using i by (simp add: iline_def iline_text_def list_update_two)
  then have tw: "takeWhile (\<lambda>x. x \<noteq> 0) iline = takeWhile (\<lambda>x. x \<noteq> 0) (iline_text b @ [c])"
    by (simp only: takeWhile_stop)
  have "c = 10 \<or> c = 13 \<or> 512 - 1 \<le> lb_ilen b + 1" using True l by (auto simp: line_ends_def)
  then have "print_in_char prefix c b = Inr (prefix @ takeWhile (\<lambda>x. x \<noteq> 0) iline @
      (if \<not> (c = 10 \<or> c = 13) then [10] else []), b\<lparr>lb_iline := iline, lb_ilen := 0\<rparr>)"
    using i by (auto simp: print_in_char_def iline_def Let_def)
  moreover have "print_lines prefix (iline_text b) [c] = (prefix @ takeWhile (\<lambda>x. x \<noteq> 0) iline @
      (if \<not> (c = 10 \<or> c = 13) then [10] else []), [])"
    unfolding tw using True by simp
  moreover have "linbufs_ok (b\<lparr>lb_iline := iline, lb_ilen := 0\<rparr>)"
    using ok by (simp add: linbufs_ok_def iline_def)
  ultimately show ?thesis
    using that [of "b\<lparr>lb_iline := iline, lb_ilen := 0\<rparr>"] by (simp add: iline_text_def)
next
  case False
  have i: "lb_ilen b < length (lb_iline b)" and l: "length (iline_text b) = lb_ilen b"
    using ok by (simp_all add: linbufs_ok_def iline_text_def)
  have "take (Suc (lb_ilen b)) ((lb_iline b)[lb_ilen b := c]) = iline_text b @ [c]"
    using i by (simp add: iline_text_def take_Suc_conv_app_nth)
  with False i l ok that [of "b\<lparr>lb_iline := (lb_iline b)[lb_ilen b := c], lb_ilen := Suc (lb_ilen b)\<rparr>"]
  show ?thesis
    by (auto simp: print_in_char_def line_ends_def linbufs_ok_def iline_text_def)
qed

lemma print_lines_Cons:
  "print_lines prefix line (c # cs) =
     (let (t1, l1) = print_lines prefix line [c]; (t2, l2) = print_lines prefix l1 cs in (t1 @ t2, l2))"
  by (simp split: prod.splits)

lemma print_in_loop_spec:
  assumes "linbufs_ok b" "i + n \<le> 256"
  shows "\<exists>b'. print_in_loop i n prefix b = Inr (fst (print_lines prefix (iline_text b) (take n (drop i (lb_buf b)))), b') \<and>
    linbufs_ok b' \<and> lb_buf b' = lb_buf b \<and>
    iline_text b' = snd (print_lines prefix (iline_text b) (take n (drop i (lb_buf b))))"
  using assms
proof (induction n arbitrary: i b)
  case (Suc n)
  have len: "i < length (lb_buf b)" using Suc.prems by (simp add: linbufs_ok_def)
  obtain b1 where b1: "print_in_char prefix (lb_buf b ! i) b = Inr (fst (print_lines prefix (iline_text b) [lb_buf b ! i]), b1)"
    "linbufs_ok b1" "lb_buf b1 = lb_buf b" "iline_text b1 = snd (print_lines prefix (iline_text b) [lb_buf b ! i])"
    using print_in_char_spec [OF Suc.prems(1)] .
  have cs: "take (Suc n) (drop i (lb_buf b)) = lb_buf b ! i # take n (drop (i + 1) (lb_buf b))"
    using len by (simp add: Cons_nth_drop_Suc [symmetric])
  obtain b2 where "print_in_loop (i + 1) n prefix b1 =
      Inr (fst (print_lines prefix (iline_text b1) (take n (drop (i + 1) (lb_buf b)))), b2)"
    "linbufs_ok b2" "lb_buf b2 = lb_buf b"
    "iline_text b2 = snd (print_lines prefix (iline_text b1) (take n (drop (i + 1) (lb_buf b))))"
    using Suc.IH [OF b1(2), of "i + 1"] Suc.prems(2) b1(3) by auto
  then show ?case
    unfolding cs print_lines_Cons [of prefix "iline_text b" "lb_buf b ! i" "take n (drop (i + 1) (lb_buf b))"]
    using len b1(1,4) by (auto simp del: print_lines.simps split: prod.splits)
qed simp

lemma print_out_char_spec:
  assumes ok: "linbufs_ok b"
  shows "if c = 0 then print_out_char prefix c b = Inl AssertFail
    else \<exists>out b'. print_out_char prefix c b = Inr (out, b') \<and> linbufs_ok b' \<and> lb_buf b' = lb_buf b"
  using ok by (auto simp: print_out_char_def linbufs_ok_def Let_def)

lemma print_out_loop_spec:
  "linbufs_ok b \<Longrightarrow> i + n \<le> 256 \<Longrightarrow>
    (if 0 \<in> set (take n (drop i (lb_buf b))) then print_out_loop i n prefix b = Inl AssertFail
     else \<exists>out b'. print_out_loop i n prefix b = Inr (out, b') \<and> linbufs_ok b' \<and> lb_buf b' = lb_buf b)"
proof (induction n arbitrary: i b)
  case (Suc n)
  have len: "i < length (lb_buf b)" using Suc.prems by (simp add: linbufs_ok_def)
  have cs: "take (Suc n) (drop i (lb_buf b)) = lb_buf b ! i # take n (drop (i + 1) (lb_buf b))"
    using len by (simp add: Cons_nth_drop_Suc [symmetric])
  show ?case
  proof (cases "lb_buf b ! i = 0")
    case True
    then show ?thesis using print_out_char_spec [OF Suc.prems(1), of 0 prefix] len by (simp add: cs)
  next
    case False
    then obtain out b1 where b1: "print_out_char prefix (lb_buf b ! i) b = Inr (out, b1)" "linbufs_ok b1" "lb_buf b1 = lb_buf b"
      using print_out_char_spec [OF Suc.prems(1), of "lb_buf b ! i" prefix] by auto
    have "i + 1 + n \<le> 256" using Suc.prems(2) by simp
    from Suc.IH [OF b1(2) this] show ?thesis
      using False len unfolding cs by (auto simp: b1 split: if_splits)
  qed
qed simp

subsection \<open>The connections\<close>

text \<open>A write takes at least one byte of what it is given, or would block, which happens at most \<open>patience\<close>
  times. \<open>sent\<close> is what each descriptor has taken.\<close>

definition net_peers :: "('s \<Rightarrow> nat) \<Rightarrow> ('s \<Rightarrow> int \<Rightarrow> u8 list) \<Rightarrow> 's netos \<Rightarrow> bool" where
  "net_peers patience sent os \<longleftrightarrow>
     (\<forall>s fd bs. bs \<noteq> [] \<longrightarrow> wp (no_write os fd bs)
        (\<lambda>(nw, again) t.
           (1 \<le> nw \<and> nw \<le> int (length bs) \<and> patience t \<le> patience s \<and>
              sent t = (sent s)(fd := sent s fd @ take (nat nw) bs)) \<or>
           (nw < 0 \<and> again \<and> patience t < patience s \<and> sent t = sent s)) (\<lambda>_ _. False) s) \<and>
     (\<forall>s text. wp (no_print os text) (\<lambda>_ t. patience t \<le> patience s \<and> sent t = sent s) (\<lambda>_ _. False) s)"

lemma lb_write_loop_wp:
  assumes os: "net_peers patience sent os"
  shows "pos < ln \<Longrightarrow> ln \<le> length buf \<Longrightarrow> ln - pos + patience s \<le> fuel \<Longrightarrow>
    wp (lb_write_loop fuel os fd buf (int ln) (int pos))
      (\<lambda>r t. r = int ln \<and> patience t \<le> patience s \<and> sent t = (sent s)(fd := sent s fd @ drop pos (take ln buf)))
      (\<lambda>_ _. False) s"
proof (induction fuel arbitrary: pos s)
  case (Suc fuel)
  let ?bs = "take (ln - pos) (drop pos buf)"
  let ?Q = "\<lambda>r t. r = int ln \<and> patience t \<le> patience s \<and> sent t = (sent s)(fd := sent s fd @ drop pos (take ln buf))"
  have bs: "array_part (nat (int pos)) (nat (int ln - int pos)) buf = Inr ?bs" "?bs = drop pos (take ln buf)"
    "length ?bs = ln - pos" "?bs \<noteq> []"
    using Suc.prems by (auto simp: array_part_def nat_diff_distrib drop_take)
  have w: "wp (no_write os fd ?bs)
        (\<lambda>(nw, again) t.
           (1 \<le> nw \<and> nw \<le> int (length ?bs) \<and> patience t \<le> patience s \<and>
              sent t = (sent s)(fd := sent s fd @ take (nat nw) ?bs)) \<or>
           (nw < 0 \<and> again \<and> patience t < patience s \<and> sent t = sent s)) (\<lambda>_ _. False) s"
    using os bs(4) unfolding net_peers_def by blast
  show ?case
    unfolding lb_write_loop.simps bs(1) liftS_Inr thenS_retS
  proof (rule wp_seq [OF w], clarsimp, elim disjE, goal_cases)
    case (1 nw again t)
    then obtain k where k: "nw = int k" "0 < k" "k \<le> ln - pos" "patience t \<le> patience s"
      "sent t = (sent s)(fd := sent s fd @ take k ?bs)"
      using bs(3) by (cases nw) auto
    show ?case
    proof (cases "pos + k < ln")
      case True
      have "take k ?bs @ drop (pos + k) (take ln buf) = ?bs"
        unfolding bs(2) using append_take_drop_id [of k "drop pos (take ln buf)"] by (simp add: add.commute)
      then have eq: "(sent t)(fd := sent t fd @ drop (pos + k) (take ln buf)) =
          (sent s)(fd := sent s fd @ drop pos (take ln buf))"
        by (simp add: k(5) bs(2))
      have "ln - (pos + k) + patience t \<le> fuel" using True k Suc.prems by linarith
      from Suc.IH [OF True Suc.prems(2) this, unfolded eq]
      have "wp (lb_write_loop fuel os fd buf (int ln) (int (pos + k))) ?Q (\<lambda>_ _. False) t"
        by (rule wp_mono) (use k(4) in auto)
      with True k(1,2) show ?thesis by (simp add: fun_upd_def)
    next
      case False
      then have "k = ln - pos" using k by simp
      with False k Suc.prems bs show ?thesis by (auto simp: wp_simps)
    qed
  next
    case (2 nw again t)
    then have "ln - pos + patience t \<le> fuel" using Suc.prems by linarith
    from Suc.IH [OF Suc.prems(1,2) this]
    have "wp (lb_write_loop fuel os fd buf (int ln) (int pos)) ?Q (\<lambda>_ _. False) t"
      by (rule wp_mono) (use 2 in auto)
    with Suc.prems 2 show ?case by (simp add: fun_upd_def)
  qed
qed simp

lemma lb_write_wp:
  assumes os: "net_peers patience sent os" and "0 < ln" "ln \<le> length (lb_buf b)" "ln + patience s \<le> fuel"
  shows "wp (lb_write fuel os fd ln 0 b)
      (\<lambda>(r, b') t. r = int ln \<and> b' = b \<and> patience t \<le> patience s \<and>
         sent t = (sent s)(fd := sent s fd @ take ln (lb_buf b)))
      (\<lambda>_ _. False) s"
  using lb_write_loop_wp [OF os, of 0 ln "lb_buf b" s fuel fd] assms(2-)
  by (simp add: lb_write_def or_mask_def wp_simps) (erule wp_mono, auto simp: wp_simps)

text \<open>What a connection takes, and nothing when there is none.\<close>

definition takes :: "int \<Rightarrow> u8 list \<Rightarrow> (int \<Rightarrow> u8 list) \<Rightarrow> int \<Rightarrow> u8 list" where
  "takes fd bs f = (if 0 \<le> fd then f(fd := f fd @ bs) else f)"

lemma forward_wp:
  assumes os: "net_peers patience sent os" and "n \<le> length (lb_buf b)" "n + patience s \<le> fuel"
  shows "wp (forward fuel os n b)
      (\<lambda>b' t. b' = b \<and> patience t \<le> patience s \<and> sent t = takes (lb_fd b) (take n (lb_buf b)) (sent s))
      (\<lambda>_ _. False) s"
proof (cases "lb_fd b \<ge> 0 \<and> n > 0")
  case True
  with lb_write_wp [OF os _ assms(2,3), of "lb_fd b"] show ?thesis
    by (simp add: forward_def wp_simps takes_def) (erule wp_mono, auto simp: wp_simps)
next
  case False
  then show ?thesis by (auto simp: forward_def wp_simps takes_def)
qed

lemma echo_wp:
  assumes os: "net_peers patience sent os" and ok: "linbufs_ok b" and "n \<le> 256"
  shows "wp (echo os n p q b)
      (\<lambda>b' t. linbufs_ok b' \<and> patience t \<le> patience s \<and> sent t = sent s) (\<lambda>_ _. False) s"
proof (cases "0 < n")
  case True
  let ?p = "if lb_fd b \<ge> 0 then p else q"
  obtain out b' where b': "print_in n ?p b = Inr (out, b')" "linbufs_ok b'"
    using print_in_loop_spec [OF ok, of 0 n ?p] assms(3) True by (auto simp: print_in_def)
  have "wp (no_print os out) (\<lambda>_ t. patience t \<le> patience s \<and> sent t = sent s) (\<lambda>_ _. False) s"
    using os unfolding net_peers_def by blast
  then show ?thesis
    using True b' by (simp add: echo_def show_text_def wp_simps) (erule wp_mono, auto simp: wp_simps)
qed (use ok in \<open>simp add: echo_def wp_simps\<close>)

lemma put_bytes_front:
  assumes "length bs \<le> length buf"
  obtains buf' where "put_bytes 0 bs buf = Inr buf'" "take (length bs) buf' = bs" "length buf' = length buf"
  using put_bytes_in [of 0 bs buf] assms by (auto simp: that)

lemma divided_lengths: "length (cmd_bytes bs) \<le> length bs" "length (con_bytes bs) \<le> length bs"
  by (simp_all add: cmd_bytes_def con_bytes_def)

subsection \<open>Peers that take all they get\<close>

definition sim_netos :: "(int \<Rightarrow> u8 list) netos" where
  "sim_netos =
     \<lparr>no_poll = \<lambda>_ _ _ s. Inr ((1, False, False), s),
      no_accept = \<lambda>_ s. Inr (-1, s),
      no_read = \<lambda>_ _ s. Inr (None, s),
      no_write = \<lambda>fd bs s. Inr ((int (length bs), False), s(fd := s fd @ bs)),
      no_close = \<lambda>_ s. Inr ((), s),
      no_print = \<lambda>_ s. Inr ((), s)\<rparr>"

lemma sim_peers: "net_peers (\<lambda>_. 0) (\<lambda>s. s) sim_netos"
proof -
  have "1 \<le> int (length bs)" if "bs \<noteq> []" for bs :: "u8 list" using that by (cases bs) simp_all
  then show ?thesis by (simp add: net_peers_def sim_netos_def wp_def)
qed

subsection \<open>The properties\<close>

text \<open>C37. What comes from the board goes to the connections, whatever they are and however slowly they take it:
  the bytes marked with bit 7 to the command connection, without the mark, the others to the console, all
  of them, each once and in order; for a missing connection they are only printed.\<close>

theorem deliver_divides:
  assumes os: "net_peers patience sent os" and "linbufs_ok lbcmd" "linbufs_ok lbcon"
    and "length bs \<le> 256" "256 + patience s \<le> fuel"
  shows "wp (deliver fuel os bs (lbcmd, lbcon))
      (\<lambda>(cmd', con') t. linbufs_ok cmd' \<and> linbufs_ok con' \<and> patience t \<le> patience s \<and>
         sent t = takes (lb_fd lbcon) (con_bytes bs) (takes (lb_fd lbcmd) (cmd_bytes bs) (sent s)))
      (\<lambda>_ _. False) s"
proof -
  have len: "length (cmd_bytes bs) \<le> 256" "length (con_bytes bs) \<le> 256"
    using divided_lengths [of bs] assms(4) by simp_all
  obtain buf1 where 1: "put_bytes 0 (cmd_bytes bs) (lb_buf lbcmd) = Inr buf1"
    "take (length (cmd_bytes bs)) buf1 = cmd_bytes bs" "length buf1 = length (lb_buf lbcmd)"
    using put_bytes_front [of "cmd_bytes bs" "lb_buf lbcmd"] len(1) assms(2) by (auto simp: linbufs_ok_def)
  obtain buf2 where 2: "put_bytes 0 (con_bytes bs) (lb_buf lbcon) = Inr buf2"
    "take (length (con_bytes bs)) buf2 = con_bytes bs" "length buf2 = length (lb_buf lbcon)"
    using put_bytes_front [of "con_bytes bs" "lb_buf lbcon"] len(2) assms(3) by (auto simp: linbufs_ok_def)
  have ok: "linbufs_ok (lbcmd\<lparr>lb_buf := buf1\<rparr>)" "linbufs_ok (lbcon\<lparr>lb_buf := buf2\<rparr>)"
    using assms(2,3) 1(3) 2(3) by (simp_all add: linbufs_ok_def)
  then have room: "length (cmd_bytes bs) \<le> length (lb_buf (lbcmd\<lparr>lb_buf := buf1\<rparr>))"
    "length (con_bytes bs) \<le> length (lb_buf (lbcon\<lparr>lb_buf := buf2\<rparr>))"
    using len by (simp_all add: linbufs_ok_def)
  show ?thesis
    unfolding deliver_def Let_def fst_conv snd_conv 1(1) 2(1) liftS_Inr thenS_retS
  proof (rule wp_seq [OF forward_wp [OF os room(1)]], goal_cases)
    case f1: (2 b1 t1)
    show ?case
    proof (rule wp_seq [OF forward_wp [OF os room(2)]], goal_cases)
      case f2: (2 b2 t2)
      show ?case
      proof (rule wp_seq [OF echo_wp [OF os]], goal_cases)
        case e1: (3 b3 t3)
        show ?case
          by (rule wp_seq [OF echo_wp [OF os]]) (use f1 f2 e1 ok len 1(2) 2(2) in \<open>auto simp: wp_simps\<close>)
      qed (use f1 ok len in simp_all)
    qed (use f1 len assms(5) in simp)
  qed (use len assms(5) in simp)
qed

theorem deliver_divides_witness:
  "net_peers (\<lambda>_. 0) (\<lambda>s. s) sim_netos \<and> linbufs_ok (linbufs_new (\<lambda>_. 7)) \<and>
   wp (deliver 256 sim_netos [0xc1, 65, 66, 0xc2] ((linbufs_new (\<lambda>_. 7))\<lparr>lb_fd := 4\<rparr>, (linbufs_new (\<lambda>_. 7))\<lparr>lb_fd := 5\<rparr>))
      (\<lambda>_ t. t 4 = [65, 66] \<and> t 5 = [65, 66]) (\<lambda>_ _. False) (\<lambda>_. [])"
proof (intro conjI sim_peers linbufs_new_ok)
  have ok: "linbufs_ok ((linbufs_new (\<lambda>_. 7))\<lparr>lb_fd := fd\<rparr>)" for fd
    using linbufs_new_ok(1) [of "\<lambda>_. 7"] by (simp add: linbufs_ok_def)
  have l: "length [0xc1, 65, 66, 0xc2 :: u8] \<le> 256" "(256 :: nat) + 0 \<le> 256" by simp_all
  from deliver_divides [OF sim_peers ok [of 4] ok [of 5] l(1) l(2)]
  show "wp (deliver 256 sim_netos [0xc1, 65, 66, 0xc2] ((linbufs_new (\<lambda>_. 7))\<lparr>lb_fd := 4\<rparr>, (linbufs_new (\<lambda>_. 7))\<lparr>lb_fd := 5\<rparr>))
      (\<lambda>_ t. t 4 = [65, 66] \<and> t 5 = [65, 66]) (\<lambda>_ _. False) (\<lambda>_. [])"
    by (rule wp_mono) (auto simp: takes_def cmd_bytes_def con_bytes_def linbufs_new_def split: prod.splits)
qed

text \<open>Whatever comes, \<open>print_in\<close> stays in its arrays and prints the text of the connection cut into lines.\<close>

theorem print_in_prints_lines:
  assumes "linbufs_ok b" "0 < n" "n \<le> 256"
  shows "\<exists>b'. print_in n prefix b = Inr (fst (print_lines prefix (iline_text b) (take n (lb_buf b))), b') \<and>
    linbufs_ok b' \<and> lb_buf b' = lb_buf b \<and>
    iline_text b' = snd (print_lines prefix (iline_text b) (take n (lb_buf b)))"
  using print_in_loop_spec [OF assms(1), of 0 n prefix] assms by (simp add: print_in_def)

theorem print_in_prints_lines_witness:
  "linbufs_ok ((linbufs_new (\<lambda>_. 65))\<lparr>lb_buf := 65 # 10 # replicate 254 66\<rparr>) \<and>
   (\<exists>b'. print_in 3 [62] ((linbufs_new (\<lambda>_. 65))\<lparr>lb_buf := 65 # 10 # replicate 254 66\<rparr>) = Inr ([62, 65, 10], b')
      \<and> iline_text b' = [66])"
proof
  let ?b = "(linbufs_new (\<lambda>_. 65))\<lparr>lb_buf := 65 # 10 # replicate 254 66\<rparr>"
  show ok: "linbufs_ok ?b" by (simp add: linbufs_ok_def linbufs_new_def)
  have "iline_text ?b = []" "take 3 (lb_buf ?b) = [65, 10, 66]"
    by (simp_all add: iline_text_def linbufs_new_def numeral_3_eq_3)
  with print_in_prints_lines [OF ok, of 3 "[62]"]
  show "\<exists>b'. print_in 3 [62] ?b = Inr ([62, 65, 10], b') \<and> iline_text b' = [66]"
    by (auto simp: line_ends_def)
qed

text \<open>What a connection sends is printed too, and there a zero byte trips an assertion.\<close>

lemma print_out_aborts_on_nul:
  assumes "linbufs_ok b" "n \<le> 256"
  shows "if 0 \<in> set (take n (lb_buf b)) then print_out n prefix b = Inl AssertFail
    else \<exists>out b'. print_out n prefix b = Inr (out, b') \<and> linbufs_ok b' \<and> lb_buf b' = lb_buf b"
  using print_out_loop_spec [OF assms(1), of 0 n prefix] assms(2) by (simp add: print_out_def)

lemma marked_not_zero: "(mk :: u8) \<noteq> 0 \<Longrightarrow> c OR mk \<noteq> 0"
  by (simp add: or_eq_0_iff)

lemma zero_unmarked: "0 \<in> (\<lambda>c. c OR mk) ` set bs \<longleftrightarrow> mk = (0 :: u8) \<and> 0 \<in> set bs"
  using marked_not_zero [of mk] by (cases "mk = 0") (auto simp: image_iff)

lemma serve_open:
  fixes mk :: u8
  assumes "linbufs_ok b" "lb_connected b" "fd \<noteq> skt"
    and "no_read os (lb_fd b) 256 s = Inr (Some bs, s1)" "bs \<noteq> []" "length bs \<le> 256"
  defines "buf \<equiv> map (\<lambda>c. c OR mk) bs @ drop (length bs) (lb_buf b)"
  shows "serve fuel gp g os skt fd mk flush_prefix out_prefix b m s =
    thenS (muxd_write fuel gp g (of_nat (length bs)) buf m) (\<lambda>m.
    thenS (show_text os (print_out (length bs) out_prefix (b\<lparr>lb_buf := buf\<rparr>))) (\<lambda>b. retS (True, b, m))) s1"
proof -
  have len: "length (lb_buf b) = 256" using assms(1) by (simp add: linbufs_ok_def)
  have put: "put_bytes 0 bs (lb_buf b) = Inr (bs @ drop (length bs) (lb_buf b))"
    using put_bytes_in [of 0 bs "lb_buf b"] len assms(6) by simp
  have mask: "or_mask (length bs) mk (bs @ drop (length bs) (lb_buf b)) = Inr buf"
    by (auto simp: buf_def or_mask_def array_part_def)
  show ?thesis
    using assms(2-5) by (auto simp: serve_def lb_read_def lb_pp_write_def thenS_def liftS_def retS_def put mask split: sum.splits)
qed

text \<open>C38. The server reads what an open connection sends, marks it with \<open>mk\<close>, hands it to the board and
  prints it. On a port that works, with room for what the board has to say, this ends the server exactly
  when the bytes are not marked, that is on the console connection, and one of them is zero: the assertion
  of \<open>print_out\<close> fails. In every case the board gets all of the bytes first.\<close>

theorem serve_aborts_on_nul:
  assumes "linbufs_ok b" "lb_connected b" "fd \<noteq> skt"
    and "no_read os (lb_fd b) 256 s = Inr (Some bs, s1)" "bs \<noteq> []" "length bs \<le> 256"
    and "port_board d view lag gp" "d < fuel" "port_idle d view lag s1"
    and "muxd_ok m" "length (pending m) + length bs \<le> 8192"
    and "\<And>txt t. no_print os txt t = Inr ((), said txt t) \<and> view (said txt t) = view t"
  shows "wp (serve fuel gp g os skt fd mk flush_prefix out_prefix b m)
    (\<lambda>(busy, b', m') t. \<not> (mk = 0 \<and> 0 \<in> set bs) \<and> busy \<and> linbufs_ok b' \<and> muxd_ok m' \<and>
       bv_rx (view t) = bv_rx (view s1) @ map (\<lambda>c. c OR mk) bs)
    (\<lambda>e t. e = AssertFail \<and> mk = 0 \<and> 0 \<in> set bs \<and> bv_rx (view t) = bv_rx (view s1) @ map (\<lambda>c. c OR mk) bs) s"
proof -
  let ?buf = "map (\<lambda>c. c OR mk) bs @ drop (length bs) (lb_buf b)"
  let ?b = "b\<lparr>lb_buf := ?buf\<rparr>"
  have ok: "linbufs_ok ?b" using assms(1,6) by (simp add: linbufs_ok_def)
  have n: "unat (of_nat (length bs) :: u32) = length bs"
    using assms(6) by (simp add: unsigned_of_nat take_bit_nat_eq_self)
  have "0 \<in> set (take (length bs) (lb_buf ?b)) \<longleftrightarrow> mk = 0 \<and> 0 \<in> set bs"
    using zero_unmarked [of mk bs] by simp
  note printed = print_out_aborts_on_nul [OF ok assms(6), of out_prefix, unfolded this]
  have "length (pending m) + unat (of_nat (length bs) :: u32) \<le> 8192" "unat (of_nat (length bs) :: u32) \<le> length ?buf"
    using assms(11) by (simp_all add: n)
  note sent = muxd_write_wp [OF assms(7-10) this, of g]
  have shown: "wp (thenS (show_text os (print_out (length bs) out_prefix ?b)) (\<lambda>b. retS (True, b, m')))
      (\<lambda>(busy, b', m'') t. \<not> (mk = 0 \<and> 0 \<in> set bs) \<and> busy \<and> linbufs_ok b' \<and> m'' = m' \<and> view t = view u)
      (\<lambda>e t. e = AssertFail \<and> mk = 0 \<and> 0 \<in> set bs \<and> view t = view u) u" for m' u
    using printed assms(12)
    by (cases "mk = 0 \<and> 0 \<in> set bs") (auto simp: wp_def show_text_def thenS_def liftS_def retS_def)
  have "wp (thenS (muxd_write fuel gp g (of_nat (length bs)) ?buf m) (\<lambda>m.
      thenS (show_text os (print_out (length bs) out_prefix ?b)) (\<lambda>b. retS (True, b, m))))
    (\<lambda>(busy, b', m') t. \<not> (mk = 0 \<and> 0 \<in> set bs) \<and> busy \<and> linbufs_ok b' \<and> muxd_ok m' \<and>
       bv_rx (view t) = bv_rx (view s1) @ map (\<lambda>c. c OR mk) bs)
    (\<lambda>e t. e = AssertFail \<and> mk = 0 \<and> 0 \<in> set bs \<and> bv_rx (view t) = bv_rx (view s1) @ map (\<lambda>c. c OR mk) bs) s1"
    unfolding wp_thenS by (rule wp_mono [OF sent]) (auto simp: n intro!: wp_mono [OF shown, unfolded wp_thenS])
  then show ?thesis by (simp add: wp_def serve_open [OF assms(1-6)])
qed

text \<open>A console that sends a line with a zero byte in it.\<close>

definition nul_os :: "boardview netos" where
  "nul_os = \<lparr>no_poll = (\<lambda>_ _ _. retS (1, False, True)), no_accept = (\<lambda>_. retS 4), no_read = (\<lambda>_ _. retS (Some [65, 0])),
     no_write = (\<lambda>_ bs. retS (int (length bs), False)), no_close = (\<lambda>_. retS ()), no_print = (\<lambda>_. retS ())\<rparr>"

definition open_linbufs :: linbufs where
  "open_linbufs = (linbufs_new (\<lambda>_. 65))\<lparr>lb_fd := 5, lb_connected := True\<rparr>"

theorem serve_aborts_on_nul_witness:
  "wp (serve 1 sim_gpio (\<lambda>_. 0) nul_os 3 5 0 [] [] open_linbufs (sim_muxd []))
    (\<lambda>_ _. False) (\<lambda>e t. e = AssertFail \<and> bv_rx t = [65, 0]) (sim_view [])"
proof -
  have b: "linbufs_ok open_linbufs" "lb_connected open_linbufs" "lb_fd open_linbufs = 5"
    by (simp_all add: open_linbufs_def linbufs_ok_def linbufs_new_def)
  have m: "muxd_ok (sim_muxd [])" "length (pending (sim_muxd [])) + length [65, 0 :: u8] \<le> 8192"
    using sim_muxd [of "[]"] by simp_all
  have read: "no_read nul_os (lb_fd open_linbufs) 256 (sim_view []) = Inr (Some [65, 0], sim_view [])"
    and said: "\<And>txt t. no_print nul_os txt t = Inr ((), t) \<and> t = t"
    by (simp_all add: nul_os_def retS_def)
  from serve_aborts_on_nul [OF b(1,2) _ read _ _ sim_board zero_less_one sim_idle m said, of 5 3 "\<lambda>_. 0" 0 "[]" "[]"]
  show ?thesis by (rule wp_mono) (auto simp: sim_view_def)
qed

end
