(* ===== verification/Scope.thy ===== *)
theory Scope
  imports ZipLoad CText
begin

text \<open>
  \<open>sw/host/scopecls.cpp\<close> and \<open>scopecls.h\<close>: \<open>SCOPE\<close>, the logic analyser on the board as the host
  sees it: its length and holdoff, the samples, their print, and the file of the waveform viewer. A field
  \<open>m_x\<close> is \<open>sc_x\<close>. \<open>m_data\<close> is \<open>None\<close> for the null pointer. What is printed is a list of the strings that
  the calls of \<open>printf\<close> and \<open>fprintf\<close> write, in order.

  Arguments of the model: the bus; the times, that the code computes as \<open>double\<close>; the text of the
  date; and the two methods that a scope of its own has to supply, \<open>decode\<close> and \<open>define_traces\<close>.
\<close>

subsection \<open>State\<close>

record 's scopebus = "'s devbus" +
  db_readz :: "u32 \<Rightarrow> nat \<Rightarrow> ('s, u32 list) prog"

record traceinfo =
  ti_name :: string
  ti_key :: string
  ti_nbits :: u32
  ti_nshift :: u32

record scope =
  sc_addr :: u32
  sc_compressed :: bool
  sc_vector_read :: bool
  sc_scoplen :: u32
  sc_holdoff :: u32
  sc_data :: "u32 list option"
  sc_clkfreq_hz :: u32
  sc_traces :: "traceinfo list"

text \<open>\<open>m_holdoff\<close> is not set by the constructor: \<open>h\<close>.\<close>

definition scope_new :: "u32 \<Rightarrow> u32 \<Rightarrow> bool \<Rightarrow> bool \<Rightarrow> scope" where
  "scope_new h addr compressed vecread =
     \<lparr>sc_addr = addr, sc_compressed = compressed, sc_vector_read = vecread, sc_scoplen = 0, sc_holdoff = h,
      sc_data = None, sc_clkfreq_hz = 100000000, sc_traces = []\<rparr>"

definition set_clkfreq_hz :: "u32 \<Rightarrow> scope \<Rightarrow> scope" where
  "set_clkfreq_hz hz s = s\<lparr>sc_clkfreq_hz := hz\<rparr>"

definition get_clkfreq_hz :: "scope \<Rightarrow> u32" where
  "get_clkfreq_hz s = sc_clkfreq_hz s"

text \<open>\<open>operator[]\<close>.\<close>

definition scope_index :: "scope \<Rightarrow> u32 \<Rightarrow> u32 res" where
  "scope_index s addr =
     (case sc_data s of
        None \<Rightarrow> Inr 0
      | Some dat \<Rightarrow> if sc_scoplen s > 0 then aget dat (unat (addr AND (sc_scoplen s - 1))) else Inr 0)"

subsection \<open>The control register\<close>

definition log_length :: "u32 \<Rightarrow> nat" where
  "log_length v = unat (drop_bit 20 v AND 0x1f)"

definition scope_ready :: "'s scopebus \<Rightarrow> scope \<Rightarrow> ('s, bool \<times> scope) prog" where
  "scope_ready bus s =
     thenS (db_readio bus (sc_addr s)) (\<lambda>v.
     let s = (if sc_scoplen s = 0
              then s\<lparr>sc_scoplen := push_bit (log_length v) 1, sc_holdoff := v AND 0xfffff\<rparr> else s)
     in retS (drop_bit 28 v AND 6 = 6, s))"

definition scoplen :: "'s scopebus \<Rightarrow> scope \<Rightarrow> ('s, int \<times> scope) prog" where
  "scoplen bus s =
     (if sc_scoplen s = 0
      then thenS (db_readio bus (sc_addr s)) (\<lambda>v.
           let s = s\<lparr>sc_holdoff := v AND 0xfffff\<rparr>;
               s = (if log_length v \<noteq> 0 then s\<lparr>sc_scoplen := push_bit (log_length v) 1\<rparr> else s)
           in retS (sint (sc_scoplen s), s))
      else retS (sint (sc_scoplen s), s))"

definition flag_line :: "string \<Rightarrow> u32 \<Rightarrow> u32 \<Rightarrow> string \<Rightarrow> string \<Rightarrow> string" where
  "flag_line label v flag yes no = label @ (if v AND flag \<noteq> 0 then yes else no) @ [CHR 0x0A]"

definition decode_control :: "'s scopebus \<Rightarrow> scope \<Rightarrow> ('s, string list) prog" where
  "decode_control bus s =
     thenS (db_readio bus (sc_addr s)) (\<lambda>v.
     retS [[CHR 0x09] @ ''CNTRL-REG:'' @ [CHR 0x09] @ ''0x'' @ str_08x v @ [CHR 0x0A],
           flag_line ([CHR 0x09] @ ''31. RESET:'' @ [CHR 0x09]) v 0x80000000 ''Ongoing'' ''Complete'',
           flag_line ([CHR 0x09] @ ''30. STOPPED:'' @ [CHR 0x09]) v 0x40000000 ''Yes'' ''No'',
           flag_line ([CHR 0x09] @ ''29. TRIGGERED:'' @ [CHR 0x09]) v 0x20000000 ''Yes'' ''No'',
           flag_line ([CHR 0x09] @ ''28. PRIMED:'' @ [CHR 0x09]) v 0x10000000 ''Yes'' ''No'',
           flag_line ([CHR 0x09] @ ''27. MANUAL:'' @ [CHR 0x09]) v 0x08000000 ''Yes'' ''No'',
           flag_line ([CHR 0x09] @ ''26. DISABLED:'' @ [CHR 0x09]) v 0x04000000 ''Yes'' ''No'',
           flag_line ([CHR 0x09] @ ''25. ZERO:'' @ [CHR 0x09]) v 0x02000000 ''Yes'' ''No'',
           [CHR 0x09] @ ''SCOPLEN:'' @ [CHR 0x09] @ str_08x (sc_scoplen s) @ '' ('' @ fmt_d (sint (sc_scoplen s)) @ '')'' @ [CHR 0x0A],
           [CHR 0x09] @ ''HOLDOFF:'' @ [CHR 0x09] @ str_08x (v AND 0xfffff) @ [CHR 0x0A],
           [CHR 0x09] @ ''TRIGLOC:'' @ [CHR 0x09] @ fmt_d (sint (sc_scoplen s - (v AND 0xfffff))) @ [CHR 0x0A]])"

subsection \<open>Reading the samples\<close>

fun read_words :: "'s scopebus \<Rightarrow> u32 \<Rightarrow> nat \<Rightarrow> ('s, u32 list) prog" where
  "read_words bus a 0 = retS []"
| "read_words bus a (Suc n) =
     thenS (db_readio bus a) (\<lambda>w. thenS (read_words bus a n) (\<lambda>ws. retS (w # ws)))"

definition rawread :: "'s scopebus \<Rightarrow> scope \<Rightarrow> ('s, scope) prog" where
  "rawread bus s =
     (if sc_data s \<noteq> None then retS s
      else thenS (scoplen bus s) (\<lambda>(n, s).
           if n \<le> 4 then retS s
           else thenS (if sc_vector_read s
                       then db_readz bus (sc_addr s + 4) (unat (sc_scoplen s))
                       else read_words bus (sc_addr s + 4) (unat (sc_scoplen s))) (\<lambda>dat.
                retS (s\<lparr>sc_data := Some dat\<rparr>))))"

text \<open>\<open>m_data[i]\<close>, where the pointer may be null.\<close>

definition sample :: "scope \<Rightarrow> nat \<Rightarrow> u32 res" where
  "sample s i = (case sc_data s of None \<Rightarrow> Inl OutOfBounds | Some dat \<Rightarrow> aget dat i)"

text \<open>A loop \<open>for(int i=0; i<(int)m_scoplen; i++)\<close> runs so often.\<close>

definition sample_count :: "scope \<Rightarrow> nat" where
  "sample_count s = nat (sint (sc_scoplen s))"

fun compressed_length :: "scope \<Rightarrow> nat \<Rightarrow> nat \<Rightarrow> u32 \<Rightarrow> u32 res" where
  "compressed_length s i 0 alen = Inr alen"
| "compressed_length s i (Suc n) alen =
     bindE (sample s i) (\<lambda>d.
     compressed_length s (i + 1) n (if d AND 0x80000000 \<noteq> 0 \<and> i \<noteq> 0 then alen + (d AND 0x7fffffff) else alen))"

definition getaddresslen :: "scope \<Rightarrow> u32 res" where
  "getaddresslen s =
     (if sc_compressed s then compressed_length s 0 (sample_count s) (sc_scoplen s) else Inr (sc_scoplen s))"

definition trigger_offset :: "scope \<Rightarrow> u32 \<Rightarrow> int" where
  "trigger_offset s alen = sint (alen - sc_holdoff s - 1)"

subsection \<open>Printing\<close>

definition pad_left :: "nat \<Rightarrow> string \<Rightarrow> string" where
  "pad_left n cs = replicate (n - length cs) (CHR '' '') @ cs"

text \<open>The compressed scope. \<open>addrv\<close> is an \<open>unsigned long\<close>, of 64 bits.\<close>

fun print_compressed :: "(u32 \<Rightarrow> string) \<Rightarrow> scope \<Rightarrow> int \<Rightarrow> nat \<Rightarrow> nat \<Rightarrow> u64 \<Rightarrow> string list res" where
  "print_compressed dec s offset i 0 addrv = Inr []"
| "print_compressed dec s offset i (Suc n) addrv =
     bindE (sample s i) (\<lambda>d.
     if drop_bit 31 d AND 1 \<noteq> 0
     then bindE (print_compressed dec s offset (i + 1) n (addrv + (ucast (d AND 0x7fffffff) + 1))) (\<lambda>rest.
          Inr (('' ** (+0x'' @ str_08x (d AND 0x7fffffff) @ '' = '' @ pad_left 8 (fmt_d (sint (d AND 0x7fffffff))) @ '')''
                @ [CHR 0x0A]) # rest))
     else bindE (print_compressed dec s offset (i + 1) n (addrv + 1)) (\<lambda>rest.
          Inr ((pad_left 10 (fmt_d (sint addrv)) @ '' '' @ str_08x d @ '': '') # dec d #
               (if sint (ucast (addrv + 1) :: u32) = offset then ['' <--- TRIGGER''] else []) @
               [[CHR 0x0A]] @ rest)))"

fun print_plain :: "(u32 \<Rightarrow> string) \<Rightarrow> scope \<Rightarrow> int \<Rightarrow> nat \<Rightarrow> nat \<Rightarrow> string list res" where
  "print_plain dec s offset i 0 = Inr []"
| "print_plain dec s offset i (Suc n) =
     bindE (sample s i) (\<lambda>d.
     bindE (if i > 0 then sample s (i - 1) else Inr d) (\<lambda>prev.
     if i > 0 \<and> d = prev \<and> int i < sint (sc_scoplen s - 1)
     then bindE (if i > 2 then sample s (i - 2) else Inr d) (\<lambda>prev2.
          bindE (print_plain dec s offset (i + 1) n) (\<lambda>rest.
          Inr ((if i > 2 \<and> d \<noteq> prev2 then ['' **** ****'' @ [CHR 0x0A]] else []) @ rest)))
     else bindE (print_plain dec s offset (i + 1) n) (\<lambda>rest.
          Inr ((pad_left 9 (fmt_d (int i)) @ '' '' @ str_08x d @ '': '') # dec d #
               (if int i = offset then ['' <--- TRIGGER''] else []) @ [[CHR 0x0A]] @ rest))))"

definition scope_print :: "'s scopebus \<Rightarrow> (u32 \<Rightarrow> string) \<Rightarrow> scope \<Rightarrow> ('s, string list \<times> scope) prog" where
  "scope_print bus dec s =
     thenS (rawread bus s) (\<lambda>s.
     thenS (liftS (getaddresslen s)) (\<lambda>alen.
     let offset = trigger_offset s alen in
     thenS (liftS (if sc_compressed s then print_compressed dec s offset 0 (sample_count s) 0
                   else print_plain dec s offset 0 (sample_count s))) (\<lambda>out.
     retS (out, s))))"

subsection \<open>Traces\<close>

text \<open>The name of the \<open>n\<close>-th trace. A \<open>char\<close> is computed modulo 256.\<close>

definition trace_key :: "nat \<Rightarrow> string" where
  "trace_key nkey =
     [CHR ''v'',
      char_of (if nkey < 26 then 97 + nkey else if nkey < 26 + 26 then 65 + nkey - 26 else 48 + nkey - 26 - 26)]"

definition register_trace :: "string \<Rightarrow> u32 \<Rightarrow> u32 \<Rightarrow> scope \<Rightarrow> scope" where
  "register_trace name nbits shift s =
     s\<lparr>sc_traces := sc_traces s @
         [\<lparr>ti_name = name, ti_key = trace_key (length (sc_traces s)), ti_nbits = nbits, ti_nshift = shift\<rparr>]\<rparr>"

text \<open>The binary digits of a value; a shift by 32 or more is undefined.\<close>

fun binary_digits :: "nat \<Rightarrow> u32 \<Rightarrow> string res" where
  "binary_digits 0 val = Inr []"
| "binary_digits (Suc k) val =
     (if k < 32
      then bindE (binary_digits k val) (\<lambda>ds.
           Inr ((if drop_bit k val AND 1 = 0 then CHR ''0'' else CHR ''1'') # ds))
      else Inl BadShift)"

definition write_binary_trace :: "int \<Rightarrow> u32 \<Rightarrow> string \<Rightarrow> string res" where
  "write_binary_trace nbits val str =
     (if nbits \<le> 1 then Inr (fmt_d (uint (val AND 1)) @ str @ [CHR 0x0A])
      else let val = (if nbits < 32 then val AND mask (nat nbits) else val)
           in bindE (binary_digits (nat nbits) val) (\<lambda>ds.
              Inr (''b'' @ ds @ '' '' @ str @ [CHR 0x0A])))"

definition write_trace :: "traceinfo \<Rightarrow> u32 \<Rightarrow> string res" where
  "write_trace info val =
     (if unat (ti_nshift info) < 32
      then write_binary_trace (sint (ti_nbits info)) (drop_bit (unat (ti_nshift info)) val) (ti_key info)
      else Inl BadShift)"

fun write_traces :: "traceinfo list \<Rightarrow> u32 \<Rightarrow> string list res" where
  "write_traces [] val = Inr []"
| "write_traces (info # infos) val =
     bindE (write_trace info val) (\<lambda>line. bindE (write_traces infos val) (\<lambda>ls. Inr (line # ls)))"

subsection \<open>The header of the waveform file\<close>

text \<open>The times in nanoseconds: of the trigger, of a sample of the compressed scope, and of the rise and the fall of
  the clock of a sample of the other one.\<close>

record vcdtimes =
  vt_zero :: "u32 \<Rightarrow> int \<Rightarrow> int"
  vt_point :: "u32 \<Rightarrow> u64 \<Rightarrow> int"
  vt_rise :: "u32 \<Rightarrow> nat \<Rightarrow> int"
  vt_fall :: "u32 \<Rightarrow> nat \<Rightarrow> int"

definition write_trace_timescale :: "string list" where
  "write_trace_timescale = [''$timescale 1ns $end'' @ [CHR 0x0A, CHR 0x0A]]"

definition write_trace_timezero :: "vcdtimes \<Rightarrow> scope \<Rightarrow> int \<Rightarrow> string list" where
  "write_trace_timezero vt s offset =
     [''$timezero '' @ fmt_d (- vt_zero vt (sc_clkfreq_hz s) offset) @ '' $end'' @ [CHR 0x0A, CHR 0x0A]]"

definition var_line :: "int \<Rightarrow> string \<Rightarrow> string" where
  "var_line nbits rest = ''  $var wire '' @ pad_left 2 (fmt_d nbits) @ '' '' @ rest @ [CHR 0x0A]"

definition trace_var :: "traceinfo \<Rightarrow> string list" where
  "trace_var info =
     [''  $var wire '' @ pad_left 2 (fmt_d (sint (ti_nbits info))) @ '' '' @ ti_key info @ '' '' @ ti_name info,
      if ti_nbits info > 0 \<and> CHR ''['' \<notin> set (ti_name info)
      then ''['' @ fmt_d (sint (ti_nbits info - 1)) @ '':0] $end'' @ [CHR 0x0A]
      else '' $end'' @ [CHR 0x0A]]"

definition write_trace_header :: "vcdtimes \<Rightarrow> string \<Rightarrow> scope \<Rightarrow> int \<Rightarrow> string list" where
  "write_trace_header vt date s offset =
     [''$version Generated by WBScope $end'' @ [CHR 0x0A], ''$date '' @ date @ [CHR 0x0A] @ '' $end'' @ [CHR 0x0A]]
     @ write_trace_timescale
     @ (if offset \<noteq> 0 then write_trace_timezero vt s offset else [])
     @ ['' $scope module WBSCOPE $end'' @ [CHR 0x0A]]
     @ (if sc_compressed s then [var_line 31 ([CHR 0x27] @ ''R _raw_data [30:0] $end'')]
        else [var_line 1 ([CHR 0x27] @ ''C clk $end''), var_line 32 ([CHR 0x27] @ ''R _raw_data [31:0] $end'')])
     @ [var_line 1 ([CHR 0x27] @ ''T _trigger $end'')]
     @ concat (map trace_var (sc_traces s))
     @ ['' $upscope $end'' @ [CHR 0x0A], ''$enddefinitions $end'' @ [CHR 0x0A]]"

subsection \<open>The waveform file\<close>

definition time_line :: "int \<Rightarrow> string" where
  "time_line t = ''#'' @ fmt_d t @ [CHR 0x0A]"

definition trigger_line :: "bool \<Rightarrow> string" where
  "trigger_line b = (if b then ''1'' else ''0'') @ [CHR 0x27] @ ''T'' @ [CHR 0x0A]"

text \<open>The names \<open>'R\<close> with the line feed that the calls pass.\<close>

abbreviation (input) raw_key :: string where
  "raw_key \<equiv> [CHR 0x27] @ ''R'' @ [CHR 0x0A]"

fun vcd_compressed :: "vcdtimes \<Rightarrow> scope \<Rightarrow> u32 \<Rightarrow> int \<Rightarrow> nat \<Rightarrow> nat \<Rightarrow> u64 \<Rightarrow> bool \<Rightarrow> string list res" where
  "vcd_compressed vt s alen offset i 0 addrv last_trigger = Inr []"
| "vcd_compressed vt s alen offset i (Suc n) addrv last_trigger =
     bindE (sample s i) (\<lambda>d.
     if drop_bit 31 d AND 1 \<noteq> 0
     then if i \<noteq> 0
          then bindE (vcd_compressed vt s alen offset (i + 1) n (addrv + (ucast (d AND 0x7fffffff) + 1)) last_trigger) (\<lambda>rest.
               Inr ((if last_trigger
                     then [time_line (vt_point vt (sc_clkfreq_hz s) (addrv + 1)), trigger_line False] else []) @ rest))
          else vcd_compressed vt s alen offset (i + 1) n addrv last_trigger
     else let triggered = (sint (ucast (addrv - ucast alen) :: u32) = offset);
              last_trigger = (last_trigger \<or> triggered)
          in bindE (write_binary_trace 31 d raw_key) (\<lambda>raw.
             bindE (write_traces (sc_traces s) d) (\<lambda>lines.
             bindE (vcd_compressed vt s alen offset (i + 1) n (addrv + 1) last_trigger) (\<lambda>rest.
             Inr (time_line (vt_point vt (sc_clkfreq_hz s) addrv) #
                  (if triggered then [trigger_line True] else if last_trigger then [trigger_line False] else []) @
                  raw # lines @ rest)))))"

fun vcd_plain :: "vcdtimes \<Rightarrow> scope \<Rightarrow> int \<Rightarrow> nat \<Rightarrow> nat \<Rightarrow> string list res" where
  "vcd_plain vt s offset i 0 = Inr []"
| "vcd_plain vt s offset i (Suc n) =
     bindE (sample s i) (\<lambda>d.
     bindE (write_binary_trace (if sc_compressed s then 31 else 32) d raw_key) (\<lambda>raw.
     bindE (write_traces (sc_traces s) d) (\<lambda>lines.
     bindE (vcd_plain vt s offset (i + 1) n) (\<lambda>rest.
     Inr (time_line (vt_rise vt (sc_clkfreq_hz s) i) # (''1'' @ [CHR 0x27] @ ''C'' @ [CHR 0x0A]) # raw #
          trigger_line (int i = offset) # lines @
          time_line (vt_fall vt (sc_clkfreq_hz s) i) # (''0'' @ [CHR 0x27] @ ''C'' @ [CHR 0x0A]) # rest)))))"

definition writevcd :: "'s scopebus \<Rightarrow> vcdtimes \<Rightarrow> string \<Rightarrow> (scope \<Rightarrow> scope) \<Rightarrow> scope \<Rightarrow> ('s, string list \<times> scope) prog" where
  "writevcd bus vt date define_traces s =
     thenS (if sc_data s = None then rawread bus s else retS s) (\<lambda>s.
     let s = (if sc_traces s = [] then define_traces s else s) in
     thenS (liftS (getaddresslen s)) (\<lambda>alen.
     let offset = trigger_offset s alen in
     thenS (liftS (if sc_compressed s then vcd_compressed vt s alen offset 0 (sample_count s) 0 True
                   else vcd_plain vt s offset 0 (sample_count s))) (\<lambda>out.
     retS (write_trace_header vt date s offset @ out, s))))"

end
