(* ===== verification/ScopeProps.thy ===== *)
theory ScopeProps
  imports Scope
begin

text \<open>
  What \<open>SCOPE\<close> promises on any bus: every access to the samples stays inside the array; a value
  written in binary digits can be read back; the names of the traces are different; and the trigger is
  marked at the right sample, unless the scope is compressed.
\<close>

subsection \<open>Binary digits\<close>

definition binary_value :: "string \<Rightarrow> u32" where
  "binary_value ds = horner_sum of_bool 2 (rev (map (\<lambda>c. c = CHR ''1'') ds))"

lemma drop_bit_and_one: "drop_bit k (v :: u32) AND 1 = 0 \<longleftrightarrow> \<not> bit v k"
proof -
  have "drop_bit k v AND 1 = (if bit v k then 1 else 0)"
  proof (rule bit_word_eqI)
    fix n show "bit (drop_bit k v AND 1) n = bit (if bit v k then 1 else 0 :: u32) n"
      by (cases "n = 0") (auto simp: bit_simps)
  qed
  then show ?thesis by simp
qed

lemma binary_digits_eq:
  "k \<le> 32 \<Longrightarrow> binary_digits k v = Inr (map (\<lambda>i. if bit v i then CHR ''1'' else CHR ''0'') (rev [0..<k]))"
  by (induction k) (simp_all add: drop_bit_and_one)

lemma binary_value_digits:
  "binary_value (map (\<lambda>i. if bit v i then CHR ''1'' else CHR ''0'') (rev [0..<k])) = take_bit k v"
proof -
  have "rev (map (\<lambda>c. c = CHR ''1'') (map (\<lambda>i. if bit v i then CHR ''1'' else CHR ''0'') (rev [0..<k]))) = map (bit v) [0..<k]"
    by (simp add: rev_map comp_def)
  then show ?thesis by (simp only: binary_value_def horner_sum_bit_eq_take_bit)
qed

lemma write_binary_trace_eq:
  assumes "2 \<le> n" "n \<le> 32"
  shows "write_binary_trace (int n) v str =
    Inr (''b'' @ map (\<lambda>i. if bit v i then CHR ''1'' else CHR ''0'') (rev [0..<n]) @ '' '' @ str @ [CHR 0x0A])"
  using assms by (cases "n < 32") (simp_all add: write_binary_trace_def binary_digits_eq bit_simps)

subsection \<open>Lines of the waveform file\<close>

text \<open>The key of a trace starts with a \<open>v\<close>, and its field lies in the word.\<close>

definition trace_ok :: "traceinfo \<Rightarrow> bool" where
  "trace_ok info \<longleftrightarrow> unat (ti_nshift info) < 32 \<and> ti_nbits info \<le> 32 \<and> (\<exists>r. ti_key info = CHR ''v'' # r)"

lemma sint_small: "unat (w :: u32) < 2 ^ 31 \<Longrightarrow> sint w = int (unat w)"
proof -
  assume w: "unat w < 2 ^ 31"
  have "sint w = sint (word_of_nat (unat w) :: u32)" by simp
  also have "\<dots> = signed_take_bit 31 (int (unat w))" by (simp only: signed_of_nat) simp
  also have "\<dots> = int (unat w)"
  proof (rule signed_take_bit_int_eq_self)
    show "int (unat w) < 2 ^ 31" using w by (simp only: of_nat_less_numeral_power_cancel_iff)
    show "- (2 ^ 31) \<le> int (unat w)" by (rule order_trans [of _ 0]) simp_all
  qed
  finally show ?thesis .
qed

lemma dec_digits_nonempty: "dec_digits n \<noteq> []"
  by (subst dec_digits.simps) simp

lemma unat_of_nat_small: "m < 2 ^ 31 \<Longrightarrow> unat (of_nat m :: u32) = m"
  by (simp add: unsigned_of_nat take_bit_nat_eq_self)

lemma fmt_d_bits: "fmt_d 0 = ''0''" "fmt_d 1 = ''1''"
proof -
  have "(char_of (48 :: nat) :: char) = CHR ''0''" "(char_of (49 :: nat) :: char) = CHR ''1''"
    by code_simp+
  then show "fmt_d 0 = ''0''" "fmt_d 1 = ''1''"
    by (simp_all add: fmt_d_def dec_digits.simps)
qed

lemma write_trace_ok:
  assumes "trace_ok info"
  obtains line where "write_trace info v = Inr line" "line \<noteq> trigger_line b"
proof -
  have n: "unat (ti_nbits info) \<le> 32" using assms by (simp add: trace_ok_def word_le_nat_alt)
  then have "sint (ti_nbits info) = int (unat (ti_nbits info))" by (simp add: sint_small)
  obtain r where r: "ti_key info = CHR ''v'' # r" using assms by (auto simp: trace_ok_def)
  let ?v = "drop_bit (unat (ti_nshift info)) v"
  show ?thesis
  proof (cases "2 \<le> unat (ti_nbits info)")
    case True
    from write_binary_trace_eq [OF True n, of ?v "ti_key info"] show ?thesis
      using that assms \<open>sint (ti_nbits info) = _\<close>
      by (simp add: write_trace_def trace_ok_def trigger_line_def)
  next
    case False
    then have "sint (ti_nbits info) \<le> 1" using \<open>sint (ti_nbits info) = int (unat (ti_nbits info))\<close> by linarith
    have "?v AND 1 = 0 \<or> ?v AND 1 = 1" by (metis and.commute and_one_eq bit_iff_odd_drop_bit mod2_eq_if)
    then have "fmt_d (uint (?v AND 1)) = ''0'' \<or> fmt_d (uint (?v AND 1)) = ''1''"
      by (auto simp: fmt_d_bits)
    then show ?thesis
      using that assms \<open>sint (ti_nbits info) \<le> 1\<close> r
      by (auto simp: write_trace_def trace_ok_def write_binary_trace_def trigger_line_def)
  qed
qed

lemma write_traces_ok:
  "list_all trace_ok infos \<Longrightarrow>
    \<exists>lines. write_traces infos v = Inr lines \<and> length lines = length infos \<and> trigger_line b \<notin> set lines"
proof (induction infos)
  case (Cons info infos)
  then obtain lines where "write_traces infos v = Inr lines" "length lines = length infos" "trigger_line b \<notin> set lines"
    by auto
  moreover obtain line where "write_trace info v = Inr line" "line \<noteq> trigger_line b"
    using write_trace_ok [of info v b] Cons.prems by auto
  ultimately show ?case by auto
qed simp

lemma other_lines:
  "time_line t \<noteq> trigger_line b" "''b'' @ x \<noteq> trigger_line b" "''1'' @ [CHR 0x27] @ ''C'' @ [CHR 0x0A] \<noteq> trigger_line b"
  "''0'' @ [CHR 0x27] @ ''C'' @ [CHR 0x0A] \<noteq> trigger_line b" "trigger_line a = trigger_line b \<longleftrightarrow> a = b"
  by (auto simp: time_line_def trigger_line_def)

subsection \<open>The uncompressed scope\<close>

text \<open>What is written for one sample, the lines of the traces apart.\<close>

definition trigger_marks :: "string list \<Rightarrow> nat" where
  "trigger_marks out = length (filter (\<lambda>l. l = trigger_line True) out)"

lemma trigger_marks_simps [simp]:
  "trigger_marks [] = 0"
  "trigger_marks (l # ls) = (if l = trigger_line True then 1 else 0) + trigger_marks ls"
  "trigger_marks (ls @ ls') = trigger_marks ls + trigger_marks ls'"
  by (simp_all add: trigger_marks_def)

lemma trigger_marks_none: "trigger_line True \<notin> set ls \<Longrightarrow> trigger_marks ls = 0"
  by (auto simp: trigger_marks_def filter_empty_conv)

text \<open>The file falls into one block per sample, that starts with the time; only that of sample \<open>offset\<close>
  marks the trigger.\<close>

definition block_of :: "vcdtimes \<Rightarrow> scope \<Rightarrow> int \<Rightarrow> nat \<Rightarrow> string list \<Rightarrow> bool" where
  "block_of vt s offset i b \<longleftrightarrow> hd b = time_line (vt_rise vt (sc_clkfreq_hz s) i) \<and>
     trigger_marks b = (if int i = offset then 1 else 0)"

lemma vcd_plain_blocks:
  assumes d: "sc_data s = Some dat" and t: "list_all trace_ok (sc_traces s)" and c: "\<not> sc_compressed s"
  shows "i + n \<le> length dat \<Longrightarrow>
    \<exists>bs. vcd_plain vt s offset i n = Inr (concat bs) \<and> length bs = n \<and>
      (\<forall>k<n. block_of vt s offset (i + k) (bs ! k))"
proof (induction n arbitrary: i)
  case (Suc n)
  obtain bs where bs: "vcd_plain vt s offset (i + 1) n = Inr (concat bs)" "length bs = n"
    "\<forall>k<n. block_of vt s offset (i + 1 + k) (bs ! k)"
    using Suc.IH [of "i + 1"] Suc.prems by auto
  obtain lines where lines: "write_traces (sc_traces s) (dat ! i) = Inr lines" "trigger_marks lines = 0"
    using write_traces_ok [OF t, of "dat ! i" True] trigger_marks_none by auto
  obtain x where raw: "write_binary_trace 32 (dat ! i) raw_key = Inr (''b'' @ x)"
    using write_binary_trace_eq [of 32 "dat ! i" raw_key] by simp
  have "sample s i = Inr (dat ! i)" using d Suc.prems by (simp add: sample_def)
  define b where "b = time_line (vt_rise vt (sc_clkfreq_hz s) i) # (''1'' @ [CHR 0x27] @ ''C'' @ [CHR 0x0A]) # (''b'' @ x) #
          trigger_line (int i = offset) # lines @
          [time_line (vt_fall vt (sc_clkfreq_hz s) i), ''0'' @ [CHR 0x27] @ ''C'' @ [CHR 0x0A]]"
  have "block_of vt s offset i b"
    using lines(2) unfolding b_def block_of_def by (simp add: time_line_def trigger_line_def)
  moreover have "vcd_plain vt s offset i (Suc n) = Inr (concat (b # bs))"
    using c raw lines(1) bs(1) \<open>sample s i = Inr (dat ! i)\<close> by (simp add: b_def)
  moreover have "\<forall>k<Suc n. block_of vt s offset (i + k) ((b # bs) ! k)"
    using bs(3) calculation(1) by (auto simp: nth_Cons split: nat.split)
  ultimately show ?case using bs(2) by (intro exI [of _ "b # bs"]) simp
qed simp

subsection \<open>The compressed scope\<close>

text \<open>A word with the high bit set stands for so many more clocks. The first word counts as one.\<close>

definition extra_steps :: "u32 \<Rightarrow> nat" where
  "extra_steps d = (if bit d 31 then unat (d AND 0x7fffffff) else 0)"

fun total_steps :: "u32 list \<Rightarrow> nat" where
  "total_steps [] = 0"
| "total_steps (d # ds) = Suc (length ds) + sum_list (map extra_steps ds)"

lemma and_ones31: "unat ((d :: u32) AND 0x7fffffff) < 2 ^ 31"
proof -
  have "(0x7fffffff :: u32) = mask 31" by (simp add: mask_eq_exp_minus_1)
  then show ?thesis using unat_and_mask_less [of 31 d] by simp
qed

lemma high_bit: "(d :: u32) AND 0x80000000 \<noteq> 0 \<longleftrightarrow> bit d 31"
  using bit_iff_and_push_bit_not_eq_0 [of d 31] by (simp add: push_bit_eq_mult)

lemma high_bit': "drop_bit 31 (d :: u32) AND 1 \<noteq> 0 \<longleftrightarrow> bit d 31"
  by (simp add: drop_bit_and_one)

lemma compressed_length_eq:
  assumes d: "sc_data s = Some dat"
  shows "0 < i \<Longrightarrow> i + n \<le> length dat \<Longrightarrow> compressed_length s i n alen =
    Inr (alen + of_nat (sum_list (map extra_steps (take n (drop i dat)))))"
proof (induction n arbitrary: i alen)
  case (Suc n)
  have "sample s i = Inr (dat ! i)" using d Suc.prems by (simp add: sample_def)
  moreover have "take (Suc n) (drop i dat) = dat ! i # take n (drop (i + 1) dat)"
    using Suc.prems by (simp add: Cons_nth_drop_Suc [symmetric])
  ultimately show ?case
    using Suc.IH [of "i + 1"] Suc.prems
    by (simp add: high_bit extra_steps_def add.assoc)
qed simp

lemma getaddresslen_compressed:
  assumes d: "sc_data s = Some (w # dat)" and c: "sc_compressed s" and n: "unat (sc_scoplen s) = length (w # dat)"
    and small: "length (w # dat) < 2 ^ 31"
  shows "getaddresslen s = Inr (of_nat (total_steps (w # dat)))"
proof -
  have count: "sample_count s = Suc (length dat)"
    using n small by (simp add: sample_count_def sint_small)
  have len: "sc_scoplen s = of_nat (length (w # dat))"
    by (simp only: n [symmetric]) simp
  from compressed_length_eq [OF d, of 1 "length dat" "sc_scoplen s"] d c show ?thesis
    by (simp add: getaddresslen_def count sample_def len)
qed

lemma ucast_word_of_int: "ucast (word_of_int k :: u64) = (word_of_int k :: u32)"
  by (simp add: unsigned_of_int word_of_int_eq_iff take_bit_take_bit)

lemma position_negative:
  fixes addrv :: u64
  assumes "unat addrv < A" "A < 2 ^ 31"
  shows "sint (ucast (addrv - ucast (of_nat A :: u32)) :: u32) < 0"
proof -
  let ?k = "int (unat addrv) - int A"
  have "(ucast (of_nat A :: u32) :: u64) = word_of_int (int A)"
    using assms(2) by (simp add: unsigned_of_nat take_bit_nat_eq_self)
  moreover have "addrv = word_of_int (int (unat addrv))" by simp
  ultimately have "addrv - ucast (of_nat A :: u32) = word_of_int ?k"
    by (metis of_int_diff)
  then have "sint (ucast (addrv - ucast (of_nat A :: u32)) :: u32) = signed_take_bit 31 ?k"
    by (simp only: ucast_word_of_int signed_of_int) simp
  also have "\<dots> = ?k"
  proof (rule signed_take_bit_int_eq_self)
    have "int (unat addrv) < int A" using assms(1) by (simp only: of_nat_less_iff)
    moreover have "int A < 2 ^ 31" using assms(2) by (simp only: of_nat_less_numeral_power_cancel_iff)
    moreover have "0 \<le> int (unat addrv)" by (rule of_nat_0_le_iff)
    ultimately show "- (2 ^ 31) \<le> ?k" "?k < 2 ^ 31" by linarith+
  qed
  finally show ?thesis using assms(1) by (simp only: diff_less_0_iff_less of_nat_less_iff)
qed

lemma vcd_compressed_no_trigger:
  assumes d: "sc_data s = Some dat" and t: "list_all trace_ok (sc_traces s)" and A: "A < 2 ^ 31" and off: "0 \<le> offset"
  shows "i + n = length dat \<Longrightarrow>
    unat addrv + n + sum_list (map extra_steps (if i = 0 then tl dat else drop i dat)) \<le> A \<Longrightarrow>
    \<exists>out. vcd_compressed vt s (of_nat A) offset i n addrv True = Inr out \<and> trigger_marks out = 0"
proof (induction n arbitrary: i addrv)
  case (Suc n)
  have i: "i < length dat" using Suc.prems(1) by simp
  have smp: "sample s i = Inr (dat ! i)" using d i by (simp add: sample_def)
  have rest: "sum_list (map extra_steps (if i = 0 then tl dat else drop i dat)) =
      (if i = 0 then 0 else extra_steps (dat ! i)) + sum_list (map extra_steps (drop (i + 1) dat))"
    using i by (cases "i = 0") (auto simp: drop_Suc Cons_nth_drop_Suc [symmetric])
  note prem = Suc.prems(2) [unfolded rest]
  have next_i: "i + 1 + n = length dat" using Suc.prems(1) by simp
  show ?case
  proof (cases "bit (dat ! i) 31")
    case True
    show ?thesis
    proof (cases "i = 0")
      case first: True
      with Suc.IH [OF next_i, of addrv] prem smp True show ?thesis by (simp add: high_bit')
    next
      case False
      let ?a = "addrv + (ucast (dat ! i AND 0x7fffffff) + 1) :: u64"
      have "unat (ucast (dat ! i AND 0x7fffffff) :: u64) = extra_steps (dat ! i)"
      proof -
        have "unat (dat ! i AND 0x7fffffff) < 2 ^ 64" using and_ones31 [of "dat ! i"] by simp
        then show ?thesis using True by (simp add: extra_steps_def unsigned_ucast_eq take_bit_nat_eq_self)
      qed
      then have "unat ?a = unat addrv + (extra_steps (dat ! i) + 1)"
        using prem False A by (simp add: unat_word_ariths)
      with Suc.IH [OF next_i, of ?a] prem False
      obtain out where "vcd_compressed vt s (of_nat A) offset (i + 1) n ?a True = Inr out" "trigger_marks out = 0"
        by auto
      then show ?thesis
        using smp True False by (simp add: high_bit' other_lines time_line_def) (simp add: trigger_line_def)
    qed
  next
    case False
    have "unat (addrv + 1) = unat addrv + 1" using prem A by (simp add: unat_word_ariths)
    with Suc.IH [OF next_i, of "addrv + 1"] prem
    obtain out where out: "vcd_compressed vt s (of_nat A) offset (i + 1) n (addrv + 1) True = Inr out" "trigger_marks out = 0"
      by auto
    obtain lines where lines: "write_traces (sc_traces s) (dat ! i) = Inr lines" "trigger_marks lines = 0"
      using write_traces_ok [OF t, of "dat ! i" True] trigger_marks_none by auto
    obtain x where raw: "write_binary_trace 31 (dat ! i) raw_key = Inr (''b'' @ x)"
      using write_binary_trace_eq [of 31 "dat ! i" raw_key] by simp
    have "sint (ucast (addrv - ucast (of_nat A :: u32)) :: u32) < 0"
      using prem A by (intro position_negative) simp_all
    then have "sint (ucast (addrv - ucast (of_nat A :: u32)) :: u32) \<noteq> offset" using off by linarith
    then show ?thesis
      using smp False lines raw out by (simp add: high_bit' Let_def other_lines) (simp add: time_line_def trigger_line_def)
  qed
qed simp

subsection \<open>The header and the samples\<close>

lemma header_no_marks: "trigger_marks (write_trace_header vt date s offset) = 0"
proof (rule trigger_marks_none)
  have "trigger_line True \<notin> set (trace_var info)" for info
    by (simp add: trace_var_def trigger_line_def)
  then show "trigger_line True \<notin> set (write_trace_header vt date s offset)"
    by (auto simp: write_trace_header_def write_trace_timescale_def write_trace_timezero_def var_line_def trigger_line_def)
qed

text \<open>The samples, once they have been read, are as many as the scope says, a power of two.\<close>

definition scope_ok :: "scope \<Rightarrow> bool" where
  "scope_ok s \<longleftrightarrow>
     (sc_scoplen s = 0 \<or> (\<exists>k<32. sc_scoplen s = push_bit k 1)) \<and>
     (\<forall>dat. sc_data s = Some dat \<longrightarrow> length dat = unat (sc_scoplen s) \<and> 4 < sint (sc_scoplen s))"

text \<open>A read of \<open>n\<close> words returns so many when it returns.\<close>

definition readz_complete :: "'s scopebus \<Rightarrow> bool" where
  "readz_complete bus \<longleftrightarrow> (\<forall>a n s ws t. db_readz bus a n s = Inr (ws, t) \<longrightarrow> length ws = n)"

lemma log_length_less: "log_length v < 32"
proof -
  have "(0x1f :: u32) = mask 5" by (simp add: mask_eq_exp_minus_1)
  then show ?thesis using unat_and_mask_less [of 5 "drop_bit 20 v :: u32"] by (simp add: log_length_def)
qed

lemma pow_log_length: "\<exists>k<32. (2 :: u32) ^ log_length v = 2 ^ k"
  using log_length_less by blast

lemma read_words_length: "read_words bus a n s = Inr (ws, t) \<Longrightarrow> length ws = n"
  by (induction n arbitrary: ws s t) (auto simp: retS_def thenS_def split: sum.splits)

lemma scoplen_ok:
  assumes "scope_ok s" "scoplen bus s u = Inr ((n, s'), t)"
  shows "scope_ok s' \<and> n = sint (sc_scoplen s') \<and> sc_data s' = sc_data s"
  using assms
  by (auto simp: scoplen_def scope_ok_def thenS_def retS_def Let_def split: if_splits sum.splits)
    (metis log_length_less)

lemma scope_ready_ok:
  assumes "scope_ok s" "scope_ready bus s u = Inr ((b, s'), t)"
  shows "scope_ok s'"
  using assms pow_log_length
  by (auto simp: scope_ready_def scope_ok_def thenS_def retS_def Let_def split: if_splits sum.splits)

lemma rawread_ok:
  assumes ok: "scope_ok s" and z: "readz_complete bus" and r: "rawread bus s u = Inr (s', t)"
  shows "scope_ok s'"
proof (cases "sc_data s")
  case (Some dat)
  then show ?thesis using r ok by (simp add: rawread_def retS_def)
next
  case None
  then obtain n s1 t1 where 1: "scoplen bus s u = Inr ((n, s1), t1)"
    using r by (auto simp: rawread_def thenS_def split: sum.splits)
  note s1 = scoplen_ok [OF ok 1]
  show ?thesis
  proof (cases "n \<le> 4")
    case True
    then show ?thesis using r None 1 s1 by (simp add: rawread_def thenS_def retS_def)
  next
    case False
    then obtain dat where dat: "(if sc_vector_read s1 then db_readz bus (sc_addr s1 + 4) (unat (sc_scoplen s1)) t1
        else read_words bus (sc_addr s1 + 4) (unat (sc_scoplen s1)) t1) = Inr (dat, t)" "s' = s1\<lparr>sc_data := Some dat\<rparr>"
      using r None 1 by (auto simp: rawread_def thenS_def retS_def split: sum.splits if_splits)
    have "length dat = unat (sc_scoplen s1)"
      using dat(1) z read_words_length unfolding readz_complete_def by (metis (full_types))
    with dat(2) show ?thesis using s1 False by (auto simp: scope_ok_def)
  qed
qed

lemma scope_index_ok:
  assumes "scope_ok s"
  shows "\<exists>w. scope_index s addr = Inr w"
proof (cases "sc_data s")
  case (Some dat)
  then have dat: "length dat = unat (sc_scoplen s)" "4 < sint (sc_scoplen s)" using assms by (simp_all add: scope_ok_def)
  then obtain k where k: "k < 32" "sc_scoplen s = 2 ^ k" using assms by (auto simp: scope_ok_def push_bit_eq_mult)
  then have "sc_scoplen s - 1 = mask k" by (simp add: mask_eq_exp_minus_1)
  then have "unat (addr AND (sc_scoplen s - 1)) < length dat"
    using k unat_and_mask_less [of k addr] by (simp add: dat unat_pow2_u32)
  then show ?thesis using Some by (simp add: scope_index_def)
qed (simp add: scope_index_def)

subsection \<open>The names of the traces\<close>

definition keys_in_order :: "scope \<Rightarrow> bool" where
  "keys_in_order s \<longleftrightarrow> map ti_key (sc_traces s) = map trace_key [0..<length (sc_traces s)]"

lemma register_trace_keys: "keys_in_order s \<Longrightarrow> keys_in_order (register_trace n b sh s)"
  by (simp add: keys_in_order_def register_trace_def)

definition key_code :: "nat \<Rightarrow> nat" where
  "key_code nkey = (if nkey < 26 then 97 + nkey else if nkey < 52 then 39 + nkey else nkey - 4)"

lemma trace_key_code: "trace_key nkey = [CHR ''v'', char_of (key_code nkey)]"
  by (simp add: trace_key_def key_code_def)

lemma trace_key_inj: "i < 69 \<Longrightarrow> j < 69 \<Longrightarrow> trace_key i = trace_key j \<Longrightarrow> i = j"
proof -
  assume ij: "i < 69" "j < 69" and "trace_key i = trace_key j"
  then have "(char_of (key_code i) :: char) = char_of (key_code j)" by (simp add: trace_key_code)
  moreover have "key_code i < 256" "key_code j < 256" using ij by (auto simp: key_code_def)
  ultimately have "key_code i = key_code j" by (metis mod_less of_char_of)
  with ij show "i = j" by (auto simp: key_code_def split: if_splits)
qed

lemma register_traces_keys:
  "keys_in_order s \<Longrightarrow> keys_in_order (fold (\<lambda>(n, b, sh). register_trace n b sh) defs s) \<and>
     length (sc_traces (fold (\<lambda>(n, b, sh). register_trace n b sh) defs s)) = length (sc_traces s) + length defs"
proof (induction defs arbitrary: s)
  case (Cons x defs)
  obtain n b sh where x: "x = (n, b, sh)" by (cases x)
  from Cons.IH [OF register_trace_keys [OF Cons.prems]] show ?case
    by (simp add: x register_trace_def)
qed simp

lemma trigger_offset_eq:
  assumes "unat alen = A" "A < 2 ^ 31" "unat (sc_holdoff s) < A"
  shows "trigger_offset s alen = int (A - unat (sc_holdoff s) - 1)"
proof -
  have "unat (alen - sc_holdoff s) = A - unat (sc_holdoff s)"
    using assms(1,3) by (simp add: unat_sub_if_size)
  then have "unat (alen - sc_holdoff s - 1) = A - unat (sc_holdoff s) - 1"
    using assms(3) by (simp add: unat_sub_if_size)
  then show ?thesis using assms(2) by (simp add: trigger_offset_def sint_small)
qed

text \<open>Up to 69 traces have different names.\<close>

lemma registered_keys_distinct:
  assumes "keys_in_order s" "length (sc_traces s) + length defs \<le> 69"
  shows "distinct (map ti_key (sc_traces (fold (\<lambda>(n, b, sh). register_trace n b sh) defs s)))"
  using register_traces_keys [OF assms(1), of defs] assms(2)
  by (auto simp: keys_in_order_def distinct_map inj_on_def intro!: trace_key_inj)

subsection \<open>A scope on a bus\<close>

text \<open>The control register says eight samples and a holdoff of two; the samples count up.\<close>

definition sim_readio :: "u32 \<Rightarrow> (nat, u32) prog" where
  "sim_readio a n = (if a = 0x100 then Inr (0x60300002, n) else Inr (of_nat n, Suc n))"

definition sim_word_bus :: "nat scopebus" where
  "sim_word_bus =
     \<lparr>db_writeio = \<lambda>_ _ n. Inr ((), n), db_readio = sim_readio, db_readi = \<lambda>_ _ n. Inr ([], n), db_writei = \<lambda>_ _ n. Inr ((), n),
      db_readz = \<lambda>_ _ n. Inr ([], n)\<rparr>"

definition sim_bus :: "nat scopebus" where
  "sim_bus = sim_word_bus\<lparr>db_readz := read_words sim_word_bus\<rparr>"

definition sim_scope :: "bool \<Rightarrow> u32 list \<Rightarrow> u32 \<Rightarrow> scope" where
  "sim_scope c dat h = (register_trace ''ack'' 1 3 (scope_new h 0x100 c True))
     \<lparr>sc_data := Some dat, sc_scoplen := of_nat (length dat)\<rparr>"

definition sim_times :: vcdtimes where
  "sim_times = \<lparr>vt_zero = \<lambda>_ n. 10 * n, vt_point = \<lambda>_ n. 10 * uint n, vt_rise = \<lambda>_ n. 10 * int n, vt_fall = \<lambda>_ n. 10 * int n + 5\<rparr>"

lemma sim_scope:
  "sc_data (sim_scope c dat h) = Some dat" "sc_compressed (sim_scope c dat h) = c" "sc_holdoff (sim_scope c dat h) = h"
  "sc_scoplen (sim_scope c dat h) = of_nat (length dat)" "sc_traces (sim_scope c dat h) \<noteq> []"
  "list_all trace_ok (sc_traces (sim_scope c dat h))"
  by (simp_all add: sim_scope_def scope_new_def register_trace_def trace_key_def trace_ok_def)

subsection \<open>The properties\<close>

text \<open>A value of two to 32 bits is written as its binary digits, the highest first: reading them back
  gives the value cut to the width.\<close>

theorem binary_trace_round_trip:
  assumes "2 \<le> n" "n \<le> 32"
  shows "\<exists>ds. write_binary_trace (int n) v str = Inr (''b'' @ ds @ '' '' @ str @ [CHR 0x0A]) \<and>
    length ds = n \<and> set ds \<subseteq> {CHR ''0'', CHR ''1''} \<and> binary_value ds = take_bit n v"
  unfolding write_binary_trace_eq [OF assms]
  by (intro exI conjI, rule refl) (auto simp: binary_value_digits)

theorem binary_trace_round_trip_witness:
  "(2 :: nat) \<le> 4 \<and> (\<exists>ds. write_binary_trace (int 4) 0x1a ''va'' = Inr (''b'' @ ds @ '' '' @ ''va'' @ [CHR 0x0A]) \<and>
     binary_value ds = 0xa)"
proof
  have "take_bit 4 (0x1a :: u32) = 0xa" by simp
  then show "\<exists>ds. write_binary_trace (int 4) 0x1a ''va'' = Inr (''b'' @ ds @ '' '' @ ''va'' @ [CHR 0x0A]) \<and>
     binary_value ds = 0xa"
    using binary_trace_round_trip [of 4 "0x1a" "''va''"] by auto
qed simp

text \<open>C40. In the file of an uncompressed scope each sample has its block, that starts with its time, and the
  trigger is marked in exactly one, that of the sample that the holdoff tells.\<close>

theorem vcd_marks_trigger:
  assumes "sc_data s = Some dat" "length dat = unat (sc_scoplen s)" "length dat < 2 ^ 31"
    and "list_all trace_ok (sc_traces s)" "sc_traces s \<noteq> []" "\<not> sc_compressed s"
    and "unat (sc_holdoff s) < length dat"
  shows "\<exists>bs. writevcd bus vt date dt s u =
      Inr ((write_trace_header vt date s (int (length dat - unat (sc_holdoff s) - 1)) @ concat bs, s), u) \<and>
    length bs = length dat \<and>
    (\<forall>k<length dat. hd (bs ! k) = time_line (vt_rise vt (sc_clkfreq_hz s) k) \<and>
       trigger_marks (bs ! k) = (if k = length dat - unat (sc_holdoff s) - 1 then 1 else 0))"
proof -
  let ?off = "int (length dat - unat (sc_holdoff s) - 1)"
  have off: "trigger_offset s (sc_scoplen s) = ?off"
    using assms(2,3,7) by (intro trigger_offset_eq) simp_all
  have count: "sample_count s = length dat"
    using assms(2,3) by (simp add: sample_count_def sint_small)
  obtain bs where bs: "vcd_plain vt s ?off 0 (length dat) = Inr (concat bs)" "length bs = length dat"
    "\<forall>k<length dat. block_of vt s ?off (0 + k) (bs ! k)"
    using vcd_plain_blocks [OF assms(1,4,6), of 0 "length dat" vt ?off] by auto
  have "writevcd bus vt date dt s u = Inr ((write_trace_header vt date s ?off @ concat bs, s), u)"
    using assms(1,5,6) bs(1) by (simp add: writevcd_def getaddresslen_def off count liftS_Inr)
      (simp add: retS_def)
  with bs show ?thesis by (intro exI [of _ bs]) (auto simp: block_of_def)
qed

theorem vcd_marks_trigger_witness:
  "unat (sc_scoplen (sim_scope False [8, 0, 8, 0] 1)) = 4 \<and>
   (\<exists>out bs. writevcd sim_bus sim_times [] id (sim_scope False [8, 0, 8, 0] 1) 0 =
       Inr ((out @ concat bs, sim_scope False [8, 0, 8, 0] 1), 0) \<and>
     trigger_marks (bs ! 2) = 1 \<and> trigger_marks (bs ! 3) = 0)"
proof
  let ?s = "sim_scope False [8, 0, 8, 0] 1"
  show n: "unat (sc_scoplen ?s) = 4" by (simp add: sim_scope)
  have "length [8, 0, 8, 0 :: u32] = unat (sc_scoplen ?s)" "length [8, 0, 8, 0 :: u32] < 2 ^ 31" "\<not> sc_compressed ?s"
    "unat (sc_holdoff ?s) < length [8, 0, 8, 0 :: u32]"
    by (simp_all add: sim_scope)
  from vcd_marks_trigger [OF sim_scope(1) this(1,2) sim_scope(6,5) this(3,4), of sim_bus sim_times "[]" id 0]
  obtain bs where bs: "writevcd sim_bus sim_times [] id ?s 0 =
      Inr ((write_trace_header sim_times [] ?s (int (length [8, 0, 8, 0 :: u32] - unat (sc_holdoff ?s) - 1)) @ concat bs, ?s), 0)"
    "\<forall>k<4. trigger_marks (bs ! k) = (if k = 2 then 1 else 0)"
    by (auto simp: sim_scope)
  show "\<exists>out bs. writevcd sim_bus sim_times [] id ?s 0 = Inr ((out @ concat bs, ?s), 0) \<and>
     trigger_marks (bs ! 2) = 1 \<and> trigger_marks (bs ! 3) = 0"
    by (intro exI conjI, rule bs(1)) (use bs(2) in simp_all)
qed

text \<open>In the file of a compressed scope the trigger is never marked: the position is compared after the
  length has been taken from it, and so is negative.\<close>

theorem compressed_vcd_has_no_trigger:
  assumes "sc_data s = Some (w # dat)" "unat (sc_scoplen s) = length (w # dat)"
    and "list_all trace_ok (sc_traces s)" "sc_traces s \<noteq> []" "sc_compressed s"
    and "total_steps (w # dat) < 2 ^ 31" "unat (sc_holdoff s) < total_steps (w # dat)"
  shows "\<exists>out. writevcd bus vt date dt s u = Inr ((out, s), u) \<and> trigger_marks out = 0"
proof -
  let ?A = "total_steps (w # dat)"
  have len: "length (w # dat) < 2 ^ 31" using assms(6) by simp
  have off: "trigger_offset s (of_nat ?A) = int (?A - unat (sc_holdoff s) - 1)"
    by (rule trigger_offset_eq [OF unat_of_nat_small [OF assms(6)] assms(6,7)])
  have count: "sample_count s = length (w # dat)"
    using assms(2) len by (simp add: sample_count_def sint_small)
  obtain out where "vcd_compressed vt s (of_nat ?A) (trigger_offset s (of_nat ?A)) 0 (length (w # dat)) 0 True = Inr out"
    "trigger_marks out = 0"
    using vcd_compressed_no_trigger [OF assms(1,3,6), of "trigger_offset s (of_nat ?A)" 0 "length (w # dat)" 0] off by auto
  moreover note getaddresslen_compressed [OF assms(1,5,2) len]
  ultimately show ?thesis
    using assms(1,4,5) header_no_marks
    by (simp add: writevcd_def count liftS_Inr del: total_steps.simps vcd_compressed.simps) (simp add: retS_def)
qed

theorem compressed_vcd_has_no_trigger_witness:
  "total_steps [8, 0, 0x80000005, 8] = 9 \<and>
   (\<exists>out. writevcd sim_bus sim_times [] id (sim_scope True [8, 0, 0x80000005, 8] 1) 0 =
       Inr ((out, sim_scope True [8, 0, 0x80000005, 8] 1), 0) \<and> trigger_marks out = 0)"
proof
  let ?s = "sim_scope True [8, 0, 0x80000005, 8] 1"
  have "extra_steps 8 = 0" "extra_steps 0 = 0" "extra_steps 0x80000005 = 5"
    by (simp_all add: extra_steps_def)
  then show n: "total_steps [8, 0, 0x80000005, 8] = 9" by simp
  have "unat (sc_scoplen ?s) = length [8, 0, 0x80000005, 8 :: u32]" "sc_compressed ?s"
    "total_steps [8, 0, 0x80000005, 8] < 2 ^ 31" "unat (sc_holdoff ?s) < total_steps [8, 0, 0x80000005, 8]"
    unfolding n by (simp_all add: sim_scope)
  from compressed_vcd_has_no_trigger [OF sim_scope(1) this(1) sim_scope(6,5) this(2-4), of sim_bus sim_times "[]" id 0]
  show "\<exists>out. writevcd sim_bus sim_times [] id ?s 0 = Inr ((out, ?s), 0) \<and> trigger_marks out = 0" .
qed

text \<open>A scope that reports two or four samples is taken for none, and printing it reads through the null
  pointer.\<close>

lemma print_without_samples:
  assumes "sc_data s = None" "\<not> sc_compressed s" "sc_scoplen s = 0"
    and "db_readio bus (sc_addr s) u = Inr (v, t)" "log_length v = 1 \<or> log_length v = 2"
  shows "scope_print bus dec s u = Inl (OutOfBounds, t)"
proof -
  have "push_bit (log_length v) (1 :: u32) = 2 \<or> push_bit (log_length v) (1 :: u32) = 4" "log_length v \<noteq> 0"
    using assms(5) by (auto simp: push_bit_eq_mult)
  then show ?thesis
    using assms(1-4)
    by (auto simp: scope_print_def rawread_def scoplen_def thenS_def retS_def Let_def liftS_def getaddresslen_def
        sample_count_def numeral_eq_Suc sample_def)
qed

end
