(* ===== verification/ScopeHex.thy ===== *)
theory ScopeHex
  imports ScopeProps HexProps
begin

text \<open>
  \<open>SCOPE\<close> on the debugging bus that the host uses: the two ways of reading the samples, over
  \<open>HEXBUS\<close> and a link with a peer that answers.
\<close>

subsection \<open>\<open>HEXBUS\<close> as the bus of the scope\<close>

definition hex_scopebus :: "nat \<Rightarrow> 'k os \<Rightarrow> 'k hbw scopebus" where
  "hex_scopebus fuel os =
     \<lparr>db_writeio = hexbus_writeio fuel os, db_readio = hexbus_readio fuel os,
      db_readi = \<lambda>a n. hexbus_readi fuel os a (int n),
      db_writei = \<lambda>a ws. hexbus_writei fuel os a (int (length ws)) ws,
      db_readz = \<lambda>a n. hexbus_readz fuel os a (int n)\<rparr>"

text \<open>The commands: an address that does not move, and the reads.\<close>

definition fixed_address :: "u32 \<Rightarrow> u8 list" where
  "fixed_address a = HEXB_ADDR # fmt_08x (a OR 1)"

definition read_cmds :: "nat \<Rightarrow> u8 list" where
  "read_cmds n = concat (replicate n [HEXB_READ, 10])"

text \<open>Answers with one white space character behind the word, so that nothing is left over.\<close>

definition tidy :: "read_reply list \<Rightarrow> bool" where
  "tidy rs \<longleftrightarrow> list_all (\<lambda>(as, w, sp). length sp = 1) rs"

definition words_of :: "read_reply list \<Rightarrow> u32 list" where
  "words_of rs = map (\<lambda>(as, w, sp). w) rs"

lemma tidy_end: "tidy rs \<Longrightarrow> rs \<noteq> [] \<Longrightarrow> tl (snd (snd (last rs))) = []"
  by (induction rs) (auto simp: tidy_def length_Suc_conv)

lemma odd_address: "\<not> bit a 0 \<Longrightarrow> a \<noteq> a OR (1 :: u32)"
proof
  assume "\<not> bit a 0" and eq: "a = a OR 1"
  moreover have "bit (a OR 1) 0" by (simp add: bit_or_iff)
  ultimately show False using eq by metis
qed

text \<open>A fixed address is sent with every call when the address is even: the object keeps it without its mark.\<close>

lemma wp_fixed_read:
  assumes "scripted_link os fd arrived sent reply script"
    and "hb_ready fd arrived sent script v [] out (map read_reply_bytes rs @ scr) u"
    and "rs \<noteq> []" "read_replies a False rs" "tidy rs"
    and "length (concat (map read_reply_bytes rs)) \<le> fuel"
  shows "wp (hexbus_readv fuel os a False (int (length rs)))
    (\<lambda>ws t. ws = words_of rs \<and> (\<exists>v'. hb_lastaddr v' = a \<and>
       hb_ready fd arrived sent script v' [] (out @ address_cmd v (a OR 1) @ read_cmds (length rs)) scr t))
    (\<lambda>_ _. False) u"
proof -
  have "sum_list (map rw_cost ([] @ fst (hd rs))) < 3" using assms(3,4) by (cases rs) auto
  from scripted_link.readv_returns [OF assms(1), of v "[]" out rs scr u a False fuel] assms(2-4,6) this
  have w: "wp (hexbus_readv fuel os a False (int (length rs)))
      (\<lambda>ws s'. ws = map (\<lambda>(as, w, sp). w) rs \<and> hb_ready fd arrived sent script
         (v\<lparr>hb_lastaddr := if False then a + 4 * of_nat (length rs) else a,
            hb_addr_set := True, hb_inc := False,
            hb_interrupt_flag := hb_interrupt_flag v \<or> AnsInt \<in> set [] \<or> interrupts_in rs\<rparr>)
         (tl (snd (snd (last rs))))
         (out @ address_cmd v (a OR (if False then 0 else 1))
            @ concat (replicate (length rs) [HEXB_READ, 10])) scr s')
      (\<lambda>_ _. False) u" by simp
  show ?thesis
  proof (rule wp_mono [OF w])
    fix ws t
    let ?v = "v\<lparr>hb_lastaddr := a, hb_addr_set := True, hb_inc := False,
            hb_interrupt_flag := hb_interrupt_flag v \<or> AnsInt \<in> set [] \<or> interrupts_in rs\<rparr>"
    assume "ws = map (\<lambda>(as, w, sp). w) rs \<and> hb_ready fd arrived sent script
         (v\<lparr>hb_lastaddr := if False then a + 4 * of_nat (length rs) else a,
            hb_addr_set := True, hb_inc := False,
            hb_interrupt_flag := hb_interrupt_flag v \<or> AnsInt \<in> set [] \<or> interrupts_in rs\<rparr>)
         (tl (snd (snd (last rs))))
         (out @ address_cmd v (a OR (if False then 0 else 1))
            @ concat (replicate (length rs) [HEXB_READ, 10])) scr t"
    then have "ws = words_of rs" "hb_ready fd arrived sent script ?v []
        (out @ address_cmd v (a OR 1) @ read_cmds (length rs)) scr t"
      unfolding tidy_end [OF assms(5,3)] by (simp_all add: words_of_def read_cmds_def)
    then show "ws = words_of rs \<and> (\<exists>v'. hb_lastaddr v' = a \<and>
       hb_ready fd arrived sent script v' [] (out @ address_cmd v (a OR 1) @ read_cmds (length rs)) scr t)"
      by (intro conjI exI [of _ ?v]) simp_all
  qed
qed

lemma ready_lastaddr: "hb_ready fd arrived sent script v inp out scr (h, c, k) \<Longrightarrow> hb_lastaddr h = hb_lastaddr v"
  by (auto simp: hb_ready_def hb_view_def)

lemma wp_readio_word:
  assumes "scripted_link os fd arrived sent reply script"
    and "hb_ready fd arrived sent script v [] out (map read_reply_bytes (r # rs) @ scr) u"
    and "read_replies a False [r]" "tidy [r]" "length (read_reply_bytes r) \<le> fuel"
  shows "wp (hexbus_readio fuel os a)
    (\<lambda>w t. [w] = words_of [r] \<and> (\<exists>v'. hb_lastaddr v' = a \<and>
       hb_ready fd arrived sent script v' [] (out @ address_cmd v (a OR 1) @ read_cmds 1) (map read_reply_bytes rs @ scr) t))
    (\<lambda>_ _. False) u"
proof -
  have "wp (hexbus_readv fuel os a False 1)
    (\<lambda>ws t. ws = words_of [r] \<and> (\<exists>v'. hb_lastaddr v' = a \<and>
       hb_ready fd arrived sent script v' [] (out @ address_cmd v (a OR 1) @ read_cmds 1) (map read_reply_bytes rs @ scr) t))
    (\<lambda>_ _. False) u"
    using wp_fixed_read [OF assms(1), of v out "[r]" "map read_reply_bytes rs @ scr" u a fuel] assms(2-5) by simp
  then show ?thesis
    unfolding hexbus_readio_def wp_thenS wp_catchS
    by (rule wp_mono) (auto simp: wp_simps hb_get_def getS_def words_of_def dest: ready_lastaddr)
qed

lemma resent: "hb_lastaddr v = b \<Longrightarrow> b \<noteq> a OR 1 \<Longrightarrow> address_cmd v (a OR 1) = fixed_address a"
  by (auto simp: address_cmd_def fixed_address_def)

lemma wp_read_words_hex:
  assumes link: "scripted_link os fd arrived sent reply script" and even: "\<not> bit a 0"
  shows "hb_ready fd arrived sent script v [] out (map read_reply_bytes rs @ scr) u \<Longrightarrow>
    hb_lastaddr v \<noteq> a OR 1 \<Longrightarrow> read_replies a False rs \<Longrightarrow> tidy rs \<Longrightarrow>
    length (concat (map read_reply_bytes rs)) \<le> fuel \<Longrightarrow>
    wp (read_words (hex_scopebus fuel os) a (length rs))
      (\<lambda>ws t. ws = words_of rs \<and> (\<exists>v'. hb_ready fd arrived sent script v' []
         (out @ concat (replicate (length rs) (fixed_address a @ read_cmds 1))) scr t))
      (\<lambda>_ _. False) u"
proof (induction rs arbitrary: v out u)
  case Nil
  then show ?case by (auto simp: wp_simps words_of_def)
next
  case (Cons r rs)
  let ?out = "out @ fixed_address a @ read_cmds 1"
  from Cons.prems(3-5) have r: "read_replies a False [r]" "tidy [r]" "length (read_reply_bytes r) \<le> fuel"
    and rs: "read_replies a False rs" "tidy rs" "length (concat (map read_reply_bytes rs)) \<le> fuel"
    by (cases r; auto simp: tidy_def)+
  have ready: "hb_ready fd arrived sent script v [] out (map read_reply_bytes (r # rs) @ scr) u"
    using Cons.prems(1) .
  note first = wp_readio_word [OF link ready r, unfolded resent [OF refl Cons.prems(2)]]
  have rest: "wp (read_words (hex_scopebus fuel os) a (length rs))
      (\<lambda>ws t. ws = words_of rs \<and> (\<exists>v'. hb_ready fd arrived sent script v' []
         (?out @ concat (replicate (length rs) (fixed_address a @ read_cmds 1))) scr t))
      (\<lambda>_ _. False) t"
    if "hb_lastaddr v' = a" "hb_ready fd arrived sent script v' [] ?out (map read_reply_bytes rs @ scr) t" for v' t
    using Cons.IH [OF that(2) _ rs] odd_address [OF even] that(1) by simp
  have eq: "read_words (hex_scopebus fuel os) a (length (r # rs)) =
      thenS (hexbus_readio fuel os a) (\<lambda>w. thenS (read_words (hex_scopebus fuel os) a (length rs)) (\<lambda>ws. retS (w # ws)))"
    by (simp add: hex_scopebus_def)
  show ?case
    unfolding eq wp_thenS
  proof (rule wp_mono [OF first])
    fix w t
    assume w: "[w] = words_of [r] \<and> (\<exists>v'. hb_lastaddr v' = a \<and>
       hb_ready fd arrived sent script v' [] ?out (map read_reply_bytes rs @ scr) t)"
    then obtain v' where "hb_lastaddr v' = a" "hb_ready fd arrived sent script v' [] ?out (map read_reply_bytes rs @ scr) t"
      by blast
    note more = rest [OF this]
    have "words_of (r # rs) = w # words_of rs" using w by (simp add: words_of_def)
    then show "wp (read_words (hex_scopebus fuel os) a (length rs))
        (\<lambda>ws. wp (retS (w # ws)) (\<lambda>ws t. ws = words_of (r # rs) \<and> (\<exists>v'. hb_ready fd arrived sent script v' []
           (out @ concat (replicate (length (r # rs)) (fixed_address a @ read_cmds 1))) scr t)) (\<lambda>_ _. False))
        (\<lambda>_ _. False) t"
      by (intro wp_mono [OF more]) (simp_all add: wp_retS)
  qed simp
qed

subsection \<open>Reading the scope\<close>

text \<open>The commands of the two ways: the address once, or with every word.\<close>

definition sample_cmds :: "bool \<Rightarrow> u32 \<Rightarrow> nat \<Rightarrow> u8 list" where
  "sample_cmds vec a n =
     (if vec then fixed_address a @ read_cmds n else concat (replicate n (fixed_address a @ read_cmds 1)))"

lemma wp_samples:
  assumes "scripted_link os fd arrived sent reply script" "\<not> bit a 0"
    and "hb_ready fd arrived sent script v [] out (map read_reply_bytes rs @ scr) u" "hb_lastaddr v \<noteq> a OR 1"
    and "rs \<noteq> []" "read_replies a False rs" "tidy rs" "length (concat (map read_reply_bytes rs)) \<le> fuel"
  shows "wp (if vec then db_readz (hex_scopebus fuel os) a (length rs) else read_words (hex_scopebus fuel os) a (length rs))
    (\<lambda>ws t. ws = words_of rs \<and>
       (\<exists>v'. hb_ready fd arrived sent script v' [] (out @ sample_cmds vec a (length rs)) scr t))
    (\<lambda>_ _. False) u"
proof (cases vec)
  case True
  have "db_readz (hex_scopebus fuel os) a (length rs) = hexbus_readv fuel os a False (int (length rs))"
    by (simp add: hex_scopebus_def hexbus_readz_def)
  with True wp_fixed_read [OF assms(1,3,5-8)] show ?thesis
    unfolding resent [OF refl assms(4)] by (auto simp: sample_cmds_def intro: wp_mono)
next
  case False
  with wp_read_words_hex [OF assms(1,2,3,4,6-8)] show ?thesis by (simp add: sample_cmds_def)
qed

lemma scope_index_word:
  assumes "sc_data s = Some dat" "sc_scoplen s = 2 ^ k" "k < 32" "length dat = 2 ^ k"
  shows "scope_index s addr = Inr (dat ! (unat addr mod 2 ^ k))"
proof -
  have "2 ^ k - 1 = (mask k :: u32)" by (simp add: mask_eq_exp_minus_1)
  then have "unat (addr AND (sc_scoplen s - 1)) = unat addr mod 2 ^ k"
    unfolding assms(2) by (simp only: take_bit_eq_mask [symmetric] unsigned_take_bit_eq) (simp add: take_bit_eq_mod)
  moreover have "0 < sc_scoplen s" using assms(3) unfolding assms(2) by (simp add: word_less_nat_alt unat_pow2_u32)
  ultimately show ?thesis using assms(1,4) by (simp add: scope_index_def)
qed

lemma sint_pow2: "lg \<le> 30 \<Longrightarrow> sint (2 ^ lg :: u32) = 2 ^ lg"
  using sint_small [of "2 ^ lg"] power_strict_increasing [of lg 31 "2::nat"] by (simp add: unat_pow2_u32)

text \<open>C39. Over \<open>HEXBUS\<close> and a peer that answers, a scope that has not been read yet takes its length and its holdoff
  from the answer to the read of its control register and as many samples as the length says from the answers
  that follow, whether it reads them in one go or word by word: the two ways leave the same scope, and differ in
  the commands only, that give the address once or with every word. Every index is in range then and
  gives the sample there, going around at the end.\<close>

theorem rawread_over_hexbus:
  assumes "scripted_link os fd arrived sent reply script"
    and "hb_ready fd arrived sent script v [] out (map read_reply_bytes (r0 # rs) @ scr) u"
    and "read_replies (sc_addr s) False [r0]" "read_replies (sc_addr s + 4) False rs" "tidy (r0 # rs)"
    and "length (concat (map read_reply_bytes (r0 # rs))) \<le> fuel"
    and "sc_data s = None" "sc_scoplen s = 0" "sc_addr s AND 3 = 0"
    and "words_of [r0] = [ctl]" "2 < log_length ctl" "log_length ctl \<le> 30" "length rs = 2 ^ log_length ctl"
  shows "wp (rawread (hex_scopebus fuel os) s)
    (\<lambda>s' u'. s' = s\<lparr>sc_scoplen := 2 ^ log_length ctl, sc_holdoff := ctl AND 0xfffff, sc_data := Some (words_of rs)\<rparr> \<and>
       (\<forall>addr. scope_index s' addr = Inr (words_of rs ! (unat addr mod length rs))) \<and>
       (\<exists>v'. hb_ready fd arrived sent script v' [] (out @ address_cmd v (sc_addr s OR 1) @ read_cmds 1 @
          sample_cmds (sc_vector_read s) (sc_addr s + 4) (length rs)) scr u'))
    (\<lambda>_ _. False) u"
proof -
  let ?a = "sc_addr s" and ?d = "sc_addr s + 4" and ?lg = "log_length ctl"
  let ?s = "s\<lparr>sc_scoplen := 2 ^ ?lg, sc_holdoff := ctl AND 0xfffff\<rparr>"
  have "bit (?a AND 3) 0 \<longleftrightarrow> bit ?a 0" by (simp add: bit_and_iff)
  then have even: "\<not> bit ?a 0" "\<not> bit ?d 0" unfolding assms(9) by (simp_all add: bit_0)
  have "bit (?d OR 1) 0" by (simp add: bit_or_iff)
  with even(1) have other: "?a \<noteq> ?d OR 1" by metis
  have n: "unat (2 ^ ?lg :: u32) = length rs" using assms(12,13) by (simp add: unat_pow2_u32)
  have ne: "rs \<noteq> []" using assms(13) by auto
  have r0: "tidy [r0]" "tidy rs" "length (read_reply_bytes r0) \<le> fuel" "length (concat (map read_reply_bytes rs)) \<le> fuel"
    using assms(5,6) by (simp_all add: tidy_def)
  let ?out = "out @ address_cmd v (?a OR 1) @ read_cmds 1"
  have control: "wp (scoplen (hex_scopebus fuel os) s)
      (\<lambda>(len, s') t. len = 2 ^ ?lg \<and> s' = ?s \<and> (\<exists>v'. hb_lastaddr v' = ?a \<and>
         hb_ready fd arrived sent script v' [] ?out (map read_reply_bytes rs @ scr) t))
      (\<lambda>_ _. False) u"
  proof -
    have "db_readio (hex_scopebus fuel os) ?a = hexbus_readio fuel os ?a" by (simp add: hex_scopebus_def)
    moreover have "push_bit ?lg (1 :: u32) = 2 ^ ?lg" by (simp add: push_bit_eq_mult)
    moreover have "[w] = words_of [r0] \<longleftrightarrow> w = ctl" for w using assms(10) by auto
    ultimately show ?thesis
      using assms(8,11) sint_pow2 [OF assms(12)] wp_readio_word [OF assms(1,2,3) r0(1,3)]
      by (simp add: scoplen_def wp_thenS Let_def) (erule wp_mono; auto simp: wp_simps)
  qed
  have index: "scope_index (?s\<lparr>sc_data := Some (words_of rs)\<rparr>) addr = Inr (words_of rs ! (unat addr mod length rs))" for addr
    using assms(12,13) by (intro scope_index_word [where k = "?lg", folded assms(13)]) (simp_all add: words_of_def)
  have "(2::int) ^ 3 \<le> 2 ^ ?lg" using assms(11) by (intro power_increasing) simp_all
  then have long: "\<not> (2 ^ ?lg :: int) \<le> 4" by simp
  have samples: "wp (if sc_vector_read s then db_readz (hex_scopebus fuel os) ?d (length rs)
        else read_words (hex_scopebus fuel os) ?d (length rs))
      (\<lambda>ws t. ws = words_of rs \<and> (\<exists>v'. hb_ready fd arrived sent script v' []
         (?out @ sample_cmds (sc_vector_read s) ?d (length rs)) scr t))
      (\<lambda>_ _. False) t"
    if "hb_lastaddr v' = ?a" "hb_ready fd arrived sent script v' [] ?out (map read_reply_bytes rs @ scr) t" for v' t
    using wp_samples [OF assms(1) even(2) that(2) _ ne assms(4) r0(2,4)] that(1) other by simp
  have raw: "rawread (hex_scopebus fuel os) s = thenS (scoplen (hex_scopebus fuel os) s) (\<lambda>(n, s).
      if n \<le> 4 then retS s
      else thenS (if sc_vector_read s then db_readz (hex_scopebus fuel os) (sc_addr s + 4) (unat (sc_scoplen s))
          else read_words (hex_scopebus fuel os) (sc_addr s + 4) (unat (sc_scoplen s)))
        (\<lambda>dat. retS (s\<lparr>sc_data := Some dat\<rparr>)))"
    using assms(7) by (simp add: rawread_def)
  show ?thesis
    unfolding raw wp_thenS
  proof (rule wp_mono [OF control], goal_cases)
    case (1 r t)
    obtain len s' where r: "r = (len, s')" by (cases r)
    from 1
    obtain v' where len: "len = 2 ^ ?lg" "s' = ?s" and v': "hb_lastaddr v' = ?a"
      "hb_ready fd arrived sent script v' [] ?out (map read_reply_bytes rs @ scr) t" by (auto simp: r)
    let ?read = "if sc_vector_read s then db_readz (hex_scopebus fuel os) ?d (length rs)
        else read_words (hex_scopebus fuel os) ?d (length rs)"
    have step: "(case r of (n, s) \<Rightarrow> if n \<le> 4 then retS s
        else thenS (if sc_vector_read s then db_readz (hex_scopebus fuel os) (sc_addr s + 4) (unat (sc_scoplen s))
            else read_words (hex_scopebus fuel os) (sc_addr s + 4) (unat (sc_scoplen s)))
          (\<lambda>dat. retS (s\<lparr>sc_data := Some dat\<rparr>))) = thenS ?read (\<lambda>dat. retS (?s\<lparr>sc_data := Some dat\<rparr>))"
      using long by (simp add: r len n)
    show ?case
      unfolding step wp_thenS
    proof (rule wp_mono [OF samples [OF v']])
      fix ws t
      assume "ws = words_of rs \<and> (\<exists>v'. hb_ready fd arrived sent script v' []
         (?out @ sample_cmds (sc_vector_read s) ?d (length rs)) scr t)"
      with index show "wp (retS (?s\<lparr>sc_data := Some ws\<rparr>))
        (\<lambda>s' u'. s' = s\<lparr>sc_scoplen := 2 ^ ?lg, sc_holdoff := ctl AND 0xfffff, sc_data := Some (words_of rs)\<rparr> \<and>
           (\<forall>addr. scope_index s' addr = Inr (words_of rs ! (unat addr mod length rs))) \<and>
           (\<exists>v'. hb_ready fd arrived sent script v' [] (out @ address_cmd v (?a OR 1) @ read_cmds 1 @
              sample_cmds (sc_vector_read s) ?d (length rs)) scr u'))
        (\<lambda>_ _. False) t"
        unfolding wp_retS by (simp only: append_assoc) simp
    qed simp
  qed simp
qed

subsection \<open>Witness\<close>

text \<open>A scope of eight samples with a holdoff of two.\<close>

definition scope_replies :: "read_reply list" where
  "scope_replies = map (\<lambda>w. ([], w, [10])) [0x60300002, 7, 8, 9, 10, 11, 12, 13, 14]"

theorem rawread_over_hexbus_witness:
  "wp (rawread (hex_scopebus 1000 sock_os) (scope_new 0 0x100 False True))
     (\<lambda>s' u'. sc_data s' = Some [7, 8, 9, 10, 11, 12, 13, 14] \<and> sc_holdoff s' = 2 \<and> scope_index s' 9 = Inr 8)
     (\<lambda>_ _. False) (example_state (map read_reply_bytes scope_replies))
   \<and> wp (rawread (hex_scopebus 1000 sock_os) (scope_new 0 0x100 False False))
     (\<lambda>s' u'. sc_data s' = Some [7, 8, 9, 10, 11, 12, 13, 14] \<and> sc_holdoff s' = 2 \<and> scope_index s' 9 = Inr 8)
     (\<lambda>_ _. False) (example_state (map read_reply_bytes scope_replies))"
proof -
  let ?rs = "map (\<lambda>w. ([], w, [10])) [7, 8, 9, 10, 11, 12, 13, 14] :: read_reply list"
  have split: "scope_replies = ([], 0x60300002, [10]) # ?rs" by (simp add: scope_replies_def)
  have ready: "hb_ready 3 sk_in sk_out sk_script example_view [] [] (map read_reply_bytes (([], 0x60300002, [10]) # ?rs) @ [])
      (example_state (map read_reply_bytes scope_replies))"
    unfolding split by (simp only: append_Nil2 example_ready)
  have log: "log_length 0x60300002 = 3" by code_simp
  have replies: "read_replies a False ?rs" "read_replies a False [([], w, [10])]" for a w
    by (simp_all add: c_isspace_def)
  have tidy_all: "tidy (([], 0x60300002, [10]) # ?rs)" by (simp add: tidy_def)
  have len: "length (concat (map read_reply_bytes (([], 0x60300002, [10]) # ?rs))) \<le> 1000"
    by (simp add: read_reply_bytes_def ans_digits_def)
  have s: "sc_data (scope_new 0 0x100 False vec) = None" "sc_scoplen (scope_new 0 0x100 False vec) = 0"
    "sc_addr (scope_new 0 0x100 False vec) AND 3 = 0" for vec by (simp_all add: scope_new_def)
  have words: "words_of [([], 0x60300002, [10])] = [0x60300002]" by (simp add: words_of_def)
  have "wp (rawread (hex_scopebus 1000 sock_os) (scope_new 0 0x100 False vec))
     (\<lambda>s' u'. sc_data s' = Some [7, 8, 9, 10, 11, 12, 13, 14] \<and> sc_holdoff s' = 2 \<and> scope_index s' 9 = Inr 8)
     (\<lambda>_ _. False) (example_state (map read_reply_bytes scope_replies))" for vec
    using rawread_over_hexbus [OF sock.scripted_link_axioms ready replies(2,1) tidy_all len s [of vec] words]
    by (rule wp_mono) (simp_all add: log words_of_def)
  then show ?thesis by blast
qed

end
