(* ===== verification/FlashDrvr.thy ===== *)
theory FlashDrvr
  imports ZipLoad
begin

text \<open>
  \<open>sw/host/flashdrvr.cpp\<close>: \<open>FLASHDRVR\<close>, which erases and programs the flash of the board over the
  debugging bus, by writing the bytes of the commands of the chip to one configuration register. The
  sizes are those of \<open>sim/verilated/regdefs.h\<close>; the addresses of the register and of the flash on the bus,
  which depend on the configuration of the board, are an argument. What is printed is left out. The loop that
  waits for the chip and the one over the sectors take fuel.
\<close>

subsection \<open>Constants\<close>

record flashmap =
  fm_FLASH :: u32
  fm_FLASHCFG :: u32

definition F_EMPTY :: u32 where "F_EMPTY = 0"
definition F_PP :: u32 where "F_PP = 0x002"
definition F_WRDI :: u32 where "F_WRDI = 0x004"
definition F_RDSR1 :: u32 where "F_RDSR1 = 0x005"
definition F_WREN :: u32 where "F_WREN = 0x006"
definition F_SE :: u32 where "F_SE = 0x0d8"
definition F_END :: u32 where "F_END = 0x100"

definition SZPAGEB :: u32 where "SZPAGEB = 256"
definition PGLENB :: u32 where "PGLENB = 256"
definition SZPAGEW :: nat where "SZPAGEW = 64"
definition NPAGES :: nat where "NPAGES = 256"
definition SECTORSZB :: u32 where "SECTORSZB = of_nat NPAGES * SZPAGEB"

definition SECTOROF :: "u32 \<Rightarrow> u32" where "SECTOROF a = a AND push_bit 16 (-1)"
definition PAGEOF :: "u32 \<Rightarrow> u32" where "PAGEOF a = a AND push_bit 8 (-1)"

subsection \<open>Commands\<close>

definition cfg :: "'s devbus \<Rightarrow> flashmap \<Rightarrow> u32 \<Rightarrow> ('s, unit) prog" where
  "cfg bus fm v = db_writeio bus (fm_FLASHCFG fm) v"

fun flwait_loop :: "nat \<Rightarrow> 's devbus \<Rightarrow> flashmap \<Rightarrow> ('s, unit) prog" where
  "flwait_loop 0 bus fm = throwS NoReturn"
| "flwait_loop (Suc n) bus fm =
     thenS (cfg bus fm F_EMPTY) (\<lambda>_.
     thenS (db_readio bus (fm_FLASHCFG fm)) (\<lambda>sr.
     if sr AND 1 \<noteq> 0 then flwait_loop n bus fm else retS ()))"

definition flwait :: "nat \<Rightarrow> 's devbus \<Rightarrow> flashmap \<Rightarrow> ('s, unit) prog" where
  "flwait fuel bus fm =
     thenS (cfg bus fm F_END) (\<lambda>_.
     thenS (cfg bus fm F_RDSR1) (\<lambda>_.
     thenS (flwait_loop fuel bus fm) (\<lambda>_. cfg bus fm F_END)))"

definition write_enable :: "'s devbus \<Rightarrow> flashmap \<Rightarrow> ('s, unit) prog" where
  "write_enable bus fm =
     thenS (cfg bus fm F_END) (\<lambda>_. thenS (cfg bus fm F_WREN) (\<lambda>_. cfg bus fm F_END))"

definition send_address :: "'s devbus \<Rightarrow> flashmap \<Rightarrow> u32 \<Rightarrow> ('s, unit) prog" where
  "send_address bus fm flashaddr =
     thenS (cfg bus fm (drop_bit 16 flashaddr AND 0xff)) (\<lambda>_.
     thenS (cfg bus fm (drop_bit 8 flashaddr AND 0xff)) (\<lambda>_. cfg bus fm (flashaddr AND 0xff)))"

subsection \<open>Erasing a sector\<close>

text \<open>The pages from the \<open>i\<close>-th on are read and compared; false at the first word that is not all ones.\<close>

fun verify_erase :: "'s devbus \<Rightarrow> flashmap \<Rightarrow> u32 \<Rightarrow> nat \<Rightarrow> nat \<Rightarrow> ('s, bool) prog" where
  "verify_erase bus fm flashaddr i 0 = retS True"
| "verify_erase bus fm flashaddr i (Suc n) =
     thenS (db_readi bus (fm_FLASH fm + flashaddr + of_nat i * SZPAGEB) SZPAGEW) (\<lambda>page.
     if \<forall>j\<in>set [0..<SZPAGEW]. page ! j = 0xffffffff
     then verify_erase bus fm flashaddr (i + 1) n else retS False)"

definition erase_sector :: "nat \<Rightarrow> 's devbus \<Rightarrow> flashmap \<Rightarrow> u32 \<Rightarrow> bool \<Rightarrow> ('s, bool) prog" where
  "erase_sector fuel bus fm sector verify =
     (let flashaddr = sector AND 0x0ffffff in
      thenS (write_enable bus fm) (\<lambda>_.
      thenS (cfg bus fm F_SE) (\<lambda>_.
      thenS (send_address bus fm flashaddr) (\<lambda>_.
      thenS (cfg bus fm F_END) (\<lambda>_.
      thenS (flwait fuel bus fm) (\<lambda>_.
      if verify then verify_erase bus fm flashaddr 0 NPAGES else retS True))))))"

subsection \<open>Programming a page\<close>

text \<open>The words of the data, for the comparison afterwards and to see whether there is anything to
  program: the loop from \<open>i\<close> on, \<open>data\<close> from the pointer on.\<close>

function page_words :: "nat \<Rightarrow> nat \<Rightarrow> u8 list \<Rightarrow> u32 list res" where
  "page_words i len dat =
     (if i < len
      then bindE (buildword (drop i dat)) (\<lambda>v. bindE (page_words (i + 4) len dat) (\<lambda>vs. Inr (v # vs)))
      else Inr [])"
  by pat_completeness auto
termination
  by (relation "measure (\<lambda>(i, len, dat). len - i)") auto

declare page_words.simps [simp del]

fun send_bytes :: "'s devbus \<Rightarrow> flashmap \<Rightarrow> u8 list \<Rightarrow> ('s, unit) prog" where
  "send_bytes bus fm [] = retS ()"
| "send_bytes bus fm (b # bs) = thenS (cfg bus fm (ucast b)) (\<lambda>_. send_bytes bus fm bs)"

definition program_command :: "nat \<Rightarrow> 's devbus \<Rightarrow> flashmap \<Rightarrow> u32 \<Rightarrow> u8 list \<Rightarrow> ('s, unit) prog" where
  "program_command fuel bus fm flashaddr bs =
     thenS (write_enable bus fm) (\<lambda>_.
     thenS (cfg bus fm F_END) (\<lambda>_.
     thenS (cfg bus fm F_PP) (\<lambda>_.
     thenS (send_address bus fm flashaddr) (\<lambda>_.
     thenS (send_bytes bus fm bs) (\<lambda>_.
     thenS (cfg bus fm F_END) (\<lambda>_. flwait fuel bus fm))))))"

definition page_program :: "nat \<Rightarrow> 's devbus \<Rightarrow> flashmap \<Rightarrow> u32 \<Rightarrow> u32 \<Rightarrow> u8 list \<Rightarrow> bool \<Rightarrow> ('s, bool) prog" where
  "page_program fuel bus fm addr len dat verify =
     (let flashaddr = addr AND 0x0ffffff; n = unat len in
      thenS (liftS (assertE (len > 0 \<and> len \<le> PGLENB \<and> PAGEOF addr = PAGEOF (addr + len - 1)))) (\<lambda>_.
      thenS (liftS (page_words 0 n dat)) (\<lambda>bswapd.
      thenS (if \<exists>v\<in>set bswapd. v \<noteq> 0xffffffff
             then program_command fuel bus fm flashaddr (take n dat) else retS ()) (\<lambda>_.
      if verify
      then thenS (db_readi bus addr (n div 4)) (\<lambda>buf.
           retS (\<forall>i\<in>set [0..<n div 4]. buf ! i = bswapd ! i))
      else retS True))))"

subsection \<open>Writing\<close>

text \<open>The comparison of what the sector holds with what it should: whether it must be erased, and from
  where it must be programmed, zero for nowhere.\<close>

fun compare_sector :: "nat \<Rightarrow> u32 \<Rightarrow> u8 list \<Rightarrow> u8 list \<Rightarrow> u32 \<Rightarrow> bool \<times> u32" where
  "compare_sector i base (c # sbuf) (d # dp) newv =
     (if c AND d \<noteq> d then (True, of_nat (i div 4 * 4) + base)
      else compare_sector (i + 1) base sbuf dp
             (if c \<noteq> d \<and> newv = 0 then of_nat (i div 4 * 4) + base else newv))"
| "compare_sector i base sbuf dp newv = (False, newv)"

text \<open>The first \<open>ln\<close> bytes of the buffer into which the words have been read and turned; what it held
  behind them is \<open>g\<close>.\<close>

definition sector_bytes :: "(nat \<Rightarrow> u8) \<Rightarrow> nat \<Rightarrow> u32 list \<Rightarrow> u8 list res" where
  "sector_bytes g ln ws =
     bindE (byteswapbuf (ln div 4) ws) (\<lambda>ws.
     Inr (map (\<lambda>i. if i < 4 * (ln div 4) then ucast (drop_bit (8 * (i mod 4)) (ws ! (i div 4))) else g i) [0..<ln]))"

definition page_length :: "u32 \<Rightarrow> u32 \<Rightarrow> u32" where
  "page_length start endaddr =
     (let len = endaddr - start in
      if PAGEOF (start + len - 1) \<noteq> PAGEOF start then PAGEOF (start + PGLENB) - start else len)"

text \<open>The loop over the pages of a sector, from \<open>p\<close> on.\<close>

fun program_pages :: "nat \<Rightarrow> nat \<Rightarrow> 's devbus \<Rightarrow> flashmap \<Rightarrow> u32 \<Rightarrow> u32 \<Rightarrow> u32 \<Rightarrow> u8 list \<Rightarrow> bool \<Rightarrow> u32 \<Rightarrow> ('s, bool) prog" where
  "program_pages 0 fuel bus fm s addr len dat verify p = throwS NoReturn"
| "program_pages (Suc n) fuel bus fm s addr len dat verify p =
     (if p < s + SECTORSZB \<and> p < addr + len
      then thenS (page_program fuel bus fm p (page_length p (addr + len)) (drop (unat (p - addr)) dat) verify) (\<lambda>ok.
           if \<not> ok then retS False
           else program_pages n fuel bus fm s addr len dat verify (PAGEOF (p + PGLENB)))
      else retS True)"

definition write_sector :: "nat \<Rightarrow> 's devbus \<Rightarrow> flashmap \<Rightarrow> (nat \<Rightarrow> u8) \<Rightarrow> u32 \<Rightarrow> u32 \<Rightarrow> u8 list \<Rightarrow> bool \<Rightarrow> u32 \<Rightarrow> ('s, bool) prog" where
  "write_sector fuel bus fm g addr len dat verify s =
     (let base = (if addr > s then addr else s);
          ln = (if addr + len > s + SECTORSZB then s + SECTORSZB else addr + len) - base in
      thenS (db_readi bus base (unat ln div 4)) (\<lambda>ws.
      thenS (liftS (sector_bytes g (unat ln) ws)) (\<lambda>sbuf.
      let dp = drop (unat (base - addr)) dat in
      thenS (liftS (if length dp < length sbuf then Inl OutOfBounds else Inr ())) (\<lambda>_.
      let (need_erase, newv) = compare_sector 0 base sbuf dp 0 in
      if newv = 0 then retS True
      else if need_erase
      then thenS (erase_sector fuel bus fm s verify) (\<lambda>ok.
           if \<not> ok then retS False
           else program_pages 257 fuel bus fm s addr len dat verify (if s < addr then addr else s))
      else program_pages 257 fuel bus fm s addr len dat verify newv))))"

fun write_sectors :: "nat \<Rightarrow> nat \<Rightarrow> 's devbus \<Rightarrow> flashmap \<Rightarrow> (nat \<Rightarrow> u8) \<Rightarrow> u32 \<Rightarrow> u32 \<Rightarrow> u8 list \<Rightarrow> bool \<Rightarrow> u32 \<Rightarrow> ('s, bool) prog" where
  "write_sectors 0 fuel bus fm g addr len dat verify s = throwS NoReturn"
| "write_sectors (Suc n) fuel bus fm g addr len dat verify s =
     (if s < SECTOROF (addr + len + SECTORSZB - 1)
      then thenS (write_sector fuel bus fm g addr len dat verify s) (\<lambda>ok.
           if \<not> ok then retS False
           else write_sectors n fuel bus fm g addr len dat verify (s + SECTORSZB))
      else retS True)"

definition flash_write :: "nat \<Rightarrow> 's devbus \<Rightarrow> flashmap \<Rightarrow> (nat \<Rightarrow> u8) \<Rightarrow> u32 \<Rightarrow> u32 \<Rightarrow> u8 list \<Rightarrow> bool \<Rightarrow> ('s, bool) prog" where
  "flash_write fuel bus fm g addr len dat verify =
     thenS (write_sectors 65536 fuel bus fm g addr len dat verify (SECTOROF addr)) (\<lambda>ok.
     if \<not> ok then retS False
     else thenS (cfg bus fm F_WRDI) (\<lambda>_. thenS (cfg bus fm F_END) (\<lambda>_. retS True)))"

end
