(* ===== verification/FlashDrvrProps.thy ===== *)
theory FlashDrvrProps
  imports FlashDrvr ZipLoadProps
begin

text \<open>
  What \<open>FLASHDRVR\<close> does to the flash: after a write the bytes stand in it, and the sectors that the
  write does not touch are as they were. The chip is any that keeps the laws of \<open>flash_board\<close>: those of a
  serial NOR flash, whose commands are collected byte by byte and carried out when they end.
\<close>

subsection \<open>The chip\<close>

record flashview =
  fv_mem :: "nat \<Rightarrow> u8"
  fv_cmd :: "u8 list"
  fv_wel :: bool

fun program_bytes :: "nat \<Rightarrow> u8 list \<Rightarrow> (nat \<Rightarrow> u8) \<Rightarrow> nat \<Rightarrow> u8" where
  "program_bytes a [] m = m"
| "program_bytes a (b # bs) m = program_bytes (a div 256 * 256 + (a + 1) mod 256) bs (m(a := m a AND b))"

definition erase_bytes :: "nat \<Rightarrow> (nat \<Rightarrow> u8) \<Rightarrow> nat \<Rightarrow> u8" where
  "erase_bytes a m x = (if x div 65536 = a div 65536 then 0xff else m x)"

definition address3 :: "u8 \<Rightarrow> u8 \<Rightarrow> u8 \<Rightarrow> nat" where
  "address3 a2 a1 a0 = unat a2 * 65536 + unat a1 * 256 + unat a0"

text \<open>Whether the command changes the contents, and what it does.\<close>

definition flash_works :: "flashview \<Rightarrow> bool" where
  "flash_works v \<longleftrightarrow> fv_wel v \<and> (case fv_cmd v of
     c # _ # _ # _ # bs \<Rightarrow> c = 0xd8 \<and> bs = [] \<or> c = 0x02 \<and> bs \<noteq> [] | _ \<Rightarrow> False)"

definition flash_exec :: "flashview \<Rightarrow> flashview" where
  "flash_exec v =
     (let w = v\<lparr>fv_cmd := []\<rparr> in
      if fv_cmd v = [0x06] then w\<lparr>fv_wel := True\<rparr>
      else if fv_cmd v = [0x04] then w\<lparr>fv_wel := False\<rparr>
      else if flash_works v
      then (case fv_cmd v of
          c # a2 # a1 # a0 # bs \<Rightarrow>
            w\<lparr>fv_wel := False,
              fv_mem := (if c = 0xd8 then erase_bytes (address3 a2 a1 a0) else program_bytes (address3 a2 a1 a0) bs) (fv_mem v)\<rparr>
        | _ \<Rightarrow> w)
      else w)"

definition in_flash :: "flashmap \<Rightarrow> u32 \<Rightarrow> nat \<Rightarrow> bool" where
  "in_flash fm a n \<longleftrightarrow> unat (fm_FLASH fm) \<le> unat a \<and> unat a + n \<le> unat (fm_FLASH fm) + 2 ^ 24"

text \<open>An address on the bus and its place in the flash.\<close>

definition place :: "flashmap \<Rightarrow> u32 \<Rightarrow> nat" where
  "place fm a = unat a - unat (fm_FLASH fm)"

text \<open>The work of an erase or a program is done after at most \<open>d\<close> looks at the status; \<open>lag\<close> counts what
  is left of them. Until then commands are ignored.\<close>

definition flash_board :: "nat \<Rightarrow> ('s \<Rightarrow> flashview) \<Rightarrow> ('s \<Rightarrow> nat) \<Rightarrow> flashmap \<Rightarrow> 's devbus \<Rightarrow> bool" where
  "flash_board d view lag fm bus \<longleftrightarrow>
     (\<forall>s v. wp (db_writeio bus (fm_FLASHCFG fm) v)
        (\<lambda>_ t. view t = (if v AND 0x100 = 0 then (view s)\<lparr>fv_cmd := fv_cmd (view s) @ [ucast v]\<rparr>
                         else if 0 < lag s then (view s)\<lparr>fv_cmd := []\<rparr> else flash_exec (view s)) \<and>
               lag t \<le> (if v AND 0x100 \<noteq> 0 \<and> lag s = 0 \<and> flash_works (view s) then d else lag s)) (\<lambda>_ _. False) s) \<and>
     (\<forall>s bs. fv_cmd (view s) = 0x05 # bs \<and> bs \<noteq> [] \<longrightarrow>
        wp (db_readio bus (fm_FLASHCFG fm))
          (\<lambda>x t. view t = view s \<and> lag t = lag s - 1 \<and> (x AND 1 = 0 \<longleftrightarrow> lag s = 0)) (\<lambda>_ _. False) s) \<and>
     (\<forall>s a n. lag s = 0 \<and> fv_cmd (view s) = [] \<and> in_flash fm a (4 * n) \<longrightarrow>
        wp (db_readi bus a n)
          (\<lambda>ws t. view t = view s \<and> lag t = 0 \<and> length ws = n \<and>
             (\<forall>k<4 * n. be_byte ws k = fv_mem (view s) (place fm a + k))) (\<lambda>_ _. False) s)"

text \<open>The flash lies at a multiple of its size, not at zero, and not at the end of the address space.\<close>

definition flash_mapped :: "flashmap \<Rightarrow> bool" where
  "flash_mapped fm \<longleftrightarrow> 2 ^ 24 dvd unat (fm_FLASH fm) \<and> 0 < unat (fm_FLASH fm) \<and>
     unat (fm_FLASH fm) + 2 ^ 24 + 2 ^ 17 < 2 ^ 32"

definition chip_idle :: "('s \<Rightarrow> flashview) \<Rightarrow> ('s \<Rightarrow> nat) \<Rightarrow> 's \<Rightarrow> bool" where
  "chip_idle view lag s \<longleftrightarrow> lag s = 0 \<and> fv_cmd (view s) = []"

subsection \<open>Commands\<close>

lemma cfg_wp:
  assumes "flash_board d view lag fm bus"
  shows "wp (cfg bus fm v)
        (\<lambda>_ t. view t = (if v AND 0x100 = 0 then (view s)\<lparr>fv_cmd := fv_cmd (view s) @ [ucast v]\<rparr>
                         else if 0 < lag s then (view s)\<lparr>fv_cmd := []\<rparr> else flash_exec (view s)) \<and>
               lag t \<le> (if v AND 0x100 \<noteq> 0 \<and> lag s = 0 \<and> flash_works (view s) then d else lag s)) (\<lambda>_ _. False) s"
  using assms unfolding flash_board_def cfg_def by blast

lemma cfg_byte:
  assumes "flash_board d view lag fm bus" "v AND 0x100 = 0"
    and "\<And>t. view t = (view s)\<lparr>fv_cmd := fv_cmd (view s) @ [ucast v]\<rparr> \<Longrightarrow> lag t \<le> lag s \<Longrightarrow> wp f Q (\<lambda>_ _. False) t"
  shows "wp (thenS (cfg bus fm v) (\<lambda>_. f)) Q (\<lambda>_ _. False) s"
  using cfg_wp [OF assms(1), of v s] by (rule wp_seq) (simp add: assms(2,3))

text \<open>The end of a command that changes nothing but the write enable, and of one that does.\<close>

lemma end_idle:
  assumes "flash_board d view lag fm bus" "lag s = 0" "\<not> flash_works (view s)"
  shows "wp (cfg bus fm F_END) (\<lambda>_ t. view t = flash_exec (view s) \<and> lag t = 0) (\<lambda>_ _. False) s"
  by (rule wp_mono [OF cfg_wp [OF assms(1)]]) (simp_all add: assms(2,3) F_END_def)

lemma end_work:
  assumes "flash_board d view lag fm bus" "lag s = 0" "flash_works (view s)"
  shows "wp (cfg bus fm F_END) (\<lambda>_ t. view t = flash_exec (view s) \<and> lag t \<le> d) (\<lambda>_ _. False) s"
  by (rule wp_mono [OF cfg_wp [OF assms(1)]]) (simp_all add: assms(2,3) F_END_def)

lemma exec_empty [simp]: "fv_cmd v = [] \<Longrightarrow> flash_exec v = v"
  by (cases v) (simp add: flash_exec_def flash_works_def)

lemma works_empty [simp]: "fv_cmd v = [] \<Longrightarrow> \<not> flash_works v"
  by (simp add: flash_works_def)

lemma end_nothing:
  assumes "flash_board d view lag fm bus" "fv_cmd (view s) = []"
  shows "wp (cfg bus fm F_END) (\<lambda>_ t. view t = view s \<and> lag t \<le> lag s) (\<lambda>_ _. False) s"
  by (rule wp_mono [OF cfg_wp [OF assms(1)]]) (use assms(2) in \<open>auto simp: F_END_def split: if_splits\<close>)

lemma flwait_loop_wp:
  assumes b: "flash_board d view lag fm bus"
  shows "lag s < fuel \<Longrightarrow> fv_cmd (view s) = 0x05 # bs \<Longrightarrow>
    wp (flwait_loop fuel bus fm)
      (\<lambda>_ t. lag t = 0 \<and> (\<exists>bs. bs \<noteq> [] \<and> view t = (view s)\<lparr>fv_cmd := 0x05 # bs\<rparr>)) (\<lambda>_ _. False) s"
proof (induction fuel arbitrary: s bs)
  case (Suc n)
  show ?case
    unfolding flwait_loop.simps
  proof (rule cfg_byte [OF b], goal_cases)
    case t: (2 t)
    then have cmd: "fv_cmd (view t) = 0x05 # (bs @ [0])" using Suc.prems(2) by (simp add: F_EMPTY_def)
    then have r: "wp (db_readio bus (fm_FLASHCFG fm))
          (\<lambda>x u. view u = view t \<and> lag u = lag t - 1 \<and> (x AND 1 = 0 \<longleftrightarrow> lag t = 0)) (\<lambda>_ _. False) t"
      using b unfolding flash_board_def by blast
    show ?case
    proof (rule wp_seq [OF r])
      fix x u assume u: "view u = view t \<and> lag u = lag t - 1 \<and> (x AND 1 = 0 \<longleftrightarrow> lag t = 0)"
      have view: "view u = (view s)\<lparr>fv_cmd := 0x05 # (bs @ [0])\<rparr>"
        using u t Suc.prems(2) by (simp add: F_EMPTY_def)
      show "wp (if x AND 1 \<noteq> 0 then flwait_loop n bus fm else retS ())
          (\<lambda>_ t. lag t = 0 \<and> (\<exists>bs. bs \<noteq> [] \<and> view t = (view s)\<lparr>fv_cmd := 0x05 # bs\<rparr>)) (\<lambda>_ _. False) u"
      proof (cases "x AND 1 = 0")
        case True
        then have "lag u = 0" using u by simp
        with True view show ?thesis by (auto simp: wp_simps)
      next
        case False
        with u t Suc.prems(1) have "lag u < n" by auto
        from Suc.IH [OF this, of "bs @ [0]"] view False show ?thesis by simp
      qed
    qed
  qed (simp add: F_EMPTY_def)
qed simp

lemma flwait_wp:
  assumes b: "flash_board d view lag fm bus" and f: "d < fuel" and s: "lag s \<le> d" "fv_cmd (view s) = []"
  shows "wp (flwait fuel bus fm) (\<lambda>_ t. view t = view s \<and> lag t = 0) (\<lambda>_ _. False) s"
  unfolding flwait_def
proof (rule wp_seq [OF end_nothing [OF b s(2)]], rule cfg_byte [OF b], goal_cases)
  case (2 x t u)
  then have u: "fv_cmd (view u) = [0x05]" "lag u < fuel" "(view u)\<lparr>fv_cmd := []\<rparr> = view s"
    using s f by (simp_all add: F_RDSR1_def)
  show ?case
  proof (rule wp_seq [OF flwait_loop_wp [OF b u(2,1)]])
    fix y :: unit and w
    assume "lag w = 0 \<and> (\<exists>bs. bs \<noteq> [] \<and> view w = (view u)\<lparr>fv_cmd := 0x05 # bs\<rparr>)"
    then obtain bs where w: "lag w = 0" "bs \<noteq> []" "view w = (view u)\<lparr>fv_cmd := 0x05 # bs\<rparr>" by auto
    then have idle: "\<not> flash_works (view w)" by (auto simp: flash_works_def split: list.splits)
    then have "flash_exec (view w) = view s" using w u(3) by (simp add: flash_exec_def)
    then show "wp (cfg bus fm F_END) (\<lambda>_ t. view t = view s \<and> lag t = 0) (\<lambda>_ _. False) w"
      using end_idle [OF b w(1) idle] by simp
  qed
qed (simp add: F_RDSR1_def)

lemma write_enable_wp:
  assumes b: "flash_board d view lag fm bus" and s: "chip_idle view lag s"
  shows "wp (write_enable bus fm) (\<lambda>_ t. view t = (view s)\<lparr>fv_wel := True\<rparr> \<and> chip_idle view lag t) (\<lambda>_ _. False) s"
  unfolding write_enable_def
proof (rule wp_seq [OF end_nothing [OF b]], goal_cases)
  case (2 x t)
  show ?case
  proof (rule cfg_byte [OF b], goal_cases)
    case u: (2 u)
    then have u: "fv_cmd (view u) = [0x06]" "lag u = 0" "view u = (view s)\<lparr>fv_cmd := [0x06]\<rparr>"
      using 2 s by (simp_all add: chip_idle_def F_WREN_def)
    then have "\<not> flash_works (view u)" by (simp add: flash_works_def)
    moreover have "flash_exec (view u) = (view s)\<lparr>fv_wel := True\<rparr>"
      using u(3) s by (simp add: flash_exec_def chip_idle_def)
    ultimately show ?case
      using s by (intro wp_mono [OF end_idle [OF b u(2)]]) (simp_all add: chip_idle_def)
  qed (simp add: F_WREN_def)
qed (use s in \<open>simp add: chip_idle_def\<close>)

lemma and_ff_bit8: "((x :: u32) AND 0xff) AND 0x100 = 0"
proof -
  have "(0xff :: u32) AND 0x100 = 0" by simp
  then show ?thesis by (simp add: and.assoc)
qed

lemma send_address_wp:
  assumes b: "flash_board d view lag fm bus"
  shows "wp (send_address bus fm a) (\<lambda>_ t. lag t \<le> lag s \<and>
      view t = (view s)\<lparr>fv_cmd := fv_cmd (view s) @ [ucast (drop_bit 16 a AND 0xff), ucast (drop_bit 8 a AND 0xff), ucast (a AND 0xff)]\<rparr>)
    (\<lambda>_ _. False) s"
  unfolding send_address_def
  by (rule cfg_byte [OF b and_ff_bit8], rule cfg_byte [OF b and_ff_bit8], rule wp_mono [OF cfg_wp [OF b]])
    (simp_all add: and_ff_bit8)

lemma unat_and_mask: "unat ((x :: u32) AND mask k) = unat x mod 2 ^ k"
  by (simp only: take_bit_eq_mask [symmetric] unsigned_take_bit_eq) (simp add: take_bit_eq_mod)

lemma ucast_byte_back [simp]: "(ucast (ucast (c :: u8) :: u32) :: u8) = c"
  by (rule bit_word_eqI) (simp add: bit_simps)

lemma address3_split:
  "address3 (ucast (drop_bit 16 a AND 0xff)) (ucast (drop_bit 8 a AND 0xff)) (ucast ((a :: u32) AND 0xff)) = unat a mod 2 ^ 24"
proof -
  have m: "unat (ucast (x AND 0xff) :: u8) = unat x mod 256" for x :: u32
    by (simp only: unsigned_ucast_eq ff_mask unat_and_mask) (simp add: take_bit_eq_mod)
  have d: "unat (drop_bit 16 a) = unat a div 65536" "unat (drop_bit 8 a) = unat a div 256"
    by (simp_all add: drop_bit_eq_div unat_div_distrib)
  have "n div 65536 mod 256 * 65536 + n div 256 mod 256 * 256 + n mod 256 = n mod 16777216" for n :: nat
  proof -
    have "n mod (256 * (256 * 256)) = 256 * (n div 256 mod (256 * 256)) + n mod 256"
      by (rule mod_mult2_eq)
    moreover have "n div 256 mod (256 * 256) = 256 * (n div 256 div 256 mod 256) + n div 256 mod 256"
      by (rule mod_mult2_eq)
    moreover have "n div 256 div 256 = n div 65536" by (simp add: div_mult2_eq [symmetric])
    ultimately show ?thesis by simp
  qed
  then show ?thesis by (simp add: address3_def m d)
qed

lemma and_ffffff: "unat ((a :: u32) AND 0x0ffffff) = unat a mod 2 ^ 24"
proof -
  have "(0x0ffffff :: u32) = mask 24" by (simp add: mask_eq_exp_minus_1)
  then show ?thesis by (simp only: unat_and_mask)
qed

lemma send_bytes_wp:
  assumes b: "flash_board d view lag fm bus"
  shows "wp (send_bytes bus fm bs) (\<lambda>_ t. lag t \<le> lag s \<and> view t = (view s)\<lparr>fv_cmd := fv_cmd (view s) @ bs\<rparr>)
    (\<lambda>_ _. False) s"
proof (induction bs arbitrary: s)
  case (Cons c bs)
  have byte: "(ucast c :: u32) AND 0x100 = 0"
  proof (rule bit_word_eqI)
    have "(0x100 :: u32) = 2 ^ 8" by simp
    then show "bit ((ucast c :: u32) AND 0x100) n = bit 0 n" for n
      by (simp only: bit_and_iff bit_exp_iff) (auto simp: bit_simps u8_bit_beyond)
  qed
  show ?case
    unfolding send_bytes.simps
  proof (rule cfg_byte [OF b byte])
    fix t assume "view t = (view s)\<lparr>fv_cmd := fv_cmd (view s) @ [ucast (ucast c :: u32)]\<rparr>" "lag t \<le> lag s"
    then show "wp (send_bytes bus fm bs) (\<lambda>_ t. lag t \<le> lag s \<and> view t = (view s)\<lparr>fv_cmd := fv_cmd (view s) @ c # bs\<rparr>)
        (\<lambda>_ _. False) t"
      by (intro wp_mono [OF Cons.IH]) auto
  qed
qed (simp add: wp_simps)

subsection \<open>Erase and program\<close>

text \<open>An erase or program command that has been collected is carried out when it ends.\<close>

lemma carry_out:
  assumes b: "flash_board d view lag fm bus" and f: "d < fuel" and s: "lag s = 0" "flash_works (view s)"
  shows "wp (thenS (cfg bus fm F_END) (\<lambda>_. flwait fuel bus fm))
    (\<lambda>_ t. view t = flash_exec (view s) \<and> chip_idle view lag t) (\<lambda>_ _. False) s"
proof (rule wp_seq [OF end_work [OF b s]])
  fix x :: unit and t assume t: "view t = flash_exec (view s) \<and> lag t \<le> d"
  have "fv_cmd (flash_exec (view s)) = []"
    by (auto simp: flash_exec_def Let_def split: list.splits)
  with flwait_wp [OF b f, of t] t show "wp (flwait fuel bus fm) (\<lambda>_ t. view t = flash_exec (view s) \<and> chip_idle view lag t) (\<lambda>_ _. False) t"
    by (auto simp: chip_idle_def elim: wp_mono)
qed

lemma program_command_wp:
  assumes b: "flash_board d view lag fm bus" and f: "d < fuel" and s: "chip_idle view lag s" and bs: "bs \<noteq> []"
  shows "wp (program_command fuel bus fm a bs)
    (\<lambda>_ t. view t = (view s)\<lparr>fv_mem := program_bytes (unat a mod 2 ^ 24) bs (fv_mem (view s)), fv_wel := False\<rparr> \<and>
       chip_idle view lag t) (\<lambda>_ _. False) s"
  unfolding program_command_def
proof (rule wp_seq [OF write_enable_wp [OF b s]], rule wp_seq [OF end_nothing [OF b]], goal_cases)
  case (2 x1 t1 x2 t2)
  show ?case
  proof (rule cfg_byte [OF b], goal_cases)
    case t3: (2 t3)
    show ?case
    proof (rule wp_seq [OF send_address_wp [OF b]], rule wp_seq [OF send_bytes_wp [OF b]], goal_cases)
      case t5: (1 x4 t4 x5 t5)
      obtain a2 a1 a0 where a: "fv_cmd (view t5) = 0x02 # a2 # a1 # a0 # bs" "address3 a2 a1 a0 = unat a mod 2 ^ 24"
        using t3 t5 2 address3_split [of a] by (auto simp: chip_idle_def F_PP_def)
      have v: "(view t5)\<lparr>fv_cmd := []\<rparr> = (view s)\<lparr>fv_wel := True\<rparr>" "lag t5 = 0"
        using t3 t5 2 s by (auto simp: chip_idle_def F_PP_def)
      then have wel: "fv_wel (view t5)" "fv_mem (view t5) = fv_mem (view s)"
        by (metis flashview.select_convs(3) flashview.surjective flashview.update_convs(2) flashview.update_convs(3))
          (metis flashview.select_convs(1) flashview.surjective flashview.update_convs(2) flashview.update_convs(3) v(1))
      have w: "flash_works (view t5)" using a bs wel by (simp add: flash_works_def)
      have "flash_exec (view t5) = (view s)\<lparr>fv_mem := program_bytes (unat a mod 2 ^ 24) bs (fv_mem (view s)), fv_wel := False\<rparr>"
        using w a v(1) wel by (simp add: flash_exec_def)
      with carry_out [OF b f v(2) w] show ?case by simp
    qed
  qed (simp add: F_PP_def)
qed (auto simp only: chip_idle_def)

lemma program_bytes_eq:
  "a mod 256 + length bs \<le> 256 \<Longrightarrow>
    program_bytes a bs m = (\<lambda>x. if a \<le> x \<and> x < a + length bs then m x AND bs ! (x - a) else m x)"
proof (induction bs arbitrary: a m)
  case (Cons b bs)
  show ?case
  proof (cases "bs = []")
    case True
    then show ?thesis by (auto simp: fun_eq_iff)
  next
    case False
    then have lt: "a mod 256 + 1 < 256" using Cons.prems by (cases bs) simp_all
    then have m: "(a + 1) mod 256 = a mod 256 + 1" by (simp add: mod_Suc)
    then have nxt: "a div 256 * 256 + (a + 1) mod 256 = a + 1"
      using div_mult_mod_eq [of a 256] by linarith
    have "(a + 1) mod 256 + length bs \<le> 256" using m Cons.prems by simp
    from Cons.IH [OF this] show ?thesis
      unfolding program_bytes.simps nxt by (auto simp: fun_eq_iff nth_Cons')
  qed
qed (auto simp: fun_eq_iff)

lemma word_read:
  assumes b: "flash_board d view lag fm bus" and s: "chip_idle view lag s" and a: "in_flash fm a (4 * n)"
  shows "wp (db_readi bus a n)
          (\<lambda>ws t. view t = view s \<and> chip_idle view lag t \<and> length ws = n \<and>
             (\<forall>k<4 * n. be_byte ws k = fv_mem (view s) (place fm a + k))) (\<lambda>_ _. False) s"
proof -
  have "wp (db_readi bus a n)
          (\<lambda>ws t. view t = view s \<and> lag t = 0 \<and> length ws = n \<and>
             (\<forall>k<4 * n. be_byte ws k = fv_mem (view s) (place fm a + k))) (\<lambda>_ _. False) s"
    using b s a unfolding flash_board_def chip_idle_def by blast
  then show ?thesis by (rule wp_mono) (use s in \<open>simp_all add: chip_idle_def\<close>)
qed

lemma be_byte_word: "j < 4 \<Longrightarrow> be_byte ws (4 * i + j) = ucast (drop_bit (24 - 8 * j) (ws ! i))"
  by (simp add: be_byte_def)

text \<open>A word is its four bytes.\<close>

lemma word_of_bytes:
  fixes v w :: u32
  assumes "\<And>j. j < 4 \<Longrightarrow> (ucast (drop_bit (24 - 8 * j) v) :: u8) = ucast (drop_bit (24 - 8 * j) w)"
  shows "v = w"
proof (rule bit_word_eqI)
  fix n assume "n < LENGTH(32)"
  then have n: "n < 32" by simp
  have "bit (ucast (drop_bit (24 - 8 * (3 - n div 8)) v) :: u8) (n mod 8) =
      bit (ucast (drop_bit (24 - 8 * (3 - n div 8)) w) :: u8) (n mod 8)"
    using assms [of "3 - n div 8"] by simp
  moreover have "24 - 8 * (3 - n div 8) + n mod 8 = n"
  proof -
    have "n div 8 \<le> 3" using n by linarith
    then have "24 - 8 * (3 - n div 8) = 8 * (n div 8)" by (simp add: diff_mult_distrib2)
    then show ?thesis by simp
  qed
  ultimately show "bit v n = bit w n" using n by (simp add: bit_simps)
qed

lemma words_of_bytes:
  assumes "length ws = length vs" "\<And>k. k < 4 * length vs \<Longrightarrow> be_byte ws k = be_byte vs k"
  shows "ws = vs"
proof (rule nth_equalityI [OF assms(1)])
  fix i assume i: "i < length ws"
  show "ws ! i = vs ! i"
    by (rule word_of_bytes) (use assms i be_byte_word [of _ ws i] be_byte_word [of _ vs i] in auto)
qed

lemma ones_byte: "j < 4 \<Longrightarrow> (ucast (drop_bit (24 - 8 * j) (0xffffffff :: u32)) :: u8) = 0xff"
proof -
  assume "j < 4"
  then have "(ucast (drop_bit (24 - 8 * j) (- 1 :: u32)) :: u8) = - 1"
    by (intro bit_word_eqI) (auto simp: bit_simps)
  moreover have e: "(0xffffffff :: u32) = - 1" "(0xff :: u8) = - 1" by simp_all
  ultimately show ?thesis by (simp only: e)
qed

lemma all_ones_bytes: "v = 0xffffffff \<longleftrightarrow> (\<forall>j<4. (ucast (drop_bit (24 - 8 * j) (v :: u32)) :: u8) = 0xff)"
  using word_of_bytes [of v "0xffffffff"] ones_byte by auto

lemma be_byte_buildword:
  assumes "i + 4 \<le> length dat"
  obtains v where "buildword (drop i dat) = Inr v" "\<And>j. j < 4 \<Longrightarrow> ucast (drop_bit (24 - 8 * j) v) = dat ! (i + j)"
proof -
  have "drop i dat = dat ! i # dat ! (i + 1) # dat ! (i + 2) # dat ! (i + 3) # drop (i + 4) dat"
    using assms by (simp add: Cons_nth_drop_Suc numeral_eq_Suc)
  then have b: "buildword (drop i dat) = Inr (push_bit 24 (ucast (dat ! i)) OR push_bit 16 (ucast (dat ! (i + 1)))
      OR push_bit 8 (ucast (dat ! (i + 2))) OR ucast (dat ! (i + 3)))" (is "_ = Inr ?v")
    by (simp only: buildword_four)
  moreover have "(ucast (drop_bit (24 - 8 * j) ?v) :: u8) = dat ! (i + j)" if "j < 4" for j
  proof -
    have "j = 0 \<or> j = 1 \<or> j = 2 \<or> j = 3" using that by auto
    then show ?thesis
      by (elim disjE; intro bit_word_eqI) (auto simp: bit_simps u8_bit_beyond)
  qed
  ultimately show ?thesis by (rule that)
qed

lemma page_words_spec:
  assumes "4 dvd len - i" "i \<le> len" "len \<le> length dat"
  shows "\<exists>vs. page_words i len dat = Inr vs \<and> 4 * length vs = len - i \<and>
    (\<forall>k<len - i. be_byte vs k = dat ! (i + k))"
  using assms
proof (induction i len dat rule: page_words.induct)
  case (1 i len dat)
  show ?case
  proof (cases "i < len")
    case True
    have i4: "i + 4 \<le> len"
    proof -
      from "1.prems"(1) obtain k where k: "len - i = 4 * k" by (rule dvdE)
      with True have "0 < k" by (cases k) simp_all
      with k show ?thesis by linarith
    qed
    obtain v where v: "buildword (drop i dat) = Inr v" "\<And>j. j < 4 \<Longrightarrow> ucast (drop_bit (24 - 8 * j) v) = dat ! (i + j)"
      using be_byte_buildword [of i dat] i4 "1.prems"(3) by auto
    have "4 dvd len - (i + 4)"
      using dvd_diff_nat [OF "1.prems"(1) dvd_refl] by simp
    then obtain vs where vs: "page_words (i + 4) len dat = Inr vs" "4 * length vs = len - (i + 4)"
      "\<forall>k<len - (i + 4). be_byte vs k = dat ! (i + 4 + k)"
      using "1.IH" [OF True v(1)] i4 "1.prems"(3) by auto
    have "be_byte (v # vs) k = dat ! (i + k)" if "k < len - i" for k
    proof (cases "k < 4")
      case True
      then show ?thesis using v(2) by (simp add: be_byte_def)
    next
      case False
      then obtain m where m: "k = 4 + m" using le_Suc_ex [of 4 k] by auto
      have "(4 + m) div 4 = Suc (m div 4)" by (simp add: div_add_self1)
      then have "be_byte (v # vs) k = be_byte vs m" by (simp add: be_byte_def m)
      moreover have "m < len - (i + 4)" using that m by simp
      ultimately show ?thesis using vs(3) by (simp add: m add.assoc)
    qed
    with True v vs i4 show ?thesis by (subst page_words.simps) auto
  next
    case False
    then show ?thesis using "1.prems" by (subst page_words.simps) auto
  qed
qed

text \<open>Places in the flash.\<close>

lemma place_mod:
  assumes "flash_mapped fm" "in_flash fm a n" "0 < n"
  shows "unat a mod 2 ^ 24 = place fm a" "place fm a + n \<le> 2 ^ 24" "unat a = unat (fm_FLASH fm) + place fm a"
proof -
  obtain k where k: "unat (fm_FLASH fm) = 2 ^ 24 * k" using assms(1) by (auto simp: flash_mapped_def elim: dvdE)
  have a: "unat a = unat (fm_FLASH fm) + place fm a" and p: "place fm a + n \<le> 2 ^ 24"
    using assms(2) unfolding place_def in_flash_def by linarith+
  then have "unat a mod 2 ^ 24 = place fm a mod 2 ^ 24" by (simp add: k)
  with p assms(3) show "unat a mod 2 ^ 24 = place fm a" by simp
  show "place fm a + n \<le> 2 ^ 24" "unat a = unat (fm_FLASH fm) + place fm a" by (rule p, rule a)
qed

lemma verify_erase_wp:
  assumes b: "flash_board d view lag fm bus" and m: "flash_mapped fm"
    and off: "unat off + 65536 \<le> 2 ^ 24"
  shows "chip_idle view lag s \<Longrightarrow> i + n \<le> 256 \<Longrightarrow> \<forall>x. unat off \<le> x \<and> x < unat off + 65536 \<longrightarrow> fv_mem (view s) x = 0xff \<Longrightarrow>
    wp (verify_erase bus fm off i n) (\<lambda>ok t. ok \<and> view t = view s \<and> chip_idle view lag t) (\<lambda>_ _. False) s"
proof (induction n arbitrary: i s)
  case (Suc n)
  let ?a = "fm_FLASH fm + off + of_nat i * SZPAGEB"
  have F: "unat (fm_FLASH fm) + 2 ^ 24 \<le> 2 ^ 32" using m by (simp add: flash_mapped_def)
  have i: "i < 256" using Suc.prems(2) by simp
  have "unat (of_nat i * SZPAGEB) = i * 256"
    using i by (simp add: SZPAGEB_def unat_word_ariths unsigned_of_nat take_bit_nat_eq_self)
  then have a: "unat ?a = unat (fm_FLASH fm) + (unat off + i * 256)"
    using off i F by (simp add: unat_word_ariths)
  then have inf: "in_flash fm ?a (4 * SZPAGEW)" and pl: "place fm ?a = unat off + i * 256"
    using off i by (simp_all add: in_flash_def place_def SZPAGEW_def)
  show ?case
    unfolding verify_erase.simps
  proof (rule wp_seq [OF word_read [OF b Suc.prems(1) inf]])
    fix page t
    assume p: "view t = view s \<and> chip_idle view lag t \<and> length page = SZPAGEW \<and>
       (\<forall>k<4 * SZPAGEW. be_byte page k = fv_mem (view s) (place fm ?a + k))"
    have "page ! j = 0xffffffff" if j: "j < SZPAGEW" for j
      unfolding all_ones_bytes
    proof (intro allI impI)
      fix k :: nat assume k: "k < 4"
      then have jk: "4 * j + k < 4 * SZPAGEW" using j by linarith
      have "unat off \<le> place fm ?a + (4 * j + k)" "place fm ?a + (4 * j + k) < unat off + 65536"
        using jk i by (simp_all add: pl SZPAGEW_def)
      then show "(ucast (drop_bit (24 - 8 * k) (page ! j)) :: u8) = 0xff"
        using p jk Suc.prems(3) be_byte_word [OF k, of page j] by auto
    qed
    then have ok: "\<forall>j\<in>set [0..<SZPAGEW]. page ! j = 0xffffffff" by simp
    have "i + 1 + n \<le> 256" "chip_idle view lag t" using Suc.prems(2) p by simp_all
    with Suc.IH [of t "i + 1"] Suc.prems(3) p
    show "wp (if \<forall>j\<in>set [0..<SZPAGEW]. page ! j = 0xffffffff then verify_erase bus fm off (i + 1) n else retS False)
        (\<lambda>ok t. ok \<and> view t = view s \<and> chip_idle view lag t) (\<lambda>_ _. False) t"
      using ok by (simp only: if_True) simp
  qed
qed (simp add: wp_simps)

lemma erase_sector_wp:
  assumes b: "flash_board d view lag fm bus" and f: "d < fuel" and m: "flash_mapped fm" and s: "chip_idle view lag s"
    and a: "in_flash fm a 65536" "65536 dvd place fm a"
  shows "wp (erase_sector fuel bus fm a verify)
    (\<lambda>ok t. ok \<and> view t = (view s)\<lparr>fv_mem := erase_bytes (place fm a) (fv_mem (view s)), fv_wel := False\<rparr> \<and>
       chip_idle view lag t) (\<lambda>_ _. False) s"
  unfolding erase_sector_def Let_def
proof (rule wp_seq [OF write_enable_wp [OF b s]], rule cfg_byte [OF b], goal_cases)
  case t2: (2 x1 t1 t2)
  note pl = place_mod [OF m a(1)]
  have off: "unat (a AND 0x0ffffff) = place fm a" using pl(1) by (simp only: and_ffffff)
  show ?case
  proof (rule wp_seq [OF send_address_wp [OF b]], goal_cases)
    case t3: (1 x3 t3)
    obtain a2 a1 a0 where ad: "fv_cmd (view t3) = [0xd8, a2, a1, a0]" "address3 a2 a1 a0 = place fm a"
      using t2 t3 address3_split [of "a AND 0x0ffffff"] pl(2) by (auto simp: chip_idle_def F_SE_def off)
    have v: "(view t3)\<lparr>fv_cmd := []\<rparr> = (view s)\<lparr>fv_wel := True\<rparr>" "lag t3 = 0"
      using t2 t3 s by (auto simp: chip_idle_def F_SE_def)
    then have wel: "fv_wel (view t3)" "fv_mem (view t3) = fv_mem (view s)"
      by (metis flashview.select_convs(3) flashview.surjective flashview.update_convs(2) flashview.update_convs(3))
        (metis flashview.select_convs(1) flashview.surjective flashview.update_convs(2) flashview.update_convs(3) v(1))
    have w: "flash_works (view t3)" using ad wel by (simp add: flash_works_def)
    have ex: "flash_exec (view t3) = (view s)\<lparr>fv_mem := erase_bytes (place fm a) (fv_mem (view s)), fv_wel := False\<rparr>"
      using w ad v(1) wel by (simp add: flash_exec_def)
    have seq: "wp (thenS (cfg bus fm F_END) (\<lambda>_. thenS (flwait fuel bus fm) (\<lambda>_. f))) Q (\<lambda>_ _. False) t3"
      if "\<And>t. view t = flash_exec (view t3) \<Longrightarrow> chip_idle view lag t \<Longrightarrow> wp f Q (\<lambda>_ _. False) t" for f Q
      using wp_seq [OF carry_out [OF b f v(2) w], of "\<lambda>_. f" Q] that by (simp add: thenS_assoc)
    show ?case
    proof (rule seq, goal_cases)
      case t: (1 t)
      show ?case
      proof (cases verify)
        case True
        have "\<forall>x. unat (a AND 0x0ffffff) \<le> x \<and> x < unat (a AND 0x0ffffff) + 65536 \<longrightarrow> fv_mem (view t) x = 0xff"
        proof (intro allI impI)
          fix x assume "unat (a AND 0x0ffffff) \<le> x \<and> x < unat (a AND 0x0ffffff) + 65536"
          then have "x div 65536 = place fm a div 65536"
            using a(2) unfolding off by (auto elim!: dvdE)
          then show "fv_mem (view t) x = 0xff" unfolding t(1) ex by (simp add: erase_bytes_def)
        qed
        moreover have "unat (a AND 0x0ffffff) + 65536 \<le> 2 ^ 24" using pl(2) by (simp add: off)
        ultimately have "wp (verify_erase bus fm (a AND 0x0ffffff) 0 NPAGES)
            (\<lambda>ok u. ok \<and> view u = view t \<and> chip_idle view lag u) (\<lambda>_ _. False) t"
          using verify_erase_wp [OF b m _ t(2)] by (simp add: NPAGES_def)
        then show ?thesis using True by (simp add: t(1) ex)
      qed (simp add: wp_simps t ex)
    qed
  qed
qed (simp add: F_SE_def)

subsection \<open>A page\<close>

lemma high_part: "x AND push_bit k (-1 :: u32) = push_bit k (drop_bit k x)"
  by (rule bit_word_eqI) (auto simp: bit_simps)

lemma unat_PAGEOF: "unat (PAGEOF a) = unat a div 256 * 256"
  and unat_SECTOROF: "unat (SECTOROF a) = unat a div 65536 * 65536"
proof -
  have "unat a div 256 * 256 < 2 ^ 32" "unat a div 65536 * 65536 < 2 ^ 32"
    using unsigned_less [of a, where ?'a = nat] div_times_less_eq_dividend [of "unat a"] le_less_trans by fastforce+
  then show "unat (PAGEOF a) = unat a div 256 * 256" "unat (SECTOROF a) = unat a div 65536 * 65536"
    unfolding PAGEOF_def SECTOROF_def high_part
    by (simp_all only: unsigned_push_bit_eq unsigned_drop_bit_eq)
      (simp_all add: push_bit_eq_mult drop_bit_eq_div take_bit_nat_eq_self)
qed

definition overwrite :: "nat \<Rightarrow> u8 list \<Rightarrow> (nat \<Rightarrow> u8) \<Rightarrow> nat \<Rightarrow> u8" where
  "overwrite p bs m x = (if p \<le> x \<and> x < p + length bs then bs ! (x - p) else m x)"

lemma program_when_allowed:
  assumes "p mod 256 + length bs \<le> 256" "\<forall>i<length bs. m (p + i) AND bs ! i = bs ! i"
  shows "program_bytes p bs m = overwrite p bs m"
proof (rule ext)
  fix x
  show "program_bytes p bs m x = overwrite p bs m x"
    using assms(2) [rule_format, of "x - p"] unfolding program_bytes_eq [OF assms(1)] overwrite_def by auto
qed

lemma unat_minus32: "unat z \<le> unat x \<Longrightarrow> unat (x - z :: u32) = unat x - unat z"
  by (simp add: unat_sub_if_size)

lemma flash_align:
  assumes "flash_mapped fm"
  obtains K where "unat (fm_FLASH fm) = 65536 * K"
    "\<And>x. (unat (fm_FLASH fm) + x) div 256 * 256 = unat (fm_FLASH fm) + x div 256 * 256"
    "\<And>x. (unat (fm_FLASH fm) + x) div 65536 * 65536 = unat (fm_FLASH fm) + x div 65536 * 65536"
proof -
  have "(65536 :: nat) dvd 2 ^ 24" by (simp add: dvd_def exI [of _ 256])
  then have "65536 dvd unat (fm_FLASH fm)" using assms dvd_trans by (auto simp: flash_mapped_def)
  then obtain K where K: "unat (fm_FLASH fm) = 65536 * K" by (rule dvdE)
  have "(65536 * K + x) div 256 = 256 * K + x div 256" for x
    using div_mult_self4 [of 256 "256 * K" x] by (simp add: mult.assoc [symmetric])
  then show ?thesis using K that by (simp add: K algebra_simps)
qed

lemma page_asserted:
  assumes m: "flash_mapped fm" and a: "in_flash fm a (unat len)" and len: "0 < unat len" "place fm a mod 256 + unat len \<le> 256"
  shows "0 < len \<and> len \<le> PGLENB \<and> PAGEOF a = PAGEOF (a + len - 1)"
proof -
  let ?n = "unat len" and ?p = "place fm a"
  note pl = place_mod [OF m a len(1)]
  obtain K where K: "\<And>x. (unat (fm_FLASH fm) + x) div 256 * 256 = unat (fm_FLASH fm) + x div 256 * 256"
    using flash_align [OF m] by metis
  have "unat (a + len) = unat (fm_FLASH fm) + (?p + ?n)"
    using pl m by (simp add: unat_word_ariths flash_mapped_def)
  then have last: "unat (a + len - 1) = unat (fm_FLASH fm) + (?p + ?n - 1)"
    using len(1) unat_minus32 [of 1 "a + len"] by simp
  have "?p + ?n - 1 = 256 * (?p div 256) + (?p mod 256 + ?n - 1)" "?p mod 256 + ?n - 1 < 256"
    using len div_mult_mod_eq [of ?p 256] by linarith+
  then have "(?p + ?n - 1) div 256 = ?p div 256" by (simp add: div_mult_self4)
  then have "unat (PAGEOF a) = unat (PAGEOF (a + len - 1))"
    by (simp only: unat_PAGEOF last pl(3) K)
  then have "PAGEOF a = PAGEOF (a + len - 1)" by (simp add: word_unat_eq_iff)
  then show ?thesis using len by (simp add: word_less_nat_alt word_le_nat_alt PGLENB_def)
qed

text \<open>Bytes that are all ones need no programming.\<close>

lemma ones_unchanged:
  assumes "\<forall>v\<in>set vs. v = 0xffffffff" "4 * length vs = length bs" "\<forall>k<length bs. be_byte vs k = bs ! k"
    and "\<forall>k<length bs. m (p + k) AND bs ! k = bs ! k"
  shows "overwrite p bs m = m"
proof (rule ext)
  fix x
  have "m (p + k) = bs ! k" if k: "k < length bs" for k
  proof -
    have "k div 4 < length vs" using k assms(2) by linarith
    then have "vs ! (k div 4) = 0xffffffff" using assms(1) nth_mem by blast
    then have "be_byte vs k = 0xff" unfolding be_byte_def using ones_byte [of "k mod 4"] by simp
    moreover have "y AND 0xff = y" for y :: u8
    proof -
      have "(0xff :: u8) = - 1" by simp
      then show ?thesis by (simp only: and.right_neutral)
    qed
    ultimately show ?thesis using assms(3,4) k by metis
  qed
  from this [of "x - p"] show "overwrite p bs m x = m x" by (auto simp: overwrite_def)
qed

lemma page_program_wp:
  assumes b: "flash_board d view lag fm bus" and f: "d < fuel" and m: "flash_mapped fm" and s: "chip_idle view lag s"
    and a: "in_flash fm a (unat len)" and len: "0 < unat len" "4 dvd unat len" "place fm a mod 256 + unat len \<le> 256"
    and dat: "unat len \<le> length dat" "\<forall>i<unat len. fv_mem (view s) (place fm a + i) AND dat ! i = dat ! i"
  shows "wp (page_program fuel bus fm a len dat verify)
    (\<lambda>ok t. ok \<and> fv_mem (view t) = overwrite (place fm a) (take (unat len) dat) (fv_mem (view s)) \<and> chip_idle view lag t)
    (\<lambda>_ _. False) s"
proof -
  let ?n = "unat len" and ?p = "place fm a" and ?m = "fv_mem (view s)"
  define bs where "bs = take ?n dat"
  have bs: "length bs = ?n" "bs \<noteq> []" "\<And>i. i < ?n \<Longrightarrow> bs ! i = dat ! i" using dat(1) len(1) by (auto simp: bs_def)
  note pl = place_mod [OF m a len(1)]
  have asserted: "assertE (0 < len \<and> len \<le> PGLENB \<and> PAGEOF a = PAGEOF (a + len - 1)) = Inr ()"
    by (simp only: page_asserted [OF m a len(1,3)] assertE_simps simp_thms)
  obtain vs where vs: "page_words 0 ?n dat = Inr vs" "4 * length vs = ?n" "\<forall>k<?n. be_byte vs k = dat ! k"
    using page_words_spec [of ?n 0 dat] len(2) dat(1) by auto
  have target: "program_bytes ?p bs ?m = overwrite ?p bs ?m"
    using len(3) dat(2) bs by (intro program_when_allowed) simp_all
  let ?Q = "\<lambda>_ t. fv_mem (view t) = overwrite ?p bs ?m \<and> chip_idle view lag t"
  have prog: "wp (if \<exists>v\<in>set vs. v \<noteq> 0xffffffff then program_command fuel bus fm (a AND 0x0ffffff) (take ?n dat) else retS ())
      ?Q (\<lambda>_ _. False) s"
  proof (cases "\<exists>v\<in>set vs. v \<noteq> 0xffffffff")
    case True
    have "?p < 2 ^ 24" using pl(2) len(1) by linarith
    then have "unat (a AND 0x0ffffff) mod 2 ^ 24 = ?p" by (simp only: and_ffffff pl(1) mod_less)
    then show ?thesis
      using True program_command_wp [OF b f s bs(2), of "a AND 0x0ffffff"] target
      by (simp add: bs_def [symmetric]) (erule wp_mono, simp_all)
  next
    case False
    have "overwrite ?p bs ?m = ?m"
      by (rule ones_unchanged [of vs]) (use False vs(2,3) bs dat(2) in auto)
    then show ?thesis using False s by (simp add: wp_simps)
  qed
  show ?thesis
    unfolding page_program_def Let_def asserted vs(1) liftS_Inr thenS_retS bs_def [symmetric]
  proof (rule wp_seq [OF prog [unfolded bs_def [symmetric]]])
    fix x :: unit and t
    assume t: "fv_mem (view t) = overwrite ?p bs ?m \<and> chip_idle view lag t"
    have inf: "in_flash fm a (4 * (?n div 4))" using a len(2) by simp
    show "wp (if verify then thenS (db_readi bus a (?n div 4)) (\<lambda>buf. retS (\<forall>i\<in>set [0..<?n div 4]. buf ! i = vs ! i)) else retS True)
        (\<lambda>ok t. ok \<and> fv_mem (view t) = overwrite ?p bs ?m \<and> chip_idle view lag t) (\<lambda>_ _. False) t"
    proof (cases verify)
      case True
      show ?thesis
        unfolding if_P [OF True]
      proof (rule wp_seq [OF word_read [OF b _ inf]])
        show "chip_idle view lag t" using t by simp
        fix buf u
        assume u: "view u = view t \<and> chip_idle view lag u \<and> length buf = ?n div 4 \<and>
            (\<forall>k<4 * (?n div 4). be_byte buf k = fv_mem (view t) (?p + k))"
        have "buf = vs"
        proof (rule words_of_bytes)
          show "length buf = length vs" using u vs(2) by simp
          fix k assume k: "k < 4 * length vs"
          then have "be_byte buf k = overwrite ?p bs ?m (?p + k)"
            using u t vs(2) dvd_mult_div_cancel [OF len(2)] by simp
          then show "be_byte buf k = be_byte vs k" using k vs bs by (simp add: overwrite_def)
        qed
        then show "wp (retS (\<forall>i\<in>set [0..<?n div 4]. buf ! i = vs ! i))
            (\<lambda>ok t. ok \<and> fv_mem (view t) = overwrite ?p bs ?m \<and> chip_idle view lag t) (\<lambda>_ _. False) u"
          using u t by (simp add: wp_simps)
      qed
    qed (use t in \<open>simp add: wp_simps\<close>)
  qed
qed

subsection \<open>The pages of a sector\<close>

text \<open>The write that is under way: its address, length and data.\<close>

definition write_ok :: "flashmap \<Rightarrow> u32 \<Rightarrow> u32 \<Rightarrow> u8 list \<Rightarrow> bool" where
  "write_ok fm addr len dat \<longleftrightarrow> flash_mapped fm \<and> in_flash fm addr (unat len) \<and> 0 < unat len \<and>
     4 dvd unat len \<and> 4 dvd place fm addr \<and> unat len \<le> length dat"

lemma write_okD:
  assumes "write_ok fm addr len dat"
  shows "unat addr = unat (fm_FLASH fm) + place fm addr" "place fm addr + unat len \<le> 2 ^ 24"
    "unat (addr + len) = unat (fm_FLASH fm) + (place fm addr + unat len)"
proof -
  have F: "unat (fm_FLASH fm) + 2 ^ 24 + 2 ^ 17 < 2 ^ 32" using assms by (simp add: write_ok_def flash_mapped_def)
  have w: "flash_mapped fm" "in_flash fm addr (unat len)" "0 < unat len" using assms by (simp_all add: write_ok_def)
  show a: "unat addr = unat (fm_FLASH fm) + place fm addr" and p: "place fm addr + unat len \<le> 2 ^ 24"
    using place_mod [OF w] by simp_all
  show "unat (addr + len) = unat (fm_FLASH fm) + (place fm addr + unat len)"
    using a p F by (simp add: unat_word_ariths)
qed

text \<open>A position of the flash as an address of the bus.\<close>

definition at_place :: "flashmap \<Rightarrow> u32 \<Rightarrow> nat \<Rightarrow> bool" where
  "at_place fm a q \<longleftrightarrow> unat a = unat (fm_FLASH fm) + q \<and> q \<le> 2 ^ 24"

lemma at_place_place: "at_place fm a q \<Longrightarrow> place fm a = q"
  by (simp add: at_place_def place_def)

lemma at_place_add:
  assumes "flash_mapped fm" "at_place fm a q" "q + unat n \<le> 2 ^ 24 + 2 ^ 17"
  shows "unat (a + n) = unat (fm_FLASH fm) + (q + unat n)"
proof -
  have "unat (fm_FLASH fm) + 2 ^ 24 + 2 ^ 17 < 2 ^ 32" "0 < unat (fm_FLASH fm)" using assms(1) by (simp_all add: flash_mapped_def)
  then show ?thesis using assms(2,3) by (simp add: unat_word_ariths at_place_def)
qed

lemma page_length_eq:
  assumes m: "flash_mapped fm" and q: "at_place fm p q" and e: "at_place fm endaddr e" and lt: "q < e"
  shows "unat (page_length p endaddr) = min e (q div 256 * 256 + 256) - q"
proof -
  let ?F = "unat (fm_FLASH fm)"
  obtain K where K: "\<And>x. (?F + x) div 256 * 256 = ?F + x div 256 * 256"
    using flash_align [OF m] by metis
  have p: "unat p = ?F + q" and ea: "unat endaddr = ?F + e" using q e by (simp_all add: at_place_def)
  have len: "unat (endaddr - p) = e - q" using unat_minus32 [of p endaddr] p ea lt by simp
  have "unat (endaddr - 1) = ?F + (e - 1)" using unat_minus32 [of 1 endaddr] ea lt by simp
  then have PL: "unat (PAGEOF (p + (endaddr - p) - 1)) = ?F + (e - 1) div 256 * 256" by (simp add: unat_PAGEOF K)
  have P: "unat (PAGEOF p) = ?F + q div 256 * 256" by (simp only: unat_PAGEOF p K)
  show ?thesis
  proof (cases "(e - 1) div 256 = q div 256")
    case True
    then have "PAGEOF (p + (endaddr - p) - 1) = PAGEOF p" using PL P by (simp only: word_unat_eq_iff)
    moreover have "e \<le> q div 256 * 256 + 256"
      using True div_mult_mod_eq [of "e - 1" 256] mod_less_divisor [of 256 "e - 1"] by linarith
    ultimately show ?thesis using len by (simp add: page_length_def Let_def)
  next
    case False
    then have ne: "PAGEOF (p + (endaddr - p) - 1) \<noteq> PAGEOF p" using PL P by (metis add_left_cancel mult_cancel2 zero_neq_numeral)
    have "q div 256 \<le> (e - 1) div 256" using lt by (intro div_le_mono) simp
    with False have "q div 256 + 1 \<le> (e - 1) div 256" by simp
    then have ge: "q div 256 * 256 + 256 \<le> e"
      using div_times_less_eq_dividend [of "e - 1" 256] by linarith
    have nxt: "unat (p + PGLENB) = ?F + (q + 256)"
      using at_place_add [OF m q, of PGLENB] q by (simp add: PGLENB_def at_place_def)
    have "(q + 256) div 256 = q div 256 + 1" by (simp add: div_add_self2)
    then have "unat (PAGEOF (p + PGLENB)) = ?F + (q div 256 * 256 + 256)"
      by (simp only: unat_PAGEOF nxt K) (simp add: algebra_simps)
    then have "unat (PAGEOF (p + PGLENB) - p) = q div 256 * 256 + 256 - q"
      using unat_minus32 [of p "PAGEOF (p + PGLENB)"] p div_mult_mod_eq [of q 256] mod_less_divisor [of 256 q] by simp
    then show ?thesis using ne ge by (simp add: page_length_def Let_def)
  qed
qed

lemma next_page:
  assumes m: "flash_mapped fm" and q: "at_place fm p q" "q < 2 ^ 24"
  shows "at_place fm (PAGEOF (p + PGLENB)) (q div 256 * 256 + 256)"
proof -
  obtain K where K: "\<And>x. (unat (fm_FLASH fm) + x) div 256 * 256 = unat (fm_FLASH fm) + x div 256 * 256"
    using flash_align [OF m] by metis
  have nxt: "unat (p + PGLENB) = unat (fm_FLASH fm) + (q + 256)"
    using at_place_add [OF m q(1), of PGLENB] q by (simp add: PGLENB_def)
  have "q div 256 < 65536" using q(2) by (simp add: less_mult_imp_div_less)
  have "(q + 256) div 256 = q div 256 + 1" by (simp add: div_add_self2)
  then show ?thesis unfolding at_place_def unat_PAGEOF nxt K using \<open>q div 256 < 65536\<close> by (simp add: algebra_simps)
qed

text \<open>What a part of the write has made of the contents.\<close>

definition fill_in :: "nat \<Rightarrow> u8 list \<Rightarrow> nat \<Rightarrow> nat \<Rightarrow> (nat \<Rightarrow> u8) \<Rightarrow> nat \<Rightarrow> u8" where
  "fill_in A dat q e m x = (if q \<le> x \<and> x < e then dat ! (x - A) else m x)"

lemma fill_in_empty: "e \<le> q \<Longrightarrow> fill_in A dat q e m = m"
  by (auto simp: fill_in_def fun_eq_iff)

lemma fill_in_split: "q \<le> r \<Longrightarrow> r \<le> e \<Longrightarrow> fill_in A dat r e (fill_in A dat q r m) = fill_in A dat q e m"
  by (auto simp: fill_in_def fun_eq_iff)

lemma SECTORSZB_eq: "unat SECTORSZB = 65536" "SECTORSZB = 65536"
  by (simp_all add: SECTORSZB_def NPAGES_def SZPAGEB_def)

lemma pages_cond:
  assumes w: "write_ok fm addr len dat" and p: "at_place fm s0 p" "p + 65536 \<le> 2 ^ 24" and q: "at_place fm a q"
  shows "a < s0 + SECTORSZB \<and> a < addr + len \<longleftrightarrow> q < min (place fm addr + unat len) (p + 65536)"
proof -
  have m: "flash_mapped fm" using w by (simp add: write_ok_def)
  have "unat (s0 + SECTORSZB) = unat (fm_FLASH fm) + (p + 65536)"
    using at_place_add [OF m p(1), of SECTORSZB] p(2) by (simp add: SECTORSZB_eq)
  then show ?thesis using q write_okD(3) [OF w] by (auto simp: word_less_nat_alt at_place_def)
qed

text \<open>One page: what \<open>page_program\<close> is given there, and where the loop goes on.\<close>

lemma one_page_wp:
  assumes b: "flash_board d view lag fm bus" and f: "d < fuel" and w: "write_ok fm addr len dat"
    and s: "chip_idle view lag s" and q: "at_place fm a q" "place fm addr \<le> q" "q < place fm addr + unat len" "4 dvd q"
    and allowed: "\<forall>x. q \<le> x \<and> x < min (place fm addr + unat len) (q div 256 * 256 + 256) \<longrightarrow>
       fv_mem (view s) x AND dat ! (x - place fm addr) = dat ! (x - place fm addr)"
  shows "wp (page_program fuel bus fm a (page_length a (addr + len)) (drop (unat (a - addr)) dat) verify)
      (\<lambda>ok t. ok \<and> chip_idle view lag t \<and>
         fv_mem (view t) = fill_in (place fm addr) dat q (min (place fm addr + unat len) (q div 256 * 256 + 256)) (fv_mem (view s)))
      (\<lambda>_ _. False) s"
proof -
  let ?A = "place fm addr" and ?r = "min (place fm addr + unat len) (q div 256 * 256 + 256)"
  let ?n = "page_length a (addr + len)" and ?dat = "drop (unat (a - addr)) dat"
  have m: "flash_mapped fm" and l4: "4 dvd unat len" "4 dvd ?A" and ld: "unat len \<le> length dat"
    using w by (simp_all add: write_ok_def)
  note wd = write_okD [OF w]
  have "at_place fm (addr + len) (?A + unat len)" using wd by (simp add: at_place_def)
  from page_length_eq [OF m q(1) this q(3)] have n: "unat ?n = ?r - q" .
  have qq: "q = q div 256 * 256 + q mod 256" "q mod 256 < 256" by simp_all
  have lt: "q < ?r" using q(3) qq by simp
  have da: "unat (a - addr) = q - ?A"
    using unat_minus32 [of addr a] q(1,2) wd(1) by (simp add: at_place_def)
  have ua: "unat a = unat (fm_FLASH fm) + q" using q(1) by (simp add: at_place_def)
  have inf: "in_flash fm a (unat ?n)" using ua n wd(2) lt by (simp add: in_flash_def)
  have "4 dvd ?r" using l4 q(4) by (simp add: min_def)
  then have n4: "4 dvd unat ?n" using q(4) n by (simp add: dvd_diff_nat)
  have n256: "place fm a mod 256 + unat ?n \<le> 256"
    using qq lt unfolding at_place_place [OF q(1)] n by linarith
  have "unat ?n \<le> length ?dat" using n lt ld q(2) da by simp
  moreover have "\<forall>i<unat ?n. fv_mem (view s) (place fm a + i) AND ?dat ! i = ?dat ! i"
  proof (intro allI impI)
    fix i assume i: "i < unat ?n"
    then have "?dat ! i = dat ! (q + i - ?A)" using calculation da q(2) by (simp add: nth_drop)
    moreover have "q \<le> q + i \<and> q + i < ?r" using i unfolding n by linarith
    ultimately show "fv_mem (view s) (place fm a + i) AND ?dat ! i = ?dat ! i"
      using allowed unfolding at_place_place [OF q(1)] by metis
  qed
  moreover have "overwrite q (take (unat ?n) ?dat) (fv_mem (view s)) = fill_in ?A dat q ?r (fv_mem (view s))"
  proof (rule ext)
    fix x
    have "length (take (unat ?n) ?dat) = ?r - q" using calculation(1) n by simp
    then show "overwrite q (take (unat ?n) ?dat) (fv_mem (view s)) x = fill_in ?A dat q ?r (fv_mem (view s)) x"
      using lt q(2) da by (auto simp: overwrite_def fill_in_def nth_drop)
  qed
  ultimately show ?thesis
    using page_program_wp [OF b f m s inf _ n4 n256, of ?dat verify] lt n
    unfolding at_place_place [OF q(1)] by (auto elim: wp_mono)
qed

lemma program_pages_wp:
  assumes b: "flash_board d view lag fm bus" and f: "d < fuel" and w: "write_ok fm addr len dat"
    and p: "at_place fm s0 p" "p + 65536 \<le> 2 ^ 24" "256 dvd p"
  shows "chip_idle view lag s \<Longrightarrow> at_place fm a q \<Longrightarrow> place fm addr \<le> q \<Longrightarrow> 4 dvd q \<Longrightarrow>
    p + 65536 \<le> 256 * n + q div 256 * 256 \<Longrightarrow>
    \<forall>x. q \<le> x \<and> x < min (place fm addr + unat len) (p + 65536) \<longrightarrow>
      fv_mem (view s) x AND dat ! (x - place fm addr) = dat ! (x - place fm addr) \<Longrightarrow>
    wp (program_pages (Suc n) fuel bus fm s0 addr len dat verify a)
      (\<lambda>ok t. ok \<and> chip_idle view lag t \<and>
         fv_mem (view t) = fill_in (place fm addr) dat q (min (place fm addr + unat len) (p + 65536)) (fv_mem (view s)))
      (\<lambda>_ _. False) s"
proof (induction n arbitrary: s a q)
  case 0
  then have "p + 65536 \<le> q" using div_mult_mod_eq [of q 256] by linarith
  then have e: "min (place fm addr + unat len) (p + 65536) \<le> q" by simp
  then have "\<not> (a < s0 + SECTORSZB \<and> a < addr + len)"
    unfolding pages_cond [OF w p(1,2) "0.prems"(2)] by linarith
  with "0.prems"(1) show ?case by (auto simp: wp_simps fill_in_empty [OF e])
next
  case (Suc n)
  let ?A = "place fm addr" and ?E = "min (place fm addr + unat len) (p + 65536)" and ?q = "q div 256 * 256 + 256"
  let ?r = "min (place fm addr + unat len) ?q"
  show ?case
  proof (cases "q < ?E")
    case False
    then have e: "?E \<le> q" by linarith
    then have "\<not> (a < s0 + SECTORSZB \<and> a < addr + len)"
      unfolding pages_cond [OF w p(1,2) Suc.prems(2)] by linarith
    with Suc.prems(1) show ?thesis by (auto simp: wp_simps fill_in_empty [OF e])
  next
    case True
    then have go: "a < s0 + SECTORSZB \<and> a < addr + len" using pages_cond [OF w p(1,2) Suc.prems(2)] by simp
    have q: "q < ?A + unat len" "q < p + 65536" using True by simp_all
    have "?q \<le> p + 65536"
    proof -
      obtain k where k: "p = 256 * k" using p(3) by (rule dvdE)
      with q(2) have "q div 256 < k + 256" by (simp add: less_mult_imp_div_less)
      then show ?thesis by (simp add: k)
    qed
    then have r: "?r \<le> ?E" "q \<le> ?r" "fill_in ?A dat ?q ?E m = fill_in ?A dat ?r ?E m" for m
      using q(1) div_mult_mod_eq [of q 256] mod_less_divisor [of 256 q]
      by (simp, linarith) (auto simp: fill_in_def fun_eq_iff min_def)
    have m: "flash_mapped fm" using w by (simp add: write_ok_def)
    have nxt: "at_place fm (PAGEOF (a + PGLENB)) ?q"
      by (rule next_page [OF m Suc.prems(2)]) (use q(2) p(2) in linarith)
    have lower: "\<forall>x. q \<le> x \<and> x < ?r \<longrightarrow> fv_mem (view s) x AND dat ! (x - ?A) = dat ! (x - ?A)"
      using Suc.prems(6) r(1) by (meson less_le_trans)
    have fuel: "p + 65536 \<le> 256 * n + ?q div 256 * 256"
      using Suc.prems(5) by simp
    show ?thesis
      unfolding program_pages.simps(2) [of "Suc n"] if_P [OF go]
    proof (rule wp_seq [OF one_page_wp [OF b f w Suc.prems(1-3) q(1) Suc.prems(4) lower]])
      fix ok t
      assume t: "ok \<and> chip_idle view lag t \<and> fv_mem (view t) = fill_in ?A dat q ?r (fv_mem (view s))"
      have "\<forall>x. ?q \<le> x \<and> x < ?E \<longrightarrow> fv_mem (view t) x AND dat ! (x - ?A) = dat ! (x - ?A)"
        using t Suc.prems(6) r(2) by (auto simp: fill_in_def)
      moreover have "?A \<le> ?q" "4 dvd ?q"
        using Suc.prems(3) div_mult_mod_eq [of q 256] mod_less_divisor [of 256 q] by (linarith, simp add: dvd_add)
      ultimately have "wp (program_pages (Suc n) fuel bus fm s0 addr len dat verify (PAGEOF (a + PGLENB)))
          (\<lambda>ok u. ok \<and> chip_idle view lag u \<and> fv_mem (view u) = fill_in ?A dat ?q ?E (fv_mem (view t))) (\<lambda>_ _. False) t"
        using Suc.IH [OF _ nxt] fuel t by blast
      then show "wp (if \<not> ok then retS False else program_pages (Suc n) fuel bus fm s0 addr len dat verify (PAGEOF (a + PGLENB)))
          (\<lambda>ok u. ok \<and> chip_idle view lag u \<and> fv_mem (view u) = fill_in ?A dat q ?E (fv_mem (view s))) (\<lambda>_ _. False) t"
        using t unfolding r(3) by (simp add: fill_in_split [OF r(2,1)])
    qed
  qed
qed

subsection \<open>A sector\<close>

lemma all_less_Suc_split: "(\<forall>k<Suc n. P k) \<longleftrightarrow> P 0 \<and> (\<forall>k<n. P (Suc k))"
  and ex_less_Suc_split: "(\<exists>k<Suc n. P k) \<longleftrightarrow> P 0 \<or> (\<exists>k<n. P (Suc k))"
  using less_Suc_eq_0_disj by auto

lemma compare_sector_spec:
  "compare_sector i base sbuf dp newv = (ne, nv) \<Longrightarrow> length sbuf \<le> length dp \<Longrightarrow>
   \<forall>k<length sbuf. of_nat ((i + k) div 4 * 4) + base \<noteq> 0 \<Longrightarrow>
   (ne \<longleftrightarrow> (\<exists>k<length sbuf. sbuf ! k AND dp ! k \<noteq> dp ! k)) \<and> (ne \<longrightarrow> nv \<noteq> 0) \<and>
   (\<not> ne \<longrightarrow> (if newv \<noteq> 0 then nv = newv else if nv = 0 then \<forall>k<length sbuf. sbuf ! k = dp ! k
      else \<exists>k<length sbuf. nv = of_nat ((i + k) div 4 * 4) + base \<and> (\<forall>j<k. sbuf ! j = dp ! j)))"
proof (induction i base sbuf dp newv rule: compare_sector.induct)
  case (1 i base c sbuf d dp newv)
  have base0: "of_nat (i div 4 * 4) + base \<noteq> 0" using "1.prems"(3) by (metis add_0_right length_Cons zero_less_Suc)
  show ?case
  proof (cases "c AND d = d")
    case False
    then show ?thesis using "1.prems"(1) base0 by auto
  next
    case True
    let ?nv = "if c \<noteq> d \<and> newv = 0 then of_nat (i div 4 * 4) + base else newv"
    have "\<forall>k<length sbuf. of_nat ((i + 1 + k) div 4 * 4) + base \<noteq> 0"
    proof (intro allI impI)
      fix k assume "k < length sbuf"
      with "1.prems"(3) [rule_format, of "Suc k"] show "of_nat ((i + 1 + k) div 4 * 4) + base \<noteq> 0" by simp
    qed
    moreover have "compare_sector (i + 1) base sbuf dp ?nv = (ne, nv)" "length sbuf \<le> length dp" "\<not> c AND d \<noteq> d"
      using "1.prems"(1,2) True by simp_all
    ultimately have IH: "(ne \<longleftrightarrow> (\<exists>k<length sbuf. sbuf ! k AND dp ! k \<noteq> dp ! k)) \<and> (ne \<longrightarrow> nv \<noteq> 0) \<and>
      (\<not> ne \<longrightarrow> (if ?nv \<noteq> 0 then nv = ?nv else if nv = 0 then \<forall>k<length sbuf. sbuf ! k = dp ! k
         else \<exists>k<length sbuf. nv = of_nat ((i + 1 + k) div 4 * 4) + base \<and> (\<forall>j<k. sbuf ! j = dp ! j)))"
      by (intro "1.IH")
    have all: "(\<forall>k<length (c # sbuf). (c # sbuf) ! k = (d # dp) ! k) \<longleftrightarrow> c = d \<and> (\<forall>k<length sbuf. sbuf ! k = dp ! k)"
      and ex: "(\<exists>k<length (c # sbuf). (c # sbuf) ! k AND (d # dp) ! k \<noteq> (d # dp) ! k) \<longleftrightarrow>
        (\<exists>k<length sbuf. sbuf ! k AND dp ! k \<noteq> dp ! k)"
      using True by (auto simp: all_less_Suc_split ex_less_Suc_split)
    show ?thesis
      unfolding all ex
    proof (intro conjI impI)
      show "ne \<longleftrightarrow> (\<exists>k<length sbuf. sbuf ! k AND dp ! k \<noteq> dp ! k)" by (rule conjunct1 [OF IH])
      show "nv \<noteq> 0" if ne using conjunct1 [OF conjunct2 [OF IH]] that by (rule mp)
      assume "\<not> ne"
      with conjunct2 [OF conjunct2 [OF IH]]
      have rest: "if ?nv \<noteq> 0 then nv = ?nv else if nv = 0 then \<forall>k<length sbuf. sbuf ! k = dp ! k
         else \<exists>k<length sbuf. nv = of_nat ((i + 1 + k) div 4 * 4) + base \<and> (\<forall>j<k. sbuf ! j = dp ! j)"
        by (rule mp)
      show "if newv \<noteq> 0 then nv = newv else if nv = 0 then c = d \<and> (\<forall>k<length sbuf. sbuf ! k = dp ! k)
        else \<exists>k<length (c # sbuf). nv = of_nat ((i + k) div 4 * 4) + base \<and> (\<forall>j<k. (c # sbuf) ! j = (d # dp) ! j)"
      proof (cases "newv = 0")
        case False
        then have "?nv = newv" by simp
        with rest False show ?thesis by metis
      next
        case newv: True
        show ?thesis
        proof (cases "c = d")
          case False
          with newv have "?nv = of_nat (i div 4 * 4) + base" by simp
          with rest base0 have nv: "nv = of_nat (i div 4 * 4) + base" by metis
          show ?thesis
            unfolding newv nv using base0 by (auto intro: exI [of _ "0 :: nat"])
        next
          case True
          with newv have "?nv = 0" by simp
          with rest consider "nv = 0" "\<forall>k<length sbuf. sbuf ! k = dp ! k"
            | k where "nv \<noteq> 0" "k < length sbuf" "nv = of_nat ((i + 1 + k) div 4 * 4) + base" "\<forall>j<k. sbuf ! j = dp ! j"
            by metis
          then show ?thesis
          proof cases
            case (2 k)
            then have "Suc k < length (c # sbuf) \<and> nv = of_nat ((i + Suc k) div 4 * 4) + base \<and>
                (\<forall>j<Suc k. (c # sbuf) ! j = (d # dp) ! j)"
              using True by (simp add: all_less_Suc_split)
            with 2(1) newv show ?thesis by metis
          qed (simp add: newv True)
        qed
      qed
    qed
  qed
qed auto

text \<open>The comparison, in terms of the positions from \<open>B\<close> up to \<open>E\<close>: \<open>m\<close> is there, \<open>D\<close> is wanted.\<close>

lemma compare_at:
  assumes cmp: "compare_sector 0 base sb dp 0 = (ne, nv)"
    and sb: "length sb = E - B" "length sb \<le> length dp"
    and at: "\<forall>k<E - B. sb ! k = m (B + k) \<and> dp ! k = D (B + k)"
    and nz: "\<forall>k<E - B. of_nat (k div 4 * 4) + base \<noteq> 0"
  shows "ne \<longleftrightarrow> (\<exists>x. B \<le> x \<and> x < E \<and> m x AND D x \<noteq> D x)" and "ne \<Longrightarrow> nv \<noteq> 0"
    and "\<not> ne \<Longrightarrow> nv = 0 \<Longrightarrow> \<forall>x. B \<le> x \<and> x < E \<longrightarrow> m x = D x"
    and "\<not> ne \<Longrightarrow> nv \<noteq> 0 \<Longrightarrow>
      \<exists>k<E - B. nv = of_nat (k div 4 * 4) + base \<and> (\<forall>x. B \<le> x \<and> x < B + k \<longrightarrow> m x = D x)"
proof -
  have "\<forall>k<length sb. of_nat ((0 + k) div 4 * 4) + base \<noteq> 0" using nz by (simp add: sb(1))
  note spec = compare_sector_spec [OF cmp sb(2) this, unfolded sb(1) add_0]
  have pos: "(\<forall>x. B \<le> x \<and> x < B + n \<longrightarrow> P x) \<longleftrightarrow> (\<forall>k<n. P (B + k))" for P n
    by (metis add_less_cancel_left le_add1 le_iff_add)
  have upto: "(\<forall>x. B \<le> x \<and> x < E \<longrightarrow> P x) \<longleftrightarrow> (\<forall>k<E - B. P (B + k))" for P
    using pos [of "E - B" P] by (cases "B \<le> E") auto
  have "(\<exists>x. B \<le> x \<and> x < E \<and> m x AND D x \<noteq> D x) \<longleftrightarrow> (\<exists>k<E - B. m (B + k) AND D (B + k) \<noteq> D (B + k))"
    using upto [of "\<lambda>x. m x AND D x = D x"] by blast
  then show "ne \<longleftrightarrow> (\<exists>x. B \<le> x \<and> x < E \<and> m x AND D x \<noteq> D x)"
    using conjunct1 [OF spec] at by auto
  show "ne \<Longrightarrow> nv \<noteq> 0" using conjunct1 [OF conjunct2 [OF spec]] by (rule mp)
  show "\<not> ne \<Longrightarrow> nv = 0 \<Longrightarrow> \<forall>x. B \<le> x \<and> x < E \<longrightarrow> m x = D x"
    unfolding upto using conjunct2 [OF conjunct2 [OF spec]] at by simp
  show "\<exists>k<E - B. nv = of_nat (k div 4 * 4) + base \<and> (\<forall>x. B \<le> x \<and> x < B + k \<longrightarrow> m x = D x)" if "\<not> ne" "nv \<noteq> 0"
  proof -
    have "\<exists>k<E - B. nv = of_nat (k div 4 * 4) + base \<and> (\<forall>j<k. sb ! j = dp ! j)"
      using mp [OF conjunct2 [OF conjunct2 [OF spec]] that(1)] that(2) by (simp only: if_False not_not simp_thms)
    then obtain k where "k < E - B" "nv = of_nat (k div 4 * 4) + base" "\<forall>j<k. sb ! j = dp ! j" by blast
    with at show ?thesis unfolding pos by (metis less_trans)
  qed
qed

text \<open>The bytes that are read, as the driver turns them.\<close>

lemma sector_bytes_eq:
  assumes "length ws = n div 4" "4 dvd n" "\<forall>k<n. be_byte ws k = f k"
  shows "sector_bytes g n ws = Inr (map f [0..<n])"
proof -
  have w: "byteswapbuf (n div 4) ws = Inr (map byteswap ws)"
    using assms(1) by (simp add: byteswapbuf_eq)
  have ws: "map byteswap (map byteswap ws) = ws" by (simp add: comp_def)
  have n: "4 * (n div 4) = n" using assms(2) by simp
  have "le_byte (map byteswap ws) k = f k" if "k < n" for k
    using be_byte_byteswap [of k "map byteswap ws"] that assms(1,3) n unfolding ws by simp
  then show ?thesis unfolding sector_bytes_def w n le_byte_def by simp
qed

lemma ff_and: "(0xff :: u8) AND x = x"
proof -
  have "(0xff :: u8) = - 1" by simp
  then show ?thesis by (simp only: and.left_neutral)
qed

lemma fill_in_same: "(\<And>x. q \<le> x \<Longrightarrow> x < e \<Longrightarrow> m x = dat ! (x - A)) \<Longrightarrow> fill_in A dat q e m = m"
  by (auto simp: fill_in_def fun_eq_iff)

definition sector_after :: "nat \<Rightarrow> nat \<Rightarrow> u8 list \<Rightarrow> nat \<Rightarrow> (nat \<Rightarrow> u8) \<Rightarrow> nat \<Rightarrow> u8" where
  "sector_after A n dat p m =
     fill_in A dat (max A p) (min (A + n) (p + 65536))
       (if \<exists>x. max A p \<le> x \<and> x < min (A + n) (p + 65536) \<and> m x AND dat ! (x - A) \<noteq> dat ! (x - A)
        then erase_bytes p m else m)"

text \<open>The part of a sector that is written: the address where it starts, and how long it is.\<close>

lemma sector_part:
  assumes w: "write_ok fm addr len dat"
    and p: "at_place fm s0 p" "p + 65536 \<le> 2 ^ 24" "p < place fm addr + unat len" "place fm addr < p + 65536"
  shows "at_place fm (if addr > s0 then addr else s0) (max (place fm addr) p)"
    and "unat ((if addr + len > s0 + SECTORSZB then s0 + SECTORSZB else addr + len) - (if addr > s0 then addr else s0)) =
      min (place fm addr + unat len) (p + 65536) - max (place fm addr) p"
    and "unat ((if addr > s0 then addr else s0) - addr) = max (place fm addr) p - place fm addr"
proof -
  note wd = write_okD [OF w]
  have m: "flash_mapped fm" using w by (simp add: write_ok_def)
  have s0: "unat s0 = unat (fm_FLASH fm) + p" using p(1) by (simp add: at_place_def)
  have e: "unat (s0 + SECTORSZB) = unat (fm_FLASH fm) + (p + 65536)"
    using at_place_add [OF m p(1), of SECTORSZB] p(2) by (simp add: SECTORSZB_eq)
  let ?base = "if addr > s0 then addr else s0" and ?fin = "if addr + len > s0 + SECTORSZB then s0 + SECTORSZB else addr + len"
  have base: "unat ?base = unat (fm_FLASH fm) + max (place fm addr) p"
    using s0 wd(1) by (simp add: word_less_nat_alt)
  have fin: "unat ?fin = unat (fm_FLASH fm) + min (place fm addr + unat len) (p + 65536)"
    using e wd(3) by (simp add: word_less_nat_alt)
  show "at_place fm ?base (max (place fm addr) p)" using base wd(2) p(2) by (simp add: at_place_def)
  have "max (place fm addr) p \<le> min (place fm addr + unat len) (p + 65536)" using p(3,4) by simp
  then show "unat (?fin - ?base) = min (place fm addr + unat len) (p + 65536) - max (place fm addr) p"
    using unat_minus32 [of ?base ?fin] unfolding base fin by simp
  show "unat (?base - addr) = max (place fm addr) p - place fm addr"
    using unat_minus32 [of addr ?base] unfolding base wd(1) by simp
qed

text \<open>What is left of a sector, from some place on, is programmed; after an erase, or where the contents allow it.\<close>

lemma sector_pages_wp:
  assumes b: "flash_board d view lag fm bus" and f: "d < fuel" and w: "write_ok fm addr len dat"
    and p: "at_place fm s0 p" "p + 65536 \<le> 2 ^ 24" "65536 dvd p" and u: "chip_idle view lag u"
    and q: "at_place fm a q" "max (place fm addr) p \<le> q" "4 dvd q"
    and allowed: "\<forall>x. q \<le> x \<and> x < min (place fm addr + unat len) (p + 65536) \<longrightarrow>
      fv_mem (view u) x AND dat ! (x - place fm addr) = dat ! (x - place fm addr)"
  shows "wp (program_pages 257 fuel bus fm s0 addr len dat verify a)
      (\<lambda>ok t. ok \<and> chip_idle view lag t \<and>
        fv_mem (view t) = fill_in (place fm addr) dat q (min (place fm addr + unat len) (p + 65536)) (fv_mem (view u)))
      (\<lambda>_ _. False) u"
proof -
  have p256: "256 dvd p" using p(3) by (auto elim!: dvdE)
  then obtain k where k: "p = 256 * k" by (rule dvdE)
  then have "k \<le> q div 256" using q(2) by (simp add: less_eq_div_iff_mult_less_eq)
  then have "p + 65536 \<le> 256 * 256 + q div 256 * 256" using k by simp
  then show ?thesis
    using program_pages_wp [OF b f w p(1,2) p256 u q(1) _ q(3) _ allowed, of 256] q(2) by simp
qed

lemma sector_erased_wp:
  assumes b: "flash_board d view lag fm bus" and f: "d < fuel" and w: "write_ok fm addr len dat"
    and p: "at_place fm s0 p" "p + 65536 \<le> 2 ^ 24" "65536 dvd p" and u: "chip_idle view lag u"
    and base: "at_place fm base (max (place fm addr) p)" "4 dvd max (place fm addr) p"
  shows "wp (thenS (erase_sector fuel bus fm s0 verify) (\<lambda>ok. if \<not> ok then retS False
        else program_pages 257 fuel bus fm s0 addr len dat verify base))
      (\<lambda>ok t. ok \<and> chip_idle view lag t \<and> fv_mem (view t) = fill_in (place fm addr) dat (max (place fm addr) p)
        (min (place fm addr + unat len) (p + 65536)) (erase_bytes p (fv_mem (view u)))) (\<lambda>_ _. False) u"
proof -
  let ?A = "place fm addr" and ?B = "max (place fm addr) p" and ?E = "min (place fm addr + unat len) (p + 65536)"
  have m: "flash_mapped fm" using w by (simp add: write_ok_def)
  have sec: "in_flash fm s0 65536" "place fm s0 = p"
    using p(1,2) by (simp_all add: in_flash_def at_place_def place_def)
  have "65536 dvd place fm s0" unfolding sec(2) by (rule p(3))
  note erase = erase_sector_wp [OF b f m u sec(1) this, of verify, unfolded sec(2)]
  show ?thesis
  proof (rule wp_seq [OF erase])
    fix ok t
    assume t: "ok \<and> view t = (view u)\<lparr>fv_mem := erase_bytes p (fv_mem (view u)), fv_wel := False\<rparr> \<and> chip_idle view lag t"
    then have mt: "fv_mem (view t) = erase_bytes p (fv_mem (view u))" and idle: "chip_idle view lag t" by simp_all
    have "\<forall>x. ?B \<le> x \<and> x < ?E \<longrightarrow> fv_mem (view t) x AND dat ! (x - ?A) = dat ! (x - ?A)"
      unfolding mt using p(3) by (auto simp: erase_bytes_def ff_and elim!: dvdE)
    from sector_pages_wp [OF b f w p idle base(1) order_refl base(2) this] t
    show "wp (if \<not> ok then retS False else program_pages 257 fuel bus fm s0 addr len dat verify base)
        (\<lambda>ok v. ok \<and> chip_idle view lag v \<and> fv_mem (view v) = fill_in ?A dat ?B ?E (erase_bytes p (fv_mem (view u))))
        (\<lambda>_ _. False) t"
      unfolding mt by simp
  qed
qed

lemma sector_rest_wp:
  assumes b: "flash_board d view lag fm bus" and f: "d < fuel" and w: "write_ok fm addr len dat"
    and p: "at_place fm s0 p" "p + 65536 \<le> 2 ^ 24" "65536 dvd p" and u: "chip_idle view lag u"
    and B: "4 dvd max (place fm addr) p"
    and k: "max (place fm addr) p + k < min (place fm addr + unat len) (p + 65536)"
    and nv: "at_place fm nv (max (place fm addr) p + k div 4 * 4)"
    and same: "\<forall>x. max (place fm addr) p \<le> x \<and> x < max (place fm addr) p + k \<longrightarrow> fv_mem (view u) x = dat ! (x - place fm addr)"
    and allowed: "\<forall>x. max (place fm addr) p \<le> x \<and> x < min (place fm addr + unat len) (p + 65536) \<longrightarrow>
      fv_mem (view u) x AND dat ! (x - place fm addr) = dat ! (x - place fm addr)"
  shows "wp (program_pages 257 fuel bus fm s0 addr len dat verify nv)
      (\<lambda>ok t. ok \<and> chip_idle view lag t \<and> fv_mem (view t) = fill_in (place fm addr) dat (max (place fm addr) p)
        (min (place fm addr + unat len) (p + 65536)) (fv_mem (view u))) (\<lambda>_ _. False) u"
proof -
  let ?A = "place fm addr" and ?B = "max (place fm addr) p" and ?E = "min (place fm addr + unat len) (p + 65536)"
    and ?m = "fv_mem (view u)"
  let ?q = "?B + k div 4 * 4"
  have kk: "k div 4 * 4 \<le> k" by simp
  have "?m x = dat ! (x - ?A)" if "?B \<le> x" "x < ?q" for x
    using same that kk by (metis add_left_mono less_le_trans)
  then have "fill_in ?A dat ?B ?q ?m = ?m" by (rule fill_in_same)
  moreover have "?q \<le> ?E" using k kk by linarith
  ultimately have eq: "fill_in ?A dat ?q ?E ?m = fill_in ?A dat ?B ?E ?m"
    using fill_in_split [OF le_add1, of ?B "k div 4 * 4" ?E ?A dat ?m] by simp
  have "4 dvd ?q" using B by (simp add: dvd_add)
  moreover have "\<forall>x. ?q \<le> x \<and> x < ?E \<longrightarrow> ?m x AND dat ! (x - ?A) = dat ! (x - ?A)"
    using allowed by (meson le_add1 order_trans)
  ultimately show ?thesis
    using sector_pages_wp [OF b f w p u nv le_add1, of verify] unfolding eq by simp
qed

lemma write_sector_wp:
  assumes b: "flash_board d view lag fm bus" and f: "d < fuel" and w: "write_ok fm addr len dat"
    and p: "at_place fm s0 p" "p + 65536 \<le> 2 ^ 24" "p < place fm addr + unat len" "place fm addr < p + 65536" "65536 dvd p"
    and s: "chip_idle view lag s"
  shows "wp (write_sector fuel bus fm g addr len dat verify s0)
      (\<lambda>ok t. ok \<and> chip_idle view lag t \<and>
         fv_mem (view t) = sector_after (place fm addr) (unat len) dat p (fv_mem (view s))) (\<lambda>_ _. False) s"
proof -
  let ?A = "place fm addr" and ?B = "max (place fm addr) p" and ?E = "min (place fm addr + unat len) (p + 65536)"
    and ?m = "fv_mem (view s)"
  define base where "base = (if addr > s0 then addr else s0)"
  define ln where "ln = (if addr + len > s0 + SECTORSZB then s0 + SECTORSZB else addr + len) - base"
  define dp where "dp = drop (unat (base - addr)) dat"
  have m: "flash_mapped fm" and l4: "4 dvd unat len" "4 dvd ?A" and ld: "unat len \<le> length dat"
    using w by (simp_all add: write_ok_def)
  note wd = write_okD [OF w]
  have base: "at_place fm base ?B" and ln: "unat ln = ?E - ?B" and off: "unat (base - addr) = ?B - ?A"
    using sector_part [OF w p(1-4)] by (simp_all only: base_def ln_def)
  have BE: "?B < ?E" using w p(3,4) by (simp add: write_ok_def)
  have p4: "4 dvd p" "256 dvd p" using p(5) by (auto elim!: dvdE)
  have "4 dvd p + 65536" using p4(1) by (rule dvd_add) simp
  then have B4: "4 dvd ?B" and E4: "4 dvd ?E" using l4 p4(1) by (simp_all add: max_def min_def)
  then have ln4: "4 dvd unat ln" unfolding ln by (intro dvd_diff_nat)
  then have n4: "4 * (unat ln div 4) = unat ln" by simp
  have inf: "in_flash fm base (4 * (unat ln div 4))"
    using base BE p(2) unfolding n4 ln in_flash_def at_place_def by linarith
  have AB: "?A \<le> ?B" by simp
  have dp: "length dp = length dat - (?B - ?A)" "\<And>k. ?B + k < ?E \<Longrightarrow> dp ! k = dat ! (?B + k - ?A)"
  proof -
    fix k assume "?B + k < ?E"
    then have "?B - ?A \<le> length dat" "?B - ?A + k = ?B + k - ?A" using ld AB by linarith+
    then show "dp ! k = dat ! (?B + k - ?A)" unfolding dp_def off by (simp only: nth_drop)
  qed (simp add: dp_def off)
  have dplen: "unat ln \<le> length dp" using ld p(3,4) unfolding ln dp(1) by linarith
  show ?thesis
    unfolding write_sector_def Let_def
    apply (fold base_def)
    apply (fold ln_def dp_def)
  proof (rule wp_seq [OF word_read [OF b s inf]], goal_cases)
    case u: (1 ws u)
    have bytes: "sector_bytes g (unat ln) ws = Inr (map (\<lambda>k. ?m (?B + k)) [0..<unat ln])" (is "_ = Inr ?sb")
      using u ln4 unfolding n4 at_place_place [OF base] by (intro sector_bytes_eq) simp_all
    have sb: "length ?sb = unat ln" "\<And>k. k < unat ln \<Longrightarrow> ?sb ! k = ?m (?B + k)" by simp_all
    have addrs: "\<forall>k<unat ln. unat (of_nat (k div 4 * 4) + base) = unat (fm_FLASH fm) + (?B + k div 4 * 4)"
    proof (intro allI impI)
      fix k assume k: "k < unat ln"
      have "k div 4 * 4 \<le> k" by simp
      then have kk: "?B + k div 4 * 4 \<le> 2 ^ 24" using k p(2) unfolding ln by linarith
      then have "unat (of_nat (k div 4 * 4) :: u32) = k div 4 * 4"
        by (simp only: unsigned_of_nat) (simp add: take_bit_nat_eq_self)
      then show "unat (of_nat (k div 4 * 4) + base) = unat (fm_FLASH fm) + (?B + k div 4 * 4)"
        using at_place_add [OF m base, of "of_nat (k div 4 * 4)"] kk by (simp add: add.commute)
    qed
    then have nz: "\<forall>k<?E - ?B. of_nat (k div 4 * 4) + base \<noteq> 0"
      using m unfolding ln flash_mapped_def by (metis add_gr_0 less_not_refl unsigned_0)
    obtain ne nv where cmp: "compare_sector 0 base ?sb dp 0 = (ne, nv)" by (cases "compare_sector 0 base ?sb dp 0")
    have at: "\<forall>k<?E - ?B. ?sb ! k = ?m (?B + k) \<and> dp ! k = dat ! (?B + k - ?A)"
      using sb(2) dp(2) unfolding ln by (metis add.commute less_diff_conv)
    have sbl: "length ?sb = ?E - ?B" "length ?sb \<le> length dp" using dplen unfolding ln by simp_all
    note lower = compare_at [of base ?sb dp ne nv ?E ?B ?m "\<lambda>x. dat ! (x - ?A)", OF cmp sbl at nz]
    have after: "sector_after ?A (unat len) dat p ?m = fill_in ?A dat ?B ?E (if ne then erase_bytes p ?m else ?m)"
      unfolding sector_after_def lower(1) by (rule refl)
    have enough: "\<not> length dp < length ?sb" using dplen by simp
    have uidle: "chip_idle view lag u" and um: "fv_mem (view u) = ?m" using u by simp_all
    let ?Q = "\<lambda>ok t. ok \<and> chip_idle view lag t \<and> fv_mem (view t) = sector_after ?A (unat len) dat p ?m"
    have "wp (if nv = 0 then retS True
        else if ne then thenS (erase_sector fuel bus fm s0 verify) (\<lambda>ok. if \<not> ok then retS False
            else program_pages 257 fuel bus fm s0 addr len dat verify (if s0 < addr then addr else s0))
        else program_pages 257 fuel bus fm s0 addr len dat verify nv) ?Q (\<lambda>_ _. False) u"
    proof (cases ne)
      case True
      from sector_erased_wp [OF b f w p(1,2,5) uidle base B4, of verify] True
      have "wp (thenS (erase_sector fuel bus fm s0 verify) (\<lambda>ok. if \<not> ok then retS False
            else program_pages 257 fuel bus fm s0 addr len dat verify base)) ?Q (\<lambda>_ _. False) u"
        unfolding um after by simp
      then show ?thesis unfolding if_P [OF True] if_not_P [OF lower(2) [OF True]] base_def .
    next
      case False
      show ?thesis
      proof (cases "nv = 0")
        case True
        have "fill_in ?A dat ?B ?E ?m = ?m"
          using lower(3) [OF False True] by (intro fill_in_same) blast
        with True False show ?thesis using uidle um after by (simp add: wp_simps)
      next
        case nz: False
        then obtain k where k: "k < unat ln" "nv = of_nat (k div 4 * 4) + base"
          "\<forall>x. ?B \<le> x \<and> x < ?B + k \<longrightarrow> ?m x = dat ! (x - ?A)"
          using lower(4) [OF False] unfolding ln by blast
        have kk: "k div 4 * 4 \<le> k" by simp
        have q: "at_place fm nv (?B + k div 4 * 4)"
          using addrs k(1) kk p(2) unfolding k(2) at_place_def ln by simp
        have kE: "?B + k < ?E" using k(1) unfolding ln by linarith
        have "\<forall>x. ?B \<le> x \<and> x < ?E \<longrightarrow> ?m x AND dat ! (x - ?A) = dat ! (x - ?A)" using lower(1) False by simp
        then have "wp (program_pages 257 fuel bus fm s0 addr len dat verify nv) ?Q (\<lambda>_ _. False) u"
          using sector_rest_wp [OF b f w p(1,2,5) uidle B4 kE q, of verify] k(3) unfolding um after if_not_P [OF False] by blast
        with False nz show ?thesis by simp
      qed
    qed
    then show ?case
      unfolding bytes liftS_Inr thenS_retS cmp Let_def prod.case if_not_P [OF enough] unfolding base_def .
  qed
qed

subsection \<open>A write\<close>

text \<open>A sector loses what it held beside the written bytes when one of them needs a bit set.\<close>

definition sector_erased :: "nat \<Rightarrow> nat \<Rightarrow> u8 list \<Rightarrow> (nat \<Rightarrow> u8) \<Rightarrow> nat \<Rightarrow> bool" where
  "sector_erased A n dat m k \<longleftrightarrow>
     (\<exists>x. A \<le> x \<and> x < A + n \<and> x div 65536 = k \<and> m x AND dat ! (x - A) \<noteq> dat ! (x - A))"

text \<open>The contents after the sectors below \<open>p\<close> have been written.\<close>

definition written_below :: "nat \<Rightarrow> nat \<Rightarrow> u8 list \<Rightarrow> nat \<Rightarrow> (nat \<Rightarrow> u8) \<Rightarrow> nat \<Rightarrow> u8" where
  "written_below A n dat p m x =
     (if p \<le> x then m x
      else if A \<le> x \<and> x < A + n then dat ! (x - A)
      else if sector_erased A n dat m (x div 65536) then 0xff else m x)"

lemma in_sector:
  assumes "65536 dvd p"
  shows "x div 65536 = p div 65536 \<longleftrightarrow> p \<le> x \<and> x < p + (65536 :: nat)"
proof -
  from assms obtain k where p: "p = 65536 * k" by (rule dvdE)
  show ?thesis
    using div_mult_mod_eq [of x 65536] mod_less_divisor [of 65536 x] div_nat_eqI [of 65536 k x] unfolding p by auto
qed

lemma written_below_step:
  assumes "65536 dvd p"
  shows "sector_after A n dat p (written_below A n dat p m) = written_below A n dat (p + 65536) m"
proof (rule ext)
  fix x
  have sec: "y div 65536 = p div 65536 \<longleftrightarrow> p \<le> y \<and> y < p + 65536" for y by (rule in_sector [OF assms])
  have er: "(\<exists>y. max A p \<le> y \<and> y < min (A + n) (p + 65536) \<and>
      written_below A n dat p m y AND dat ! (y - A) \<noteq> dat ! (y - A)) \<longleftrightarrow> sector_erased A n dat m (p div 65536)"
    unfolding sector_erased_def sec by (auto simp: written_below_def)
  show "sector_after A n dat p (written_below A n dat p m) x = written_below A n dat (p + 65536) m x"
  proof (cases "p \<le> x \<and> x < p + 65536")
    case True
    then have "x div 65536 = p div 65536" by (simp only: sec)
    with True show ?thesis unfolding sector_after_def er by (auto simp: fill_in_def erase_bytes_def written_below_def)
  next
    case False
    then have "x div 65536 \<noteq> p div 65536" unfolding sec .
    with False show ?thesis unfolding sector_after_def er by (auto simp: fill_in_def erase_bytes_def written_below_def)
  qed
qed

text \<open>The contents after the write.\<close>

definition flash_after :: "nat \<Rightarrow> nat \<Rightarrow> u8 list \<Rightarrow> (nat \<Rightarrow> u8) \<Rightarrow> nat \<Rightarrow> u8" where
  "flash_after A n dat m x =
     (if A \<le> x \<and> x < A + n then dat ! (x - A)
      else if sector_erased A n dat m (x div 65536) then 0xff else m x)"

lemma sector_erased_bounds:
  "sector_erased A n dat m k \<Longrightarrow> A div 65536 \<le> k \<and> 65536 * k < A + n"
  unfolding sector_erased_def by (auto intro: div_le_mono order_le_less_trans [OF times_div_less_eq_dividend])

lemma written_below_first: "written_below A n dat (A div 65536 * 65536) m = m"
proof (rule ext)
  fix x
  have "\<not> sector_erased A n dat m (x div 65536)" if "x < A div 65536 * 65536"
    using less_mult_imp_div_less [OF that] sector_erased_bounds [of A n dat m "x div 65536"] by linarith
  moreover have "\<not> A \<le> x" if "x < A div 65536 * 65536"
    using that div_times_less_eq_dividend [of A 65536] by linarith
  ultimately show "written_below A n dat (A div 65536 * 65536) m x = m x" by (simp add: written_below_def)
qed

lemma written_below_all:
  assumes "A + n \<le> p" "65536 dvd p"
  shows "written_below A n dat p m = flash_after A n dat m"
proof (rule ext)
  fix x
  obtain k where p: "p = 65536 * k" using assms(2) by (rule dvdE)
  have "\<not> sector_erased A n dat m (x div 65536)" if "p \<le> x"
  proof
    assume "sector_erased A n dat m (x div 65536)"
    then have "65536 * (x div 65536) < 65536 * k" using sector_erased_bounds assms(1) p by fastforce
    moreover have "k \<le> x div 65536" using that p by (simp add: less_eq_div_iff_mult_less_eq mult.commute)
    ultimately show False by simp
  qed
  then show "written_below A n dat p m x = flash_after A n dat m x"
    using assms(1) by (auto simp: written_below_def flash_after_def)
qed

lemma sectors_cond:
  assumes w: "write_ok fm addr len dat" and p: "at_place fm s0 p" "65536 dvd p"
  shows "s0 < SECTOROF (addr + len + SECTORSZB - 1) \<longleftrightarrow> p < place fm addr + unat len"
proof -
  let ?e = "place fm addr + unat len"
  have m: "flash_mapped fm" using w by (simp add: write_ok_def)
  note wd = write_okD [OF w]
  obtain K where K: "\<And>x. (unat (fm_FLASH fm) + x) div 65536 * 65536 = unat (fm_FLASH fm) + x div 65536 * 65536"
    using flash_align [OF m] by metis
  have "at_place fm (addr + len) ?e" using wd by (simp add: at_place_def)
  from at_place_add [OF m this, of SECTORSZB] wd(2)
  have "unat (addr + len + SECTORSZB) = unat (fm_FLASH fm) + (?e + 65536)" by (simp add: SECTORSZB_eq)
  then have "unat (addr + len + SECTORSZB - 1) = unat (fm_FLASH fm) + (?e + 65535)"
    using unat_minus32 [of 1 "addr + len + SECTORSZB"] by simp
  then have "unat (SECTOROF (addr + len + SECTORSZB - 1)) = unat (fm_FLASH fm) + (?e + 65535) div 65536 * 65536"
    by (simp only: unat_SECTOROF K)
  then have "s0 < SECTOROF (addr + len + SECTORSZB - 1) \<longleftrightarrow> p < (?e + 65535) div 65536 * 65536"
    using p(1) by (simp add: word_less_nat_alt at_place_def)
  also have "\<dots> \<longleftrightarrow> p < ?e"
  proof -
    obtain k where k: "p = 65536 * k" using p(2) by (rule dvdE)
    have "k < (?e + 65535) div 65536 \<longleftrightarrow> Suc k * 65536 \<le> ?e + 65535"
      by (simp only: Suc_le_eq [symmetric] less_eq_div_iff_mult_less_eq [of 65536, simplified])
    also have "\<dots> \<longleftrightarrow> p < ?e" unfolding k by auto
    finally show ?thesis unfolding k by auto
  qed
  finally show ?thesis .
qed

lemma write_sectors_wp:
  assumes b: "flash_board d view lag fm bus" and f: "d < fuel" and w: "write_ok fm addr len dat"
  shows "chip_idle view lag s \<Longrightarrow> at_place fm s0 p \<Longrightarrow> 65536 dvd p \<Longrightarrow> place fm addr < p + 65536 \<Longrightarrow>
    place fm addr + unat len \<le> p + 65536 * n \<Longrightarrow>
    fv_mem (view s) = written_below (place fm addr) (unat len) dat p m0 \<Longrightarrow>
    wp (write_sectors (Suc n) fuel bus fm g addr len dat verify s0)
      (\<lambda>ok t. ok \<and> chip_idle view lag t \<and> fv_mem (view t) = flash_after (place fm addr) (unat len) dat m0)
      (\<lambda>_ _. False) s"
proof (induction n arbitrary: s s0 p)
  case 0
  then have e: "place fm addr + unat len \<le> p" by simp
  then have "\<not> s0 < SECTOROF (addr + len + SECTORSZB - 1)"
    unfolding sectors_cond [OF w "0.prems"(2,3)] by simp
  then show ?case using "0.prems"(1,6) written_below_all [OF e "0.prems"(3)] by (simp add: wp_simps)
next
  case (Suc n)
  let ?A = "place fm addr"
  show ?case
  proof (cases "p < ?A + unat len")
    case False
    then have e: "?A + unat len \<le> p" by simp
    then have "\<not> s0 < SECTOROF (addr + len + SECTORSZB - 1)"
      unfolding sectors_cond [OF w Suc.prems(2,3)] by simp
    then show ?thesis using Suc.prems(1,6) written_below_all [OF e Suc.prems(3)] by (simp add: wp_simps)
  next
    case True
    then have go: "s0 < SECTOROF (addr + len + SECTORSZB - 1)" unfolding sectors_cond [OF w Suc.prems(2,3)] .
    have m: "flash_mapped fm" using w by (simp add: write_ok_def)
    have p24: "p + 65536 \<le> 2 ^ 24"
    proof -
      obtain k where "p = 65536 * k" using Suc.prems(3) by (rule dvdE)
      with True write_okD(2) [OF w] show ?thesis by simp
    qed
    have nxt: "at_place fm (s0 + SECTORSZB) (p + 65536)"
      using at_place_add [OF m Suc.prems(2), of SECTORSZB] p24 by (simp add: at_place_def SECTORSZB_eq)
    show ?thesis
      unfolding write_sectors.simps(2) [of "Suc n"] if_P [OF go]
    proof (rule wp_seq [OF write_sector_wp [OF b f w Suc.prems(2) p24 True Suc.prems(4,3,1)]])
      fix ok t
      assume t: "ok \<and> chip_idle view lag t \<and> fv_mem (view t) = sector_after ?A (unat len) dat p (fv_mem (view s))"
      then have "fv_mem (view t) = written_below ?A (unat len) dat (p + 65536) m0"
        using Suc.prems(6) written_below_step [OF Suc.prems(3)] by simp
      moreover have "65536 dvd p + 65536" using Suc.prems(3) by (rule dvd_add) simp
      ultimately show "wp (if \<not> ok then retS False else write_sectors (Suc n) fuel bus fm g addr len dat verify (s0 + SECTORSZB))
          (\<lambda>ok t. ok \<and> chip_idle view lag t \<and> fv_mem (view t) = flash_after ?A (unat len) dat m0) (\<lambda>_ _. False) t"
        using Suc.IH [OF _ nxt] t Suc.prems(4,5) by simp
    qed
  qed
qed

text \<open>C25. \<open>FLASHDRVR::write\<close> returns true, and then the flash holds the data in the range that was given. Each
  other byte is as before, unless the write has to set a bit somewhere in its sector: the sector is
  then erased, and the rest of it stays erased. The range lies in the flash, starts at a word and
  consists of words; the chip finishes each operation after a bounded number of looks at its status.\<close>

theorem flash_write_writes:
  assumes "flash_board d view lag fm bus" and "d < fuel" and "write_ok fm addr len dat" and "chip_idle view lag s"
  shows "wp (flash_write fuel bus fm g addr len dat verify)
      (\<lambda>ok t. ok \<and> chip_idle view lag t \<and>
         (\<forall>x. fv_mem (view t) x =
            (if place fm addr \<le> x \<and> x < place fm addr + unat len then dat ! (x - place fm addr)
             else if sector_erased (place fm addr) (unat len) dat (fv_mem (view s)) (x div 65536) then 0xff
             else fv_mem (view s) x)))
      (\<lambda>_ _. False) s"
proof -
  note b = assms(1) and w = assms(3)
  let ?A = "place fm addr"
  have m: "flash_mapped fm" using w by (simp add: write_ok_def)
  note wd = write_okD [OF w]
  obtain K where K: "\<And>x. (unat (fm_FLASH fm) + x) div 65536 * 65536 = unat (fm_FLASH fm) + x div 65536 * 65536"
    using flash_align [OF m] by metis
  let ?p = "?A div 65536 * 65536"
  have p: "?p \<le> ?A" "?A < ?p + 65536" using div_mult_mod_eq [of ?A 65536] mod_less_divisor [of 65536 ?A] by linarith+
  have "unat (SECTOROF addr) = unat (fm_FLASH fm) + ?p" by (simp only: unat_SECTOROF wd(1) K)
  then have s0: "at_place fm (SECTOROF addr) ?p" using p(1) wd(2) by (simp add: at_place_def)
  have "?A + unat len \<le> ?p + 65536 * 65535" using wd(2) by simp
  moreover have "(65536 :: nat) dvd ?p" by simp
  ultimately have sectors: "wp (write_sectors 65536 fuel bus fm g addr len dat verify (SECTOROF addr))
      (\<lambda>ok t. ok \<and> chip_idle view lag t \<and> fv_mem (view t) = flash_after ?A (unat len) dat (fv_mem (view s))) (\<lambda>_ _. False) s"
    using write_sectors_wp [OF b assms(2) w assms(4) s0 _ p(2), of 65535 "fv_mem (view s)"]
    by (simp add: written_below_first)
  show ?thesis
    unfolding flash_write_def
  proof (rule wp_seq [OF sectors], goal_cases)
    case t: (1 ok t)
    have "wp (thenS (cfg bus fm F_WRDI) (\<lambda>_. thenS (cfg bus fm F_END) (\<lambda>_. retS True)))
        (\<lambda>ok u. ok \<and> chip_idle view lag u \<and> fv_mem (view u) = fv_mem (view t)) (\<lambda>_ _. False) t"
    proof (rule cfg_byte [OF b], goal_cases)
      case u: (2 u)
      then have cmd: "fv_cmd (view u) = [4]" "lag u = 0" "fv_mem (view u) = fv_mem (view t)"
        using t by (simp_all add: chip_idle_def F_WRDI_def)
      then have "\<not> flash_works (view u)" by (simp add: flash_works_def)
      from end_idle [OF b cmd(2) this] show ?case
        by (rule wp_seq) (use cmd in \<open>simp add: wp_simps chip_idle_def flash_exec_def\<close>)
    qed (simp add: F_WRDI_def)
    then show ?case using t by (auto simp: flash_after_def elim!: wp_mono)
  qed
qed

subsection \<open>A chip\<close>

text \<open>A board whose chip takes two looks to finish an operation.\<close>

definition word_at :: "(nat \<Rightarrow> u8) \<Rightarrow> nat \<Rightarrow> u32" where
  "word_at f k = (case buildword (map f [k..<k + 4]) of Inr v \<Rightarrow> v | Inl _ \<Rightarrow> 0)"

definition chip_put :: "u32 \<Rightarrow> flashview \<times> nat \<Rightarrow> flashview \<times> nat" where
  "chip_put v s =
     (if v AND 0x100 = 0 then ((fst s)\<lparr>fv_cmd := fv_cmd (fst s) @ [ucast v]\<rparr>, snd s)
      else if 0 < snd s then ((fst s)\<lparr>fv_cmd := []\<rparr>, snd s)
      else (flash_exec (fst s), if flash_works (fst s) then 2 else 0))"

definition chip_bus :: "flashmap \<Rightarrow> (flashview \<times> nat) devbus" where
  "chip_bus fm =
     \<lparr>db_writeio = (\<lambda>a v. if a = fm_FLASHCFG fm then modS (chip_put v) else retS ()),
      db_readio = (\<lambda>a. thenS (getS (\<lambda>s. if 0 < snd s then 1 else 0)) (\<lambda>x. thenS (modS (\<lambda>s. (fst s, snd s - 1))) (\<lambda>_. retS x))),
      db_readi = (\<lambda>a n. getS (\<lambda>s. map (\<lambda>i. word_at (fv_mem (fst s)) (place fm a + 4 * i)) [0..<n])),
      db_writei = (\<lambda>a ws. retS ())\<rparr>"

lemma word_at_byte: "j < 4 \<Longrightarrow> ucast (drop_bit (24 - 8 * j) (word_at f k)) = f (k + j)"
proof -
  assume j: "j < 4"
  obtain v where "buildword (drop 0 (map f [k..<k + 4])) = Inr v"
    "\<And>j. j < 4 \<Longrightarrow> ucast (drop_bit (24 - 8 * j) v) = map f [k..<k + 4] ! (0 + j)"
    by (rule be_byte_buildword [of 0 "map f [k..<k + 4]"]) simp_all
  then show ?thesis using j by (simp add: word_at_def)
qed

lemma chip_bus: "flash_board 2 fst snd fm (chip_bus fm)"
  unfolding flash_board_def
proof (intro conjI allI impI)
  fix s :: "flashview \<times> nat" and a n
  have "be_byte (map (\<lambda>i. word_at f (p + 4 * i)) [0..<n]) k = f (p + k)" if "k < 4 * n" for f p k
  proof -
    have "k div 4 < n" using that by linarith
    then show ?thesis using word_at_byte [of "k mod 4" f "p + 4 * (k div 4)"] by (simp add: be_byte_def add.assoc)
  qed
  moreover assume "snd s = 0 \<and> fv_cmd (fst s) = [] \<and> in_flash fm a (4 * n)"
  ultimately show "wp (db_readi (chip_bus fm) a n)
      (\<lambda>ws t. fst t = fst s \<and> snd t = 0 \<and> length ws = n \<and> (\<forall>k<4 * n. be_byte ws k = fv_mem (fst s) (place fm a + k)))
      (\<lambda>_ _. False) s"
    by (simp add: chip_bus_def wp_simps)
qed (simp_all add: chip_bus_def wp_simps chip_put_def)

definition example_flashmap :: flashmap where
  "example_flashmap = \<lparr>fm_FLASH = 0x03000000, fm_FLASHCFG = 0x01000020\<rparr>"

theorem flash_write_writes_witness:
  "write_ok example_flashmap 0x03000104 8 [1, 2, 3, 4, 5, 6, 7, 8] \<and>
   wp (flash_write 3 (chip_bus example_flashmap) example_flashmap (\<lambda>_. 7) 0x03000104 8 [1, 2, 3, 4, 5, 6, 7, 8] True)
     (\<lambda>ok t. ok \<and> fv_mem (fst t) 0x107 = 4 \<and> fv_mem (fst t) 0 = 0xff \<and> fv_mem (fst t) 0x10000 = 0)
     (\<lambda>_ _. False) (\<lparr>fv_mem = (\<lambda>_. 0), fv_cmd = [], fv_wel = False\<rparr>, 0)"
proof (intro conjI)
  have pl: "place example_flashmap 0x03000104 = 0x104" by (simp add: place_def example_flashmap_def)
  have "(2 :: nat) ^ 24 dvd 0x03000000" by (simp add: dvd_def exI [of _ 3])
  then show w: "write_ok example_flashmap 0x03000104 8 [1, 2, 3, 4, 5, 6, 7, 8]"
    unfolding write_ok_def pl by (simp add: flash_mapped_def in_flash_def example_flashmap_def)
  have "sector_erased 0x104 8 [1, 2, 3, 4, 5, 6, 7, 8] (\<lambda>_. 0) 0"
    unfolding sector_erased_def by (intro exI [of _ "0x104"]) simp
  moreover have "\<not> sector_erased 0x104 8 [1, 2, 3, 4, 5, 6, 7, 8] (\<lambda>_. 0) 1"
    unfolding sector_erased_def by auto
  ultimately show "wp (flash_write 3 (chip_bus example_flashmap) example_flashmap (\<lambda>_. 7) 0x03000104 8 [1, 2, 3, 4, 5, 6, 7, 8] True)
     (\<lambda>ok t. ok \<and> fv_mem (fst t) 0x107 = 4 \<and> fv_mem (fst t) 0 = 0xff \<and> fv_mem (fst t) 0x10000 = 0)
     (\<lambda>_ _. False) (\<lparr>fv_mem = (\<lambda>_. 0), fv_cmd = [], fv_wel = False\<rparr>, 0)"
    by (intro wp_mono [OF flash_write_writes [OF chip_bus _ w]]) (simp_all add: chip_idle_def pl)
qed

end
