(* ===== verification/ZipDbg.thy ===== *)
theory ZipDbg
  imports ZipLoad Zopcodes
begin

text \<open>
  \<open>sw/host/zipdbg.cpp\<close>: the debugger. \<open>ZIPPY\<close> halts the CPU, reads its registers, the instructions
  around the program counter and the top of the stack over the debugging bus, and writes a register that
  the user edits. What goes to the screen is left out, except for which value stands where. What \<open>getch\<close>
  returns is an argument, as are the codes of the keys that \<open>curses.h\<close> defines. \<open>sw/host/zipstate.cpp\<close>
  reads registers the same way.
\<close>

subsection \<open>State\<close>

definition CPU_STALL :: u32 where "CPU_STALL = 0x0200"
definition CPU_STEP :: u32 where "CPU_STEP = 0x0100"
definition CMD_HALT :: u32 where "CMD_HALT = 0x400"
definition MAXERR :: nat where "MAXERR = 100000"
definition KEY_ESCAPE :: int where "KEY_ESCAPE = 27"
definition KEY_RETURN :: int where "KEY_RETURN = 10"
definition CTRL :: "int \<Rightarrow> int" where "CTRL x = x AND 0x01f"

record sparsemem =
  sm_valid :: bool
  sm_a :: u32
  sm_d :: u32

record zipstate =
  zs_valid :: bool
  zs_gie :: bool
  zs_last_pc_valid :: bool
  zs_sR :: "u32 list"
  zs_uR :: "u32 list"
  zs_p :: "u32 list"
  zs_last_pc :: u32
  zs_pc :: u32
  zs_sp :: u32
  zs_smem :: "sparsemem list"
  zs_imem :: "sparsemem list"

record zippy =
  zp_cursor :: int
  zp_state :: zipstate
  zp_user_break :: bool
  zp_show_users_timers :: bool
  zp_show_cc :: bool

definition zstate :: "(zipstate \<Rightarrow> zipstate) \<Rightarrow> zippy \<Rightarrow> zippy" where
  "zstate f z = z\<lparr>zp_state := f (zp_state z)\<rparr>"

text \<open>What the constructor does not set is as the storage \<open>g\<close> had it.\<close>

definition zippy_new :: "zipstate \<Rightarrow> zippy" where
  "zippy_new g =
     \<lparr>zp_cursor = 0, zp_state = g\<lparr>zs_valid := False, zs_last_pc_valid := False\<rparr>, zp_user_break = False,
      zp_show_users_timers = False, zp_show_cc = False\<rparr>"

definition zipstate_step :: "zipstate \<Rightarrow> zipstate" where
  "zipstate_step s = s\<lparr>zs_last_pc_valid := True, zs_last_pc := zs_pc s\<rparr>"

subsection \<open>Programs over the debugger and the bus\<close>

definition on_bus :: "('s, 'a) prog \<Rightarrow> (zippy \<times> 's, 'a) prog" where
  "on_bus m zs = (case m (snd zs) of Inl (e, t) \<Rightarrow> Inl (e, (fst zs, t)) | Inr (x, t) \<Rightarrow> Inr (x, (fst zs, t)))"

definition getZ :: "(zippy \<Rightarrow> 'a) \<Rightarrow> (zippy \<times> 's, 'a) prog" where
  "getZ f = getS (\<lambda>zs. f (fst zs))"

definition modZ :: "(zippy \<Rightarrow> zippy) \<Rightarrow> (zippy \<times> 's, unit) prog" where
  "modZ f = modS (\<lambda>zs. (f (fst zs), snd zs))"

fun each_index :: "(nat \<Rightarrow> ('s, unit) prog) \<Rightarrow> nat list \<Rightarrow> ('s, unit) prog" where
  "each_index f [] = retS ()"
| "each_index f (i # is) = thenS (f i) (\<lambda>_. each_index f is)"

subsection \<open>Registers\<close>

text \<open>The wait for the CPU: \<open>n\<close> is what is left of \<open>MAXERR\<close>, and the result is what is left in the end.\<close>

fun wait_unstalled :: "nat \<Rightarrow> 's devbus \<Rightarrow> bool \<Rightarrow> ('s, nat) prog" where
  "wait_unstalled 0 bus brk = thenS (db_readio bus R_ZIPCTRL) (\<lambda>_. retS 0)"
| "wait_unstalled (Suc n) bus brk =
     thenS (db_readio bus R_ZIPCTRL) (\<lambda>s.
     if s AND CPU_STALL = 0 \<and> \<not> brk then wait_unstalled n bus brk else retS (Suc n))"

definition select_register :: "nat \<Rightarrow> 's devbus \<Rightarrow> bool \<Rightarrow> u32 \<Rightarrow> ('s, unit) prog" where
  "select_register maxerr bus brk a =
     thenS (db_writeio bus R_ZIPCTRL (CMD_HALT OR (a AND 0x3f))) (\<lambda>_.
     thenS (wait_unstalled maxerr bus brk) (\<lambda>left.
     if brk then throwS (ExitWith 0) else if left = 0 then throwS (ExitWith 1) else retS ()))"

definition cmd_read :: "'s devbus \<Rightarrow> u32 \<Rightarrow> (zippy \<times> 's, u32) prog" where
  "cmd_read bus a =
     thenS (getZ zp_user_break) (\<lambda>brk.
     thenS (on_bus (select_register MAXERR bus brk a)) (\<lambda>_. on_bus (db_readio bus R_ZIPDATA)))"

definition cmd_write :: "'s devbus \<Rightarrow> u32 \<Rightarrow> u32 \<Rightarrow> (zippy \<times> 's, unit) prog" where
  "cmd_write bus a v =
     thenS (getZ zp_user_break) (\<lambda>brk.
     thenS (on_bus (select_register MAXERR bus brk a)) (\<lambda>_. on_bus (db_writeio bus R_ZIPDATA v)))"

text \<open>\<open>cmd_read\<close> of \<open>zipstate.cpp\<close>: it gives up sooner and cannot be interrupted.\<close>

definition state_cmd_read :: "'s devbus \<Rightarrow> u32 \<Rightarrow> ('s, u32) prog" where
  "state_cmd_read bus r =
     thenS (select_register 1000 bus False r) (\<lambda>_. db_readio bus R_ZIPDATA)"

subsection \<open>Reading the state\<close>

definition set_sR :: "nat \<Rightarrow> u32 \<Rightarrow> zipstate \<Rightarrow> zipstate" where
  "set_sR i v s = s\<lparr>zs_sR := (zs_sR s)[i := v]\<rparr>"

definition set_uR :: "nat \<Rightarrow> u32 \<Rightarrow> zipstate \<Rightarrow> zipstate" where
  "set_uR i v s = s\<lparr>zs_uR := (zs_uR s)[i := v]\<rparr>"

definition set_p :: "nat \<Rightarrow> u32 \<Rightarrow> zipstate \<Rightarrow> zipstate" where
  "set_p i v s = s\<lparr>zs_p := (zs_p s)[i := v]\<rparr>"

definition read_block :: "'s devbus \<Rightarrow> (nat \<Rightarrow> u32 \<Rightarrow> zipstate \<Rightarrow> zipstate) \<Rightarrow> nat \<Rightarrow> nat \<Rightarrow> (zippy \<times> 's, unit) prog" where
  "read_block bus put base n =
     each_index (\<lambda>i. thenS (cmd_read bus (of_nat (base + i))) (\<lambda>v. modZ (zstate (put i v)))) [0..<n]"

definition set_imem :: "nat \<Rightarrow> (sparsemem \<Rightarrow> sparsemem) \<Rightarrow> zipstate \<Rightarrow> zipstate" where
  "set_imem i f s = s\<lparr>zs_imem := (zs_imem s)[i := f (zs_imem s ! i)]\<rparr>"

definition set_smem :: "nat \<Rightarrow> (sparsemem \<Rightarrow> sparsemem) \<Rightarrow> zipstate \<Rightarrow> zipstate" where
  "set_smem i f s = s\<lparr>zs_smem := (zs_smem s)[i := f (zs_smem s ! i)]\<rparr>"

text \<open>One word is read for the entry at hand: \<open>put\<close> changes it, \<open>a\<close> is its address.\<close>

definition fetch :: "'s devbus \<Rightarrow> ((sparsemem \<Rightarrow> sparsemem) \<Rightarrow> zipstate \<Rightarrow> zipstate) \<Rightarrow> u32 \<Rightarrow> (zippy \<times> 's, unit) prog" where
  "fetch bus put a =
     catchS
       (thenS (on_bus (db_readio bus a)) (\<lambda>d.
        modZ (zstate (put (\<lambda>m. m\<lparr>sm_valid := True, sm_d := d\<rparr>)))))
       (\<lambda>e. case e of BusErr _ \<Rightarrow> modZ (zstate (put (\<lambda>m. m\<lparr>sm_valid := False\<rparr>))) | _ \<Rightarrow> throwS e)"

definition fetch_imem :: "'s devbus \<Rightarrow> nat \<Rightarrow> u32 \<Rightarrow> (zippy \<times> 's, unit) prog" where
  "fetch_imem bus i a =
     thenS (modZ (zstate (set_imem i (\<lambda>m. m\<lparr>sm_a := a\<rparr>)))) (\<lambda>_. fetch bus (set_imem i) a)"

definition follow_imem :: "'s devbus \<Rightarrow> nat \<Rightarrow> (zippy \<times> 's, unit) prog" where
  "follow_imem bus i =
     thenS (getZ (\<lambda>z. zs_imem (zp_state z) ! i)) (\<lambda>m.
     if \<not> sm_valid m then modZ (zstate (set_imem (i + 1) (\<lambda>n. n\<lparr>sm_valid := False, sm_a := sm_a m + 4\<rparr>)))
     else fetch_imem bus (i + 1) (zop_early_branch (sm_a m) (sm_d m)))"

definition fetch_smem :: "'s devbus \<Rightarrow> nat \<Rightarrow> (zippy \<times> 's, unit) prog" where
  "fetch_smem bus i =
     thenS (modZ (zstate (set_smem i (\<lambda>m. m\<lparr>sm_valid := True\<rparr>)))) (\<lambda>_.
     thenS (getZ (\<lambda>z. sm_a (zs_smem (zp_state z) ! i))) (\<lambda>a. fetch bus (set_smem i) a))"

definition set_pointers :: "zipstate \<Rightarrow> zipstate" where
  "set_pointers s =
     (let gie = zs_sR s ! 14 AND 0x020 \<noteq> 0 in
      s\<lparr>zs_gie := gie, zs_pc := (if gie then zs_uR s ! 15 else zs_sR s ! 15),
        zs_sp := (if gie then zs_uR s ! 13 else zs_sR s ! 13)\<rparr>)"

fun set_stack :: "nat list \<Rightarrow> zipstate \<Rightarrow> zipstate" where
  "set_stack [] s = s"
| "set_stack (i # is) s = set_stack is (set_smem i (\<lambda>m. m\<lparr>sm_a := sm_a (zs_smem s ! (i - 1)) + 4\<rparr>) s)"

definition read_raw_state :: "'s devbus \<Rightarrow> (zippy \<times> 's, unit) prog" where
  "read_raw_state bus =
     thenS (modZ (zstate (\<lambda>s. s\<lparr>zs_valid := False\<rparr>))) (\<lambda>_.
     thenS (read_block bus set_sR 0 16) (\<lambda>_.
     thenS (read_block bus set_uR 16 16) (\<lambda>_.
     thenS (read_block bus set_p 32 20) (\<lambda>_.
     thenS (modZ (zstate set_pointers)) (\<lambda>_.
     thenS (getZ zp_state) (\<lambda>s.
     thenS (fetch_imem bus 0 (if zs_last_pc_valid s then zs_last_pc s else zs_pc s - 4)) (\<lambda>_.
     thenS (fetch_imem bus 1 (zs_pc s)) (\<lambda>_.
     thenS (each_index (follow_imem bus) [1..<4]) (\<lambda>_.
     thenS (modZ (zstate (\<lambda>s. set_stack [1..<5] (set_smem 0 (\<lambda>m. m\<lparr>sm_a := zs_sp s\<rparr>) s)))) (\<lambda>_.
     thenS (each_index (fetch_smem bus) [0..<5]) (\<lambda>_.
     modZ (zstate (\<lambda>s. s\<lparr>zs_valid := True\<rparr>)))))))))))))"

definition clamp_cursor :: "zippy \<Rightarrow> zippy" where
  "clamp_cursor z =
     (if zp_cursor z < 0 then z\<lparr>zp_cursor := 0\<rparr> else if zp_cursor z \<ge> 44 then z\<lparr>zp_cursor := 43\<rparr> else z)"

definition read_state :: "'s devbus \<Rightarrow> (zippy \<times> 's, unit) prog" where
  "read_state bus =
     thenS (read_raw_state bus) (\<lambda>_.
     thenS (modZ clamp_cursor) (\<lambda>_.
     thenS (on_bus (db_readio bus R_ZIPCTRL)) (\<lambda>_. retS ())))"

subsection \<open>Commands\<close>

definition zippy_reset :: "'s devbus \<Rightarrow> (zippy \<times> 's, unit) prog" where
  "zippy_reset bus = on_bus (db_writeio bus R_ZIPCTRL (CPU_RESET OR CPU_HALT))"

definition zippy_step :: "'s devbus \<Rightarrow> (zippy \<times> 's, unit) prog" where
  "zippy_step bus =
     thenS (on_bus (db_writeio bus R_ZIPCTRL CPU_STEP)) (\<lambda>_. modZ (zstate zipstate_step))"

definition zippy_halt :: "'s devbus \<Rightarrow> (zippy \<times> 's, unit) prog" where
  "zippy_halt bus = on_bus (db_writeio bus R_ZIPCTRL CPU_HALT)"

definition zippy_stalled :: "'s devbus \<Rightarrow> (zippy \<times> 's, bool) prog" where
  "zippy_stalled bus =
     thenS (on_bus (db_readio bus R_ZIPCTRL)) (\<lambda>v. retS (v AND CPU_STALL = 0))"

definition show_user_timers :: "bool \<Rightarrow> zippy \<Rightarrow> zippy" where
  "show_user_timers v z = z\<lparr>zp_show_users_timers := v\<rparr>"

definition toggle_cc :: "zippy \<Rightarrow> zippy" where
  "toggle_cc z = z\<lparr>zp_show_cc := \<not> zp_show_cc z\<rparr>"

definition cursor_up :: "zippy \<Rightarrow> zippy" where
  "cursor_up z = (if zp_cursor z > 3 then z\<lparr>zp_cursor := zp_cursor z - 4\<rparr> else z)"

definition cursor_down :: "zippy \<Rightarrow> zippy" where
  "cursor_down z = (if zp_cursor z < 40 then z\<lparr>zp_cursor := zp_cursor z + 4\<rparr> else z)"

definition cursor_left :: "zippy \<Rightarrow> zippy" where
  "cursor_left z = (if zp_cursor z > 0 then z\<lparr>zp_cursor := zp_cursor z - 1\<rparr> else z\<lparr>zp_cursor := 43\<rparr>)"

definition cursor_right :: "zippy \<Rightarrow> zippy" where
  "cursor_right z = (if zp_cursor z < 43 then z\<lparr>zp_cursor := zp_cursor z + 1\<rparr> else z\<lparr>zp_cursor := 0\<rparr>)"

end
