(* ===== verification/ZipDbgKeys.thy ===== *)
theory ZipDbgKeys
  imports ZipDbg
begin

text \<open>
  The user's side of \<open>sw/host/zipdbg.cpp\<close>: which value stands in which cell of the screen, the editing
  of the value under the cursor, and the loop that takes the keys.
\<close>

subsection \<open>The screen\<close>

text \<open>The cells that show a number: row, column, the number, and the position of the cursor that marks it.
  The cells of the two CC registers are numbers only if the user asked for that.\<close>

definition register_cells :: "nat \<Rightarrow> nat \<Rightarrow> bool \<Rightarrow> u32 list \<Rightarrow> (nat \<times> nat \<times> u32 \<times> nat) list" where
  "register_cells row cur cc regs =
     map (\<lambda>i. (row + i div 4, 20 * (i mod 4), regs ! i, cur + i)) (filter (\<lambda>i. i \<noteq> 14 \<or> cc) [0..<16])"

definition peripheral_cells :: "bool \<Rightarrow> u32 list \<Rightarrow> (nat \<times> nat \<times> u32 \<times> nat) list" where
  "peripheral_cells users p =
     map (\<lambda>i. (1 + i div 4, 20 * (i mod 4), p ! i, i)) [0..<8] @
     map (\<lambda>i. (3, 20 * i, p ! ((if users then 12 else 8) + i), 8 + i)) [0..<4]"

definition shown_cells :: "zippy \<Rightarrow> (nat \<times> nat \<times> u32 \<times> nat) list" where
  "shown_cells z =
     peripheral_cells (zp_show_users_timers z) (zs_p (zp_state z)) @
     register_cells 6 12 (zp_show_cc z) (zs_sR (zp_state z)) @
     register_cells 11 28 (zp_show_cc z) (zs_uR (zp_state z))"

subsection \<open>Editing a value\<close>

record keymap =
  ky_ENTER :: int
  ky_UP :: int
  ky_DOWN :: int
  ky_LEFT :: int
  ky_RIGHT :: int
  ky_BACKSPACE :: int
  ky_CLEAR :: int
  ky_IC :: int
  ky_CANCEL :: int
  ky_CLOSE :: int
  ky_EXIT :: int

definition edit_column :: "int \<Rightarrow> int" where
  "edit_column c = (c AND 3) * 20 + 9 + 1"

definition edit_row :: "int \<Rightarrow> int" where
  "edit_row c =
     (let wy = drop_bit 2 c;
          wy = (if wy \<ge> 3 + 4 then wy + 1 else wy);
          wy = (if wy > 3 then wy + 2 else wy)
      in wy + 1)"

definition edit_register :: "int \<Rightarrow> int" where
  "edit_register c = (if c \<ge> 12 then c - 12 else c + 32)"

definition key_digit :: "int \<Rightarrow> char option" where
  "key_digit ch =
     (if ch = 32 then Some (CHR ''0'')
      else if 48 \<le> ch \<and> ch \<le> 57 then Some (char_of (nat ch))
      else if 65 \<le> ch \<and> ch \<le> 70 then Some (char_of (nat ch))
      else if 97 \<le> ch \<and> ch \<le> 102 then Some (char_of (nat ch - 32))
      else None)"

definition edit_key :: "keymap \<Rightarrow> int \<Rightarrow> string \<Rightarrow> nat \<Rightarrow> (string \<times> nat \<times> bool) res" where
  "edit_key k ch str pos =
     (if ch = KEY_ESCAPE then bindE (aset str 0 (CHR 0x00)) (\<lambda>str. Inr (str, 0, True))
      else if ch = KEY_RETURN \<or> ch = ky_ENTER k \<or> ch = ky_UP k \<or> ch = ky_DOWN k then Inr (str, pos, True)
      else if ch = ky_LEFT k \<or> ch = ky_BACKSPACE k then Inr (str, if pos > 0 then pos - 1 else pos, False)
      else if ch = ky_CLEAR k then Inr (str, 0, False)
      else case key_digit ch of
          Some d \<Rightarrow> bindE (aset str pos d) (\<lambda>str. Inr (str, pos + 1, False))
        | None \<Rightarrow> Inr (str, pos, False))"

fun edit_keys :: "keymap \<Rightarrow> int list \<Rightarrow> string \<Rightarrow> nat \<Rightarrow> (int list \<times> string \<times> nat) res" where
  "edit_keys k [] str pos = Inl NoReturn"
| "edit_keys k (ch # chs) str pos =
     bindE (edit_key k ch str pos) (\<lambda>(str, pos, fin).
     let pos = (if pos > 8 then 8 else pos) in
     bindE (aset str pos (CHR 0x00)) (\<lambda>str.
     if fin then Inr (chs, str, pos) else edit_keys k chs str pos))"

text \<open>\<open>strtoul(str, NULL, 16)\<close>, for a text that consists of at most 16 of the digits above.\<close>

definition digit_value :: "char \<Rightarrow> nat" where
  "digit_value c = (if c \<in> set ''0123456789'' then of_char c - 48 else of_char c - 55)"

definition strtoul16 :: "string \<Rightarrow> nat" where
  "strtoul16 str = foldl (\<lambda>v c. 16 * v + digit_value c) 0 (takeWhile (\<lambda>c. c \<noteq> CHR 0x00) str)"

text \<open>The rest of the keys is the result; \<open>g\<close> is the text buffer before.\<close>

definition get_value :: "keymap \<Rightarrow> 's devbus \<Rightarrow> string \<Rightarrow> int list \<Rightarrow> (zippy \<times> 's, int list) prog" where
  "get_value k bus g chs =
     thenS (getZ zp_cursor) (\<lambda>c.
     thenS (liftS (bindE (aset g 0 (CHR 0x00)) (\<lambda>str. edit_keys k chs str 0))) (\<lambda>(chs, str, pos).
     if pos > 0
     then thenS (cmd_write bus (of_int (edit_register c)) (of_nat (strtoul16 str))) (\<lambda>_. retS chs)
     else retS chs))"

subsection \<open>The loop\<close>

definition zip_command :: "keymap \<Rightarrow> 's devbus \<Rightarrow> string \<Rightarrow> int \<Rightarrow> int list \<Rightarrow> (zippy \<times> 's, bool \<times> int list) prog" where
  "zip_command k bus g ch chs =
     (let ret = (\<lambda>fin m. thenS m (\<lambda>_. retS (fin, chs))) in
      if ch = 99 \<or> ch = 67 then ret False (modZ toggle_cc)
      else if ch = 103 \<or> ch = 71 then ret True (on_bus (db_writeio bus R_ZIPCTRL CPU_GO))
      else if ch = 108 \<or> ch = 76 \<or> ch = CTRL 76 \<or> ch = 109 \<or> ch = 77 then ret False (modZ (show_user_timers False))
      else if ch = 113 \<or> ch = 81 \<or> ch = CTRL 67 \<or> ch = ky_CANCEL k \<or> ch = ky_CLOSE k \<or> ch = ky_EXIT k \<or> ch = KEY_ESCAPE
        then ret True (retS ())
      else if ch = 114 \<or> ch = 82 then ret False (zippy_reset bus)
      else if ch = 116 \<or> ch = 84 \<or> ch = 115 \<or> ch = 83 then ret False (zippy_step bus)
      else if ch = 117 \<or> ch = 85 then ret False (modZ (show_user_timers True))
      else if ch = 13 \<or> ch = 10 \<or> ch = ky_IC k \<or> ch = ky_ENTER k
        then thenS (get_value k bus g chs) (\<lambda>chs. retS (False, chs))
      else if ch = ky_UP k then ret False (modZ cursor_up)
      else if ch = ky_DOWN k then ret False (modZ cursor_down)
      else if ch = ky_LEFT k then ret False (modZ cursor_left)
      else if ch = ky_RIGHT k then ret False (modZ cursor_right)
      else ret False (retS ()))"

definition refresh :: "'s devbus \<Rightarrow> (zippy \<times> 's, unit) prog" where
  "refresh bus = thenS (zippy_stalled bus) (\<lambda>st. if st then retS () else read_state bus)"

text \<open>One round of the loop per unit of fuel; each round takes a key.\<close>

fun zipdbg_loop :: "nat \<Rightarrow> keymap \<Rightarrow> 's devbus \<Rightarrow> string \<Rightarrow> int list \<Rightarrow> (zippy \<times> 's, unit) prog" where
  "zipdbg_loop 0 k bus g chs = throwS NoReturn"
| "zipdbg_loop (Suc n) k bus g chs =
     (case chs of
        [] \<Rightarrow> throwS NoReturn
      | ch # chs \<Rightarrow>
          thenS (zip_command k bus g ch chs) (\<lambda>(fin, chs).
          if fin then retS ()
          else thenS (refresh bus) (\<lambda>_. zipdbg_loop n k bus g chs)))"

fun poll_stalled :: "nat \<Rightarrow> 's devbus \<Rightarrow> (zippy \<times> 's, unit) prog" where
  "poll_stalled 0 bus = retS ()"
| "poll_stalled (Suc n) bus = thenS (zippy_stalled bus) (\<lambda>st. if st then poll_stalled n bus else retS ())"

definition zipdbg :: "keymap \<Rightarrow> 's devbus \<Rightarrow> string \<Rightarrow> int list \<Rightarrow> (zippy \<times> 's, unit) prog" where
  "zipdbg k bus g chs =
     catchS
       (thenS (zippy_halt bus) (\<lambda>_.
        thenS (poll_stalled 5 bus) (\<lambda>_.
        thenS (refresh bus) (\<lambda>_. zipdbg_loop (length chs + 1) k bus g chs))))
       (\<lambda>e. case e of BusErr _ \<Rightarrow> retS () | Thrown _ \<Rightarrow> retS () | _ \<Rightarrow> throwS e)"

end
