(* ===== verification/ZipDbgProps.thy ===== *)
theory ZipDbgProps
  imports ZipDbgKeys
begin

text \<open>
  What the debugger sees of the CPU and what it does to it. The CPU is any that keeps the laws of
  \<open>cpu_board\<close>: a register is selected through the control register, the data register then is that
  register, and the status tells how long the access takes.
\<close>

subsection \<open>Rules for programs over the debugger\<close>

lemma wp_on_bus [wp_simps]: "wp (on_bus m) Q E (z, s) = wp m (\<lambda>x t. Q x (z, t)) (\<lambda>e t. E e (z, t)) s"
  by (auto simp: wp_def on_bus_def split: sum.splits)

lemma wp_getZ [wp_simps]: "wp (getZ f) Q E (z, s) = Q (f z) (z, s)"
  by (simp add: getZ_def wp_simps)

lemma wp_modZ [wp_simps]: "wp (modZ f) Q E (z, s) = Q () (f z, s)"
  by (simp add: modZ_def wp_simps)

lemma each_index_inv:
  assumes "\<And>i zs. a \<le> i \<Longrightarrow> i < b \<Longrightarrow> Inv i zs \<Longrightarrow> wp (f i) (\<lambda>_. Inv (Suc i)) E zs"
  shows "a \<le> b \<Longrightarrow> Inv a zs \<Longrightarrow> wp (each_index f [a..<b]) (\<lambda>_. Inv b) E zs"
  using assms
proof (induction "b - a" arbitrary: a zs)
  case (Suc n)
  then have lt: "a < b" by simp
  show ?case
    unfolding upt_conv_Cons [OF lt] each_index.simps
  proof (rule wp_seq [OF Suc.prems(3) [OF order_refl lt Suc.prems(2)]])
    fix x :: unit and zs' assume "Inv (Suc a) zs'"
    then show "wp (each_index f [Suc a..<b]) (\<lambda>_. Inv b) E zs'"
      using Suc.hyps(1) [of "Suc a" zs'] Suc.hyps(2) Suc.prems(3) lt by simp
  qed
qed (simp add: wp_simps)

subsection \<open>The arrays of the state\<close>

locale array_field =
  fixes get :: "zipstate \<Rightarrow> u32 list" and upd :: "u32 list \<Rightarrow> zipstate \<Rightarrow> zipstate"
  assumes get_upd [simp]: "get (upd xs s) = xs"
    and upd_upd [simp]: "upd xs (upd ys s) = upd xs s"
    and upd_get [simp]: "upd (get s) s = s"
begin

text \<open>A field that is filled from its first element on.\<close>

definition filled :: "(nat \<Rightarrow> u32) \<Rightarrow> nat \<Rightarrow> zipstate \<Rightarrow> zipstate" where
  "filled f n s = upd (map f [0..<n] @ drop n (get s)) s"

lemma filled_0: "filled f 0 s = s"
  by (simp add: filled_def)

lemma filled_Suc:
  "n < length (get s) \<Longrightarrow> upd ((get (filled f n s))[n := f n]) (filled f n s) = filled f (Suc n) s"
  by (simp add: filled_def list_update_append Cons_nth_drop_Suc [symmetric])

lemma filled_all: "length (get s) = n \<Longrightarrow> filled f n s = upd (map f [0..<n]) s"
  by (simp add: filled_def)

end

interpretation sR: array_field zs_sR "\<lambda>xs s. s\<lparr>zs_sR := xs\<rparr>" by unfold_locales simp_all
interpretation uR: array_field zs_uR "\<lambda>xs s. s\<lparr>zs_uR := xs\<rparr>" by unfold_locales simp_all
interpretation per: array_field zs_p "\<lambda>xs s. s\<lparr>zs_p := xs\<rparr>" by unfold_locales simp_all

subsection \<open>The CPU behind the bus\<close>

record cpuview =
  cv_regs :: "nat \<Rightarrow> u32"
  cv_sel :: nat

definition same_cpu :: "('s \<Rightarrow> cpuview) \<Rightarrow> ('s \<Rightarrow> nat) \<Rightarrow> ('s \<Rightarrow> u32 \<Rightarrow> u32 option) \<Rightarrow> 's \<Rightarrow> 's \<Rightarrow> bool" where
  "same_cpu view lag mem s t \<longleftrightarrow> cv_regs (view t) = cv_regs (view s) \<and> mem t = mem s \<and> lag t = 0"

definition debug_ports :: "u32 set" where
  "debug_ports = {R_ZIPCTRL, R_ZIPDATA}"

text \<open>An access takes at most \<open>d\<close> looks at the status. An address that does not answer throws.\<close>

definition cpu_board ::
    "nat \<Rightarrow> ('s \<Rightarrow> cpuview) \<Rightarrow> ('s \<Rightarrow> nat) \<Rightarrow> ('s \<Rightarrow> u32 \<Rightarrow> u32 option) \<Rightarrow> 's devbus \<Rightarrow> bool" where
  "cpu_board d view lag mem bus \<longleftrightarrow>
     (\<forall>s a. wp (db_writeio bus R_ZIPCTRL (CMD_HALT OR (a AND 0x3f)))
        (\<lambda>_ t. view t = (view s)\<lparr>cv_sel := unat (a AND 0x3f)\<rparr> \<and> mem t = mem s \<and> lag t \<le> d) (\<lambda>_ _. False) s) \<and>
     (\<forall>s. wp (db_readio bus R_ZIPCTRL)
        (\<lambda>x t. view t = view s \<and> mem t = mem s \<and> lag t = lag s - 1 \<and> (x AND CPU_STALL = 0 \<longleftrightarrow> 0 < lag s))
        (\<lambda>_ _. False) s) \<and>
     (\<forall>s. lag s = 0 \<longrightarrow> wp (db_readio bus R_ZIPDATA)
        (\<lambda>x t. x = cv_regs (view s) (cv_sel (view s)) \<and> same_cpu view lag mem s t) (\<lambda>_ _. False) s) \<and>
     (\<forall>s v. lag s = 0 \<longrightarrow> wp (db_writeio bus R_ZIPDATA v)
        (\<lambda>_ t. cv_regs (view t) = (cv_regs (view s))(cv_sel (view s) := v) \<and> mem t = mem s \<and> lag t = 0)
        (\<lambda>_ _. False) s) \<and>
     (\<forall>s a. lag s = 0 \<and> a \<notin> debug_ports \<longrightarrow> wp (db_readio bus a)
        (\<lambda>x t. same_cpu view lag mem s t \<and> mem s a = Some x)
        (\<lambda>e t. same_cpu view lag mem s t \<and> mem s a = None \<and> (\<exists>b. e = BusErr b)) s)"

lemma wait_unstalled_wp:
  assumes b: "cpu_board d view lag mem bus"
  shows "lag s < n \<Longrightarrow> wp (wait_unstalled n bus False)
    (\<lambda>left t. 0 < left \<and> view t = view s \<and> mem t = mem s \<and> lag t = 0) (\<lambda>_ _. False) s"
proof (induction n arbitrary: s)
  case (Suc n)
  have r: "wp (db_readio bus R_ZIPCTRL)
        (\<lambda>x t. view t = view s \<and> mem t = mem s \<and> lag t = lag s - 1 \<and> (x AND CPU_STALL = 0 \<longleftrightarrow> 0 < lag s))
        (\<lambda>_ _. False) s"
    using b unfolding cpu_board_def by blast
  show ?case
    unfolding wait_unstalled.simps
  proof (rule wp_seq [OF r], goal_cases)
    case (1 x t)
    show ?case
    proof (cases "x AND CPU_STALL = 0")
      case True
      with 1 Suc.prems have "lag t < n" by auto
      from Suc.IH [OF this] 1 True show ?thesis by (simp add: wp_simps)
    next
      case False
      with 1 show ?thesis by (simp add: wp_simps)
    qed
  qed
qed simp

lemma select_register_wp:
  assumes b: "cpu_board d view lag mem bus" and d: "d < n"
  shows "wp (select_register n bus False a)
    (\<lambda>_ t. view t = (view s)\<lparr>cv_sel := unat (a AND 0x3f)\<rparr> \<and> mem t = mem s \<and> lag t = 0) (\<lambda>_ _. False) s"
proof -
  have w: "wp (db_writeio bus R_ZIPCTRL (CMD_HALT OR (a AND 0x3f)))
        (\<lambda>_ t. view t = (view s)\<lparr>cv_sel := unat (a AND 0x3f)\<rparr> \<and> mem t = mem s \<and> lag t \<le> d) (\<lambda>_ _. False) s"
    using b unfolding cpu_board_def by blast
  show ?thesis
    unfolding select_register_def
  proof (rule wp_seq [OF w], goal_cases)
    case (1 x t)
    then have "lag t < n" using d by simp
    from wait_unstalled_wp [OF b this] show ?case
      by (rule wp_seq) (use 1 in \<open>simp add: wp_simps\<close>)
  qed
qed

text \<open>The registers that are read.\<close>

lemma cmd_read_wp:
  assumes b: "cpu_board d view lag mem bus" and d: "d < MAXERR" and z: "\<not> zp_user_break z"
  shows "wp (cmd_read bus a)
    (\<lambda>v (z', t). z' = z \<and> v = cv_regs (view s) (unat (a AND 0x3f)) \<and> same_cpu view lag mem s t) (\<lambda>_ _. False) (z, s)"
proof -
  have r: "wp (db_readio bus R_ZIPDATA)
        (\<lambda>x t. x = cv_regs (view u) (cv_sel (view u)) \<and> same_cpu view lag mem u t) (\<lambda>_ _. False) u" if "lag u = 0" for u
    using b that unfolding cpu_board_def by blast
  have "wp (thenS (select_register MAXERR bus False a) (\<lambda>_. db_readio bus R_ZIPDATA))
      (\<lambda>v t. v = cv_regs (view s) (unat (a AND 0x3f)) \<and> same_cpu view lag mem s t) (\<lambda>_ _. False) s"
    by (rule wp_seq [OF select_register_wp [OF b d]], rule wp_mono [OF r]) (auto simp: same_cpu_def)
  with z show ?thesis unfolding cmd_read_def by (simp add: wp_simps)
qed

lemma cmd_write_wp:
  assumes b: "cpu_board d view lag mem bus" and d: "d < MAXERR" and z: "\<not> zp_user_break z"
  shows "wp (cmd_write bus a v)
    (\<lambda>_ (z', t). z' = z \<and> cv_regs (view t) = (cv_regs (view s))(unat (a AND 0x3f) := v) \<and> mem t = mem s \<and> lag t = 0)
    (\<lambda>_ _. False) (z, s)"
proof -
  have r: "wp (db_writeio bus R_ZIPDATA v)
        (\<lambda>_ t. cv_regs (view t) = (cv_regs (view u))(cv_sel (view u) := v) \<and> mem t = mem u \<and> lag t = 0)
        (\<lambda>_ _. False) u" if "lag u = 0" for u
    using b that unfolding cpu_board_def by blast
  have "wp (thenS (select_register MAXERR bus False a) (\<lambda>_. db_writeio bus R_ZIPDATA v))
      (\<lambda>_ t. cv_regs (view t) = (cv_regs (view s))(unat (a AND 0x3f) := v) \<and> mem t = mem s \<and> lag t = 0) (\<lambda>_ _. False) s"
    by (rule wp_seq [OF select_register_wp [OF b d]], rule wp_mono [OF r]) auto
  with z show ?thesis unfolding cmd_write_def by (simp add: wp_simps)
qed

lemma cpu_register_index: "n < 64 \<Longrightarrow> unat ((of_nat n :: u32) AND 0x3f) = n"
proof -
  assume n: "n < 64"
  have m: "(0x3f :: u32) = mask 6" by (simp add: mask_eq_exp_minus_1)
  have "unat (of_nat n :: u32) = n" using n by (simp add: unsigned_of_nat take_bit_nat_eq_self)
  then show ?thesis
    using n by (simp only: m take_bit_eq_mask [symmetric] unsigned_take_bit_eq) (simp add: take_bit_nat_eq_self)
qed

context array_field
begin

lemma read_block_wp:
  assumes put: "\<And>i v s. put i v s = upd ((get s)[i := v]) s"
    and b: "cpu_board d view lag mem bus" "d < MAXERR" and z: "\<not> zp_user_break z"
    and n: "length (get (zp_state z)) = n" "base + n \<le> 64"
  shows "wp (read_block bus put base n)
    (\<lambda>_ zt. fst zt = zstate (upd (map (\<lambda>i. cv_regs (view s) (base + i)) [0..<n])) z \<and> cv_regs (view (snd zt)) = cv_regs (view s) \<and>
       mem (snd zt) = mem s \<and> (0 < n \<or> lag s = 0 \<longrightarrow> lag (snd zt) = 0)) (\<lambda>_ _. False) (z, s)"
proof -
  let ?f = "\<lambda>i. cv_regs (view s) (base + i)"
  let ?Inv = "\<lambda>i zt. fst zt = zstate (filled ?f i) z \<and> cv_regs (view (snd zt)) = cv_regs (view s) \<and>
    mem (snd zt) = mem s \<and> (0 < i \<or> lag s = 0 \<longrightarrow> lag (snd zt) = 0)"
  have "wp (read_block bus put base n) (\<lambda>_. ?Inv n) (\<lambda>_ _. False) (z, s)"
    unfolding read_block_def
  proof (rule each_index_inv)
    fix i zt assume i: "i < n" and inv: "?Inv i zt"
    obtain t where zt: "zt = (zstate (filled ?f i) z, t)" using inv by (cases zt) simp
    have ub: "\<not> zp_user_break (zstate (filled ?f i) z)" using z by (simp add: zstate_def)
    have t: "cv_regs (view t) = cv_regs (view s)" "mem t = mem s" using inv by (simp_all add: zt)
    show "wp (thenS (cmd_read bus (of_nat (base + i))) (\<lambda>v. modZ (zstate (put i v)))) (\<lambda>_. ?Inv (Suc i)) (\<lambda>_ _. False) zt"
      unfolding zt
    proof (rule wp_seq [OF cmd_read_wp [OF b ub]], goal_cases)
      case (1 v zu)
      obtain z' u where zu: "zu = (z', u)" by (cases zu)
      have "unat ((of_nat (base + i) :: u32) AND 0x3f) = base + i" using i n(2) by (intro cpu_register_index) simp
      then have v: "v = ?f i" and u: "same_cpu view lag mem t u" "z' = zstate (filled ?f i) z"
        using 1 t unfolding zu by auto
      have "put i (?f i) (filled ?f i (zp_state z)) = filled ?f (Suc i) (zp_state z)"
        using filled_Suc [of i "zp_state z" ?f] i n(1) by (simp add: put)
      then show ?case using u t unfolding zu v by (simp add: wp_simps zstate_def same_cpu_def)
    qed
  qed (simp_all add: filled_0 zstate_def)
  then show ?thesis by (rule wp_mono) (simp_all add: zstate_def filled_all n(1))
qed

end

subsection \<open>Memory\<close>

text \<open>An entry that has been looked up: it holds the word that stands at its address, or it is marked as
  not valid if nothing answers there. The two ports of the debugger are not memory.\<close>

definition looked_up :: "(u32 \<Rightarrow> u32 option) \<Rightarrow> sparsemem \<Rightarrow> bool" where
  "looked_up m e \<longleftrightarrow> sm_a e \<in> debug_ports \<or>
     (case m (sm_a e) of None \<Rightarrow> \<not> sm_valid e | Some d \<Rightarrow> sm_valid e \<and> sm_d e = d)"

lemma read_any_wp:
  assumes b: "cpu_board d view lag mem bus" and s: "lag s = 0"
  shows "wp (db_readio bus a) (\<lambda>x t. same_cpu view lag mem s t \<and> (a \<in> debug_ports \<or> mem s a = Some x))
    (\<lambda>e t. same_cpu view lag mem s t \<and> mem s a = None \<and> a \<notin> debug_ports \<and> (\<exists>b. e = BusErr b)) s"
proof -
  consider "a = R_ZIPCTRL" | "a = R_ZIPDATA" | "a \<notin> debug_ports" by (auto simp: debug_ports_def)
  then show ?thesis
  proof cases
    case 1
    have "wp (db_readio bus R_ZIPCTRL)
        (\<lambda>x t. view t = view s \<and> mem t = mem s \<and> lag t = lag s - 1 \<and> (x AND CPU_STALL = 0 \<longleftrightarrow> 0 < lag s))
        (\<lambda>_ _. False) s"
      using b unfolding cpu_board_def by blast
    then show ?thesis unfolding 1 by (rule wp_mono) (simp_all add: same_cpu_def s debug_ports_def)
  next
    case 2
    have "wp (db_readio bus R_ZIPDATA)
        (\<lambda>x t. x = cv_regs (view s) (cv_sel (view s)) \<and> same_cpu view lag mem s t) (\<lambda>_ _. False) s"
      using b s unfolding cpu_board_def by blast
    then show ?thesis unfolding 2 by (rule wp_mono) (simp_all add: debug_ports_def)
  next
    case 3
    have "wp (db_readio bus a)
        (\<lambda>x t. same_cpu view lag mem s t \<and> mem s a = Some x)
        (\<lambda>e t. same_cpu view lag mem s t \<and> mem s a = None \<and> (\<exists>b. e = BusErr b)) s"
      using b s 3 unfolding cpu_board_def by blast
    then show ?thesis by (rule wp_mono) (simp_all add: 3)
  qed
qed

lemma fetch_wp:
  assumes b: "cpu_board d view lag mem bus" and s: "lag s = 0"
  shows "wp (fetch bus put a)
    (\<lambda>_ (z', t). same_cpu view lag mem s t \<and>
       (\<exists>v x. z' = zstate (put (\<lambda>m. if v then m\<lparr>sm_valid := True, sm_d := x\<rparr> else m\<lparr>sm_valid := False\<rparr>)) z \<and>
          (a \<in> debug_ports \<or> mem s a = (if v then Some x else None)))) (\<lambda>_ _. False) (z, s)"
  unfolding fetch_def
proof (rule wp_catch [of _ _ "\<lambda>e (z', t). z' = z \<and> same_cpu view lag mem s t \<and> mem s a = None \<and> (\<exists>b. e = BusErr b)"], goal_cases)
  case 1
  show ?case
    by (simp add: wp_simps, rule wp_mono [OF read_any_wp [OF b s]]) (auto intro: exI [of _ True])
next
  case (2 e zt)
  then show ?case
    by (cases zt) (auto simp: wp_simps intro!: exI [of _ False])
qed

text \<open>A state whose instructions, or whose stack, are the entries of a list.\<close>

definition with_imem :: "sparsemem list \<Rightarrow> zippy \<Rightarrow> zippy" where
  "with_imem L = zstate (\<lambda>s. s\<lparr>zs_imem := L\<rparr>)"

definition with_smem :: "sparsemem list \<Rightarrow> zippy \<Rightarrow> zippy" where
  "with_smem L = zstate (\<lambda>s. s\<lparr>zs_smem := L\<rparr>)"

lemma with_imem_simps [simp]:
  "zstate (set_imem i f) (with_imem L z) = with_imem (L[i := f (L ! i)]) z"
  "zs_imem (zp_state (with_imem L z)) = L" "zp_user_break (with_imem L z) = zp_user_break z"
  by (simp_all add: with_imem_def zstate_def set_imem_def)

lemma with_smem_simps [simp]:
  "zstate (set_smem i f) (with_smem L z) = with_smem (L[i := f (L ! i)]) z"
  "zs_smem (zp_state (with_smem L z)) = L" "zp_user_break (with_smem L z) = zp_user_break z"
  by (simp_all add: with_smem_def zstate_def set_smem_def)

lemma fetch_imem_wp:
  assumes b: "cpu_board d view lag mem bus" and s: "lag s = 0" and i: "i < length L"
  shows "wp (fetch_imem bus i a)
    (\<lambda>_ zt. \<exists>m. fst zt = with_imem (L[i := m]) z \<and> sm_a m = a \<and> looked_up (mem s) m \<and> same_cpu view lag mem s (snd zt))
    (\<lambda>_ _. False) (with_imem L z, s)"
  unfolding fetch_imem_def wp_thenS wp_modZ
proof (rule wp_mono [OF fetch_wp [OF b s]], goal_cases)
  case (1 u zt)
  then obtain v x where v: "fst zt = zstate (set_imem i (\<lambda>m. if v then m\<lparr>sm_valid := True, sm_d := x\<rparr> else m\<lparr>sm_valid := False\<rparr>))
      (zstate (set_imem i (\<lambda>m. m\<lparr>sm_a := a\<rparr>)) (with_imem L z))"
    "a \<in> debug_ports \<or> mem s a = (if v then Some x else None)" "same_cpu view lag mem s (snd zt)" by (cases zt) auto
  let ?m = "if v then (L ! i)\<lparr>sm_a := a\<rparr>\<lparr>sm_valid := True, sm_d := x\<rparr> else (L ! i)\<lparr>sm_a := a\<rparr>\<lparr>sm_valid := False\<rparr>"
  have "fst zt = with_imem (L[i := ?m]) z" using v(1) i by simp
  moreover have "sm_a ?m = a \<and> looked_up (mem s) ?m" using v(2) by (auto simp: looked_up_def)
  ultimately show ?case using v(3) by blast
qed simp

lemma fetch_smem_wp:
  assumes b: "cpu_board d view lag mem bus" and s: "lag s = 0" and i: "i < length L"
  shows "wp (fetch_smem bus i)
    (\<lambda>_ zt. \<exists>m. fst zt = with_smem (L[i := m]) z \<and> sm_a m = sm_a (L ! i) \<and> looked_up (mem s) m \<and>
       same_cpu view lag mem s (snd zt))
    (\<lambda>_ _. False) (with_smem L z, s)"
  unfolding fetch_smem_def wp_thenS wp_modZ wp_getZ
proof (rule wp_mono [OF fetch_wp [OF b s]], goal_cases)
  case (1 u zt)
  let ?a = "sm_a (L ! i)"
  have a: "sm_a (zs_smem (zp_state (zstate (set_smem i (\<lambda>m. m\<lparr>sm_valid := True\<rparr>)) (with_smem L z))) ! i) = ?a"
    using i by simp
  obtain v x where v: "fst zt = zstate (set_smem i (\<lambda>m. if v then m\<lparr>sm_valid := True, sm_d := x\<rparr> else m\<lparr>sm_valid := False\<rparr>))
      (zstate (set_smem i (\<lambda>m. m\<lparr>sm_valid := True\<rparr>)) (with_smem L z))"
    "?a \<in> debug_ports \<or> mem s ?a = (if v then Some x else None)" "same_cpu view lag mem s (snd zt)"
    using 1 unfolding a by (cases zt) auto
  let ?m = "if v then (L ! i)\<lparr>sm_valid := True, sm_d := x\<rparr> else (L ! i)\<lparr>sm_valid := False\<rparr>"
  have "fst zt = with_smem (L[i := ?m]) z" using v(1) i by simp
  moreover have "sm_a ?m = ?a \<and> looked_up (mem s) ?m" using v(2) by (auto simp: looked_up_def)
  ultimately show ?case using v(3) by blast
qed simp

text \<open>The instruction that comes after \<open>e\<close>.\<close>

definition next_entry :: "(u32 \<Rightarrow> u32 option) \<Rightarrow> sparsemem \<Rightarrow> sparsemem \<Rightarrow> bool" where
  "next_entry m e n \<longleftrightarrow>
     (if sm_valid e then sm_a n = zop_early_branch (sm_a e) (sm_d e) \<and> looked_up m n
      else \<not> sm_valid n \<and> sm_a n = sm_a e + 4)"

lemma same_cpu_trans: "same_cpu view lag mem s t \<Longrightarrow> same_cpu view lag mem t u \<Longrightarrow> same_cpu view lag mem s u"
  by (simp add: same_cpu_def)

lemma follow_imem_wp:
  assumes b: "cpu_board d view lag mem bus" and s: "lag s = 0" and i: "Suc i < length L"
  shows "wp (follow_imem bus i)
    (\<lambda>_ zt. \<exists>m. fst zt = with_imem (L[Suc i := m]) z \<and> next_entry (mem s) (L ! i) m \<and> same_cpu view lag mem s (snd zt))
    (\<lambda>_ _. False) (with_imem L z, s)"
proof (cases "sm_valid (L ! i)")
  case True
  then show ?thesis
    using fetch_imem_wp [OF b s i, of "zop_early_branch (sm_a (L ! i)) (sm_d (L ! i))" z]
    by (simp add: follow_imem_def wp_simps) (erule wp_mono, auto simp: next_entry_def)
next
  case False
  then show ?thesis
    using s by (auto simp: follow_imem_def wp_simps next_entry_def same_cpu_def)
qed

lemma follow_all_wp:
  assumes b: "cpu_board d view lag mem bus" and s: "lag s = 0" and L: "length L = 5"
  shows "wp (each_index (follow_imem bus) [1..<4])
    (\<lambda>_ zt. \<exists>M. fst zt = with_imem M z \<and> length M = 5 \<and> M ! 0 = L ! 0 \<and> M ! 1 = L ! 1 \<and>
       (\<forall>j. 1 \<le> j \<and> j < 4 \<longrightarrow> next_entry (mem s) (M ! j) (M ! Suc j)) \<and> same_cpu view lag mem s (snd zt))
    (\<lambda>_ _. False) (with_imem L z, s)"
proof (rule each_index_inv [where Inv = "\<lambda>i zt. \<exists>M. fst zt = with_imem M z \<and> length M = 5 \<and> M ! 0 = L ! 0 \<and> M ! 1 = L ! 1 \<and>
       (\<forall>j. 1 \<le> j \<and> j < i \<longrightarrow> next_entry (mem s) (M ! j) (M ! Suc j)) \<and> same_cpu view lag mem s (snd zt)"], goal_cases)
  case (1 i zt)
  then obtain M where M: "fst zt = with_imem M z" "length M = 5" "M ! 0 = L ! 0" "M ! 1 = L ! 1"
    "\<forall>j. 1 \<le> j \<and> j < i \<longrightarrow> next_entry (mem s) (M ! j) (M ! Suc j)" "same_cpu view lag mem s (snd zt)" by blast
  then have zt: "zt = (with_imem M z, snd zt)" and l: "lag (snd zt) = 0" "mem (snd zt) = mem s" "Suc i < length M"
    using 1 by (simp_all add: same_cpu_def prod_eq_iff)
  have "wp (follow_imem bus i)
    (\<lambda>_ zu. \<exists>m. fst zu = with_imem (M[Suc i := m]) z \<and> next_entry (mem s) (M ! i) m \<and> same_cpu view lag mem (snd zt) (snd zu))
    (\<lambda>_ _. False) zt"
    using follow_imem_wp [OF b l(1,3), of z] unfolding l(2) zt [symmetric] .
  then show ?case
  proof (rule wp_mono, elim exE conjE, goal_cases)
    case (1 u zu m)
    let ?M = "M[Suc i := m]"
    have "\<forall>j. 1 \<le> j \<and> j < Suc i \<longrightarrow> next_entry (mem s) (?M ! j) (?M ! Suc j)"
      using 1 M(2,5) l(3) by (auto simp: less_Suc_eq)
    then show ?case
      using 1 M \<open>1 \<le> i\<close> same_cpu_trans [OF M(6)] by (intro exI [of _ ?M]) auto
  qed simp
next
  case 3
  then show ?case using L s by (auto simp: same_cpu_def)
qed simp

lemma list_5:
  assumes "length xs = 5"
  obtains a b c d e where "xs = [a, b, c, d, e]"
  using assms by (auto simp: numeral_eq_Suc length_Suc_conv)

lemma stack_addresses:
  assumes "length (zs_smem s) = 5"
  obtains L where "set_stack [1..<5] (set_smem 0 (\<lambda>m. m\<lparr>sm_a := a\<rparr>) s) = s\<lparr>zs_smem := L\<rparr>" "length L = 5"
    "\<forall>j<5. sm_a (L ! j) = a + of_nat (4 * j)"
proof -
  obtain v w x y z where L: "zs_smem s = [v, w, x, y, z]" using assms by (rule list_5)
  have upt: "[1..<5] = [1, 2, 3, 4 :: nat]" by (simp add: upt_rec)
  let ?L = "[v\<lparr>sm_a := a\<rparr>, w\<lparr>sm_a := a + 4\<rparr>, x\<lparr>sm_a := a + 8\<rparr>, y\<lparr>sm_a := a + 12\<rparr>, z\<lparr>sm_a := a + 16\<rparr>]"
  have "set_stack [1..<5] (set_smem 0 (\<lambda>m. m\<lparr>sm_a := a\<rparr>) s) = s\<lparr>zs_smem := ?L\<rparr>"
    unfolding upt by (simp add: set_smem_def L)
  moreover have "\<forall>j<5. sm_a (?L ! j) = a + of_nat (4 * j)"
  proof (intro allI impI)
    fix j :: nat assume "j < 5"
    then have "j \<in> {0, 1, 2, 3, 4}" by auto
    then show "sm_a (?L ! j) = a + of_nat (4 * j)" by auto
  qed
  ultimately show ?thesis using that by simp
qed

lemma fetch_stack_wp:
  assumes b: "cpu_board d view lag mem bus" and s: "lag s = 0" and L: "length L = 5"
  shows "wp (each_index (fetch_smem bus) [0..<5])
    (\<lambda>_ zt. \<exists>M. fst zt = with_smem M z \<and> length M = 5 \<and>
       (\<forall>j<5. sm_a (M ! j) = sm_a (L ! j) \<and> looked_up (mem s) (M ! j)) \<and> same_cpu view lag mem s (snd zt))
    (\<lambda>_ _. False) (with_smem L z, s)"
proof -
  have "wp (each_index (fetch_smem bus) [0..<5])
    (\<lambda>_ zt. \<exists>M. fst zt = with_smem M z \<and> length M = 5 \<and> (\<forall>j<5. sm_a (M ! j) = sm_a (L ! j)) \<and>
       (\<forall>j<5. looked_up (mem s) (M ! j)) \<and> same_cpu view lag mem s (snd zt))
    (\<lambda>_ _. False) (with_smem L z, s)"
  proof (rule each_index_inv [where Inv = "\<lambda>i zt. \<exists>M. fst zt = with_smem M z \<and> length M = 5 \<and>
        (\<forall>j<5. sm_a (M ! j) = sm_a (L ! j)) \<and> (\<forall>j<i. looked_up (mem s) (M ! j)) \<and> same_cpu view lag mem s (snd zt)"], goal_cases)
    case (1 i zt)
    then obtain M where M: "fst zt = with_smem M z" "length M = 5" "\<forall>j<5. sm_a (M ! j) = sm_a (L ! j)"
      "\<forall>j<i. looked_up (mem s) (M ! j)" "same_cpu view lag mem s (snd zt)" by blast
    then have zt: "zt = (with_smem M z, snd zt)" and l: "lag (snd zt) = 0" "mem (snd zt) = mem s" "i < length M"
      using 1 by (simp_all add: same_cpu_def prod_eq_iff)
    have "wp (fetch_smem bus i)
      (\<lambda>_ zu. \<exists>m. fst zu = with_smem (M[i := m]) z \<and> sm_a m = sm_a (M ! i) \<and> looked_up (mem s) m \<and>
         same_cpu view lag mem (snd zt) (snd zu)) (\<lambda>_ _. False) zt"
      using fetch_smem_wp [OF b l(1,3), of z] unfolding l(2) zt [symmetric] .
    then show ?case
    proof (rule wp_mono, elim exE conjE, goal_cases)
      case (1 u zu m)
      have "\<forall>j<Suc i. looked_up (mem s) (M[i := m] ! j)" "\<forall>j<5. sm_a (M[i := m] ! j) = sm_a (L ! j)"
        using 1 M(2-4) l(3) by (auto simp: less_Suc_eq nth_list_update)
      then show ?case
        using 1 M same_cpu_trans [OF M(5)] by (intro exI [of _ "M[i := m]"]) auto
    qed simp
  next
    case 3
    then show ?case using L s by (auto simp: same_cpu_def)
  qed simp
  then show ?thesis by (rule wp_mono) auto
qed

subsection \<open>The snapshot\<close>

definition snapshot :: "(nat \<Rightarrow> u32) \<Rightarrow> (u32 \<Rightarrow> u32 option) \<Rightarrow> zipstate \<Rightarrow> zipstate \<Rightarrow> bool" where
  "snapshot regs m old s \<longleftrightarrow>
     zs_valid s \<and> zs_sR s = map regs [0..<16] \<and> zs_uR s = map regs [16..<32] \<and> zs_p s = map regs [32..<52] \<and>
     zs_gie s = (regs 14 AND 0x20 \<noteq> 0) \<and>
     zs_pc s = (if zs_gie s then regs 31 else regs 15) \<and> zs_sp s = (if zs_gie s then regs 29 else regs 13) \<and>
     length (zs_imem s) = 5 \<and> length (zs_smem s) = 5 \<and>
     sm_a (zs_imem s ! 0) = (if zs_last_pc_valid old then zs_last_pc old else zs_pc s - 4) \<and>
     looked_up m (zs_imem s ! 0) \<and> sm_a (zs_imem s ! 1) = zs_pc s \<and> looked_up m (zs_imem s ! 1) \<and>
     (\<forall>j. 1 \<le> j \<and> j < 4 \<longrightarrow> next_entry m (zs_imem s ! j) (zs_imem s ! Suc j)) \<and>
     (\<forall>j<5. sm_a (zs_smem s ! j) = zs_sp s + of_nat (4 * j) \<and> looked_up m (zs_smem s ! j)) \<and>
     zs_last_pc_valid s = zs_last_pc_valid old \<and> zs_last_pc s = zs_last_pc old"

definition zippy_ok :: "zippy \<Rightarrow> bool" where
  "zippy_ok z \<longleftrightarrow> 0 \<le> zp_cursor z \<and> zp_cursor z < 44 \<and>
     length (zs_sR (zp_state z)) = 16 \<and> length (zs_uR (zp_state z)) = 16 \<and> length (zs_p (zp_state z)) = 20 \<and>
     length (zs_smem (zp_state z)) = 5 \<and> length (zs_imem (zp_state z)) = 5"

definition registers_read :: "(nat \<Rightarrow> u32) \<Rightarrow> zipstate \<Rightarrow> zipstate" where
  "registers_read regs st =
     set_pointers (st\<lparr>zs_valid := False, zs_sR := map (\<lambda>i. regs (0 + i)) [0..<16], zs_uR := map (\<lambda>i. regs (16 + i)) [0..<16],
       zs_p := map (\<lambda>i. regs (32 + i)) [0..<20]\<rparr>)"

lemma read_registers_wp:
  assumes b: "cpu_board d view lag mem bus" "d < MAXERR" and z: "zippy_ok z" "\<not> zp_user_break z"
  shows "wp (thenS (modZ (zstate (\<lambda>s. s\<lparr>zs_valid := False\<rparr>))) (\<lambda>_.
     thenS (read_block bus set_sR 0 16) (\<lambda>_.
     thenS (read_block bus set_uR 16 16) (\<lambda>_.
     thenS (read_block bus set_p 32 20) (\<lambda>_. modZ (zstate set_pointers))))))
    (\<lambda>_ zt. fst zt = zstate (registers_read (cv_regs (view s))) z \<and> same_cpu view lag mem s (snd zt)) (\<lambda>_ _. False) (z, s)"
  unfolding wp_thenS [of "modZ _"] wp_modZ
proof (rule wp_seq [OF sR.read_block_wp [OF _ b]], goal_cases)
  case (5 x zt)
  let ?z1 = "zstate (\<lambda>st. st\<lparr>zs_sR := map (\<lambda>i. cv_regs (view s) (0 + i)) [0..<16]\<rparr>) (zstate (\<lambda>s. s\<lparr>zs_valid := False\<rparr>) z)"
  obtain t where zt: "zt = (?z1, t)" "cv_regs (view t) = cv_regs (view s)" "mem t = mem s" using 5 by (cases zt) auto
  show ?case
    unfolding zt(1)
  proof (rule wp_seq [OF uR.read_block_wp [OF _ b]], goal_cases)
    case (5 x zu)
    let ?z2 = "zstate (\<lambda>st. st\<lparr>zs_uR := map (\<lambda>i. cv_regs (view s) (16 + i)) [0..<16]\<rparr>) ?z1"
    obtain u where zu: "zu = (?z2, u)" "cv_regs (view u) = cv_regs (view s)" "mem u = mem s" using 5 zt by (cases zu) auto
    show ?case
      unfolding zu(1)
    proof (rule wp_seq [OF per.read_block_wp [OF _ b]], goal_cases)
      case (5 x zw)
      then show ?case using zu by (cases zw) (simp add: wp_simps zstate_def registers_read_def same_cpu_def)
    qed (use z in \<open>simp_all add: set_p_def zstate_def zippy_ok_def\<close>)
  qed (use z in \<open>simp_all add: set_uR_def zstate_def zippy_ok_def\<close>)
qed (use z in \<open>simp_all add: set_sR_def zstate_def zippy_ok_def\<close>)

lemma registers_read_facts:
  assumes "zippy_ok z"
  shows "zs_imem (registers_read regs (zp_state z)) = zs_imem (zp_state z)"
    "zs_smem (registers_read regs (zp_state z)) = zs_smem (zp_state z)"
    "zs_last_pc (registers_read regs (zp_state z)) = zs_last_pc (zp_state z)"
    "zs_last_pc_valid (registers_read regs (zp_state z)) = zs_last_pc_valid (zp_state z)"
    "zs_sR (registers_read regs (zp_state z)) = map regs [0..<16]"
    "zs_uR (registers_read regs (zp_state z)) = map regs [16..<32]"
    "zs_p (registers_read regs (zp_state z)) = map regs [32..<52]"
    "zs_gie (registers_read regs (zp_state z)) = (regs 14 AND 0x20 \<noteq> 0)"
    "zs_pc (registers_read regs (zp_state z)) = (if regs 14 AND 0x20 \<noteq> 0 then regs 31 else regs 15)"
    "zs_sp (registers_read regs (zp_state z)) = (if regs 14 AND 0x20 \<noteq> 0 then regs 29 else regs 13)"
proof -
  have "map (\<lambda>i. regs (k + i)) [0..<n] = map regs [k..<k + n]" for k n
    by (simp add: list_eq_iff_nth_eq)
  then show "zs_uR (registers_read regs (zp_state z)) = map regs [16..<32]"
    "zs_p (registers_read regs (zp_state z)) = map regs [32..<52]"
    by (simp_all add: registers_read_def set_pointers_def Let_def)
qed (simp_all add: registers_read_def set_pointers_def Let_def)

text \<open>The instructions and the stack, when the registers have been read.\<close>

lemma instructions_wp:
  assumes b: "cpu_board d view lag mem bus" and s: "lag s = 0" and l: "length L = 5"
  shows "wp (thenS (fetch_imem bus 0 a0) (\<lambda>_. thenS (fetch_imem bus 1 a1) (\<lambda>_. each_index (follow_imem bus) [1..<4])))
    (\<lambda>_ zt. same_cpu view lag mem s (snd zt) \<and> (\<exists>I. fst zt = with_imem I z \<and> length I = 5 \<and>
       sm_a (I ! 0) = a0 \<and> looked_up (mem s) (I ! 0) \<and> sm_a (I ! 1) = a1 \<and> looked_up (mem s) (I ! 1) \<and>
       (\<forall>j. 1 \<le> j \<and> j < 4 \<longrightarrow> next_entry (mem s) (I ! j) (I ! Suc j)))) (\<lambda>_ _. False) (with_imem L z, s)"
proof (rule wp_seq [OF fetch_imem_wp [OF b s]], goal_cases)
  case (2 x zt)
  then obtain m0 t where m0: "zt = (with_imem (L[0 := m0]) z, t)" "sm_a m0 = a0" "looked_up (mem s) m0" "same_cpu view lag mem s t"
    by (cases zt) auto
  then have t: "lag t = 0" "mem t = mem s" by (simp_all add: same_cpu_def)
  show ?case
    unfolding m0(1)
  proof (rule wp_seq [OF fetch_imem_wp [OF b t(1)]], goal_cases)
    case (2 x zu)
    let ?L = "\<lambda>m1. L[0 := m0, 1 := m1]"
    obtain m1 u where m1: "zu = (with_imem (?L m1) z, u)" "sm_a m1 = a1" "looked_up (mem s) m1" "same_cpu view lag mem t u"
      using 2 t by (cases zu) auto
    then have u: "lag u = 0" "mem u = mem s" "same_cpu view lag mem s u"
      using t same_cpu_trans [OF m0(4)] by (simp_all add: same_cpu_def)
    have L: "length (?L m1) = 5" "?L m1 ! 0 = m0" "?L m1 ! 1 = m1" using l by simp_all
    show ?case
      unfolding m1(1)
      by (rule wp_mono [OF follow_all_wp [OF b u(1) L(1), unfolded L(2,3) u(2)]])
        (use m0(2,3) m1(2,3) same_cpu_trans [OF u(3)] in auto)
  qed (use l in simp)
qed (use l in simp)

lemma stack_wp:
  assumes b: "cpu_board d view lag mem bus" and s: "lag s = 0" and l: "length (zs_smem (zp_state z)) = 5"
  shows "wp (thenS (modZ (zstate (\<lambda>s. set_stack [1..<5] (set_smem 0 (\<lambda>m. m\<lparr>sm_a := zs_sp s\<rparr>) s)))) (\<lambda>_.
     each_index (fetch_smem bus) [0..<5]))
    (\<lambda>_ zt. same_cpu view lag mem s (snd zt) \<and> (\<exists>S. fst zt = with_smem S z \<and> length S = 5 \<and>
       (\<forall>j<5. sm_a (S ! j) = zs_sp (zp_state z) + of_nat (4 * j) \<and> looked_up (mem s) (S ! j)))) (\<lambda>_ _. False) (z, s)"
proof -
  obtain L where L: "set_stack [1..<5] (set_smem 0 (\<lambda>m. m\<lparr>sm_a := zs_sp (zp_state z)\<rparr>) (zp_state z)) = (zp_state z)\<lparr>zs_smem := L\<rparr>"
    "length L = 5" "\<forall>j<5. sm_a (L ! j) = zs_sp (zp_state z) + of_nat (4 * j)"
    using stack_addresses [OF l] by metis
  have "zstate (\<lambda>s. set_stack [1..<5] (set_smem 0 (\<lambda>m. m\<lparr>sm_a := zs_sp s\<rparr>) s)) z = with_smem L z"
    using L(1) by (simp add: zstate_def with_smem_def)
  then show ?thesis
    unfolding wp_thenS wp_modZ by (simp only:) (rule wp_mono [OF fetch_stack_wp [OF b s L(2)]], use L(3) in auto)
qed

text \<open>C26. After \<open>read_raw_state\<close> the debugger holds a true picture of the halted CPU: all 52 registers, the
  program counter and stack pointer of the mode that runs, five words of the stack, the instruction
  executed last, and the instructions at the program counter and at the addresses that \<open>zop_early_branch\<close>
  gives one after the other. (These are what the code shows, not always the path of the CPU: conditional
  branches count as taken, and backward ones go wrong, see \<open>early_branch_never_goes_back\<close>.) What
  the bus does not answer is marked. The registers and the memory are as they were.\<close>

theorem read_raw_state_snapshot:
  assumes "cpu_board d view lag mem bus" and "d < MAXERR" and "zippy_ok z" and "\<not> zp_user_break z"
  shows "wp (read_raw_state bus)
      (\<lambda>_ (z', t). snapshot (cv_regs (view s)) (mem s) (zp_state z) (zp_state z') \<and> zippy_ok z' \<and>
         zp_cursor z' = zp_cursor z \<and> same_cpu view lag mem s t)
      (\<lambda>_ _. False) (z, s)"
proof -
  note b = assms(1,2) and z = assms(3,4)
  let ?regs = "cv_regs (view s)"
  define zA where "zA = zstate (registers_read ?regs) z"
  have st: "zp_state zA = registers_read ?regs (zp_state z)" "zp_cursor zA = zp_cursor z" by (simp_all add: zA_def zstate_def)
  note facts = registers_read_facts [OF z(1), of ?regs, folded st(1)]
  have l: "length (zs_imem (zp_state zA)) = 5" "length (zs_smem (zp_state zA)) = 5"
    using z(1) by (simp_all add: facts zippy_ok_def)
  have zA: "zA = with_imem (zs_imem (zp_state zA)) zA" by (simp add: with_imem_def zstate_def)
  have split: "read_raw_state bus = thenS (thenS (modZ (zstate (\<lambda>s. s\<lparr>zs_valid := False\<rparr>))) (\<lambda>_.
     thenS (read_block bus set_sR 0 16) (\<lambda>_.
     thenS (read_block bus set_uR 16 16) (\<lambda>_.
     thenS (read_block bus set_p 32 20) (\<lambda>_. modZ (zstate set_pointers))))))
     (\<lambda>_. thenS (getZ zp_state) (\<lambda>s.
     thenS (thenS (fetch_imem bus 0 (if zs_last_pc_valid s then zs_last_pc s else zs_pc s - 4)) (\<lambda>_.
       thenS (fetch_imem bus 1 (zs_pc s)) (\<lambda>_. each_index (follow_imem bus) [1..<4]))) (\<lambda>_.
     thenS (thenS (modZ (zstate (\<lambda>s. set_stack [1..<5] (set_smem 0 (\<lambda>m. m\<lparr>sm_a := zs_sp s\<rparr>) s)))) (\<lambda>_.
       each_index (fetch_smem bus) [0..<5])) (\<lambda>_.
     modZ (zstate (\<lambda>s. s\<lparr>zs_valid := True\<rparr>))))))"
    by (simp add: read_raw_state_def thenS_assoc)
  show ?thesis
    unfolding split
  proof (rule wp_seq [OF read_registers_wp [OF b z]], goal_cases)
    case (1 x zt)
    then obtain t where t: "zt = (zA, t)" "same_cpu view lag mem s t" by (cases zt) (auto simp: zA_def)
    then have t0: "lag t = 0" "mem t = mem s" by (simp_all add: same_cpu_def)
    show ?case
      unfolding t(1) wp_thenS [of "getZ _"] wp_getZ
    proof (rule wp_seq [OF instructions_wp [OF b(1) t0(1) l(1), of _ _ zA, folded zA]], goal_cases)
      case (1 x zu)
      then obtain I u where u: "zu = (with_imem I zA, u)" "same_cpu view lag mem t u" "length I = 5"
        "sm_a (I ! 0) = (if zs_last_pc_valid (zp_state zA) then zs_last_pc (zp_state zA) else zs_pc (zp_state zA) - 4)"
        "looked_up (mem s) (I ! 0)" "sm_a (I ! 1) = zs_pc (zp_state zA)" "looked_up (mem s) (I ! 1)"
        "\<forall>j. 1 \<le> j \<and> j < 4 \<longrightarrow> next_entry (mem s) (I ! j) (I ! Suc j)"
        using t0 by (cases zu) auto
      then have u0: "lag u = 0" "mem u = mem s" using t0 by (simp_all add: same_cpu_def)
      have zB: "length (zs_smem (zp_state (with_imem I zA))) = 5" "zs_sp (zp_state (with_imem I zA)) = zs_sp (zp_state zA)"
        using l(2) by (simp_all add: with_imem_def zstate_def)
      show ?case
        unfolding u(1)
      proof (rule wp_seq [OF stack_wp [OF b(1) u0(1) zB(1)]], goal_cases)
        case (1 x zw)
        then obtain S w where w: "zw = (with_smem S (with_imem I zA), w)" "same_cpu view lag mem u w" "length S = 5"
          "\<forall>j<5. sm_a (S ! j) = zs_sp (zp_state zA) + of_nat (4 * j) \<and> looked_up (mem s) (S ! j)"
          unfolding zB(2) u0(2) by (cases zw) auto
        have "same_cpu view lag mem s w"
          using same_cpu_trans [OF same_cpu_trans [OF t(2) u(2)] w(2)] .
        then show ?case
          using u(3-8) w(3,4) z(1) facts st(2)
          by (simp add: w(1) wp_simps snapshot_def zippy_ok_def zstate_def with_imem_def with_smem_def)
      qed
    qed
  qed
qed

subsection \<open>Editing\<close>

text \<open>The codes of the special keys lie above those of the characters.\<close>

definition keymap_ok :: "keymap \<Rightarrow> bool" where
  "keymap_ok k \<longleftrightarrow> list_all (\<lambda>c. 256 \<le> c)
     [ky_ENTER k, ky_UP k, ky_DOWN k, ky_LEFT k, ky_RIGHT k, ky_BACKSPACE k, ky_CLEAR k, ky_IC k, ky_CANCEL k, ky_CLOSE k, ky_EXIT k]"

definition hex_digits :: string where
  "hex_digits = ''0123456789ABCDEF''"

definition key_of :: "char \<Rightarrow> int" where
  "key_of c = of_char c"

lemma key_digit_of: "c \<in> set hex_digits \<Longrightarrow> key_digit (key_of c) = Some c \<and> 32 < key_of c \<and> key_of c < 256 \<and> c \<noteq> CHR 0x00"
  by (auto simp: hex_digits_def key_digit_def key_of_def)

lemma edit_key_digit:
  assumes "keymap_ok k" "c \<in> set hex_digits" "pos < length str"
  shows "edit_key k (key_of c) str pos = Inr (str[pos := c], pos + 1, False)"
  using assms key_digit_of [OF assms(2)]
  by (auto simp: edit_key_def keymap_ok_def KEY_ESCAPE_def KEY_RETURN_def)

lemma edit_digits:
  assumes k: "keymap_ok k"
  shows "set ds \<subseteq> set hex_digits \<Longrightarrow> length str = 16 \<Longrightarrow> pos + length ds \<le> 8 \<Longrightarrow>
    \<exists>str'. edit_keys k (map key_of ds @ KEY_RETURN # rest) str pos = Inr (rest, str', pos + length ds) \<and>
      take (pos + length ds) str' = take pos str @ ds \<and> str' ! (pos + length ds) = CHR 0x00 \<and> length str' = 16"
proof (induction ds arbitrary: str pos)
  case Nil
  then show ?case by (auto simp: edit_key_def KEY_ESCAPE_def KEY_RETURN_def)
next
  case (Cons c ds)
  let ?str = "str[pos := c, Suc pos := CHR 0x00]"
  have step: "edit_keys k (map key_of (c # ds) @ KEY_RETURN # rest) str pos =
      edit_keys k (map key_of ds @ KEY_RETURN # rest) ?str (Suc pos)"
    using Cons.prems edit_key_digit [OF k, of c pos str] by simp
  obtain str' where "edit_keys k (map key_of ds @ KEY_RETURN # rest) ?str (Suc pos) = Inr (rest, str', Suc pos + length ds)"
    "take (Suc pos + length ds) str' = take (Suc pos) ?str @ ds" "str' ! (Suc pos + length ds) = CHR 0x00" "length str' = 16"
    using Cons.IH [of ?str "Suc pos"] Cons.prems by auto
  moreover have "take (Suc pos) ?str = take pos str @ [c]"
    using Cons.prems by (simp add: take_Suc_conv_app_nth)
  ultimately show ?case unfolding step by auto
qed

lemma strtoul16_of_digits:
  assumes "take n str = ds" "n < length str" "str ! n = CHR 0x00" "set ds \<subseteq> set hex_digits"
  shows "strtoul16 str = strtoul16 ds"
proof -
  have nz: "\<forall>c\<in>set ds. c \<noteq> CHR 0x00" using assms(4) key_digit_of by blast
  have "str = ds @ CHR 0x00 # drop (Suc n) str"
    using assms(1-3) id_take_nth_drop [OF assms(2)] by simp
  then have "takeWhile (\<lambda>c. c \<noteq> CHR 0x00) str = takeWhile (\<lambda>c. c \<noteq> CHR 0x00) (ds @ CHR 0x00 # drop (Suc n) str)" by simp
  also have "\<dots> = ds" using nz by (subst takeWhile_append2) auto
  finally show ?thesis using nz by (simp add: strtoul16_def takeWhile_eq_all_conv [THEN iffD2])
qed

lemma get_value_wp:
  assumes b: "cpu_board d view lag mem bus" "d < MAXERR" and z: "\<not> zp_user_break z"
    and k: "keymap_ok k" "length g = 16" "ds \<noteq> []" "length ds \<le> 8" "set ds \<subseteq> set hex_digits"
  shows "wp (get_value k bus g (map key_of ds @ KEY_RETURN # rest))
      (\<lambda>chs (z', t). chs = rest \<and> z' = z \<and> mem t = mem s \<and>
         cv_regs (view t) = (cv_regs (view s))(unat ((of_int (edit_register (zp_cursor z)) :: u32) AND 0x3f) := of_nat (strtoul16 ds)))
      (\<lambda>_ _. False) (z, s)"
proof -
  obtain str where "edit_keys k (map key_of ds @ KEY_RETURN # rest) (g[0 := CHR 0x00]) 0 = Inr (rest, str, length ds)"
    and str: "take (length ds) str = ds" "str ! length ds = CHR 0x00" "length str = 16"
    using edit_digits [OF k(1,5), of "g[0 := CHR 0x00]" 0 rest] k(2,4) by auto
  then have keys: "bindE (aset g 0 (CHR 0x00)) (\<lambda>str. edit_keys k (map key_of ds @ KEY_RETURN # rest) str 0) =
      Inr (rest, str, length ds)"
    using k(2) by simp
  have v: "strtoul16 str = strtoul16 ds"
    using strtoul16_of_digits [OF str(1) _ str(2) k(5)] str(3) k(4) by simp
  have pos: "0 < length ds" using k(3) by simp
  show ?thesis
    unfolding get_value_def keys liftS_Inr thenS_retS prod.case if_P [OF pos] v wp_thenS [of "getZ _"] wp_getZ
    by (rule wp_seq [OF cmd_write_wp [OF b z]]) (auto simp: wp_simps)
qed

lemma register_cells_at:
  "(row, col, v, c) \<in> set (register_cells r0 c0 cc regs) \<Longrightarrow>
    c0 \<le> c \<and> c < c0 + 16 \<and> v = regs ! (c - c0) \<and> row = r0 + (c - c0) div 4 \<and> col = 20 * ((c - c0) mod 4)"
  by (auto simp: register_cells_def)

lemma peripheral_cells_at:
  "(row, col, v, c) \<in> set (peripheral_cells users p) \<Longrightarrow>
    c < 12 \<and> v = p ! (if users \<and> 8 \<le> c then c + 4 else c) \<and> row = 1 + c div 4 \<and> col = 20 * (c mod 4)"
proof -
  have "i \<in> {0, 1, 2, 3}" if "i < 4" for i :: nat using that by auto
  then show "(row, col, v, c) \<in> set (peripheral_cells users p) \<Longrightarrow> ?thesis"
    by (fastforce simp: peripheral_cells_def)
qed

text \<open>The register that is written for a cursor.\<close>

definition edited :: "nat \<Rightarrow> nat" where
  "edited c = (if c \<ge> 12 then c - 12 else c + 32)"

lemma edited_register: "c < 44 \<Longrightarrow> unat ((of_int (edit_register (int c)) :: u32) AND 0x3f) = edited c"
proof -
  assume c: "c < 44"
  have "(of_int (edit_register (int c)) :: u32) = of_nat (edited c)"
    by (simp add: edit_register_def edited_def of_nat_diff)
  moreover have "edited c < 64" using c unfolding edited_def by presburger
  ultimately show ?thesis by (simp only: cpu_register_index)
qed

lemma int_and_3: "int c AND 3 = int (c mod 4)"
proof -
  have "(3 :: int) = mask 2" by (simp add: mask_eq_exp_minus_1)
  then show ?thesis by (simp only: take_bit_eq_mask [symmetric]) (simp add: take_bit_eq_mod zmod_int)
qed

lemma int_drop_2: "drop_bit 2 (int c) = int (c div 4)"
  by (simp add: drop_bit_eq_div zdiv_int)

lemma map_upt_nth: "i < b - a \<Longrightarrow> map f [a..<b] ! i = f (a + i)"
  by simp

lemma shown_at:
  assumes "snapshot regs m old (zp_state z)" and "(row, col, v, c) \<in> set (shown_cells z)"
  shows "v = regs (if zp_show_users_timers z \<and> 8 \<le> c \<and> c < 12 then edited c + 4 else edited c)" and "c < 44"
    and "edit_column (int c) = int col + 10" and "edit_row (int c) = int row - (if 12 \<le> c \<and> c < 16 then 2 else 0)"
proof -
  let ?s = "zp_state z"
  have maps: "zs_sR ?s = map regs [0..<16]" "zs_uR ?s = map regs [16..<32]" "zs_p ?s = map regs [32..<52]"
    using assms(1) unfolding snapshot_def by blast+
  have r: "zs_sR ?s ! i = regs i" "zs_uR ?s ! i = regs (16 + i)" if "i < 16" for i
    using map_upt_nth [of i 16 0 regs] map_upt_nth [of i 32 16 regs] that unfolding maps by simp_all
  have p: "zs_p ?s ! i = regs (32 + i)" if "i < 20" for i
    using map_upt_nth [of i 52 32 regs] that unfolding maps by simp
  consider "(row, col, v, c) \<in> set (peripheral_cells (zp_show_users_timers z) (zs_p ?s))"
    | "(row, col, v, c) \<in> set (register_cells 6 12 (zp_show_cc z) (zs_sR ?s))"
    | "(row, col, v, c) \<in> set (register_cells 11 28 (zp_show_cc z) (zs_uR ?s))"
    using assms(2) by (auto simp: shown_cells_def)
  then have "v = regs (if zp_show_users_timers z \<and> 8 \<le> c \<and> c < 12 then edited c + 4 else edited c) \<and> c < 44 \<and>
      col = 20 * (c mod 4) \<and> row = 1 + c div 4 + (if c < 12 then 0 else if c < 28 then 2 else 3)"
  proof cases
    case 1
    then show ?thesis using peripheral_cells_at [OF 1] by (auto simp: p edited_def add.commute)
  next
    case 2
    then obtain j where "c = 12 + j" "j < 16" "v = zs_sR ?s ! j" "row = 6 + j div 4" "col = 20 * (j mod 4)"
      using register_cells_at [OF 2] le_Suc_ex [of 12 c] by auto
    moreover have "(12 + j) div 4 = 3 + j div 4" "(12 + j) mod 4 = j mod 4" by presburger+
    ultimately show ?thesis by (simp add: r edited_def)
  next
    case 3
    then obtain j where "c = 28 + j" "j < 16" "v = zs_uR ?s ! j" "row = 11 + j div 4" "col = 20 * (j mod 4)"
      using register_cells_at [OF 3] le_Suc_ex [of 28 c] by auto
    moreover have "(28 + j) div 4 = 7 + j div 4" "(28 + j) mod 4 = j mod 4" by presburger+
    ultimately show ?thesis by (simp add: r edited_def)
  qed
  then show "v = regs (if zp_show_users_timers z \<and> 8 \<le> c \<and> c < 12 then edited c + 4 else edited c)" "c < 44"
    and "edit_column (int c) = int col + 10" and "edit_row (int c) = int row - (if 12 \<le> c \<and> c < 16 then 2 else 0)"
    by (simp_all add: edit_column_def edit_row_def int_and_3 int_drop_2 Let_def, auto)
qed

text \<open>C27. A value that is typed in, one to eight hexadecimal digits and return, is written to the register whose
  value stands under the cursor, and to no other; except that the user's timers, when they are shown,
  stand where the supervisor's are written.\<close>

theorem get_value_writes_shown_register:
  assumes "cpu_board d view lag mem bus" and "d < MAXERR" and "zippy_ok z" and "\<not> zp_user_break z"
    and "snapshot (cv_regs (view s)) (mem s) old (zp_state z)" and "(row, col, v, c) \<in> set (shown_cells z)"
    and "zp_cursor z = int c" and "keymap_ok k" and "length g = 16"
    and "ds \<noteq> [] \<and> length ds \<le> 8 \<and> set ds \<subseteq> set hex_digits"
  shows "wp (get_value k bus g (map key_of ds @ KEY_RETURN # rest))
      (\<lambda>chs (z', t). chs = rest \<and> z' = z \<and> mem t = mem s \<and>
         cv_regs (view t) = (cv_regs (view s))(edited c := of_nat (strtoul16 ds)) \<and>
         v = cv_regs (view s) (if zp_show_users_timers z \<and> 8 \<le> c \<and> c < 12 then edited c + 4 else edited c))
      (\<lambda>_ _. False) (z, s)"
  using get_value_wp [OF assms(1,2,4,8,9), of ds rest s] assms(7,10) shown_at [OF assms(5,6)]
  by (auto simp: edited_register elim!: wp_mono)

subsection \<open>The state is always well formed\<close>

definition ok_after :: "(zippy \<times> 's, 'a) prog \<Rightarrow> bool" where
  "ok_after m \<longleftrightarrow> (\<forall>z s. zippy_ok z \<longrightarrow> wp m (\<lambda>_ zt. zippy_ok (fst zt)) (\<lambda>_ zt. zippy_ok (fst zt)) (z, s))"

named_theorems ok_intros \<open>programs that keep the state well formed\<close>

lemma ok_simple [ok_intros]: "ok_after (retS x)" "ok_after (throwS e)" "ok_after (getZ f)" "ok_after (liftS r)"
  by (simp_all add: ok_after_def wp_simps) (auto simp: wp_def liftS_def split: sum.splits)

lemma ok_on_bus [ok_intros]: "ok_after (on_bus m)"
  by (auto simp: ok_after_def wp_on_bus) (auto simp: wp_def split: sum.splits)

lemma ok_modZ [ok_intros]: "(\<And>z. zippy_ok z \<Longrightarrow> zippy_ok (f z)) \<Longrightarrow> ok_after (modZ f)"
  by (simp add: ok_after_def wp_simps)

lemma ok_thenS [ok_intros]: "ok_after m \<Longrightarrow> (\<And>x. ok_after (f x)) \<Longrightarrow> ok_after (thenS m f)"
  unfolding ok_after_def by (auto intro!: wp_seq [where R = "\<lambda>_ zt. zippy_ok (fst zt)"])

lemma ok_catchS [ok_intros]: "ok_after m \<Longrightarrow> (\<And>e. ok_after (h e)) \<Longrightarrow> ok_after (catchS m h)"
  unfolding ok_after_def by (auto intro!: wp_catch [where F = "\<lambda>_ zt. zippy_ok (fst zt)"])

lemma ok_if [ok_intros]: "ok_after m \<Longrightarrow> ok_after n \<Longrightarrow> ok_after (if b then m else n)"
  by simp

lemma ok_each_index [ok_intros]: "(\<And>i. ok_after (f i)) \<Longrightarrow> ok_after (each_index f is)"
  by (induction "is") (auto intro!: ok_intros)

lemma ok_case_error [ok_intros]:
  "ok_after m \<Longrightarrow> ok_after n \<Longrightarrow> ok_after (case e of BusErr a \<Rightarrow> m | _ \<Rightarrow> n)"
  "ok_after m \<Longrightarrow> ok_after n \<Longrightarrow> ok_after (case e of BusErr a \<Rightarrow> m | Thrown t \<Rightarrow> m | _ \<Rightarrow> n)"
  by (cases e; simp)+

lemma ok_case_prod [ok_intros]: "(\<And>x y. ok_after (f x y)) \<Longrightarrow> ok_after (case p of (x, y) \<Rightarrow> f x y)"
  by (cases p) simp

lemma zippy_ok_updates:
  "zippy_ok z \<Longrightarrow> zippy_ok (zstate (set_sR i v) z)" "zippy_ok z \<Longrightarrow> zippy_ok (zstate (set_uR i v) z)"
  "zippy_ok z \<Longrightarrow> zippy_ok (zstate (set_p i v) z)" "zippy_ok z \<Longrightarrow> zippy_ok (zstate (set_imem i f) z)"
  "zippy_ok z \<Longrightarrow> zippy_ok (zstate (set_smem i f) z)" "zippy_ok z \<Longrightarrow> zippy_ok (zstate set_pointers z)"
  "zippy_ok z \<Longrightarrow> zippy_ok (zstate zipstate_step z)" "zippy_ok z \<Longrightarrow> zippy_ok (zstate (\<lambda>s. s\<lparr>zs_valid := b\<rparr>) z)"
  by (simp_all add: zippy_ok_def zstate_def set_sR_def set_uR_def set_p_def set_imem_def set_smem_def set_pointers_def
      zipstate_step_def Let_def)

lemma zippy_ok_stack:
  "zippy_ok z \<Longrightarrow> zippy_ok (zstate (\<lambda>s. set_stack is (set_smem i (\<lambda>m. m\<lparr>sm_a := zs_sp s\<rparr>) s)) z)"
proof -
  have "zippy_ok (zstate (\<lambda>_. t) z) \<Longrightarrow> zippy_ok (zstate (\<lambda>_. set_stack is t) z)" for t
  proof (induction "is" arbitrary: t)
    case (Cons i "is")
    then show ?case using zippy_ok_updates(5) [of "zstate (\<lambda>_. t) z"] by (simp add: zstate_def)
  qed simp
  moreover assume "zippy_ok z"
  ultimately show ?thesis using zippy_ok_updates(5) by (simp add: zstate_def)
qed

lemma zippy_ok_cursor:
  "zippy_ok z \<Longrightarrow> zippy_ok (clamp_cursor z)" "zippy_ok z \<Longrightarrow> zippy_ok (cursor_up z)" "zippy_ok z \<Longrightarrow> zippy_ok (cursor_down z)"
  "zippy_ok z \<Longrightarrow> zippy_ok (cursor_left z)" "zippy_ok z \<Longrightarrow> zippy_ok (cursor_right z)"
  "zippy_ok z \<Longrightarrow> zippy_ok (toggle_cc z)" "zippy_ok z \<Longrightarrow> zippy_ok (show_user_timers b z)"
  by (simp_all add: zippy_ok_def clamp_cursor_def cursor_up_def cursor_down_def cursor_left_def cursor_right_def
      toggle_cc_def show_user_timers_def)

lemma ok_fetch [ok_intros]:
  "(\<And>f z. zippy_ok z \<Longrightarrow> zippy_ok (zstate (put f) z)) \<Longrightarrow> ok_after (fetch bus put a)"
  unfolding fetch_def by (intro ok_intros)

lemma ok_registers [ok_intros]: "ok_after (cmd_read bus a)" "ok_after (cmd_write bus a v)"
  unfolding cmd_read_def cmd_write_def by (intro ok_intros)+

lemma ok_read_block [ok_intros]:
  "(\<And>i v z. zippy_ok z \<Longrightarrow> zippy_ok (zstate (put i v) z)) \<Longrightarrow> ok_after (read_block bus put base n)"
  unfolding read_block_def by (intro ok_intros)

lemma ok_memory [ok_intros]: "ok_after (fetch_imem bus i a)" "ok_after (fetch_smem bus i)" "ok_after (follow_imem bus i)"
  unfolding follow_imem_def fetch_imem_def fetch_smem_def by (intro ok_intros zippy_ok_updates; assumption)+

lemma ok_read_state [ok_intros]: "ok_after (read_state bus)"
  unfolding read_state_def read_raw_state_def
  by (intro ok_intros zippy_ok_updates zippy_ok_stack zippy_ok_cursor; assumption)

lemma ok_get_value [ok_intros]: "ok_after (get_value k bus g chs)"
  unfolding get_value_def by (intro ok_intros)

lemma ok_stalled [ok_intros]: "ok_after (zippy_stalled bus)" "ok_after (refresh bus)"
  unfolding refresh_def zippy_stalled_def by (intro ok_intros)+

lemma ok_zip_command [ok_intros]: "ok_after (zip_command k bus g ch chs)"
  unfolding zip_command_def Let_def zippy_reset_def zippy_step_def
  by (intro ok_intros zippy_ok_updates zippy_ok_cursor; assumption)

lemma ok_zipdbg_loop [ok_intros]: "ok_after (zipdbg_loop n k bus g chs)"
proof (induction n arbitrary: chs)
  case (Suc n)
  then show ?case by (cases chs) (auto intro!: ok_intros)
qed (simp add: ok_intros)

lemma ok_poll_stalled [ok_intros]: "ok_after (poll_stalled n bus)"
  by (induction n) (auto intro!: ok_intros)

text \<open>C28. Whatever the user types and however the bus behaves, the state of the debugger stays well formed:
  its five arrays keep their lengths and the cursor stays on the 44 cells of the screen.\<close>

theorem zipdbg_keeps_state:
  assumes "zippy_ok z"
  shows "wp (zipdbg k bus g chs) (\<lambda>_ (z', t). zippy_ok z') (\<lambda>_ (z', t). zippy_ok z') (z, s)"
proof -
  have "ok_after (zipdbg k bus g chs)"
    unfolding zipdbg_def zippy_halt_def by (intro ok_intros)
  with assms show ?thesis unfolding ok_after_def by (auto simp: case_prod_unfold)
qed

subsection \<open>A CPU\<close>

definition sim_cpu :: "(u32 \<Rightarrow> u32 option) \<Rightarrow> (cpuview \<times> nat) devbus" where
  "sim_cpu m =
     \<lparr>db_writeio = (\<lambda>a v. if a = R_ZIPCTRL then modS (\<lambda>s. ((fst s)\<lparr>cv_sel := unat (v AND 0x3f)\<rparr>, 2))
        else if a = R_ZIPDATA then modS (\<lambda>s. ((fst s)\<lparr>cv_regs := (cv_regs (fst s))(cv_sel (fst s) := v)\<rparr>, snd s))
        else retS ()),
      db_readio = (\<lambda>a. if a = R_ZIPCTRL
          then thenS (getS (\<lambda>s. if snd s = 0 then CPU_STALL else 0)) (\<lambda>x. thenS (modS (\<lambda>s. (fst s, snd s - 1))) (\<lambda>_. retS x))
        else if a = R_ZIPDATA then getS (\<lambda>s. cv_regs (fst s) (cv_sel (fst s)))
        else case m a of None \<Rightarrow> throwS (BusErr a) | Some x \<Rightarrow> retS x),
      db_readi = (\<lambda>a n. retS (replicate n 0)),
      db_writei = (\<lambda>a ws. retS ())\<rparr>"

lemma halt_and_register: "(CMD_HALT OR (a AND 0x3f)) AND 0x3f = (a AND 0x3f :: u32)"
proof -
  have "(CMD_HALT AND 0x3f :: u32) = 0" by (simp add: CMD_HALT_def)
  then show ?thesis by (simp add: bit.conj_disj_distrib2 and.assoc)
qed

lemma sim_cpu: "cpu_board 2 fst snd (\<lambda>_. m) (sim_cpu m)"
proof -
  have ports: "R_ZIPDATA \<noteq> R_ZIPCTRL" by (simp add: R_ZIPDATA_def R_ZIPCTRL_def)
  show ?thesis
    unfolding cpu_board_def
  proof (intro conjI allI impI)
    fix s :: "cpuview \<times> nat" and a
    assume "snd s = 0 \<and> a \<notin> debug_ports"
    then show "wp (db_readio (sim_cpu m) a) (\<lambda>x t. same_cpu fst snd (\<lambda>_. m) s t \<and> m a = Some x)
        (\<lambda>e t. same_cpu fst snd (\<lambda>_. m) s t \<and> m a = None \<and> (\<exists>b. e = BusErr b)) s"
      by (cases "m a") (auto simp: sim_cpu_def debug_ports_def same_cpu_def wp_simps)
  qed (auto simp: sim_cpu_def wp_simps ports halt_and_register same_cpu_def CPU_STALL_def)
qed

definition example_cpu :: "cpuview \<times> nat" where
  "example_cpu = (\<lparr>cv_regs = (\<lambda>i. if i < 16 then 0 else of_nat i), cv_sel = 0\<rparr>, 0)"

text \<open>Nothing answers at any address.\<close>

definition example_entries :: "u32 \<Rightarrow> sparsemem list" where
  "example_entries a = map (\<lambda>i. \<lparr>sm_valid = False, sm_a = a + of_nat (4 * i), sm_d = 0\<rparr>) [0..<5]"

definition example_zippy :: zippy where
  "example_zippy =
     \<lparr>zp_cursor = 5,
      zp_state = \<lparr>zs_valid = True, zs_gie = False, zs_last_pc_valid = False,
        zs_sR = map (\<lambda>i. if i < 16 then 0 else of_nat i) [0..<16], zs_uR = map of_nat [16..<32], zs_p = map of_nat [32..<52],
        zs_last_pc = 0, zs_pc = 0, zs_sp = 0, zs_smem = example_entries 0, zs_imem = example_entries (- 4)\<rparr>,
      zp_user_break = False, zp_show_users_timers = False, zp_show_cc = False\<rparr>"

definition example_keys :: keymap where
  "example_keys = \<lparr>ky_ENTER = 343, ky_UP = 259, ky_DOWN = 258, ky_LEFT = 260, ky_RIGHT = 261, ky_BACKSPACE = 263,
     ky_CLEAR = 333, ky_IC = 331, ky_CANCEL = 355, ky_CLOSE = 356, ky_EXIT = 361\<rparr>"

lemma example_zippy_ok: "zippy_ok example_zippy"
  by (simp add: zippy_ok_def example_zippy_def example_entries_def)

lemma example_snapshot:
  "snapshot (cv_regs (fst example_cpu)) (\<lambda>_. None) (zp_state example_zippy) (zp_state example_zippy)"
proof -
  have four: "j \<in> {1, 2, 3}" if "1 \<le> j" "j < 4" for j :: nat using that by auto
  have five: "j \<in> {0, 1, 2, 3, 4}" if "j < 5" for j :: nat using that by auto
  have "next_entry (\<lambda>_. None) (example_entries (- 4) ! j) (example_entries (- 4) ! Suc j)" if "1 \<le> j" "j < 4" for j
    using four [OF that] by (auto simp: next_entry_def example_entries_def)
  moreover have "sm_a (example_entries 0 ! j) = of_nat (4 * j) \<and> looked_up (\<lambda>_. None) (example_entries 0 ! j)" if "j < 5" for j
    using five [OF that] by (auto simp: looked_up_def example_entries_def)
  ultimately show ?thesis
    by (simp add: snapshot_def example_zippy_def example_cpu_def) (simp add: looked_up_def example_entries_def)
qed

theorem read_raw_state_snapshot_witness:
  "wp (read_raw_state (sim_cpu (\<lambda>a. if a < 0x1000 then Some (a + 7) else None)))
     (\<lambda>_ (z', t). zs_p (zp_state z') ! 3 = 35 \<and> sm_valid (zs_imem (zp_state z') ! 1) \<and> sm_d (zs_imem (zp_state z') ! 1) = 7 \<and>
        \<not> sm_valid (zs_imem (zp_state z') ! 0))
     (\<lambda>_ _. False) (zippy_new (zp_state example_zippy), example_cpu)"
proof -
  let ?m = "\<lambda>a :: u32. if a < 0x1000 then Some (a + 7) else None"
  have ok: "zippy_ok (zippy_new (zp_state example_zippy))" "\<not> zp_user_break (zippy_new (zp_state example_zippy))"
    by (simp_all add: zippy_new_def zippy_ok_def example_zippy_def example_entries_def)
  have fuel: "2 < MAXERR" by (simp add: MAXERR_def)
  have lookup: "\<And>e. looked_up ?m e \<Longrightarrow> sm_a e = 0 \<Longrightarrow> sm_valid e"
    "\<And>e. looked_up ?m e \<Longrightarrow> sm_a e = 0 \<Longrightarrow> sm_d e = 7"
    "\<And>e. looked_up ?m e \<Longrightarrow> sm_a e = - 4 \<Longrightarrow> \<not> sm_valid e"
    by (auto simp: looked_up_def debug_ports_def R_ZIPCTRL_def R_ZIPDATA_def)
  show ?thesis
    by (rule wp_mono [OF read_raw_state_snapshot [OF sim_cpu fuel ok, of ?m example_cpu]])
      (auto simp: snapshot_def example_cpu_def zippy_new_def example_zippy_def dest: lookup)
qed

theorem get_value_writes_shown_register_witness:
  "wp (get_value example_keys (sim_cpu (\<lambda>_. None)) (replicate 16 (CHR ''x'')) (map key_of ''1F'' @ KEY_RETURN # [113]))
     (\<lambda>chs (z', t). chs = [113] \<and> cv_regs (fst t) 37 = 0x1f \<and> cv_regs (fst t) 36 = 36)
     (\<lambda>_ _. False) (example_zippy, example_cpu)"
proof -
  have fuel: "2 < MAXERR" by (simp add: MAXERR_def)
  have cell: "(2, 20, 37, 5) \<in> set (shown_cells example_zippy)"
    by (simp add: shown_cells_def peripheral_cells_def example_zippy_def upt_rec)
  have z: "zp_cursor example_zippy = int 5" "\<not> zp_user_break example_zippy" by (simp_all add: example_zippy_def)
  have k: "keymap_ok example_keys" by (simp add: keymap_ok_def example_keys_def)
  have ds: "''1F'' \<noteq> [] \<and> length ''1F'' \<le> 8 \<and> set ''1F'' \<subseteq> set hex_digits" by (simp add: hex_digits_def)
  have v: "strtoul16 ''1F'' = 31" by (simp add: strtoul16_def digit_value_def)
  show ?thesis
    by (rule wp_mono [OF get_value_writes_shown_register [OF sim_cpu fuel example_zippy_ok z(2) example_snapshot cell z(1) k _ ds]])
      (auto simp: v edited_def example_cpu_def)
qed

theorem zipdbg_keeps_state_witness:
  "zippy_ok example_zippy \<and>
   wp (zipdbg example_keys (sim_cpu (\<lambda>_. None)) (replicate 16 (CHR ''x'')) [115, 260, 113])
     (\<lambda>_ (z', t). zippy_ok z') (\<lambda>_ (z', t). zippy_ok z') (example_zippy, example_cpu)"
  by (intro conjI zipdbg_keeps_state example_zippy_ok)

text \<open>The edited value is drawn one column to the right of the one it replaces, and that of the first row of
  registers two rows above it.\<close>

lemma edit_field_misplaced:
  "edit_row 12 = 4 \<and> edit_column 12 = 10 \<and> (6, 0, 0, 12) \<in> set (shown_cells example_zippy)"
  by (simp add: edit_row_def edit_column_def shown_cells_def register_cells_def example_zippy_def upt_rec)

end
