(* ===== verification/MainTb.thy ===== *)
theory MainTb
  imports SdramSim PPortSim ByteSwap ZipLoad
begin

text \<open>
  \<open>sim/verilated/main_tb.cpp\<close> on top of \<open>testb.h\<close>: the test bench, which clocks the model that Verilator
  makes of the hardware together with the simulated DRAM and parallel port, loads programs into the
  memories, and carries out the simulation instructions of the CPU. The model of the hardware is an
  argument: its state, what a call of \<open>eval\<close> makes of it, and its pins and registers. The block RAM is
  in it, an array of 32 bit words, as Verilator makes of a memory of that width. \<open>design.h\<close>, which is
  generated, is taken to define \<open>SDRAM_ACCESS\<close>, \<open>BKRAM_ACCESS\<close> and \<open>INCLUDE_ZIPCPU\<close>, as \<open>main.v\<close> does.
\<close>

subsection \<open>The model of the hardware\<close>

record 'c coreif =
  ci_eval :: "'c \<Rightarrow> 'c"
  ci_clk :: "bool \<Rightarrow> 'c \<Rightarrow> 'c"
  ci_reset :: "bool \<Rightarrow> 'c \<Rightarrow> 'c"
  ci_gpio :: "'c \<Rightarrow> u32"
  ci_set_gpio :: "u32 \<Rightarrow> 'c \<Rightarrow> 'c"
  ci_ram :: "'c \<Rightarrow> sd_pins"
  ci_set_ram :: "u16 \<Rightarrow> 'c \<Rightarrow> 'c"
  ci_pp :: "'c \<Rightarrow> pp_pins"
  ci_set_pp :: "int \<Rightarrow> int \<Rightarrow> int \<Rightarrow> 'c \<Rightarrow> 'c"
  ci_bkram :: "'c \<Rightarrow> u32 list"
  ci_set_bkram :: "u32 list \<Rightarrow> 'c \<Rightarrow> 'c"
  ci_sim :: "'c \<Rightarrow> bool"
  ci_new_pc :: "'c \<Rightarrow> bool"
  ci_sim_immv :: "'c \<Rightarrow> u32"
  ci_break :: "'c \<Rightarrow> bool"
  ci_gie :: "'c \<Rightarrow> bool"
  ci_regs :: "'c \<Rightarrow> u32 list"
  ci_wr_ce :: "'c \<Rightarrow> bool"
  ci_wr_reg_id :: "'c \<Rightarrow> nat"
  ci_wr_gpreg :: "'c \<Rightarrow> u32"

text \<open>The trace is the list of the times at which the state has been dumped into the file.\<close>

record 'c maintb =
  tb_core :: 'c
  tb_trace :: "u64 list option"
  tb_done :: bool
  tb_paused :: bool
  tb_time :: u64
  tb_sdram :: sdramsim
  tb_cpu_bombed :: nat
  tb_hb :: pportsim

definition maintb_new :: "'c \<Rightarrow> sdramsim \<Rightarrow> pportsim \<Rightarrow> 'c maintb" where
  "maintb_new c sd hb =
     \<lparr>tb_core = c, tb_trace = None, tb_done = False, tb_paused = False, tb_time = 0, tb_sdram = sd,
      tb_cpu_bombed = 0, tb_hb = hb\<rparr>"

definition tb_opentrace :: "'c maintb \<Rightarrow> 'c maintb" where
  "tb_opentrace tb = (case tb_trace tb of None \<Rightarrow> tb\<lparr>tb_trace := Some [], tb_paused := False\<rparr> | Some _ \<Rightarrow> tb)"

definition tb_start_trace :: "'c maintb \<Rightarrow> 'c maintb" where
  "tb_start_trace tb = (tb_opentrace tb)\<lparr>tb_time := 0\<rparr>"

definition tb_pausetrace :: "bool \<Rightarrow> 'c maintb \<Rightarrow> 'c maintb" where
  "tb_pausetrace p tb = tb\<lparr>tb_paused := p\<rparr>"

definition tb_closetrace :: "'c maintb \<Rightarrow> 'c maintb" where
  "tb_closetrace tb = tb\<lparr>tb_trace := None\<rparr>"

definition tb_close :: "'c maintb \<Rightarrow> 'c maintb" where
  "tb_close tb = tb\<lparr>tb_done := True\<rparr>"

definition tb_is_done :: "bool \<Rightarrow> 'c maintb \<Rightarrow> 'c maintb" where
  "tb_is_done finish tb = (if tb_done tb then tb else if finish then tb\<lparr>tb_done := True\<rparr> else tb)"

subsection \<open>Simulation instructions\<close>

datatype sim_act =
    SimDump
  | SimReg nat u32
  | SimUserReg nat u32
  | SimOut u8
  | SimUnknown u32

text \<open>A register, as the instruction sees it: a write that is under way counts, and is not cut to \<open>m\<close>.\<close>

definition sim_register :: "'c coreif \<Rightarrow> 'c \<Rightarrow> nat \<Rightarrow> u32 \<Rightarrow> u32 res" where
  "sim_register ci c rnum m =
     bindE (aget (ci_regs ci c) rnum) (\<lambda>v.
     Inr (if ci_wr_ce ci c \<and> ci_wr_reg_id ci c = rnum then ci_wr_gpreg ci c else v AND m))"

definition execsim :: "'c coreif \<Rightarrow> 'c \<Rightarrow> u32 \<Rightarrow> sim_act list res" where
  "execsim ci c imm =
     (let rbase = (if ci_gie ci c then 16 else 0); low = unat (imm AND 0x0f); ones = - 1 in
      if imm AND 0x03fffff = 0 then Inr []
      else if imm AND 0x0fffff = 0x00100 then Inl (ExitWith 0)
      else if imm AND 0x0ffff0 = 0x00310
        then bindE (sim_register ci c (low + 16) 0xff) (\<lambda>v. Inl (ExitWith (sint v)))
      else if imm AND 0x0ffff0 = 0x00300
        then bindE (sim_register ci c (low + rbase) 0xff) (\<lambda>v. Inl (ExitWith (sint v)))
      else if imm AND 0x0fff00 = 0x00100 then Inl (ExitWith (sint (imm AND 0xff)))
      else if imm AND 0x0fffff = 0x002ff then Inr [SimDump]
      else if imm AND 0x0ffff0 = 0x00200
        then bindE (sim_register ci c (low + rbase) ones) (\<lambda>v. Inr [SimReg (low + rbase) v])
      else if imm AND 0x0ffff0 = 0x00210
        then bindE (sim_register ci c (low + 16) 0xff) (\<lambda>v. Inr [SimUserReg (low + 16) v])
      else if imm AND 0x0ffff0 = 0x00230
        then bindE (sim_register ci c (low + 16) ones) (\<lambda>v. Inr [SimOut (ucast (v AND 0xff))])
      else if imm AND 0x0fffe0 = 0x00220
        then bindE (sim_register ci c (low + rbase) ones) (\<lambda>v. Inr [SimOut (ucast (v AND 0xff))])
      else if imm AND 0x0fff00 = 0x00400 then Inr [SimOut (ucast (imm AND 0xff))]
      else Inr [SimUnknown (imm AND 0x03fffff)])"

subsection \<open>One clock\<close>

text \<open>What the clock causes outside: on the network connections of the port, and on the terminal.\<close>

type_synonym tb_acts = "pp_act list \<times> sim_act list"

definition tb_sdram_tick :: "'c coreif \<Rightarrow> 'c maintb \<Rightarrow> 'c maintb res" where
  "tb_sdram_tick ci tb =
     bindE (sdramsim_apply (tb_sdram tb) ((ci_ram ci (tb_core tb))\<lparr>p_clk := True\<rparr>)) (\<lambda>(sd, v).
     Inr (tb\<lparr>tb_core := ci_set_ram ci v (tb_core tb), tb_sdram := sd\<rparr>))"

definition tb_cpu_tick :: "'c coreif \<Rightarrow> 'c maintb \<Rightarrow> ('c maintb \<times> sim_act list) res" where
  "tb_cpu_tick ci tb =
     (let c = tb_core tb in
      bindE (if ci_sim ci c \<and> \<not> ci_new_pc ci c then execsim ci c (ci_sim_immv ci c) else Inr []) (\<lambda>acts.
      if tb_cpu_bombed tb \<noteq> 0
      then Inr (tb\<lparr>tb_cpu_bombed := tb_cpu_bombed tb + 1, tb_done := tb_done tb \<or> tb_cpu_bombed tb > 12\<rparr>, acts)
      else if ci_break ci c then Inr (tb\<lparr>tb_cpu_bombed := 1\<rparr>, acts @ [SimDump])
      else Inr (tb, acts)))"

definition tb_port_tick :: "'c coreif \<Rightarrow> pp_env \<Rightarrow> 'c maintb \<Rightarrow> ('c maintb \<times> pp_act list) res" where
  "tb_port_tick ci e tb =
     bindE (pport_apply e (ci_pp ci (tb_core tb)) (tb_hb tb)) (\<lambda>(hb, clk, dir, data, acts).
     Inr (tb\<lparr>tb_core := ci_set_pp ci clk dir data (tb_core tb), tb_hb := hb\<rparr>, acts))"

definition sim_clk_tick :: "'c coreif \<Rightarrow> pp_env \<Rightarrow> 'c maintb \<Rightarrow> ('c maintb \<times> tb_acts) res" where
  "sim_clk_tick ci e tb =
     bindE (tb_sdram_tick ci tb) (\<lambda>tb.
     bindE (tb_cpu_tick ci tb) (\<lambda>(tb, sim).
     bindE (tb_port_tick ci e tb) (\<lambda>(tb, pp). Inr (tb, pp, sim))))"

definition tb_dump :: "u64 \<Rightarrow> 'c maintb \<Rightarrow> 'c maintb" where
  "tb_dump t tb =
     (case tb_trace tb of
        Some ts \<Rightarrow> if tb_paused tb then tb else tb\<lparr>tb_trace := Some (ts @ [t])\<rparr>
      | None \<Rightarrow> tb)"

definition tb_eval :: "'c coreif \<Rightarrow> 'c maintb \<Rightarrow> 'c maintb" where
  "tb_eval ci tb = tb\<lparr>tb_core := ci_eval ci (tb_core tb)\<rparr>"

text \<open>Half a clock: the clock is set, the time moves on, and the state is dumped.\<close>

definition tb_edge :: "'c coreif \<Rightarrow> bool \<Rightarrow> 'c maintb \<Rightarrow> 'c maintb" where
  "tb_edge ci v tb =
     (let tb = tb_eval ci (tb\<lparr>tb_core := ci_clk ci v (tb_core tb), tb_time := tb_time tb + 37\<rparr>) in
      tb_dump (tb_time tb) tb)"

definition tb_tick :: "'c coreif \<Rightarrow> pp_env \<Rightarrow> 'c maintb \<Rightarrow> ('c maintb \<times> tb_acts) res" where
  "tb_tick ci e tb =
     (let tb = tb_eval ci tb;
          tb = tb_dump (tb_time tb + 18) tb;
          tb = tb_edge ci True tb;
          tb = tb_edge ci False tb
      in sim_clk_tick ci e tb)"

definition tb_reset :: "'c coreif \<Rightarrow> pp_env \<Rightarrow> 'c maintb \<Rightarrow> ('c maintb \<times> tb_acts) res" where
  "tb_reset ci e tb =
     (let core = tb_core tb;
          core = ci_set_gpio ci (ci_gpio ci core OR 1) core
      in
      bindE (tb_tick ci e (tb\<lparr>tb_core := ci_reset ci True core\<rparr>)) (\<lambda>(tb, acts).
      let core = ci_reset ci False (tb_core tb)
      in Inr (tb\<lparr>tb_core := ci_set_gpio ci (ci_gpio ci core AND NOT 1) core\<rparr>, acts)))"

subsection \<open>Loading programs\<close>

text \<open>The bytes from an offset of the buffer on.\<close>

definition buf_bytes :: "nat \<Rightarrow> nat \<Rightarrow> u8 list \<Rightarrow> u8 list res" where
  "buf_bytes off n buf = (if off + n \<le> length buf then Inr (take n (drop off buf)) else Inl OutOfBounds)"

definition tb_load_sdram :: "u32 \<Rightarrow> u8 list \<Rightarrow> 'c maintb \<Rightarrow> 'c maintb res" where
  "tb_load_sdram start bs tb =
     bindE (sdramsim_load start bs (tb_sdram tb)) (\<lambda>sd. Inr (tb\<lparr>tb_sdram := sd\<rparr>))"

text \<open>The array into which the bytes are copied holds \<open>g\<close> before.\<close>

definition tb_load_bkram :: "'c coreif \<Rightarrow> (nat \<Rightarrow> u32) \<Rightarrow> u32 \<Rightarrow> u8 list \<Rightarrow> u32 \<Rightarrow> 'c maintb \<Rightarrow> 'c maintb res" where
  "tb_load_bkram ci g start bs len tb =
     bindE (copy_bytes 0 bs (map g [0..<(unat len + 8) div 4])) (\<lambda>bswapd.
     bindE (byteswapbuf (unat (drop_bit 2 len)) bswapd) (\<lambda>bswapd.
     bindE (put_bytes (unat start) (take (length bs div 4) bswapd) (ci_bkram ci (tb_core tb))) (\<lambda>mem.
     Inr (tb\<lparr>tb_core := ci_set_bkram ci mem (tb_core tb)\<rparr>))))"

fun tb_load :: "nat \<Rightarrow> 'c coreif \<Rightarrow> (nat \<Rightarrow> u32) \<Rightarrow> u32 \<Rightarrow> u8 list \<Rightarrow> u32 \<Rightarrow> 'c maintb \<Rightarrow> ('c maintb \<times> bool) res" where
  "tb_load 0 ci g addr buf len tb = Inl NoReturn"
| "tb_load (Suc n) ci g addr buf len tb =
     (let base = 0x02000000; adrln = 0x01000000 in
      if addr \<ge> base \<and> addr < base + adrln
      then
        let start = (if addr > base then addr - base else 0);
            offset = (start + base) - addr;
            wlen = (if len - offset > adrln - start then adrln - start else len - offset)
        in
        bindE (buf_bytes (unat offset) (unat wlen) buf) (\<lambda>bs.
        bindE (tb_load_sdram start bs tb) (\<lambda>tb.
        if addr + len > base + adrln
        then tb_load n ci g (base + adrln) (drop (unat (offset + wlen)) buf) (len - wlen) tb
        else Inr (tb, True)))
      else
        let base = 0x01400000; adrln = 0x00002000 in
        if addr \<ge> base \<and> addr < base + adrln
        then
          let start = (if addr > base then addr - base else 0);
              offset = (start + base) - addr;
              wlen = (if len - offset > adrln - start then adrln - start else len - offset);
              start = start AND -4;
              wlen = (wlen + 3) AND -4
          in
          bindE (buf_bytes (unat offset) (unat wlen) buf) (\<lambda>bs.
          bindE (tb_load_bkram ci g start bs len tb) (\<lambda>tb.
          if addr + len > base + adrln
          then tb_load n ci g (base + adrln) (drop (unat (offset + wlen)) buf) (len - wlen) tb
          else Inr (tb, True)))
        else Inr (tb, False))"

text \<open>The list ends with a section of length 0. A section that could not be loaded is only reported.\<close>

fun loadelf :: "'c coreif \<Rightarrow> (nat \<Rightarrow> u32) \<Rightarrow> elfsection list \<Rightarrow> 'c maintb \<Rightarrow> 'c maintb res" where
  "loadelf ci g [] tb = Inr tb"
| "loadelf ci g (s # ss) tb =
     (if es_len s = 0 then Inr tb
      else bindE (tb_load 3 ci g (es_start s) (es_data s) (es_len s) tb) (\<lambda>(tb, ok). loadelf ci g ss tb))"

end
