(* ===== verification/MainTbProps.thy ===== *)
theory MainTbProps
  imports MainTb SdramAccess PPortProps ZipLoadProps
begin

text \<open>
  What the test bench makes of its parts: programs loaded into the DRAM are what the chip then answers,
  those for the block RAM land at four times their place, and after a break of the CPU a bench ends.
\<close>

declare tb_load.simps [simp del]

text \<open>What is left of a section after its memory has no address any more, so the call inside a call is the
  last one: two levels are enough.\<close>

lemma tail_refused:
  "tb_load (Suc n) ci g (0x02000000 + 0x01000000) buf len tb = Inr (tb, False)"
  "tb_load (Suc n) ci g (0x01400000 + 0x00002000) buf len tb = Inr (tb, False)"
  by (simp_all add: tb_load.simps)

lemma tb_load_two_levels:
  "tb_load (Suc (Suc n)) ci g addr buf len tb = tb_load (Suc (Suc 0)) ci g addr buf len tb"
  by (simp only: tb_load.simps(2) [of "Suc n"] tb_load.simps(2) [of "Suc 0"] Let_def tail_refused)

subsection \<open>Loading into the DRAM\<close>

text \<open>Two bytes make a half word, the first the upper one.\<close>

definition half_word :: "u8 list \<Rightarrow> nat \<Rightarrow> u16" where
  "half_word bs k = push_bit 8 (ucast (bs ! (2 * k))) OR ucast (bs ! (2 * k + 1))"

definition store_halves :: "nat \<Rightarrow> u8 list \<Rightarrow> (nat \<Rightarrow> u16) \<Rightarrow> nat \<Rightarrow> u16" where
  "store_halves i bs mem a = (if i \<le> a \<and> a < i + length bs div 2 then half_word bs (a - i) else mem a)"

lemma store_halves_Nil: "store_halves i [] mem = mem"
  by (auto simp: fun_eq_iff store_halves_def)

lemma store_halves_Cons:
  "store_halves (Suc i) bs (mem(i := push_bit 8 (ucast a) OR ucast b)) = store_halves i (a # b # bs) mem"
proof
  fix x
  show "store_halves (Suc i) bs (mem(i := push_bit 8 (ucast a) OR ucast b)) x = store_halves i (a # b # bs) mem x"
  proof (cases "i < x \<and> x < i + length (a # b # bs) div 2")
    case True
    then obtain k where "x = Suc (i + k)" by (auto simp: less_iff_Suc_add)
    with True show ?thesis by (simp add: store_halves_def half_word_def)
  qed (auto simp: store_halves_def half_word_def)
qed

lemma sd_load_loop_eq:
  "even (length bs) \<Longrightarrow> i + length bs div 2 \<le> SDRAM_WORDS \<Longrightarrow>
     sd_load_loop bs i s = Inr (s\<lparr>sd_mem := store_halves i bs (sd_mem s)\<rparr>)"
proof (induction bs i s rule: sd_load_loop.induct)
  case (1 a b sp i s)
  have "unat (of_nat i :: u32) = i" "i < SDRAM_WORDS"
    using "1.prems" by (simp_all add: SDRAM_WORDS_def unsigned_of_nat take_bit_nat_eq_self)
  then have "sd_load_loop (a # b # sp) i s =
      sd_load_loop sp (Suc i) (s\<lparr>sd_mem := (sd_mem s)(i := push_bit 8 (ucast a) OR ucast b)\<rparr>)"
    by (simp add: sd_poke_def)
  with 1 \<open>unat _ = i\<close> \<open>i < SDRAM_WORDS\<close> show ?case
    by (simp add: sd_poke_def store_halves_Cons)
qed (auto simp: store_halves_Nil)

lemma sdramsim_load_eq:
  assumes "even (unat addr)" "even (length bs)" "unat addr + length bs < 2 ^ 24"
  shows "sdramsim_load addr bs s = Inr (s\<lparr>sd_mem := store_halves (unat addr div 2) bs (sd_mem s)\<rparr>)"
proof -
  have "addr AND 1 = 0"
    using assms(1) by (simp add: word_unat_eq_iff and_one_eq even_iff_mod_2_eq_zero unat_mod)
  moreover have "length bs AND 1 = 0"
    using assms(2) by (simp add: and_one_eq even_iff_mod_2_eq_zero)
  moreover have "addr AND 0xffffff = addr"
  proof -
    have m: "(0xffffff :: u32) = mask 24" by (simp add: mask_eq_exp_minus_1)
    show ?thesis
      unfolding m using assms(3)
      by (simp add: word_unat_eq_iff unsigned_take_bit_eq take_bit_nat_eq_self flip: take_bit_eq_mask)
  qed
  moreover have "unat (drop_bit 1 addr) = unat addr div 2"
    by (simp add: drop_bit_eq_div unat_div)
  moreover have "unat addr div 2 + length bs div 2 \<le> SDRAM_WORDS"
    using assms(3) by (simp add: SDRAM_WORDS_def)
  ultimately show ?thesis
    using assms by (simp add: sdramsim_load_def assertE_def sd_load_loop_eq)
qed

lemma tb_load_dram:
  assumes "0x02000000 \<le> unat addr" "unat addr + unat len < 0x03000000" "unat len \<le> length buf"
    "even (unat addr)" "even (unat len)"
  shows "tb_load (Suc n) ci g addr buf len tb =
    Inr (tb\<lparr>tb_sdram := (tb_sdram tb)\<lparr>sd_mem :=
      store_halves ((unat addr - 0x02000000) div 2) (take (unat len) buf) (sd_mem (tb_sdram tb))\<rparr>\<rparr>, True)"
proof -
  let ?base = "0x02000000 :: u32"
  have base: "?base \<le> addr" "addr < 0x03000000" using assms(1,2) by (simp_all add: word_le_nat_alt word_less_nat_alt)
  have start: "(if ?base < addr then addr - ?base else 0) = addr - ?base"
    using base(1) by (auto simp: word_le_less_eq)
  have diff: "unat (addr - ?base) = unat addr - 0x02000000" using base(1) by (simp add: unat_sub)
  have room: "\<not> 0x03000000 - addr < len"
    using assms(1,2) base unat_sub [of addr "0x03000000"] by (simp add: word_less_nat_alt word_le_nat_alt)
  have inside: "\<not> 0x03000000 < addr + len"
    using assms(1,2) by (simp add: word_less_nat_alt unat_word_ariths)
  have "even (unat (addr - ?base))" using assms(1,4) unfolding diff by simp
  moreover have "unat (addr - ?base) + length (take (unat len) buf) < 2 ^ 24"
    using assms(1-3) unfolding diff by simp
  ultimately have "sdramsim_load (addr - ?base) (take (unat len) buf) s =
      Inr (s\<lparr>sd_mem := store_halves ((unat addr - 0x02000000) div 2) (take (unat len) buf) (sd_mem s)\<rparr>)" for s
    using sdramsim_load_eq [of "addr - ?base" "take (unat len) buf"] assms(3,5) by (simp add: diff)
  then show ?thesis
    using base assms(3)
    by (simp add: tb_load.simps Let_def start room inside buf_bytes_def tb_load_sdram_def)
qed

text \<open>What is loaded is what the chip then answers.\<close>

lemma ready_mem [simp]:
  "sd_ready n (s\<lparr>sd_mem := m\<rparr>) = sd_ready n s" "sd_read_pins (s\<lparr>sd_mem := m\<rparr>) p = sd_read_pins s p"
  "sd_read_address (s\<lparr>sd_mem := m\<rparr>) p = sd_read_address s p"
  by (simp_all add: sd_ready_def sd_inv_def sd_read_pins_def sd_read_address_def)

lemma half_word_take: "2 * k + 1 < n \<Longrightarrow> half_word (take n bs) k = half_word bs k"
  by (simp add: half_word_def)

text \<open>C29. A program that the bench loads into the DRAM is what the chip then answers: a read burst of the
  controller returns the two half words that stand at its address in the file.\<close>

theorem bench_load_then_read:
  assumes "0x02000000 \<le> unat addr" "unat addr + unat len < 0x03000000" "unat len \<le> length buf"
    "even (unat addr)" "even (unat len)"
    and "sd_ready (5 + n) (tb_sdram tb)" "\<not> sd_next_wr (tb_sdram tb)" "sd_read_pins (tb_sdram tb) p"
    "sd_nop n1" "sd_nop n2" "sd_nop n3" "sd_nop n4"
    and "unat (sd_read_address (tb_sdram tb) p) = (unat addr - 0x02000000) div 2 + k" "2 * k + 4 \<le> unat len"
  shows "\<exists>tb' s' r0 r1 r2. tb_load 1 ci g addr buf len tb = Inr (tb', True)
    \<and> run_machine sdramsim_apply (tb_sdram tb') [p, n1, n2, n3, n4] =
        Inr (s', [r0, r1, r2, half_word buf k, half_word buf (k + 1)])"
proof -
  let ?i = "(unat addr - 0x02000000) div 2"
  let ?mem = "store_halves ?i (take (unat len) buf) (sd_mem (tb_sdram tb))"
  let ?s = "(tb_sdram tb)\<lparr>sd_mem := ?mem\<rparr>"
  have "tb_load 1 ci g addr buf len tb = Inr (tb\<lparr>tb_sdram := ?s\<rparr>, True)"
    unfolding One_nat_def by (rule tb_load_dram [OF assms(1-5)])
  moreover have "k + 1 < unat len div 2" using assms(14) by linarith
  then have "?mem (?i + k) = half_word buf k" "?mem (?i + k + 1) = half_word buf (k + 1)"
    using assms(3,14) \<open>k + 1 < unat len div 2\<close> by (simp_all add: store_halves_def half_word_take)
  moreover have "?i + k + 1 < SDRAM_WORDS"
    using assms(1,2,4,5,14) by (simp add: SDRAM_WORDS_def)
  then have "\<exists>s' r0 r1 r2. run_machine sdramsim_apply ?s [p, n1, n2, n3, n4] =
      Inr (s', [r0, r1, r2, ?mem (?i + k), ?mem (?i + k + 1)])"
    using read_run [of n ?s p n1 n2 n3 n4] assms(6-13) by simp
  ultimately show ?thesis by (auto simp del: run_machine.simps)
qed

subsection \<open>Loading into the block RAM\<close>

text \<open>The memory as the CPU sees it, byte by byte.\<close>

definition be_bytes :: "u32 list \<Rightarrow> u8 list" where
  "be_bytes ws = map (be_byte ws) [0..<4 * length ws]"

lemma length_be_bytes [simp]: "length (be_bytes ws) = 4 * length ws"
  by (simp add: be_bytes_def)

lemma be_byte_append:
  "be_byte (xs @ ys) i = (if i < 4 * length xs then be_byte xs i else be_byte ys (i - 4 * length xs))"
proof (cases "i < 4 * length xs")
  case True
  then have "i div 4 < length xs" by linarith
  with True show ?thesis by (simp add: be_byte_def nth_append)
next
  case False
  then obtain j where j: "i = 4 * length xs + j" by (metis le_add_diff_inverse linorder_not_less)
  then have "i div 4 = length xs + j div 4" "i mod 4 = j mod 4" by simp_all
  with False j show ?thesis by (simp add: be_byte_def)
qed

lemma be_bytes_append: "be_bytes (xs @ ys) = be_bytes xs @ be_bytes ys"
  by (rule nth_equalityI) (auto simp: be_bytes_def be_byte_append nth_append)

lemma be_bytes_split: "be_bytes ws = be_bytes (take n ws) @ be_bytes (drop n ws)"
  by (simp flip: be_bytes_append)

lemma be_bytes_take: "be_bytes (take n ws) = take (4 * n) (be_bytes ws)"
  using be_bytes_split [of ws n] by (cases "n \<le> length ws") simp_all

lemma be_bytes_drop: "be_bytes (drop n ws) = drop (4 * n) (be_bytes ws)"
  using be_bytes_split [of ws n] by (cases "n \<le> length ws") simp_all

lemma put_bytes_out: "length buf < i + length bs \<Longrightarrow> bs \<noteq> [] \<Longrightarrow> put_bytes i bs buf = Inl OutOfBounds"
proof (induction bs arbitrary: i buf)
  case (Cons b bs)
  show ?case
  proof (cases "i < length buf")
    case True
    with Cons.prems have "bs \<noteq> []" by auto
    with True Cons show ?thesis by simp
  qed (simp add: aset_def)
qed simp

text \<open>The words that stand for the bytes.\<close>

lemma swapped_words:
  assumes "length bs = 4 * n" "n \<le> length ws"
  obtains ws' where "bindE (copy_bytes 0 bs ws) (byteswapbuf n) = Inr ws'" "n \<le> length ws'"
    "be_bytes (take n ws') = bs"
proof -
  from assms copy_bytes_spec [of 0 bs ws] obtain us where us: "copy_bytes 0 bs ws = Inr us" "length us = length ws"
    "\<And>j. le_byte us j = (if j < length bs then bs ! j else le_byte ws j)" by auto
  have "be_bytes (map byteswap (take n us)) = bs"
  proof (rule nth_equalityI)
    fix i assume "i < length (be_bytes (map byteswap (take n us)))"
    then have i: "i < 4 * n" "i div 4 < n" using assms us(2) by auto
    then have "be_byte (map byteswap (take n us)) i = le_byte (take n us) i"
      using be_byte_byteswap [of i "take n us"] assms us(2) by (simp add: take_map)
    also have "\<dots> = le_byte us i" using i by (simp add: le_byte_def)
    finally show "be_bytes (map byteswap (take n us)) ! i = bs ! i"
      using i us assms by (simp add: be_bytes_def)
  qed (use assms us(2) in simp)
  then show ?thesis
    using that [of "map byteswap (take n us) @ drop n us"] us(1,2) assms(2) by (simp add: byteswapbuf_eq)
qed

lemma whole_words:
  fixes x :: u32
  shows
  "4 dvd unat x \<Longrightarrow> x AND -4 = x"
  "4 dvd unat x \<Longrightarrow> unat x + 3 < 2 ^ 32 \<Longrightarrow> (x + 3) AND -4 = x"
  by (simp_all add: word_unat_eq_iff and_minus_four unat_word_ariths) (auto elim!: dvdE)

lemma tb_load_block:
  assumes "0x01400000 \<le> unat addr" "unat addr + unat len \<le> 0x01402000" "unat addr < 0x01402000"
    "unat len \<le> length buf" "4 dvd unat addr" "4 dvd unat len"
  shows "tb_load (Suc n) ci g addr buf len tb =
    bindE (tb_load_bkram ci g (addr - 0x01400000) (take (unat len) buf) len tb) (\<lambda>tb. Inr (tb, True))"
proof -
  let ?base = "0x01400000 :: u32"
  have base: "?base \<le> addr" "addr < 0x01402000" "\<not> 0x02000000 \<le> addr"
    using assms(1,3) by (simp_all add: word_le_nat_alt word_less_nat_alt)
  have start: "(if ?base < addr then addr - ?base else 0) = addr - ?base"
    using base(1) by (auto simp: word_le_less_eq)
  have diff: "unat (addr - ?base) = unat addr - 0x01400000" using base(1) by (simp add: unat_sub)
  have room: "\<not> 0x01402000 - addr < len"
    using assms(1,2) base unat_sub [of addr "0x01402000"] by (simp add: word_less_nat_alt word_le_nat_alt)
  have inside: "\<not> 0x01402000 < addr + len"
    using assms(1,2) by (simp add: word_less_nat_alt unat_word_ariths)
  have "4 dvd unat (addr - ?base)" using assms(1,5) unfolding diff by (simp add: dvd_diff_nat)
  moreover have "unat len + 3 < 2 ^ 32" using assms(2) by simp
  ultimately have whole: "(addr - ?base) AND -4 = addr - ?base" "(len + 3) AND -4 = len"
    using assms(6) by (simp_all only: whole_words)
  show ?thesis
    using base assms(4)
    by (simp add: tb_load.simps Let_def start room inside whole buf_bytes_def)
qed

text \<open>C31. A section is placed in the block RAM by an index of words where an offset in bytes is meant: what
  belongs at byte \<open>k\<close> of the memory is stored from byte \<open>4 * k\<close> on, with the bytes in the order of the CPU,
  and beyond the first quarter of the memory the copy leaves the array.\<close>

theorem block_ram_section_misplaced:
  assumes "0x01400000 \<le> unat addr" "unat addr + unat len \<le> 0x01402000"
    "unat len \<le> length buf" "4 dvd unat addr" "4 dvd unat len" "0 < unat len"
    and "length (ci_bkram ci (tb_core tb)) = 2048" "\<And>c mem. ci_bkram ci (ci_set_bkram ci mem c) = mem"
  shows "if unat addr - 0x01400000 + unat len div 4 \<le> 2048
    then \<exists>tb'. tb_load 1 ci g addr buf len tb = Inr (tb', True)
      \<and> be_bytes (ci_bkram ci (tb_core tb')) =
          take (4 * (unat addr - 0x01400000)) (be_bytes (ci_bkram ci (tb_core tb))) @ take (unat len) buf
          @ drop (4 * (unat addr - 0x01400000) + unat len) (be_bytes (ci_bkram ci (tb_core tb)))
    else tb_load 1 ci g addr buf len tb = Inl OutOfBounds"
proof -
  define k where "k = unat addr - 0x01400000"
  let ?mem = "ci_bkram ci (tb_core tb)" and ?n = "unat len div 4"
  have below: "unat addr < 0x01402000" using assms(2,6) by linarith
  have n: "unat len = 4 * ?n" using assms(5) by simp
  have at: "unat (addr - 0x01400000) = k"
    using assms(1) by (simp add: k_def unat_sub word_le_nat_alt)
  have words: "unat (drop_bit 2 len) = ?n" "(unat len + 8) div 4 = ?n + 2"
    by (simp_all add: drop_bit_eq_div unat_div)
  obtain ws where ws: "bindE (copy_bytes 0 (take (unat len) buf) (map g [0..<?n + 2])) (byteswapbuf ?n) = Inr ws"
    "?n \<le> length ws" "be_bytes (take ?n ws) = take (unat len) buf"
    using swapped_words [of "take (unat len) buf" ?n "map g [0..<?n + 2]"] assms(3) n by auto
  have "tb_load_bkram ci g (addr - 0x01400000) (take (unat len) buf) len tb =
      bindE (bindE (copy_bytes 0 (take (unat len) buf) (map g [0..<?n + 2])) (byteswapbuf ?n)) (\<lambda>ws.
      bindE (put_bytes k (take ?n ws) ?mem) (\<lambda>mem. Inr (tb\<lparr>tb_core := ci_set_bkram ci mem (tb_core tb)\<rparr>)))"
    using assms(3) by (simp add: tb_load_bkram_def words at bindE_assoc)
  then have load: "tb_load 1 ci g addr buf len tb =
      bindE (put_bytes k (take ?n ws) ?mem) (\<lambda>mem. Inr (tb\<lparr>tb_core := ci_set_bkram ci mem (tb_core tb)\<rparr>, True))"
    unfolding One_nat_def tb_load_block [OF assms(1,2) below assms(3-5)]
    by (simp only: ws(1)) (simp add: bindE_assoc)
  show ?thesis
  proof (cases "k + ?n \<le> 2048")
    case True
    then have "put_bytes k (take ?n ws) ?mem = Inr (take k ?mem @ take ?n ws @ drop (k + ?n) ?mem)"
      using put_bytes_in [of k "take ?n ws" ?mem] ws(2) assms(7) by simp
    moreover have "4 * (k + ?n) = 4 * k + unat len" using n by simp
    ultimately show ?thesis
      unfolding load k_def [symmetric]
      using True by (simp add: assms(8) be_bytes_append be_bytes_take [of k] be_bytes_drop ws(3))
  next
    case False
    then have "put_bytes k (take ?n ws) ?mem = Inl OutOfBounds"
      using put_bytes_out [of ?mem k "take ?n ws"] ws(2) assms(7) n \<open>0 < unat len\<close> by fastforce
    with False show ?thesis unfolding load k_def [symmetric] by simp
  qed
qed

subsection \<open>A CPU that has met a break\<close>

text \<open>The bench when the clock has fallen and its parts are about to act; why one of them may not return: the
  DRAM fails an assertion, or a simulation instruction ends the simulation or fails.\<close>

definition tb_settled :: "'c coreif \<Rightarrow> 'c maintb \<Rightarrow> 'c maintb" where
  "tb_settled ci tb = tb_edge ci False (tb_edge ci True (tb_dump (tb_time tb + 18) (tb_eval ci tb)))"

definition tb_stops :: "'c coreif \<Rightarrow> 'c maintb \<Rightarrow> cerr \<Rightarrow> bool" where
  "tb_stops ci tb err \<longleftrightarrow>
     (case tb_sdram_tick ci (tb_settled ci tb) of
        Inl e \<Rightarrow> err = e
      | Inr u \<Rightarrow> ci_sim ci (tb_core u) \<and> \<not> ci_new_pc ci (tb_core u) \<and>
          execsim ci (tb_core u) (ci_sim_immv ci (tb_core u)) = Inl err)"

definition tb_meets_break :: "'c coreif \<Rightarrow> 'c maintb \<Rightarrow> bool" where
  "tb_meets_break ci tb \<longleftrightarrow>
     (case tb_sdram_tick ci (tb_settled ci tb) of Inl _ \<Rightarrow> False | Inr u \<Rightarrow> ci_break ci (tb_core u))"

lemma dump_core [simp]:
  "tb_core (tb_dump t tb) = tb_core tb" "tb_sdram (tb_dump t tb) = tb_sdram tb" "tb_hb (tb_dump t tb) = tb_hb tb"
  "tb_done (tb_dump t tb) = tb_done tb" "tb_cpu_bombed (tb_dump t tb) = tb_cpu_bombed tb"
  by (simp_all add: tb_dump_def split: option.splits)

lemma settled_simps [simp]:
  "tb_sdram (tb_settled ci tb) = tb_sdram tb" "tb_hb (tb_settled ci tb) = tb_hb tb"
  "tb_done (tb_settled ci tb) = tb_done tb" "tb_cpu_bombed (tb_settled ci tb) = tb_cpu_bombed tb"
  by (simp_all add: tb_settled_def tb_edge_def tb_eval_def Let_def)

lemma tick_settled: "tb_tick ci e tb = sim_clk_tick ci e (tb_settled ci tb)"
  by (simp add: tb_tick_def tb_settled_def tb_eval_def Let_def)

lemma pport_apply_safe:
  assumes "pport_inv s"
  shows "\<exists>s' clk dir r acts. pport_apply e p s = Inr (s', clk, dir, r, acts) \<and> pport_inv s'"
  using pport_step_safe [of "(s, pp_clk p, pp_dir p)" "(e, pp_data p, pp_clkfb p)"] assms
  by (cases p) (auto simp: pport_step_def bindE_Inr_iff)

lemma sdram_tick_simps:
  "tb_sdram_tick ci tb = Inr u \<Longrightarrow> tb_hb u = tb_hb tb \<and> tb_done u = tb_done tb \<and> tb_cpu_bombed u = tb_cpu_bombed tb"
  by (auto simp: tb_sdram_tick_def bindE_Inr_iff)

text \<open>The port never fails, so a clock returns unless the DRAM or the CPU stops it; what the clock does to
  the counter does not depend on the hardware any more once it runs.\<close>

definition bomb_count :: "'c coreif \<Rightarrow> 'c maintb \<Rightarrow> 'c maintb \<Rightarrow> bool" where
  "bomb_count ci tb tb' \<longleftrightarrow>
     (if 0 < tb_cpu_bombed tb
      then tb_cpu_bombed tb' = Suc (tb_cpu_bombed tb) \<and> (tb_done tb' \<longleftrightarrow> tb_done tb \<or> 12 < tb_cpu_bombed tb)
      else tb_cpu_bombed tb' = of_bool (tb_meets_break ci tb) \<and> tb_done tb' = tb_done tb)"

lemma tick_counts:
  assumes "pport_inv (tb_hb tb)"
  shows "case tb_tick ci e tb of
      Inl err \<Rightarrow> tb_stops ci tb err
    | Inr (tb', out) \<Rightarrow> pport_inv (tb_hb tb') \<and> bomb_count ci tb tb'"
proof (cases "tb_sdram_tick ci (tb_settled ci tb)")
  case (Inl err)
  then show ?thesis by (simp add: tick_settled sim_clk_tick_def tb_stops_def)
next
  case (Inr u)
  note u = sdram_tick_simps [OF Inr, unfolded settled_simps]
  show ?thesis
  proof (cases "tb_cpu_tick ci u")
    case e: (Inl err)
    then have "tb_stops ci tb err"
      by (auto simp: tb_stops_def Inr tb_cpu_tick_def Let_def bindE_def split: sum.splits if_splits)
    with Inr e show ?thesis by (simp add: tick_settled sim_clk_tick_def)
  next
    case c: (Inr p)
    obtain v sim where p: "p = (v, sim)" by (cases p)
    have "v = (if tb_cpu_bombed u \<noteq> 0 then u\<lparr>tb_cpu_bombed := tb_cpu_bombed u + 1, tb_done := tb_done u \<or> tb_cpu_bombed u > 12\<rparr>
        else if ci_break ci (tb_core u) then u\<lparr>tb_cpu_bombed := 1\<rparr> else u)"
      using c unfolding p tb_cpu_tick_def Let_def bindE_Inr_iff by (force split: if_splits)
    then have v: "tb_hb v = tb_hb u" "bomb_count ci tb v"
      using u by (simp_all add: bomb_count_def tb_meets_break_def Inr)
    from pport_apply_safe [of "tb_hb v" e "ci_pp ci (tb_core v)"] v(1) u assms obtain hb clk dir r acts where
      "pport_apply e (ci_pp ci (tb_core v)) (tb_hb v) = Inr (hb, clk, dir, r, acts)" "pport_inv hb" by auto
    with Inr c p v(2) show ?thesis
      by (simp add: tick_settled sim_clk_tick_def tb_port_tick_def bomb_count_def)
  qed
qed

definition run_stops :: "'c coreif \<Rightarrow> 'c maintb \<Rightarrow> pp_env list \<Rightarrow> cerr \<Rightarrow> bool" where
  "run_stops ci tb es err \<longleftrightarrow>
     (\<exists>n < length es. \<exists>u outs. run_machine (\<lambda>tb e. tb_tick ci e tb) tb (take n es) = Inr (u, outs) \<and> tb_stops ci u err)"

lemma run_stops_Cons:
  "tb_stops ci tb err \<Longrightarrow> run_stops ci tb (e # es) err"
  "tb_tick ci e tb = Inr (u, out) \<Longrightarrow> run_stops ci u es err \<Longrightarrow> run_stops ci tb (e # es) err"
proof -
  assume "tb_stops ci tb err"
  then show "run_stops ci tb (e # es) err" unfolding run_stops_def by (intro exI [of _ 0]) simp
next
  assume u: "tb_tick ci e tb = Inr (u, out)" and "run_stops ci u es err"
  then obtain n w outs where n: "n < length es" "run_machine (\<lambda>tb e. tb_tick ci e tb) u (take n es) = Inr (w, outs)"
    "tb_stops ci w err" unfolding run_stops_def by blast
  with u show "run_stops ci tb (e # es) err" unfolding run_stops_def by (intro exI [of _ "Suc n"]) simp
qed

lemma run_counts:
  "pport_inv (tb_hb tb) \<Longrightarrow> 0 < tb_cpu_bombed tb \<Longrightarrow>
   (case run_machine (\<lambda>tb e. tb_tick ci e tb) tb es of
      Inl err \<Rightarrow> run_stops ci tb es err
    | Inr (tb', outs) \<Rightarrow> tb_done tb' \<longleftrightarrow> tb_done tb \<or> es \<noteq> [] \<and> 13 < tb_cpu_bombed tb + length es)"
proof (induction es arbitrary: tb)
  case (Cons e es)
  show ?case
  proof (cases "tb_tick ci e tb")
    case (Inl err)
    with tick_counts [OF Cons.prems(1), of ci e] show ?thesis by (simp add: run_stops_Cons(1))
  next
    case (Inr p)
    obtain u out where p: "p = (u, out)" by (cases p)
    with tick_counts [OF Cons.prems(1), of ci e] Inr Cons.prems(2) have u: "pport_inv (tb_hb u)"
      "tb_cpu_bombed u = Suc (tb_cpu_bombed tb)" "tb_done u \<longleftrightarrow> tb_done tb \<or> 12 < tb_cpu_bombed tb"
      by (simp_all add: bomb_count_def)
    from Cons.IH [OF u(1)] u(2,3) show ?thesis
      by (auto simp: Inr p dest: run_stops_Cons(2) [OF Inr [unfolded p]] split: sum.splits)
  qed
qed simp

text \<open>C30. From the clock in which the CPU is seen to meet a break on, a bench that is not done counts its
  clocks, whatever the hardware, the network and the board do, also when the break goes away: as long as it
  runs on it is done after fourteen clocks and not earlier. What stops it can only be, in one of its clocks, a
  failure of the simulated DRAM or a simulation instruction that exits or fails; the port never stops it.\<close>

theorem bench_ends_after_break:
  assumes "pport_inv (tb_hb tb)" "tb_meets_break ci tb" "tb_cpu_bombed tb = 0" "\<not> tb_done tb"
  shows "case run_machine (\<lambda>tb e. tb_tick ci e tb) tb es of
      Inl err \<Rightarrow> run_stops ci tb es err
    | Inr (tb', outs) \<Rightarrow> tb_done tb' \<longleftrightarrow> 14 \<le> length es"
proof (cases es)
  case Nil
  with assms(4) show ?thesis by simp
next
  case (Cons e es')
  show ?thesis
  proof (cases "tb_tick ci e tb")
    case (Inl err)
    with tick_counts [OF assms(1), of ci e] show ?thesis by (simp add: Cons run_stops_Cons(1))
  next
    case (Inr p)
    obtain u out where p: "p = (u, out)" by (cases p)
    with tick_counts [OF assms(1), of ci e] Inr assms(2-4) have u: "pport_inv (tb_hb u)"
      "0 < tb_cpu_bombed u" "tb_cpu_bombed u = 1" "\<not> tb_done u" by (simp_all add: bomb_count_def)
    from run_counts [OF u(1,2), of ci es'] u(3,4) show ?thesis
      by (auto simp: Cons Inr p dest: run_stops_Cons(2) [OF Inr [unfolded p]] split: sum.splits)
  qed
qed

subsection \<open>Witnesses\<close>

text \<open>A board that rests: its state is its block RAM, and its CPU has stopped.\<close>

definition resting_board :: "u32 list coreif" where
  "resting_board = \<lparr>ci_eval = (\<lambda>c. c), ci_clk = (\<lambda>_ c. c), ci_reset = (\<lambda>_ c. c), ci_gpio = (\<lambda>_. 0),
     ci_set_gpio = (\<lambda>_ c. c), ci_ram = (\<lambda>_. idle_pins), ci_set_ram = (\<lambda>_ c. c),
     ci_pp = (\<lambda>_. \<lparr>pp_clk = 0, pp_dir = 0, pp_data = 0xff, pp_clkfb = 0\<rparr>), ci_set_pp = (\<lambda>_ _ _ c. c),
     ci_bkram = (\<lambda>c. c), ci_set_bkram = (\<lambda>mem _. mem), ci_sim = (\<lambda>_. False), ci_new_pc = (\<lambda>_. False),
     ci_sim_immv = (\<lambda>_. 0), ci_break = (\<lambda>_. True), ci_gie = (\<lambda>_. False), ci_regs = (\<lambda>_. replicate 32 0),
     ci_wr_ce = (\<lambda>_. False), ci_wr_reg_id = (\<lambda>_. 0), ci_wr_gpreg = (\<lambda>_. 0)\<rparr>"

theorem bench_load_then_read_witness:
  "\<exists>tb' s' r0 r1 r2. tb_load 1 resting_board (\<lambda>_. 0) 0x0200500c [1, 2, 3, 4, 5, 6, 7, 8] 8
      (maintb_new [] (open_chip 5) pp_connected) = Inr (tb', True)
    \<and> run_machine sdramsim_apply (tb_sdram tb') [access_pins False 0, idle_pins, idle_pins, idle_pins, idle_pins] =
        Inr (s', [r0, r1, r2, 0x0304, 0x0506])"
  using bench_load_then_read [where addr = "0x0200500c" and len = 8 and buf = "[1, 2, 3, 4, 5, 6, 7, 8]" and n = 0
      and tb = "maintb_new [] (open_chip 5) pp_connected" and p = "access_pins False 0" and ?n1.0 = idle_pins
      and ?n2.0 = idle_pins and ?n3.0 = idle_pins and ?n4.0 = idle_pins and k = 1 and ci = resting_board
      and g = "\<lambda>_. 0"]
  by (simp add: maintb_new_def open_chip_ready access_pins_ok access_addresses half_word_def del: run_machine.simps)

theorem block_ram_section_misplaced_witness:
  "(\<exists>tb'. tb_load 1 resting_board (\<lambda>_. 0) 0x01400008 [1, 2, 3, 4] 4
      (maintb_new (replicate 2048 0) (open_chip 5) pp_connected) = Inr (tb', True)
      \<and> be_bytes (tb_core tb') = take 32 (be_bytes (replicate 2048 0)) @ [1, 2, 3, 4] @ drop 36 (be_bytes (replicate 2048 0)))
    \<and> tb_load 1 resting_board (\<lambda>_. 0) 0x01400800 [1, 2, 3, 4] 4
        (maintb_new (replicate 2048 0) (open_chip 5) pp_connected) = Inl OutOfBounds"
proof
  let ?tb = "maintb_new (replicate 2048 0) (open_chip 5) pp_connected"
  have ram: "length (ci_bkram resting_board (tb_core ?tb)) = 2048"
    "\<And>c mem. ci_bkram resting_board (ci_set_bkram resting_board mem c) = mem"
    by (simp_all only: maintb_new_def resting_board_def coreif.simps maintb.simps length_replicate)
  show "\<exists>tb'. tb_load 1 resting_board (\<lambda>_. 0) 0x01400008 [1, 2, 3, 4] 4 ?tb = Inr (tb', True)
      \<and> be_bytes (tb_core tb') = take 32 (be_bytes (replicate 2048 0)) @ [1, 2, 3, 4] @ drop 36 (be_bytes (replicate 2048 0))"
    using block_ram_section_misplaced [of "0x01400008" 4 "[1, 2, 3, 4]", OF _ _ _ _ _ _ ram]
    by (simp add: maintb_new_def resting_board_def)
  show "tb_load 1 resting_board (\<lambda>_. 0) 0x01400800 [1, 2, 3, 4] 4 ?tb = Inl OutOfBounds"
    using block_ram_section_misplaced [of "0x01400800" 4 "[1, 2, 3, 4]", OF _ _ _ _ _ _ ram] by simp
qed

text \<open>Hardware that leaves the DRAM alone and carries out no simulation instruction never stops the bench.\<close>

definition quiet_hw :: "'c coreif \<Rightarrow> bool" where
  "quiet_hw ci \<longleftrightarrow> (\<forall>c. sd_nop ((ci_ram ci c)\<lparr>p_clk := True\<rparr>) \<and> \<not> ci_sim ci c)"

definition quiet_bench :: "'c coreif \<Rightarrow> 'c maintb \<Rightarrow> bool" where
  "quiet_bench ci tb \<longleftrightarrow> quiet_hw ci \<and> sd_closed (tb_sdram tb) \<and> pport_inv (tb_hb tb)"

lemma quiet_tick:
  assumes "quiet_bench ci tb"
  shows "\<exists>tb' out. tb_tick ci e tb = Inr (tb', out) \<and> quiet_bench ci tb'"
proof -
  from assms have h: "\<And>c. sd_nop ((ci_ram ci c)\<lparr>p_clk := True\<rparr>)" "\<And>c. \<not> ci_sim ci c"
    and ok: "sd_closed (tb_sdram tb)" "pport_inv (tb_hb tb)" by (simp_all add: quiet_bench_def quiet_hw_def)
  let ?t = "tb_settled ci tb"
  from closed_tick [OF ok(1) h(1) [of "tb_core ?t"]] obtain sd v where
    sd: "sdramsim_apply (tb_sdram tb) ((ci_ram ci (tb_core ?t))\<lparr>p_clk := True\<rparr>) = Inr (sd, v)" "sd_closed sd" by blast
  define c where "c = ci_set_ram ci v (tb_core ?t)"
  from pport_apply_safe [OF ok(2)] obtain hb clk dir r acts where
    hb: "pport_apply e (ci_pp ci c) (tb_hb tb) = Inr (hb, clk, dir, r, acts)" "pport_inv hb" by blast
  from assms have "quiet_hw ci" by (simp add: quiet_bench_def)
  with sd hb h(2) show ?thesis
    by (cases "tb_cpu_bombed tb")
      (auto simp: tick_settled sim_clk_tick_def tb_sdram_tick_def tb_cpu_tick_def tb_port_tick_def
        quiet_bench_def Let_def simp flip: c_def)
qed

interpretation bench: clocked_machine "\<lambda>tb e. tb_tick ci e tb" "quiet_bench ci" "\<lambda>_. True" for ci
  by unfold_locales (rule quiet_tick)

text \<open>A board that counts its clocks and meets a break in the first of them only, and whose port echoes.\<close>

definition counting_board :: "(nat \<times> int \<times> int) coreif" where
  "counting_board = \<lparr>ci_eval = (\<lambda>c. c), ci_clk = (\<lambda>v (n, pp). (if v then Suc n else n, pp)), ci_reset = (\<lambda>_ c. c),
     ci_gpio = (\<lambda>_. 0), ci_set_gpio = (\<lambda>_ c. c), ci_ram = (\<lambda>_. idle_pins), ci_set_ram = (\<lambda>_ c. c),
     ci_pp = (\<lambda>(n, clk, dir). \<lparr>pp_clk = clk, pp_dir = dir, pp_data = int n, pp_clkfb = clk\<rparr>),
     ci_set_pp = (\<lambda>clk dir _ (n, _). (n, clk, dir)),
     ci_bkram = (\<lambda>_. []), ci_set_bkram = (\<lambda>_ c. c), ci_sim = (\<lambda>_. False), ci_new_pc = (\<lambda>_. False),
     ci_sim_immv = (\<lambda>_. 0), ci_break = (\<lambda>(n, _). n = 1), ci_gie = (\<lambda>_. False), ci_regs = (\<lambda>_. replicate 32 0),
     ci_wr_ce = (\<lambda>_. False), ci_wr_reg_id = (\<lambda>_. 0), ci_wr_gpreg = (\<lambda>_. 0)\<rparr>"

definition counting_bench :: "(nat \<times> int \<times> int) maintb" where
  "counting_bench = maintb_new (0, 0, 0) ((open_chip 0)\<lparr>sd_bank_status := [0, 0, 0, 0]\<rparr>) pp_connected"

theorem bench_ends_after_break_witness:
  "(\<exists>tb' outs. run_machine (\<lambda>tb e. tb_tick counting_board e tb) counting_bench (replicate 13 pp_network) = Inr (tb', outs)
     \<and> \<not> tb_done tb') \<and>
   (\<exists>tb' outs. run_machine (\<lambda>tb e. tb_tick counting_board e tb) counting_bench (replicate 14 pp_network) = Inr (tb', outs)
     \<and> tb_done tb')"
proof -
  have "sd_inv (open_chip 0)" using open_chip_ready(1) [of 0 0] by (simp add: sd_ready_def)
  then have sd: "sd_closed (tb_sdram counting_bench)"
    by (simp add: counting_bench_def maintb_new_def sd_closed_def sd_inv_def open_chip_def zero_storage_def)
  have hb: "pport_inv (tb_hb counting_bench)" by (simp add: counting_bench_def maintb_new_def pp_connected_inv)
  have nop: "sd_nop ((ci_ram counting_board c)\<lparr>p_clk := True\<rparr>)" for c
    by (simp add: counting_board_def sd_nop_def idle_pins_def)
  then have quiet: "quiet_bench counting_board counting_bench"
    using sd hb by (simp add: quiet_bench_def quiet_hw_def) (simp add: counting_board_def)
  from closed_tick [OF sd nop [of "tb_core (tb_settled counting_board counting_bench)"]] obtain sd' v where
    "sdramsim_apply (tb_sdram counting_bench)
      ((ci_ram counting_board (tb_core (tb_settled counting_board counting_bench)))\<lparr>p_clk := True\<rparr>) = Inr (sd', v)" by blast
  then have "tb_meets_break counting_board counting_bench"
    by (simp add: tb_meets_break_def tb_sdram_tick_def)
      (simp add: counting_board_def counting_bench_def maintb_new_def tb_settled_def tb_edge_def tb_dump_def tb_eval_def Let_def)
  note ends = bench_ends_after_break [OF hb this]
  have "tb_cpu_bombed counting_bench = 0" "\<not> tb_done counting_bench" by (simp_all add: counting_bench_def maintb_new_def)
  note ends = ends [OF this]
  have runs: "\<exists>tb' outs. run_machine (\<lambda>tb e. tb_tick counting_board e tb) counting_bench es = Inr (tb', outs)" for es
    using bench.run_safe [OF quiet, of es] by (auto simp: list_all_iff)
  show ?thesis
    using runs [of "replicate 13 pp_network"] runs [of "replicate 14 pp_network"]
      ends [of "replicate 13 pp_network"] ends [of "replicate 14 pp_network"]
    by (auto simp del: run_machine.simps)
qed

end
