(* ===== verification/Console.thy ===== *)
theory Console
  imports Prelude
begin

text \<open>
  The console of the programs that run on the board: \<open>sw/board/txfns.c\<close>, which prints, and the system
  calls of \<open>sw/zlib/syscalls.c\<close>, on which the C library of the board is built. The registers of the serial
  port are an argument. The waits for the port take fuel. The static variables \<open>last_was_cr\<close> and \<open>heap\<close>
  are arguments and results. The board has no SD card and no real time clock, as its \<open>board.h\<close> says.
\<close>

subsection \<open>The registers\<close>

record 's console =
  co_fifo :: "('s, u32) prog"
  co_tx :: "u32 \<Rightarrow> ('s, unit) prog"
  co_txstate :: "('s, u32) prog"
  co_rx :: "('s, u32) prog"

fun tx_wait :: "nat \<Rightarrow> 's console \<Rightarrow> ('s, unit) prog" where
  "tx_wait 0 u = throwS NoReturn"
| "tx_wait (Suc n) u = thenS (co_fifo u) (\<lambda>v. if v AND 0x010000 = 0 then tx_wait n u else retS ())"

subsection \<open>Printing\<close>

definition txchr :: "nat \<Rightarrow> 's console \<Rightarrow> u8 \<Rightarrow> bool \<Rightarrow> ('s, bool) prog" where
  "txchr fuel u val last_was_cr =
     thenS (if \<not> last_was_cr \<and> val = 10 then thenS (tx_wait fuel u) (\<lambda>_. co_tx u 13) else retS ()) (\<lambda>_.
     thenS (tx_wait fuel u) (\<lambda>_.
     thenS (co_tx u (ucast val)) (\<lambda>_. retS (val = 13))))"

text \<open>The memory from the pointer on.\<close>

fun txstr :: "nat \<Rightarrow> 's console \<Rightarrow> u8 list \<Rightarrow> bool \<Rightarrow> ('s, bool) prog" where
  "txstr fuel u [] cr = throwS OutOfBounds"
| "txstr fuel u (c # cs) cr =
     (if c = 0 then retS cr else thenS (txchr fuel u c cr) (\<lambda>cr. txstr fuel u cs cr))"

definition txhex_char :: "u32 \<Rightarrow> nat \<Rightarrow> u8" where
  "txhex_char val i =
     (let ch = (drop_bit i val AND 0x0f) + 48;
          ch = (if ch > 57 then ch - 48 + 65 - 10 else ch)
      in ucast ch)"

text \<open>\<open>n\<close> digits are left, and \<open>i\<close> is \<open>4 * (n - 1)\<close>.\<close>

fun txhex_loop :: "nat \<Rightarrow> 's console \<Rightarrow> u32 \<Rightarrow> nat \<Rightarrow> bool \<Rightarrow> ('s, bool) prog" where
  "txhex_loop fuel u val 0 cr = retS cr"
| "txhex_loop fuel u val (Suc n) cr =
     thenS (txchr fuel u (txhex_char val (4 * n)) cr) (\<lambda>cr. txhex_loop fuel u val n cr)"

definition txhex :: "nat \<Rightarrow> 's console \<Rightarrow> u32 \<Rightarrow> bool \<Rightarrow> ('s, bool) prog" where
  "txhex fuel u val cr = txhex_loop fuel u val 8 cr"

text \<open>The digits are collected in \<open>tmp\<close>, the last one first.\<close>

function decimal_loop :: "int \<Rightarrow> u8 list \<Rightarrow> nat \<Rightarrow> (u8 list \<times> nat) res" where
  "decimal_loop uval tmp nc =
     (if uval > 0 then
        let dval = uval div 10; digit = uval - dval * 10 in
        bindE (aset tmp nc (of_int (digit + 48))) (\<lambda>tmp. decimal_loop dval tmp (nc + 1))
      else Inr (tmp, nc))"
  by auto
termination
  by (relation "measure (\<lambda>(uval, tmp, nc). nat uval)") auto

declare decimal_loop.simps [simp del]

fun txback :: "nat \<Rightarrow> 's console \<Rightarrow> u8 list \<Rightarrow> nat \<Rightarrow> bool \<Rightarrow> ('s, bool) prog" where
  "txback fuel u tmp 0 cr = retS cr"
| "txback fuel u tmp (Suc i) cr =
     thenS (liftS (aget tmp i)) (\<lambda>c. thenS (txchr fuel u c cr) (\<lambda>cr. txback fuel u tmp i cr))"

text \<open>\<open>val\<close> is an \<open>int\<close>; \<open>-val\<close> wraps around.\<close>

definition txdecimal :: "nat \<Rightarrow> 's console \<Rightarrow> (nat \<Rightarrow> u8) \<Rightarrow> u32 \<Rightarrow> bool \<Rightarrow> ('s, bool) prog" where
  "txdecimal fuel u g val cr =
     thenS (txchr fuel u (if sint val < 0 then 45 else 32) cr) (\<lambda>cr.
     let uval = sint (if sint val < 0 then - val else val); tmp = map g [0..<16] in
     thenS (liftS (if uval = 0 then bindE (aset tmp 0 48) (\<lambda>tmp. Inr (tmp, 1)) else decimal_loop uval tmp 0))
       (\<lambda>(tmp, nc). txback fuel u tmp nc cr))"

subsection \<open>System calls\<close>

definition outbyte :: "nat \<Rightarrow> 's console \<Rightarrow> u8 \<Rightarrow> ('s, unit) prog" where
  "outbyte fuel u v =
     thenS (if v = 10 then thenS (tx_wait fuel u) (\<lambda>_. co_tx u 13) else retS ()) (\<lambda>_.
     thenS (tx_wait fuel u) (\<lambda>_. co_tx u (ucast v)))"

text \<open>The result is \<open>rv\<close>, as a word, and \<open>last_was_cr\<close>.\<close>

definition inbyte :: "nat \<Rightarrow> 's console \<Rightarrow> bool \<Rightarrow> ('s, u32 \<times> bool) prog" where
  "inbyte fuel u last_was_cr =
     thenS (co_rx u) (\<lambda>rv.
     let (rv, last_was_cr) =
       (if rv AND 0x0100 \<noteq> 0 then (-1, last_was_cr)
        else if rv = 13 then (10, True)
        else if rv = 10 then (if last_was_cr then (-1, False) else (rv, last_was_cr))
        else (rv, False))
     in
     thenS (if rv \<noteq> -1 then outbyte fuel u (ucast rv) else retS ()) (\<lambda>_. retS (rv, last_was_cr)))"

datatype errno = EBADF | ENOSYS | EIO | EACCES | ECHILD

fun read_first :: "nat \<Rightarrow> nat \<Rightarrow> 's console \<Rightarrow> bool \<Rightarrow> ('s, u32 \<times> bool) prog" where
  "read_first 0 fuel u cr = throwS NoReturn"
| "read_first (Suc n) fuel u cr =
     thenS (inbyte fuel u cr) (\<lambda>(rv, cr).
     if rv AND 0x0100 \<noteq> 0 then read_first n fuel u cr else retS (rv, cr))"

function read_more :: "nat \<Rightarrow> 's console \<Rightarrow> nat \<Rightarrow> nat \<Rightarrow> u8 list \<Rightarrow> bool \<Rightarrow> ('s, nat \<times> u8 list \<times> bool) prog" where
  "read_more fuel u len nr buf cr =
     (if nr < len then
        thenS (inbyte fuel u cr) (\<lambda>(rv, cr).
        if rv AND 0x0100 = 0
        then thenS (liftS (aset buf nr (ucast rv))) (\<lambda>buf. read_more fuel u len (nr + 1) buf cr)
        else retS (nr, buf, cr))
      else retS (nr, buf, cr))"
  by auto
termination
  by (relation "measure (\<lambda>(fuel, u, len, nr, buf, cr). len - nr)") auto

declare read_more.simps [simp del]

text \<open>The error number, if one is set, the result, the memory at the pointer and \<open>last_was_cr\<close>.\<close>

definition read_r :: "nat \<Rightarrow> nat \<Rightarrow> 's console \<Rightarrow> int \<Rightarrow> u8 list \<Rightarrow> nat \<Rightarrow> bool \<Rightarrow>
    ('s, errno option \<times> int \<times> u8 list \<times> bool) prog" where
  "read_r n fuel u file buf len cr =
     (if file = 0 then
        thenS (read_first n fuel u cr) (\<lambda>(rv, cr).
        thenS (liftS (aset buf 0 (ucast rv))) (\<lambda>buf.
        thenS (read_more fuel u len 1 buf cr) (\<lambda>(nr, buf, cr). retS (None, int nr, buf, cr))))
      else retS (Some ENOSYS, -1, buf, cr))"

fun write_loop :: "nat \<Rightarrow> 's console \<Rightarrow> u8 list \<Rightarrow> nat \<Rightarrow> nat \<Rightarrow> ('s, unit) prog" where
  "write_loop fuel u buf i 0 = retS ()"
| "write_loop fuel u buf i (Suc n) =
     thenS (liftS (aget buf i)) (\<lambda>c. thenS (outbyte fuel u c) (\<lambda>_. write_loop fuel u buf (i + 1) n))"

definition write_r :: "nat \<Rightarrow> 's console \<Rightarrow> int \<Rightarrow> u8 list \<Rightarrow> nat \<Rightarrow> ('s, errno option \<times> int) prog" where
  "write_r fuel u fd buf nbytes =
     (if fd = 1 \<or> fd = 2
      then thenS (write_loop fuel u buf 0 nbytes) (\<lambda>_. retS (None, int nbytes))
      else retS (Some EBADF, -1))"

text \<open>\<open>heap\<close> points to \<open>int\<close>s, of four bytes each.\<close>

definition sbrk_r :: "u32 \<Rightarrow> u32 \<Rightarrow> u32 \<times> u32" where
  "sbrk_r heap sz = (heap, heap + 4 * sz)"

definition fstat_r :: "int \<Rightarrow> errno option \<times> int \<times> bool" where
  "fstat_r file = (if file = 1 \<or> file = 2 \<or> file = 0 then (None, 0, True) else (Some EBADF, -1, False))"

definition isatty_r :: "int \<Rightarrow> int" where
  "isatty_r file = (if file = 0 \<or> file = 1 \<or> file = 2 then 1 else 0)"

definition close_r :: "int \<Rightarrow> errno option \<times> int" where "close_r file = (Some EBADF, -1)"
definition lseek_r :: "int \<Rightarrow> int \<Rightarrow> int \<Rightarrow> errno option \<times> int" where "lseek_r file ptr dir = (Some ENOSYS, -1)"
definition open_r :: "u8 list \<Rightarrow> int \<Rightarrow> int \<Rightarrow> errno option \<times> int" where "open_r file flags mode = (Some ENOSYS, -1)"
definition stat_r :: "u8 list \<Rightarrow> errno option \<times> int" where "stat_r path = (Some EIO, -1)"
definition unlink_r :: "u8 list \<Rightarrow> errno option \<times> int" where "unlink_r path = (Some EIO, -1)"
definition execve_r :: "u8 list \<Rightarrow> errno option \<times> int" where "execve_r name = (Some ENOSYS, -1)"
definition fork_r :: "errno option \<times> int" where "fork_r = (Some ENOSYS, -1)"
definition getpid_r :: int where "getpid_r = 1"
definition gettimeofday_r :: "errno option \<times> int" where "gettimeofday_r = (Some ENOSYS, -1)"
definition kill_r :: "int \<Rightarrow> int \<Rightarrow> errno option \<times> int" where "kill_r pid sig = (Some ENOSYS, -1)"
definition link_r :: "u8 list \<Rightarrow> u8 list \<Rightarrow> errno option \<times> int" where "link_r existing new = (Some ENOSYS, -1)"
definition readlink_r :: "u8 list \<Rightarrow> nat \<Rightarrow> errno option \<times> int" where "readlink_r path bufsize = (Some ENOSYS, -1)"
definition times_call :: "errno option \<times> int" where "times_call = (Some EACCES, -1)"
definition wait_call :: "errno option \<times> int" where "wait_call = (Some ECHILD, -1)"

text \<open>\<open>_exit\<close> waits until the port has sent what it holds, and stops the CPU.\<close>

fun flush_wait :: "nat \<Rightarrow> 's console \<Rightarrow> ('s, unit) prog" where
  "flush_wait 0 u = throwS NoReturn"
| "flush_wait (Suc n) u = thenS (co_txstate u) (\<lambda>v. if v AND 0x0100 \<noteq> 0 then flush_wait n u else retS ())"

definition exit_call :: "nat \<Rightarrow> 's console \<Rightarrow> int \<Rightarrow> ('s, unit) prog" where
  "exit_call fuel u rcode = thenS (flush_wait fuel u) (\<lambda>_. throwS (ExitWith rcode))"

end
