(* ===== verification/ConsoleProps.thy ===== *)
theory ConsoleProps
  imports Console
begin

text \<open>
  What the console sends and reads. The serial port is any that keeps the laws of \<open>serial_port\<close>: it is
  busy for a bounded number of looks after a character, and each look at the receiver gives the next
  of an endless sequence of answers.
\<close>

subsection \<open>The port\<close>

definition serial_port ::
    "nat \<Rightarrow> ('s \<Rightarrow> u8 list) \<Rightarrow> ('s \<Rightarrow> nat \<Rightarrow> u32) \<Rightarrow> ('s \<Rightarrow> nat) \<Rightarrow> 's console \<Rightarrow> bool" where
  "serial_port d sent polls lag u \<longleftrightarrow>
     (\<forall>s. wp (co_fifo u) (\<lambda>v t. (v AND 0x010000 = 0 \<longleftrightarrow> lag s \<noteq> 0) \<and> lag t = lag s - 1
        \<and> sent t = sent s \<and> polls t = polls s) (\<lambda>_ _. False) s) \<and>
     (\<forall>s c. lag s = 0 \<longrightarrow> wp (co_tx u c) (\<lambda>_ t. sent t = sent s @ [ucast c] \<and> polls t = polls s \<and> lag t \<le> d)
        (\<lambda>_ _. False) s) \<and>
     (\<forall>s. wp (co_rx u) (\<lambda>v t. v = polls s 0 \<and> polls t = (\<lambda>i. polls s (Suc i)) \<and> sent t = sent s \<and> lag t \<le> lag s)
        (\<lambda>_ _. False) s)"

lemma port_fifo:
  "serial_port d sent polls lag u \<Longrightarrow> wp (co_fifo u) (\<lambda>v t. (v AND 0x010000 = 0 \<longleftrightarrow> lag s \<noteq> 0) \<and> lag t = lag s - 1
     \<and> sent t = sent s \<and> polls t = polls s) (\<lambda>_ _. False) s"
  unfolding serial_port_def by blast

lemma port_tx:
  "serial_port d sent polls lag u \<Longrightarrow> lag s = 0 \<Longrightarrow>
     wp (co_tx u c) (\<lambda>_ t. sent t = sent s @ [ucast c] \<and> polls t = polls s \<and> lag t \<le> d) (\<lambda>_ _. False) s"
  unfolding serial_port_def by blast

lemma port_rx:
  "serial_port d sent polls lag u \<Longrightarrow>
     wp (co_rx u) (\<lambda>v t. v = polls s 0 \<and> polls t = (\<lambda>i. polls s (Suc i)) \<and> sent t = sent s \<and> lag t \<le> lag s)
       (\<lambda>_ _. False) s"
  unfolding serial_port_def by blast

lemma ucast_u8_u32 [simp]: "ucast (ucast (c :: u8) :: u32) = c"
  by (rule bit_word_eqI) (simp add: bit_simps)

lemma tx_wait_wp:
  "serial_port d sent polls lag u \<Longrightarrow> lag s < n \<Longrightarrow>
     wp (tx_wait n u) (\<lambda>_ t. lag t = 0 \<and> sent t = sent s \<and> polls t = polls s) (\<lambda>_ _. False) s"
proof (induction n arbitrary: s)
  case (Suc n)
  show ?case
    unfolding tx_wait.simps
  proof (rule wp_seq [OF port_fifo [OF Suc.prems(1)]])
    fix v t assume t: "(v AND 0x010000 = 0 \<longleftrightarrow> lag s \<noteq> 0) \<and> lag t = lag s - 1 \<and> sent t = sent s \<and> polls t = polls s"
    show "wp (if v AND 0x010000 = 0 then tx_wait n u else retS ()) (\<lambda>_ t. lag t = 0 \<and> sent t = sent s \<and> polls t = polls s)
        (\<lambda>_ _. False) t"
    proof (cases "lag s = 0")
      case False
      with Suc.prems(2) t have "lag t < n" by simp
      from Suc.IH [OF Suc.prems(1) this] t False show ?thesis by simp
    qed (use t in \<open>simp add: wp_simps\<close>)
  qed
qed simp

lemma send_wp:
  assumes port: "serial_port d sent polls lag u" and "d < fuel" "lag s \<le> d"
  shows "wp (thenS (tx_wait fuel u) (\<lambda>_. co_tx u c))
    (\<lambda>_ t. sent t = sent s @ [ucast c] \<and> polls t = polls s \<and> lag t \<le> d) (\<lambda>_ _. False) s"
proof (rule wp_seq)
  show "wp (tx_wait fuel u) (\<lambda>_ t. lag t = 0 \<and> sent t = sent s \<and> polls t = polls s) (\<lambda>_ _. False) s"
    using tx_wait_wp [OF port, of s fuel] assms(2,3) by simp
next
  fix t assume t: "lag t = 0 \<and> sent t = sent s \<and> polls t = polls s"
  with port have "wp (co_tx u c) (\<lambda>_ v. sent v = sent t @ [ucast c] \<and> polls v = polls t \<and> lag v \<le> d) (\<lambda>_ _. False) t"
    using port_tx [OF port, of t c] by simp
  with t show "wp (co_tx u c) (\<lambda>_ t. sent t = sent s @ [ucast c] \<and> polls t = polls s \<and> lag t \<le> d) (\<lambda>_ _. False) t"
    by simp
qed

text \<open>A line feed is sent with a carriage return before it, at most after a condition.\<close>

lemma send_line_wp:
  assumes port: "serial_port d sent polls lag u" and "d < fuel" "lag s \<le> d"
  shows "wp (thenS (if b then thenS (tx_wait fuel u) (\<lambda>_. co_tx u 13) else retS ()) (\<lambda>_.
      thenS (tx_wait fuel u) (\<lambda>_. co_tx u (ucast c))))
    (\<lambda>_ t. sent t = sent s @ (if b then [13, c] else [c]) \<and> polls t = polls s \<and> lag t \<le> d) (\<lambda>_ _. False) s"
proof (cases b)
  case True
  have "wp (thenS (thenS (tx_wait fuel u) (\<lambda>_. co_tx u 13)) (\<lambda>_. thenS (tx_wait fuel u) (\<lambda>_. co_tx u (ucast c))))
      (\<lambda>_ t. sent t = sent s @ [13, c] \<and> polls t = polls s \<and> lag t \<le> d) (\<lambda>_ _. False) s"
  proof (rule wp_seq [OF send_wp [OF assms]])
    fix t assume t: "sent t = sent s @ [ucast (13 :: u32)] \<and> polls t = polls s \<and> lag t \<le> d"
    have "wp (thenS (tx_wait fuel u) (\<lambda>_. co_tx u (ucast c)))
        (\<lambda>_ v. sent v = sent t @ [ucast (ucast c :: u32)] \<and> polls v = polls t \<and> lag v \<le> d) (\<lambda>_ _. False) t"
      by (rule send_wp [OF port assms(2)]) (use t in simp)
    then show "wp (thenS (tx_wait fuel u) (\<lambda>_. co_tx u (ucast c)))
        (\<lambda>_ t. sent t = sent s @ [13, c] \<and> polls t = polls s \<and> lag t \<le> d) (\<lambda>_ _. False) t"
      by (rule wp_mono) (use t in auto)
  qed
  with True show ?thesis by simp
next
  case False
  have "wp (thenS (tx_wait fuel u) (\<lambda>_. co_tx u (ucast c)))
      (\<lambda>_ t. sent t = sent s @ [ucast (ucast c :: u32)] \<and> polls t = polls s \<and> lag t \<le> d) (\<lambda>_ _. False) s"
    by (rule send_wp [OF assms])
  with False show ?thesis by simp
qed

subsection \<open>Characters\<close>

text \<open>Text as a terminal wants it.\<close>

fun crlf :: "bool \<Rightarrow> u8 list \<Rightarrow> u8 list" where
  "crlf cr [] = []"
| "crlf cr (c # cs) = (if \<not> cr \<and> c = 10 then [13, c] else [c]) @ crlf (c = 13) cs"

lemma crlf_plain: "10 \<notin> set cs \<Longrightarrow> crlf cr cs = cs"
  by (induction cs arbitrary: cr) auto

lemma txchr_wp:
  assumes "serial_port d sent polls lag u" "d < fuel" "lag s \<le> d"
  shows "wp (txchr fuel u val cr)
    (\<lambda>cr' t. cr' = (val = 13) \<and> sent t = sent s @ crlf cr [val] \<and> polls t = polls s \<and> lag t \<le> d) (\<lambda>_ _. False) s"
proof -
  have "txchr fuel u val cr =
      thenS (thenS (if \<not> cr \<and> val = 10 then thenS (tx_wait fuel u) (\<lambda>_. co_tx u 13) else retS ()) (\<lambda>_.
        thenS (tx_wait fuel u) (\<lambda>_. co_tx u (ucast val)))) (\<lambda>_. retS (val = 13))"
    by (simp add: txchr_def thenS_assoc)
  then show ?thesis
    using send_line_wp [OF assms, of "\<not> cr \<and> val = 10" val] by (auto simp: wp_thenS wp_retS elim!: wp_mono)
qed

lemma outbyte_wp:
  assumes "serial_port d sent polls lag u" "d < fuel" "lag s \<le> d"
  shows "wp (outbyte fuel u c)
    (\<lambda>_ t. sent t = sent s @ crlf False [c] \<and> polls t = polls s \<and> lag t \<le> d) (\<lambda>_ _. False) s"
  unfolding outbyte_def using send_line_wp [OF assms, of "c = 10" c] by (auto elim!: wp_mono)

lemma crlf_Cons: "crlf cr [c] @ crlf (c = 13) cs = crlf cr (c # cs)"
  by simp

lemma txstr_wp:
  assumes port: "serial_port d sent polls lag u" "d < fuel"
  shows "lag s \<le> d \<Longrightarrow> 0 \<in> set str \<Longrightarrow> wp (txstr fuel u str cr)
    (\<lambda>_ t. sent t = sent s @ crlf cr (takeWhile (\<lambda>c. c \<noteq> 0) str) \<and> polls t = polls s \<and> lag t \<le> d) (\<lambda>_ _. False) s"
proof (induction str arbitrary: cr s)
  case (Cons c cs)
  show ?case
  proof (cases "c = 0")
    case False
    have "wp (thenS (txchr fuel u c cr) (\<lambda>cr. txstr fuel u cs cr))
        (\<lambda>_ t. sent t = sent s @ crlf cr (c # takeWhile (\<lambda>c. c \<noteq> 0) cs) \<and> polls t = polls s \<and> lag t \<le> d)
        (\<lambda>_ _. False) s"
    proof (rule wp_seq [OF txchr_wp [OF port Cons.prems(1)]])
      fix cr' t assume t: "cr' = (c = 13) \<and> sent t = sent s @ crlf cr [c] \<and> polls t = polls s \<and> lag t \<le> d"
      have "0 \<in> set cs" using Cons.prems(2) False by auto
      then show "wp (txstr fuel u cs cr')
          (\<lambda>_ t. sent t = sent s @ crlf cr (c # takeWhile (\<lambda>c. c \<noteq> 0) cs) \<and> polls t = polls s \<and> lag t \<le> d)
          (\<lambda>_ _. False) t"
        using Cons.IH [of t cr'] t by (auto elim!: wp_mono)
    qed
    with False show ?thesis by simp
  qed (use Cons.prems in \<open>simp add: wp_simps\<close>)
qed simp

lemma txback_wp:
  assumes port: "serial_port d sent polls lag u" "d < fuel"
  shows "lag s \<le> d \<Longrightarrow> i \<le> length tmp \<Longrightarrow> wp (txback fuel u tmp i cr)
    (\<lambda>_ t. sent t = sent s @ crlf cr (rev (take i tmp)) \<and> polls t = polls s \<and> lag t \<le> d) (\<lambda>_ _. False) s"
proof (induction i arbitrary: cr s)
  case (Suc i)
  then have i: "i < length tmp" by simp
  have "wp (thenS (txchr fuel u (tmp ! i) cr) (\<lambda>cr. txback fuel u tmp i cr))
      (\<lambda>_ t. sent t = sent s @ crlf cr (tmp ! i # rev (take i tmp)) \<and> polls t = polls s \<and> lag t \<le> d)
      (\<lambda>_ _. False) s"
  proof (rule wp_seq [OF txchr_wp [OF port Suc.prems(1)]])
    fix cr' t assume t: "cr' = (tmp ! i = 13) \<and> sent t = sent s @ crlf cr [tmp ! i] \<and> polls t = polls s \<and> lag t \<le> d"
    then show "wp (txback fuel u tmp i cr')
        (\<lambda>_ t. sent t = sent s @ crlf cr (tmp ! i # rev (take i tmp)) \<and> polls t = polls s \<and> lag t \<le> d)
        (\<lambda>_ _. False) t"
      using Suc.IH [of t cr'] i by (auto elim!: wp_mono)
  qed
  with i show ?case by (simp add: liftS_Inr take_Suc_conv_app_nth)
qed (simp add: wp_simps)

lemma txhex_wp:
  assumes port: "serial_port d sent polls lag u" "d < fuel"
  shows "lag s \<le> d \<Longrightarrow> wp (txhex_loop fuel u val n cr)
    (\<lambda>_ t. sent t = sent s @ crlf cr (map (\<lambda>i. txhex_char val (4 * i)) (rev [0..<n])) \<and> polls t = polls s \<and> lag t \<le> d)
    (\<lambda>_ _. False) s"
proof (induction n arbitrary: cr s)
  case (Suc n)
  show ?case
    unfolding txhex_loop.simps
  proof (rule wp_seq [OF txchr_wp [OF port Suc.prems]])
    fix cr' t assume t: "cr' = (txhex_char val (4 * n) = 13) \<and> sent t = sent s @ crlf cr [txhex_char val (4 * n)]
      \<and> polls t = polls s \<and> lag t \<le> d"
    then show "wp (txhex_loop fuel u val n cr')
        (\<lambda>_ t. sent t = sent s @ crlf cr (map (\<lambda>i. txhex_char val (4 * i)) (rev [0..<Suc n])) \<and> polls t = polls s \<and> lag t \<le> d)
        (\<lambda>_ _. False) t"
      using Suc.IH [of t cr'] by (auto elim!: wp_mono)
  qed
qed (simp add: wp_simps)

subsection \<open>Writing\<close>

text \<open>What is sent of a text, each line feed with a carriage return.\<close>

definition echo :: "u8 list \<Rightarrow> u8 list" where
  "echo cs = concat (map (\<lambda>c. crlf False [c]) cs)"

lemma echo_simps [simp]: "echo [] = []" "echo (cs @ ds) = echo cs @ echo ds" "echo [c] = crlf False [c]"
  by (simp_all add: echo_def)

lemma write_loop_wp:
  assumes port: "serial_port d sent polls lag u" "d < fuel"
  shows "lag s \<le> d \<Longrightarrow> i + n \<le> length buf \<Longrightarrow> wp (write_loop fuel u buf i n)
    (\<lambda>_ t. sent t = sent s @ echo (take n (drop i buf)) \<and> polls t = polls s \<and> lag t \<le> d) (\<lambda>_ _. False) s"
proof (induction n arbitrary: i s)
  case (Suc n)
  then have i: "i < length buf" by simp
  have "wp (thenS (outbyte fuel u (buf ! i)) (\<lambda>_. write_loop fuel u buf (i + 1) n))
      (\<lambda>_ t. sent t = sent s @ echo (take (Suc n) (drop i buf)) \<and> polls t = polls s \<and> lag t \<le> d) (\<lambda>_ _. False) s"
  proof (rule wp_seq [OF outbyte_wp [OF port Suc.prems(1)]])
    fix t assume t: "sent t = sent s @ crlf False [buf ! i] \<and> polls t = polls s \<and> lag t \<le> d"
    have "take (Suc n) (drop i buf) = [buf ! i] @ take n (drop (i + 1) buf)"
      using i by (simp add: Cons_nth_drop_Suc [symmetric])
    then have "echo (take (Suc n) (drop i buf)) = crlf False [buf ! i] @ echo (take n (drop (i + 1) buf))"
      by (simp only: echo_simps)
    then show "wp (write_loop fuel u buf (i + 1) n)
        (\<lambda>_ t. sent t = sent s @ echo (take (Suc n) (drop i buf)) \<and> polls t = polls s \<and> lag t \<le> d) (\<lambda>_ _. False) t"
      using Suc.IH [of t "i + 1"] Suc.prems(2) t by (auto elim!: wp_mono)
  qed
  with i show ?case by (simp add: liftS_Inr)
qed (simp add: wp_simps)

lemma write_r_wp:
  assumes "serial_port d sent polls lag u" "d < fuel" "lag s \<le> d" "n \<le> length buf" "fd = 1 \<or> fd = 2"
  shows "wp (write_r fuel u fd buf n)
    (\<lambda>r t. r = (None, int n) \<and> sent t = sent s @ echo (take n buf) \<and> polls t = polls s \<and> lag t \<le> d) (\<lambda>_ _. False) s"
proof -
  have "wp (thenS (write_loop fuel u buf 0 n) (\<lambda>_. retS (None, int n)))
    (\<lambda>r t. r = (None, int n) \<and> sent t = sent s @ echo (take n buf) \<and> polls t = polls s \<and> lag t \<le> d) (\<lambda>_ _. False) s"
    by (rule wp_seq [OF write_loop_wp [OF assms(1-3)]]) (use assms(4) in \<open>auto simp: wp_retS\<close>)
  with assms(5) show ?thesis by (auto simp: write_r_def)
qed

text \<open>A read of no characters stores one all the same.\<close>

lemma read_of_nothing:
  "read_first n fuel u cr s = Inr ((rv, cr'), t) \<Longrightarrow> read_r n fuel u 0 [] 0 cr s = Inl (OutOfBounds, t)"
  by (simp add: read_r_def thenS_def liftS_def aset_def)

subsection \<open>Decimal numbers\<close>

fun decimal :: "nat \<Rightarrow> u8 list" where
  "decimal n = (if n < 10 then [48 + of_nat n] else decimal (n div 10) @ [48 + of_nat (n mod 10)])"

declare decimal.simps [simp del]

lemma length_decimal: "0 < k \<Longrightarrow> n < 10 ^ k \<Longrightarrow> length (decimal n) \<le> k"
proof (induction k arbitrary: n)
  case (Suc k)
  show ?case
  proof (cases "n < 10")
    case False
    with Suc.prems have "0 < k" "n div 10 < 10 ^ k" by (auto intro: Suc_lessI ccontr)
    from Suc.IH [OF this] False show ?thesis by (simp add: decimal.simps [of n])
  qed (simp add: decimal.simps [of n])
qed simp

lemma digit_not_line: "m < 10 \<Longrightarrow> 48 + of_nat m \<noteq> (10 :: u8)"
proof
  assume m: "m < 10" and "48 + of_nat m = (10 :: u8)"
  then have "unat (of_nat (48 + m) :: u8) = unat (10 :: u8)" by (simp only: of_nat_add of_nat_numeral)
  with m show False by (simp add: unsigned_of_nat take_bit_nat_eq_self del: of_nat_add)
qed

lemma decimal_plain: "10 \<notin> set (decimal n)"
proof (induction n rule: decimal.induct)
  case (1 n)
  then show ?case using digit_not_line [of n] digit_not_line [of "n mod 10"]
    by (subst decimal.simps) auto
qed

lemma decimal_loop_eq:
  "0 < uval \<Longrightarrow> nc + length (decimal (nat uval)) \<le> length tmp \<Longrightarrow>
     \<exists>tmp'. decimal_loop uval tmp nc = Inr (tmp', nc + length (decimal (nat uval))) \<and> length tmp' = length tmp
       \<and> take (nc + length (decimal (nat uval))) tmp' = take nc tmp @ rev (decimal (nat uval))"
proof (induction uval tmp nc rule: decimal_loop.induct)
  case (1 uval tmp nc)
  let ?digit = "of_int (uval - uval div 10 * 10 + 48) :: u8"
  let ?tmp = "tmp[nc := ?digit]"
  have digit: "?digit = 48 + of_nat (nat uval mod 10)"
  proof -
    have "uval - uval div 10 * 10 = int (nat uval mod 10)"
      using "1.prems"(1) by (simp add: minus_div_mult_eq_mod zmod_int)
    then show ?thesis by simp
  qed
  have "0 < length (decimal (nat uval))" by (subst decimal.simps) simp
  with "1.prems" have nc: "nc < length tmp" by linarith
  then have step: "decimal_loop uval tmp nc = decimal_loop (uval div 10) ?tmp (nc + 1)"
    using "1.prems"(1) by (simp add: decimal_loop.simps [of uval] Let_def)
  show ?case
  proof (cases "uval < 10")
    case True
    then have "nat uval < 10" "uval div 10 = 0" using "1.prems"(1) by (simp_all add: div_pos_pos_trivial)
    with "1.prems"(1) have "decimal_loop (uval div 10) ?tmp (nc + 1) = Inr (?tmp, nc + 1)" "decimal (nat uval) = [?digit]"
      unfolding digit by (simp_all add: decimal_loop.simps [of 0] decimal.simps [of "nat uval"])
    with nc show ?thesis unfolding step by (simp add: take_Suc_conv_app_nth)
  next
    case False
    then have "\<not> nat uval < 10" by simp
    with False have d: "decimal (nat uval) = decimal (nat (uval div 10)) @ [?digit]" "0 < uval div 10"
      unfolding digit by (simp_all add: decimal.simps [of "nat uval"] nat_div_distrib pos_imp_zdiv_pos_iff)
    with "1.prems"(2) have "nc + 1 + length (decimal (nat (uval div 10))) \<le> length ?tmp" by simp
    from "1.IH" [OF "1.prems"(1) refl refl _ d(2) this] obtain tmp' where
      "decimal_loop (uval div 10) ?tmp (nc + 1) = Inr (tmp', nc + 1 + length (decimal (nat (uval div 10))))"
      "length tmp' = length tmp"
      "take (nc + 1 + length (decimal (nat (uval div 10)))) tmp' = take (nc + 1) ?tmp @ rev (decimal (nat (uval div 10)))"
      using nc by auto
    with d(1) nc show ?thesis unfolding step by (auto simp: take_Suc_conv_app_nth)
  qed
qed

lemma negate_int: "(val :: u32) \<noteq> 0x80000000 \<Longrightarrow> sint (- val) = - sint val"
proof -
  assume val: "val \<noteq> 0x80000000"
  have r: "- (2 ^ 31) \<le> sint val" "sint val < 2 ^ 31"
    using sint_greater_eq [of val] sint_less [of val] by simp_all
  have "sint val \<noteq> - (2 ^ 31)"
  proof
    assume "sint val = - (2 ^ 31)"
    from arg_cong [OF this, of "word_of_int :: int \<Rightarrow> u32"] val show False by simp
  qed
  with r have "signed_take_bit 31 (- sint val) = - sint val"
    by (intro signed_take_bit_int_eq_self) auto
  moreover have "sint (- val) = signed_take_bit 31 (- sint val)"
  proof -
    have "- val = word_of_int (- sint val)" by simp
    then show ?thesis by (simp only: signed_of_int) simp
  qed
  ultimately show ?thesis by simp
qed

text \<open>The digits of a value, in the array and as they are sent.\<close>

lemma decimal_array:
  assumes "(val :: u32) \<noteq> 0x80000000"
  defines "uval \<equiv> sint (if sint val < 0 then - val else val)" and "ds \<equiv> decimal (nat \<bar>sint val\<bar>)"
  obtains tmp where "(if uval = 0 then bindE (aset (map g [0..<16]) 0 48) (\<lambda>tmp. Inr (tmp, 1)) else
      decimal_loop uval (map g [0..<16]) 0) = Inr (tmp, length ds)" "length ds \<le> length tmp" "take (length ds) tmp = rev ds"
proof -
  have uval: "uval = \<bar>sint val\<bar>" using negate_int [OF assms(1)] by (simp add: uval_def)
  show ?thesis
  proof (cases "uval = 0")
    case True
    with uval have "ds = [48]" by (simp add: ds_def decimal.simps [of 0])
    with True that [of "(map g [0..<16])[0 := 48]"] show ?thesis by (simp add: take_Suc_conv_app_nth)
  next
    case False
    have "nat \<bar>sint val\<bar> < 10 ^ 16"
      using sint_greater_eq [of val] sint_less [of val] by simp
    then have "length ds \<le> 16" unfolding ds_def by (rule length_decimal [rotated]) simp
    with decimal_loop_eq [of uval 0 "map g [0..<16]"] False uval that show ?thesis
      by (fastforce simp: ds_def)
  qed
qed

text \<open>C34. A number is printed as a sign and its decimal digits, without leading zeros; of the least number only the
  sign is printed.\<close>

theorem txdecimal_prints:
  assumes "serial_port d sent polls lag u" "d < fuel" "lag s \<le> d"
  shows "wp (txdecimal fuel u g val cr)
    (\<lambda>_ t. sent t = sent s @ (if val = 0x80000000 then [45]
        else (if sint val < 0 then 45 else 32) # decimal (nat \<bar>sint val\<bar>)) \<and> polls t = polls s \<and> lag t \<le> d)
    (\<lambda>_ _. False) s"
  unfolding txdecimal_def
proof (rule wp_seq [OF txchr_wp [OF assms]])
  let ?c = "(if sint val < 0 then 45 else 32) :: u8"
  let ?uval = "sint (if sint val < 0 then - val else val)"
  fix cr' t assume t: "cr' = (?c = 13) \<and> sent t = sent s @ crlf cr [?c] \<and> polls t = polls s \<and> lag t \<le> d"
  have sent: "sent t = sent s @ [?c]" using t by (simp split: if_splits)
  show "wp (let uval = ?uval; tmp = map g [0..<16] in
      thenS (liftS (if uval = 0 then bindE (aset tmp 0 48) (\<lambda>tmp. Inr (tmp, 1)) else decimal_loop uval tmp 0))
        (\<lambda>(tmp, nc). txback fuel u tmp nc cr'))
    (\<lambda>_ t. sent t = sent s @ (if val = 0x80000000 then [45] else ?c # decimal (nat \<bar>sint val\<bar>))
       \<and> polls t = polls s \<and> lag t \<le> d) (\<lambda>_ _. False) t"
  proof (cases "val = 0x80000000")
    case True
    then have "?uval = - (2 ^ 31)" "?c = 45" by simp_all
    then show ?thesis
      using t sent True by (simp add: decimal_loop.simps [of "- 2147483648"] Let_def liftS_Inr wp_simps)
  next
    case False
    from decimal_array [OF this, of g] obtain tmp where tmp:
      "(if ?uval = 0 then bindE (aset (map g [0..<16]) 0 48) (\<lambda>tmp. Inr (tmp, 1)) else decimal_loop ?uval (map g [0..<16]) 0) =
         Inr (tmp, length (decimal (nat \<bar>sint val\<bar>)))"
      "length (decimal (nat \<bar>sint val\<bar>)) \<le> length tmp"
      "take (length (decimal (nat \<bar>sint val\<bar>))) tmp = rev (decimal (nat \<bar>sint val\<bar>))" by blast
    have "wp (txback fuel u tmp (length (decimal (nat \<bar>sint val\<bar>))) cr')
        (\<lambda>_ v. sent v = sent t @ decimal (nat \<bar>sint val\<bar>) \<and> polls v = polls t \<and> lag v \<le> d) (\<lambda>_ _. False) t"
      using txback_wp [OF assms(1,2), of t _ tmp cr'] t tmp(2,3) decimal_plain
      by (fastforce simp: crlf_plain)
    then show ?thesis
      unfolding Let_def tmp(1) using t sent False by (auto simp: liftS_Inr elim!: wp_mono)
  qed
qed

subsection \<open>Reading\<close>

text \<open>Each end of a line as a line feed, whether it is a carriage return, a line feed or both.\<close>

fun line_ends :: "u8 list \<Rightarrow> u8 list" where
  "line_ends [] = []"
| "line_ends (c # cs) =
     (if c = 13 then (case cs of [] \<Rightarrow> [10] | b # bs \<Rightarrow> if b = 10 then 10 # line_ends bs else 10 # line_ends cs)
      else c # line_ends cs)"

text \<open>What a text amounts to when a carriage return has come before it or not.\<close>

definition lines_after :: "bool \<Rightarrow> u8 list \<Rightarrow> u8 list" where
  "lines_after cr cs = (if cr then tl (line_ends (13 # cs)) else line_ends cs)"

definition cr_after :: "bool \<Rightarrow> u8 list \<Rightarrow> bool" where
  "cr_after cr cs = (if cs = [] then cr else last cs = 13)"

lemma lines_after_Nil [simp]: "lines_after cr [] = []"
  by (simp add: lines_after_def)

lemma lines_after_Cons:
  "lines_after cr (c # cs) = (if c = 13 then 10 # lines_after True cs
     else if cr \<and> c = 10 then lines_after False cs else c # lines_after False cs)"
  by (cases cs) (auto simp: lines_after_def)

lemma cr_after_Cons: "cr_after cr (c # cs) = cr_after (c = 13) cs"
  by (simp add: cr_after_def)

lemma lines_after_append:
  "lines_after cr (cs @ ds) = lines_after cr cs @ lines_after (cr_after cr cs) ds"
proof (induction cs arbitrary: cr)
  case (Cons c cs)
  then show ?case by (simp add: lines_after_Cons cr_after_Cons)
qed (simp add: cr_after_def)

lemma cr_after_append: "cr_after cr (cs @ ds) = cr_after (cr_after cr cs) ds"
  by (simp add: cr_after_def)

text \<open>The characters among the first answers of the receiver.\<close>

definition answer_char :: "u32 \<Rightarrow> u8 list" where
  "answer_char r = (if r AND 0x0100 \<noteq> 0 then [] else [ucast r])"

definition received :: "nat \<Rightarrow> (nat \<Rightarrow> u32) \<Rightarrow> u8 list" where
  "received k p = concat (map (\<lambda>i. answer_char (p i)) [0..<k])"

lemma received_Suc: "received (Suc k) p = answer_char (p 0) @ received k (\<lambda>i. p (Suc i))"
  by (simp add: received_def upt_conv_Cons map_Suc_upt [symmetric] comp_def del: upt_Suc)

lemma received_0 [simp]: "received 0 p = []"
  by (simp add: received_def)

text \<open>The answers of the receiver are a character or say that there is none.\<close>

definition plain :: "(nat \<Rightarrow> u32) \<Rightarrow> bool" where
  "plain p \<longleftrightarrow> (\<forall>i. p i AND 0x0100 \<noteq> 0 \<or> p i < 0x0100)"

lemma plain_shift: "plain p \<Longrightarrow> plain (\<lambda>i. p (i + k))"
  by (simp add: plain_def)

lemma byte_value: "(r :: u32) < 0x0100 \<Longrightarrow> ucast r = (c :: u8) \<longleftrightarrow> r = ucast c"
proof -
  assume "r < 0x0100"
  then have "take_bit 8 r = r"
    by (simp add: word_unat_eq_iff unsigned_take_bit_eq take_bit_nat_eq_self word_less_nat_alt)
  moreover have "ucast (ucast r :: u8) = take_bit 8 r" by (rule bit_word_eqI) (auto simp: bit_simps)
  ultimately show ?thesis by auto
qed

lemma byte_has_no_flag: "(r :: u32) < 0x0100 \<Longrightarrow> r AND 0x0100 = 0"
proof -
  assume "r < 0x0100"
  then have r: "take_bit 8 r = r"
    by (simp add: word_unat_eq_iff unsigned_take_bit_eq take_bit_nat_eq_self word_less_nat_alt)
  have "(0x0100 :: u32) = push_bit 8 1" by (simp add: push_bit_eq_mult)
  moreover have "take_bit 8 r AND push_bit 8 w = 0" for w by (rule bit_word_eqI) (auto simp: bit_simps)
  ultimately show ?thesis by (metis r)
qed

text \<open>One look at the receiver.\<close>

definition reads :: "('s \<Rightarrow> u8 list) \<Rightarrow> ('s \<Rightarrow> nat \<Rightarrow> u32) \<Rightarrow> ('s \<Rightarrow> nat) \<Rightarrow> nat \<Rightarrow> 's \<Rightarrow> bool \<Rightarrow> nat \<Rightarrow>
    u8 list \<Rightarrow> bool \<Rightarrow> 's \<Rightarrow> bool" where
  "reads sent polls lag d s cr k bs cr' t \<longleftrightarrow>
     bs = lines_after cr (received k (polls s)) \<and> cr' = cr_after cr (received k (polls s))
     \<and> sent t = sent s @ echo bs \<and> polls t = (\<lambda>i. polls s (i + k)) \<and> lag t \<le> d"

lemma received_add: "received (j + k) p = received j p @ received k (\<lambda>i. p (i + j))"
proof (induction j arbitrary: p)
  case (Suc j)
  show ?case using Suc [of "\<lambda>i. p (Suc i)"] by (simp add: received_Suc)
qed simp

lemma reads_trans:
  assumes "reads sent polls lag d s cr j bs cr1 t" "reads sent polls lag d t cr1 k bs' cr' v"
  shows "reads sent polls lag d s cr (j + k) (bs @ bs') cr' v"
  using assms by (simp add: reads_def received_add lines_after_append cr_after_append add.commute add.left_commute)

lemma answer_decoded:
  assumes "r AND 0x0100 \<noteq> 0 \<or> r < (0x0100 :: u32)"
    and "(rv, cr') = (if r AND 0x0100 \<noteq> 0 then (-1, cr) else if r = 13 then (10, True)
      else if r = 10 then if cr then (-1, False) else (r, cr) else (r, False))"
  shows "(rv AND 0x0100 \<noteq> 0 \<longleftrightarrow> rv = -1) \<and> (if rv = -1 then [] else [ucast rv]) = lines_after cr (answer_char r)
    \<and> cr' = cr_after cr (answer_char r)"
proof (cases "r AND 0x0100 = 0")
  case False
  with assms(2) show ?thesis by (simp add: answer_char_def cr_after_def)
next
  case True
  with assms(1) have r: "r < 0x0100" by simp
  then have "r \<noteq> -1" by auto
  then show ?thesis
    using assms(2) True byte_value [OF r, of 13] byte_value [OF r, of 10]
    by (auto simp: answer_char_def cr_after_def lines_after_Cons byte_has_no_flag split: if_splits)
qed

lemma inbyte_wp:
  assumes port: "serial_port d sent polls lag u" "d < fuel" and s: "lag s \<le> d" "plain (polls s)"
  shows "wp (inbyte fuel u cr) (\<lambda>(rv, cr') t. (rv AND 0x0100 \<noteq> 0 \<longleftrightarrow> rv = -1)
      \<and> reads sent polls lag d s cr 1 (if rv = -1 then [] else [ucast rv]) cr' t) (\<lambda>_ _. False) s"
  unfolding inbyte_def
proof (rule wp_seq [OF port_rx [OF port(1)]])
  fix r t assume t: "r = polls s 0 \<and> polls t = (\<lambda>i. polls s (Suc i)) \<and> sent t = sent s \<and> lag t \<le> lag s"
  define dec where "dec = (if r AND 0x0100 \<noteq> 0 then (-1, cr) else if r = 13 then (10, True)
      else if r = 10 then if cr then (-1, False) else (r, cr) else (r, False))"
  obtain rv cr' where dec: "dec = (rv, cr')" by (cases dec)
  have one: "received 1 (polls s) = answer_char r" using t by (simp add: received_def)
  have "r AND 0x0100 \<noteq> 0 \<or> r < 0x0100" using s(2) t by (simp add: plain_def)
  note facts = answer_decoded [OF this dec [unfolded dec_def, symmetric]]
  show "wp (let (rv, cr') = (if r AND 0x0100 \<noteq> 0 then (-1, cr) else if r = 13 then (10, True)
        else if r = 10 then if cr then (-1, False) else (r, cr) else (r, False))
      in thenS (if rv \<noteq> -1 then outbyte fuel u (ucast rv) else retS ()) (\<lambda>_. retS (rv, cr')))
    (\<lambda>(rv, cr') t. (rv AND 0x0100 \<noteq> 0 \<longleftrightarrow> rv = -1)
      \<and> reads sent polls lag d s cr 1 (if rv = -1 then [] else [ucast rv]) cr' t) (\<lambda>_ _. False) t"
    unfolding dec_def [symmetric] dec Let_def prod.case
  proof (rule wp_seq)
    show "wp (if rv \<noteq> -1 then outbyte fuel u (ucast rv) else retS ())
        (\<lambda>_ v. sent v = sent s @ echo (if rv = -1 then [] else [ucast rv]) \<and> polls v = polls t \<and> lag v \<le> d) (\<lambda>_ _. False) t"
      using outbyte_wp [OF port, of t "ucast rv"] t s(1) by (auto simp: wp_retS elim!: wp_mono)
  next
    fix v assume "sent v = sent s @ echo (if rv = -1 then [] else [ucast rv]) \<and> polls v = polls t \<and> lag v \<le> d"
    with facts t one show "wp (retS (rv, cr')) (\<lambda>(rv, cr') t. (rv AND 0x0100 \<noteq> 0 \<longleftrightarrow> rv = -1)
      \<and> reads sent polls lag d s cr 1 (if rv = -1 then [] else [ucast rv]) cr' t) (\<lambda>_ _. False) v"
      by (simp add: wp_retS reads_def)
  qed
qed

lemma reads_keeps: "reads sent polls lag d s cr k bs cr' t \<Longrightarrow> plain (polls s) \<Longrightarrow> plain (polls t) \<and> lag t \<le> d"
  by (simp add: reads_def plain_shift)

lemma read_first_wp:
  assumes port: "serial_port d sent polls lag u" "d < fuel"
  shows "lag s \<le> d \<Longrightarrow> plain (polls s) \<Longrightarrow> lines_after cr (received n (polls s)) \<noteq> [] \<Longrightarrow>
    wp (read_first n fuel u cr) (\<lambda>(rv, cr') t. \<exists>k. reads sent polls lag d s cr k [ucast rv] cr' t) (\<lambda>_ _. False) s"
proof (induction n arbitrary: s cr)
  case (Suc n)
  show ?case
    unfolding read_first.simps
  proof (rule wp_seq [OF inbyte_wp [OF port Suc.prems(1,2)]], unfold split_paired_all prod.case)
    fix rv :: u32 and cr' t
    assume rv: "(rv AND 0x0100 \<noteq> 0) = (rv = - 1) \<and> reads sent polls lag d s cr 1 (if rv = - 1 then [] else [ucast rv]) cr' t"
    then have flag: "(rv AND 0x0100 \<noteq> 0) = (rv = - 1)"
      and one: "reads sent polls lag d s cr 1 (if rv = - 1 then [] else [ucast rv]) cr' t" by simp_all
    show "wp (if rv AND 0x0100 \<noteq> 0 then read_first n fuel u cr' else retS (rv, cr'))
        (\<lambda>(rv, cr') t. \<exists>k. reads sent polls lag d s cr k [ucast rv] cr' t) (\<lambda>_ _. False) t"
    proof (cases "rv = - 1")
      case True
      with one have none: "reads sent polls lag d s cr 1 [] cr' t" by simp
      then have "lines_after cr' (received n (polls t)) \<noteq> []"
        using Suc.prems(3) by (simp add: reads_def received_Suc lines_after_append)
      with reads_keeps [OF none Suc.prems(2)]
      have "wp (read_first n fuel u cr') (\<lambda>(rv, cr'') v. \<exists>k. reads sent polls lag d t cr' k [ucast rv] cr'' v) (\<lambda>_ _. False) t"
        by (intro Suc.IH) simp_all
      moreover have "\<exists>k. reads sent polls lag d s cr k bs cr'' v" if "reads sent polls lag d t cr' k bs cr'' v" for k bs cr'' v
        using reads_trans [OF none that] by auto
      ultimately show ?thesis
        using True flag by (auto elim!: wp_mono)
    next
      case False
      with one flag show ?thesis by (auto simp: wp_retS)
    qed
  qed
qed simp

text \<open>Where a read has got to that had \<open>nr\<close> characters in the buffer before.\<close>

definition read_to :: "nat \<Rightarrow> nat \<Rightarrow> u8 list \<Rightarrow> u8 list \<Rightarrow> nat \<Rightarrow> u8 list \<Rightarrow> bool" where
  "read_to len nr buf bs nr' buf' \<longleftrightarrow>
     nr' = nr + length bs \<and> nr' \<le> max len nr \<and> length buf' = length buf \<and> take nr' buf' = take nr buf @ bs"

lemma read_to_char:
  assumes "nr < len" "len \<le> length buf" "read_to len (Suc nr) (buf[nr := c]) bs nr' buf'"
  shows "read_to len nr buf (c # bs) nr' buf'"
proof -
  have "take (Suc nr) (buf[nr := c]) = take nr buf @ [c]"
    using assms(1,2) by (simp add: take_Suc_conv_app_nth)
  with assms show ?thesis by (auto simp: read_to_def)
qed

lemma read_more_wp:
  assumes port: "serial_port d sent polls lag u" "d < fuel"
  shows "lag s \<le> d \<Longrightarrow> plain (polls s) \<Longrightarrow> len \<le> length buf \<Longrightarrow>
    wp (read_more fuel u len nr buf cr)
      (\<lambda>(nr', buf', cr') t. \<exists>k bs. reads sent polls lag d s cr k bs cr' t \<and> read_to len nr buf bs nr' buf') (\<lambda>_ _. False) s"
proof (induction "len - nr" arbitrary: s cr nr buf)
  case 0
  have "reads sent polls lag d s cr 0 [] cr s" "read_to len nr buf [] nr buf"
    using 0 by (simp_all add: reads_def cr_after_def read_to_def)
  with 0 show ?case by (subst read_more.simps) (auto simp: wp_retS)
next
  case (Suc m)
  then have nr: "nr < len" by simp
  have "wp (thenS (inbyte fuel u cr) (\<lambda>(rv, cr).
        if rv AND 0x0100 = 0
        then thenS (liftS (aset buf nr (ucast rv))) (\<lambda>buf. read_more fuel u len (nr + 1) buf cr)
        else retS (nr, buf, cr)))
      (\<lambda>(nr', buf', cr') t. \<exists>k bs. reads sent polls lag d s cr k bs cr' t \<and> read_to len nr buf bs nr' buf') (\<lambda>_ _. False) s"
  proof (rule wp_seq [OF inbyte_wp [OF port Suc.prems(1,2)]], unfold split_paired_all prod.case)
    fix rv :: u32 and cr' t
    assume rv: "(rv AND 0x0100 \<noteq> 0) = (rv = - 1) \<and> reads sent polls lag d s cr 1 (if rv = - 1 then [] else [ucast rv]) cr' t"
    then have flag: "(rv AND 0x0100 \<noteq> 0) = (rv = - 1)"
      and one: "reads sent polls lag d s cr 1 (if rv = - 1 then [] else [ucast rv]) cr' t" by simp_all
    show "wp (if rv AND 0x0100 = 0
          then thenS (liftS (aset buf nr (ucast rv))) (\<lambda>buf. read_more fuel u len (nr + 1) buf cr')
          else retS (nr, buf, cr'))
        (\<lambda>(nr', buf', cr') t. \<exists>k bs. reads sent polls lag d s cr k bs cr' t \<and> read_to len nr buf bs nr' buf')
        (\<lambda>_ _. False) t"
    proof (cases "rv = - 1")
      case True
      moreover have "read_to len nr buf [] nr buf" using nr by (simp add: read_to_def)
      ultimately show ?thesis using one flag by (auto simp: wp_retS)
    next
      case False
      with one have char: "reads sent polls lag d s cr 1 [ucast rv] cr' t" by simp
      let ?buf = "buf[nr := ucast rv]"
      from reads_keeps [OF char Suc.prems(2)]
      have "wp (read_more fuel u len (Suc nr) ?buf cr')
          (\<lambda>(nr', buf', cr'') v. \<exists>k bs. reads sent polls lag d t cr' k bs cr'' v \<and> read_to len (Suc nr) ?buf bs nr' buf')
          (\<lambda>_ _. False) t"
        using Suc.hyps(2) Suc.prems(3) by (intro Suc.hyps(1)) simp_all
      moreover have "\<exists>k bs. reads sent polls lag d s cr k bs cr'' v \<and> read_to len nr buf bs nr' buf'"
        if "reads sent polls lag d t cr' k bs cr'' v" "read_to len (Suc nr) ?buf bs nr' buf'" for k bs cr'' v nr' buf'
        using reads_trans [OF char that(1)] read_to_char [OF nr Suc.prems(3) that(2)] by auto
      ultimately have "wp (read_more fuel u len (Suc nr) ?buf cr')
          (\<lambda>(nr', buf', cr') t. \<exists>k bs. reads sent polls lag d s cr k bs cr' t \<and> read_to len nr buf bs nr' buf')
          (\<lambda>_ _. False) t"
        by (auto elim!: wp_mono)
      with False flag nr Suc.prems(3) show ?thesis by (simp add: liftS_Inr)
    qed
  qed
  with nr show ?case by (subst read_more.simps) simp
qed

text \<open>C35. A read from the console returns at least one character and never more than were asked for; what it returns is
  what the receiver has given, each end of a line turned into a line feed, and it has been echoed.\<close>

theorem read_r_reads_lines:
  assumes "serial_port d sent polls lag u" "d < fuel" "lag s \<le> d" "plain (polls s)"
    and "lines_after cr (received n (polls s)) \<noteq> []" "0 < len" "len \<le> length buf"
  shows "wp (read_r n fuel u 0 buf len cr)
    (\<lambda>(err, nr, buf', cr') t. err = None \<and> 0 < nr \<and> nr \<le> int len \<and> length buf' = length buf
       \<and> (\<exists>k. take (nat nr) buf' = lines_after cr (received k (polls s)) \<and> cr' = cr_after cr (received k (polls s))
            \<and> sent t = sent s @ echo (take (nat nr) buf') \<and> polls t = (\<lambda>i. polls s (i + k)) \<and> lag t \<le> d))
    (\<lambda>_ _. False) s"
proof -
  have "wp (thenS (read_first n fuel u cr) (\<lambda>(rv, cr). thenS (liftS (aset buf 0 (ucast rv))) (\<lambda>buf.
      thenS (read_more fuel u len 1 buf cr) (\<lambda>(nr, buf, cr). retS (None, int nr, buf, cr)))))
    (\<lambda>(err, nr, buf', cr') t. err = None \<and> (\<exists>m k bs. nr = int m \<and> 0 < m
       \<and> reads sent polls lag d s cr k bs cr' t \<and> read_to len 0 buf bs m buf')) (\<lambda>_ _. False) s"
  proof (rule wp_seq [OF read_first_wp [OF assms(1-5)]], unfold split_paired_all prod.case, elim exE)
    fix rv :: u32 and cr1 t k assume one: "reads sent polls lag d s cr k [ucast rv] cr1 t"
    let ?buf = "buf[0 := ucast rv]"
    have "wp (thenS (read_more fuel u len 1 ?buf cr1) (\<lambda>(nr, buf, cr). retS (None, int nr, buf, cr)))
      (\<lambda>(err, nr, buf', cr') t. err = None \<and> (\<exists>m k bs. nr = int m \<and> 0 < m
         \<and> reads sent polls lag d s cr k bs cr' t \<and> read_to len 0 buf bs m buf')) (\<lambda>_ _. False) t"
    proof (rule wp_seq, rule read_more_wp [OF assms(1,2)], unfold split_paired_all prod.case, goal_cases)
      case (4 nr buf' cr' v)
      then obtain k' bs where more: "reads sent polls lag d t cr1 k' bs cr' v" "read_to len 1 ?buf bs nr buf'" by blast
      from reads_trans [OF one more(1)] read_to_char [of 0 len buf "ucast rv" bs nr buf'] more(2) assms(6,7)
      have "reads sent polls lag d s cr (k + k') (ucast rv # bs) cr' v" "read_to len 0 buf (ucast rv # bs) nr buf'" by simp_all
      moreover have "0 < nr" using more(2) by (simp add: read_to_def)
      ultimately show ?case by (auto simp: wp_retS)
    qed (use reads_keeps [OF one assms(4)] assms(7) in simp_all)
    moreover have "0 < length buf" using assms(6,7) by linarith
    ultimately show "wp (thenS (liftS (aset buf 0 (ucast rv))) (\<lambda>buf.
        thenS (read_more fuel u len 1 buf cr1) (\<lambda>(nr, buf, cr). retS (None, int nr, buf, cr))))
      (\<lambda>(err, nr, buf', cr') t. err = None \<and> (\<exists>m k bs. nr = int m \<and> 0 < m
         \<and> reads sent polls lag d s cr k bs cr' t \<and> read_to len 0 buf bs m buf')) (\<lambda>_ _. False) t"
      by (simp add: liftS_Inr)
  qed
  then have "wp (read_r n fuel u 0 buf len cr) (\<lambda>(err, nr, buf', cr') t. err = None \<and> (\<exists>m k bs. nr = int m \<and> 0 < m
       \<and> reads sent polls lag d s cr k bs cr' t \<and> read_to len 0 buf bs m buf')) (\<lambda>_ _. False) s"
    by (simp add: read_r_def)
  then show ?thesis by (rule wp_mono) (auto simp: reads_def read_to_def)
qed

subsection \<open>Witnesses\<close>

text \<open>A port that is always ready; its state is what has been sent and how often the receiver was looked at.\<close>

definition typed :: "nat \<Rightarrow> u32" where
  "typed i = (if i = 1 then 0x68 else if i = 2 then 13 else if i = 3 then 10 else if i = 4 then 0x69 else 0x100)"

definition ready_port :: "(u8 list \<times> nat) console" where
  "ready_port = \<lparr>co_fifo = retS 0x010000, co_tx = (\<lambda>c. modS (\<lambda>s. (fst s @ [ucast c], snd s))),
     co_txstate = retS 0, co_rx = (\<lambda>s. Inr (typed (snd s), (fst s, Suc (snd s))))\<rparr>"

lemma ready_port_ok: "serial_port 0 fst (\<lambda>s i. typed (snd s + i)) (\<lambda>_. 0) ready_port"
  by (simp add: serial_port_def ready_port_def wp_simps) (simp add: wp_def)

lemma typed_plain: "plain (\<lambda>i. typed (0 + i))"
  by (simp add: plain_def typed_def)

theorem txdecimal_prints_witness:
  "wp (txdecimal 1 ready_port (\<lambda>_. 0) (- 42) False) (\<lambda>_ t. fst t = [45, 52, 50]) (\<lambda>_ _. False) ([], 0)
   \<and> wp (txdecimal 1 ready_port (\<lambda>_. 0) 0x80000000 False) (\<lambda>_ t. fst t = [45]) (\<lambda>_ _. False) ([], 0)"
proof
  have "decimal 42 = [52, 50]" by (simp add: decimal.simps [of 42] decimal.simps [of 4])
  then show "wp (txdecimal 1 ready_port (\<lambda>_. 0) (- 42) False) (\<lambda>_ t. fst t = [45, 52, 50]) (\<lambda>_ _. False) ([], 0)"
    using txdecimal_prints [OF ready_port_ok, where fuel = 1 and s = "([], 0)" and g = "\<lambda>_. 0" and val = "- 42" and cr = False] by (auto elim!: wp_mono)
  show "wp (txdecimal 1 ready_port (\<lambda>_. 0) 0x80000000 False) (\<lambda>_ t. fst t = [45]) (\<lambda>_ _. False) ([], 0)"
    using txdecimal_prints [OF ready_port_ok, where fuel = 1 and s = "([], 0)" and g = "\<lambda>_. 0" and val = "0x80000000" and cr = False] by (auto elim!: wp_mono)
qed

theorem read_r_reads_lines_witness:
  "wp (read_r 2 1 ready_port 0 [0, 0, 0, 0, 0, 0, 0, 0] 8 False)
    (\<lambda>(err, nr, buf', cr') t. 0 < nr \<and> (\<exists>k. take (nat nr) buf' = line_ends (received k typed))) (\<lambda>_ _. False) ([], 0)"
proof -
  have "lines_after False (received 2 (\<lambda>i. typed (snd ([] :: u8 list, 0) + i))) \<noteq> []"
    by (simp add: received_def answer_char_def typed_def lines_after_def upt_conv_Cons)
  from read_r_reads_lines [OF ready_port_ok _ _ _ this, where fuel = 1 and len = 8 and buf = "[0, 0, 0, 0, 0, 0, 0, 0]"] typed_plain
  show ?thesis by (auto simp: lines_after_def elim!: wp_mono)
qed

end
