(* ===== verification/WbRegs.thy ===== *)
theory WbRegs
  imports CText ZipLoad
begin

text \<open>
  \<open>sw/host/wbregs.cpp\<close>, which reads or writes one register of the board from the command line, and
  \<open>sw/host/regdefs.cpp\<close>, the names of the registers. A C string is the list of its bytes without the
  zero at its end. A map file is the list of its lines as \<open>fgets\<close> gives them. The bus is an argument. What
  is printed is a value of a type of its own.
\<close>

subsection \<open>Strings\<close>

definition text_of :: "string \<Rightarrow> u8 list" where
  "text_of s = map of_char s"

definition char_at :: "u8 list \<Rightarrow> u8" where
  "char_at s = (case s of [] \<Rightarrow> 0 | c # cs \<Rightarrow> c)"

definition strcasecmp_eq :: "u8 list \<Rightarrow> u8 list \<Rightarrow> bool" where
  "strcasecmp_eq s t \<longleftrightarrow> map c_tolower s = map c_tolower t"

text \<open>\<open>strtoul(s, NULL, 0)\<close>.\<close>

definition digit_of :: "u8 \<Rightarrow> nat" where
  "digit_of c =
     (if c_isdigit c then unat c - 48 else if c_isalpha c then unat (c_tolower c) - 87 else 36)"

definition number_base :: "u8 list \<Rightarrow> nat \<times> u8 list" where
  "number_base s = (case s of
     c # x # d # _ \<Rightarrow>
       if c = 48 \<and> c_tolower x = 120 \<and> digit_of d < 16 then (16, drop 2 s)
       else if c = 48 then (8, s) else (10, s)
   | _ \<Rightarrow> if char_at s = 48 then (8, s) else (10, s))"

definition strtoul0 :: "u8 list \<Rightarrow> u64" where
  "strtoul0 s =
     (let s = dropWhile c_isspace s;
          neg = (char_at s = 45);
          s = (if char_at s = 43 \<or> char_at s = 45 then tl s else s);
          (base, s) = number_base s;
          v = foldl (\<lambda>v c. base * v + digit_of c) 0 (takeWhile (\<lambda>c. digit_of c < base) s)
      in if 2 ^ 64 \<le> v then - 1 else if neg then - of_nat v else of_nat v)"

text \<open>\<open>strtok\<close> with the delimiters blank, tab and line feed: the token and what follows it.\<close>

definition delimiter :: "u8 \<Rightarrow> bool" where
  "delimiter c \<longleftrightarrow> c = 32 \<or> c = 9 \<or> c = 10"

definition strtok_line :: "u8 list \<Rightarrow> (u8 list \<times> u8 list) option" where
  "strtok_line s = (case dropWhile delimiter s of
     [] \<Rightarrow> None
   | c # cs \<Rightarrow> Some (takeWhile (\<lambda>c. \<not> delimiter c) (c # cs), tl (dropWhile (\<lambda>c. \<not> delimiter c) (c # cs))))"

subsection \<open>The names of the registers\<close>

definition raw_bregs :: "(u32 \<times> u8 list) list" where
  "raw_bregs =
     [(0x00400000, text_of ''BUSTIMER''), (0x00800000, text_of ''WATCHDOG''), (0x00c00004, text_of ''UFIFO''),
      (0x00c00008, text_of ''RX''), (0x00c0000c, text_of ''TX''), (0x01000000, text_of ''BUILDTIME''),
      (0x01000004, text_of ''BUSERR''), (0x01000008, text_of ''PIC''), (0x0100000c, text_of ''GPIO''),
      (0x0100000c, text_of ''GPI''), (0x0100000c, text_of ''GPO''), (0x01000010, text_of ''PWRCOUNT''),
      (R_VERSION, text_of ''VERSION''), (0x01400000, text_of ''RAM''), (0x02000000, text_of ''SDRAM''),
      (R_ZIPCTRL, text_of ''CPU''), (R_ZIPDATA, text_of ''CPUD'')]"

definition addrdecode :: "u8 list \<Rightarrow> u32 res" where
  "addrdecode v =
     (if c_isalpha (char_at v) then
        case find (\<lambda>(a, n). strcasecmp_eq v n) raw_bregs of
          Some (a, n) \<Rightarrow> Inr a
        | None \<Rightarrow>
            if strcasecmp_eq v (text_of ''CPU'') then Inr R_ZIPCTRL
            else if strcasecmp_eq v (text_of ''CPUD'') then Inr R_ZIPDATA
            else Inl (ExitWith (-2))
      else Inr (ucast (strtoul0 v)))"

definition addrname :: "u32 \<Rightarrow> u8 list option" where
  "addrname v = (case find (\<lambda>(a, n). a = v) raw_bregs of Some (a, n) \<Rightarrow> Some n | None \<Rightarrow> None)"

subsection \<open>Map files\<close>

definition isvalue :: "u8 list \<Rightarrow> bool" where
  "isvalue v =
     (let p = dropWhile c_isspace v;
          p = (if char_at p = 43 \<or> char_at p = 45 then tl p else p);
          p = (if char_at p = 43 then tl p else p);
          p = (if char_at p = 48 then let p = tl p in if c_tolower (char_at p) = 120 then tl p else p else p)
      in c_isdigit (char_at p))"

text \<open>The address and the name of a line that has just these two.\<close>

definition map_line :: "u8 list \<Rightarrow> (u8 list \<times> u8 list) option" where
  "map_line line = (case strtok_line line of
     None \<Rightarrow> None
   | Some (astr, r) \<Rightarrow> (case strtok_line r of
       None \<Rightarrow> None
     | Some (nstr, r) \<Rightarrow> (case strtok_line r of
         Some _ \<Rightarrow> None
       | None \<Rightarrow> if isvalue astr then Some (astr, nstr) else None)))"

fun map_address :: "u8 list list \<Rightarrow> u8 list \<Rightarrow> u32" where
  "map_address [] name = 0"
| "map_address (line # lines) name = (case map_line line of
     Some (astr, nstr) \<Rightarrow> if strcasecmp_eq nstr name then ucast (strtoul0 astr) else map_address lines name
   | None \<Rightarrow> map_address lines name)"

fun map_name :: "u8 list list \<Rightarrow> u32 \<Rightarrow> u8 list option" where
  "map_name [] val = None"
| "map_name (line # lines) val = (case map_line line of
     Some (astr, nstr) \<Rightarrow> if strtoul0 astr = ucast val then Some nstr else map_name lines val
   | None \<Rightarrow> map_name lines val)"

subsection \<open>The command line\<close>

text \<open>The loop rewrites \<open>argv\<close> while it reads it: the arguments that are no options move to the front.\<close>

record wb_options =
  wo_decimal :: bool
  wo_map :: "u8 list option"
  wo_host :: "u8 list"
  wo_port :: u32

definition wb_defaults :: wb_options where
  "wb_defaults = \<lparr>wo_decimal = False, wo_map = None, wo_host = text_of ''localhost'', wo_port = 8363\<rparr>"

definition argv_at :: "u8 list list \<Rightarrow> int \<Rightarrow> u8 list res" where
  "argv_at argv i = (if i < 0 then Inl OutOfBounds else aget argv (nat i))"

definition argv_set :: "u8 list list \<Rightarrow> int \<Rightarrow> u8 list \<Rightarrow> u8 list list res" where
  "argv_set argv i s = (if i < 0 then Inl OutOfBounds else aset argv (nat i) s)"

text \<open>One argument: the option with its value, if it has one; \<open>argn\<close> and \<open>skp\<close> have moved on.\<close>

definition wb_option :: "int \<Rightarrow> u8 list list \<Rightarrow> u8 list \<Rightarrow> int \<Rightarrow> int \<Rightarrow> wb_options \<Rightarrow> (int \<times> int \<times> wb_options) res" where
  "wb_option argc argv arg argn skp wo =
     (let c = char_at (tl arg);
          valued = (\<lambda>set. if argn + skp + 1 \<ge> argc then Inl (ExitWith 0)
            else bindE (argv_at argv (argn + skp + 1)) (\<lambda>v. Inr (argn - 1, skp + 1, set v)))
      in
      bindE (if c = 100 then Inr (argn, skp, wo\<lparr>wo_decimal := True\<rparr>)
        else if c = 109 then valued (\<lambda>v. wo\<lparr>wo_map := Some v\<rparr>)
        else if c = 110 then valued (\<lambda>v. wo\<lparr>wo_host := v\<rparr>)
        else if c = 112 then valued (\<lambda>v. wo\<lparr>wo_port := ucast (strtoul0 v)\<rparr>)
        else Inl (ExitWith 0)) (\<lambda>(argn, skp, wo). Inr (argn - 1, skp + 1, wo)))"

text \<open>In each round \<open>argn + skp\<close> grows by one.\<close>

fun wb_args :: "nat \<Rightarrow> int \<Rightarrow> u8 list list \<Rightarrow> int \<Rightarrow> int \<Rightarrow> wb_options \<Rightarrow> (u8 list list \<times> int \<times> wb_options) res" where
  "wb_args 0 argc argv argn skp wo = Inl NoReturn"
| "wb_args (Suc n) argc argv argn skp wo =
     (if argn < argc - skp then
        bindE (argv_at argv (argn + skp)) (\<lambda>arg.
        if char_at arg = 45
        then bindE (wb_option argc argv arg argn skp wo) (\<lambda>(argn, skp, wo). wb_args n argc argv (argn + 1) skp wo)
        else bindE (argv_set argv argn arg) (\<lambda>argv. wb_args n argc argv (argn + 1) skp wo))
      else Inr (argv, argc - skp, wo))"

subsection \<open>The access\<close>

datatype wb_line =
    WbDecimal u32
  | WbShown u32 "u8 list" u32
  | WbWritten u32 "u8 list" u32
  | WbBusError u32 "u8 list"
  | WbInterrupted

text \<open>The address and the name; \<open>mp\<close> are the lines of the map file, if one is given.\<close>

definition wb_address :: "u8 list list option \<Rightarrow> u8 list \<Rightarrow> (u32 \<times> u8 list option) res" where
  "wb_address mp named_address =
     (if isvalue named_address then
        let address = ucast (strtoul0 named_address);
            nm = (case mp of Some lines \<Rightarrow> map_name lines address | None \<Rightarrow> None)
        in Inr (address, case nm of None \<Rightarrow> addrname address | Some _ \<Rightarrow> nm)
      else case mp of
        Some lines \<Rightarrow>
          let address = map_address lines named_address; nm = map_name lines address in
          (case nm of
             None \<Rightarrow> bindE (addrdecode named_address) (\<lambda>address. Inr (address, addrname address))
           | Some _ \<Rightarrow> Inr (address, nm))
      | None \<Rightarrow> bindE (addrdecode named_address) (\<lambda>address. Inr (address, addrname address)))"

definition wb_read :: "'s devbus \<Rightarrow> bool \<Rightarrow> u32 \<Rightarrow> u8 list \<Rightarrow> ('s, wb_line) prog" where
  "wb_read bus use_decimal address nm =
     catchS (thenS (db_readio bus address) (\<lambda>v.
         retS (if use_decimal then WbDecimal v else WbShown address nm v)))
       (\<lambda>e. case e of BusErr _ \<Rightarrow> retS (WbBusError address nm) | Thrown _ \<Rightarrow> throwS (ExitWith 1) | _ \<Rightarrow> throwS e)"

definition wb_write :: "'s devbus \<Rightarrow> u32 \<Rightarrow> u8 list \<Rightarrow> u32 \<Rightarrow> ('s, wb_line) prog" where
  "wb_write bus address nm value =
     catchS (thenS (db_writeio bus address value) (\<lambda>_. retS (WbWritten address nm value)))
       (\<lambda>e. case e of BusErr _ \<Rightarrow> throwS (ExitWith 1) | Thrown _ \<Rightarrow> throwS (ExitWith 1) | _ \<Rightarrow> throwS e)"

text \<open>\<open>files\<close> gives the lines of a file that can be read; \<open>poll\<close> is that of the bus.\<close>

definition wbregs :: "'s devbus \<Rightarrow> ('s, bool) prog \<Rightarrow> (u8 list \<Rightarrow> u8 list list option) \<Rightarrow> u8 list list \<Rightarrow>
    ('s, wb_line list) prog" where
  "wbregs bus poll files argv =
     thenS (liftS (wb_args (Suc (length argv)) (int (length argv)) argv 0 1 wb_defaults)) (\<lambda>(argv, argc, wo).
     if argc < 1 \<or> argc > 2 then throwS (ExitWith (-1))
     else if (case wo_map wo of Some f \<Rightarrow> files f = None | None \<Rightarrow> False) then throwS (ExitWith 1)
     else
       thenS (liftS (argv_at argv 0)) (\<lambda>named_address.
       thenS (liftS (wb_address (case wo_map wo of Some f \<Rightarrow> files f | None \<Rightarrow> None) named_address)) (\<lambda>(address, nm).
       let nm = (case nm of None \<Rightarrow> [] | Some s \<Rightarrow> s) in
       thenS (if argc < 2 then wb_read bus (wo_decimal wo) address nm
              else thenS (liftS (argv_at argv 1)) (\<lambda>s. wb_write bus address nm (ucast (strtoul0 s)))) (\<lambda>out.
       thenS poll (\<lambda>b. retS (if b then [out, WbInterrupted] else [out]))))))"

end
