(* ===== verification/WbRegsProps.thy ===== *)
theory WbRegsProps
  imports WbRegs
begin

text \<open>
  What \<open>wbregs\<close> does with its arguments: a register is found under its name, however it is written, and an
  option with a value breaks the arguments.
\<close>

subsection \<open>Arguments\<close>

text \<open>Every round looks at the next argument, so the loop returns.\<close>

lemma wb_option_next:
  "wb_option argc argv arg argn skp wo = Inr (argn', skp', wo') \<Longrightarrow> argn' + 1 + skp' = argn + skp + 1 \<and> argc - skp' \<le> argc - skp"
  by (auto simp: wb_option_def Let_def bindE_Inr_iff split: if_splits)

lemma wb_args_fuel:
  "argc - (argn + skp) \<le> int n \<Longrightarrow> wb_args (Suc n + m) argc argv argn skp wo = wb_args (Suc n) argc argv argn skp wo"
proof (induction n arbitrary: argv argn skp wo)
  case (Suc n)
  have "wb_args (Suc (n + m)) argc argv (argn' + 1) skp' wo' = wb_args (Suc n) argc argv (argn' + 1) skp' wo'"
    if "wb_option argc argv arg argn skp wo = Inr (argn', skp', wo')" for arg argn' skp' wo'
    using Suc.IH [of "argn' + 1" skp' argv wo'] Suc.prems wb_option_next [OF that] by (simp del: wb_args.simps)
  moreover have "wb_args (Suc (n + m)) argc argv' (argn + 1) skp wo = wb_args (Suc n) argc argv' (argn + 1) skp wo" for argv'
    using Suc.IH [of "argn + 1" skp argv' wo] Suc.prems by (simp del: wb_args.simps)
  ultimately show ?case
    by (simp only: wb_args.simps(2) [of "Suc n"] wb_args.simps(2) [of "Suc (n + m)"] add_Suc)
      (auto simp: bindE_def simp del: wb_args.simps split: sum.splits)
qed simp

text \<open>The name of a register, or an address, as the only argument.\<close>

lemma wb_args_plain:
  "char_at v \<noteq> 45 \<Longrightarrow> wb_args (Suc (length [prog, v])) (int (length [prog, v])) [prog, v] 0 1 wb_defaults = Inr ([v, v], 1, wb_defaults)"
  by (simp add: argv_at_def argv_set_def numeral_eq_Suc)

text \<open>The value of an option is taken for the next argument: one that comes first is stored before the start of
  \<open>argv\<close>, and one behind the address replaces it.\<close>

lemma wb_args_option_first:
  assumes "c = 109 \<or> c = 110 \<or> c = 112" "char_at val \<noteq> 45"
  shows "wb_args (Suc (length (prog # (45 # c # opt) # val # rest))) (int (length (prog # (45 # c # opt) # val # rest)))
    (prog # (45 # c # opt) # val # rest) 0 1 wo = Inl OutOfBounds"
proof -
  let ?argv = "prog # (45 # c # opt) # val # rest"
  obtain wo' where "wb_option (int (length ?argv)) ?argv (45 # c # opt) 0 1 wo = Inr (-2, 3, wo')"
    using assms(1) by (auto simp: wb_option_def char_at_def argv_at_def Let_def)
  then show ?thesis
    using assms(2) by (simp add: argv_at_def argv_set_def char_at_def)
qed

lemma wb_args_option_behind:
  assumes "c = 110 \<or> c = 112" "char_at addr \<noteq> 45" "char_at val \<noteq> 45"
  shows "\<exists>wo. wb_args (Suc (length [prog, addr, 45 # c # opt, val])) (int (length [prog, addr, 45 # c # opt, val]))
    [prog, addr, 45 # c # opt, val] 0 1 wb_defaults = Inr ([val, addr, 45 # c # opt, val], 1, wo)
    \<and> wo_decimal wo = False \<and> wo_map wo = None"
proof -
  let ?argv = "[addr, addr, 45 # c # opt, val]"
  obtain wo where wo: "wb_option 4 ?argv (45 # c # opt) 1 1 wb_defaults = Inr (-1, 3, wo)"
    "wo_decimal wo = False" "wo_map wo = None"
    using assms(1) by (auto simp: wb_option_def char_at_def argv_at_def wb_defaults_def Let_def)
  have "char_at (45 # c # opt) = 45" by (simp add: char_at_def)
  with wo assms(2,3) show ?thesis
    by (simp add: argv_at_def argv_set_def numeral_eq_Suc)
qed

text \<open>C33. An option with a value cannot be used: in front it makes the program write before the start of \<open>argv\<close>, and
  behind the address it makes the program go to the value in place of the address.\<close>

theorem wbregs_option_value_misused:
  assumes "char_at val \<noteq> 45" "char_at addr \<noteq> 45"
  shows "wbregs bus poll files (prog # (45 # 109 # opt) # val # rest) s = Inl (OutOfBounds, s)
    \<and> wbregs bus poll files (prog # (45 # 110 # opt) # val # rest) s = Inl (OutOfBounds, s)
    \<and> wbregs bus poll files [prog, addr, 45 # 110 # opt, val] s = wbregs bus poll files [prog, val] s"
proof (intro conjI)
  have "wbregs bus poll files (prog # (45 # c # opt) # val # rest) s = Inl (OutOfBounds, s)"
    if "c = 109 \<or> c = 110 \<or> c = 112" for c
    unfolding wbregs_def wb_args_option_first [OF that assms(1)] by (simp add: thenS_def liftS_def)
  then show "wbregs bus poll files (prog # (45 # 109 # opt) # val # rest) s = Inl (OutOfBounds, s)"
    "wbregs bus poll files (prog # (45 # 110 # opt) # val # rest) s = Inl (OutOfBounds, s)" by simp_all
  from wb_args_option_behind [of 110 addr val prog opt] assms obtain wo where
    "wb_args (Suc (length [prog, addr, 45 # 110 # opt, val])) (int (length [prog, addr, 45 # 110 # opt, val]))
       [prog, addr, 45 # 110 # opt, val] 0 1 wb_defaults = Inr ([val, addr, 45 # 110 # opt, val], 1, wo)"
    "wo_decimal wo = False" "wo_map wo = None" by blast
  then show "wbregs bus poll files [prog, addr, 45 # 110 # opt, val] s = wbregs bus poll files [prog, val] s"
    unfolding wbregs_def wb_args_plain [OF assms(1)]
    by (simp add: liftS_Inr argv_at_def wb_defaults_def del: wb_args.simps)
qed

subsection \<open>Names\<close>

lemma c_tolower_alpha: "c_tolower c = c_tolower b \<Longrightarrow> c_isalpha b \<Longrightarrow> c_isalpha c"
proof -
  assume "c_tolower c = c_tolower b" "c_isalpha b"
  moreover have "c_isalpha x \<longleftrightarrow> 97 \<le> c_tolower x \<and> c_tolower x \<le> 122" for x
  proof -
    have "65 \<le> x \<Longrightarrow> x \<le> 90 \<Longrightarrow> unat (x + 32) = unat x + 32"
      by (simp add: word_le_nat_alt unat_word_ariths)
    then show ?thesis by (auto simp: c_isalpha_def c_tolower_def word_le_nat_alt)
  qed
  ultimately show ?thesis by simp
qed

lemma alpha_no_value:
  assumes "c_isalpha (char_at v)"
  shows "\<not> isvalue v" "char_at v \<noteq> 45"
proof -
  obtain c cs where v: "v = c # cs"
    using assms by (cases v) (auto simp: char_at_def c_isalpha_def)
  with assms have "65 \<le> unat c" by (auto simp: char_at_def c_isalpha_def word_le_nat_alt)
  then have "\<not> c_isspace c" "c \<noteq> 43" "c \<noteq> 45" "c \<noteq> 48" "\<not> c_isdigit c"
    by (auto simp: c_isspace_def c_isdigit_def word_le_nat_alt)
  then show "\<not> isvalue v" "char_at v \<noteq> 45" by (simp_all add: v isvalue_def char_at_def)
qed

text \<open>Each name in the table starts with a letter and is found at its first entry.\<close>

lemma table_rows: "list_all (\<lambda>(a, n). c_isalpha (char_at n) \<and> addrdecode n = Inr a) raw_bregs"
  by code_simp

lemma table_names:
  assumes "addrname a = Some n"
  shows "c_isalpha (char_at n)" "addrdecode n = Inr a"
proof -
  from assms have "(a, n) \<in> set raw_bregs"
    by (auto simp: addrname_def find_Some_iff split: option.splits) (metis nth_mem)
  with table_rows show "c_isalpha (char_at n)" "addrdecode n = Inr a"
    by (auto simp: list_all_iff)
qed

lemma same_name:
  assumes "strcasecmp_eq v n" "c_isalpha (char_at n)"
  shows "c_isalpha (char_at v)" "addrdecode v = addrdecode n"
proof -
  have n: "n \<noteq> []" using assms(2) by (auto simp: char_at_def c_isalpha_def)
  with assms(1) obtain b bs c cs where vn: "n = b # bs" "v = c # cs" "c_tolower c = c_tolower b"
    by (cases n; cases v) (auto simp: strcasecmp_eq_def)
  with assms(2) c_tolower_alpha [OF vn(3)] show v: "c_isalpha (char_at v)" by (simp add: char_at_def)
  have "strcasecmp_eq v = strcasecmp_eq n" using assms(1) by (auto simp: strcasecmp_eq_def)
  with v assms(2) show "addrdecode v = addrdecode n" by (simp add: addrdecode_def)
qed

lemma named_address:
  assumes "addrname a = Some n" "strcasecmp_eq v n"
  shows "char_at v \<noteq> 45" "wb_address None v = Inr (a, Some n)"
proof -
  note n = table_names [OF assms(1)]
  note v = same_name [OF assms(2) n(1)]
  note plain = alpha_no_value [OF v(1)]
  show "char_at v \<noteq> 45" by (rule plain(2))
  show "wb_address None v = Inr (a, Some n)"
    using plain(1) v(2) n(2) assms(1) by (simp add: wb_address_def)
qed

lemma wb_args_two:
  "char_at v \<noteq> 45 \<Longrightarrow> char_at val \<noteq> 45 \<Longrightarrow>
     wb_args (Suc (length [prog, v, val])) (int (length [prog, v, val])) [prog, v, val] 0 1 wb_defaults =
       Inr ([v, val, val], 2, wb_defaults)"
  by (simp add: argv_at_def argv_set_def numeral_eq_Suc)

text \<open>C32. Each register can be read and written under its name, in capital or small letters: the access goes to its
  address and nothing else is done on the bus but to ask for an interrupt.\<close>

theorem wbregs_finds_registers:
  assumes "addrname a = Some n" "strcasecmp_eq v n" "char_at val \<noteq> 45"
  shows "wbregs bus poll files [prog, v] =
      thenS (wb_read bus False a n) (\<lambda>out. thenS poll (\<lambda>b. retS (if b then [out, WbInterrupted] else [out])))
    \<and> wbregs bus poll files [prog, v, val] =
      thenS (wb_write bus a n (ucast (strtoul0 val))) (\<lambda>out. thenS poll (\<lambda>b. retS (if b then [out, WbInterrupted] else [out])))"
proof
  note v = named_address [OF assms(1,2)]
  show "wbregs bus poll files [prog, v] =
      thenS (wb_read bus False a n) (\<lambda>out. thenS poll (\<lambda>b. retS (if b then [out, WbInterrupted] else [out])))"
    unfolding wbregs_def wb_args_plain [OF v(1)]
    by (simp add: liftS_Inr argv_at_def wb_defaults_def v(2) del: wb_args.simps)
  show "wbregs bus poll files [prog, v, val] =
      thenS (wb_write bus a n (ucast (strtoul0 val))) (\<lambda>out. thenS poll (\<lambda>b. retS (if b then [out, WbInterrupted] else [out])))"
    unfolding wbregs_def wb_args_two [OF v(1) assms(3)]
    by (simp add: liftS_Inr argv_at_def wb_defaults_def v(2) del: wb_args.simps)
qed

lemmas strtoul_simps = strtoul0_def number_base_def digit_of_def char_at_def text_of_def c_isspace_def c_isdigit_def
  c_isalpha_def c_tolower_def

text \<open>With a map file an address that does not look like a number to \<open>isvalue\<close>, such as \<open>0xa0\<close>, is looked up
  as a name and becomes the address 0 if the file has a name for that.\<close>

lemma map_file_hides_address:
  "wb_address (Some [text_of ''0x00 start'']) (text_of ''0xa0'') = Inr (0, Some (text_of ''start''))"
proof -
  have line: "map_line (text_of ''0x00 start'') = Some (text_of ''0x00'', text_of ''start'')" by code_simp
  have looks: "\<not> isvalue (text_of ''0xa0'')" "\<not> strcasecmp_eq (text_of ''start'') (text_of ''0xa0'')" by code_simp+
  have zero: "strtoul0 (text_of ''0x00'') = 0" by (simp add: strtoul_simps)
  show ?thesis by (simp add: wb_address_def line looks zero)
qed

subsection \<open>Witnesses\<close>

definition small_bus :: "u32 devbus" where
  "small_bus = \<lparr>db_writeio = (\<lambda>a v s. Inr ((), v)), db_readio = (\<lambda>a s. Inr (s, s)), db_readi = (\<lambda>a n s. Inr (replicate n s, s)),
     db_writei = (\<lambda>a vs s. Inr ((), s))\<rparr>"

theorem wbregs_finds_registers_witness:
  "wbregs small_bus (retS False) (\<lambda>_. None) [[], text_of ''version''] 7 =
      Inr ([WbShown 0x01000014 (text_of ''VERSION'') 7], 7)
    \<and> wbregs small_bus (retS False) (\<lambda>_. None) [[], text_of ''version'', text_of ''0x11''] 7 =
      Inr ([WbWritten 0x01000014 (text_of ''VERSION'') 0x11], 0x11)"
proof -
  have "addrname 0x01000014 = Some (text_of ''VERSION'')" "strcasecmp_eq (text_of ''version'') (text_of ''VERSION'')"
    "char_at (text_of ''0x11'') \<noteq> 45" by code_simp+
  moreover have "strtoul0 (text_of ''0x11'') = 0x11" by (simp add: strtoul_simps)
  ultimately show ?thesis
    using wbregs_finds_registers [of "0x01000014" "text_of ''VERSION''" "text_of ''version''" "text_of ''0x11''" small_bus "retS False" "\<lambda>_. None" "[]"]
    by (simp add: wb_read_def wb_write_def small_bus_def thenS_def catchS_def retS_def)
qed

theorem wbregs_option_value_misused_witness:
  "wbregs small_bus (retS False) (\<lambda>_. None) [[], text_of ''-n'', text_of ''icozip'', text_of ''version''] 7 = Inl (OutOfBounds, 7)
   \<and> wbregs small_bus (retS False) (\<lambda>_. None) [[], text_of ''version'', text_of ''-n'', text_of ''icozip''] 7
     = wbregs small_bus (retS False) (\<lambda>_. None) [[], text_of ''icozip''] 7"
proof -
  have "text_of ''-n'' = [45, 110]" "char_at (text_of ''icozip'') \<noteq> 45" "char_at (text_of ''version'') \<noteq> 45" by code_simp+
  with wbregs_option_value_misused [OF this(2,3), of small_bus "retS False" "\<lambda>_. None" "[]" "[]" "[text_of ''version'']" 7]
  show ?thesis by simp
qed

end
