(* ===== verification/Spec2Isabelle.thy ===== *)
theory Spec2Isabelle
  imports ByteSwap MemSim SramSim HexProps ZopDecode SdramAccess FlashWrite UartProps PPortCable UDiv WaveletProps ZipLoadProps NetServerProps ScopeHex FlashDrvrProps ZipDbgProps MainTbProps ConsoleProps WbRegsProps
begin

text \<open>
  ICO Zip is a computer for an FPGA board, the ZipCPU with its peripherals. This development is about
  the C++ and C software around the hardware: the programs of the host computer, which speak to the
  board over a debugging bus (\<open>src/sw/host\<close>), the simulated chips of the test bench
  (\<open>src/sim/verilated\<close>), and routines that run on the board (\<open>src/sw/board\<close>, \<open>src/sw/zlib\<close>).

  How the parts interact. A host program calls the methods of the bus object \<open>HEXBUS\<close>, which turns
  reads and writes into lines of text. The text travels through an \<open>LLCOMMSI\<close> object, a TCP socket or
  a terminal. In the simulation the other end of the socket is \<open>PPORTSIM\<close> (parallel port) or
  \<open>UARTSIM\<close> (serial line), which feed the simulated board; the chips of the board, static RAM,
  synchronous DRAM, flash and block RAM, are objects that the test bench calls once per clock with
  the values on their pins. The disassembler and the byte order routines serve the host programs
  that load and inspect the memory of the board.

  Conventions (theory Prelude). A C++ object is a record, a method a function from the record and its
  arguments to the new record and the result. \<open>uint32_t\<close> and \<open>unsigned\<close> are 32 bit words, bytes are
  8 bit words, an \<open>int\<close> that wraps or shifts is a word, one that only counts is \<open>nat\<close> or \<open>int\<close>. What
  can fail has type \<^typ>\<open>'a res\<close>: an access outside an array, a failed assertion, a shift out of
  range, a division by zero, an exception and \<open>exit\<close> are values on the left. Methods of the bus keep
  the state of the object at a throw, so they are programs over a state, with \<open>wp\<close> as their total
  correctness. What the operating system, a file, \<open>rand()\<close> or a network peer answers is an argument.
  Trace output is left out. A clocked device runs under \<open>run_machine\<close>, the loop of the test bench;
  the locale \<open>clocked_machine\<close> states that a device keeps an invariant and never fails, and its
  interpretations carry the bounds properties.

  The theories and the parts they model:
  \<^item> LLComms: \<open>sw/host/llcomms.cpp\<close>, the byte transport over an operating system given as a record;
    the locale \<open>scripted_link\<close> states what a connection promises, and a socket with a script of answers
    interprets it.
  \<^item> CText: \<open>sprintf\<close> of hexadecimal numbers and the character classes the bus uses.
  \<^item> HexBus, HexAnswers, HexLink, HexWrite, HexProps: \<open>sw/host/hexbus.cpp\<close>. The model has every
    method. The loops that wait for the peer take fuel; the properties give the fuel in terms of the
    bytes that have to arrive, and claim that the call returns. The properties: a read returns the
    words the bus answered and sends one command per word, with interrupts and at most two idle reports
    before each; an error answer is thrown with its address; a write returns when each word has been
    acknowledged; what the object believes about the bus address is wrong after an incrementing write.
  \<^item> Zopcodes, ZopProps, ZopDecode: \<open>sw/host/zopcodes.cpp\<close>, both instruction tables row by row and the
    printing functions. The disassembler is total; words built from an operation, a register and a
    value are printed as that; the defects of the tables that this showed are stated.
  \<^item> ByteSwap: \<open>sim/verilated/byteswap.cpp\<close>.
  \<^item> MemSim, SramSim: \<open>memsim.cpp\<close>, \<open>sramsim.cpp\<close>; the pipelined memory refines a memory without
    pipeline, delayed; the static RAM is an array of half words with byte lanes.
  \<^item> SdramSim, SdramProps, SdramPower, SdramAccess: \<open>sdramsim.cpp\<close>; an invariant, the power up as a
    refinement of the sequence of the data sheet, latency and bursts, round trip of write and read.
  \<^item> FlashSim, FlashProps, FlashGuard, FlashWrite: \<open>flashsim.cpp\<close>; reads and programming, bit by bit on
    the pins, as functions of the contents, and that nothing changes them without a write enable.
  \<^item> UartSim, UartProps: \<open>uartsim.cpp\<close>; two ends connected by a line carry a byte at every baud rate.
  \<^item> PPortSim, PPortProps, PPortCable: \<open>pportsim.cpp\<close>; no access outside the buffers, the handshake with
    the board, and the bytes of both connections from end to end, clock by clock over the pins of two ports.
  \<^item> UDiv: \<open>sw/zlib/udiv.c\<close> and \<open>umod.c\<close>, 64 bit division, equivalent to the division of words.
  \<^item> Wavelet, WaveletProps: \<open>sw/board/lifting.c\<close>, the wavelet transform by lifting and its inverse.
  \<^item> ZipLoad, ZipLoadProps: \<open>sw/host/zipload.cpp\<close>. The bus is a record of programs (\<open>DEVBUS\<close>), and
    \<open>board_bus\<close> says what the board promises on it. The loader leaves every byte of every section at its
    place and the CPU reset, cleared and pointed at the entry.
  \<^item> FlashDrvr, FlashDrvrProps: \<open>sw/host/flashdrvr.cpp\<close>, which erases and programs the flash through the
    register of its controller. Against a flash that obeys its commands (\<open>flash_board\<close>) a write ends with
    the data in place; what else changes is stated. The waits take fuel, given by the time the flash is busy.
  \<^item> ZipDbg, ZipDbgKeys, ZipDbgProps: \<open>sw/host/zipdbg.cpp\<close>. The debugger reads the halted CPU truly, a value
    that is typed in goes to the register under the cursor, and no key or bus error breaks the shape of
    its state. The screen is modelled as far as it tells which number stands in which cell. The locale
    \<open>array_field\<close> is what the three arrays of registers in the state share.
  \<^item> Scope, ScopeProps, ScopeHex: \<open>sw/host/scopecls.cpp\<close>, reading the logic analyser and writing waveforms;
    ScopeHex puts it on \<open>HEXBUS\<close>, where both ways of reading the samples give the same.
  \<^item> NetPPort, NetPPortProps: the pins and buffers of \<open>sw/host/netpport.cpp\<close>, a refinement of an exchange of
    bytes with a board that follows the handshake; NetServer, NetServerProps: its connections and its
    loop, which bytes go to which connection, and the zero byte that ends it.
  \<^item> WbRegs, WbRegsProps: \<open>sw/host/wbregs.cpp\<close> and \<open>regdefs.cpp\<close>, access to one register by its name or
    address, with the command line and map files. Names lead to their registers; options with a value
    break the arguments. The loop over the arguments has fuel for one round each, which is enough.
  \<^item> Console, ConsoleProps: \<open>sw/board/txfns.c\<close> and \<open>sw/zlib/syscalls.c\<close>, the console of the board. Against
    a port that is busy for a bounded time (\<open>serial_port\<close>) numbers are printed as their digits, and a read
    returns what was typed with the ends of the lines made uniform.
  \<^item> MainTb, MainTbProps: \<open>sim/verilated/main_tb.cpp\<close> and \<open>testb.h\<close>. The test bench around a model of
    the hardware (a record of functions): one clock, the simulation instructions, and loading. Two levels
    of \<open>load\<close> are enough, since its inner call always ends it. A program loaded into the DRAM is what the
    chip answers; the place of a section in the block RAM is wrong; after a break of the CPU the bench
    ends in fourteen clocks, unless the DRAM or a simulation instruction stops it first.

  Three points of the translation. The expression \<open>buf[nread++] = readword()\<close> is evaluated as C++17
  says, the right side first. A \<open>sprintf\<close> whose destination overlaps a later one is modelled by the
  padding it leaves. Plain \<open>char\<close> is signed.

  Not modelled: \<open>dblpipecmdr.cpp\<close> (does not compile against its header), the set up of sockets and
  terminals, the drawing of \<open>zipdbg\<close>, the options of the other command lines, the ELF readers on top of
  \<open>libelf\<close>, the main programs that only put the parts together (\<open>automaster_tb\<close>, those of the scopes,
  \<open>rdsdram\<close>, \<open>wrsdram\<close>, \<open>dumpflash\<close>, \<open>flashid\<close>, \<open>pptest\<close>), the copies of host programs under
  \<open>sw/debounce\<close>, \<open>sw/zlib/emulate.c\<close> (does not compile: it uses names it does not declare),
  \<open>sw/board/cputest.c\<close> and the other programs of the board (assembler and the registers of the board),
  the start-up code of the board, and the hardware itself.
\<close>

end
